(* ===== verification/Prelude.thy ===== *)
theory Prelude
  imports Main Complex_Main "HOL-Library.Option_ord" "HOL-Library.Product_Lexorder"
begin

text \<open>
  Shared vocabulary of the development: keyed tables held as lists (the rows of a relational
  table, the items of a Python list searched by identifier), the SQL functions on nullable
  values, stable minimum selection as Python's \<^verbatim>\<open>min\<close> and \<^verbatim>\<open>sorted\<close> perform it, and
  the generic lemmas about them that every component theory uses.
\<close>

section \<open>Automation collections\<close>

named_theorems table_simps \<open>lookup, replacement and append on keyed tables\<close>
named_theorems sql_simps \<open>nullable arithmetic of PostgreSQL\<close>

section \<open>Common types\<close>

type_synonym uuid = nat \<comment> \<open>a UUID as its 128-bit number\<close>
type_synonym secs = rat \<comment> \<open>timestamps and intervals, in seconds\<close>

section \<open>Nullable values\<close>

text \<open>
  \<^verbatim>\<open>None\<close> is SQL's NULL. \<^verbatim>\<open>GREATEST\<close> ignores NULL arguments, so it is the maximum in
  the order where NULL lies below every value; \<^verbatim>\<open>LEAST\<close> ignores NULL as well and is not a
  minimum of that order.
\<close>

definition sql_greatest :: "'a::linorder option \<Rightarrow> 'a option \<Rightarrow> 'a option" where
  "sql_greatest a b =
     (case a of None \<Rightarrow> b
      | Some x \<Rightarrow> (case b of None \<Rightarrow> Some x | Some y \<Rightarrow> Some (max x y)))"

definition coalesce :: "'a option \<Rightarrow> 'a option \<Rightarrow> 'a option" where
  "coalesce a b = (case a of None \<Rightarrow> b | Some x \<Rightarrow> Some x)"

lemma sql_greatest_max [sql_simps]: "sql_greatest a b = max a b"
  by (auto simp: sql_greatest_def max_def split: option.splits)

lemma coalesce_simps [simp, sql_simps]:
  "coalesce None b = b" "coalesce (Some x) b = Some x" "coalesce a a = a"
  by (auto simp: coalesce_def split: option.splits)

lemma sql_greatest_ge1: "a \<le> sql_greatest a b"
  by (simp add: sql_simps)

lemma sql_greatest_ge2: "b \<le> sql_greatest a b"
  by (simp add: sql_simps)

lemma max_option_Some [simp]: "max (Some x) (Some y) = Some (max x (y :: 'a::linorder))"
  by (auto simp: max_def)

lemma max_option_None [simp]: "max None y = y" "max x None = (x :: 'a::linorder option)"
  by (cases y; simp add: max_def) (cases x; simp add: max_def)

section \<open>Keyed tables\<close>

fun find_by :: "('a \<Rightarrow> 'k) \<Rightarrow> 'k \<Rightarrow> 'a list \<Rightarrow> 'a option" where
  "find_by key k [] = None"
| "find_by key k (x # xs) = (if key x = k then Some x else find_by key k xs)"

definition put_by :: "('a \<Rightarrow> 'k) \<Rightarrow> 'a \<Rightarrow> 'a list \<Rightarrow> 'a list" where
  "put_by key a xs = map (\<lambda>x. if key x = key a then a else x) xs"

lemma find_by_Some_key [dest]: "find_by key k xs = Some x \<Longrightarrow> key x = k"
  by (induction xs) (auto split: if_splits)

lemma find_by_Some_set: "find_by key k xs = Some x \<Longrightarrow> x \<in> set xs"
  by (induction xs) (auto split: if_splits)

lemma find_by_None: "find_by key k xs = None \<longleftrightarrow> k \<notin> key ` set xs"
  by (induction xs) auto

lemma find_by_distinct:
  "distinct (map key xs) \<Longrightarrow> x \<in> set xs \<Longrightarrow> find_by key (key x) xs = Some x"
  by (induction xs) (auto simp: image_iff)

lemma find_by_put_same [table_simps]:
  "find_by key (key a) (put_by key a xs) = (if key a \<in> key ` set xs then Some a else None)"
  by (induction xs) (auto simp: put_by_def)

lemma find_by_put_other [table_simps]:
  "k \<noteq> key a \<Longrightarrow> find_by key k (put_by key a xs) = find_by key k xs"
  by (induction xs) (auto simp: put_by_def)

lemma find_by_append [table_simps]:
  "find_by key k (xs @ ys) =
     (case find_by key k xs of None \<Rightarrow> find_by key k ys | Some x \<Rightarrow> Some x)"
  by (induction xs) auto

lemma map_key_put [table_simps]: "map key (put_by key a xs) = map key xs"
  by (auto simp: put_by_def)

lemma length_put [table_simps]: "length (put_by key a xs) = length xs"
  by (simp add: put_by_def)

lemma set_put_subset: "set (put_by key a xs) \<subseteq> insert a {x \<in> set xs. key x \<noteq> key a}"
  by (auto simp: put_by_def)

lemma put_absent: "key a \<notin> key ` set xs \<Longrightarrow> put_by key a xs = xs"
  by (induction xs) (auto simp: put_by_def image_iff)

lemma put_by_find:
  "find_by key k xs = Some x \<Longrightarrow> key a = k \<Longrightarrow> a \<in> set (put_by key a xs)"
  by (induction xs) (auto simp: put_by_def split: if_splits)

lemma find_append:
  "find P (xs @ ys) = (case find P xs of None \<Rightarrow> find P ys | Some x \<Rightarrow> Some x)"
  by (induction xs) auto

section \<open>First minimal element\<close>

text \<open>
  \<^verbatim>\<open>ORDER BY ... LIMIT 1\<close> and Python's \<^verbatim>\<open>min\<close> with a key return the first row whose
  key is least.
\<close>

fun first_min :: "('a \<Rightarrow> 'k::linorder) \<Rightarrow> 'a list \<Rightarrow> 'a option" where
  "first_min f [] = None"
| "first_min f (x # xs) =
     (case first_min f xs of None \<Rightarrow> Some x | Some y \<Rightarrow> if f x \<le> f y then Some x else Some y)"

lemma first_min_None [simp]: "first_min f xs = None \<longleftrightarrow> xs = []"
  by (induction xs) (auto split: option.splits)

lemma first_min_in: "first_min f xs = Some x \<Longrightarrow> x \<in> set xs"
  by (induction xs arbitrary: x) (auto split: option.splits if_splits)

lemma first_min_le: "first_min f xs = Some x \<Longrightarrow> y \<in> set xs \<Longrightarrow> f x \<le> f y"
  by (induction xs arbitrary: x) (fastforce split: option.splits if_splits)+

lemma first_min_ex: "xs \<noteq> [] \<Longrightarrow> \<exists>x. first_min f xs = Some x"
  by (cases "first_min f xs") auto

section \<open>Sums as results\<close>

definition ok_value :: "'e + 'a \<Rightarrow> 'a option" where
  "ok_value r = (case r of Inl _ \<Rightarrow> None | Inr x \<Rightarrow> Some x)"

definition map_ok :: "('a \<Rightarrow> 'b) \<Rightarrow> 'e + 'a \<Rightarrow> 'e + 'b" where
  "map_ok f r = (case r of Inl e \<Rightarrow> Inl e | Inr x \<Rightarrow> Inr (f x))"

definition bind_ok :: "'e + 'a \<Rightarrow> ('a \<Rightarrow> 'e + 'b) \<Rightarrow> 'e + 'b" where
  "bind_ok r f = (case r of Inl e \<Rightarrow> Inl e | Inr x \<Rightarrow> f x)"

lemma map_ok_simps [simp]: "map_ok f (Inl e) = Inl e" "map_ok f (Inr x) = Inr (f x)"
  by (simp_all add: map_ok_def)

lemma bind_ok_simps [simp]: "bind_ok (Inl e) g = Inl e" "bind_ok (Inr x) g = g x"
  by (simp_all add: bind_ok_def)

lemma ok_value_simps [simp]: "ok_value (Inl e) = None" "ok_value (Inr x) = Some x"
  by (simp_all add: ok_value_def)

lemma map_ok_Inr: "map_ok f r = Inr y \<longleftrightarrow> (\<exists>x. r = Inr x \<and> y = f x)"
  by (cases r) auto

lemma map_ok_Inl: "map_ok f r = Inl e \<longleftrightarrow> r = Inl e"
  by (cases r) auto

lemma bind_ok_Inr: "bind_ok r g = Inr y \<longleftrightarrow> (\<exists>x. r = Inr x \<and> g x = Inr y)"
  by (cases r) auto

end
