(* ===== verification/Run_Queue.thy ===== *)
theory Run_Queue
  imports Prelude
begin

text \<open>
  The shared run queue of \<^verbatim>\<open>src/shared/run_queue/queries.py\<close>: the work queue, recorded
  lease and fencing substrate that the orchestrator and the stateless executors share.

  A database state holds the rows of the \<^verbatim>\<open>run_queue\<close> table and the three other tables the
  statements read. Each SQL constant of the module is one definition over that state, written
  clause by clause: the guard is its WHERE clause, the effect its SET list. Each Python function
  is a second definition that calls it, as the code does. The database clock \<^verbatim>\<open>now()\<close> is
  an argument, and so is the set of rows that other transactions hold locked where a statement
  says SKIP LOCKED.

  Every single-row UPDATE goes through \<^verbatim>\<open>cas\<close>: look the row up by primary key, test the
  guard, store the new row unless the queued-only partial unique index on
  \<^verbatim>\<open>(unit_kind, dedup_key)\<close> refuses it.
\<close>

section \<open>Tables\<close>

datatype qstate = Queued | Leased | Done | Parked

record row =
  unit_id :: uuid
  unit_kind :: string
  dedup_key :: "string option"
  state :: qstate
  priority :: int
  fair_key :: "string option"
  run_after :: secs
  attempts_since_completion :: int
  max_attempts :: int
  lease_token :: int
  input_delivery_capable_lease_token :: "int option"
  leased_by :: "string option"
  last_leased_by :: "string option"
  leased_until :: "secs option"
  input_seq :: "int option"
  consumed_seq :: "int option"
  control_input_seq :: int
  control_consumed_seq :: int
  interrupt_admission_lease_token :: "int option"
  interrupt_admission_turn_id :: "int option"
  queued_at :: secs
  enqueue_ord :: nat
  park_reason :: "string option"
  parked_at :: "secs option"
  last_error :: "string option"
  last_error_signature :: "string option"
  attach_failures :: int

record message =
  msg_id :: uuid
  msg_thread :: uuid
  msg_seq :: int
  msg_rewound :: bool \<comment> \<open>rewound_at IS NOT NULL\<close>
  msg_turn :: "int option"
  msg_role :: string

record delivery =
  dlv_message :: uuid
  dlv_thread :: uuid
  dlv_lane :: string
  dlv_state :: string
  dlv_owner_token :: "int option"

record db =
  queue :: "row list"
  recovery_jobs :: "(uuid \<times> bool) list" \<comment> \<open>job_id, resolved_at IS NOT NULL\<close>
  messages :: "message list"
  deliveries :: "delivery list"
  next_ord :: nat \<comment> \<open>the identity sequence of enqueue_ord\<close>

datatype rq_error = Value_Error | Unique_Violation

section \<open>Vocabulary\<close>

definition UNIT_KIND_SESSION_TURN :: string where "UNIT_KIND_SESSION_TURN = ''session_turn''"
definition UNIT_KIND_WORKER_BATCH :: string where "UNIT_KIND_WORKER_BATCH = ''worker_batch''"
definition UNIT_KIND_BG_TASK :: string where "UNIT_KIND_BG_TASK = ''bg_task''"

definition LEASE_TTL_SECONDS :: secs where "LEASE_TTL_SECONDS = 60"
definition REAPER_GRACE_SECONDS :: secs where "REAPER_GRACE_SECONDS = 30"
definition AFFINITY_GRACE_SECONDS :: secs where "AFFINITY_GRACE_SECONDS = 2"
definition RELEASE_BACKOFF_BASE_SECONDS :: secs where "RELEASE_BACKOFF_BASE_SECONDS = 5"
definition DETERMINISTIC_RELEASE_SIGNATURE :: string where
  "DETERMINISTIC_RELEASE_SIGNATURE = ''release:deterministic''"

datatype enqueue_status =
  ENQUEUE_INSERTED | ENQUEUE_REQUEUED | ENQUEUE_UPDATED | ENQUEUE_INPUT_RECORDED
| ENQUEUE_PARKED | ENQUEUE_DEDUPED

fun old_state_to_status :: "qstate option \<Rightarrow> enqueue_status" where
  "old_state_to_status None = ENQUEUE_INSERTED"
| "old_state_to_status (Some Done) = ENQUEUE_REQUEUED"
| "old_state_to_status (Some Queued) = ENQUEUE_UPDATED"
| "old_state_to_status (Some Leased) = ENQUEUE_INPUT_RECORDED"
| "old_state_to_status (Some Parked) = ENQUEUE_PARKED"

definition retryable_park_reasons :: "string list" where
  "retryable_park_reasons =
     [''attach_failed'', ''shutdown_cancelled'', ''completion_cas_failed'',
      ''reaper_max_attempts'', ''retry_exhausted'', ''model_unavailable'']"

definition ATTACH_FAILURE_BACKOFF_SECONDS :: "secs list" where
  "ATTACH_FAILURE_BACKOFF_SECONDS = [5, 15, 45, 135]"
definition ATTACH_FAILURE_BACKOFF_CAP_SECONDS :: secs where
  "ATTACH_FAILURE_BACKOFF_CAP_SECONDS = 300"
definition ATTACH_FAILURE_SIGNATURE_PARK_THRESHOLD :: int where
  "ATTACH_FAILURE_SIGNATURE_PARK_THRESHOLD = 3"

definition attach_failure_backoff_seconds :: "int \<Rightarrow> secs list \<Rightarrow> secs \<Rightarrow> secs" where
  "attach_failure_backoff_seconds attempts schedule cap =
     (if schedule = [] then min cap 0
      else (let index = max 0 (min (attempts - 1) (int (length schedule) - 1))
            in min (schedule ! nat index) cap))"

definition transient_release_backoff_seconds :: "int \<Rightarrow> secs \<Rightarrow> secs \<Rightarrow> secs" where
  "transient_release_backoff_seconds attempts base cap =
     (let exponent = max 0 (attempts - 1)
      in if exponent \<ge> 32 then cap else min cap (base * 2 ^ nat exponent))"

section \<open>Row access\<close>

definition row_of :: "db \<Rightarrow> uuid \<Rightarrow> row option" where
  "row_of d u = find_by unit_id u (queue d)"

text \<open>
  The index \<^verbatim>\<open>idx_run_queue_dedup\<close> is unique over queued rows with a dedup key.
\<close>

definition same_dedup :: "row \<Rightarrow> row \<Rightarrow> bool" where
  "same_dedup r s \<longleftrightarrow>
     state r = Queued \<and> state s = Queued \<and> dedup_key r \<noteq> None \<and>
     unit_kind r = unit_kind s \<and> dedup_key r = dedup_key s"

definition dedup_conflict :: "row list \<Rightarrow> row \<Rightarrow> bool" where
  "dedup_conflict t r \<longleftrightarrow> (\<exists>s \<in> set t. unit_id s \<noteq> unit_id r \<and> same_dedup r s)"

definition store :: "db \<Rightarrow> row \<Rightarrow> db" where
  "store d r = d\<lparr>queue := put_by unit_id r (queue d)\<rparr>"

definition cas :: "uuid \<Rightarrow> (row \<Rightarrow> bool) \<Rightarrow> (row \<Rightarrow> row) \<Rightarrow> db
                   \<Rightarrow> rq_error + ((row \<times> row) option \<times> db)" where
  "cas u guard eff d =
     (case row_of d u of
        None \<Rightarrow> Inr (None, d)
      | Some r \<Rightarrow>
          if guard r then
            (if dedup_conflict (queue d) (eff r) then Inl Unique_Violation
             else Inr (Some (r, eff r), store d (eff r)))
          else Inr (None, d))"

definition recovery_held :: "db \<Rightarrow> uuid \<Rightarrow> bool" where
  "recovery_held d u \<longleftrightarrow> (\<exists>j \<in> set (recovery_jobs d). fst j = u \<and> \<not> snd j)"

definition held :: "int \<Rightarrow> row \<Rightarrow> bool" where
  "held tok r \<longleftrightarrow> lease_token r = tok \<and> state r = Leased"

text \<open>
  The EXISTS clause of the completing statements: an undelivered event delivery of the thread
  that still has a live message.
\<close>

definition delivery_pending :: "db \<Rightarrow> uuid \<Rightarrow> bool" where
  "delivery_pending d u \<longleftrightarrow>
     (\<exists>v \<in> set (deliveries d).
        dlv_thread v = u \<and> dlv_lane v = ''stateless'' \<and>
        dlv_state v \<in> {''persisted'', ''owned'', ''queued'', ''deferred''} \<and>
        (\<exists>m \<in> set (messages d). msg_id m = dlv_message v \<and> \<not> msg_rewound m))"

section \<open>Admission\<close>

definition fresh_row :: "secs \<Rightarrow> uuid \<Rightarrow> string \<Rightarrow> nat \<Rightarrow> row" where
  "fresh_row now u kind ord =
     \<lparr>unit_id = u, unit_kind = kind, dedup_key = None, state = Queued, priority = 0,
      fair_key = None, run_after = now, attempts_since_completion = 0, max_attempts = 5,
      lease_token = 0, input_delivery_capable_lease_token = None, leased_by = None,
      last_leased_by = None, leased_until = None, input_seq = None, consumed_seq = None,
      control_input_seq = 0, control_consumed_seq = 0,
      interrupt_admission_lease_token = None, interrupt_admission_turn_id = None,
      queued_at = now, enqueue_ord = ord, park_reason = None, parked_at = None,
      last_error = None, last_error_signature = None, attach_failures = 0\<rparr>"

definition insert_row :: "db \<Rightarrow> row \<Rightarrow> db" where
  "insert_row d r = d\<lparr>queue := queue d @ [r], next_ord := Suc (next_ord d)\<rparr>"

definition enqueue_upd ::
  "secs \<Rightarrow> string option \<Rightarrow> int \<Rightarrow> secs option \<Rightarrow> int option \<Rightarrow> row \<Rightarrow> row" where
  "enqueue_upd now fair prio ra inp r =
     (let old = state r in
      r\<lparr>state := (if old = Done then Queued else old),
        queued_at := (if old = Done then now else queued_at r),
        priority := (if old \<in> {Done, Queued} then max (priority r) prio else priority r),
        run_after := (if old = Done then case_option now id ra
                      else if old = Queued then min (run_after r) (case_option now id ra)
                      else run_after r),
        input_seq := sql_greatest (input_seq r) inp,
        fair_key := (if old \<in> {Done, Queued} then coalesce fair (fair_key r)
                     else fair_key r)\<rparr>)"

text \<open>The ON CONFLICT branch of the INSERT: another transaction inserted the row first.\<close>

definition enqueue_merge :: "row \<Rightarrow> row \<Rightarrow> row" where
  "enqueue_merge ex r =
     r\<lparr>priority := max (priority r) (priority ex),
       run_after := min (run_after r) (run_after ex),
       input_seq := sql_greatest (input_seq r) (input_seq ex),
       fair_key := coalesce (fair_key ex) (fair_key r)\<rparr>"

definition enqueue_new ::
  "secs \<Rightarrow> uuid \<Rightarrow> string \<Rightarrow> string option \<Rightarrow> int \<Rightarrow> secs option \<Rightarrow> int option \<Rightarrow> nat \<Rightarrow> row" where
  "enqueue_new now u kind fair prio ra inp ord =
     (fresh_row now u kind ord)\<lparr>fair_key := fair, priority := prio,
        run_after := case_option now id ra, input_seq := inp,
        consumed_seq := map_option (\<lambda>i. i - 1) inp\<rparr>"

text \<open>
  \<^verbatim>\<open>seen\<close> tells whether the statement's snapshot holds the row; it is false for a row that
  a concurrent transaction commits between the snapshot and the INSERT.
\<close>

definition enqueue_sql ::
  "bool \<Rightarrow> secs \<Rightarrow> uuid \<Rightarrow> string \<Rightarrow> string option \<Rightarrow> int \<Rightarrow> secs option \<Rightarrow> int option \<Rightarrow> db
   \<Rightarrow> rq_error + ((qstate option \<times> qstate) \<times> db)" where
  "enqueue_sql seen now u kind fair prio ra inp d =
     (case row_of d u of
        None \<Rightarrow>
          (let r = enqueue_new now u kind fair prio ra inp (next_ord d)
           in Inr ((None, state r), insert_row d r))
      | Some r0 \<Rightarrow>
          if seen then
            map_ok (\<lambda>(res, d'). ((Some (state r0), state (enqueue_upd now fair prio ra inp r0)), d'))
              (cas u (\<lambda>_. True) (enqueue_upd now fair prio ra inp) d)
          else
            (let ex = enqueue_new now u kind fair prio ra inp (next_ord d)
             in map_ok (\<lambda>(res, d'). ((None, state r0), d')) (cas u (\<lambda>_. True) (enqueue_merge ex) d)))"

definition enqueue_dedup_sql ::
  "secs \<Rightarrow> uuid \<Rightarrow> string \<Rightarrow> string \<Rightarrow> string option \<Rightarrow> int \<Rightarrow> secs option \<Rightarrow> int option \<Rightarrow> db
   \<Rightarrow> rq_error + (qstate option \<times> db)" where
  "enqueue_dedup_sql now u kind dk fair prio ra inp d =
     (let r = (enqueue_new now u kind fair prio ra inp (next_ord d))\<lparr>dedup_key := Some dk\<rparr> in
      if \<exists>s \<in> set (queue d). same_dedup r s then Inr (None, d)
      else if row_of d u \<noteq> None then Inl Unique_Violation
      else Inr (Some (state r), insert_row d r))"

definition enqueue_unit ::
  "bool \<Rightarrow> secs \<Rightarrow> uuid \<Rightarrow> string \<Rightarrow> string option \<Rightarrow> string option \<Rightarrow> int \<Rightarrow> secs option
   \<Rightarrow> int option \<Rightarrow> db \<Rightarrow> rq_error + ((enqueue_status \<times> qstate) \<times> db)" where
  "enqueue_unit seen now u kind fair dk prio ra inp d =
     (case dk of
        Some k \<Rightarrow>
          (case enqueue_dedup_sql now u kind k fair prio ra inp d of
             Inl _ \<Rightarrow> Inl Value_Error
           | Inr (None, d') \<Rightarrow> Inr ((ENQUEUE_DEDUPED, Queued), d')
           | Inr (Some s, d') \<Rightarrow> Inr ((ENQUEUE_INSERTED, s), d'))
      | None \<Rightarrow>
          map_ok (\<lambda>((old, new), d'). ((old_state_to_status old, new), d'))
            (enqueue_sql seen now u kind fair prio ra inp d))"


definition record_input_upd :: "secs \<Rightarrow> int \<Rightarrow> string option \<Rightarrow> row \<Rightarrow> row" where
  "record_input_upd now inp fair r =
     (let old = state r in
      r\<lparr>input_seq := sql_greatest (input_seq r) (Some inp),
        state := (if old = Done then Queued else old),
        queued_at := (if old = Done then now else queued_at r),
        run_after := (if old = Done then now else run_after r),
        fair_key := (if old \<in> {Done, Queued} then coalesce fair (fair_key r)
                     else fair_key r)\<rparr>)"

definition record_input_merge :: "int \<Rightarrow> row \<Rightarrow> row" where
  "record_input_merge inp r = r\<lparr>input_seq := sql_greatest (input_seq r) (Some inp)\<rparr>"

definition record_input_sql ::
  "bool \<Rightarrow> secs \<Rightarrow> uuid \<Rightarrow> string \<Rightarrow> int \<Rightarrow> string option \<Rightarrow> db \<Rightarrow> rq_error + (qstate \<times> db)" where
  "record_input_sql seen now u kind inp fair d =
     (case row_of d u of
        None \<Rightarrow>
          (let r = (fresh_row now u kind (next_ord d))\<lparr>fair_key := fair,
                     input_seq := Some inp, consumed_seq := Some (inp - 1)\<rparr>
           in Inr (state r, insert_row d r))
      | Some r0 \<Rightarrow>
          if seen then
            map_ok (\<lambda>(res, d'). (state (record_input_upd now inp fair r0), d'))
              (cas u (\<lambda>_. True) (record_input_upd now inp fair) d)
          else
            map_ok (\<lambda>(res, d'). (state r0, d'))
              (cas u (\<lambda>_. True) (record_input_merge inp) d))"

definition record_input_seq ::
  "bool \<Rightarrow> secs \<Rightarrow> uuid \<Rightarrow> string \<Rightarrow> int \<Rightarrow> string option \<Rightarrow> db \<Rightarrow> rq_error + (qstate \<times> db)" where
  "record_input_seq seen now u kind inp fair d = record_input_sql seen now u kind inp fair d"

text \<open>
  Without pending controls the control baseline jumps to just below the new request, because
  request numbers are global to the thread.
\<close>

definition control_baseline :: "int \<Rightarrow> row \<Rightarrow> int" where
  "control_baseline s r =
     (if control_input_seq r = control_consumed_seq r then max (control_consumed_seq r) (s - 1)
      else control_consumed_seq r)"

definition record_control_upd :: "secs \<Rightarrow> int \<Rightarrow> string option \<Rightarrow> row \<Rightarrow> row" where
  "record_control_upd now s fair r =
     (let old = state r in
      r\<lparr>control_input_seq := max (control_input_seq r) s,
        control_consumed_seq := control_baseline s r,
        state := (if old = Done then Queued else old),
        queued_at := (if old = Done then now else queued_at r),
        run_after := (if old = Done then now else run_after r),
        fair_key := (if old \<in> {Done, Queued} then coalesce fair (fair_key r)
                     else fair_key r)\<rparr>)"

definition record_control_merge :: "int \<Rightarrow> string option \<Rightarrow> row \<Rightarrow> row" where
  "record_control_merge s fair r =
     r\<lparr>control_input_seq := max (control_input_seq r) s,
       control_consumed_seq := control_baseline s r,
       fair_key := coalesce fair (fair_key r)\<rparr>"

definition record_control_sql ::
  "bool \<Rightarrow> secs \<Rightarrow> uuid \<Rightarrow> string \<Rightarrow> int \<Rightarrow> string option \<Rightarrow> int \<Rightarrow> db
   \<Rightarrow> rq_error + (qstate \<times> db)" where
  "record_control_sql seen now u kind s fair baseline d =
     (case row_of d u of
        None \<Rightarrow>
          (let r = (fresh_row now u kind (next_ord d))\<lparr>fair_key := fair,
                     input_seq := Some baseline, consumed_seq := Some baseline,
                     control_input_seq := s, control_consumed_seq := s - 1\<rparr>
           in Inr (state r, insert_row d r))
      | Some r0 \<Rightarrow>
          if seen then
            map_ok (\<lambda>(res, d'). (state (record_control_upd now s fair r0), d'))
              (cas u (\<lambda>_. True) (record_control_upd now s fair) d)
          else
            map_ok (\<lambda>(res, d'). (state r0, d'))
              (cas u (\<lambda>_. True) (record_control_merge s fair) d))"

definition record_control_seq ::
  "bool \<Rightarrow> secs \<Rightarrow> uuid \<Rightarrow> string \<Rightarrow> int \<Rightarrow> int \<Rightarrow> string option \<Rightarrow> db \<Rightarrow> rq_error + (qstate \<times> db)" where
  "record_control_seq seen now u kind s baseline fair d =
     record_control_sql seen now u kind s fair baseline d"

section \<open>Claim and lease\<close>

record claimed_unit =
  cu_unit_id :: uuid
  cu_unit_kind :: string
  cu_fair_key :: "string option"
  cu_lease_token :: int
  cu_input_seq :: "int option"
  cu_consumed_seq :: "int option"
  cu_control_input_seq :: int
  cu_control_consumed_seq :: int
  cu_attempts :: int
  cu_leased_until :: "secs option"

definition claimed_of :: "row \<Rightarrow> claimed_unit" where
  "claimed_of r =
     \<lparr>cu_unit_id = unit_id r, cu_unit_kind = unit_kind r, cu_fair_key = fair_key r,
      cu_lease_token = lease_token r, cu_input_seq = input_seq r,
      cu_consumed_seq = consumed_seq r, cu_control_input_seq = control_input_seq r,
      cu_control_consumed_seq = control_consumed_seq r,
      cu_attempts = attempts_since_completion r, cu_leased_until = leased_until r\<rparr>"

definition claim_update :: "secs \<Rightarrow> string \<Rightarrow> secs \<Rightarrow> row \<Rightarrow> row" where
  "claim_update now pod ttl r =
     r\<lparr>state := Leased,
       lease_token := lease_token r + 1,
       input_delivery_capable_lease_token :=
         (if unit_kind r = UNIT_KIND_SESSION_TURN then Some (lease_token r + 1)
          else input_delivery_capable_lease_token r),
       leased_by := Some pod,
       last_leased_by := Some pod,
       leased_until := Some (now + ttl),
       interrupt_admission_lease_token := None,
       interrupt_admission_turn_id := None,
       attempts_since_completion := attempts_since_completion r + 1\<rparr>"

definition runnable :: "secs \<Rightarrow> string \<Rightarrow> db \<Rightarrow> row \<Rightarrow> bool" where
  "runnable now kind d r \<longleftrightarrow>
     state r = Queued \<and> unit_kind r = kind \<and> run_after r \<le> now \<and>
     \<not> recovery_held d (unit_id r)"

definition claim_eligible :: "secs \<Rightarrow> string \<Rightarrow> string \<Rightarrow> secs \<Rightarrow> db \<Rightarrow> row \<Rightarrow> bool" where
  "claim_eligible now kind pod grace d r \<longleftrightarrow>
     runnable now kind d r \<and>
     (last_leased_by r = None \<or> last_leased_by r = Some pod \<or> queued_at r \<le> now - grace)"

definition claim_order :: "row \<Rightarrow> int \<times> secs \<times> nat" where
  "claim_order r = (- priority r, queued_at r, enqueue_ord r)"

definition claim_mark ::
  "secs \<Rightarrow> string \<Rightarrow> secs \<Rightarrow> row option \<Rightarrow> db \<Rightarrow> rq_error + (claimed_unit option \<times> db)" where
  "claim_mark now pod ttl chosen d =
     (case chosen of
        None \<Rightarrow> Inr (None, d)
      | Some r \<Rightarrow> map_ok (\<lambda>(res, d'). (map_option (claimed_of \<circ> snd) res, d'))
                   (cas (unit_id r) (\<lambda>_. True) (claim_update now pod ttl) d))"

definition claim_sql ::
  "(uuid \<Rightarrow> bool) \<Rightarrow> secs \<Rightarrow> string \<Rightarrow> string \<Rightarrow> secs \<Rightarrow> secs \<Rightarrow> db
   \<Rightarrow> rq_error + (claimed_unit option \<times> db)" where
  "claim_sql locked now kind pod ttl grace d =
     claim_mark now pod ttl
       (first_min claim_order
          (filter (\<lambda>r. claim_eligible now kind pod grace d r \<and> \<not> locked (unit_id r)) (queue d))) d"

definition claim_prefer_sql ::
  "(uuid \<Rightarrow> bool) \<Rightarrow> secs \<Rightarrow> string \<Rightarrow> string \<Rightarrow> secs \<Rightarrow> uuid \<Rightarrow> db
   \<Rightarrow> rq_error + (claimed_unit option \<times> db)" where
  "claim_prefer_sql locked now kind pod ttl u d =
     claim_mark now pod ttl
       (case row_of d u of None \<Rightarrow> None
        | Some r \<Rightarrow> if runnable now kind d r \<and> \<not> locked u then Some r else None) d"

definition claim_unit ::
  "(uuid \<Rightarrow> bool) \<Rightarrow> secs \<Rightarrow> string \<Rightarrow> string \<Rightarrow> uuid option \<Rightarrow> secs \<Rightarrow> secs \<Rightarrow> db
   \<Rightarrow> rq_error + (claimed_unit option \<times> db)" where
  "claim_unit locked now kind pod prefer ttl grace d =
     (case prefer of
        None \<Rightarrow> claim_sql locked now kind pod ttl grace d
      | Some u \<Rightarrow>
          bind_ok (claim_prefer_sql locked now kind pod ttl u d)
            (\<lambda>(res, d'). case res of Some c \<Rightarrow> Inr (Some c, d')
                         | None \<Rightarrow> claim_sql locked now kind pod ttl grace d'))"

definition heartbeat_eff :: "secs \<Rightarrow> secs \<Rightarrow> row \<Rightarrow> row" where
  "heartbeat_eff now ttl r = r\<lparr>leased_until := Some (now + ttl)\<rparr>"

definition heartbeat_unit ::
  "secs \<Rightarrow> uuid \<Rightarrow> int \<Rightarrow> secs \<Rightarrow> db \<Rightarrow> rq_error + (secs option \<times> db)" where
  "heartbeat_unit now u tok ttl d =
     map_ok (\<lambda>(res, d'). (Option.bind res (leased_until \<circ> snd), d'))
       (cas u (held tok) (heartbeat_eff now ttl) d)"

definition open_guard :: "int \<Rightarrow> int \<Rightarrow> row \<Rightarrow> bool" where
  "open_guard tok turn r \<longleftrightarrow>
     unit_kind r = UNIT_KIND_SESSION_TURN \<and> held tok r \<and>
     ((interrupt_admission_lease_token r = None \<and> interrupt_admission_turn_id r = None) \<or>
      (interrupt_admission_lease_token r = Some tok \<and>
       interrupt_admission_turn_id r = Some turn))"

definition open_eff :: "int \<Rightarrow> int \<Rightarrow> row \<Rightarrow> row" where
  "open_eff tok turn r =
     r\<lparr>interrupt_admission_lease_token := Some tok, interrupt_admission_turn_id := Some turn\<rparr>"

definition open_interrupt_admission ::
  "uuid \<Rightarrow> int \<Rightarrow> int \<Rightarrow> db \<Rightarrow> rq_error + (bool \<times> db)" where
  "open_interrupt_admission u tok turn d =
     (if tok \<le> 0 then Inl Value_Error
      else if turn \<le> 0 then Inl Value_Error
      else map_ok (\<lambda>(res, d'). (res \<noteq> None, d'))
             (cas u (open_guard tok turn) (open_eff tok turn) d))"

text \<open>
  The EXISTS clauses of the closing statement. A delivery counts when it was admitted or settled
  under this very lease.
\<close>

definition delivery_owned :: "db \<Rightarrow> uuid \<Rightarrow> int \<Rightarrow> message \<Rightarrow> bool" where
  "delivery_owned d u tok m \<longleftrightarrow>
     (\<exists>v \<in> set (deliveries d).
        dlv_message v = msg_id m \<and> dlv_thread v = u \<and> dlv_lane v = ''stateless'' \<and>
        dlv_state v \<in> {''admitted'', ''settled''} \<and> dlv_owner_token v = Some tok)"

definition close_target :: "db \<Rightarrow> uuid \<Rightarrow> int \<Rightarrow> int \<Rightarrow> int \<Rightarrow> bool" where
  "close_target d u tok turn sq \<longleftrightarrow>
     (\<exists>m \<in> set (messages d).
        msg_thread m = u \<and> msg_seq m = sq \<and> \<not> msg_rewound m \<and> msg_turn m = Some turn \<and>
        (msg_role m = ''human'' \<or> (msg_role m = ''event'' \<and> delivery_owned d u tok m)))"

definition event_delivered :: "db \<Rightarrow> uuid \<Rightarrow> int \<Rightarrow> int \<Rightarrow> bool" where
  "event_delivered d u tok sq \<longleftrightarrow>
     (\<exists>m \<in> set (messages d).
        msg_thread m = u \<and> msg_seq m = sq \<and> msg_role m = ''event'' \<and>
        (\<exists>v \<in> set (deliveries d).
           dlv_message v = msg_id m \<and> dlv_lane v = ''stateless'' \<and>
           dlv_state v \<in> {''admitted'', ''settled''} \<and> dlv_owner_token v = Some tok))"

definition next_human :: "db \<Rightarrow> uuid \<Rightarrow> int option \<Rightarrow> int option" where
  "next_human d u consumed =
     first_min id
       (map msg_seq
          (filter (\<lambda>m. msg_thread m = u \<and> msg_role m = ''human'' \<and> \<not> msg_rewound m \<and>
                       case_option (-1) id consumed < msg_seq m) (messages d)))"

definition close_guard :: "db \<Rightarrow> uuid \<Rightarrow> int \<Rightarrow> int \<Rightarrow> int option \<Rightarrow> row \<Rightarrow> bool" where
  "close_guard d u tok turn done r \<longleftrightarrow>
     unit_kind r = UNIT_KIND_SESSION_TURN \<and> held tok r \<and>
     ((interrupt_admission_lease_token r = Some tok \<and>
       interrupt_admission_turn_id r = Some turn \<and>
       (case done of None \<Rightarrow> True
        | Some sq \<Rightarrow>
            close_target d u tok turn sq \<and>
            (sq \<le> case_option (-1) id (consumed_seq r) \<or>
             event_delivered d u tok sq \<or>
             (case input_seq r of None \<Rightarrow> False
              | Some i \<Rightarrow> sq \<le> i \<and> next_human d u (consumed_seq r) = Some sq)))) \<or>
      (interrupt_admission_lease_token r = None \<and> interrupt_admission_turn_id r = None \<and>
       (case done of None \<Rightarrow> True
        | Some sq \<Rightarrow> sq \<le> case_option (-1) id (consumed_seq r))))"

definition close_eff :: "int option \<Rightarrow> row \<Rightarrow> row" where
  "close_eff done r =
     r\<lparr>interrupt_admission_lease_token := None,
       interrupt_admission_turn_id := None,
       consumed_seq := (case done of None \<Rightarrow> consumed_seq r
                        | Some sq \<Rightarrow> Some (max (case_option (-1) id (consumed_seq r)) sq)),
       attempts_since_completion := (if done = None then attempts_since_completion r else 0)\<rparr>"

definition close_interrupt_admission ::
  "uuid \<Rightarrow> int \<Rightarrow> int \<Rightarrow> int option \<Rightarrow> db \<Rightarrow> rq_error + (bool \<times> db)" where
  "close_interrupt_admission u tok turn done d =
     (if tok \<le> 0 then Inl Value_Error
      else if turn \<le> 0 then Inl Value_Error
      else if case_option False (\<lambda>sq. sq \<le> 0) done then Inl Value_Error
      else map_ok (\<lambda>(res, d'). (res \<noteq> None, d'))
             (cas u (close_guard d u tok turn done) (close_eff done) d))"


section \<open>Completion, release and parking\<close>

text \<open>
  The re-queue rule shared by completion and by the settlement of a parked unit: more input
  than the watermark, a pending control, or an event delivery that waits.
\<close>

definition control_pending :: "row \<Rightarrow> bool" where
  "control_pending r \<longleftrightarrow> control_consumed_seq r < control_input_seq r"

definition complete_input_ahead :: "int option \<Rightarrow> row \<Rightarrow> bool" where
  "complete_input_ahead consumed r \<longleftrightarrow>
     (case input_seq r of None \<Rightarrow> False
      | Some i \<Rightarrow>
          (case consumed of None \<Rightarrow> True
           | Some c \<Rightarrow> max (case_option c id (consumed_seq r)) c < i))"

definition complete_eff :: "db \<Rightarrow> secs \<Rightarrow> int option \<Rightarrow> row \<Rightarrow> row" where
  "complete_eff d now consumed r =
     r\<lparr>consumed_seq := (case consumed of None \<Rightarrow> consumed_seq r
                        | Some c \<Rightarrow> Some (max (case_option c id (consumed_seq r)) c)),
       attempts_since_completion := 0,
       attach_failures := 0,
       last_error := None,
       last_error_signature := None,
       queued_at := now,
       state := (if complete_input_ahead consumed r \<or> control_pending r \<or>
                    delivery_pending d (unit_id r) then Queued else Done),
       leased_by := None,
       leased_until := None,
       interrupt_admission_lease_token := None,
       interrupt_admission_turn_id := None,
       run_after := now\<rparr>"

definition complete_unit ::
  "secs \<Rightarrow> uuid \<Rightarrow> int \<Rightarrow> int option \<Rightarrow> db \<Rightarrow> rq_error + (qstate option \<times> db)" where
  "complete_unit now u tok consumed d =
     map_ok (\<lambda>(res, d'). (map_option (state \<circ> snd) res, d'))
       (cas u (\<lambda>r. held tok r \<and> \<not> recovery_held d (unit_id r)) (complete_eff d now consumed) d)"

definition release_eff :: "secs \<Rightarrow> secs \<Rightarrow> bool \<Rightarrow> secs \<Rightarrow> row \<Rightarrow> row" where
  "release_eff now backoff err base r =
     r\<lparr>state := Queued,
       leased_by := None,
       last_leased_by := None,
       leased_until := None,
       interrupt_admission_lease_token := None,
       interrupt_admission_turn_id := None,
       queued_at := now,
       run_after := now + (if err \<and> backoff \<le> 0 then base * of_int (attempts_since_completion r)
                           else backoff)\<rparr>"

definition next_failures :: "string option \<Rightarrow> row \<Rightarrow> int" where
  "next_failures sig r =
     (if last_error_signature r = sig then attach_failures r + 1 else 1)"

definition release_deterministic_eff ::
  "secs \<Rightarrow> secs \<Rightarrow> bool \<Rightarrow> secs \<Rightarrow> string \<Rightarrow> string option \<Rightarrow> string \<Rightarrow> secs \<Rightarrow> row \<Rightarrow> row" where
  "release_deterministic_eff now backoff err base reason msg sig cap r =
     (let failures = next_failures (Some sig) r;
          park = (max_attempts r \<le> failures)
      in r\<lparr>attach_failures := failures,
           last_error_signature := Some sig,
           last_error := coalesce msg (last_error r),
           state := (if park then Parked else Queued),
           park_reason := (if park then Some reason else park_reason r),
           parked_at := (if park then Some now else parked_at r),
           leased_by := None,
           last_leased_by := None,
           leased_until := None,
           interrupt_admission_lease_token := None,
           interrupt_admission_turn_id := None,
           queued_at := now,
           run_after := now + (if err \<and> backoff \<le> 0
                               then min cap (base * 3 powi (failures - 1)) else backoff)\<rparr>)"

definition release_unit ::
  "secs \<Rightarrow> uuid \<Rightarrow> int \<Rightarrow> secs \<Rightarrow> bool \<Rightarrow> string option \<Rightarrow> string option \<Rightarrow> db
   \<Rightarrow> rq_error + (qstate option \<times> db)" where
  "release_unit now u tok backoff err reason msg d =
     map_ok (\<lambda>(res, d'). (map_option (state \<circ> snd) res, d'))
       (cas u (held tok)
          (case reason of
             None \<Rightarrow> release_eff now backoff err RELEASE_BACKOFF_BASE_SECONDS
           | Some why \<Rightarrow> release_deterministic_eff now backoff err RELEASE_BACKOFF_BASE_SECONDS
                           why msg DETERMINISTIC_RELEASE_SIGNATURE
                           ATTACH_FAILURE_BACKOFF_CAP_SECONDS) d)"

definition park_eff :: "secs \<Rightarrow> string option \<Rightarrow> string option \<Rightarrow> row \<Rightarrow> row" where
  "park_eff now reason msg r =
     r\<lparr>state := Parked,
       park_reason := coalesce reason (park_reason r),
       last_error := coalesce msg (last_error r),
       parked_at := Some now,
       leased_by := None,
       last_leased_by := None,
       leased_until := None,
       interrupt_admission_lease_token := None,
       interrupt_admission_turn_id := None,
       queued_at := now,
       run_after := now\<rparr>"

definition park_unit ::
  "secs \<Rightarrow> uuid \<Rightarrow> int \<Rightarrow> string option \<Rightarrow> string option \<Rightarrow> db
   \<Rightarrow> rq_error + (qstate option \<times> db)" where
  "park_unit now u tok reason msg d =
     map_ok (\<lambda>(res, d'). (map_option (state \<circ> snd) res, d'))
       (cas u (held tok) (park_eff now reason msg) d)"

definition attach_failure_eff ::
  "secs \<Rightarrow> string \<Rightarrow> string \<Rightarrow> secs \<Rightarrow> int \<Rightarrow> row \<Rightarrow> row" where
  "attach_failure_eff now err sig backoff threshold r =
     (let failures = next_failures (Some sig) r;
          will_park = (max_attempts r \<le> attempts_since_completion r \<or> threshold \<le> failures)
      in r\<lparr>attach_failures := failures,
           last_error := Some err,
           last_error_signature := Some sig,
           state := (if will_park then Parked else Queued),
           park_reason := (if will_park then Some ''attach_failed'' else park_reason r),
           parked_at := (if will_park then Some now else parked_at r),
           leased_by := None,
           last_leased_by := None,
           leased_until := None,
           interrupt_admission_lease_token := None,
           interrupt_admission_turn_id := None,
           queued_at := now,
           run_after := now + backoff\<rparr>)"

record attach_verdict =
  av_state :: qstate
  av_attempts :: int
  av_failures :: int
  av_reason :: "string option"
  av_run_after :: secs

definition record_attach_failure ::
  "secs \<Rightarrow> uuid \<Rightarrow> int \<Rightarrow> string \<Rightarrow> string \<Rightarrow> secs \<Rightarrow> int \<Rightarrow> db
   \<Rightarrow> rq_error + (attach_verdict option \<times> db)" where
  "record_attach_failure now u tok err sig backoff threshold d =
     map_ok (\<lambda>(res, d').
        (map_option (\<lambda>(_, r). \<lparr>av_state = state r, av_attempts = attempts_since_completion r,
                               av_failures = attach_failures r, av_reason = park_reason r,
                               av_run_after = run_after r\<rparr>) res, d'))
       (cas u (held tok) (attach_failure_eff now err sig backoff threshold) d)"

definition fence_lease :: "uuid \<Rightarrow> int \<Rightarrow> db \<Rightarrow> bool" where
  "fence_lease u tok d = (case row_of d u of None \<Rightarrow> False | Some r \<Rightarrow> held tok r)"

section \<open>Reaper and operator verbs\<close>

record candidate =
  cand_unit_id :: uuid
  cand_unit_kind :: string
  cand_leased_by :: "string option"
  cand_lease_token :: int
  cand_attempts :: int
  cand_max_attempts :: int

definition expired :: "secs \<Rightarrow> secs \<Rightarrow> row \<Rightarrow> bool" where
  "expired now grace r \<longleftrightarrow>
     (case leased_until r of None \<Rightarrow> False | Some t \<Rightarrow> t < now - grace)"

text \<open>Ascending \<^verbatim>\<open>leased_until\<close>, NULLs last.\<close>

definition until_order :: "row \<Rightarrow> bool \<times> secs" where
  "until_order r = (leased_until r = None, case_option 0 id (leased_until r))"

definition reap_candidates ::
  "(uuid \<Rightarrow> bool) \<Rightarrow> secs \<Rightarrow> secs \<Rightarrow> string option \<Rightarrow> nat \<Rightarrow> db \<Rightarrow> candidate list" where
  "reap_candidates locked now grace kind max_rows d =
     map (\<lambda>r. \<lparr>cand_unit_id = unit_id r, cand_unit_kind = unit_kind r,
                cand_leased_by = leased_by r, cand_lease_token = lease_token r,
                cand_attempts = attempts_since_completion r, cand_max_attempts = max_attempts r\<rparr>)
       (take max_rows
          (sort_key until_order
             (filter (\<lambda>r. state r = Leased \<and> expired now grace r \<and>
                          \<not> recovery_held d (unit_id r) \<and>
                          (kind = None \<or> kind = Some (unit_kind r)) \<and> \<not> locked (unit_id r))
                (queue d))))"

definition reap_guard :: "db \<Rightarrow> secs \<Rightarrow> secs \<Rightarrow> int \<Rightarrow> row \<Rightarrow> bool" where
  "reap_guard d now grace tok r \<longleftrightarrow>
     held tok r \<and> expired now grace r \<and> \<not> recovery_held d (unit_id r)"

definition reap_eff :: "secs \<Rightarrow> secs \<Rightarrow> row \<Rightarrow> row" where
  "reap_eff now backoff r =
     (let park = (max_attempts r \<le> attempts_since_completion r) in
      r\<lparr>lease_token := lease_token r + 1,
        state := (if park then Parked else Queued),
        park_reason := (if park then Some ''reaper_max_attempts'' else park_reason r),
        parked_at := (if park then Some now else parked_at r),
        leased_by := None,
        last_leased_by := None,
        leased_until := None,
        interrupt_admission_lease_token := None,
        interrupt_admission_turn_id := None,
        queued_at := now,
        run_after := now + backoff\<rparr>)"

record stolen_unit =
  su_unit_id :: uuid
  su_unit_kind :: string
  su_state :: qstate
  su_attempts :: int
  su_leased_by :: "string option"
  su_lease_token :: int
  su_previous_lease_token :: "int option"
  su_interrupt_turn :: "int option"
  su_lifecycle_journaled :: bool

definition stolen_of :: "candidate \<Rightarrow> row \<Rightarrow> row \<Rightarrow> stolen_unit" where
  "stolen_of c old new =
     \<lparr>su_unit_id = unit_id new, su_unit_kind = unit_kind new, su_state = state new,
      su_attempts = attempts_since_completion new, su_leased_by = cand_leased_by c,
      su_lease_token = lease_token new,
      su_previous_lease_token = Some (cand_lease_token c),
      su_interrupt_turn =
        (if interrupt_admission_turn_id old \<noteq> None \<and>
            interrupt_admission_lease_token old = Some (cand_lease_token c)
         then interrupt_admission_turn_id old else None),
      su_lifecycle_journaled = False\<rparr>"

definition reap_steal ::
  "secs \<Rightarrow> secs \<Rightarrow> secs \<Rightarrow> candidate \<Rightarrow> db \<Rightarrow> rq_error + (stolen_unit option \<times> db)" where
  "reap_steal now grace backoff c d =
     map_ok (\<lambda>(res, d'). (map_option (\<lambda>(old, new). stolen_of c old new) res, d'))
       (cas (cand_unit_id c) (reap_guard d now grace (cand_lease_token c)) (reap_eff now backoff) d)"

type_synonym steal_hook =
  "candidate \<Rightarrow> secs \<Rightarrow> secs \<Rightarrow> db \<Rightarrow> rq_error + (stolen_unit option \<times> db)"

definition steal_for ::
  "steal_hook option \<Rightarrow> steal_hook option \<Rightarrow> secs \<Rightarrow> secs \<Rightarrow> secs \<Rightarrow> candidate \<Rightarrow> db
   \<Rightarrow> rq_error + (stolen_unit option \<times> db)" where
  "steal_for session_steal worker_steal now grace backoff c d =
     (case (if cand_unit_kind c = UNIT_KIND_SESSION_TURN then session_steal
            else if cand_unit_kind c = UNIT_KIND_WORKER_BATCH then worker_steal else None) of
        Some hook \<Rightarrow> hook c backoff grace d
      | None \<Rightarrow> reap_steal now grace backoff c d)"

text \<open>
  One pass over the candidates. Between two statements other transactions may commit:
  \<^verbatim>\<open>between i\<close> is what they do to the database before the i-th steal, \<^verbatim>\<open>clock i\<close>
  the database time of that steal and \<^verbatim>\<open>jit i\<close> the random factor drawn for it. A steal
  that raises ends the pass; the steals before it stay committed.
\<close>

fun reap_loop ::
  "steal_hook option \<Rightarrow> steal_hook option \<Rightarrow> (nat \<Rightarrow> db \<Rightarrow> db) \<Rightarrow> (nat \<Rightarrow> secs) \<Rightarrow> (nat \<Rightarrow> secs)
   \<Rightarrow> secs \<Rightarrow> secs \<Rightarrow> nat \<Rightarrow> candidate list \<Rightarrow> db \<Rightarrow> (rq_error + stolen_unit list) \<times> db" where
  "reap_loop ss ws between clock jit grace base i [] d = (Inr [], d)"
| "reap_loop ss ws between clock jit grace base i (c # cs) d =
     (let backoff = base * of_int (cand_attempts c) * (1 + jit i); d0 = between i d in
      case steal_for ss ws (clock i) grace backoff c d0 of
        Inl e \<Rightarrow> (Inl e, d0)
      | Inr (res, d1) \<Rightarrow>
          (case reap_loop ss ws between clock jit grace base (Suc i) cs d1 of
             (Inl e, d2) \<Rightarrow> (Inl e, d2)
           | (Inr us, d2) \<Rightarrow> (Inr (case res of None \<Rightarrow> us | Some u \<Rightarrow> u # us), d2)))"

definition reap_expired ::
  "steal_hook option \<Rightarrow> steal_hook option \<Rightarrow> (nat \<Rightarrow> db \<Rightarrow> db) \<Rightarrow> (nat \<Rightarrow> secs) \<Rightarrow> (nat \<Rightarrow> secs)
   \<Rightarrow> (uuid \<Rightarrow> bool) \<Rightarrow> secs \<Rightarrow> string option \<Rightarrow> secs \<Rightarrow> nat \<Rightarrow> secs \<Rightarrow> db
   \<Rightarrow> (rq_error + stolen_unit list) \<times> db" where
  "reap_expired ss ws between clock jit locked now kind grace max_rows base d =
     reap_loop ss ws between clock jit grace base 0
       (reap_candidates locked now grace kind max_rows d) d"

definition unpark_eff :: "secs \<Rightarrow> row \<Rightarrow> row" where
  "unpark_eff now r =
     r\<lparr>state := Queued,
       attempts_since_completion := 0,
       attach_failures := 0,
       park_reason := None,
       parked_at := None,
       last_error := None,
       last_error_signature := None,
       run_after := now,
       queued_at := now\<rparr>"

definition parked_free :: "db \<Rightarrow> row \<Rightarrow> bool" where
  "parked_free d r \<longleftrightarrow> state r = Parked \<and> \<not> recovery_held d (unit_id r)"

definition unpark_unit :: "secs \<Rightarrow> uuid \<Rightarrow> db \<Rightarrow> rq_error + (bool \<times> db)" where
  "unpark_unit now u d =
     map_ok (\<lambda>(res, d'). (res \<noteq> None, d')) (cas u (parked_free d) (unpark_eff now) d)"

definition settled_watermark :: "int option \<Rightarrow> row \<Rightarrow> int option" where
  "settled_watermark consumed r =
     (case consumed of None \<Rightarrow> consumed_seq r
      | Some c \<Rightarrow> Some (max (case_option c id (consumed_seq r)) c))"

definition settle_eff :: "db \<Rightarrow> secs \<Rightarrow> int option \<Rightarrow> row \<Rightarrow> row" where
  "settle_eff d now consumed r =
     (let w = settled_watermark consumed r in
      r\<lparr>consumed_seq := w,
        attempts_since_completion := 0,
        attach_failures := 0,
        park_reason := None,
        parked_at := None,
        last_error := None,
        last_error_signature := None,
        queued_at := now,
        run_after := now,
        state := (if (case input_seq r of None \<Rightarrow> False
                      | Some i \<Rightarrow> (case w of None \<Rightarrow> True | Some c \<Rightarrow> c < i)) \<or>
                     control_pending r \<or> delivery_pending d (unit_id r)
                  then Queued else Done)\<rparr>)"

definition settle_parked_unit ::
  "secs \<Rightarrow> uuid \<Rightarrow> int option \<Rightarrow> db \<Rightarrow> rq_error + (qstate option \<times> db)" where
  "settle_parked_unit now u consumed d =
     map_ok (\<lambda>(res, d'). (map_option (state \<circ> snd) res, d'))
       (cas u (parked_free d) (settle_eff d now consumed) d)"

section \<open>Read models\<close>

definition list_active ::
  "secs \<Rightarrow> string option \<Rightarrow> db \<Rightarrow> (row \<times> secs option) list \<times> row list" where
  "list_active now kind d =
     (let wanted = (\<lambda>st r. state r = st \<and> (kind = None \<or> kind = Some (unit_kind r))) in
      (map (\<lambda>r. (r, map_option (\<lambda>t. t - now) (leased_until r)))
         (sort_key until_order (filter (wanted Leased) (queue d))),
       sort_key queued_at (filter (wanted Parked) (queue d))))"

record watermarks =
  wm_state :: qstate
  wm_input_seq :: "int option"
  wm_consumed_seq :: "int option"
  wm_has_pending_input :: bool
  wm_control_input_seq :: int
  wm_control_consumed_seq :: int
  wm_has_pending_control :: bool

definition pending_input :: "row \<Rightarrow> bool" where
  "pending_input r \<longleftrightarrow>
     (case input_seq r of None \<Rightarrow> False
      | Some i \<Rightarrow> (case consumed_seq r of None \<Rightarrow> True | Some c \<Rightarrow> c < i))"

definition queue_depth_for :: "uuid \<Rightarrow> db \<Rightarrow> watermarks option" where
  "queue_depth_for u d =
     map_option (\<lambda>r. \<lparr>wm_state = state r, wm_input_seq = input_seq r,
                      wm_consumed_seq = consumed_seq r, wm_has_pending_input = pending_input r,
                      wm_control_input_seq = control_input_seq r,
                      wm_control_consumed_seq = control_consumed_seq r,
                      wm_has_pending_control = control_consumed_seq r < control_input_seq r\<rparr>)
       (row_of d u)"

record queue_status =
  qs_state :: qstate
  qs_park_reason :: "string option"
  qs_parked_at :: "secs option"
  qs_last_error :: "string option"
  qs_attempts :: int
  qs_max_attempts :: int
  qs_attach_failures :: int
  qs_pending_input :: bool
  qs_run_after :: secs

definition queue_state_for :: "uuid \<Rightarrow> db \<Rightarrow> queue_status option" where
  "queue_state_for u d =
     map_option (\<lambda>r. \<lparr>qs_state = state r, qs_park_reason = park_reason r,
                      qs_parked_at = parked_at r, qs_last_error = last_error r,
                      qs_attempts = attempts_since_completion r,
                      qs_max_attempts = max_attempts r, qs_attach_failures = attach_failures r,
                      qs_pending_input = pending_input r, qs_run_after = run_after r\<rparr>)
       (row_of d u)"

end
