(* ===== verification/Run_Queue_Laws.thy ===== *)
theory Run_Queue_Laws
  imports Run_Queue
begin

text \<open>
  The contract every writer of the run queue keeps, as a locale over one guarded row update, and
  its interpretation on each statement of the module. The table-level consequences (the
  invariant, the growth order of tokens and watermarks, the uselessness of a fenced-out token)
  are proved once inside the locales.
\<close>

section \<open>Row invariant and row order\<close>

definition interrupt_shape :: "row \<Rightarrow> bool" where
  "interrupt_shape r \<longleftrightarrow>
     (case (interrupt_admission_lease_token r, interrupt_admission_turn_id r) of
        (None, None) \<Rightarrow> True
      | (Some t, Some n) \<Rightarrow>
          unit_kind r = UNIT_KIND_SESSION_TURN \<and> state r = Leased \<and>
          t = lease_token r \<and> 0 < t \<and> 0 < n
      | _ \<Rightarrow> False)"

definition lease_shape :: "row \<Rightarrow> bool" where
  "lease_shape r \<longleftrightarrow>
     0 \<le> lease_token r \<and>
     (if state r = Leased
      then 0 < lease_token r \<and> leased_by r \<noteq> None \<and> leased_until r \<noteq> None
      else leased_by r = None \<and> leased_until r = None)"

definition row_ok :: "row \<Rightarrow> bool" where
  "row_ok r \<longleftrightarrow>
     lease_shape r \<and> interrupt_shape r \<and>
     control_consumed_seq r \<le> control_input_seq r \<and>
     0 \<le> attempts_since_completion r \<and> 0 \<le> attach_failures r \<and>
     (state r = Parked \<longrightarrow> parked_at r \<noteq> None)"

definition row_settled :: "row \<Rightarrow> bool" where
  "row_settled r \<longleftrightarrow> (state r = Done \<longrightarrow> \<not> pending_input r \<and> \<not> control_pending r)"

text \<open>
  The order in which a row may only grow: the fencing token and the four watermarks never go
  back, and a row that was not leased becomes leased only under a larger token.
\<close>

definition row_le :: "row \<Rightarrow> row \<Rightarrow> bool" where
  "row_le r s \<longleftrightarrow>
     lease_token r \<le> lease_token s \<and>
     (state s = Leased \<and> lease_token s = lease_token r \<longrightarrow> state r = Leased) \<and>
     input_seq r \<le> input_seq s \<and> consumed_seq r \<le> consumed_seq s \<and>
     control_input_seq r \<le> control_input_seq s \<and>
     control_consumed_seq r \<le> control_consumed_seq s"

lemma row_le_refl [simp]: "row_le r r"
  by (simp add: row_le_def)

lemma row_le_trans: "row_le r s \<Longrightarrow> row_le s t \<Longrightarrow> row_le r t"
  unfolding row_le_def by (metis order_antisym order_trans)

section \<open>The abstract lease\<close>

text \<open>
  What a unit's lease promises, apart from every queue detail: free or held, with the last token
  issued. Granting issues the next token, finishing keeps it, revoking burns one.
\<close>

datatype lease = Free int | Held int

inductive lease_move :: "lease \<Rightarrow> lease \<Rightarrow> bool" where
  stay: "lease_move l l"
| grant: "lease_move (Free t) (Held (t + 1))"
| finish: "lease_move (Held t) (Free t)"
| revoke: "lease_move (Held t) (Free (t + 1))"

inductive_simps lease_move_simps [simp]:
  "lease_move (Free t) (Free t')" "lease_move (Free t) (Held t')"
  "lease_move (Held t) (Free t')" "lease_move (Held t) (Held t')"

definition lease_of :: "row \<Rightarrow> lease" where
  "lease_of r = (if state r = Leased then Held (lease_token r) else Free (lease_token r))"

section \<open>Database invariant and order\<close>

definition db_ok :: "db \<Rightarrow> bool" where
  "db_ok d \<longleftrightarrow>
     distinct (map unit_id (queue d)) \<and>
     distinct (map enqueue_ord (queue d)) \<and>
     (\<forall>r \<in> set (queue d). row_ok r \<and> enqueue_ord r < next_ord d) \<and>
     (\<forall>r \<in> set (queue d). \<forall>s \<in> set (queue d). unit_id r \<noteq> unit_id s \<longrightarrow> \<not> same_dedup r s)"

definition db_settled :: "db \<Rightarrow> bool" where
  "db_settled d \<longleftrightarrow> (\<forall>r \<in> set (queue d). row_settled r)"

definition db_le :: "db \<Rightarrow> db \<Rightarrow> bool" where
  "db_le d d' \<longleftrightarrow> (\<forall>u r. row_of d u = Some r \<longrightarrow> (\<exists>s. row_of d' u = Some s \<and> row_le r s))"

lemma db_le_refl [simp]: "db_le d d"
  by (simp add: db_le_def)

lemma db_le_trans: "db_le d d' \<Longrightarrow> db_le d' d'' \<Longrightarrow> db_le d d''"
  unfolding db_le_def by (meson row_le_trans)

lemma db_leD:
  "db_le d d' \<Longrightarrow> row_of d u = Some r \<Longrightarrow> row_of d' u = Some s \<Longrightarrow> row_le r s"
  unfolding db_le_def by (metis option.inject)

lemma row_of_unit: "row_of d u = Some r \<Longrightarrow> unit_id r = u"
  by (auto simp: row_of_def)

lemma row_of_in: "row_of d u = Some r \<Longrightarrow> r \<in> set (queue d)"
  by (auto simp: row_of_def dest: find_by_Some_set)

lemma row_of_ok: "db_ok d \<Longrightarrow> row_of d u = Some r \<Longrightarrow> row_ok r"
  by (auto simp: db_ok_def dest: row_of_in)

lemma row_of_member: "db_ok d \<Longrightarrow> r \<in> set (queue d) \<Longrightarrow> row_of d (unit_id r) = Some r"
  by (simp add: db_ok_def row_of_def find_by_distinct)

lemma row_of_store:
  "row_of d (unit_id r) \<noteq> None \<Longrightarrow>
   row_of (store d r) u = (if u = unit_id r then Some r else row_of d u)"
  by (auto simp: row_of_def store_def find_by_None table_simps)

lemma row_of_insert:
  "row_of (insert_row d r) u =
     (case row_of d u of None \<Rightarrow> if unit_id r = u then Some r else None | Some x \<Rightarrow> Some x)"
  by (auto simp: row_of_def insert_row_def find_by_append split: option.splits)

lemma row_of_None: "row_of d u = None \<longleftrightarrow> u \<notin> unit_id ` set (queue d)"
  by (simp add: row_of_def find_by_None)

lemma store_fields [simp]:
  "recovery_jobs (store d r) = recovery_jobs d" "messages (store d r) = messages d"
  "deliveries (store d r) = deliveries d" "next_ord (store d r) = next_ord d"
  by (simp_all add: store_def)

lemma cas_cases:
  assumes "cas u guard eff d = Inr (res, d')"
  obtains (miss) "res = None" "d' = d"
  | (hit) r where "row_of d u = Some r" "guard r" "\<not> dedup_conflict (queue d) (eff r)"
      "res = Some (r, eff r)" "d' = store d (eff r)"
  using assms by (auto simp: cas_def split: option.splits if_splits)

lemma db_ok_store:
  assumes ok: "db_ok d" and r: "row_of d u = Some r"
    and same: "unit_id s = unit_id r" "enqueue_ord s = enqueue_ord r"
    and s: "row_ok s" "\<not> dedup_conflict (queue d) s"
  shows "db_ok (store d s)"
proof -
  have mem: "x \<in> set (queue (store d s)) \<Longrightarrow> x = s \<or> (x \<in> set (queue d) \<and> unit_id x \<noteq> unit_id s)" for x
    by (auto simp: store_def dest!: subsetD [OF set_put_subset])
  have ord: "map enqueue_ord (queue (store d s)) = map enqueue_ord (queue d)"
  proof -
    have "enqueue_ord x = enqueue_ord s" if "x \<in> set (queue d)" "unit_id x = unit_id s" for x
      using that row_of_member [OF ok that(1)] r same row_of_unit [OF r] by simp
    then show ?thesis by (auto simp: store_def put_by_def)
  qed
  have lt: "enqueue_ord s < next_ord d"
    using ok row_of_in [OF r] same(2) by (auto simp: db_ok_def)
  have sym: "same_dedup x s \<longleftrightarrow> same_dedup s x" for x
    by (auto simp: same_dedup_def)
  have ids: "map unit_id (queue (store d s)) = map unit_id (queue d)"
    by (simp add: store_def map_key_put)
  have d1: "distinct (map unit_id (queue d))" "distinct (map enqueue_ord (queue d))"
    and d3: "\<And>x. x \<in> set (queue d) \<Longrightarrow> row_ok x \<and> enqueue_ord x < next_ord d"
    and d4: "\<And>x y. x \<in> set (queue d) \<Longrightarrow> y \<in> set (queue d) \<Longrightarrow> unit_id x \<noteq> unit_id y \<Longrightarrow> \<not> same_dedup x y"
    using ok by (auto simp: db_ok_def)
  have conf: "x \<in> set (queue d) \<Longrightarrow> unit_id x \<noteq> unit_id s \<Longrightarrow> \<not> same_dedup s x" for x
    using s(2) by (auto simp: dedup_conflict_def)
  have "\<not> same_dedup x y"
    if "x \<in> set (queue (store d s))" "y \<in> set (queue (store d s))" "unit_id x \<noteq> unit_id y" for x y
    using mem [OF that(1)] mem [OF that(2)] that(3) d4 conf sym by metis
  moreover have "row_ok x \<and> enqueue_ord x < next_ord (store d s)"
    if "x \<in> set (queue (store d s))" for x
    using mem [OF that] d3 s(1) lt by auto
  ultimately show ?thesis
    unfolding db_ok_def ids ord using d1 by blast
qed

lemma db_le_store:
  assumes "row_of d u = Some r" "unit_id s = unit_id r" "row_le r s"
  shows "db_le d (store d s)"
proof -
  have u: "unit_id s = u" using assms(1,2) by (auto dest: row_of_unit)
  show ?thesis
    unfolding db_le_def
  proof (intro allI impI)
    fix v x assume "row_of d v = Some x"
    then show "\<exists>y. row_of (store d s) v = Some y \<and> row_le x y"
      using assms u row_of_store [of d s v] by (cases "v = u") auto
  qed
qed

lemma db_settled_store:
  "db_settled d \<Longrightarrow> row_settled s \<Longrightarrow> db_settled (store d s)"
  by (auto simp: db_settled_def store_def dest!: subsetD [OF set_put_subset])

section \<open>Dead tokens\<close>

text \<open>
  A token is dead for a unit once a larger token was issued or its lease ended. A dead token
  never authorises anything again.
\<close>

definition token_dead :: "db \<Rightarrow> uuid \<Rightarrow> int \<Rightarrow> bool" where
  "token_dead d u tok \<longleftrightarrow>
     (\<exists>r. row_of d u = Some r \<and>
          (tok < lease_token r \<or> (lease_token r = tok \<and> state r \<noteq> Leased)))"

lemma token_dead_mono: "token_dead d u tok \<Longrightarrow> db_le d d' \<Longrightarrow> token_dead d' u tok"
proof -
  assume dead: "token_dead d u tok" and le: "db_le d d'"
  from dead obtain r where r: "row_of d u = Some r"
    "tok < lease_token r \<or> lease_token r = tok \<and> state r \<noteq> Leased"
    by (auto simp: token_dead_def)
  from le r(1) obtain s where s: "row_of d' u = Some s" "row_le r s"
    by (auto simp: db_le_def)
  with r(2) have "tok < lease_token s \<or> lease_token s = tok \<and> state s \<noteq> Leased"
    by (auto simp: row_le_def)
  with s(1) show ?thesis by (auto simp: token_dead_def)
qed

lemma token_dead_not_held: "token_dead d u tok \<Longrightarrow> row_of d u = Some r \<Longrightarrow> \<not> held tok r"
  by (auto simp: token_dead_def held_def)


section \<open>The update contract\<close>

locale row_update =
  fixes guard :: "row \<Rightarrow> bool" and eff :: "row \<Rightarrow> row"
  assumes eff_unit: "unit_id (eff r) = unit_id r"
    and eff_ord: "enqueue_ord (eff r) = enqueue_ord r"
    and eff_ok: "guard r \<Longrightarrow> row_ok r \<Longrightarrow> row_ok (eff r)"
    and eff_grows: "guard r \<Longrightarrow> row_ok r \<Longrightarrow> row_le r (eff r)"
    and eff_lease: "guard r \<Longrightarrow> lease_move (lease_of r) (lease_of (eff r))"
begin

lemma cas_ok:
  assumes "db_ok d" "cas u guard eff d = Inr (res, d')"
  shows "db_ok d'"
  using assms(2)
proof (cases rule: cas_cases)
  case (hit r)
  then show ?thesis
    using db_ok_store [OF assms(1) hit(1) eff_unit eff_ord]
    by (simp add: eff_ok row_of_ok [OF assms(1)])
qed (simp add: assms)

lemma cas_le:
  assumes "db_ok d" "cas u guard eff d = Inr (res, d')"
  shows "db_le d d'"
  using assms(2)
proof (cases rule: cas_cases)
  case (hit r)
  then show ?thesis
    by (simp add: db_le_store [OF hit(1) eff_unit] eff_grows row_of_ok [OF assms(1)])
qed simp

lemma cas_row:
  assumes "cas u guard eff d = Inr (Some (r, s), d')"
  shows "row_of d u = Some r \<and> guard r \<and> s = eff r \<and> row_of d' u = Some s"
  using assms
proof (cases rule: cas_cases)
  case (hit r')
  then show ?thesis
    using row_of_store [of d "eff r'" u] row_of_unit [OF hit(1)] by (auto simp: eff_unit)
qed simp

lemma cas_frame:
  assumes "cas u guard eff d = Inr (res, d')" "v \<noteq> u"
  shows "row_of d' v = row_of d v"
  using assms(1)
proof (cases rule: cas_cases)
  case (hit r)
  then show ?thesis
    using row_of_store [of d "eff r" v] row_of_unit [OF hit(1)] assms(2) by (auto simp: eff_unit)
qed simp

end

text \<open>An update that also keeps a done row free of pending input.\<close>

locale settling_update = row_update +
  assumes eff_settled: "guard r \<Longrightarrow> row_settled r \<Longrightarrow> row_settled (eff r)"
begin

lemma cas_settled:
  assumes "db_settled d" "cas u guard eff d = Inr (res, d')"
  shows "db_settled d'"
  using assms(2)
proof (cases rule: cas_cases)
  case (hit r)
  then have "row_settled r" using assms(1) by (auto simp: db_settled_def dest: row_of_in)
  then show ?thesis using hit assms(1) by (simp add: db_settled_store eff_settled)
qed (simp add: assms)

end

text \<open>An update that only the current holder of a lease token can make.\<close>

locale fenced_update = settling_update +
  fixes tok :: int
  assumes guard_held: "guard r \<Longrightarrow> held tok r"
begin

lemma cas_dead: "token_dead d u tok \<Longrightarrow> cas u guard eff d = Inr (None, d)"
  using token_dead_not_held guard_held by (fastforce simp: cas_def token_dead_def)

lemma cas_absent: "row_of d u = None \<Longrightarrow> cas u guard eff d = Inr (None, d)"
  by (simp add: cas_def)

lemma cas_needs_fence:
  "cas u guard eff d = Inr (Some p, d') \<Longrightarrow> fence_lease u tok d"
  by (auto simp: cas_def fence_lease_def guard_held split: option.splits if_splits)

end

text \<open>A fenced update that also ends the lease: afterwards the token is dead.\<close>

locale releasing_update = fenced_update +
  assumes eff_ends: "guard r \<Longrightarrow> tok < lease_token (eff r) \<or> state (eff r) \<noteq> Leased"
begin

lemma cas_kills:
  assumes "db_ok d" "cas u guard eff d = Inr (Some p, d')"
  shows "token_dead d' u tok"
proof -
  obtain r s where p: "p = (r, s)" by (cases p)
  from cas_row [OF assms(2) [unfolded p]] have
    r: "row_of d u = Some r" "guard r" "s = eff r" "row_of d' u = Some s" by auto
  have "row_le r (eff r)" using r eff_grows row_of_ok [OF assms(1)] by blast
  then show ?thesis
    using r eff_ends [OF r(2)] guard_held [OF r(2)]
    by (auto simp: token_dead_def row_le_def held_def)
qed

end

section \<open>The statements keep the contract\<close>

lemmas shape_defs = row_ok_def lease_shape_def interrupt_shape_def
lemmas settled_defs = row_settled_def pending_input_def control_pending_def

text \<open>Setting the two admission columns to NULL together keeps their shape.\<close>

lemma interrupt_shape_None:
  "interrupt_admission_lease_token r = None \<Longrightarrow> interrupt_admission_turn_id r = None
   \<Longrightarrow> interrupt_shape r"
  by (simp add: interrupt_shape_def)

lemma interrupt_shape_not_leased:
  "interrupt_shape r \<Longrightarrow> state r \<noteq> Leased \<Longrightarrow>
   interrupt_admission_lease_token r = None \<and> interrupt_admission_turn_id r = None"
  by (auto simp: interrupt_shape_def split: option.splits)

lemma row_ok_bounds:
  assumes "row_ok r"
  shows "0 \<le> lease_token r" "0 \<le> attempts_since_completion r" "0 \<le> attach_failures r"
    "control_consumed_seq r \<le> control_input_seq r"
  using assms by (auto simp: row_ok_def lease_shape_def)

lemma row_ok_held: "row_ok r \<Longrightarrow> held tok r \<Longrightarrow> 0 < tok"
  by (simp add: row_ok_def lease_shape_def held_def)

text \<open>A row whose lease was just given up is well formed.\<close>

lemma row_ok_unleasedI:
  assumes "state r \<noteq> Leased" "leased_by r = None" "leased_until r = None"
    "interrupt_admission_lease_token r = None" "interrupt_admission_turn_id r = None"
    "0 \<le> lease_token r" "0 \<le> attempts_since_completion r" "0 \<le> attach_failures r"
    "control_consumed_seq r \<le> control_input_seq r" "state r = Parked \<longrightarrow> parked_at r \<noteq> None"
  shows "row_ok r"
  using assms by (simp add: row_ok_def lease_shape_def interrupt_shape_None)

lemma row_ok_unleased:
  "row_ok r \<Longrightarrow> state r \<noteq> Leased \<Longrightarrow>
   leased_by r = None \<and> leased_until r = None \<and>
   interrupt_admission_lease_token r = None \<and> interrupt_admission_turn_id r = None"
  using interrupt_shape_not_leased by (auto simp: row_ok_def lease_shape_def)

interpretation enqueue_upd: settling_update "\<lambda>_. True" "enqueue_upd now fair prio ra inp"
  for now fair prio ra inp
proof
  fix r
  show "row_ok r \<Longrightarrow> row_ok (enqueue_upd now fair prio ra inp r)"
    by (cases "state r")
      (auto simp: shape_defs enqueue_upd_def Let_def split: option.splits)
  show "row_le r (enqueue_upd now fair prio ra inp r)"
    by (auto simp: row_le_def enqueue_upd_def Let_def sql_simps)
  show "row_settled r \<Longrightarrow> row_settled (enqueue_upd now fair prio ra inp r)"
    by (auto simp: row_settled_def enqueue_upd_def Let_def)
qed (simp_all add: lease_of_def enqueue_upd_def Let_def)

interpretation enqueue_merge: row_update "\<lambda>_. True" "enqueue_merge ex" for ex
proof
  fix r
  show "row_ok r \<Longrightarrow> row_ok (enqueue_merge ex r)"
    by (auto simp: shape_defs enqueue_merge_def split: option.splits)
  show "row_le r (enqueue_merge ex r)"
    by (auto simp: row_le_def enqueue_merge_def sql_simps)
qed (simp_all add: lease_of_def enqueue_merge_def)

interpretation record_input_upd: settling_update "\<lambda>_. True" "record_input_upd now inp fair"
  for now inp fair
proof
  fix r
  show "row_ok r \<Longrightarrow> row_ok (record_input_upd now inp fair r)"
    by (cases "state r")
      (auto simp: shape_defs record_input_upd_def Let_def split: option.splits)
  show "row_le r (record_input_upd now inp fair r)"
    by (auto simp: row_le_def record_input_upd_def Let_def sql_simps)
  show "row_settled r \<Longrightarrow> row_settled (record_input_upd now inp fair r)"
    by (auto simp: row_settled_def record_input_upd_def Let_def)
qed (simp_all add: lease_of_def record_input_upd_def Let_def)

interpretation record_input_merge: row_update "\<lambda>_. True" "record_input_merge inp" for inp
proof
  fix r
  show "row_ok r \<Longrightarrow> row_ok (record_input_merge inp r)"
    by (auto simp: shape_defs record_input_merge_def split: option.splits)
  show "row_le r (record_input_merge inp r)"
    by (auto simp: row_le_def record_input_merge_def sql_simps)
qed (simp_all add: lease_of_def record_input_merge_def)


interpretation record_control_upd: settling_update "\<lambda>_. True" "record_control_upd now s fair"
  for now s fair
proof
  fix r
  show "row_ok r \<Longrightarrow> row_ok (record_control_upd now s fair r)"
    by (cases "state r")
      (auto simp: shape_defs record_control_upd_def control_baseline_def Let_def split: option.splits)
  show "row_le r (record_control_upd now s fair r)"
    by (auto simp: row_le_def record_control_upd_def control_baseline_def Let_def)
  show "row_settled r \<Longrightarrow> row_settled (record_control_upd now s fair r)"
    by (auto simp: row_settled_def record_control_upd_def Let_def)
qed (simp_all add: lease_of_def record_control_upd_def Let_def)

interpretation record_control_merge: row_update "\<lambda>_. True" "record_control_merge s fair"
  for s fair
proof
  fix r
  show "row_ok r \<Longrightarrow> row_ok (record_control_merge s fair r)"
    by (auto simp: shape_defs record_control_merge_def control_baseline_def split: option.splits)
  show "row_le r (record_control_merge s fair r)"
    by (auto simp: row_le_def record_control_merge_def control_baseline_def)
qed (simp_all add: lease_of_def record_control_merge_def)

interpretation claim_update: settling_update "\<lambda>r. state r = Queued" "claim_update now pod ttl"
  for now pod ttl
proof
  fix r
  show "row_ok (claim_update now pod ttl r)" if "row_ok r"
    using row_ok_bounds [OF that]
    by (simp add: row_ok_def lease_shape_def interrupt_shape_None claim_update_def)
  show "row_le r (claim_update now pod ttl r)"
    by (auto simp: row_le_def claim_update_def)
  show "row_settled r \<Longrightarrow> row_settled (claim_update now pod ttl r)"
    by (auto simp: row_settled_def claim_update_def)
qed (simp_all add: lease_of_def claim_update_def)

interpretation heartbeat: fenced_update "held tok" "heartbeat_eff now ttl" tok
  for tok now ttl
proof
  fix r
  show "held tok r \<Longrightarrow> row_ok r \<Longrightarrow> row_ok (heartbeat_eff now ttl r)"
    by (auto simp: shape_defs held_def heartbeat_eff_def split: option.splits)
  show "held tok r \<Longrightarrow> row_le r (heartbeat_eff now ttl r)"
    by (auto simp: row_le_def heartbeat_eff_def)
  show "held tok r \<Longrightarrow> row_settled r \<Longrightarrow> row_settled (heartbeat_eff now ttl r)"
    by (simp add: row_settled_def held_def heartbeat_eff_def)
qed (simp_all add: lease_of_def heartbeat_eff_def)

interpretation open_admission:
  fenced_update "\<lambda>r. 0 < turn \<and> open_guard tok turn r" "open_eff tok turn" tok
  for tok turn
proof
  fix r
  show "0 < turn \<and> open_guard tok turn r \<Longrightarrow> row_ok r \<Longrightarrow> row_ok (open_eff tok turn r)"
    by (auto simp: shape_defs open_guard_def held_def open_eff_def)
  show "0 < turn \<and> open_guard tok turn r \<Longrightarrow> row_le r (open_eff tok turn r)"
    by (auto simp: row_le_def open_eff_def)
  show "0 < turn \<and> open_guard tok turn r \<Longrightarrow> row_settled r \<Longrightarrow> row_settled (open_eff tok turn r)"
    by (simp add: row_settled_def open_guard_def held_def open_eff_def)
qed (auto simp: lease_of_def open_eff_def open_guard_def)

lemma watermark_grows:
  "a \<le> Some (max (case_option c id a) (c :: int))"
  by (cases a) auto

interpretation close_admission:
  fenced_update "close_guard d u tok turn done" "close_eff done" tok
  for d u tok turn "done"
proof
  fix r
  assume g: "close_guard d u tok turn done r"
  then have held: "held tok r" by (simp add: close_guard_def)
  show "row_ok r \<Longrightarrow> row_ok (close_eff done r)"
    using held by (auto simp: shape_defs held_def close_eff_def)
  show "row_le r (close_eff done r)"
    by (cases "consumed_seq r") (auto simp: row_le_def close_eff_def split: option.splits)
  show "row_settled r \<Longrightarrow> row_settled (close_eff done r)"
    using held by (simp add: row_settled_def close_eff_def held_def)
qed (auto simp: lease_of_def close_eff_def close_guard_def)

interpretation complete: releasing_update
  "\<lambda>r. held tok r \<and> \<not> recovery_held d (unit_id r)" "complete_eff d now consumed" tok
  for tok d now consumed
proof
  fix r
  assume held: "held tok r \<and> \<not> recovery_held d (unit_id r)"
  show "row_ok (complete_eff d now consumed r)" if "row_ok r"
    using row_ok_bounds [OF that]
    by (intro row_ok_unleasedI) (simp_all add: complete_eff_def next_failures_def Let_def)
  show "row_le r (complete_eff d now consumed r)"
    by (cases "consumed_seq r") (auto simp: row_le_def complete_eff_def split: option.splits)
  show "row_settled r \<Longrightarrow> row_settled (complete_eff d now consumed r)"
    by (auto simp: settled_defs complete_eff_def complete_input_ahead_def max_def
        split: option.splits if_splits)
  show "tok < lease_token (complete_eff d now consumed r) \<or>
        state (complete_eff d now consumed r) \<noteq> Leased"
    by (simp add: complete_eff_def)
qed (simp_all add: lease_of_def complete_eff_def)

interpretation release: releasing_update "held tok" "release_eff now backoff err base" tok
  for tok now backoff err base
proof
  fix r
  assume held: "held tok r"
  show "row_ok (release_eff now backoff err base r)" if "row_ok r"
    using row_ok_bounds [OF that]
    by (intro row_ok_unleasedI) (simp_all add: release_eff_def next_failures_def Let_def)
  show "row_le r (release_eff now backoff err base r)"
    by (simp add: row_le_def release_eff_def)
  show "row_settled r \<Longrightarrow> row_settled (release_eff now backoff err base r)"
    by (simp add: row_settled_def release_eff_def)
qed (simp_all add: lease_of_def release_eff_def)

interpretation release_deterministic: releasing_update "held tok"
  "release_deterministic_eff now backoff err base reason msg sig cap" tok
  for tok now backoff err base reason msg sig cap
proof
  fix r
  assume held: "held tok r"
  show "row_ok (release_deterministic_eff now backoff err base reason msg sig cap r)" if "row_ok r"
    using row_ok_bounds [OF that]
    by (intro row_ok_unleasedI) (simp_all add: release_deterministic_eff_def next_failures_def Let_def)
  show "row_le r (release_deterministic_eff now backoff err base reason msg sig cap r)"
    by (simp add: row_le_def release_deterministic_eff_def Let_def)
  show "row_settled r \<Longrightarrow>
        row_settled (release_deterministic_eff now backoff err base reason msg sig cap r)"
    by (simp add: row_settled_def release_deterministic_eff_def Let_def)
qed (simp_all add: lease_of_def release_deterministic_eff_def Let_def)

interpretation park: releasing_update "held tok" "park_eff now reason msg" tok
  for tok now reason msg
proof
  fix r
  assume held: "held tok r"
  show "row_ok (park_eff now reason msg r)" if "row_ok r"
    using row_ok_bounds [OF that]
    by (intro row_ok_unleasedI) (simp_all add: park_eff_def next_failures_def Let_def)
  show "row_le r (park_eff now reason msg r)"
    by (simp add: row_le_def park_eff_def)
  show "row_settled r \<Longrightarrow> row_settled (park_eff now reason msg r)"
    by (simp add: row_settled_def park_eff_def)
qed (simp_all add: lease_of_def park_eff_def)

interpretation attach_failure: releasing_update "held tok"
  "attach_failure_eff now err sig backoff threshold" tok
  for tok now err sig backoff threshold
proof
  fix r
  assume held: "held tok r"
  show "row_ok (attach_failure_eff now err sig backoff threshold r)" if "row_ok r"
    using row_ok_bounds [OF that]
    by (intro row_ok_unleasedI) (simp_all add: attach_failure_eff_def next_failures_def Let_def)
  show "row_le r (attach_failure_eff now err sig backoff threshold r)"
    by (simp add: row_le_def attach_failure_eff_def Let_def)
  show "row_settled r \<Longrightarrow> row_settled (attach_failure_eff now err sig backoff threshold r)"
    by (simp add: row_settled_def attach_failure_eff_def Let_def)
qed (simp_all add: lease_of_def attach_failure_eff_def Let_def)

interpretation reap: releasing_update "reap_guard d now grace tok" "reap_eff now' backoff" tok
  for d now grace tok now' backoff
proof
  fix r
  assume g: "reap_guard d now grace tok r"
  then show "row_ok (reap_eff now' backoff r)" if "row_ok r"
    using row_ok_bounds [OF that] by (intro row_ok_unleasedI) (simp_all add: reap_eff_def Let_def)
  show "row_le r (reap_eff now' backoff r)"
    by (simp add: row_le_def reap_eff_def Let_def)
  show "row_settled r \<Longrightarrow> row_settled (reap_eff now' backoff r)"
    by (simp add: row_settled_def reap_eff_def Let_def)
  show "held tok r" using g by (simp add: reap_guard_def)
qed (auto simp: lease_of_def reap_eff_def reap_guard_def held_def Let_def)

interpretation unpark: settling_update "parked_free d" "unpark_eff now" for d now
proof
  fix r
  show "row_ok (unpark_eff now r)" if "parked_free d r" "row_ok r"
    using row_ok_unleased [OF that(2)] row_ok_bounds [OF that(2)] that(1)
    by (intro row_ok_unleasedI) (simp_all add: parked_free_def unpark_eff_def)
  show "parked_free d r \<Longrightarrow> row_le r (unpark_eff now r)"
    by (simp add: row_le_def unpark_eff_def)
  show "parked_free d r \<Longrightarrow> row_settled r \<Longrightarrow> row_settled (unpark_eff now r)"
    by (simp add: row_settled_def unpark_eff_def)
qed (simp_all add: lease_of_def unpark_eff_def)

interpretation settle: settling_update "parked_free d" "settle_eff d now consumed"
  for d now consumed
proof
  fix r
  assume g: "parked_free d r"
  show "row_ok (settle_eff d now consumed r)" if "row_ok r"
    using g row_ok_unleased [OF that] row_ok_bounds [OF that]
    by (intro row_ok_unleasedI) (simp_all add: parked_free_def settle_eff_def Let_def)
  show "row_le r (settle_eff d now consumed r)"
    by (cases "consumed_seq r")
      (auto simp: row_le_def settle_eff_def settled_watermark_def Let_def split: option.splits)
  show "row_settled r \<Longrightarrow> row_settled (settle_eff d now consumed r)"
    by (auto simp: settled_defs settle_eff_def Let_def split: option.splits if_splits)
qed (simp_all add: lease_of_def settle_eff_def Let_def)

end
