(* ===== verification/Run_Queue_Steps.thy ===== *)
theory Run_Queue_Steps
  imports Run_Queue_Laws
begin

text \<open>
  Every interleaving of the module's operations as a step relation on database states, the
  invariants each operation keeps, and their closure over whole runs. One step is one committed
  statement; other components may change the tables the queue only reads at any time. The flag
  \<^verbatim>\<open>races\<close> admits the ON CONFLICT branches of the three admission statements, taken when
  another transaction inserts the row after the statement's snapshot.
\<close>

section \<open>Insertion\<close>

definition insertable :: "db \<Rightarrow> row \<Rightarrow> bool" where
  "insertable d r \<longleftrightarrow>
     row_of d (unit_id r) = None \<and> enqueue_ord r = next_ord d \<and> row_ok r \<and> row_settled r \<and>
     lease_of r = Free 0 \<and> (\<forall>s \<in> set (queue d). \<not> same_dedup r s)"

lemma same_dedup_sym: "same_dedup r s \<longleftrightarrow> same_dedup s r"
  by (auto simp: same_dedup_def)

lemma db_ok_insert:
  assumes ok: "db_ok d" and ins: "insertable d r"
  shows "db_ok (insert_row d r)"
proof -
  have q: "queue (insert_row d r) = queue d @ [r]" "next_ord (insert_row d r) = Suc (next_ord d)"
    by (simp_all add: insert_row_def)
  have new: "unit_id r \<notin> unit_id ` set (queue d)" "enqueue_ord r = next_ord d" "row_ok r"
    "\<And>s. s \<in> set (queue d) \<Longrightarrow> \<not> same_dedup r s \<and> \<not> same_dedup s r"
    using ins same_dedup_sym by (auto simp: insertable_def row_of_None)
  have old: "distinct (map unit_id (queue d))" "distinct (map enqueue_ord (queue d))"
    "\<And>s. s \<in> set (queue d) \<Longrightarrow> row_ok s \<and> enqueue_ord s < next_ord d"
    "\<And>x y. x \<in> set (queue d) \<Longrightarrow> y \<in> set (queue d) \<Longrightarrow> unit_id x \<noteq> unit_id y \<Longrightarrow> \<not> same_dedup x y"
    using ok by (auto simp: db_ok_def)
  have "enqueue_ord r \<notin> enqueue_ord ` set (queue d)"
    using new(2) old(3) by fastforce
  moreover have "row_ok x \<and> enqueue_ord x < Suc (next_ord d)" if "x \<in> set (queue d @ [r])" for x
    using that new(2,3) old(3) by (auto simp: less_SucI)
  moreover have "\<not> same_dedup x y"
    if "x \<in> set (queue d @ [r])" "y \<in> set (queue d @ [r])" "unit_id x \<noteq> unit_id y" for x y
    using that new(4) old(4) by auto
  ultimately show ?thesis
    unfolding db_ok_def q using old(1,2) new(1) by simp
qed

lemma db_le_insert: "db_le d (insert_row d r)"
  by (auto simp: db_le_def row_of_insert)

lemma db_settled_insert: "db_settled d \<Longrightarrow> insertable d r \<Longrightarrow> db_settled (insert_row d r)"
  by (auto simp: db_settled_def insertable_def insert_row_def)

lemma fresh_row_ok [simp]: "row_ok (fresh_row now u kind ord)"
  by (simp add: row_ok_unleasedI fresh_row_def)

lemma no_dedup_key: "dedup_key r = None \<Longrightarrow> \<not> same_dedup r s"
  by (simp add: same_dedup_def)

lemma enqueue_new_insertable:
  "row_of d u = None \<Longrightarrow>
   insertable d (enqueue_new now u kind fair prio ra inp (next_ord d))"
  by (simp add: insertable_def enqueue_new_def fresh_row_def no_dedup_key row_settled_def
      lease_of_def row_ok_unleasedI)

lemma dedup_insertable:
  assumes "row_of d u = None"
    "\<not> (\<exists>s \<in> set (queue d). same_dedup (r\<lparr>dedup_key := Some k\<rparr>) s)"
    "r = enqueue_new now u kind fair prio ra inp (next_ord d)"
  shows "insertable d (r\<lparr>dedup_key := Some k\<rparr>)"
  using assms
  by (simp add: insertable_def enqueue_new_def fresh_row_def row_settled_def lease_of_def
      row_ok_unleasedI)

lemma map_ok_pair:
  "map_ok (\<lambda>(res, d'). (g res, d')) c = Inr (x, d') \<longleftrightarrow>
   (\<exists>res. c = Inr (res, d') \<and> x = g res)"
  by (cases c) auto

section \<open>Steps\<close>

inductive rq_step :: "bool \<Rightarrow> db \<Rightarrow> db \<Rightarrow> bool" for races where
  enqueue: "enqueue_unit seen now u kind fair dk prio ra inp d = Inr (r1, d') \<Longrightarrow>
            seen \<or> races \<Longrightarrow> rq_step races d d'"
| input: "record_input_seq seen now u kind sq fair d = Inr (r2, d') \<Longrightarrow>
          seen \<or> races \<Longrightarrow> rq_step races d d'"
| control: "record_control_seq seen now u kind sq baseline fair d = Inr (r2, d') \<Longrightarrow>
            seen \<or> races \<Longrightarrow> rq_step races d d'"
| claim: "claim_unit locked now kind pod pref ttl grace d = Inr (r3, d') \<Longrightarrow> rq_step races d d'"
| beat: "heartbeat_unit now u tok ttl d = Inr (r4, d') \<Longrightarrow> rq_step races d d'"
| admit: "open_interrupt_admission u tok turn d = Inr (r5, d') \<Longrightarrow> rq_step races d d'"
| dismiss: "close_interrupt_admission u tok turn wm d = Inr (r5, d') \<Longrightarrow> rq_step races d d'"
| finish: "complete_unit now u tok wm d = Inr (r6, d') \<Longrightarrow> rq_step races d d'"
| release: "release_unit now u tok backoff err reason msg d = Inr (r6, d') \<Longrightarrow> rq_step races d d'"
| park: "park_unit now u tok reason msg d = Inr (r6, d') \<Longrightarrow> rq_step races d d'"
| attach: "record_attach_failure now u tok emsg sig backoff threshold d = Inr (r7, d') \<Longrightarrow>
           rq_step races d d'"
| steal: "reap_steal now grace backoff c d = Inr (r8, d') \<Longrightarrow> rq_step races d d'"
| unpark: "unpark_unit now u d = Inr (r5, d') \<Longrightarrow> rq_step races d d'"
| settle: "settle_parked_unit now u wm d = Inr (r6, d') \<Longrightarrow> rq_step races d d'"
| other: "queue d' = queue d \<Longrightarrow> next_ord d' = next_ord d \<Longrightarrow> rq_step races d d'"

text \<open>
  What every operation does to the queue table, in one of two shapes: append an admissible row,
  or replace one row by an update that keeps the contract.
\<close>

definition good_update :: "bool \<Rightarrow> row \<Rightarrow> row \<Rightarrow> bool" where
  "good_update races r s \<longleftrightarrow>
     unit_id s = unit_id r \<and> enqueue_ord s = enqueue_ord r \<and>
     (row_ok r \<longrightarrow> row_ok s \<and> row_le r s) \<and>
     lease_move (lease_of r) (lease_of s) \<and>
     (\<not> races \<longrightarrow> row_settled r \<longrightarrow> row_settled s)"

inductive table_change :: "bool \<Rightarrow> db \<Rightarrow> db \<Rightarrow> bool" for races where
  same: "queue d' = queue d \<Longrightarrow> next_ord d' = next_ord d \<Longrightarrow> table_change races d d'"
| append: "insertable d r \<Longrightarrow> table_change races d (insert_row d r)"
| replace: "row_of d u = Some r \<Longrightarrow> good_update races r s \<Longrightarrow>
            \<not> dedup_conflict (queue d) s \<Longrightarrow> table_change races d (store d s)"

lemma cas_change:
  assumes "cas u guard eff d = Inr (res, d')"
    and "\<And>r. guard r \<Longrightarrow> good_update races r (eff r)"
  shows "table_change races d d'"
  using assms(1)
proof (cases rule: cas_cases)
  case miss
  then show ?thesis by (simp add: table_change.same)
next
  case (hit r)
  then show ?thesis using assms(2) by (auto intro: table_change.replace)
qed

text \<open>The contracts give the second shape for each statement.\<close>

context settling_update begin

lemma good: "guard r \<Longrightarrow> good_update races r (eff r)"
  by (simp add: good_update_def eff_unit eff_ord eff_ok eff_grows eff_lease eff_settled)

lemma cas_table: "cas u guard eff d = Inr (res, d') \<Longrightarrow> table_change races d d'"
  by (erule cas_change) (rule good)

end

context row_update begin

lemma good_racing: "guard r \<Longrightarrow> good_update True r (eff r)"
  by (simp add: good_update_def eff_unit eff_ord eff_ok eff_grows eff_lease)

lemma cas_table_racing: "cas u guard eff d = Inr (res, d') \<Longrightarrow> table_change True d d'"
  by (erule cas_change) (rule good_racing)

end


section \<open>Every step has one of the two shapes\<close>

lemma enqueue_table:
  assumes "enqueue_unit seen now u kind fair dk prio ra inp d = Inr (res, d')" "seen \<or> races"
  shows "table_change races d d'"
proof (cases dk)
  case (Some k)
  define r where "r = enqueue_new now u kind fair prio ra inp (next_ord d)"
  show ?thesis
    using assms(1) Some dedup_insertable [where d = d and u = u and k = k, OF _ _ r_def]
    by (auto simp: enqueue_unit_def enqueue_dedup_sql_def Let_def r_def [symmetric]
        intro!: table_change.append table_change.same split: if_splits)
next
  case None
  show ?thesis
  proof (cases "row_of d u")
    case None
    with assms(1) \<open>dk = None\<close> show ?thesis
      using enqueue_new_insertable [OF None]
      by (auto simp: enqueue_unit_def enqueue_sql_def Let_def intro: table_change.append)
  next
    case (Some r0)
    show ?thesis
    proof (cases seen)
      case True
      with assms(1) \<open>dk = None\<close> Some show ?thesis
        by (auto simp: enqueue_unit_def enqueue_sql_def map_ok_Inr intro: enqueue_upd.cas_table)
    next
      case False
      with assms \<open>dk = None\<close> Some show ?thesis
        by (auto simp: enqueue_unit_def enqueue_sql_def map_ok_Inr Let_def
            intro: enqueue_merge.cas_table_racing)
    qed
  qed
qed

lemma input_table:
  assumes "record_input_seq seen now u kind sq fair d = Inr (res, d')" "seen \<or> races"
  shows "table_change races d d'"
proof (cases "row_of d u")
  case None
  have "insertable d ((fresh_row now u kind (next_ord d))\<lparr>fair_key := fair,
          input_seq := Some sq, consumed_seq := Some (sq - 1)\<rparr>)"
    using None by (simp add: insertable_def fresh_row_def no_dedup_key row_settled_def
        lease_of_def row_ok_unleasedI)
  with assms(1) None show ?thesis
    by (auto simp: record_input_seq_def record_input_sql_def Let_def intro: table_change.append)
next
  case (Some r0)
  show ?thesis
  proof (cases seen)
    case True
    with assms(1) Some show ?thesis
      by (auto simp: record_input_seq_def record_input_sql_def map_ok_Inr
          intro: record_input_upd.cas_table)
  next
    case False
    with assms Some show ?thesis
      by (auto simp: record_input_seq_def record_input_sql_def map_ok_Inr
          intro: record_input_merge.cas_table_racing)
  qed
qed

lemma control_table:
  assumes "record_control_seq seen now u kind sq baseline fair d = Inr (res, d')" "seen \<or> races"
  shows "table_change races d d'"
proof (cases "row_of d u")
  case None
  have "insertable d ((fresh_row now u kind (next_ord d))\<lparr>fair_key := fair,
          input_seq := Some baseline, consumed_seq := Some baseline,
          control_input_seq := sq, control_consumed_seq := sq - 1\<rparr>)"
    using None by (simp add: insertable_def fresh_row_def no_dedup_key row_settled_def
        lease_of_def row_ok_unleasedI)
  with assms(1) None show ?thesis
    by (auto simp: record_control_seq_def record_control_sql_def Let_def
        intro: table_change.append)
next
  case (Some r0)
  show ?thesis
  proof (cases seen)
    case True
    with assms(1) Some show ?thesis
      by (auto simp: record_control_seq_def record_control_sql_def map_ok_Inr
          intro: record_control_upd.cas_table)
  next
    case False
    with assms Some show ?thesis
      by (auto simp: record_control_seq_def record_control_sql_def map_ok_Inr
          intro: record_control_merge.cas_table_racing)
  qed
qed

lemma claim_mark_None: "claim_mark now pod ttl chosen d = Inr (None, d') \<Longrightarrow> d' = d"
  by (auto simp: claim_mark_def map_ok_Inr cas_def split: option.splits if_splits)

lemma claim_unit_cases:
  assumes "claim_unit locked now kind pod pref ttl grace d = Inr (res, d')"
  obtains (preferred) u c where "pref = Some u" "res = Some c"
      "claim_prefer_sql locked now kind pod ttl u d = Inr (Some c, d')"
  | (general) "claim_sql locked now kind pod ttl grace d = Inr (res, d')"
      "\<forall>u. pref = Some u \<longrightarrow> claim_prefer_sql locked now kind pod ttl u d = Inr (None, d)"
proof (cases pref)
  case None
  then show ?thesis using assms general by (simp add: claim_unit_def)
next
  case (Some u)
  from assms Some obtain r d1 where r: "claim_prefer_sql locked now kind pod ttl u d = Inr (r, d1)"
    and rest: "(case r of Some c \<Rightarrow> Inr (Some c, d1)
                | None \<Rightarrow> claim_sql locked now kind pod ttl grace d1) = Inr (res, d')"
    by (auto simp: claim_unit_def bind_ok_Inr)
  show ?thesis
  proof (cases r)
    case None
    with r have "d1 = d" by (auto simp: claim_prefer_sql_def dest: claim_mark_None)
    with r rest None Some general show ?thesis by simp
  next
    case (Some c)
    with rest have "res = Some c" "d1 = d'" by simp_all
    with preferred \<open>pref = Some u\<close> r Some show ?thesis by simp
  qed
qed

lemma claim_mark_hit:
  assumes "row_of d (unit_id r) = Some r"
  shows "claim_mark now pod ttl (Some r) d
    = Inr (Some (claimed_of (claim_update now pod ttl r)), store d (claim_update now pod ttl r))"
proof -
  have "\<not> dedup_conflict (queue d) (claim_update now pod ttl r)"
    by (simp add: dedup_conflict_def same_dedup_def claim_update_def)
  then show ?thesis using assms by (simp add: claim_mark_def cas_def)
qed

lemma claim_sql_result:
  assumes "db_ok d"
  shows "claim_sql locked now kind pod ttl grace d =
    (case first_min claim_order
            (filter (\<lambda>r. claim_eligible now kind pod grace d r \<and> \<not> locked (unit_id r)) (queue d)) of
       None \<Rightarrow> Inr (None, d)
     | Some r \<Rightarrow> Inr (Some (claimed_of (claim_update now pod ttl r)),
                      store d (claim_update now pod ttl r)))"
proof (cases "first_min claim_order
    (filter (\<lambda>r. claim_eligible now kind pod grace d r \<and> \<not> locked (unit_id r)) (queue d))")
  case None
  then show ?thesis by (simp add: claim_sql_def claim_mark_def)
next
  case (Some r)
  then have "row_of d (unit_id r) = Some r"
    using first_min_in [OF Some] row_of_member [OF assms] by simp
  then show ?thesis using Some by (simp add: claim_sql_def claim_mark_hit)
qed

lemma claim_prefer_result:
  "claim_prefer_sql locked now kind pod ttl u d =
    (case row_of d u of None \<Rightarrow> Inr (None, d)
     | Some r \<Rightarrow> if runnable now kind d r \<and> \<not> locked u
                 then Inr (Some (claimed_of (claim_update now pod ttl r)),
                           store d (claim_update now pod ttl r))
                 else Inr (None, d))"
  using claim_mark_hit [of d] row_of_unit [of d u]
  by (auto simp: claim_prefer_sql_def claim_mark_def split: option.splits)

lemma claim_unit_SomeE:
  assumes "db_ok d" "claim_unit locked now kind pod pref ttl grace d = Inr (Some c, d')"
  obtains r where "row_of d (unit_id r) = Some r" "runnable now kind d r"
    "c = claimed_of (claim_update now pod ttl r)" "d' = store d (claim_update now pod ttl r)"
proof -
  have "\<exists>r. row_of d (unit_id r) = Some r \<and> runnable now kind d r \<and>
      c = claimed_of (claim_update now pod ttl r) \<and> d' = store d (claim_update now pod ttl r)"
    using assms(2)
  proof (cases rule: claim_unit_cases)
    case (preferred u c')
    from preferred(3) obtain r where r: "row_of d u = Some r" "runnable now kind d r"
      "c' = claimed_of (claim_update now pod ttl r)" "d' = store d (claim_update now pod ttl r)"
      by (auto simp: claim_prefer_result split: option.splits if_splits)
    with preferred(2) row_of_unit [OF r(1)] show ?thesis by auto
  next
    case general
    then show ?thesis
      using first_min_in row_of_member [OF assms(1)]
      by (fastforce simp: claim_sql_result [OF assms(1)] claim_eligible_def split: option.splits)
  qed
  then show ?thesis using that by blast
qed

lemma claim_table:
  assumes "db_ok d" "claim_unit locked now kind pod pref ttl grace d = Inr (res, d')"
  shows "table_change races d d'"
proof (cases res)
  case None
  with assms(2) have "d' = d"
    by (cases rule: claim_unit_cases) (auto simp: claim_sql_def dest: claim_mark_None)
  then show ?thesis by (simp add: table_change.same)
next
  case (Some c)
  obtain r where r: "row_of d (unit_id r) = Some r" "runnable now kind d r"
    "d' = store d (claim_update now pod ttl r)"
    using claim_unit_SomeE [OF assms(1) assms(2) [unfolded Some]] by metis
  then have "good_update races r (claim_update now pod ttl r)"
    by (auto simp: runnable_def intro: claim_update.good)
  moreover have "\<not> dedup_conflict (queue d) (claim_update now pod ttl r)"
    by (simp add: dedup_conflict_def same_dedup_def claim_update_def)
  ultimately show ?thesis using r by (auto intro: table_change.replace)
qed

lemma release_table:
  "release_unit now u tok backoff err reason msg d = Inr (res, d') \<Longrightarrow> table_change races d d'"
  by (cases reason)
    (auto simp: release_unit_def map_ok_Inr
      intro: release.cas_table release_deterministic.cas_table)

lemma open_guard_positive:
  "0 < turn \<Longrightarrow> (\<lambda>r. 0 < turn \<and> open_guard tok turn r) = open_guard tok turn"
  by simp

lemma open_table:
  assumes "open_interrupt_admission u tok turn d = Inr (res, d')"
  shows "table_change races d d'"
proof -
  have pos: "0 < turn"
    using assms by (auto simp: open_interrupt_admission_def split: if_splits)
  obtain r where "cas u (open_guard tok turn) (open_eff tok turn) d = Inr (r, d')"
    using assms by (auto simp: open_interrupt_admission_def map_ok_Inr split: if_splits)
  then show ?thesis
    using open_admission.cas_table [of u turn tok d r d' races] open_guard_positive [OF pos]
    by simp
qed

lemma close_table:
  "close_interrupt_admission u tok turn wm d = Inr (res, d') \<Longrightarrow> table_change races d d'"
  by (auto simp: close_interrupt_admission_def map_ok_Inr intro: close_admission.cas_table
      split: if_splits)

lemma rq_step_table: "rq_step races d d' \<Longrightarrow> db_ok d \<Longrightarrow> table_change races d d'"
proof (induction rule: rq_step.induct)
  case (beat now u tok ttl d r4 d')
  then show ?case
    by (auto simp: heartbeat_unit_def map_ok_Inr intro: heartbeat.cas_table)
next
  case (finish now u tok wm d r6 d')
  then show ?case
    by (auto simp: complete_unit_def map_ok_Inr intro: complete.cas_table)
next
  case (park now u tok reason msg d r6 d')
  then show ?case by (auto simp: park_unit_def map_ok_Inr intro: park.cas_table)
next
  case (attach now u tok emsg sig backoff threshold d r7 d')
  then show ?case
    by (auto simp: record_attach_failure_def map_ok_Inr intro: attach_failure.cas_table)
next
  case (steal now grace backoff c d r8 d')
  then show ?case by (auto simp: reap_steal_def map_ok_Inr intro: reap.cas_table)
next
  case (unpark now u d r5 d')
  then show ?case by (auto simp: unpark_unit_def map_ok_Inr intro: unpark.cas_table)
next
  case (settle now u wm d r6 d')
  then show ?case by (auto simp: settle_parked_unit_def map_ok_Inr intro: settle.cas_table)
qed (auto intro: enqueue_table input_table control_table claim_table open_table close_table
    release_table table_change.same)


section \<open>Invariants over runs\<close>

lemma table_change_ok: "table_change races d d' \<Longrightarrow> db_ok d \<Longrightarrow> db_ok d'"
proof (induction rule: table_change.induct)
  case (same d' d)
  then show ?case by (simp add: db_ok_def)
next
  case (append d r)
  then show ?case by (simp add: db_ok_insert)
next
  case (replace d u r s)
  then show ?case
    by (auto simp: good_update_def intro: db_ok_store row_of_ok)
qed

lemma table_change_le: "table_change races d d' \<Longrightarrow> db_ok d \<Longrightarrow> db_le d d'"
proof (induction rule: table_change.induct)
  case (same d' d)
  then show ?case by (simp add: db_le_def row_of_def)
next
  case (append d r)
  then show ?case by (simp add: db_le_insert)
next
  case (replace d u r s)
  then show ?case by (auto simp: good_update_def intro: db_le_store row_of_ok)
qed

lemma table_change_settled: "table_change False d d' \<Longrightarrow> db_settled d \<Longrightarrow> db_settled d'"
proof (induction rule: table_change.induct)
  case (same d' d)
  then show ?case by (simp add: db_settled_def)
next
  case (append d r)
  then show ?case by (simp add: db_settled_insert)
next
  case (replace d u r s)
  then have "row_settled r" by (auto simp: db_settled_def dest: row_of_in)
  with replace show ?case by (simp add: good_update_def db_settled_store)
qed

lemma rq_step_ok: "rq_step races d d' \<Longrightarrow> db_ok d \<Longrightarrow> db_ok d'"
  using table_change_ok [OF rq_step_table] by blast

lemma rq_step_le: "rq_step races d d' \<Longrightarrow> db_ok d \<Longrightarrow> db_le d d'"
  using table_change_le [OF rq_step_table] by blast

lemma rq_step_settled: "rq_step False d d' \<Longrightarrow> db_ok d \<Longrightarrow> db_settled d \<Longrightarrow> db_settled d'"
  using table_change_settled [OF rq_step_table] by blast

lemma rq_run_ok: "(rq_step races)\<^sup>*\<^sup>* d d' \<Longrightarrow> db_ok d \<Longrightarrow> db_ok d'"
  by (induction rule: rtranclp_induct) (auto intro: rq_step_ok)

lemma rq_run_le: "(rq_step races)\<^sup>*\<^sup>* d d' \<Longrightarrow> db_ok d \<Longrightarrow> db_le d d'"
proof (induction rule: rtranclp_induct)
  case (step y z)
  then show ?case by (meson db_le_trans rq_run_ok rq_step_le)
qed simp

lemma rq_run_settled:
  "(rq_step False)\<^sup>*\<^sup>* d d' \<Longrightarrow> db_ok d \<Longrightarrow> db_settled d \<Longrightarrow> db_settled d'"
proof (induction rule: rtranclp_induct)
  case (step y z)
  then show ?case using rq_run_ok rq_step_settled by blast
qed

definition empty_db :: db where
  "empty_db = \<lparr>queue = [], recovery_jobs = [], messages = [], deliveries = [], next_ord = 1\<rparr>"

definition reachable :: "bool \<Rightarrow> db \<Rightarrow> bool" where
  "reachable races d \<longleftrightarrow> (rq_step races)\<^sup>*\<^sup>* empty_db d"

lemma empty_db_ok: "db_ok empty_db" "db_settled empty_db"
  by (simp_all add: db_ok_def db_settled_def empty_db_def)

lemma reachable_ok: "reachable races d \<Longrightarrow> db_ok d"
  using rq_run_ok empty_db_ok by (auto simp: reachable_def)

lemma reachable_step: "reachable races d \<Longrightarrow> rq_step races d d' \<Longrightarrow> reachable races d'"
  by (simp add: reachable_def rtranclp.rtrancl_into_rtrancl)

lemma reachable_empty: "reachable races empty_db"
  by (simp add: reachable_def)

section \<open>A pass of the reaper is a run\<close>

lemma reap_loop_run:
  assumes between: "\<And>i x. (rq_step races)\<^sup>*\<^sup>* x (between i x)"
  shows "(rq_step races)\<^sup>*\<^sup>* d (snd (reap_loop None None between clock jit grace base i cs d))"
proof (induction cs arbitrary: i d)
  case Nil
  then show ?case by simp
next
  case (Cons c cs)
  define b where "b = base * of_int (cand_attempts c) * (1 + jit i)"
  have steal: "steal_for None None (clock i) grace b c (between i d)
               = reap_steal (clock i) grace b c (between i d)"
    by (simp add: steal_for_def)
  show ?case
  proof (cases "reap_steal (clock i) grace b c (between i d)")
    case (Inl e)
    then show ?thesis using between by (simp add: b_def [symmetric] steal)
  next
    case (Inr p)
    then obtain res d1 where p: "reap_steal (clock i) grace b c (between i d) = Inr (res, d1)"
      by (cases p) auto
    then have "(rq_step races)\<^sup>*\<^sup>* d d1"
      using between by (meson rq_step.steal rtranclp.rtrancl_into_rtrancl)
    moreover have "snd (reap_loop None None between clock jit grace base i (c # cs) d)
                   = snd (reap_loop None None between clock jit grace base (Suc i) cs d1)"
      by (simp add: b_def [symmetric] steal p split: prod.splits sum.splits)
    ultimately show ?thesis using Cons.IH [of d1 "Suc i"] by (metis rtranclp_trans)
  qed
qed

end
