(* ===== verification/Run_Queue_Safety.thy ===== *)
theory Run_Queue_Safety
  imports Run_Queue_Steps
begin

text \<open>
  The guarantees of the run queue: fencing, exclusive leases, the schema's CHECK constraint, no
  stranded input, the refinement of an abstract lease, and the functional behaviour of claim,
  completion, reaping, parking and admission.
\<close>

section \<open>A concrete queue for the witnesses\<close>

definition demo_row :: row where
  "demo_row = (fresh_row 0 7 UNIT_KIND_SESSION_TURN 1)\<lparr>lease_token := 3,
     input_seq := Some 5, consumed_seq := Some 4\<rparr>"

definition demo_db :: db where
  "demo_db = insert_row empty_db demo_row"

definition demo_leased :: row where
  "demo_leased = claim_update 10 ''pod-a'' 60 demo_row"

definition demo_claimed :: db where
  "demo_claimed = store demo_db demo_leased"

lemma demo_row_ok: "row_ok demo_row"
  by (simp add: demo_row_def fresh_row_def row_ok_unleasedI)

lemma demo_db_ok: "db_ok demo_db"
  using demo_row_ok
  by (simp add: db_ok_def demo_db_def insert_row_def empty_db_def)
    (simp add: demo_row_def fresh_row_def)

lemma demo_rows:
  "row_of demo_db 7 = Some demo_row" "row_of demo_claimed 7 = Some demo_leased"
  "queue demo_db = [demo_row]" "queue demo_claimed = [demo_leased]"
  "recovery_jobs demo_db = []" "recovery_jobs demo_claimed = []"
  "deliveries demo_claimed = []"
  by (simp_all add: demo_db_def demo_claimed_def demo_leased_def insert_row_def empty_db_def
      row_of_def demo_row_def fresh_row_def store_def put_by_def claim_update_def)

lemmas demo_defs = demo_row_def demo_leased_def claim_update_def fresh_row_def

lemma demo_claim:
  "claim_unit (\<lambda>_. False) 10 UNIT_KIND_SESSION_TURN ''pod-a'' None 60 2 demo_db
   = Inr (Some (claimed_of demo_leased), demo_claimed)"
proof -
  have "claim_eligible 10 UNIT_KIND_SESSION_TURN ''pod-a'' 2 demo_db demo_row"
    by (simp add: claim_eligible_def runnable_def recovery_held_def demo_rows demo_defs)
  moreover have "unit_id demo_row = 7" by (simp add: demo_defs)
  ultimately show ?thesis
    by (simp add: claim_unit_def claim_sql_def claim_mark_def cas_def demo_rows
        dedup_conflict_def demo_leased_def demo_claimed_def)
      (simp add: demo_defs)
qed

lemma demo_claimed_ok: "db_ok demo_claimed"
  using rq_step_ok [OF rq_step.claim [OF demo_claim]] demo_db_ok by blast

section \<open>Fencing\<close>

text \<open>
  C15. Once a lease token is dead for a unit (its lease ended or a larger token was issued), then
  in every state that any interleaving of queue operations can reach from there the token
  authorises nothing: the fence refuses it, and heartbeat, completion, both releases, park,
  attach failure and the two interrupt-admission updates report the loss and change nothing.
\<close>

theorem lost_token_authorises_nothing:
  assumes "db_ok d" and "token_dead d u tok" and "(rq_step races)\<^sup>*\<^sup>* d d'"
  shows "\<not> fence_lease u tok d' \<and>
    heartbeat_unit now u tok ttl d' = Inr (None, d') \<and>
    complete_unit now u tok consumed d' = Inr (None, d') \<and>
    release_unit now u tok backoff err reason msg d' = Inr (None, d') \<and>
    park_unit now u tok reason msg d' = Inr (None, d') \<and>
    record_attach_failure now u tok emsg sig backoff threshold d' = Inr (None, d') \<and>
    open_interrupt_admission u tok turn d' \<in> {Inl Value_Error, Inr (False, d')} \<and>
    close_interrupt_admission u tok turn wm d' \<in> {Inl Value_Error, Inr (False, d')}"
proof -
  have dead: "token_dead d' u tok"
    using token_dead_mono [OF assms(2) rq_run_le [OF assms(3,1)]] .
  note gone = heartbeat.cas_dead [OF dead] complete.cas_dead [OF dead] release.cas_dead [OF dead]
    release_deterministic.cas_dead [OF dead] park.cas_dead [OF dead] attach_failure.cas_dead [OF dead]
    close_admission.cas_dead [OF dead]
  have "open_interrupt_admission u tok turn d' \<in> {Inl Value_Error, Inr (False, d')}"
  proof (cases "0 < tok \<and> 0 < turn")
    case True
    then show ?thesis
      using open_admission.cas_dead [OF dead, of turn]
        open_guard_positive [of turn tok]
      by (simp add: open_interrupt_admission_def)
  next
    case False
    then show ?thesis by (auto simp: open_interrupt_admission_def)
  qed
  moreover have "\<not> fence_lease u tok d'"
    using token_dead_not_held [OF dead] by (auto simp: fence_lease_def split: option.splits)
  ultimately show ?thesis
    by (cases reason)
      (simp_all add: gone heartbeat_unit_def complete_unit_def release_unit_def park_unit_def
        record_attach_failure_def close_interrupt_admission_def)
qed

theorem lost_token_authorises_nothing_witness:
  "\<not> fence_lease 7 3 demo_claimed \<and>
   complete_unit 20 7 3 (Some 5) demo_claimed = Inr (None, demo_claimed)"
proof -
  have dead: "token_dead demo_db 7 3"
    by (simp add: token_dead_def demo_rows demo_defs)
  have run: "(rq_step False)\<^sup>*\<^sup>* demo_db demo_claimed"
    using rq_step.claim [OF demo_claim] by blast
  show ?thesis
    using lost_token_authorises_nothing [OF demo_db_ok dead run] by blast
qed

section \<open>Claims\<close>

text \<open>
  A claim never raises. It returns nothing exactly when every eligible row is locked by
  another transaction, and then the queue is untouched. Otherwise it leases one unlocked
  runnable row: the preferred unit when that is runnable, else the eligible row that comes first
  in (priority descending, queue time, insertion order); the result is that row after the claim
  update, and nothing else changes.
\<close>

theorem claim_unit_takes_first_eligible:
  assumes "db_ok d"
  shows "case claim_unit locked now kind pod pref ttl grace d of
      Inl e \<Rightarrow> False
    | Inr (None, d') \<Rightarrow> d' = d \<and>
        (\<forall>r \<in> set (queue d). claim_eligible now kind pod grace d r \<longrightarrow> locked (unit_id r))
    | Inr (Some c, d') \<Rightarrow>
        (\<exists>r \<in> set (queue d).
           \<not> locked (unit_id r) \<and> runnable now kind d r \<and>
           c = claimed_of (claim_update now pod ttl r) \<and>
           d' = store d (claim_update now pod ttl r) \<and>
           (pref = Some (unit_id r) \<or>
            claim_eligible now kind pod grace d r \<and>
            (\<forall>s \<in> set (queue d). claim_eligible now kind pod grace d s \<and> \<not> locked (unit_id s)
                \<longrightarrow> claim_order r \<le> claim_order s)))"
proof -
  define E where
    "E = filter (\<lambda>r. claim_eligible now kind pod grace d r \<and> \<not> locked (unit_id r)) (queue d)"
  have general: ?thesis if eq: "claim_unit locked now kind pod pref ttl grace d
                              = claim_sql locked now kind pod ttl grace d"
  proof (cases "first_min claim_order E")
    case None
    then have "E = []" by simp
    then have "\<forall>r \<in> set (queue d). claim_eligible now kind pod grace d r \<longrightarrow> locked (unit_id r)"
      by (auto simp: E_def filter_empty_conv)
    moreover have "claim_unit locked now kind pod pref ttl grace d = Inr (None, d)"
      using None by (simp add: eq claim_sql_result [OF assms] E_def [symmetric])
    ultimately show ?thesis by simp
  next
    case (Some r)
    have res: "claim_unit locked now kind pod pref ttl grace d
       = Inr (Some (claimed_of (claim_update now pod ttl r)), store d (claim_update now pod ttl r))"
      using Some by (simp add: eq claim_sql_result [OF assms] E_def [symmetric])
    have r: "r \<in> set (queue d)" "claim_eligible now kind pod grace d r" "\<not> locked (unit_id r)"
      using first_min_in [OF Some] by (auto simp: E_def)
    have "\<forall>s \<in> set (queue d). claim_eligible now kind pod grace d s \<and> \<not> locked (unit_id s)
            \<longrightarrow> claim_order r \<le> claim_order s"
      using first_min_le [OF Some] by (auto simp: E_def)
    with r res show ?thesis by (auto simp: claim_eligible_def intro!: bexI [of _ r])
  qed
  show ?thesis
  proof (cases "\<exists>u r. pref = Some u \<and> row_of d u = Some r \<and> runnable now kind d r \<and> \<not> locked u")
    case True
    then obtain u r where u: "pref = Some u" "row_of d u = Some r" "runnable now kind d r" "\<not> locked u"
      by blast
    then have "claim_unit locked now kind pod pref ttl grace d
       = Inr (Some (claimed_of (claim_update now pod ttl r)), store d (claim_update now pod ttl r))"
      by (simp add: claim_unit_def claim_prefer_result)
    with u show ?thesis
      using row_of_unit [OF u(2)] row_of_in [OF u(2)] by (auto intro!: bexI [of _ r])
  next
    case False
    then have "claim_unit locked now kind pod pref ttl grace d
               = claim_sql locked now kind pod ttl grace d"
      by (auto simp: claim_unit_def claim_prefer_result split: option.splits)
    then show ?thesis by (rule general)
  qed
qed

theorem claim_unit_takes_first_eligible_witness:
  "\<exists>r \<in> set (queue demo_db). runnable 10 UNIT_KIND_SESSION_TURN demo_db r \<and>
     claimed_of demo_leased = claimed_of (claim_update 10 ''pod-a'' 60 r)"
  using claim_unit_takes_first_eligible [OF demo_db_ok,
      where locked = "\<lambda>_. False" and now = 10 and kind = UNIT_KIND_SESSION_TURN
        and pod = "''pod-a''" and pref = None and ttl = 60 and grace = 2]
  by (auto simp: demo_claim)

text \<open>
  C25. Two successful claims of the same unit never share a lease: whatever runs between them,
  the later claim carries a strictly larger token, the earlier token is dead from then on and
  the later one is the token that holds the lease.
\<close>

theorem claims_are_exclusive:
  assumes "db_ok d0"
    and "claim_unit locked1 now1 kind1 pod1 pref1 ttl1 grace1 d0 = Inr (Some c1, d1)"
    and "(rq_step races)\<^sup>*\<^sup>* d1 d2"
    and "claim_unit locked2 now2 kind2 pod2 pref2 ttl2 grace2 d2 = Inr (Some c2, d3)"
    and "cu_unit_id c1 = cu_unit_id c2"
  shows "cu_lease_token c1 < cu_lease_token c2 \<and>
         token_dead d3 (cu_unit_id c1) (cu_lease_token c1) \<and>
         fence_lease (cu_unit_id c2) (cu_lease_token c2) d3"
proof -
  obtain r1 where r1: "row_of d0 (unit_id r1) = Some r1"
    "c1 = claimed_of (claim_update now1 pod1 ttl1 r1)" "d1 = store d0 (claim_update now1 pod1 ttl1 r1)"
    using claim_unit_SomeE [OF assms(1,2)] by metis
  have ok1: "db_ok d1" using rq_step_ok [OF rq_step.claim [OF assms(2)] assms(1)] .
  have ok2: "db_ok d2" using rq_run_ok [OF assms(3) ok1] .
  obtain r2 where r2: "row_of d2 (unit_id r2) = Some r2" "runnable now2 kind2 d2 r2"
    "c2 = claimed_of (claim_update now2 pod2 ttl2 r2)" "d3 = store d2 (claim_update now2 pod2 ttl2 r2)"
    using claim_unit_SomeE [OF ok2 assms(4)] by metis
  have unit: "unit_id r1 = unit_id r2"
    using assms(5) r1(2) r2(3) by (simp add: claimed_of_def claim_update_def)
  have "row_of d1 (unit_id r1) = Some (claim_update now1 pod1 ttl1 r1)"
    using r1 row_of_store [of d0 "claim_update now1 pod1 ttl1 r1"] by (simp add: claim_update_def)
  then have le: "row_le (claim_update now1 pod1 ttl1 r1) r2"
    using db_leD [OF rq_run_le [OF assms(3) ok1]] r2(1) unit by simp
  have row3: "row_of d3 (unit_id r2) = Some (claim_update now2 pod2 ttl2 r2)"
    using r2 row_of_store [of d2 "claim_update now2 pod2 ttl2 r2"] by (simp add: claim_update_def)
  have "lease_token r1 + 1 \<le> lease_token r2"
    using le by (simp add: row_le_def claim_update_def)
  then show ?thesis
    using row3 r1(2) r2(3) unit
    by (auto simp: claimed_of_def claim_update_def token_dead_def fence_lease_def held_def)
qed

definition demo_requeued :: row where
  "demo_requeued = release_eff 20 0 False 5 demo_leased"

definition demo_released :: db where
  "demo_released = store demo_claimed demo_requeued"

definition demo_again :: row where
  "demo_again = claim_update 30 ''pod-b'' 60 demo_requeued"

lemma demo_release:
  "release_unit 20 7 4 0 False None None demo_claimed = Inr (Some Queued, demo_released)"
  by (simp add: release_unit_def cas_def demo_rows held_def demo_defs RELEASE_BACKOFF_BASE_SECONDS_def
      demo_requeued_def demo_released_def dedup_conflict_def same_dedup_def release_eff_def)

lemma demo_released_rows:
  "queue demo_released = [demo_requeued]" "recovery_jobs demo_released = []"
  "row_of demo_released 7 = Some demo_requeued"
  by (simp_all add: demo_released_def store_def demo_rows put_by_def row_of_def)
    (simp_all add: demo_requeued_def release_eff_def demo_defs demo_claimed_def demo_db_def
      insert_row_def empty_db_def store_def)

lemma demo_released_ok: "db_ok demo_released"
  using rq_step_ok [OF rq_step.release [OF demo_release] demo_claimed_ok] .

lemma demo_claim_again:
  "claim_unit (\<lambda>_. False) 30 UNIT_KIND_SESSION_TURN ''pod-b'' None 60 2 demo_released
   = Inr (Some (claimed_of demo_again), store demo_released demo_again)"
proof -
  have "claim_eligible 30 UNIT_KIND_SESSION_TURN ''pod-b'' 2 demo_released demo_requeued"
    by (simp add: claim_eligible_def runnable_def recovery_held_def demo_released_rows
        demo_requeued_def release_eff_def demo_defs)
  moreover have "unit_id demo_requeued = 7"
    by (simp add: demo_requeued_def release_eff_def demo_defs)
  ultimately show ?thesis
    by (simp add: claim_unit_def claim_sql_result demo_released_ok demo_released_rows demo_again_def)
qed

theorem claims_are_exclusive_witness:
  "cu_lease_token (claimed_of demo_leased) < cu_lease_token (claimed_of demo_again)"
proof -
  have run: "(rq_step False)\<^sup>*\<^sup>* demo_claimed demo_released"
    using rq_step.release [OF demo_release] by blast
  have same: "cu_unit_id (claimed_of demo_leased) = cu_unit_id (claimed_of demo_again)"
    by (simp add: claimed_of_def demo_again_def demo_requeued_def release_eff_def demo_defs)
  show ?thesis
    using claims_are_exclusive [OF demo_db_ok demo_claim run demo_claim_again same] by blast
qed


section \<open>Reachable queues\<close>

text \<open>
  C26. In every state reachable from the empty database, races included: unit ids and insertion
  numbers are unique, at most one queued row carries a given dedup key, a row holds a holder, an
  expiry and a positive token exactly while leased, the schema's CHECK on the interrupt
  admission pair holds (so no statement of the module can violate it), the control watermark
  never overtakes its input, and a parked row has a park time.
\<close>

theorem reachable_queue_well_formed:
  assumes "reachable races d"
  shows "distinct (map unit_id (queue d)) \<and> distinct (map enqueue_ord (queue d)) \<and>
    (\<forall>r \<in> set (queue d). \<forall>s \<in> set (queue d). unit_id r \<noteq> unit_id s \<longrightarrow> \<not> same_dedup r s) \<and>
    (\<forall>r \<in> set (queue d).
       (state r = Leased \<longleftrightarrow> leased_by r \<noteq> None) \<and> (state r = Leased \<longleftrightarrow> leased_until r \<noteq> None) \<and>
       (state r = Leased \<longrightarrow> 0 < lease_token r) \<and> interrupt_shape r \<and>
       control_consumed_seq r \<le> control_input_seq r \<and>
       (state r = Parked \<longrightarrow> parked_at r \<noteq> None))"
  using reachable_ok [OF assms]
  by (auto simp: db_ok_def row_ok_def lease_shape_def split: if_splits)

definition demo_enqueued :: db where
  "demo_enqueued = insert_row empty_db (enqueue_new 0 7 UNIT_KIND_BG_TASK None 0 None None 1)"

lemma demo_enqueue:
  "enqueue_unit True 0 7 UNIT_KIND_BG_TASK None None 0 None None empty_db
   = Inr ((ENQUEUE_INSERTED, Queued), demo_enqueued)"
  by (simp add: enqueue_unit_def enqueue_sql_def row_of_def empty_db_def demo_enqueued_def
      enqueue_new_def fresh_row_def)

lemma demo_reachable: "reachable races demo_enqueued"
  using reachable_step [OF reachable_empty rq_step.enqueue [OF demo_enqueue]] by simp

theorem reachable_queue_well_formed_witness:
  "distinct (map unit_id (queue demo_enqueued)) \<and> queue demo_enqueued \<noteq> []"
  using reachable_queue_well_formed [OF demo_reachable]
  by (simp add: demo_enqueued_def insert_row_def)

text \<open>
  C27. No wake-up is lost: in every state reachable without the insertion race, a row in state
  done has no input above its consumed watermark and no pending control.
\<close>

theorem no_lost_wakeup:
  assumes "reachable False d" and "row_of d u = Some r" and "state r = Done"
  shows "\<not> pending_input r \<and> control_input_seq r \<le> control_consumed_seq r"
proof -
  have "db_settled d"
    using assms(1) rq_run_settled empty_db_ok by (auto simp: reachable_def)
  then have "row_settled r" using assms(2) by (auto simp: db_settled_def dest: row_of_in)
  then show ?thesis using assms(3) by (auto simp: row_settled_def control_pending_def)
qed

definition demo_turn :: db where
  "demo_turn = insert_row empty_db
     ((fresh_row 0 7 UNIT_KIND_SESSION_TURN 1)\<lparr>input_seq := Some 5, consumed_seq := Some 4\<rparr>)"

definition demo_turn_row :: row where
  "demo_turn_row =
     (fresh_row 0 7 UNIT_KIND_SESSION_TURN 1)\<lparr>input_seq := Some 5, consumed_seq := Some 4\<rparr>"

definition demo_turn_leased :: row where
  "demo_turn_leased = claim_update 10 ''pod-a'' 60 demo_turn_row"

definition demo_turn_done :: row where
  "demo_turn_done = complete_eff (store demo_turn demo_turn_leased) 20 (Some 5) demo_turn_leased"

definition demo_done :: db where
  "demo_done = store (store demo_turn demo_turn_leased) demo_turn_done"

lemmas demo_turn_defs = demo_turn_row_def demo_turn_leased_def demo_turn_done_def claim_update_def
  fresh_row_def complete_eff_def complete_input_ahead_def control_pending_def

lemma demo_turn_rows:
  "queue demo_turn = [demo_turn_row]"
  "row_of demo_turn 7 = Some demo_turn_row"
  "row_of (store demo_turn demo_turn_leased) 7 = Some demo_turn_leased"
  "row_of demo_done 7 = Some demo_turn_done"
  "recovery_jobs demo_turn = []" "deliveries demo_turn = []"
  by (simp_all add: demo_turn_def demo_done_def insert_row_def empty_db_def row_of_def store_def
      put_by_def demo_turn_defs)

lemma demo_turn_input:
  "record_input_seq True 0 7 UNIT_KIND_SESSION_TURN 5 None empty_db = Inr (Queued, demo_turn)"
  by (simp add: record_input_seq_def record_input_sql_def row_of_def empty_db_def demo_turn_def
      fresh_row_def)

lemma demo_turn_reachable: "reachable races demo_turn"
  using reachable_step [OF reachable_empty rq_step.input [OF demo_turn_input]] by simp

lemma demo_turn_claim:
  "claim_unit (\<lambda>_. False) 10 UNIT_KIND_SESSION_TURN ''pod-a'' None 60 2 demo_turn
   = Inr (Some (claimed_of demo_turn_leased), store demo_turn demo_turn_leased)"
proof -
  have "claim_eligible 10 UNIT_KIND_SESSION_TURN ''pod-a'' 2 demo_turn demo_turn_row"
    by (simp add: claim_eligible_def runnable_def recovery_held_def demo_turn_rows demo_turn_defs)
  then show ?thesis
    by (simp add: claim_unit_def claim_sql_result reachable_ok [OF demo_turn_reachable]
        demo_turn_rows demo_turn_leased_def)
qed

lemma demo_turn_complete:
  "complete_unit 20 7 1 (Some 5) (store demo_turn demo_turn_leased) = Inr (Some Done, demo_done)"
proof -
  have fin: "state demo_turn_done = Done"
    by (simp add: demo_turn_defs delivery_pending_def demo_turn_rows)
  have "\<not> dedup_conflict (queue (store demo_turn demo_turn_leased)) demo_turn_done"
    using fin by (simp add: dedup_conflict_def same_dedup_def)
  moreover have "held 1 demo_turn_leased" by (simp add: held_def demo_turn_defs)
  ultimately show ?thesis
    using fin
    by (simp add: complete_unit_def cas_def demo_turn_rows recovery_held_def demo_done_def
        demo_turn_done_def [symmetric])
qed

lemma demo_done_reachable: "reachable races demo_done"
  using demo_turn_reachable reachable_step rq_step.claim [OF demo_turn_claim]
    rq_step.finish [OF demo_turn_complete] by blast

theorem no_lost_wakeup_witness:
  "row_of demo_done 7 = Some demo_turn_done \<and> \<not> pending_input demo_turn_done"
proof -
  have "state demo_turn_done = Done"
    by (simp add: demo_turn_defs delivery_pending_def demo_turn_rows)
  then show ?thesis
    using no_lost_wakeup [OF demo_done_reachable demo_turn_rows(4)] demo_turn_rows(4) by simp
qed

text \<open>
  The insertion race is not benign once the racing row has finished: an admission whose
  snapshot predates the row merges its watermark without waking the unit, so a state with a done
  row that still has unanswered input is reachable.
\<close>

theorem admission_race_strands_input:
  "\<exists>d r. reachable True d \<and> row_of d 7 = Some r \<and> state r = Done \<and> pending_input r"
proof -
  let ?s = "record_input_merge 9 demo_turn_done"
  let ?d = "store demo_done ?s"
  have fin: "state demo_turn_done = Done" "input_seq demo_turn_done = Some 5"
    "consumed_seq demo_turn_done = Some 5" "unit_id demo_turn_done = 7"
    by (simp_all add: demo_turn_defs delivery_pending_def demo_turn_rows)
  have s: "state ?s = Done" "pending_input ?s" "unit_id ?s = 7"
    using fin by (simp_all add: record_input_merge_def pending_input_def sql_simps)
  have "\<not> dedup_conflict (queue demo_done) ?s"
    using s(1) by (simp add: dedup_conflict_def same_dedup_def)
  then have "record_input_seq False 30 7 UNIT_KIND_SESSION_TURN 9 None demo_done = Inr (Done, ?d)"
    using fin(1)
    by (simp add: record_input_seq_def record_input_sql_def cas_def demo_turn_rows)
  then have "rq_step True demo_done ?d" by (rule rq_step.input) simp
  then have "reachable True ?d" by (rule reachable_step [OF demo_done_reachable])
  moreover have "row_of ?d 7 = Some ?s"
    using row_of_store [of demo_done ?s 7] s(3) demo_turn_rows(4) by simp
  ultimately show ?thesis using s by blast
qed


section \<open>Refinement of the abstract lease\<close>

definition abs_leases :: "db \<Rightarrow> uuid \<Rightarrow> lease option" where
  "abs_leases d u = map_option lease_of (row_of d u)"

inductive lease_step :: "(uuid \<Rightarrow> lease option) \<Rightarrow> (uuid \<Rightarrow> lease option) \<Rightarrow> bool" where
  idle: "lease_step m m"
| create: "m u = None \<Longrightarrow> lease_step m (m(u \<mapsto> Free 0))"
| move: "m u = Some l \<Longrightarrow> lease_move l l' \<Longrightarrow> lease_step m (m(u \<mapsto> l'))"

lemma abs_store:
  "row_of d (unit_id s) \<noteq> None \<Longrightarrow>
   abs_leases (store d s) = (abs_leases d)(unit_id s \<mapsto> lease_of s)"
  by (auto simp: abs_leases_def row_of_store fun_eq_iff)

lemma abs_insert:
  "row_of d (unit_id r) = None \<Longrightarrow>
   abs_leases (insert_row d r) = (abs_leases d)(unit_id r \<mapsto> lease_of r)"
  by (auto simp: abs_leases_def row_of_insert fun_eq_iff split: option.splits)

lemma table_change_lease:
  "table_change races d d' \<Longrightarrow> db_ok d \<Longrightarrow> lease_step (abs_leases d) (abs_leases d')"
proof (induction rule: table_change.induct)
  case (same d' d)
  then have "abs_leases d' = abs_leases d" by (simp add: abs_leases_def row_of_def fun_eq_iff)
  then show ?case by (simp add: lease_step.idle)
next
  case (append d r)
  then have "row_of d (unit_id r) = None" "lease_of r = Free 0" by (simp_all add: insertable_def)
  then show ?case
    using lease_step.create [of "abs_leases d" "unit_id r"] abs_insert [of d r]
    by (metis abs_leases_def option.map_disc_iff)
next
  case (replace d u r s)
  then have u: "unit_id s = u" "lease_move (lease_of r) (lease_of s)"
    using row_of_unit by (auto simp: good_update_def)
  then show ?case
    using replace(1) lease_step.move [of "abs_leases d" u "lease_of r" "lease_of s"]
      abs_store [of d s] by (simp add: abs_leases_def [of d u] del: fun_upd_apply)
qed

text \<open>
  C30. Refinement. Seen through the abstraction that keeps only each unit's lease, every run of
  the queue from a reachable state, races included, is a run of the abstract lease: a unit
  appears free with token 0, a free unit is granted the next token, a holder gives its token
  back, or the lease is revoked and one token is burnt.
\<close>

theorem queue_refines_lease:
  assumes "reachable races d" and "(rq_step races)\<^sup>*\<^sup>* d d'"
  shows "lease_step\<^sup>*\<^sup>* (abs_leases d) (abs_leases d')"
  using assms(2)
proof (induction rule: rtranclp_induct)
  case (step y z)
  then have "lease_step (abs_leases y) (abs_leases z)"
    using table_change_lease rq_step_table rq_run_ok reachable_ok [OF assms(1)] by blast
  then show ?case using step.IH by (auto intro: rtranclp.rtrancl_into_rtrancl)
qed simp

theorem queue_refines_lease_witness:
  "lease_step\<^sup>*\<^sup>* (abs_leases empty_db) (abs_leases demo_done)"
proof -
  have "(rq_step False)\<^sup>*\<^sup>* empty_db demo_done"
    using demo_done_reachable [of False] by (simp add: reachable_def)
  then show ?thesis by (rule queue_refines_lease [OF reachable_empty])
qed

end
