(* ===== verification/Run_Queue_Behaviour.thy ===== *)
theory Run_Queue_Behaviour
  imports Run_Queue_Safety
begin

text \<open>
  The functional behaviour of the run queue's operations: what completion, admission, parking,
  the reaper and the interrupt-admission pair do to the row they name, on every branch, and
  where the queued-only dedup index makes them raise.
\<close>

section \<open>One guarded update, seen from its caller\<close>

lemma cas_hit:
  assumes "row_of d u = Some r" "guard r" "\<not> dedup_conflict (queue d) (eff r)"
  shows "cas u guard eff d = Inr (Some (r, eff r), store d (eff r))"
  using assms by (simp add: cas_def)

lemma cas_raises:
  "cas u guard eff d = Inl e \<longleftrightarrow>
   e = Unique_Violation \<and> (\<exists>r. row_of d u = Some r \<and> guard r \<and> dedup_conflict (queue d) (eff r))"
  by (cases e) (auto simp: cas_def split: option.splits)

lemma dedup_conflict_queued: "dedup_conflict t r \<Longrightarrow> state r = Queued"
  by (auto simp: dedup_conflict_def same_dedup_def)

text \<open>A row that keeps its state and its dedup identity cannot start to conflict.\<close>

lemma no_new_conflict:
  assumes "db_ok d" "r \<in> set (queue d)" "unit_id s = unit_id r" "unit_kind s = unit_kind r"
    "dedup_key s = dedup_key r" "state r = Queued \<or> state s \<noteq> Queued"
  shows "\<not> dedup_conflict (queue d) s"
proof
  assume "dedup_conflict (queue d) s"
  then obtain x where x: "x \<in> set (queue d)" "unit_id x \<noteq> unit_id s" "same_dedup s x"
    by (auto simp: dedup_conflict_def)
  then have "same_dedup r x" using assms by (auto simp: same_dedup_def)
  with x assms show False by (auto simp: db_ok_def)
qed

section \<open>Completion\<close>

text \<open>
  The holder's completion. It raises only when it re-queues a row whose dedup key another
  queued row holds. Otherwise it gives up the lease, resets the retry accounting, moves the
  consumed watermark forward and never backwards, and leaves the unit queued exactly when work is
  left: input above the watermark (any input when no watermark was given), a pending
  control or a waiting event delivery; every other unit keeps its row.
\<close>

theorem complete_unit_settles:
  assumes "db_ok d" "row_of d u = Some r" "held tok r" "\<not> recovery_held d u"
  shows "case complete_unit now u tok consumed d of
      Inl e \<Rightarrow> e = Unique_Violation \<and>
        (\<exists>s \<in> set (queue d). unit_id s \<noteq> u \<and> state s = Queued \<and> dedup_key s \<noteq> None \<and>
           unit_kind s = unit_kind r \<and> dedup_key s = dedup_key r)
    | Inr (res, d') \<Rightarrow> (\<exists>s. row_of d' u = Some s \<and> res = Some (state s) \<and>
        state s = (if (case consumed of None \<Rightarrow> input_seq r \<noteq> None | Some _ \<Rightarrow> pending_input s) \<or>
                      control_pending s \<or> delivery_pending d u then Queued else Done) \<and>
        consumed_seq s = sql_greatest (consumed_seq r) consumed \<and>
        input_seq s = input_seq r \<and> control_input_seq s = control_input_seq r \<and>
        lease_token s = tok \<and> leased_by s = None \<and> leased_until s = None \<and>
        attempts_since_completion s = 0 \<and> attach_failures s = 0 \<and>
        (\<forall>v. v \<noteq> u \<longrightarrow> row_of d' v = row_of d v))"
proof -
  let ?s = "complete_eff d now consumed r"
  have u: "unit_id r = u" using row_of_unit [OF assms(2)] .
  show ?thesis
  proof (cases "dedup_conflict (queue d) ?s")
    case True
    then have "complete_unit now u tok consumed d = Inl Unique_Violation"
      using assms(2-4) u by (simp add: complete_unit_def cas_def)
    moreover from True have
      "\<exists>s \<in> set (queue d). unit_id s \<noteq> u \<and> state s = Queued \<and> dedup_key s \<noteq> None \<and>
         unit_kind s = unit_kind r \<and> dedup_key s = dedup_key r"
      unfolding dedup_conflict_def same_dedup_def using u by (auto simp: complete_eff_def)
    ultimately show ?thesis by simp
  next
    case False
    define s where "s = ?s"
    have res: "complete_unit now u tok consumed d = Inr (Some (state s), store d s)"
      using assms(2-4) u False by (simp add: complete_unit_def cas_hit s_def)
    have row: "row_of (store d s) v = (if v = u then Some s else row_of d v)" for v
      using row_of_store [of d s v] assms(2) u by (simp add: complete_eff_def s_def)
    have st: "state s = (if (case consumed of None \<Rightarrow> input_seq r \<noteq> None | Some _ \<Rightarrow> pending_input s) \<or>
        control_pending s \<or> delivery_pending d u then Queued else Done)"
      using u by (auto simp: s_def complete_eff_def complete_input_ahead_def pending_input_def
          control_pending_def split: option.splits)
    have wm: "consumed_seq s = sql_greatest (consumed_seq r) consumed"
      by (auto simp: s_def complete_eff_def sql_greatest_def split: option.splits)
    have rest: "input_seq s = input_seq r" "control_input_seq s = control_input_seq r"
      "lease_token s = tok" "leased_by s = None" "leased_until s = None"
      "attempts_since_completion s = 0" "attach_failures s = 0"
      using assms(3) by (simp_all add: s_def complete_eff_def held_def)
    have "row_of (store d s) u = Some s" using row by simp
    moreover have "\<forall>v. v \<noteq> u \<longrightarrow> row_of (store d s) v = row_of d v" using row by simp
    ultimately show ?thesis
      using st wm rest unfolding res sum.case prod.case by blast
  qed
qed

theorem complete_unit_settles_witness:
  "\<exists>s. row_of demo_done 7 = Some s \<and> state s = Done \<and> consumed_seq s = Some 5"
proof -
  have ok: "db_ok (store demo_turn demo_turn_leased)"
    using rq_step_ok [OF rq_step.claim [OF demo_turn_claim] reachable_ok [OF demo_turn_reachable]] .
  have h: "held 1 demo_turn_leased" "\<not> recovery_held (store demo_turn demo_turn_leased) 7"
    by (simp_all add: held_def recovery_held_def demo_turn_rows demo_turn_defs)
  have c: "consumed_seq demo_turn_leased = Some 4"
    by (simp add: demo_turn_defs)
  show ?thesis
    using complete_unit_settles [OF ok demo_turn_rows(3) h, where now = 20 and consumed = "Some 5"]
    by (auto simp: demo_turn_complete sql_simps c)
qed


section \<open>Growth\<close>

text \<open>
  C37. Whatever runs, and in whatever order, a unit once admitted keeps its row, its fencing token
  and its four watermarks never go back, and a unit that is leased later under the same token
  was leased all along.
\<close>

theorem tokens_and_watermarks_never_regress:
  assumes "reachable races d" and "(rq_step races)\<^sup>*\<^sup>* d d'" and "row_of d u = Some r"
  shows "\<exists>s. row_of d' u = Some s \<and> lease_token r \<le> lease_token s \<and>
     input_seq r \<le> input_seq s \<and> consumed_seq r \<le> consumed_seq s \<and>
     control_input_seq r \<le> control_input_seq s \<and>
     control_consumed_seq r \<le> control_consumed_seq s \<and>
     (state s = Leased \<and> lease_token s = lease_token r \<longrightarrow> state r = Leased)"
  using rq_run_le [OF assms(2) reachable_ok [OF assms(1)]] assms(3)
  unfolding db_le_def row_le_def by blast

theorem tokens_and_watermarks_never_regress_witness:
  "\<exists>s. row_of demo_done 7 = Some s \<and> 0 \<le> lease_token s \<and> Some 4 \<le> consumed_seq s"
proof -
  have run: "(rq_step False)\<^sup>*\<^sup>* demo_turn demo_done"
    using rq_step.claim [OF demo_turn_claim] rq_step.finish [OF demo_turn_complete]
    by (meson converse_rtranclp_into_rtranclp rtranclp.rtrancl_refl)
  have "consumed_seq demo_turn_row = Some 4" "lease_token demo_turn_row = 0"
    by (simp_all add: demo_turn_defs)
  then show ?thesis
    using tokens_and_watermarks_never_regress [OF demo_turn_reachable run demo_turn_rows(2)]
    by auto
qed

section \<open>Leaving the parked state\<close>

context row_update begin

lemma cas_keeps_parked:
  assumes "cas u guard eff d = Inr (res, d')" "row_of d v = Some r" "state r = Parked"
    and "\<And>x. guard x \<Longrightarrow> state x = Parked \<Longrightarrow> state (eff x) = Parked"
  shows "\<exists>s. row_of d' v = Some s \<and> state s = Parked"
proof (cases "v = u")
  case True
  show ?thesis
    using assms(1)
  proof (cases rule: cas_cases)
    case (hit x)
    then show ?thesis using assms True cas_row [of u d x "eff x" d'] by auto
  qed (use assms in auto)
next
  case False
  then show ?thesis using cas_frame [OF assms(1)] assms(2,3) by simp
qed

end

context fenced_update begin

lemma cas_fenced_parked:
  "cas u guard eff d = Inr (res, d') \<Longrightarrow> row_of d v = Some r \<Longrightarrow> state r = Parked \<Longrightarrow>
   \<exists>s. row_of d' v = Some s \<and> state s = Parked"
  by (erule cas_keeps_parked) (auto dest: guard_held simp: held_def)

end

lemma insert_keeps: "row_of d v = Some r \<Longrightarrow> row_of (insert_row d x) v = Some r"
  by (simp add: row_of_insert)

lemma enqueue_keeps_parked:
  assumes "enqueue_unit seen now u kind fair dk prio ra inp d = Inr (res, d')"
    "row_of d v = Some r" "state r = Parked"
  shows "\<exists>s. row_of d' v = Some s \<and> state s = Parked"
proof (cases dk)
  case (Some k)
  with assms show ?thesis
    by (auto simp: enqueue_unit_def enqueue_dedup_sql_def Let_def insert_keeps split: if_splits)
next
  case None
  have "\<exists>s. row_of d'' v = Some s \<and> state s = Parked"
    if "cas u (\<lambda>_. True) (enqueue_upd now fair prio ra inp) d = Inr (x, d'')" for x d''
    by (rule enqueue_upd.cas_keeps_parked [OF that assms(2,3)]) (simp add: enqueue_upd_def)
  moreover have "\<exists>s. row_of d'' v = Some s \<and> state s = Parked"
    if "cas u (\<lambda>_. True) (enqueue_merge ex) d = Inr (x, d'')" for x d'' ex
    by (rule enqueue_merge.cas_keeps_parked [OF that assms(2,3)]) (simp add: enqueue_merge_def)
  ultimately show ?thesis
    using assms None
    by (auto simp: enqueue_unit_def enqueue_sql_def map_ok_Inr Let_def insert_keeps
        split: option.splits if_splits)
qed

lemma input_keeps_parked:
  assumes "record_input_seq seen now u kind sq fair d = Inr (res, d')"
    "row_of d v = Some r" "state r = Parked"
  shows "\<exists>s. row_of d' v = Some s \<and> state s = Parked"
proof -
  have "\<exists>s. row_of d'' v = Some s \<and> state s = Parked"
    if "cas u (\<lambda>_. True) (record_input_upd now sq fair) d = Inr (x, d'')" for x d''
    by (rule record_input_upd.cas_keeps_parked [OF that assms(2,3)]) (simp add: record_input_upd_def)
  moreover have "\<exists>s. row_of d'' v = Some s \<and> state s = Parked"
    if "cas u (\<lambda>_. True) (record_input_merge sq) d = Inr (x, d'')" for x d''
    by (rule record_input_merge.cas_keeps_parked [OF that assms(2,3)])
      (simp add: record_input_merge_def)
  ultimately show ?thesis
    using assms
    by (auto simp: record_input_seq_def record_input_sql_def map_ok_Inr Let_def insert_keeps
        split: option.splits if_splits)
qed

lemma control_keeps_parked:
  assumes "record_control_seq seen now u kind sq baseline fair d = Inr (res, d')"
    "row_of d v = Some r" "state r = Parked"
  shows "\<exists>s. row_of d' v = Some s \<and> state s = Parked"
proof -
  have "\<exists>s. row_of d'' v = Some s \<and> state s = Parked"
    if "cas u (\<lambda>_. True) (record_control_upd now sq fair) d = Inr (x, d'')" for x d''
    by (rule record_control_upd.cas_keeps_parked [OF that assms(2,3)])
      (simp add: record_control_upd_def)
  moreover have "\<exists>s. row_of d'' v = Some s \<and> state s = Parked"
    if "cas u (\<lambda>_. True) (record_control_merge sq fair) d = Inr (x, d'')" for x d''
    by (rule record_control_merge.cas_keeps_parked [OF that assms(2,3)])
      (simp add: record_control_merge_def)
  ultimately show ?thesis
    using assms
    by (auto simp: record_control_seq_def record_control_sql_def map_ok_Inr Let_def insert_keeps
        split: option.splits if_splits)
qed

lemma claim_keeps_parked:
  assumes "db_ok d" "claim_unit locked now kind pod pref ttl grace d = Inr (res, d')"
    "row_of d v = Some r" "state r = Parked"
  shows "row_of d' v = Some r"
proof (cases res)
  case None
  with assms(2) have "d' = d"
    by (cases rule: claim_unit_cases) (auto simp: claim_sql_def dest: claim_mark_None)
  with assms(3) show ?thesis by simp
next
  case (Some c)
  obtain x where x: "row_of d (unit_id x) = Some x" "runnable now kind d x"
    "d' = store d (claim_update now pod ttl x)"
    using claim_unit_SomeE [OF assms(1) assms(2) [unfolded Some]] by metis
  then have "v \<noteq> unit_id x" using assms(3,4) by (auto simp: runnable_def)
  then show ?thesis
    using x assms(3) row_of_store [of d "claim_update now pod ttl x" v]
    by (simp add: claim_update_def)
qed

lemma unpark_leaves_parked:
  assumes "unpark_unit now v d = Inr (res, d')" "row_of d u = Some r" "state r = Parked"
    "row_of d' u = Some s" "state s \<noteq> Parked"
  shows "\<not> recovery_held d u \<and> unpark_unit now u d = Inr (True, d')"
proof -
  obtain y where c: "cas v (parked_free d) (unpark_eff now) d = Inr (y, d')"
    using assms(1) by (auto simp: unpark_unit_def map_ok_Inr)
  show ?thesis
    using c
  proof (cases rule: cas_cases)
    case (hit x)
    have "v = u"
      using unpark.cas_frame [OF c, of u] assms(2-5) by (cases "v = u") auto
    moreover from this have "unpark_unit now u d = Inr (True, d')"
      using c hit(4) by (simp add: unpark_unit_def)
    ultimately show ?thesis
      using hit(1,2) row_of_unit [OF hit(1)] by (auto simp: parked_free_def)
  qed (use assms in auto)
qed

lemma settle_leaves_parked:
  assumes "settle_parked_unit now v wm d = Inr (res, d')" "row_of d u = Some r" "state r = Parked"
    "row_of d' u = Some s" "state s \<noteq> Parked"
  shows "\<not> recovery_held d u \<and> settle_parked_unit now u wm d = Inr (Some (state s), d')"
proof -
  obtain y where c: "cas v (parked_free d) (settle_eff d now wm) d = Inr (y, d')"
    using assms(1) by (auto simp: settle_parked_unit_def map_ok_Inr)
  show ?thesis
    using c
  proof (cases rule: cas_cases)
    case (hit x)
    have v: "v = u"
      using settle.cas_frame [OF c, of u] assms(2-5) by (cases "v = u") auto
    have "row_of d' u = Some (settle_eff d now wm x)"
      using settle.cas_row [OF c [unfolded hit(4)]] v by simp
    then have "settle_parked_unit now u wm d = Inr (Some (state s), d')"
      using c hit(4) v assms(4) by (simp add: settle_parked_unit_def)
    then show ?thesis
      using hit(1,2) v row_of_unit [OF hit(1)] by (auto simp: parked_free_def)
  qed (use assms in auto)
qed

lemma open_keeps_parked:
  assumes "open_interrupt_admission v tok turn d = Inr (res, d')" "row_of d u = Some r"
    "state r = Parked"
  shows "\<exists>s. row_of d' u = Some s \<and> state s = Parked"
proof -
  have "0 < turn" using assms(1) by (auto simp: open_interrupt_admission_def split: if_splits)
  then show ?thesis
    using assms(1) open_admission.cas_fenced_parked [OF _ assms(2,3), of v turn tok]
      open_guard_positive [of turn tok]
    by (auto simp: open_interrupt_admission_def map_ok_Inr split: if_splits)
qed

lemma release_keeps_parked:
  assumes "release_unit now v tok backoff err reason msg d = Inr (res, d')"
    "row_of d u = Some r" "state r = Parked"
  shows "\<exists>s. row_of d' u = Some s \<and> state s = Parked"
  using assms release.cas_fenced_parked [OF _ assms(2,3)]
    release_deterministic.cas_fenced_parked [OF _ assms(2,3)]
  by (cases reason) (auto simp: release_unit_def map_ok_Inr)

lemmas fenced_keep_parked = heartbeat.cas_fenced_parked close_admission.cas_fenced_parked
  complete.cas_fenced_parked park.cas_fenced_parked attach_failure.cas_fenced_parked
  reap.cas_fenced_parked

text \<open>The operations that must keep a parked row parked, as one step relation case analysis.\<close>

lemma rq_step_parked:
  assumes "rq_step races d d'" "db_ok d" "row_of d u = Some r" "state r = Parked"
  shows "(\<exists>s. row_of d' u = Some s \<and> state s = Parked) \<or>
    (\<exists>now v res. unpark_unit now v d = Inr (res, d')) \<or>
    (\<exists>now v wm res. settle_parked_unit now v wm d = Inr (res, d'))"
  using assms(1)
proof (cases rule: rq_step.cases)
  case enqueue
  then show ?thesis using enqueue_keeps_parked [OF _ assms(3,4)] by blast
next
  case input
  then show ?thesis using input_keeps_parked [OF _ assms(3,4)] by blast
next
  case control
  then show ?thesis using control_keeps_parked [OF _ assms(3,4)] by blast
next
  case claim
  then show ?thesis using claim_keeps_parked [OF assms(2) _ assms(3,4)] assms(4) by blast
next
  case admit
  then show ?thesis using open_keeps_parked [OF _ assms(3,4)] by blast
next
  case release
  then show ?thesis using release_keeps_parked [OF _ assms(3,4)] by blast
next
  case other
  then show ?thesis using assms(3,4) by (auto simp: row_of_def)
qed (use fenced_keep_parked [OF _ assms(3,4)] in
    \<open>auto simp: heartbeat_unit_def close_interrupt_admission_def complete_unit_def park_unit_def
       record_attach_failure_def reap_steal_def map_ok_Inr split: if_splits\<close>)

text \<open>
  A parked unit leaves the parked state in one step only through the operator's unpark or the
  owner's settlement, and not while an unresolved workspace recovery holds it: new input,
  controls, enqueues, claims, the reaper and any holder of an old token leave it parked.
\<close>

theorem parked_exit:
  assumes "reachable races d" and "rq_step races d d'"
    and "row_of d u = Some r" "state r = Parked" and "row_of d' u = Some s" "state s \<noteq> Parked"
  shows "\<not> recovery_held d u \<and>
    ((\<exists>now. unpark_unit now u d = Inr (True, d')) \<or>
     (\<exists>now wm. settle_parked_unit now u wm d = Inr (Some (state s), d')))"
  using rq_step_parked [OF assms(2) reachable_ok [OF assms(1)] assms(3,4)]
    unpark_leaves_parked [OF _ assms(3-6)] settle_leaves_parked [OF _ assms(3-6)] assms(5,6)
  by fastforce

definition demo_turn_parked :: row where
  "demo_turn_parked = park_eff 20 (Some ''claim_loss_hold'') None demo_turn_leased"

definition demo_parked :: db where
  "demo_parked = store (store demo_turn demo_turn_leased) demo_turn_parked"

definition demo_unparked :: db where
  "demo_unparked = store demo_parked (unpark_eff 40 demo_turn_parked)"

lemmas demo_parked_defs = demo_turn_parked_def park_eff_def demo_turn_leased_def
  claim_update_def demo_turn_row_def fresh_row_def

lemma demo_parked_rows:
  "row_of demo_parked 7 = Some demo_turn_parked" "recovery_jobs demo_parked = []"
  "row_of demo_unparked 7 = Some (unpark_eff 40 demo_turn_parked)"
  "queue demo_parked = [demo_turn_parked]"
  by (simp_all add: demo_parked_def demo_unparked_def demo_turn_def insert_row_def empty_db_def
      row_of_def store_def put_by_def unpark_eff_def demo_parked_defs)

lemma demo_park:
  "park_unit 20 7 1 (Some ''claim_loss_hold'') None (store demo_turn demo_turn_leased)
   = Inr (Some Parked, demo_parked)"
  by (simp add: park_unit_def cas_def demo_turn_rows demo_parked_def demo_turn_parked_def
      [symmetric]) (simp add: held_def dedup_conflict_def same_dedup_def demo_parked_defs)

lemma demo_unpark: "unpark_unit 40 7 demo_parked = Inr (True, demo_unparked)"
proof -
  have "\<not> dedup_conflict (queue demo_parked) (unpark_eff 40 demo_turn_parked)"
    by (simp add: dedup_conflict_def demo_parked_rows unpark_eff_def)
  moreover have "parked_free demo_parked demo_turn_parked"
    by (simp add: parked_free_def recovery_held_def demo_parked_rows) (simp add: demo_parked_defs)
  ultimately show ?thesis
    by (simp add: unpark_unit_def cas_def demo_parked_rows demo_unparked_def)
qed

lemma demo_parked_reachable: "reachable races demo_parked"
  using demo_turn_reachable reachable_step rq_step.claim [OF demo_turn_claim]
    rq_step.park [OF demo_park] by blast

theorem parked_exit_witness:
  "\<not> recovery_held demo_parked 7 \<and> row_of demo_unparked 7 = Some (unpark_eff 40 demo_turn_parked)"
  using parked_exit [OF demo_parked_reachable rq_step.unpark [OF demo_unpark]
      demo_parked_rows(1) _ demo_parked_rows(3)] demo_parked_rows(3)
  by (simp add: unpark_eff_def demo_parked_defs)

section \<open>The dedup index and the way back to queued\<close>

text \<open>
  A running task and a queued task with the same dedup key cannot both go on: as long as the
  queued one waits, the holder's release without a reason, the reaper's steal with attempts left
  and an attach failure below its thresholds all violate the queued-only unique index, so they
  raise and the running row stays leased.
\<close>

theorem running_and_pending_twins_block_requeue:
  assumes "row_of d u = Some r" "held tok r" "dedup_key r \<noteq> None"
    and "s \<in> set (queue d)" "unit_id s \<noteq> u" "state s = Queued" "unit_kind s = unit_kind r"
      "dedup_key s = dedup_key r"
  shows "release_unit now u tok backoff err None msg d = Inl Unique_Violation \<and>
    (expired now grace r \<and> \<not> recovery_held d u \<and> attempts_since_completion r < max_attempts r \<and>
       cand_unit_id c = u \<and> cand_lease_token c = tok
     \<longrightarrow> reap_steal now grace backoff c d = Inl Unique_Violation) \<and>
    (attempts_since_completion r < max_attempts r \<and> next_failures (Some sig) r < threshold
     \<longrightarrow> record_attach_failure now u tok emsg sig backoff threshold d = Inl Unique_Violation)"
proof -
  have u: "unit_id r = u" using row_of_unit [OF assms(1)] .
  have conf: "dedup_conflict (queue d) x"
    if "state x = Queued" "unit_id x = u" "unit_kind x = unit_kind r" "dedup_key x = dedup_key r" for x
    using assms(3-8) that by (auto simp: dedup_conflict_def same_dedup_def intro!: bexI [of _ s])
  have "dedup_conflict (queue d) (release_eff now backoff err RELEASE_BACKOFF_BASE_SECONDS r)"
    using u by (intro conf) (simp_all add: release_eff_def)
  moreover have "dedup_conflict (queue d) (reap_eff now backoff r)"
    if "attempts_since_completion r < max_attempts r"
    using u that by (intro conf) (simp_all add: reap_eff_def Let_def)
  moreover have "dedup_conflict (queue d) (attach_failure_eff now emsg sig backoff threshold r)"
    if "attempts_since_completion r < max_attempts r" "next_failures (Some sig) r < threshold"
    using u that by (intro conf) (simp_all add: attach_failure_eff_def Let_def)
  ultimately show ?thesis
    using assms(1,2) u
    by (auto simp: release_unit_def record_attach_failure_def reap_steal_def reap_guard_def cas_def)
qed

text \<open>
  A reachable queue with such twins: unit 7 runs a background task, unit 8 waits with the same
  key, and the lease of the session unit 9 expires after that of unit 7.
\<close>

definition twin_row :: "uuid \<Rightarrow> nat \<Rightarrow> row" where
  "twin_row u ord =
     (enqueue_new 0 u UNIT_KIND_BG_TASK None 0 None None ord)\<lparr>dedup_key := Some ''push''\<rparr>"

definition twin_turn :: row where
  "twin_turn = (fresh_row 0 9 UNIT_KIND_SESSION_TURN 3)\<lparr>input_seq := Some 1, consumed_seq := Some 0\<rparr>"

definition twin_running :: row where "twin_running = claim_update 0 ''pod-a'' 60 (twin_row 7 1)"
definition twin_session :: row where "twin_session = claim_update 5 ''pod-b'' 60 twin_turn"

definition twins_at :: "row list \<Rightarrow> db" where
  "twins_at rs = \<lparr>queue = rs, recovery_jobs = [], messages = [], deliveries = [],
                  next_ord = Suc (length rs)\<rparr>"

definition twins :: db where
  "twins = twins_at [twin_running, twin_row 8 2, twin_session]"

lemmas twin_defs = twin_row_def twin_turn_def twin_running_def twin_session_def enqueue_new_def
  fresh_row_def claim_update_def UNIT_KIND_BG_TASK_def UNIT_KIND_SESSION_TURN_def

lemma twin_facts:
  "unit_id (twin_row u n) = u" "unit_id twin_running = 7" "unit_id twin_session = 9"
  "unit_id twin_turn = 9"
  "state (twin_row u n) = Queued" "state twin_running = Leased" "state twin_session = Leased"
  "state twin_turn = Queued"
  "unit_kind (twin_row u n) = UNIT_KIND_BG_TASK" "unit_kind twin_running = UNIT_KIND_BG_TASK"
  "unit_kind twin_session = UNIT_KIND_SESSION_TURN" "unit_kind twin_turn = UNIT_KIND_SESSION_TURN"
  "UNIT_KIND_BG_TASK \<noteq> UNIT_KIND_SESSION_TURN" "UNIT_KIND_SESSION_TURN \<noteq> UNIT_KIND_BG_TASK"
  "dedup_key (twin_row u n) = Some ''push''" "dedup_key twin_running = Some ''push''"
  "lease_token twin_running = 1" "leased_until twin_running = Some 60"
  "leased_until twin_session = Some 65" "run_after (twin_row u n) = 0" "run_after twin_turn = 0"
  "last_leased_by (twin_row u n) = None" "last_leased_by twin_turn = None"
  "attempts_since_completion twin_running = 1" "max_attempts twin_running = 5"
  by (simp_all add: twin_defs)

lemma twin_step1: "enqueue_unit True 0 7 UNIT_KIND_BG_TASK None (Some ''push'') 0 None None empty_db
  = Inr ((ENQUEUE_INSERTED, Queued), twins_at [twin_row 7 1])"
  by (simp add: enqueue_unit_def enqueue_dedup_sql_def empty_db_def row_of_def twins_at_def
      insert_row_def twin_row_def [symmetric] Let_def twin_facts(5))

lemma twins_reach1: "reachable races (twins_at [twin_row 7 1])"
  using reachable_step [OF reachable_empty rq_step.enqueue [OF twin_step1]] by simp

lemma twin_step2: "claim_unit (\<lambda>_. False) 0 UNIT_KIND_BG_TASK ''pod-a'' None 60 2 (twins_at [twin_row 7 1])
  = Inr (Some (claimed_of twin_running), twins_at [twin_running])"
proof -
  have "claim_eligible 0 UNIT_KIND_BG_TASK ''pod-a'' 2 (twins_at [twin_row 7 1]) (twin_row 7 1)"
    by (simp add: claim_eligible_def runnable_def recovery_held_def twins_at_def twin_facts)
  moreover have "claim_update 0 ''pod-a'' 60 (twin_row 7 (Suc 0)) = twin_running"
    by (simp add: twin_running_def)
  ultimately show ?thesis
    using reachable_ok [OF twins_reach1]
    by (simp add: claim_unit_def claim_sql_result store_def put_by_def twins_at_def twin_facts)
qed

lemma twins_reach2: "reachable races (twins_at [twin_running])"
  using reachable_step [OF twins_reach1 rq_step.claim [OF twin_step2]] .

lemma twin_step3: "enqueue_unit True 0 8 UNIT_KIND_BG_TASK None (Some ''push'') 0 None None
    (twins_at [twin_running]) = Inr ((ENQUEUE_INSERTED, Queued), twins_at [twin_running, twin_row 8 2])"
proof -
  have "(enqueue_new 0 8 UNIT_KIND_BG_TASK None 0 None None 2)\<lparr>dedup_key := Some ''push''\<rparr> = twin_row 8 2"
    by (simp add: twin_row_def)
  then show ?thesis
    by (simp add: enqueue_unit_def enqueue_dedup_sql_def row_of_def twins_at_def insert_row_def
        Let_def twin_facts same_dedup_def numeral_2_eq_2)
qed

lemma twins_reach3: "reachable races (twins_at [twin_running, twin_row 8 2])"
  using reachable_step [OF twins_reach2 rq_step.enqueue [OF twin_step3]] by simp

lemma twin_step4: "record_input_seq True 0 9 UNIT_KIND_SESSION_TURN 1 None (twins_at [twin_running, twin_row 8 2])
  = Inr (Queued, twins_at [twin_running, twin_row 8 2, twin_turn])"
  by (simp add: record_input_seq_def record_input_sql_def row_of_def twins_at_def insert_row_def
      Let_def twin_facts numeral_3_eq_3) (simp add: twin_turn_def fresh_row_def numeral_3_eq_3)

lemma twins_reach4: "reachable races (twins_at [twin_running, twin_row 8 2, twin_turn])"
  using reachable_step [OF twins_reach3 rq_step.input [OF twin_step4]] by simp

lemma twin_step5: "claim_unit (\<lambda>_. False) 5 UNIT_KIND_SESSION_TURN ''pod-b'' None 60 2
    (twins_at [twin_running, twin_row 8 2, twin_turn]) = Inr (Some (claimed_of twin_session), twins)"
proof -
  let ?d = "twins_at [twin_running, twin_row 8 2, twin_turn]"
  have "claim_eligible 5 UNIT_KIND_SESSION_TURN ''pod-b'' 2 ?d twin_turn"
    by (simp add: claim_eligible_def runnable_def recovery_held_def twins_at_def twin_facts)
  moreover have "\<not> claim_eligible 5 UNIT_KIND_SESSION_TURN ''pod-b'' 2 ?d twin_running"
    "\<not> claim_eligible 5 UNIT_KIND_SESSION_TURN ''pod-b'' 2 ?d (twin_row 8 2)"
    by (simp_all add: claim_eligible_def runnable_def twin_facts)
  moreover have "queue ?d = [twin_running, twin_row 8 2, twin_turn]" by (simp add: twins_at_def)
  moreover have "store ?d twin_session = twins"
    by (simp add: store_def put_by_def twins_at_def twins_def twin_facts)
  ultimately show ?thesis
    using reachable_ok [OF twins_reach4]
    by (simp add: claim_unit_def claim_sql_result twin_session_def [symmetric])
qed

lemma twins_reachable: "reachable races twins"
  using reachable_step [OF twins_reach4 rq_step.claim [OF twin_step5]] .

theorem running_and_pending_twins_block_requeue_witness:
  "reachable False twins \<and> release_unit 30 7 1 0 False None None twins = Inl Unique_Violation"
proof -
  have "row_of twins 7 = Some twin_running" "held 1 twin_running" "twin_row 8 2 \<in> set (queue twins)"
    by (simp_all add: twins_def twins_at_def row_of_def held_def twin_facts)
  then show ?thesis
    using running_and_pending_twins_block_requeue [of twins 7 twin_running 1 "twin_row 8 2"]
      twins_reachable by (simp add: twin_facts)
qed

text \<open>The two candidates of a sweep over the twins, at any later time.\<close>

definition twin_candidate :: candidate where
  "twin_candidate = \<lparr>cand_unit_id = 7, cand_unit_kind = UNIT_KIND_BG_TASK, cand_leased_by = leased_by twin_running,
     cand_lease_token = 1, cand_attempts = 1, cand_max_attempts = 5\<rparr>"

definition late_candidate :: candidate where
  "late_candidate = \<lparr>cand_unit_id = 9, cand_unit_kind = UNIT_KIND_SESSION_TURN, cand_leased_by = leased_by twin_session,
     cand_lease_token = lease_token twin_session, cand_attempts = attempts_since_completion twin_session,
     cand_max_attempts = max_attempts twin_session\<rparr>"

lemma twins_rows:
  "queue twins = [twin_running, twin_row 8 2, twin_session]" "recovery_jobs twins = []"
  "row_of twins 7 = Some twin_running" "row_of twins 9 = Some twin_session"
  by (simp_all add: twins_def twins_at_def row_of_def twin_facts)

lemma twins_late:
  "expired (200 + of_nat k) REAPER_GRACE_SECONDS twin_running" "expired (200 + of_nat k) REAPER_GRACE_SECONDS twin_session"
  using of_nat_0_le_iff [of k, where 'a = secs] by (simp_all add: expired_def twin_facts REAPER_GRACE_SECONDS_def)

lemma twins_candidates:
  "reap_candidates (\<lambda>_. False) (200 + of_nat k) REAPER_GRACE_SECONDS None 50 twins = [twin_candidate, late_candidate]"
  using twins_late [of k]
  by (simp add: reap_candidates_def twins_rows recovery_held_def twin_facts until_order_def less_eq_prod_def
      twin_candidate_def late_candidate_def)

lemma twin_steal: "reap_steal now' REAPER_GRACE_SECONDS b twin_candidate twins = Inl Unique_Violation"
  if "expired now' REAPER_GRACE_SECONDS twin_running"
  using that
  by (simp add: reap_steal_def cas_def twin_candidate_def twins_rows reap_guard_def held_def recovery_held_def
      twin_facts dedup_conflict_def same_dedup_def reap_eff_def Let_def)

lemma late_steal:
  "reap_steal (200 + of_nat k) REAPER_GRACE_SECONDS b late_candidate twins
   = Inr (Some (stolen_of late_candidate twin_session (reap_eff (200 + of_nat k) b twin_session)),
       store twins (reap_eff (200 + of_nat k) b twin_session))"
proof -
  have "dedup_key twin_session = None" by (simp add: twin_defs)
  then show ?thesis
    using twins_late(2) [of k]
    by (simp add: reap_steal_def cas_def late_candidate_def twins_rows reap_guard_def held_def recovery_held_def
        twin_facts dedup_conflict_def same_dedup_def reap_eff_def Let_def)
qed

text \<open>
  C39. One such twin stalls the whole reaper pass, contrary to the promise that one wedged row
  never stalls the sweep. In a reachable queue a sweep has two candidates, a background task whose
  requeue conflicts and, after it, another unit: a session turn whose lease expired too and which
  its own steal would take back. At every later time and under any steal hooks the pass raises at
  the task and leaves the queue as it was, the session turn leased.
\<close>

theorem one_conflict_stalls_the_sweep:
  "\<exists>d q r task turn. reachable False d \<and>
     row_of d 7 = Some q \<and> unit_kind q = UNIT_KIND_BG_TASK \<and> cand_unit_id task = 7 \<and>
     row_of d 9 = Some r \<and> unit_kind r = UNIT_KIND_SESSION_TURN \<and> state r = Leased \<and> cand_unit_id turn = 9 \<and>
     (\<forall>k. reap_candidates (\<lambda>_. False) (200 + of_nat k) REAPER_GRACE_SECONDS None 50 d = [task, turn]) \<and>
     (\<forall>k b. reap_steal (200 + of_nat k) REAPER_GRACE_SECONDS b task d = Inl Unique_Violation) \<and>
     (\<forall>k b. \<exists>u d' s. reap_steal (200 + of_nat k) REAPER_GRACE_SECONDS b turn d = Inr (Some u, d') \<and>
        su_unit_id u = 9 \<and> row_of d' 9 = Some s \<and> state s \<noteq> Leased) \<and>
     (\<forall>k ss ws jit. reap_expired ss ws (\<lambda>_ x. x) (\<lambda>_. 200 + of_nat k) jit (\<lambda>_. False) (200 + of_nat k) None
        REAPER_GRACE_SECONDS 50 5 d = (Inl Unique_Violation, d))"
proof -
  have pass: "reap_expired ss ws (\<lambda>_ x. x) (\<lambda>_. 200 + of_nat k) jit (\<lambda>_. False) (200 + of_nat k) None
      REAPER_GRACE_SECONDS 50 5 twins = (Inl Unique_Violation, twins)" for k ss ws jit
    using twin_steal [OF twins_late(1)]
    by (simp add: reap_expired_def twins_candidates steal_for_def Let_def)
      (simp add: twin_candidate_def UNIT_KIND_BG_TASK_def UNIT_KIND_SESSION_TURN_def UNIT_KIND_WORKER_BATCH_def)
  have own: "\<exists>u d' s. reap_steal (200 + of_nat k) REAPER_GRACE_SECONDS b late_candidate twins = Inr (Some u, d') \<and>
      su_unit_id u = 9 \<and> row_of d' 9 = Some s \<and> state s \<noteq> Leased" for k b
  proof -
    let ?s = "reap_eff (200 + of_nat k) b twin_session"
    have "unit_id ?s = 9" "state ?s \<noteq> Leased" by (simp_all add: reap_eff_def Let_def twin_facts)
    moreover from this have "row_of (store twins ?s) 9 = Some ?s"
      using row_of_store [of twins ?s 9] by (simp add: twins_rows)
    ultimately show ?thesis using late_steal by (auto simp: stolen_of_def)
  qed
  have ids: "cand_unit_id twin_candidate = 7" "cand_unit_id late_candidate = 9"
    by (simp_all add: twin_candidate_def late_candidate_def)
  show ?thesis
    by (intro exI [of _ twins] exI [of _ twin_running] exI [of _ twin_session] exI [of _ twin_candidate]
        exI [of _ late_candidate] conjI allI;
      rule twins_reachable twins_rows twin_facts ids twins_candidates twin_steal [OF twins_late(1)] own pass)
qed

end
