(* ===== verification/Run_Queue_Reaper.thy ===== *)
theory Run_Queue_Reaper
  imports Run_Queue_Behaviour
begin

text \<open>
  The reaper's pass and the retry ladders that park a unit: what a steal does and what defeats
  it, what one pass guarantees under interference and without, and how many deterministic
  releases a unit survives.
\<close>

section \<open>One steal\<close>

lemma reap_steal_kills:
  assumes "db_ok d" "reap_steal now grace backoff c d = Inr (Some su, d')"
  shows "token_dead d' (cand_unit_id c) (cand_lease_token c)"
proof -
  obtain p where "cas (cand_unit_id c) (reap_guard d now grace (cand_lease_token c))
      (reap_eff now backoff) d = Inr (Some p, d')"
    using assms(2) by (auto simp: reap_steal_def map_ok_Inr dest!: sym [of "Some su"])
  then show ?thesis by (rule reap.cas_kills [OF assms(1)])
qed

text \<open>
  One steal takes exactly the lease the candidate scan saw: it returns nothing and changes
  nothing when the row was renewed, released, re-claimed or put under recovery meanwhile; when
  it succeeds the token has grown by one, the lease fields are cleared, the unit is parked
  exactly when its attempts reached the maximum, and the previous holder's token is dead.
\<close>

theorem reap_steal_takes_only_the_seen_lease:
  assumes "db_ok d" "reap_steal now grace backoff c d = Inr (res, d')"
  shows "case res of
      None \<Rightarrow> d' = d \<and> (\<forall>r. row_of d (cand_unit_id c) = Some r \<longrightarrow>
        \<not> (state r = Leased \<and> lease_token r = cand_lease_token c \<and> expired now grace r \<and>
           \<not> recovery_held d (cand_unit_id c)))
    | Some su \<Rightarrow> (\<exists>r s. row_of d (cand_unit_id c) = Some r \<and> row_of d' (cand_unit_id c) = Some s \<and>
        state r = Leased \<and> lease_token r = cand_lease_token c \<and> expired now grace r \<and>
        \<not> recovery_held d (cand_unit_id c) \<and>
        lease_token s = cand_lease_token c + 1 \<and> leased_by s = None \<and> leased_until s = None \<and>
        run_after s = now + backoff \<and>
        state s = (if max_attempts r \<le> attempts_since_completion r then Parked else Queued) \<and>
        (state s = Parked \<longrightarrow> park_reason s = Some ''reaper_max_attempts'') \<and>
        su_state su = state s \<and> su_lease_token su = lease_token s \<and>
        token_dead d' (cand_unit_id c) (cand_lease_token c))"
proof -
  obtain p where c: "cas (cand_unit_id c) (reap_guard d now grace (cand_lease_token c))
      (reap_eff now backoff) d = Inr (p, d')" and res: "res = map_option (\<lambda>(old, new). stolen_of c old new) p"
    using assms(2) by (auto simp: reap_steal_def map_ok_Inr)
  show ?thesis
    using c
  proof (cases rule: cas_cases)
    case miss
    then have "\<not> reap_guard d now grace (cand_lease_token c) r"
      if "row_of d (cand_unit_id c) = Some r" for r
      using c that by (auto simp: cas_def split: if_splits)
    then show ?thesis
      using miss res row_of_unit [of d "cand_unit_id c"] by (fastforce simp: reap_guard_def held_def)
  next
    case (hit r)
    have row: "row_of d' (cand_unit_id c) = Some (reap_eff now backoff r)"
      using reap.cas_row [OF c [unfolded hit(4)]] by simp
    have dead: "token_dead d' (cand_unit_id c) (cand_lease_token c)"
      using reap.cas_kills [OF assms(1) c [unfolded hit(4)]] .
    show ?thesis
      using hit row dead res row_of_unit [OF hit(1)]
      by (auto simp: reap_guard_def held_def stolen_of_def reap_eff_def Let_def)
  qed
qed

definition demo_candidate :: candidate where
  "demo_candidate = \<lparr>cand_unit_id = 7, cand_unit_kind = UNIT_KIND_SESSION_TURN,
     cand_leased_by = Some ''pod-a'', cand_lease_token = 4, cand_attempts = 1, cand_max_attempts = 5\<rparr>"

lemma demo_steal:
  "reap_steal 200 30 5 demo_candidate demo_claimed
   = Inr (Some (stolen_of demo_candidate demo_leased (reap_eff 200 5 demo_leased)),
          store demo_claimed (reap_eff 200 5 demo_leased))"
proof -
  have "reap_guard demo_claimed 200 30 4 demo_leased"
    by (simp add: reap_guard_def held_def expired_def recovery_held_def demo_rows)
      (simp add: demo_defs)
  moreover have "\<not> dedup_conflict (queue demo_claimed) (reap_eff 200 5 demo_leased)"
    by (simp add: dedup_conflict_def demo_rows reap_eff_def Let_def)
  ultimately show ?thesis
    by (simp add: reap_steal_def cas_def demo_candidate_def demo_rows)
qed

theorem reap_steal_takes_only_the_seen_lease_witness:
  "\<exists>s. row_of (store demo_claimed (reap_eff 200 5 demo_leased)) 7 = Some s \<and>
     lease_token s = 5 \<and> state s = Queued"
proof -
  have "max_attempts demo_leased = 5" "attempts_since_completion demo_leased = 1"
    by (simp_all add: demo_defs)
  then show ?thesis
    using reap_steal_takes_only_the_seen_lease [OF demo_claimed_ok demo_steal]
    by (auto simp: demo_candidate_def demo_rows)
qed

section \<open>A whole pass\<close>

lemma steal_for_plain: "steal_for None None now grace b c d = reap_steal now grace b c d"
  by (simp add: steal_for_def)

lemma reap_loop_dead:
  assumes ok: "db_ok d" and between: "\<And>i x. (rq_step races)\<^sup>*\<^sup>* x (between i x)"
    and "reap_loop None None between clock jit grace base i cs d = (Inr us, d')" "su \<in> set us"
  shows "\<exists>t. su_previous_lease_token su = Some t \<and> token_dead d' (su_unit_id su) t"
  using assms(1,3,4)
proof (induction cs arbitrary: i d us)
  case Nil
  then show ?case by simp
next
  case (Cons c cs)
  define d0 b where "d0 = between i d" and "b = base * of_int (cand_attempts c) * (1 + jit i)"
  have ok0: "db_ok d0" using rq_run_ok [OF between] Cons.prems(1) by (simp add: d0_def)
  from Cons.prems(2) obtain res d1 us' where
    st: "reap_steal (clock i) grace b c d0 = Inr (res, d1)" and
    rest: "reap_loop None None between clock jit grace base (Suc i) cs d1 = (Inr us', d')" and
    us: "us = (case res of None \<Rightarrow> us' | Some u \<Rightarrow> u # us')"
    by (auto simp: steal_for_plain d0_def b_def Let_def split: sum.splits prod.splits)
  have ok1: "db_ok d1" using rq_step_ok [OF rq_step.steal [OF st] ok0] .
  show ?case
  proof (cases "su \<in> set us'")
    case True
    then show ?thesis using Cons.IH [OF ok1 rest] by blast
  next
    case False
    then have r: "res = Some su" using Cons.prems(3) us by (auto split: option.splits)
    then have dead: "token_dead d1 (cand_unit_id c) (cand_lease_token c)"
      using reap_steal_kills [OF ok0] st by blast
    have "(rq_step races)\<^sup>*\<^sup>* d1 d'"
      using reap_loop_run [where between = between, OF between, where d = d1 and clock = clock and jit = jit and
          grace = grace and base = base and i = "Suc i" and cs = cs] rest by simp
    then have "token_dead d' (cand_unit_id c) (cand_lease_token c)"
      using token_dead_mono [OF dead] rq_run_le ok1 by blast
    moreover have "su_unit_id su = cand_unit_id c" "su_previous_lease_token su = Some (cand_lease_token c)"
      using r st by (auto simp: reap_steal_def map_ok_Inr stolen_of_def reap_eff_def Let_def
          elim!: cas_cases dest: row_of_unit)
    ultimately show ?thesis by simp
  qed
qed

text \<open>
  Whatever other queue operations run between the steals of a pass, the pass is itself a run
  of the queue, and every unit it reports as stolen carries a previous token that is dead when
  the pass ends.
\<close>

theorem reap_pass_fences_every_zombie:
  assumes "reachable races d" and "\<And>i x. (rq_step races)\<^sup>*\<^sup>* x (between i x)"
    and "reap_expired None None between clock jit locked now kind grace max_rows base d = (res, d')"
  shows "reachable races d' \<and>
    (\<forall>us su. res = Inr us \<longrightarrow> su \<in> set us \<longrightarrow>
       (\<exists>t. su_previous_lease_token su = Some t \<and> token_dead d' (su_unit_id su) t))"
proof
  have "(rq_step races)\<^sup>*\<^sup>* d d'"
    using reap_loop_run [where between = between, OF assms(2), where d = d and clock = clock and jit = jit and
        grace = grace and base = base and i = 0 and
        cs = "reap_candidates locked now grace kind max_rows d"] assms(3)
    by (simp add: reap_expired_def)
  then show "reachable races d'"
    using assms(1) by (simp add: reachable_def)
  show "\<forall>us su. res = Inr us \<longrightarrow> su \<in> set us \<longrightarrow>
       (\<exists>t. su_previous_lease_token su = Some t \<and> token_dead d' (su_unit_id su) t)"
    using reap_loop_dead [where between = between, OF reachable_ok [OF assms(1)] assms(2)] assms(3)
    unfolding reap_expired_def by blast
qed

definition demo_stuck :: db where
  "demo_stuck = store demo_turn demo_turn_leased"

definition demo_stuck_reaped :: row where
  "demo_stuck_reaped = reap_eff 200 5 demo_turn_leased"

lemma demo_stuck_rows:
  "queue demo_stuck = [demo_turn_leased]" "row_of demo_stuck 7 = Some demo_turn_leased"
  "recovery_jobs demo_stuck = []"
  by (simp_all add: demo_stuck_def store_def put_by_def row_of_def demo_turn_rows)
    (simp_all add: demo_turn_defs)

lemma demo_stuck_reachable: "reachable races demo_stuck"
  using reachable_step [OF demo_turn_reachable rq_step.claim [OF demo_turn_claim]]
  by (simp add: demo_stuck_def)

lemma demo_pass:
  "reap_expired None None (\<lambda>_ x. x) (\<lambda>_. 200) (\<lambda>_. 0) (\<lambda>_. False) 200 None 30 50 5 demo_stuck
   = (Inr [stolen_of \<lparr>cand_unit_id = 7, cand_unit_kind = UNIT_KIND_SESSION_TURN,
             cand_leased_by = Some ''pod-a'', cand_lease_token = 1, cand_attempts = 1,
             cand_max_attempts = 5\<rparr> demo_turn_leased demo_stuck_reaped],
      store demo_stuck demo_stuck_reaped)"
proof -
  have f: "unit_id demo_turn_leased = 7" "unit_kind demo_turn_leased = UNIT_KIND_SESSION_TURN"
    "leased_by demo_turn_leased = Some ''pod-a''" "lease_token demo_turn_leased = 1"
    "attempts_since_completion demo_turn_leased = 1" "max_attempts demo_turn_leased = 5"
    "state demo_turn_leased = Leased" "leased_until demo_turn_leased = Some 70"
    "dedup_key demo_turn_leased = None"
    by (simp_all add: demo_turn_defs)
  have "\<not> dedup_conflict (queue demo_stuck) demo_stuck_reaped"
    by (simp add: dedup_conflict_def same_dedup_def demo_stuck_reaped_def reap_eff_def Let_def f)
  moreover have "reap_guard demo_stuck 200 30 1 demo_turn_leased"
    by (simp add: reap_guard_def held_def expired_def recovery_held_def demo_stuck_rows f)
  ultimately show ?thesis
    by (simp add: reap_expired_def reap_candidates_def demo_stuck_rows recovery_held_def expired_def
        f steal_for_def reap_steal_def cas_def demo_stuck_reaped_def)
qed

theorem reap_pass_fences_every_zombie_witness:
  "token_dead (store demo_stuck demo_stuck_reaped) 7 1"
proof -
  have idle: "(rq_step False)\<^sup>*\<^sup>* x ((\<lambda>_ y. y) (i :: nat) x)" for i x by simp
  have "unit_id demo_stuck_reaped = 7"
    by (simp add: demo_stuck_reaped_def reap_eff_def Let_def demo_turn_defs)
  then show ?thesis
    using reap_pass_fences_every_zombie [where between = "\<lambda>_ y. y", OF demo_stuck_reachable idle demo_pass]
    by (simp add: stolen_of_def)
qed

text \<open>The converse, when the pass runs alone: nothing it could see stays behind.\<close>

definition reapable :: "secs \<Rightarrow> secs \<Rightarrow> db \<Rightarrow> row \<Rightarrow> bool" where
  "reapable now grace d r \<longleftrightarrow> state r = Leased \<and> expired now grace r \<and> \<not> recovery_held d (unit_id r)"

lemma expired_mono: "expired now grace r \<Longrightarrow> now \<le> now' \<Longrightarrow> expired now' grace r"
  by (auto simp: expired_def split: option.splits)

lemma reap_steal_leased:
  assumes "reap_steal t grace b c d = Inr (res, d1)" "now \<le> t"
    and cand: "\<And>x. row_of d (cand_unit_id c) = Some x \<Longrightarrow> state x = Leased \<Longrightarrow>
       lease_token x = cand_lease_token c \<and> reapable now grace d x"
    and "row_of d1 u = Some r" "state r = Leased"
  shows "row_of d u = Some r \<and> u \<noteq> cand_unit_id c"
proof -
  obtain p where c: "cas (cand_unit_id c) (reap_guard d t grace (cand_lease_token c))
      (reap_eff t b) d = Inr (p, d1)"
    using assms(1) by (auto simp: reap_steal_def map_ok_Inr)
  show ?thesis
  proof (cases "u = cand_unit_id c")
    case False
    then show ?thesis using reap.cas_frame [OF c] assms(4) by simp
  next
    case True
    show ?thesis
      using c
    proof (cases rule: cas_cases)
      case miss
      then have "reap_guard d t grace (cand_lease_token c) r"
        using cand [of r] True assms(2,4,5) expired_mono
        by (auto simp: reap_guard_def held_def reapable_def)
      then show ?thesis using c miss assms(4) True by (simp add: cas_def split: if_splits)
    next
      case (hit x)
      then have "row_of d1 u = Some (reap_eff t b x)"
        using reap.cas_row [OF c [unfolded hit(4)]] True by simp
      then show ?thesis using assms(4,5) by (auto simp: reap_eff_def Let_def split: if_splits)
    qed
  qed
qed

lemma reap_steal_frame:
  "reap_steal t grace b c d = Inr (res, d1) \<Longrightarrow> recovery_jobs d1 = recovery_jobs d"
  by (auto simp: reap_steal_def map_ok_Inr elim!: cas_cases)

lemma reap_loop_leaves_none:
  assumes "reap_loop None None (\<lambda>_ x. x) clock jit grace base i cs d = (Inr us, d')"
    and "\<And>j. now \<le> clock j"
    and "\<And>c x. c \<in> set cs \<Longrightarrow> row_of d (cand_unit_id c) = Some x \<Longrightarrow> state x = Leased \<Longrightarrow>
       lease_token x = cand_lease_token c \<and> reapable now grace d x"
    and "row_of d' u = Some r" "state r = Leased"
  shows "row_of d u = Some r \<and> u \<notin> cand_unit_id ` set cs \<and> recovery_jobs d' = recovery_jobs d"
  using assms(1,3-)
proof (induction cs arbitrary: i d us)
  case Nil
  then show ?case by simp
next
  case (Cons c cs)
  obtain b res d1 us' where
    st: "reap_steal (clock i) grace b c d = Inr (res, d1)" and
    rest: "reap_loop None None (\<lambda>_ x. x) clock jit grace base (Suc i) cs d1 = (Inr us', d')"
    using Cons.prems(1) by (auto simp: steal_for_plain Let_def split: sum.splits prod.splits)
  have one: "row_of d v = Some x \<and> v \<noteq> cand_unit_id c"
    if "row_of d1 v = Some x" "state x = Leased" for v x
    by (rule reap_steal_leased [OF st assms(2) _ that]) (rule Cons.prems(2) [OF list.set_intros(1)])
  have jobs: "recovery_jobs d1 = recovery_jobs d" using reap_steal_frame [OF st] .
  have "lease_token x = cand_lease_token c' \<and> reapable now grace d1 x"
    if "c' \<in> set cs" "row_of d1 (cand_unit_id c') = Some x" "state x = Leased" for c' x
    using one [OF that(2,3)] Cons.prems(2) [of c' x] that jobs
    by (auto simp: reapable_def recovery_held_def)
  then have *: "row_of d1 u = Some r \<and> u \<notin> cand_unit_id ` set cs \<and> recovery_jobs d' = recovery_jobs d1"
    using Cons.IH [OF rest _ Cons.prems(3,4)] by blast
  then have "row_of d u = Some r \<and> u \<noteq> cand_unit_id c" using one Cons.prems(4) by blast
  with * jobs show ?case by simp
qed

lemma reap_candidates_seen:
  assumes "db_ok d" "c \<in> set (reap_candidates locked now grace kind max_rows d)"
    "row_of d (cand_unit_id c) = Some x"
  shows "lease_token x = cand_lease_token c \<and> reapable now grace d x"
proof -
  from assms(2) obtain y where y: "y \<in> set (queue d)" "reapable now grace d y"
      "cand_unit_id c = unit_id y" "cand_lease_token c = lease_token y"
    by (auto simp: reap_candidates_def reapable_def dest!: in_set_takeD)
  then have "x = y" using row_of_member [OF assms(1) y(1)] assms(3) by simp
  with y show ?thesis by simp
qed

lemma reap_candidates_all:
  assumes "length (filter (reapable now grace d) (queue d)) \<le> max_rows"
    "r \<in> set (queue d)" "reapable now grace d r" "kind = None \<or> kind = Some (unit_kind r)"
  shows "unit_id r \<in> cand_unit_id ` set (reap_candidates (\<lambda>_. False) now grace kind max_rows d)"
proof -
  let ?P = "\<lambda>r. state r = Leased \<and> expired now grace r \<and> \<not> recovery_held d (unit_id r) \<and>
    (kind = None \<or> kind = Some (unit_kind r))"
  have eq: "filter ?P (queue d) = filter ?P (filter (reapable now grace d) (queue d))"
    by (auto simp: reapable_def intro: filter_cong)
  have "length (filter ?P (queue d)) \<le> max_rows"
    using assms(1) length_filter_le [of ?P "filter (reapable now grace d) (queue d)"]
    by (subst eq) linarith
  then have "set (take max_rows (sort_key until_order (filter ?P (queue d)))) = set (filter ?P (queue d))"
    by simp
  moreover have "r \<in> set (filter ?P (queue d))" using assms(2-4) by (auto simp: reapable_def)
  ultimately have "r \<in> set (take max_rows (sort_key until_order (filter ?P (queue d))))" by simp
  then show ?thesis
    by (force simp: reap_candidates_def)
qed

text \<open>
  A pass that runs alone over a table with at most \<^verbatim>\<open>max_rows\<close> expired leases, and that
  does not raise, leaves no lease behind that was expired when it started, whatever the drawn
  jitter: the crashed holder of every unit is replaced or the unit is parked.
\<close>

theorem lone_pass_leaves_no_expired_lease:
  assumes "reachable races d" and "\<And>j. now \<le> clock j"
    and "length (filter (reapable now grace d) (queue d)) \<le> max_rows"
    and "reap_expired None None (\<lambda>_ x. x) clock jit (\<lambda>_. False) now kind grace max_rows base d
         = (Inr us, d')"
    and "r \<in> set (queue d')" "kind = None \<or> kind = Some (unit_kind r)"
  shows "\<not> reapable now grace d' r"
proof
  assume r: "reapable now grace d' r"
  note ok = reachable_ok [OF assms(1)]
  have "(rq_step races)\<^sup>*\<^sup>* d d'"
    using reap_loop_run [where between = "\<lambda>_ x. x", OF rtranclp.rtrancl_refl, of races d clock jit grace base 0
        "reap_candidates (\<lambda>_. False) now grace kind max_rows d"] assms(4)
    by (simp add: reap_expired_def)
  then have row: "row_of d' (unit_id r) = Some r"
    using row_of_member rq_run_ok ok assms(5) by blast
  have "row_of d (unit_id r) = Some r \<and>
      unit_id r \<notin> cand_unit_id ` set (reap_candidates (\<lambda>_. False) now grace kind max_rows d) \<and>
      recovery_jobs d' = recovery_jobs d"
    using reap_loop_leaves_none [OF assms(4) [unfolded reap_expired_def] assms(2) _ row]
      reap_candidates_seen [OF ok] r by (simp add: reapable_def)
  moreover from this have "reapable now grace d r"
    using r by (simp add: reapable_def recovery_held_def)
  ultimately show False
    using reap_candidates_all [OF assms(3)] assms(6) row_of_in by blast
qed

theorem lone_pass_leaves_no_expired_lease_witness:
  "\<not> reapable 200 30 (store demo_stuck demo_stuck_reaped) demo_stuck_reaped"
proof -
  have "queue (store demo_stuck demo_stuck_reaped) = [demo_stuck_reaped]"
    by (simp add: store_def put_by_def demo_stuck_rows demo_stuck_reaped_def reap_eff_def Let_def)
  then show ?thesis
    using lone_pass_leaves_no_expired_lease [where r = demo_stuck_reaped,
        OF demo_stuck_reachable _ _ demo_pass]
    by (simp add: demo_stuck_rows)
qed

section \<open>The deterministic-failure ladder\<close>

definition fail_once :: "(nat \<Rightarrow> secs) \<Rightarrow> secs \<Rightarrow> bool \<Rightarrow> string \<Rightarrow> string option \<Rightarrow> nat \<Rightarrow> row \<Rightarrow> row" where
  "fail_once clock backoff err why msg i r =
     release_deterministic_eff (clock i) backoff err RELEASE_BACKOFF_BASE_SECONDS why msg
       DETERMINISTIC_RELEASE_SIGNATURE ATTACH_FAILURE_BACKOFF_CAP_SECONDS
       (claim_update (clock i) ''pod'' 60 r)"

fun fail_times :: "(nat \<Rightarrow> secs) \<Rightarrow> secs \<Rightarrow> bool \<Rightarrow> string \<Rightarrow> string option \<Rightarrow> nat \<Rightarrow> row \<Rightarrow> row" where
  "fail_times clock backoff err why msg 0 r = r"
| "fail_times clock backoff err why msg (Suc n) r =
     fail_once clock backoff err why msg n (fail_times clock backoff err why msg n r)"

lemma fail_once_facts:
  "max_attempts (fail_once clock b e why msg i r) = max_attempts r"
  "attach_failures (fail_once clock b e why msg i r) =
     (if last_error_signature r = Some DETERMINISTIC_RELEASE_SIGNATURE then attach_failures r + 1 else 1)"
  "last_error_signature (fail_once clock b e why msg i r) = Some DETERMINISTIC_RELEASE_SIGNATURE"
  by (simp_all add: fail_once_def release_deterministic_eff_def Let_def next_failures_def
      claim_update_def)

lemma fail_once_state:
  "state (fail_once clock b e why msg i r) =
     (if max_attempts r \<le> attach_failures (fail_once clock b e why msg i r) then Parked else Queued)"
  by (simp add: fail_once_def release_deterministic_eff_def Let_def next_failures_def claim_update_def)

lemma fail_times_max: "max_attempts (fail_times clock b e why msg n r) = max_attempts r"
  by (induction n) (simp_all add: fail_once_facts)

lemma fail_times_facts:
  assumes "last_error_signature r \<noteq> Some DETERMINISTIC_RELEASE_SIGNATURE" "0 < n"
  shows "max_attempts (fail_times clock b e why msg n r) = max_attempts r \<and>
    attach_failures (fail_times clock b e why msg n r) = int n \<and>
    last_error_signature (fail_times clock b e why msg n r) = Some DETERMINISTIC_RELEASE_SIGNATURE"
  using assms(2)
proof (induction n)
  case (Suc n)
  then show ?case using assms(1) by (cases n) (simp_all add: fail_once_facts)
qed simp

text \<open>
  A unit whose turns keep failing for a deterministic reason, each claimed and released with
  that reason, stays runnable for its first \<^verbatim>\<open>max_attempts - 1\<close> failures and is parked
  with that reason by failure number \<^verbatim>\<open>max_attempts\<close>, whatever the other claims since its
  last completion counted.
\<close>

theorem deterministic_failures_park_at_max_attempts:
  assumes "last_error_signature r \<noteq> Some DETERMINISTIC_RELEASE_SIGNATURE" and "0 < n"
    and "int n \<le> max_attempts r"
  shows "state (fail_times clock backoff err why msg n r) =
           (if int n < max_attempts r then Queued else Parked) \<and>
    (int n = max_attempts r \<longrightarrow> park_reason (fail_times clock backoff err why msg n r) = Some why)"
proof -
  obtain m where n: "n = Suc m" using assms(2) by (cases n) auto
  have f: "attach_failures (fail_times clock backoff err why msg n r) = int n"
    using fail_times_facts [OF assms(1,2)] by simp
  have "state (fail_times clock backoff err why msg n r) =
      (if max_attempts r \<le> int n then Parked else Queued)"
    using f n fail_once_state [of clock backoff err why msg m] by (simp add: fail_times_max)
  moreover have "park_reason (fail_once clock backoff err why msg m x) = Some why"
    if "state (fail_once clock backoff err why msg m x) = Parked" for x
    using that by (auto simp: fail_once_def release_deterministic_eff_def Let_def split: if_splits)
  ultimately show ?thesis using n assms(3) by auto
qed

theorem deterministic_failures_park_at_max_attempts_witness:
  "state (fail_times (\<lambda>i. of_nat i) 0 True ''oom'' None 4 demo_row) = Queued \<and>
   state (fail_times (\<lambda>i. of_nat i) 0 True ''oom'' None 5 demo_row) = Parked"
proof -
  have "last_error_signature demo_row \<noteq> Some DETERMINISTIC_RELEASE_SIGNATURE" "max_attempts demo_row = 5"
    by (simp_all add: demo_row_def fresh_row_def)
  then show ?thesis
    using deterministic_failures_park_at_max_attempts [of demo_row 4]
      deterministic_failures_park_at_max_attempts [of demo_row 5] by simp
qed

end
