(* ===== verification/Run_Queue_Admission.thy ===== *)
theory Run_Queue_Admission
  imports Run_Queue_Behaviour
begin

text \<open>
  Admission as its callers see it: what an enqueue and a recorded input do to the unit in each of
  its states, and the interrupt-admission pair that brackets a turn.
\<close>

section \<open>Enqueue\<close>

text \<open>
  Enqueueing a unit that is already queued never raises and can only make it more runnable:
  its priority does not drop, its earliest start does not move back, its place in the
  first-in-first-out order does not change, so it sorts no later than before among the claimable
  units, and every pod that could claim it before still can.
\<close>

theorem enqueue_only_helps_a_queued_unit:
  assumes "db_ok d" "row_of d u = Some r" "state r = Queued"
  shows "\<exists>s d'. enqueue_unit True now u kind fair None prio ra inp d = Inr ((ENQUEUE_UPDATED, Queued), d') \<and>
     row_of d' u = Some s \<and> (\<forall>v. v \<noteq> u \<longrightarrow> row_of d' v = row_of d v) \<and>
     priority r \<le> priority s \<and> prio \<le> priority s \<and> run_after s \<le> run_after r \<and>
     queued_at s = queued_at r \<and> lease_token s = lease_token r \<and> claim_order s \<le> claim_order r \<and>
     (\<forall>now' kind' pod grace. claim_eligible now' kind' pod grace d r \<longrightarrow>
        claim_eligible now' kind' pod grace d' s)"
proof -
  define s where "s = enqueue_upd now fair prio ra inp r"
  have u: "unit_id r = u" and r: "r \<in> set (queue d)"
    using row_of_unit [OF assms(2)] row_of_in [OF assms(2)] by auto
  have f: "state s = Queued" "unit_id s = u" "priority s = max (priority r) prio"
    "run_after s \<le> run_after r" "queued_at s = queued_at r" "lease_token s = lease_token r"
    "unit_kind s = unit_kind r" "last_leased_by s = last_leased_by r" "enqueue_ord s = enqueue_ord r"
    "dedup_key s = dedup_key r"
    using assms(3) u by (simp_all add: s_def enqueue_upd_def Let_def)
  have "\<not> dedup_conflict (queue d) s"
    using no_new_conflict [OF assms(1) r] f u assms(3) by simp
  then have res: "enqueue_unit True now u kind fair None prio ra inp d
      = Inr ((ENQUEUE_UPDATED, Queued), store d s)"
    using assms f(1) by (simp add: enqueue_unit_def enqueue_sql_def cas_hit s_def [symmetric])
  have row: "row_of (store d s) v = (if v = u then Some s else row_of d v)" for v
    using row_of_store [of d s v] assms(2) f by simp
  have ord: "claim_order s \<le> claim_order r"
    using f by (simp add: claim_order_def less_eq_prod_def)
  have elig: "claim_eligible now' kind' pod grace d r \<longrightarrow> claim_eligible now' kind' pod grace (store d s) s"
    for now' kind' pod grace
    using f u by (auto simp: claim_eligible_def runnable_def recovery_held_def)
  show ?thesis
    using res row f(3-6) ord elig by (intro exI [of _ s] exI [of _ "store d s"]) simp
qed

theorem enqueue_only_helps_a_queued_unit_witness:
  "\<exists>s d'. enqueue_unit True 1 7 UNIT_KIND_SESSION_TURN None None 3 None (Some 6) demo_db
     = Inr ((ENQUEUE_UPDATED, Queued), d') \<and> row_of d' 7 = Some s \<and> claim_order s \<le> claim_order demo_row"
proof -
  have "state demo_row = Queued" by (simp add: demo_defs)
  then show ?thesis
    using enqueue_only_helps_a_queued_unit [OF demo_db_ok demo_rows(1), of 1 UNIT_KIND_SESSION_TURN None 3 None "Some 6"]
    by blast
qed

section \<open>New input\<close>

text \<open>
  Recording new input wakes the unit without disturbing it. An unknown unit gets a row that
  is claimable at once and whose consumed mark lies just below the input; a finished unit is
  claimable at once; a queued, leased or parked unit only has its input mark raised. The mark
  never drops below the input, the result is the state of the stored row, it is never done,
  and the call raises only when waking a finished unit meets a queued twin.
\<close>

theorem record_input_wakes:
  assumes "db_ok d"
  shows "case record_input_seq True now u kind inp fair d of
      Inl e \<Rightarrow> e = Unique_Violation \<and> (\<exists>r. row_of d u = Some r \<and> state r = Done \<and> dedup_key r \<noteq> None)
    | Inr (st, d') \<Rightarrow> (\<exists>s. row_of d' u = Some s \<and> state s = st \<and> st \<noteq> Done \<and>
        Some inp \<le> input_seq s \<and> (\<forall>v. v \<noteq> u \<longrightarrow> row_of d' v = row_of d v) \<and>
        (case row_of d u of
           None \<Rightarrow> st = Queued \<and> input_seq s = Some inp \<and> consumed_seq s = Some (inp - 1) \<and>
             run_after s = now \<and> lease_token s = 0
         | Some r \<Rightarrow> input_seq s = sql_greatest (input_seq r) (Some inp) \<and>
             consumed_seq s = consumed_seq r \<and> lease_token s = lease_token r \<and>
             (if state r = Done then st = Queued \<and> run_after s = now \<and> queued_at s = now
              else st = state r \<and> run_after s = run_after r \<and> queued_at s = queued_at r \<and>
                leased_until s = leased_until r)))"
proof (cases "row_of d u")
  case None
  define s where "s = (fresh_row now u kind (next_ord d))\<lparr>fair_key := fair,
    input_seq := Some inp, consumed_seq := Some (inp - 1)\<rparr>"
  have f: "state s = Queued" "input_seq s = Some inp" "consumed_seq s = Some (inp - 1)"
    "run_after s = now" "lease_token s = 0" "unit_id s = u"
    by (simp_all add: s_def fresh_row_def)
  have row: "row_of (insert_row d s) v = (if v = u then Some s else row_of d v)" for v
    using None f by (auto simp: row_of_insert split: option.splits)
  have "record_input_seq True now u kind inp fair d = Inr (Queued, insert_row d s)"
    using None f(1) by (simp add: record_input_seq_def record_input_sql_def s_def [symmetric])
  then show ?thesis using None row f by simp
next
  case (Some r)
  define s where "s = record_input_upd now inp fair r"
  have u: "unit_id r = u" and r: "r \<in> set (queue d)"
    using row_of_unit [OF Some] row_of_in [OF Some] by auto
  have f: "unit_id s = u" "unit_kind s = unit_kind r" "dedup_key s = dedup_key r"
    "state s = (if state r = Done then Queued else state r)"
    "input_seq s = sql_greatest (input_seq r) (Some inp)" "consumed_seq s = consumed_seq r"
    "lease_token s = lease_token r" "leased_until s = leased_until r"
    "run_after s = (if state r = Done then now else run_after r)"
    "queued_at s = (if state r = Done then now else queued_at r)"
    using u by (simp_all add: s_def record_input_upd_def Let_def)
  show ?thesis
  proof (cases "dedup_conflict (queue d) s")
    case True
    then have "state r = Done" "dedup_key r \<noteq> None"
      using no_new_conflict [OF assms r, of s] f u dedup_conflict_queued [OF True]
      by (auto simp: dedup_conflict_def same_dedup_def split: if_splits)
    then show ?thesis
      using Some True by (simp add: record_input_seq_def record_input_sql_def cas_def s_def [symmetric])
  next
    case False
    then have res: "record_input_seq True now u kind inp fair d = Inr (state s, store d s)"
      using Some by (simp add: record_input_seq_def record_input_sql_def cas_hit s_def [symmetric])
    have row: "row_of (store d s) v = (if v = u then Some s else row_of d v)" for v
      using row_of_store [of d s v] Some f by simp
    show ?thesis using Some row f sql_greatest_ge2 [of "Some inp" "input_seq r"] unfolding res by auto
  qed
qed

theorem record_input_wakes_witness:
  "\<exists>s d'. record_input_seq True 30 7 UNIT_KIND_SESSION_TURN 9 None demo_done = Inr (Queued, d') \<and>
     row_of d' 7 = Some s \<and> input_seq s = Some 9 \<and> run_after s = 30"
proof -
  have f: "state demo_turn_done = Done" "dedup_key demo_turn_done = None" "input_seq demo_turn_done = Some 5"
    by (simp_all add: demo_turn_defs delivery_pending_def demo_turn_rows)
  show ?thesis
    using record_input_wakes [OF reachable_ok [OF demo_done_reachable], where now = 30 and u = 7
        and kind = UNIT_KIND_SESSION_TURN and inp = 9 and fair = None] f
    by (auto simp: demo_turn_rows sql_simps split: sum.splits)
qed

section \<open>Interrupt admission\<close>

text \<open>
  Closing the interrupt admission of a turn is idempotent: after the holder's close has
  succeeded, repeating it with the same consumed mark succeeds again and changes nothing, so a
  holder that lost the answer may retry; and a close with a mark never moves the consumed
  watermark back.
\<close>

theorem close_interrupt_admission_idempotent:
  assumes "db_ok d" and "close_interrupt_admission u tok turn mark d = Inr (True, d1)"
  shows "close_interrupt_admission u tok turn mark d1 = Inr (True, d1) \<and>
    (\<exists>r s. row_of d u = Some r \<and> row_of d1 u = Some s \<and> consumed_seq r \<le> consumed_seq s \<and>
       mark \<le> consumed_seq s \<and> fence_lease u tok d1)"
proof -
  obtain p where args: "0 < tok" "0 < turn" "\<not> case_option False (\<lambda>sq. sq \<le> 0) mark"
    and c: "cas u (close_guard d u tok turn mark) (close_eff mark) d = Inr (Some p, d1)"
    using assms(2) by (auto simp: close_interrupt_admission_def map_ok_Inr split: if_splits)
  from c obtain r where r: "row_of d u = Some r" "close_guard d u tok turn mark r"
      "d1 = store d (close_eff mark r)"
    by (cases rule: cas_cases) auto
  define s where "s = close_eff mark r"
  have s: "unit_kind s = UNIT_KIND_SESSION_TURN" "held tok s" "unit_id s = u"
    "interrupt_admission_lease_token s = None" "interrupt_admission_turn_id s = None"
    using r(2) row_of_unit [OF r(1)] by (auto simp: s_def close_eff_def close_guard_def held_def)
  have wm: "mark \<le> consumed_seq s" "consumed_seq r \<le> consumed_seq s"
    "case mark of None \<Rightarrow> True | Some sq \<Rightarrow> sq \<le> case_option (-1) id (consumed_seq s)"
    by (cases "consumed_seq r"; auto simp: s_def close_eff_def split: option.splits)+
  have row: "row_of d1 u = Some s"
    using row_of_store [of d s u] r s(3) by (simp add: s_def)
  have again: "close_eff mark s = s"
    using wm(3) s(4,5) by (cases "consumed_seq r") (auto simp: s_def close_eff_def max_def split: option.splits)
  have guard: "close_guard d1 u tok turn mark s"
    using s wm(3) by (auto simp: close_guard_def)
  have ok1: "db_ok d1" using close_admission.cas_ok [OF assms(1) c] .
  then have "\<not> dedup_conflict (queue d1) s"
    using no_new_conflict [OF ok1 row_of_in [OF row]] by simp
  moreover have "store d1 s = d1"
  proof -
    have "x = s" if "x \<in> set (queue d1)" "unit_id x = unit_id s" for x
      using row_of_member [OF ok1 that(1)] that(2) row s(3) by simp
    then have "put_by unit_id s (queue d1) = queue d1"
      unfolding put_by_def by (intro map_idI) auto
    then show ?thesis by (simp add: store_def)
  qed
  ultimately have "close_interrupt_admission u tok turn mark d1 = Inr (True, d1)"
    using args row guard again by (auto simp: close_interrupt_admission_def cas_def split: option.splits)
  then show ?thesis using r(1) row wm s(2) by (auto simp: fence_lease_def)
qed

definition demo_admitted :: db where
  "demo_admitted = store demo_claimed (open_eff 4 2 demo_leased)"

theorem close_interrupt_admission_idempotent_witness:
  "\<exists>d1. close_interrupt_admission 7 4 2 None demo_admitted = Inr (True, d1) \<and>
     close_interrupt_admission 7 4 2 None d1 = Inr (True, d1)"
proof -
  let ?r = "open_eff 4 2 demo_leased"
  have f: "unit_id ?r = 7" "unit_kind ?r = UNIT_KIND_SESSION_TURN" "held 4 ?r"
    "interrupt_admission_lease_token ?r = Some 4" "interrupt_admission_turn_id ?r = Some 2"
    "dedup_key ?r = None"
    by (simp_all add: open_eff_def held_def demo_defs)
  have op: "open_interrupt_admission 7 4 2 demo_claimed = Inr (True, demo_admitted)"
  proof -
    have "open_guard 4 2 demo_leased" by (simp add: open_guard_def held_def demo_defs)
    moreover have "\<not> dedup_conflict (queue demo_claimed) ?r"
      using f(6) by (simp add: dedup_conflict_def same_dedup_def)
    ultimately show ?thesis
      by (simp add: open_interrupt_admission_def cas_def demo_rows demo_admitted_def)
  qed
  have ok: "db_ok demo_admitted"
    using rq_step_ok [OF rq_step.admit [OF op] demo_claimed_ok] .
  have row: "row_of demo_admitted 7 = Some ?r"
    using row_of_store [of demo_claimed ?r 7] f(1) demo_rows by (simp add: demo_admitted_def)
  have "close_guard demo_admitted 7 4 2 None ?r" using f by (simp add: close_guard_def)
  moreover have "\<not> dedup_conflict (queue demo_admitted) (close_eff None ?r)"
    using f(6) by (simp add: dedup_conflict_def same_dedup_def close_eff_def)
  ultimately have "close_interrupt_admission 7 4 2 None demo_admitted
      = Inr (True, store demo_admitted (close_eff None ?r))"
    by (simp add: close_interrupt_admission_def cas_def row)
  then show ?thesis
    using close_interrupt_admission_idempotent [OF ok] by blast
qed

section \<open>Backoff\<close>

text \<open>
  Retry delays are bounded and never shrink as failures accumulate: the transient-release
  delay stays between the base and the cap when the base does not exceed the cap, and each
  further attempt waits at least as long as the one before; the attach ladder never shrinks
  either and stays below its cap.
\<close>

theorem backoff_bounded_and_monotone:
  assumes "0 \<le> base" "base \<le> cap" "m \<le> n"
  shows "base \<le> transient_release_backoff_seconds m base cap \<and>
    transient_release_backoff_seconds m base cap \<le> transient_release_backoff_seconds n base cap \<and>
    transient_release_backoff_seconds n base cap \<le> cap \<and>
    attach_failure_backoff_seconds m ATTACH_FAILURE_BACKOFF_SECONDS ATTACH_FAILURE_BACKOFF_CAP_SECONDS
      \<le> attach_failure_backoff_seconds n ATTACH_FAILURE_BACKOFF_SECONDS ATTACH_FAILURE_BACKOFF_CAP_SECONDS \<and>
    attach_failure_backoff_seconds n ATTACH_FAILURE_BACKOFF_SECONDS ATTACH_FAILURE_BACKOFF_CAP_SECONDS
      \<le> ATTACH_FAILURE_BACKOFF_CAP_SECONDS"
proof -
  have exp: "base * 2 ^ nat (max 0 (m - 1)) \<le> base * 2 ^ nat (max 0 (n - 1))"
    using assms by (intro mult_left_mono power_increasing) auto
  have low: "base \<le> base * 2 ^ nat (max 0 (m - 1))"
    using assms(1) mult_left_mono [of 1 "2 ^ nat (max 0 (m - 1))" base] by simp
  have transient: "base \<le> transient_release_backoff_seconds m base cap"
    "transient_release_backoff_seconds m base cap \<le> transient_release_backoff_seconds n base cap"
    "transient_release_backoff_seconds n base cap \<le> cap"
    using assms low min.coboundedI2 [OF exp, of cap]
    by (auto simp: transient_release_backoff_seconds_def Let_def)
  have ladder: "ATTACH_FAILURE_BACKOFF_SECONDS ! i \<le> ATTACH_FAILURE_BACKOFF_SECONDS ! j"
    if "i \<le> j" "j \<le> 3" for i j
  proof -
    have "j = 0 \<or> j = 1 \<or> j = 2 \<or> j = 3" "i = 0 \<or> i = 1 \<or> i = 2 \<or> i = 3" using that by auto
    then show ?thesis using that(1) by (auto simp: ATTACH_FAILURE_BACKOFF_SECONDS_def)
  qed
  have len: "int (length ATTACH_FAILURE_BACKOFF_SECONDS) - 1 = 3" "ATTACH_FAILURE_BACKOFF_SECONDS \<noteq> []"
    by (simp_all add: ATTACH_FAILURE_BACKOFF_SECONDS_def)
  have "nat (max 0 (min (m - 1) 3)) \<le> nat (max 0 (min (n - 1) 3))" "nat (max 0 (min (n - 1) 3)) \<le> 3"
    using assms(3) by auto
  from ladder [OF this] show ?thesis
    using transient by (auto simp: attach_failure_backoff_seconds_def Let_def len intro: min.coboundedI1)
qed

theorem backoff_bounded_and_monotone_witness:
  "transient_release_backoff_seconds 2 5 60 \<le> transient_release_backoff_seconds 40 5 60"
  using backoff_bounded_and_monotone [of 5 60 2 40] by simp

end
