(* ===== verification/Py_Text.thy ===== *)
theory Py_Text
  imports Main
begin

text \<open>
  Python text for the components that render it: a string is its list of Unicode code points,
  and the methods of \<^verbatim>\<open>str\<close> the sources call are executable functions on that list.
\<close>

section \<open>Strings of code points\<close>

type_synonym pytext = "nat list"

definition lit :: "string \<Rightarrow> pytext" where
  "lit s = map of_char s"

lemma length_lit [simp]: "length (lit s) = length s"
  by (simp add: lit_def)

lemma lit_append: "lit (s @ t) = lit s @ lit t"
  by (simp add: lit_def)

text \<open>Decimal rendering, as \<^verbatim>\<open>str(n)\<close> gives it.\<close>

fun nat_text :: "nat \<Rightarrow> pytext" where
  "nat_text n = (if n < 10 then [48 + n] else nat_text (n div 10) @ [48 + n mod 10])"

declare nat_text.simps [simp del]

definition int_text :: "int \<Rightarrow> pytext" where
  "int_text i = (if i < 0 then 45 # nat_text (nat (- i)) else nat_text (nat i))"

fun join_text :: "pytext \<Rightarrow> pytext list \<Rightarrow> pytext" where
  "join_text sep [] = []"
| "join_text sep [x] = x"
| "join_text sep (x # y # xs) = x @ sep @ join_text sep (y # xs)"

section \<open>White space\<close>

text \<open>The code points for which \<^verbatim>\<open>str.isspace\<close> holds.\<close>

definition is_space :: "nat \<Rightarrow> bool" where
  "is_space c \<longleftrightarrow>
     (9 \<le> c \<and> c \<le> 13) \<or> (28 \<le> c \<and> c \<le> 32) \<or> c = 133 \<or> c = 160 \<or> c = 5760 \<or>
     (8192 \<le> c \<and> c \<le> 8202) \<or> c = 8232 \<or> c = 8233 \<or> c = 8239 \<or> c = 8287 \<or> c = 12288"

text \<open>The line boundaries of \<^verbatim>\<open>str.splitlines\<close>.\<close>

definition is_break :: "nat \<Rightarrow> bool" where
  "is_break c \<longleftrightarrow> (10 \<le> c \<and> c \<le> 13) \<or> (28 \<le> c \<and> c \<le> 30) \<or> c = 133 \<or> c = 8232 \<or> c = 8233"

definition rstrip :: "pytext \<Rightarrow> pytext" where
  "rstrip s = rev (dropWhile is_space (rev s))"

definition strip :: "pytext \<Rightarrow> pytext" where
  "strip s = rstrip (dropWhile is_space s)"

function (sequential) split_ws :: "pytext \<Rightarrow> pytext list" where
  "split_ws s =
     (case dropWhile is_space s of
        [] \<Rightarrow> []
      | c # cs \<Rightarrow> (c # takeWhile (\<lambda>x. \<not> is_space x) cs) # split_ws (dropWhile (\<lambda>x. \<not> is_space x) cs))"
  by pat_completeness auto
termination
proof (relation "measure length", simp)
  fix s c cs assume "dropWhile is_space s = c # cs"
  then have "length (c # cs) \<le> length s" by (metis length_dropWhile_le)
  moreover have "length (dropWhile (\<lambda>x. \<not> is_space x) cs) \<le> length cs" by (rule length_dropWhile_le)
  ultimately show "(dropWhile (\<lambda>x. \<not> is_space x) cs, s) \<in> measure length" by simp
qed

declare split_ws.simps [simp del]

fun lines_from :: "pytext \<Rightarrow> pytext \<Rightarrow> pytext list" where
  "lines_from acc [] = (if acc = [] then [] else [rev acc])"
| "lines_from acc (c # cs) =
     (if is_break c
      then rev acc # lines_from [] (if c = 13 \<and> cs \<noteq> [] \<and> hd cs = 10 then tl cs else cs)
      else lines_from (c # acc) cs)"

definition splitlines :: "pytext \<Rightarrow> pytext list" where
  "splitlines s = lines_from [] s"

text \<open>\<^verbatim>\<open>x in s\<close> on strings.\<close>

fun occurs :: "pytext \<Rightarrow> pytext \<Rightarrow> bool" where
  "occurs x [] \<longleftrightarrow> x = []"
| "occurs x (c # s) \<longleftrightarrow> take (length x) (c # s) = x \<or> occurs x s"

text \<open>\<^verbatim>\<open>s.split(d)\<close> for a separator of one character.\<close>

fun split_on :: "nat \<Rightarrow> pytext \<Rightarrow> pytext list" where
  "split_on d [] = [[]]"
| "split_on d (c # s) =
     (if c = d then [] # split_on d s
      else (case split_on d s of [] \<Rightarrow> [[c]] | w # ws \<Rightarrow> (c # w) # ws))"

section \<open>Facts\<close>

lemma occurs_append: "occurs x (a @ x @ b)"
proof (induction a)
  case Nil
  show ?case
  proof (cases "x @ b")
    case (Cons c t)
    then have "take (length x) (c # t) = x" by (metis append_eq_conv_conj)
    with Cons show ?thesis by simp
  qed simp
qed auto

lemma occurs_suffix: "occurs x (a @ x)"
  using occurs_append [of x a "[]"] by simp

lemma length_rstrip: "length (rstrip s) \<le> length s"
  by (simp add: rstrip_def) (metis length_dropWhile_le length_rev)

lemma set_rstrip: "set (rstrip s) \<subseteq> set s"
  by (auto simp: rstrip_def dest: set_dropWhileD)

lemma length_strip: "length (strip s) \<le> length s"
  using length_rstrip [of "dropWhile is_space s"] length_dropWhile_le [of is_space s]
  by (simp add: strip_def)

lemma dropWhile_idem: "dropWhile P (dropWhile P s) = dropWhile P s"
  by (induction s) auto

lemma rstrip_idem: "rstrip (rstrip s) = rstrip s"
  by (simp add: rstrip_def dropWhile_idem)

lemma rstrip_head: "s = [] \<or> \<not> is_space (hd s) \<Longrightarrow> rstrip s = [] \<or> hd (rstrip s) = hd s"
proof (cases s)
  case (Cons a t)
  assume "s = [] \<or> \<not> is_space (hd s)"
  with Cons have "dropWhile is_space (rev t @ [a]) = dropWhile is_space (rev t) @ [a]"
    by (induction "rev t") (auto simp: dropWhile_append)
  with Cons show ?thesis by (simp add: rstrip_def)
qed (simp add: rstrip_def)

lemma strip_idem: "strip (strip s) = strip s"
proof -
  let ?d = "dropWhile is_space s"
  have h: "?d = [] \<or> \<not> is_space (hd ?d)" by (metis hd_dropWhile)
  have "dropWhile is_space (rstrip ?d) = rstrip ?d"
  proof (cases "rstrip ?d")
    case (Cons a t)
    have "?d \<noteq> []"
    proof
      assume "?d = []"
      with Cons show False by (simp only: rstrip_def) simp
    qed
    with h have "\<not> is_space (hd ?d)" by blast
    moreover have "a = hd ?d" using rstrip_head [OF h] Cons by simp
    ultimately show ?thesis using Cons by simp
  qed simp
  then show ?thesis by (simp add: strip_def rstrip_idem)
qed

lemma split_ws_no_space: "w \<in> set (split_ws s) \<Longrightarrow> c \<in> set w \<Longrightarrow> \<not> is_space c"
proof (induction s rule: split_ws.induct)
  case (1 s)
  show ?case
  proof (cases "dropWhile is_space s")
    case Nil
    then have "split_ws s = []" by (subst split_ws.simps) (simp only: list.case)
    with 1 show ?thesis by simp
  next
    case (Cons a cs)
    then have a: "\<not> is_space a" by (metis hd_dropWhile list.discI list.sel(1))
    have "split_ws s = (a # takeWhile (\<lambda>x. \<not> is_space x) cs)
        # split_ws (dropWhile (\<lambda>x. \<not> is_space x) cs)"
      using Cons by (simp add: split_ws.simps [of s])
    then consider "w = a # takeWhile (\<lambda>x. \<not> is_space x) cs"
      | "w \<in> set (split_ws (dropWhile (\<lambda>x. \<not> is_space x) cs))"
      using "1.prems"(1) by auto
    then show ?thesis
    proof cases
      case 1
      with a "1.prems"(2) show ?thesis by (auto dest: set_takeWhileD)
    next
      case 2
      then show ?thesis using "1.IH" [OF Cons] "1.prems"(2) by blast
    qed
  qed
qed

lemma set_join_text: "set (join_text sep xs) \<subseteq> set sep \<union> \<Union> (set ` set xs)"
  by (induction sep xs rule: join_text.induct) auto

lemma split_ws_Nil [simp]: "split_ws [] = []"
  by (simp add: split_ws.simps)

lemma join_text_split: "x \<in> set xs \<Longrightarrow> \<exists>a b. join_text sep xs = a @ x @ b"
proof (induction sep xs rule: join_text.induct)
  case (3 sep y z zs)
  show ?case
  proof (cases "x = y")
    case True
    then show ?thesis by (intro exI [of _ "[]"] exI [of _ "sep @ join_text sep (z # zs)"]) simp
  next
    case False
    then obtain a b where "join_text sep (z # zs) = a @ x @ b" using 3 by auto
    then show ?thesis by (intro exI [of _ "y @ sep @ a"] exI [of _ b]) simp
  qed
qed (auto intro: exI [of _ "[]"])

lemma occurs_join: "x \<in> set xs \<Longrightarrow> occurs x (join_text sep xs)"
  using join_text_split [of x xs sep] occurs_append by metis

section \<open>Decimals are injective\<close>

lemma nat_text_small: "n < 10 \<Longrightarrow> nat_text n = [48 + n]"
  by (simp add: nat_text.simps)

lemma nat_text_big: "\<not> n < 10 \<Longrightarrow> nat_text n = nat_text (n div 10) @ [48 + n mod 10]"
  by (subst nat_text.simps) simp

lemma nat_text_nonempty [simp]: "nat_text n \<noteq> []"
  by (subst nat_text.simps) simp

lemma nat_text_not_Nil [simp]: "[] \<noteq> nat_text n"
  using nat_text_nonempty [of n] by metis

lemma nat_text_inj: "nat_text m = nat_text n \<Longrightarrow> m = n"
proof (induction m arbitrary: n rule: less_induct)
  case (less m)
  consider "m < 10" "n < 10" | "m < 10" "\<not> n < 10" | "\<not> m < 10" "n < 10" | "\<not> m < 10" "\<not> n < 10"
    by blast
  then show ?case
  proof cases
    case 4
    then have eq: "nat_text (m div 10) = nat_text (n div 10)" "m mod 10 = n mod 10"
      using less.prems by (simp_all add: nat_text_big)
    have "m div 10 = n div 10" using less.IH [OF _ eq(1)] 4 by simp
    with eq(2) show ?thesis by (metis div_mult_mod_eq)
  qed (use less.prems in \<open>simp_all add: nat_text_small nat_text_big\<close>)
qed

lemma nat_text_digit: "c \<in> set (nat_text n) \<Longrightarrow> 48 \<le> c"
proof (induction n rule: nat_text.induct)
  case (1 n)
  then show ?case by (cases "n < 10") (auto simp: nat_text_small nat_text_big)
qed

lemma int_text_inj: "int_text i = int_text j \<Longrightarrow> i = j"
proof -
  have "nat_text a \<noteq> 45 # t" for a t
    using nat_text_digit [of 45 a] by auto
  then show "int_text i = int_text j \<Longrightarrow> i = j"
    using nat_text_inj [of "nat (- i)" "nat (- j)"] nat_text_inj [of "nat i" "nat j"]
    by (auto simp: int_text_def split: if_splits dest: sym)
qed

end
