(* ===== verification/Py_Json.thy ===== *)
theory Py_Json
  imports Py_Text Prelude
begin

text \<open>
  JSON values as the Python code sees them after \<^verbatim>\<open>json.loads\<close>, with the built-in functions
  the sources apply to values of unknown type: truth value, equality, \<^verbatim>\<open>str\<close>, \<^verbatim>\<open>int\<close>,
  membership in a set of strings. A dictionary is the list of its items, with distinct keys.

  Parsing is Python's own library and enters as the record \<^verbatim>\<open>py\<close>: the parser of JSON text,
  \<^verbatim>\<open>int\<close> on a string, and \<^verbatim>\<open>repr\<close> of floats, lists and dictionaries.
\<close>

section \<open>Values\<close>

datatype json =
  JNull
| JBool bool
| JInt int
| JFloat rat
| JStr pytext
| JList "json list"
| JObj "(pytext \<times> json) list"

type_synonym fields = "(pytext \<times> json) list"

record py =
  py_loads :: "pytext \<Rightarrow> json option"
  py_int_text :: "pytext \<Rightarrow> int option"
  py_repr :: "json \<Rightarrow> pytext"

text \<open>The value of \<^verbatim>\<open>d.get(key)\<close>, where a missing key gives \<^verbatim>\<open>None\<close>.\<close>

definition jget :: "fields \<Rightarrow> pytext \<Rightarrow> json" where
  "jget d k = (case map_of d k of None \<Rightarrow> JNull | Some v \<Rightarrow> v)"

definition keys :: "fields \<Rightarrow> pytext set" where
  "keys d = fst ` set d"

fun truthy :: "json \<Rightarrow> bool" where
  "truthy JNull = False"
| "truthy (JBool b) = b"
| "truthy (JInt i) = (i \<noteq> 0)"
| "truthy (JFloat r) = (r \<noteq> 0)"
| "truthy (JStr s) = (s \<noteq> [])"
| "truthy (JList xs) = (xs \<noteq> [])"
| "truthy (JObj d) = (d \<noteq> [])"

fun numeric :: "json \<Rightarrow> rat option" where
  "numeric (JBool b) = Some (of_bool b)"
| "numeric (JInt i) = Some (of_int i)"
| "numeric (JFloat r) = Some r"
| "numeric _ = None"

text \<open>Python's \<^verbatim>\<open>==\<close>: numbers by value, lists in order, dictionaries by key.\<close>

fun py_eq :: "json \<Rightarrow> json \<Rightarrow> bool" and py_eq_list :: "json list \<Rightarrow> json list \<Rightarrow> bool"
  and py_eq_fields :: "fields \<Rightarrow> fields \<Rightarrow> bool" where
  "py_eq JNull w = (w = JNull)"
| "py_eq (JStr s) w = (w = JStr s)"
| "py_eq (JBool b) w = (numeric w = Some (of_bool b))"
| "py_eq (JInt i) w = (numeric w = Some (of_int i))"
| "py_eq (JFloat r) w = (numeric w = Some r)"
| "py_eq (JList xs) w = (case w of JList ys \<Rightarrow> py_eq_list xs ys | _ \<Rightarrow> False)"
| "py_eq (JObj d) w = (case w of JObj e \<Rightarrow> length d = length e \<and> py_eq_fields d e | _ \<Rightarrow> False)"
| "py_eq_list [] ys = (ys = [])"
| "py_eq_list (x # xs) ys = (case ys of [] \<Rightarrow> False | y # zs \<Rightarrow> py_eq x y \<and> py_eq_list xs zs)"
| "py_eq_fields [] e = True"
| "py_eq_fields ((k, v) # d) e =
     ((case map_of e k of None \<Rightarrow> False | Some w \<Rightarrow> py_eq v w) \<and> py_eq_fields d e)"

text \<open>Membership of a value in a set of strings hashes the value; lists and dictionaries raise.\<close>

fun hashable :: "json \<Rightarrow> bool" where
  "hashable (JList xs) = False"
| "hashable (JObj d) = False"
| "hashable _ = True"

definition in_texts :: "json \<Rightarrow> pytext list \<Rightarrow> bool" where
  "in_texts v ts = (case v of JStr s \<Rightarrow> s \<in> set ts | _ \<Rightarrow> False)"

section \<open>Conversions\<close>

text \<open>Truncation toward zero, as \<^verbatim>\<open>int\<close> of a float.\<close>

definition trunc :: "rat \<Rightarrow> int" where
  "trunc r = (if 0 \<le> r then floor r else - floor (- r))"

definition py_int :: "py \<Rightarrow> json \<Rightarrow> int option" where
  "py_int p v =
     (case v of JInt i \<Rightarrow> Some i | JBool b \<Rightarrow> Some (of_bool b) | JFloat r \<Rightarrow> Some (trunc r)
      | JStr s \<Rightarrow> py_int_text p s | _ \<Rightarrow> None)"

definition py_str :: "py \<Rightarrow> json \<Rightarrow> pytext" where
  "py_str p v =
     (case v of JStr s \<Rightarrow> s | JNull \<Rightarrow> lit ''None'' | JInt i \<Rightarrow> int_text i
      | JBool b \<Rightarrow> (if b then lit ''True'' else lit ''False'') | _ \<Rightarrow> py_repr p v)"

text \<open>\<^verbatim>\<open>str(v or "")\<close>\<close>

definition str_or_empty :: "py \<Rightarrow> json \<Rightarrow> pytext" where
  "str_or_empty p v = (if truthy v then py_str p v else [])"

text \<open>The module helper \<^verbatim>\<open>_json_object\<close>: a dictionary, or JSON text of one, or nothing.\<close>

definition json_object :: "py \<Rightarrow> json \<Rightarrow> fields" where
  "json_object p v =
     (case v of
        JObj d \<Rightarrow> d
      | JStr s \<Rightarrow> (case py_loads p s of Some (JObj d) \<Rightarrow> d | _ \<Rightarrow> [])
      | _ \<Rightarrow> [])"

text \<open>The keys of a dictionary are distinct, at every depth; then equality is reflexive.\<close>

fun well_keyed :: "json \<Rightarrow> bool" and well_keyed_all :: "json list \<Rightarrow> bool"
  and well_keyed_fields :: "fields \<Rightarrow> bool" where
  "well_keyed (JList xs) = well_keyed_all xs"
| "well_keyed (JObj d) = (distinct (map fst d) \<and> well_keyed_fields d)"
| "well_keyed _ = True"
| "well_keyed_all [] = True"
| "well_keyed_all (x # xs) = (well_keyed x \<and> well_keyed_all xs)"
| "well_keyed_fields [] = True"
| "well_keyed_fields ((k, v) # d) = (well_keyed v \<and> well_keyed_fields d)"

lemma py_eq_fields_iff:
  "py_eq_fields d e \<longleftrightarrow> (\<forall>(k, v) \<in> set d. \<exists>w. map_of e k = Some w \<and> py_eq v w)"
  by (induction d) (auto split: option.splits)

lemma py_eq_refl:
  "well_keyed v \<Longrightarrow> py_eq v v"
  "well_keyed_all xs \<Longrightarrow> py_eq_list xs xs"
  "well_keyed_fields d \<Longrightarrow> (\<forall>(k, v) \<in> set d. py_eq v v)"
proof (induction v and xs and d rule: well_keyed_well_keyed_all_well_keyed_fields.induct)
  case (2 d)
  then have "py_eq_fields d d" by (fastforce simp: py_eq_fields_iff)
  then show ?case by simp
qed simp_all

section \<open>UUID text\<close>

definition hex_digit :: "nat \<Rightarrow> nat" where
  "hex_digit n = (if n < 10 then 48 + n else 87 + n)"

fun hex_text :: "nat \<Rightarrow> nat \<Rightarrow> pytext" where
  "hex_text 0 n = []"
| "hex_text (Suc k) n = hex_text k (n div 16) @ [hex_digit (n mod 16)]"

definition uuid_text :: "uuid \<Rightarrow> pytext" where
  "uuid_text u =
     hex_text 8 (u div 16 ^ 24) @ [45] @ hex_text 4 (u div 16 ^ 20) @ [45] @
     hex_text 4 (u div 16 ^ 16) @ [45] @ hex_text 4 (u div 16 ^ 12) @ [45] @ hex_text 12 u"

section \<open>Facts\<close>

lemma jget_Cons [simp]: "jget ((k, v) # d) k' = (if k = k' then v else jget d k')"
  by (simp add: jget_def)

lemma jget_Nil [simp]: "jget [] k = JNull"
  by (simp add: jget_def)

lemma keys_simps [simp]: "keys [] = {}" "keys ((k, v) # d) = insert k (keys d)"
  by (simp_all add: keys_def)

lemma json_object_JObj [simp]: "json_object p (JObj d) = d"
  by (simp add: json_object_def)

lemma py_str_JStr [simp]: "py_str p (JStr s) = s"
  by (simp add: py_str_def)

lemma str_or_empty_JStr [simp]: "str_or_empty p (JStr s) = s"
  by (simp add: str_or_empty_def)

lemma py_int_JInt [simp]: "py_int p (JInt i) = Some i"
  by (simp add: py_int_def)

lemma length_hex_text [simp]: "length (hex_text k n) = k"
  by (induction k arbitrary: n) simp_all

lemma length_uuid_text [simp]: "length (uuid_text u) = 36"
  by (simp add: uuid_text_def)

lemma uuid_text_nonempty [simp]: "uuid_text u \<noteq> []"
  using length_uuid_text [of u] by force

text \<open>Hexadecimal text determines the number it has room for.\<close>

lemma hex_digit_inj: "hex_digit m = hex_digit n \<Longrightarrow> m < 16 \<Longrightarrow> n < 16 \<Longrightarrow> m = n"
  by (auto simp: hex_digit_def split: if_splits)

lemma hex_text_inj: "hex_text k m = hex_text k n \<Longrightarrow> m mod 16 ^ k = n mod 16 ^ k"
proof (induction k arbitrary: m n)
  case (Suc k)
  from Suc.prems have "hex_text k (m div 16) = hex_text k (n div 16)"
    and d: "hex_digit (m mod 16) = hex_digit (n mod 16)"
    by simp_all
  then have "m div 16 mod 16 ^ k = n div 16 mod 16 ^ k" by (intro Suc.IH)
  moreover have "m mod 16 = n mod 16"
    using hex_digit_inj [OF d] by simp
  ultimately show ?case by (simp only: power_Suc mod_mult2_eq)
qed simp

lemma uuid_text_inj:
  assumes "uuid_text u = uuid_text v" "u < 2 ^ 128" "v < 2 ^ 128"
  shows "u = v"
proof -
  have eqs: "hex_text 8 (u div 16 ^ 24) = hex_text 8 (v div 16 ^ 24)"
    "hex_text 4 (u div 16 ^ 20) = hex_text 4 (v div 16 ^ 20)"
    "hex_text 4 (u div 16 ^ 16) = hex_text 4 (v div 16 ^ 16)"
    "hex_text 4 (u div 16 ^ 12) = hex_text 4 (v div 16 ^ 12)"
    "hex_text 12 u = hex_text 12 v"
    using assms(1) by (simp_all add: uuid_text_def)
  have parts: "x mod 16 ^ (a + b) = x div 16 ^ a mod 16 ^ b * 16 ^ a + x mod 16 ^ a" for x a b :: nat
    using mod_mult2_eq [of x "16 ^ a" "16 ^ b"] by (simp only: power_add mult.commute)
  have m12: "u mod 16 ^ 12 = v mod 16 ^ 12" using hex_text_inj [OF eqs(5)] .
  have m16: "u mod 16 ^ (12 + 4) = v mod 16 ^ (12 + 4)"
    unfolding parts using hex_text_inj [OF eqs(4)] m12 by simp
  have m20: "u mod 16 ^ (16 + 4) = v mod 16 ^ (16 + 4)"
    unfolding parts using hex_text_inj [OF eqs(3)] m16 by simp
  have m24: "u mod 16 ^ (20 + 4) = v mod 16 ^ (20 + 4)"
    unfolding parts using hex_text_inj [OF eqs(2)] m20 by simp
  have "u mod 16 ^ (24 + 8) = v mod 16 ^ (24 + 8)"
    unfolding parts using hex_text_inj [OF eqs(1)] m24 by simp
  moreover have "x mod 16 ^ 32 = x" if "x < 2 ^ 128" for x :: nat
    using that by simp
  ultimately show ?thesis using assms(2,3) by simp
qed

end
