(* ===== verification/Session_World.thy ===== *)
theory Session_World
  imports Run_Queue_Steps Py_Json
begin

text \<open>
  The tables a chat session shares between the orchestrator and its runtime: threads, agents,
  the two request inboxes and the event journal, beside the run queue. Every statement of the
  session components is a function on this record.
\<close>

section \<open>Tables\<close>

record thread =
  th_id :: uuid
  th_user :: "uuid option"
  th_agent :: "uuid option"
  th_status :: string
  th_lane :: string
  th_control_hwm :: int
  th_admission_agent :: "uuid option"
  th_generation :: uuid
  th_retirement :: "uuid option"
  th_attach :: "uuid option"
  th_epoch :: int \<comment> \<open>events_epoch\<close>
  th_events_hwm :: int
  th_mode :: pytext \<comment> \<open>permission_mode\<close>
  th_narration :: "pytext option"
  th_metadata :: json

record agent =
  ag_id :: uuid
  ag_thread :: "uuid option"

datatype outcome = Applied | Rejected

record control_request =
  cr_id :: uuid
  cr_thread :: uuid
  cr_seq :: int
  cr_client :: uuid
  cr_verb :: pytext
  cr_payload :: json
  cr_agent :: "uuid option" \<comment> \<open>accepted_agent_id\<close>
  cr_generation :: "uuid option"
  cr_outcome :: "outcome option"
  cr_result :: "(pytext \<times> fields) option" \<comment> \<open>event and params\<close>
  cr_applied_at :: "secs option"
  cr_applied_token :: "int option"
  cr_applied_agent :: "uuid option"
  cr_journal :: "(int \<times> int) option" \<comment> \<open>journal_epoch and journal_seq\<close>
  cr_error :: "pytext option"

record interrupt_request =
  ir_id :: uuid
  ir_thread :: uuid
  ir_client :: uuid
  ir_turn :: int
  ir_token :: int \<comment> \<open>accepted_lease_token\<close>
  ir_leased_by :: pytext
  ir_requested_at :: secs
  ir_outcome :: "outcome option"
  ir_result :: fields
  ir_mode :: "pytext option"
  ir_applied_at :: "secs option"
  ir_applied_token :: "int option"
  ir_journal :: "(int \<times> int) option"
  ir_error :: "pytext option"

record event =
  ev_thread :: uuid
  ev_epoch :: int
  ev_seq :: int
  ev_kind :: pytext
  ev_payload :: json
  ev_control :: "uuid option"
  ev_interrupt :: "uuid option"
  ev_permission :: "uuid option"

record permission_request =
  pr_id :: uuid
  pr_thread :: uuid
  pr_tool_call :: pytext
  pr_status :: string
  pr_requested_at :: secs
  pr_decided_at :: "secs option"
  pr_decided_by :: "pytext option"
  pr_token :: "int option" \<comment> \<open>accepted_lease_token\<close>

record world =
  rq :: db
  threads :: "thread list"
  agents :: "agent list"
  controls :: "control_request list"
  interrupts :: "interrupt_request list"
  permissions :: "permission_request list"
  events :: "event list"

datatype exn = Exn_Value | Exn_Type | Exn_Runtime | Exn_Unique

section \<open>Access\<close>

definition thread_of :: "world \<Rightarrow> uuid \<Rightarrow> thread option" where
  "thread_of w t = find_by th_id t (threads w)"

definition control_of :: "world \<Rightarrow> uuid \<Rightarrow> control_request option" where
  "control_of w i = find_by cr_id i (controls w)"

definition interrupt_of :: "world \<Rightarrow> uuid \<Rightarrow> interrupt_request option" where
  "interrupt_of w i = find_by ir_id i (interrupts w)"

definition put_thread :: "thread \<Rightarrow> world \<Rightarrow> world" where
  "put_thread t w = w\<lparr>threads := put_by th_id t (threads w)\<rparr>"

definition put_control :: "control_request \<Rightarrow> world \<Rightarrow> world" where
  "put_control r w = w\<lparr>controls := put_by cr_id r (controls w)\<rparr>"

definition put_queue :: "row \<Rightarrow> world \<Rightarrow> world" where
  "put_queue r w = w\<lparr>rq := store (rq w) r\<rparr>"

text \<open>Does a reciprocal agent row exist: \<^verbatim>\<open>agents.id = a AND agents.thread_id = t\<close>.\<close>

definition reciprocal :: "world \<Rightarrow> uuid \<Rightarrow> uuid \<Rightarrow> bool" where
  "reciprocal w a t \<longleftrightarrow> (\<exists>x \<in> set (agents w). ag_id x = a \<and> ag_thread x = Some t)"

definition LANE_PINNED :: string where "LANE_PINNED = ''pinned''"
definition LANE_STATELESS :: string where "LANE_STATELESS = ''stateless''"

lemma lanes_differ [simp]: "LANE_PINNED \<noteq> LANE_STATELESS" "LANE_STATELESS \<noteq> LANE_PINNED"
  by (simp_all add: LANE_PINNED_def LANE_STATELESS_def)

section \<open>Owner fences\<close>

text \<open>The live lease of a unit: the queue half of every stateless fence.\<close>

definition live_lease :: "uuid \<Rightarrow> int \<Rightarrow> db \<Rightarrow> bool" where
  "live_lease t tok d =
     (case row_of d t of None \<Rightarrow> False
      | Some q \<Rightarrow> unit_kind q = UNIT_KIND_SESSION_TURN \<and> held tok q)"

definition stateless_fence :: "world \<Rightarrow> uuid \<Rightarrow> int \<Rightarrow> bool" where
  "stateless_fence w t tok =
     (case thread_of w t of None \<Rightarrow> False
      | Some th \<Rightarrow> th_lane th = LANE_STATELESS \<and> live_lease t tok (rq w))"

definition pinned_fence :: "world \<Rightarrow> uuid \<Rightarrow> uuid \<Rightarrow> uuid \<Rightarrow> uuid option \<Rightarrow> bool" where
  "pinned_fence w t a gen attach =
     (case thread_of w t of None \<Rightarrow> False
      | Some th \<Rightarrow>
          th_lane th = LANE_PINNED \<and> th_agent th = Some a \<and> th_generation th = gen \<and>
          th_attach th = attach \<and> th_retirement th = None \<and> reciprocal w a t)"

text \<open>The credential arguments of the inbox functions.\<close>

record credential =
  cred_lease :: "int option"
  cred_agent :: "uuid option"
  cred_generation :: "uuid option"
  cred_attach :: "uuid option"

definition by_lease :: "int \<Rightarrow> credential" where
  "by_lease tok = \<lparr>cred_lease = Some tok, cred_agent = None, cred_generation = None, cred_attach = None\<rparr>"

definition one_owner :: "credential \<Rightarrow> bool" where
  "one_owner c \<longleftrightarrow> (cred_lease c = None) \<noteq> (cred_agent c = None)"

definition owner_fence_current :: "world \<Rightarrow> uuid \<Rightarrow> credential \<Rightarrow> exn + bool" where
  "owner_fence_current w t c =
     (if \<not> one_owner c then Inl Exn_Value
      else case cred_lease c of
        Some tok \<Rightarrow> Inr (stateless_fence w t tok)
      | None \<Rightarrow>
          (case cred_generation c of None \<Rightarrow> Inr False
           | Some gen \<Rightarrow> Inr (pinned_fence w t (the (cred_agent c)) gen (cred_attach c))))"

section \<open>The journal\<close>

text \<open>The unique indexes of \<^verbatim>\<open>thread_events\<close>.\<close>

definition event_conflict :: "world \<Rightarrow> event \<Rightarrow> bool" where
  "event_conflict w e \<longleftrightarrow>
     (\<exists>x \<in> set (events w).
        (ev_thread x = ev_thread e \<and> ev_epoch x = ev_epoch e \<and> ev_seq x = ev_seq e) \<or>
        (ev_control e \<noteq> None \<and> ev_control x = ev_control e) \<or>
        (ev_interrupt e \<noteq> None \<and> ev_interrupt x = ev_interrupt e) \<or>
        (ev_permission e \<noteq> None \<and> ev_permission x = ev_permission e))"

text \<open>The guarded INSERT of the runtime's ordered event writer.\<close>

definition insert_event :: "int \<Rightarrow> event \<Rightarrow> world \<Rightarrow> exn + int \<times> world" where
  "insert_event epoch e w =
     (case thread_of w (ev_thread e) of None \<Rightarrow> Inr (0, w)
      | Some th \<Rightarrow>
          if th_epoch th \<noteq> epoch \<or> ev_epoch e \<noteq> epoch then Inr (0, w)
          else if event_conflict w e then Inl Exn_Unique
          else Inr (1, put_thread (th\<lparr>th_events_hwm := max (th_events_hwm th) (ev_seq e)\<rparr>)
                         (w\<lparr>events := events w @ [e]\<rparr>)))"

text \<open>The system writer of \<^verbatim>\<open>src/shared/event_journal\<close>: no runtime holds the epoch.\<close>

definition append_system_frame ::
  "uuid \<Rightarrow> pytext \<Rightarrow> fields \<Rightarrow> uuid option \<Rightarrow> uuid option \<Rightarrow> world \<Rightarrow> exn + (int \<times> int) option \<times> world" where
  "append_system_frame t kind payload interrupt perm w =
     (case thread_of w t of None \<Rightarrow> Inr (None, w)
      | Some th \<Rightarrow>
          let sq = th_events_hwm th + 1;
              e = \<lparr>ev_thread = t, ev_epoch = th_epoch th, ev_seq = sq, ev_kind = kind,
                   ev_payload = JObj payload, ev_control = None, ev_interrupt = interrupt,
                   ev_permission = perm\<rparr>
          in if event_conflict w e then Inl Exn_Unique
             else Inr (Some (th_epoch th, sq),
                       put_thread (th\<lparr>th_events_hwm := sq\<rparr>) (w\<lparr>events := events w @ [e]\<rparr>)))"

definition bump_epoch :: "uuid \<Rightarrow> world \<Rightarrow> int option \<times> world" where
  "bump_epoch t w =
     (case thread_of w t of None \<Rightarrow> (None, w)
      | Some th \<Rightarrow>
          (Some (th_epoch th + 1),
           put_thread (th\<lparr>th_epoch := th_epoch th + 1, th_events_hwm := 0\<rparr>) w))"

section \<open>Facts\<close>

lemma lit_inj [simp]: "lit a = lit b \<longleftrightarrow> a = b"
proof
  show "lit a = lit b \<Longrightarrow> a = b"
    unfolding lit_def by (rule map_injective [OF _ inj_of_char])
qed simp

lemma thread_of_put_thread:
  "thread_of (put_thread t w) u =
     (if u = th_id t then (if thread_of w u = None then None else Some t) else thread_of w u)"
  by (auto simp: thread_of_def put_thread_def table_simps find_by_None)

lemma control_of_put_control:
  "control_of (put_control r w) i =
     (if i = cr_id r then (if control_of w i = None then None else Some r) else control_of w i)"
  by (auto simp: control_of_def put_control_def table_simps find_by_None)

lemma put_fields [simp]:
  "rq (put_thread t w) = rq w" "controls (put_thread t w) = controls w"
  "agents (put_thread t w) = agents w" "events (put_thread t w) = events w"
  "interrupts (put_thread t w) = interrupts w"
  "rq (put_control r w) = rq w" "threads (put_control r w) = threads w"
  "agents (put_control r w) = agents w" "events (put_control r w) = events w"
  "interrupts (put_control r w) = interrupts w"
  "threads (put_queue q w) = threads w" "controls (put_queue q w) = controls w"
  "agents (put_queue q w) = agents w" "events (put_queue q w) = events w"
  "interrupts (put_queue q w) = interrupts w" "rq (put_queue q w) = store (rq w) q"
  by (simp_all add: put_thread_def put_control_def put_queue_def)

lemma thread_of_cong: "threads w = threads w' \<Longrightarrow> thread_of w t = thread_of w' t"
  by (simp add: thread_of_def)

lemma thread_of_puts [simp]:
  "thread_of (put_control r w) t = thread_of w t" "thread_of (put_queue q w) t = thread_of w t"
  by (simp_all add: thread_of_def)

lemma control_of_puts [simp]:
  "control_of (put_thread t w) i = control_of w i" "control_of (put_queue q w) i = control_of w i"
  by (simp_all add: control_of_def)

lemma thread_of_id: "thread_of w t = Some th \<Longrightarrow> th_id th = t"
  by (auto simp: thread_of_def)

lemma control_of_id: "control_of w i = Some r \<Longrightarrow> cr_id r = i"
  by (auto simp: control_of_def)

lemma control_of_in: "control_of w i = Some r \<Longrightarrow> r \<in> set (controls w)"
  by (auto simp: control_of_def dest: find_by_Some_set)

lemma live_lease_dead: "token_dead d t tok \<Longrightarrow> \<not> live_lease t tok d"
  using token_dead_not_held by (fastforce simp: live_lease_def split: option.splits)

lemma live_lease_fence: "live_lease t tok d \<Longrightarrow> fence_lease t tok d"
  by (auto simp: live_lease_def fence_lease_def split: option.splits)

end
