(* ===== verification/Thread_Controls.thy ===== *)
theory Thread_Controls
  imports Session_World
begin

text \<open>
  The consuming side of the session control inbox, \<^verbatim>\<open>src/shared/thread_controls/queries.py\<close>:
  owner-fenced reads, validation of journal receipts and terminalization of requests; and the
  owner's half in \<^verbatim>\<open>src/agent/api/persistent_app.py\<close>: the fenced journal write of a receipt and
  the drain loop. A transaction that raises or refuses leaves the world unchanged.
\<close>

section \<open>Reads\<close>

definition is_pending :: "uuid \<Rightarrow> control_request \<Rightarrow> bool" where
  "is_pending t r \<longleftrightarrow> cr_thread r = t \<and> cr_outcome r = None"

definition oldest_pending :: "uuid \<Rightarrow> (control_request \<Rightarrow> bool) \<Rightarrow> world \<Rightarrow> control_request option" where
  "oldest_pending t P w = first_min cr_seq (filter (\<lambda>r. is_pending t r \<and> P r) (controls w))"

definition has_receipt :: "world \<Rightarrow> control_request \<Rightarrow> bool" where
  "has_receipt w r \<longleftrightarrow> (\<exists>e \<in> set (events w). ev_thread e = cr_thread r \<and> ev_control e = Some (cr_id r))"

definition next_stateless :: "world \<Rightarrow> uuid \<Rightarrow> int \<Rightarrow> control_request option" where
  "next_stateless w t tok =
     (if stateless_fence w t tok then oldest_pending t (\<lambda>r. cr_agent r = None) w else None)"

definition next_pinned ::
  "world \<Rightarrow> uuid \<Rightarrow> uuid \<Rightarrow> uuid \<Rightarrow> uuid option \<Rightarrow> control_request option" where
  "next_pinned w t a gen attach =
     (case oldest_pending t (\<lambda>_. True) w of None \<Rightarrow> None
      | Some r \<Rightarrow>
          if (cr_agent r = Some a \<or> has_receipt w r) \<and> pinned_fence w t a gen attach \<and>
             cr_generation r = Some gen
          then Some r else None)"

definition fetch_next_control_request ::
  "world \<Rightarrow> uuid \<Rightarrow> credential \<Rightarrow> exn + control_request option" where
  "fetch_next_control_request w t c =
     (if \<not> one_owner c then Inl Exn_Value
      else case cred_lease c of
        Some tok \<Rightarrow> Inr (next_stateless w t tok)
      | None \<Rightarrow>
          (case cred_generation c of None \<Rightarrow> Inr None
           | Some gen \<Rightarrow> Inr (next_pinned w t (the (cred_agent c)) gen (cred_attach c))))"

definition adopt_next_pinned ::
  "world \<Rightarrow> uuid \<Rightarrow> uuid \<Rightarrow> uuid \<Rightarrow> uuid option \<Rightarrow> bool \<times> world" where
  "adopt_next_pinned w t a gen attach =
     (case oldest_pending t (\<lambda>r. cr_generation r = Some gen) w of None \<Rightarrow> (False, w)
      | Some r \<Rightarrow>
          if cr_agent r \<noteq> Some a \<and> \<not> has_receipt w r \<and> pinned_fence w t a gen attach
          then (True, put_control (r\<lparr>cr_agent := Some a\<rparr>) w) else (False, w))"

definition fetch_control_receipt :: "world \<Rightarrow> uuid \<Rightarrow> uuid \<Rightarrow> event option" where
  "fetch_control_receipt w t i = find (\<lambda>e. ev_thread e = t \<and> ev_control e = Some i) (events w)"

section \<open>Validation of a receipt\<close>

datatype column = Permission_Mode | Narration_Mode

definition PERMISSION_MODES :: "pytext list" where
  "PERMISSION_MODES = map lit [''read_only'', ''auto_accept'', ''autonomous'']"

definition NARRATION_MODES :: "pytext list" where
  "NARRATION_MODES = map lit [''silent'', ''verbose'', ''auto'']"

definition normalize_permission_mode :: "json \<Rightarrow> json" where
  "normalize_permission_mode v =
     (case v of JStr s \<Rightarrow> JStr (if s = lit ''supervised'' then lit ''read_only'' else s) | _ \<Rightarrow> v)"

text \<open>The four fields of a receipt that tie it to its request.\<close>

definition envelope_matches ::
  "py \<Rightarrow> uuid \<Rightarrow> uuid \<Rightarrow> int \<Rightarrow> pytext \<Rightarrow> fields \<Rightarrow> int \<Rightarrow> bool" where
  "envelope_matches p i client sq verb ev n \<longleftrightarrow>
     str_or_empty p (jget ev (lit ''request_id'')) = uuid_text i \<and>
     str_or_empty p (jget ev (lit ''client_request_id'')) = uuid_text client \<and>
     n = sq \<and> str_or_empty p (jget ev (lit ''method'')) = verb"

definition scalar_verb :: "pytext \<Rightarrow> (pytext \<times> column \<times> pytext list \<times> (json \<Rightarrow> json)) option" where
  "scalar_verb verb =
     (if verb = lit ''mode.set''
      then Some (lit ''mode.changed'', Permission_Mode, PERMISSION_MODES, normalize_permission_mode)
      else if verb = lit ''narration.set''
      then Some (lit ''narration.changed'', Narration_Mode, NARRATION_MODES, \<lambda>v. v)
      else None)"

definition applied_control_scalar ::
  "py \<Rightarrow> uuid \<Rightarrow> uuid \<Rightarrow> int \<Rightarrow> pytext \<Rightarrow> json \<Rightarrow> pytext \<Rightarrow> json \<Rightarrow> exn + (column \<times> pytext) option" where
  "applied_control_scalar p i client sq verb request_payload kind event_payload =
     (let ev = json_object p event_payload in
      case scalar_verb verb of None \<Rightarrow> Inr None
      | Some (expected, column, allowed, canon) \<Rightarrow>
          let requested = canon (jget (json_object p request_payload) (lit ''mode''));
              applied = canon (jget ev (lit ''mode''))
          in case py_int p (jget ev (lit ''request_seq'')) of None \<Rightarrow> Inr None
             | Some n \<Rightarrow>
                 if kind \<noteq> expected \<or> \<not> envelope_matches p i client sq verb ev n then Inr None
                 else if \<not> hashable requested then Inl Exn_Type
                 else if \<not> in_texts requested allowed \<or> \<not> py_eq applied requested then Inr None
                 else Inr (Some (column, py_str p requested)))"

definition git_oid :: "json \<Rightarrow> bool" where
  "git_oid v =
     (case v of JStr s \<Rightarrow> length s \<in> {40, 64} \<and> (\<forall>c \<in> set s. (48 \<le> c \<and> c \<le> 57) \<or> (97 \<le> c \<and> c \<le> 102))
      | _ \<Rightarrow> False)"

definition workspace_path :: "json \<Rightarrow> bool" where
  "workspace_path v =
     (case v of JStr s \<Rightarrow> s \<noteq> [] \<and> 0 \<notin> set s \<and> hd s \<noteq> 47 \<and> lit ''..'' \<notin> set (split_on 47 s)
      | _ \<Rightarrow> False)"

definition nonempty_text :: "json \<Rightarrow> bool" where
  "nonempty_text v = (case v of JStr s \<Rightarrow> s \<noteq> [] | _ \<Rightarrow> False)"

definition undo_receipt :: "pytext \<Rightarrow> fields \<Rightarrow> fields \<Rightarrow> bool" where
  "undo_receipt kind req ev \<longleftrightarrow>
     kind = lit ''files.restored'' \<and> req = [] \<and>
     (case jget ev (lit ''paths'') of JList ps \<Rightarrow> list_all workspace_path ps \<and> distinct ps | _ \<Rightarrow> False) \<and>
     git_oid (jget ev (lit ''restored_to_sha'')) \<and> git_oid (jget ev (lit ''restore_commit_sha''))"

definition compact_payload :: "fields \<Rightarrow> bool" where
  "compact_payload req \<longleftrightarrow>
     keys req \<subseteq> {lit ''focus'', lit ''boundary_message_id''} \<and> list_all (nonempty_text \<circ> snd) req"

definition compact_receipt :: "pytext \<Rightarrow> fields \<Rightarrow> fields \<Rightarrow> bool" where
  "compact_receipt kind req ev \<longleftrightarrow>
     kind = lit ''context.compacted'' \<and> compact_payload req \<and>
     jget ev (lit ''trigger'') = JStr (lit ''manual'') \<and>
     (jget ev (lit ''summary'') = JNull \<or> nonempty_text (jget ev (lit ''summary'')))"

definition WORKSPACE_UPGRADE_VERB :: pytext where
  "WORKSPACE_UPGRADE_VERB = lit ''upgrade-to-workspace''"

definition WORKSPACE_UPGRADE_PAYLOAD_KEYS :: "pytext set" where
  "WORKSPACE_UPGRADE_PAYLOAD_KEYS = lit ` {''target_tier'', ''template'', ''runtime_generation''}"

definition upgrade_started :: "pytext \<Rightarrow> fields \<Rightarrow> bool" where
  "upgrade_started kind req \<longleftrightarrow>
     keys req \<subseteq> WORKSPACE_UPGRADE_PAYLOAD_KEYS \<and>
     kind \<in> lit ` {''workspace_upgrade.started'', ''workspace_upgrade.complete''}"

type_synonym receipt_result = "outcome \<times> pytext option \<times> (column \<times> pytext) option"

definition rejection ::
  "pytext \<Rightarrow> pytext \<Rightarrow> bool \<Rightarrow> pytext \<Rightarrow> receipt_result option" where
  "rejection expected kind envelope code =
     (if envelope \<and> kind = expected \<and> code \<noteq> [] then Some (Rejected, Some code, None) else None)"

definition control_receipt_result ::
  "py \<Rightarrow> uuid \<Rightarrow> uuid \<Rightarrow> int \<Rightarrow> pytext \<Rightarrow> json \<Rightarrow> pytext \<Rightarrow> json \<Rightarrow> exn + receipt_result option" where
  "control_receipt_result p i client sq verb request_payload kind event_payload =
     bind_ok (applied_control_scalar p i client sq verb request_payload kind event_payload)
       (\<lambda>scalar. case scalar of Some s \<Rightarrow> Inr (Some (Applied, None, Some s))
        | None \<Rightarrow>
          let ev = json_object p event_payload; req = json_object p request_payload;
              code = str_or_empty p (jget ev (lit ''error_code''))
          in case py_int p (jget ev (lit ''request_seq'')) of None \<Rightarrow> Inr None
             | Some n \<Rightarrow>
               let envelope = envelope_matches p i client sq verb ev n;
                   refusal = rejection (lit ''control.rejected'') kind envelope code
               in if verb = lit ''workspace.undo'' \<and> envelope \<and> undo_receipt kind req ev
                  then Inr (Some (Applied, None, None))
                  else if verb = lit ''compact'' \<and> envelope \<and> compact_receipt kind req ev
                  then Inr (Some (Applied, None, None))
                  else if verb = WORKSPACE_UPGRADE_VERB \<and> envelope \<and> upgrade_started kind req \<and>
                          \<not> hashable (jget ev (lit ''target_tier''))
                  then Inl Exn_Type
                  else if verb = WORKSPACE_UPGRADE_VERB \<and> envelope \<and> upgrade_started kind req \<and>
                          in_texts (jget ev (lit ''target_tier'')) [lit ''sandbox'', lit ''vm'']
                  then Inr (Some (Applied, None, None))
                  else if verb = WORKSPACE_UPGRADE_VERB \<and>
                          rejection (lit ''workspace_upgrade.failed'') kind envelope code \<noteq> None
                  then Inr (rejection (lit ''workspace_upgrade.failed'') kind envelope code)
                  else Inr refusal)"

definition receipt_verdict :: "py \<Rightarrow> control_request \<Rightarrow> event \<Rightarrow> exn + receipt_result option" where
  "receipt_verdict p r e =
     control_receipt_result p (cr_id r) (cr_client r) (cr_seq r) (cr_verb r) (cr_payload r)
       (ev_kind e) (ev_payload e)"

section \<open>Terminalization\<close>

datatype final_status =
  Final outcome | Already_Terminal | Missing_Request | Missing_Receipt | Invalid_Receipt
| Lost_Owner | Watermark_Gap

text \<open>
  Who is recorded as the one that applied the request, or why the caller may not terminalize it:
  a lease owner must continue the watermark without a gap, a pinned owner must not pass an
  older pending request.
\<close>

definition final_authority ::
  "world \<Rightarrow> control_request \<Rightarrow> credential \<Rightarrow> exn + (final_status + int option \<times> uuid option)" where
  "final_authority w r c =
     (case cred_lease c of
        Some tok \<Rightarrow>
          if cr_agent r \<noteq> None then Inr (Inl Lost_Owner)
          else if \<not> stateless_fence w (cr_thread r) tok then Inr (Inl Lost_Owner)
          else (case row_of (rq w) (cr_thread r) of
              None \<Rightarrow> Inr (Inl Watermark_Gap)
            | Some q \<Rightarrow>
                if control_consumed_seq q \<noteq> cr_seq r - 1 then Inr (Inl Watermark_Gap)
                else Inr (Inr (Some tok, None)))
      | None \<Rightarrow>
          if cr_agent r = None \<or> cred_generation c = None \<or> cr_generation r \<noteq> cred_generation c
          then Inr (Inl Lost_Owner)
          else map_ok (\<lambda>fenced.
              if \<not> fenced then Inl Lost_Owner
              else if (\<exists>x \<in> set (controls w). is_pending (cr_thread r) x \<and> cr_seq x < cr_seq r)
              then Inl Watermark_Gap
              else Inr (None, cr_agent r))
            (owner_fence_current w (cr_thread r) c))"

definition terminal_control ::
  "secs \<Rightarrow> outcome \<Rightarrow> pytext option \<Rightarrow> fields \<Rightarrow> event \<Rightarrow> int option \<times> uuid option
   \<Rightarrow> control_request \<Rightarrow> control_request" where
  "terminal_control now out err params e auth r =
     r\<lparr>cr_outcome := Some out,
       cr_result := Some (ev_kind e, params),
       cr_applied_at := Some now,
       cr_applied_token := fst auth,
       cr_applied_agent := snd auth,
       cr_journal := Some (ev_epoch e, ev_seq e),
       cr_error := err\<rparr>"

fun publish :: "(column \<times> pytext) option \<Rightarrow> thread \<Rightarrow> thread" where
  "publish None th = th"
| "publish (Some (Permission_Mode, v)) th = th\<lparr>th_mode := v\<rparr>"
| "publish (Some (Narration_Mode, v)) th = th\<lparr>th_narration := Some v\<rparr>"

definition publish_scalar :: "uuid \<Rightarrow> (column \<times> pytext) option \<Rightarrow> world \<Rightarrow> world" where
  "publish_scalar t scalar w =
     (case thread_of w t of None \<Rightarrow> w | Some th \<Rightarrow> put_thread (publish scalar th) w)"

definition advance_control :: "uuid \<Rightarrow> int \<Rightarrow> world \<Rightarrow> world" where
  "advance_control t sq w =
     (case row_of (rq w) t of None \<Rightarrow> w
      | Some q \<Rightarrow> put_queue (q\<lparr>control_consumed_seq := sq\<rparr>) w)"

definition terminal_check :: "world \<Rightarrow> control_request \<Rightarrow> credential \<Rightarrow> exn + final_status" where
  "terminal_check w r c =
     (if (case cred_lease c of
            Some tok \<Rightarrow> cr_agent r \<noteq> None
          | None \<Rightarrow> cr_agent r = None \<or> cred_generation c = None \<or> cr_generation r \<noteq> cred_generation c)
      then Inr Lost_Owner
      else map_ok (\<lambda>fenced. if fenced then Already_Terminal else Lost_Owner)
             (owner_fence_current w (cr_thread r) c))"

definition finalize_control_request ::
  "py \<Rightarrow> secs \<Rightarrow> uuid \<Rightarrow> credential \<Rightarrow> outcome \<Rightarrow> pytext option \<Rightarrow> world \<Rightarrow> exn + final_status \<times> world" where
  "finalize_control_request p now i c out err w =
     (if \<not> one_owner c then Inl Exn_Value
      else case control_of w i of
        None \<Rightarrow> Inr (Missing_Request, w)
      | Some r \<Rightarrow>
          if cr_outcome r \<noteq> None then map_ok (\<lambda>st. (st, w)) (terminal_check w r c)
          else (case fetch_control_receipt w (cr_thread r) i of
              None \<Rightarrow> Inr (Missing_Receipt, w)
            | Some e \<Rightarrow>
                bind_ok (receipt_verdict p r e) (\<lambda>verdict.
                  case verdict of None \<Rightarrow> Inr (Invalid_Receipt, w)
                  | Some (out', err', scalar) \<Rightarrow>
                      if out' \<noteq> out \<or> (out = Rejected \<and> err' \<noteq> err) then Inr (Invalid_Receipt, w)
                      else map_ok (\<lambda>auth.
                          case auth of Inl st \<Rightarrow> (st, w)
                          | Inr who \<Rightarrow>
                              (Final out,
                               (if cred_lease c = None then id else advance_control (cr_thread r) (cr_seq r))
                                 (publish_scalar (cr_thread r) scalar
                                   (put_control
                                     (terminal_control now out err (json_object p (ev_payload e)) e who r) w))))
                        (final_authority w r c))))"

end
