(* ===== verification/Control_Drain.thy ===== *)
theory Control_Drain
  imports Thread_Controls
begin

text \<open>
  The owner's half of the control inbox in \<^verbatim>\<open>src/agent/api/persistent_app.py\<close>: the fenced
  journal write of a control receipt by the ordered event writer, and one turn of the drain loop
  of a lease owner. The effects of undo, compaction and workspace upgrade are a parameter:
  what the effect reports, or nothing when it must be retried.
\<close>

section \<open>The journal writer\<close>

record writer =
  wr_thread :: uuid
  wr_epoch :: int
  wr_cred :: credential

definition lockable_control :: "world \<Rightarrow> writer \<Rightarrow> uuid \<Rightarrow> bool" where
  "lockable_control w wr i =
     (case control_of w i of None \<Rightarrow> False
      | Some r \<Rightarrow>
          is_pending (wr_thread wr) r \<and> cr_agent r = cred_agent (wr_cred wr) \<and>
          (cred_agent (wr_cred wr) = None \<or>
           cred_generation (wr_cred wr) \<noteq> None \<and> cr_generation r = cred_generation (wr_cred wr)))"

definition control_writer_fence :: "world \<Rightarrow> writer \<Rightarrow> bool" where
  "control_writer_fence w wr =
     (case cred_lease (wr_cred wr) of
        Some tok \<Rightarrow>
          (case thread_of w (wr_thread wr) of None \<Rightarrow> False
           | Some th \<Rightarrow> th_lane th = LANE_STATELESS \<and> th_agent th = None \<and>
                       live_lease (wr_thread wr) tok (rq w))
      | None \<Rightarrow>
          (case (cred_agent (wr_cred wr), cred_generation (wr_cred wr)) of
             (Some a, Some gen) \<Rightarrow> pinned_fence w (wr_thread wr) a gen (cred_attach (wr_cred wr))
           | _ \<Rightarrow> False))"

definition write_control_receipt ::
  "writer \<Rightarrow> int \<Rightarrow> pytext \<Rightarrow> fields \<Rightarrow> uuid \<Rightarrow> world \<Rightarrow> exn + int \<times> world" where
  "write_control_receipt wr sq kind params i w =
     (if \<not> control_writer_fence w wr then Inr (0, w)
      else if \<not> lockable_control w wr i then Inr (0, w)
      else insert_event (wr_epoch wr)
             \<lparr>ev_thread = wr_thread wr, ev_epoch = wr_epoch wr, ev_seq = sq, ev_kind = kind,
              ev_payload = JObj params, ev_control = Some i, ev_interrupt = None,
              ev_permission = None\<rparr> w)"

section \<open>What a request asks for\<close>

definition is_permission_mode :: "pytext \<Rightarrow> bool" where
  "is_permission_mode s = in_texts (normalize_permission_mode (JStr s)) PERMISSION_MODES"

definition valid_upgrade_request :: "fields \<Rightarrow> bool" where
  "valid_upgrade_request req \<longleftrightarrow>
     keys req \<subseteq> WORKSPACE_UPGRADE_PAYLOAD_KEYS \<and>
     (case map_of req (lit ''target_tier'') of None \<Rightarrow> True
      | Some v \<Rightarrow> in_texts v [lit ''sandbox'', lit ''vm'']) \<and>
     (jget req (lit ''template'') = JNull \<or> nonempty_text (jget req (lit ''template'')))"

type_synonym description = "pytext \<times> outcome \<times> pytext option"

definition describe_control_request :: "py \<Rightarrow> control_request \<Rightarrow> description" where
  "describe_control_request p r =
     (let req = json_object p (cr_payload r);
          mode = str_or_empty p (jget req (lit ''mode'')); verb = cr_verb r
      in if verb = lit ''mode.set'' \<and> is_permission_mode mode
         then (lit ''mode.changed'', Applied, None)
         else if verb = lit ''narration.set'' \<and> mode \<in> set NARRATION_MODES
         then (lit ''narration.changed'', Applied, None)
         else if verb = lit ''workspace.undo'' \<and> req = []
         then (lit ''files.restored'', Applied, None)
         else if verb = lit ''compact'' \<and> compact_payload req
         then (lit ''context.compacted'', Applied, None)
         else if verb = WORKSPACE_UPGRADE_VERB \<and> valid_upgrade_request req
         then (lit ''workspace_upgrade.complete'', Applied, None)
         else (lit ''control.rejected'', Rejected, Some (lit ''unsupported_control'')))"

definition effect_verbs :: "pytext list" where
  "effect_verbs = [lit ''workspace.undo'', lit ''compact'', WORKSPACE_UPGRADE_VERB]"

definition control_envelope :: "control_request \<Rightarrow> fields" where
  "control_envelope r =
     [(lit ''request_id'', JStr (uuid_text (cr_id r))),
      (lit ''client_request_id'', JStr (uuid_text (cr_client r))),
      (lit ''request_seq'', JInt (cr_seq r)), (lit ''method'', JStr (cr_verb r))]"

text \<open>\<^verbatim>\<open>{**a, **b}\<close>\<close>

definition merged :: "fields \<Rightarrow> fields \<Rightarrow> fields" where
  "merged a b = b @ filter (\<lambda>(k, v). k \<notin> keys b) a"

definition receipt_params ::
  "py \<Rightarrow> control_request \<Rightarrow> outcome \<Rightarrow> pytext option \<Rightarrow> fields \<Rightarrow> fields" where
  "receipt_params p r out err effect =
     (let env = control_envelope r in
      if out = Applied \<and> cr_verb r \<in> {lit ''mode.set'', lit ''narration.set''}
      then env @ [(lit ''mode'',
             JStr (str_or_empty p (jget (json_object p (cr_payload r)) (lit ''mode''))))]
      else if out = Applied \<and> cr_verb r \<in> set effect_verbs then merged effect env
      else merged (if cr_verb r = WORKSPACE_UPGRADE_VERB then merged effect env else env)
             [(lit ''error_code'', case err of None \<Rightarrow> JNull | Some c \<Rightarrow> JStr c)])"

section \<open>The drain loop\<close>

text \<open>The part of the runtime's memory that controls change, and its event counter.\<close>

record ram =
  rm_mode :: pytext
  rm_narration :: pytext
  rm_next_seq :: int

type_synonym effect = "control_request \<Rightarrow> (description \<times> fields) option"

definition apply_control_request :: "py \<Rightarrow> control_request \<Rightarrow> ram \<Rightarrow> ram" where
  "apply_control_request p r m =
     (let mode = str_or_empty p (jget (json_object p (cr_payload r)) (lit ''mode'')) in
      if fst (snd (describe_control_request p r)) \<noteq> Applied then m
      else if cr_verb r = lit ''mode.set''
      then m\<lparr>rm_mode := py_str p (normalize_permission_mode (JStr mode))\<rparr>
      else if cr_verb r = lit ''narration.set'' then m\<lparr>rm_narration := mode\<rparr>
      else m)"

datatype drain_status = Drain_Empty | Drain_Next | Drain_Blocked | Drain_Raised exn

text \<open>Reading the published scalars back, under the fence.\<close>

definition reconcile_scalars :: "uuid \<Rightarrow> int \<Rightarrow> ram \<Rightarrow> world \<Rightarrow> drain_status \<times> ram" where
  "reconcile_scalars t tok m w =
     (if \<not> stateless_fence w t tok then (Drain_Blocked, m)
      else (case thread_of w t of None \<Rightarrow> (Drain_Blocked, m)
        | Some th \<Rightarrow>
            (Drain_Next,
             m\<lparr>rm_mode := (case normalize_permission_mode
                   (JStr (if th_mode th = [] then lit ''read_only'' else th_mode th)) of
                     JStr s \<Rightarrow> s | _ \<Rightarrow> []),
               rm_narration := (case th_narration th of None \<Rightarrow> rm_narration m | Some n \<Rightarrow> n)\<rparr>)))"

definition settle_request ::
  "py \<Rightarrow> secs \<Rightarrow> int \<Rightarrow> control_request \<Rightarrow> outcome \<Rightarrow> pytext option \<Rightarrow> ram \<times> world
   \<Rightarrow> drain_status \<times> ram \<times> world" where
  "settle_request p now tok r out err mw =
     (let (m, w) = mw in
      case finalize_control_request p now (cr_id r) (by_lease tok) out err w of
        Inl x \<Rightarrow> (Drain_Raised x, m, w)
      | Inr (st, w') \<Rightarrow>
          if st = Final out then (Drain_Next, apply_control_request p r m, w')
          else if st = Already_Terminal
          then (let (s, m') = reconcile_scalars (cr_thread r) tok m w' in (s, m', w'))
          else (Drain_Blocked, m, w'))"

definition serve_request ::
  "py \<Rightarrow> effect \<Rightarrow> secs \<Rightarrow> writer \<Rightarrow> int \<Rightarrow> control_request \<Rightarrow> ram \<times> world
   \<Rightarrow> drain_status \<times> ram \<times> world" where
  "serve_request p effect now wr tok r mw =
     (let (m, w) = mw;
          described = describe_control_request p r;
          ready = (if fst (snd described) = Applied \<and> cr_verb r \<in> set effect_verbs
                   then effect r else Some (described, []))
      in case ready of None \<Rightarrow> (Drain_Blocked, m, w)
         | Some ((kind, out, err), params) \<Rightarrow>
             let sq = rm_next_seq m + 1; m' = m\<lparr>rm_next_seq := sq\<rparr> in
             case write_control_receipt wr sq kind (receipt_params p r out err params) (cr_id r) w of
               Inl x \<Rightarrow> (Drain_Blocked, m', w)
             | Inr (n, w') \<Rightarrow>
                 if n = 0 then (Drain_Blocked, m', w')
                 else settle_request p now tok r out err (m', w'))"

definition drain_step ::
  "py \<Rightarrow> effect \<Rightarrow> secs \<Rightarrow> writer \<Rightarrow> uuid \<Rightarrow> int \<Rightarrow> ram \<times> world \<Rightarrow> drain_status \<times> ram \<times> world" where
  "drain_step p effect now wr t tok mw =
     (let (m, w) = mw in
      if \<not> stateless_fence w t tok then (Drain_Blocked, m, w)
      else case next_stateless w t tok of
        None \<Rightarrow> (Drain_Empty, m, w)
      | Some r \<Rightarrow>
          (case fetch_control_receipt w t (cr_id r) of
             None \<Rightarrow> serve_request p effect now wr tok r (m, w)
           | Some e \<Rightarrow>
               (case receipt_verdict p r e of
                  Inl x \<Rightarrow> (Drain_Raised x, m, w)
                | Inr None \<Rightarrow> (Drain_Blocked, m, w)
                | Inr (Some (out, err, scalar)) \<Rightarrow> settle_request p now tok r out err (m, w))))"

text \<open>The loop, with fuel for its turns; it ends when the inbox is empty or blocked.\<close>

fun drain_thread_controls ::
  "nat \<Rightarrow> py \<Rightarrow> effect \<Rightarrow> secs \<Rightarrow> writer \<Rightarrow> uuid \<Rightarrow> int \<Rightarrow> nat \<Rightarrow> ram \<times> world
   \<Rightarrow> (drain_status \<times> nat \<times> ram \<times> world) option" where
  "drain_thread_controls 0 p effect now wr t tok n mw = None"
| "drain_thread_controls (Suc k) p effect now wr t tok n mw =
     (case drain_step p effect now wr t tok mw of
        (Drain_Next, mw') \<Rightarrow> drain_thread_controls k p effect now wr t tok (Suc n) mw'
      | (st, mw') \<Rightarrow> Some (st, n, mw'))"

end
