(* ===== verification/Control_Admission.thy ===== *)
theory Control_Admission
  imports Control_Drain
begin

text \<open>
  Admission to the session control inbox, \<^verbatim>\<open>src/orchestrator/services/thread_control_inbox.py\<close>:
  one transaction that checks owner, lifecycle, lane and queue under the thread's row lock,
  numbers the request, inserts it and wakes the stateless queue. A refusal rolls everything back.

  Two collaborators are arguments: the classification of the session's workspace
  (\<^verbatim>\<open>stateless_session_workspace_check\<close>) and the workspace upgrade transition
  (\<^verbatim>\<open>begin_stateless_session_workspace_upgrade\<close>), which changes the thread's metadata only.
\<close>

section \<open>Payloads\<close>

definition WORKSPACE_UNDO_VERB :: pytext where "WORKSPACE_UNDO_VERB = lit ''workspace.undo''"
definition COMPACT_VERB :: pytext where "COMPACT_VERB = lit ''compact''"

definition IDLE_ONLY_VERBS :: "pytext list" where
  "IDLE_ONLY_VERBS = [WORKSPACE_UNDO_VERB, COMPACT_VERB, WORKSPACE_UPGRADE_VERB]"

definition control_verbs :: "pytext list" where
  "control_verbs =
     [lit ''mode.set'', lit ''narration.set'', WORKSPACE_UNDO_VERB, COMPACT_VERB, WORKSPACE_UPGRADE_VERB]"

definition canonical_uuid_text :: "pytext \<Rightarrow> bool" where
  "canonical_uuid_text s \<longleftrightarrow>
     length s = 36 \<and>
     (\<forall>i < 36. if i \<in> {8, 13, 18, 23} then s ! i = 45
               else (48 \<le> s ! i \<and> s ! i \<le> 57) \<or> (97 \<le> s ! i \<and> s ! i \<le> 102))"

definition valid_upgrade_payload :: "fields \<Rightarrow> bool" where
  "valid_upgrade_payload payload \<longleftrightarrow>
     keys payload \<subseteq> WORKSPACE_UPGRADE_PAYLOAD_KEYS \<and>
     (jget payload (lit ''target_tier'') = JNull \<or>
      in_texts (jget payload (lit ''target_tier'')) [lit ''sandbox'', lit ''vm'']) \<and>
     (case jget payload (lit ''template'') of JNull \<Rightarrow> True
      | JStr s \<Rightarrow> 0 < length s \<and> length s \<le> 200 | _ \<Rightarrow> False) \<and>
     (case jget payload (lit ''runtime_generation'') of JStr g \<Rightarrow> canonical_uuid_text g | _ \<Rightarrow> False)"

section \<open>Refusals\<close>

datatype admission_error = Refused string | Not_Ready string

record admitted =
  ad_id :: uuid
  ad_seq :: int
  ad_client :: uuid
  ad_verb :: pytext
  ad_state :: "outcome option" \<comment> \<open>the outcome, or pending\<close>
  ad_duplicate :: bool
  ad_generation :: "uuid option"

definition existing_control :: "world \<Rightarrow> uuid \<Rightarrow> uuid \<Rightarrow> control_request option" where
  "existing_control w t client =
     find (\<lambda>r. cr_thread r = t \<and> cr_client r = client) (controls w)"

definition duplicate_of :: "control_request \<Rightarrow> admitted" where
  "duplicate_of r =
     \<lparr>ad_id = cr_id r, ad_seq = cr_seq r, ad_client = cr_client r, ad_verb = cr_verb r,
      ad_state = cr_outcome r, ad_duplicate = True, ad_generation = cr_generation r\<rparr>"

definition same_content :: "py \<Rightarrow> pytext \<Rightarrow> fields \<Rightarrow> control_request \<Rightarrow> bool" where
  "same_content p verb payload r \<longleftrightarrow>
     cr_verb r = verb \<and> py_eq (JObj (json_object p (cr_payload r))) (JObj payload)"

text \<open>The lookup before admission, on the committed state.\<close>

definition find_existing_thread_control ::
  "py \<Rightarrow> uuid \<Rightarrow> uuid option \<Rightarrow> uuid \<Rightarrow> pytext \<Rightarrow> fields \<Rightarrow> world
   \<Rightarrow> admission_error + admitted option" where
  "find_existing_thread_control p t owner client verb payload w =
     (case (thread_of w t, existing_control w t client) of
        (Some th, Some r) \<Rightarrow>
          if th_user th \<noteq> owner then Inr None
          else if \<not> same_content p verb payload r then Inl (Refused ''different_control'')
          else Inr (Some (duplicate_of r))
      | _ \<Rightarrow> Inr None)"

text \<open>The checks of the request itself and of the thread it names, in the order of the code.\<close>

definition request_refusal ::
  "thread \<Rightarrow> pytext \<Rightarrow> fields \<Rightarrow> uuid option \<Rightarrow> bool \<Rightarrow> admission_error option" where
  "request_refusal th verb payload expected require_generation =
     (if th_status th \<notin> {''created'', ''active'', ''awaiting_user''} then Some (Refused ''status'')
      else if verb = WORKSPACE_UNDO_VERB \<and> payload \<noteq> [] then Some (Refused ''undo_payload'')
      else if verb = COMPACT_VERB \<and> \<not> compact_payload payload then Some (Refused ''compact_payload'')
      else if verb = WORKSPACE_UPGRADE_VERB \<and> \<not> valid_upgrade_payload payload
      then Some (Refused ''upgrade_payload'')
      else if th_retirement th \<noteq> None then Some (Refused ''retirement'')
      else if expected \<noteq> None \<and> expected \<noteq> Some (th_generation th) then Some (Refused ''generation_changed'')
      else if th_lane th = LANE_PINNED \<and> require_generation \<and> expected = None
      then Some (Refused ''generation_required'')
      else if verb \<in> {WORKSPACE_UNDO_VERB, COMPACT_VERB, WORKSPACE_UPGRADE_VERB} \<and>
              th_lane th \<noteq> LANE_STATELESS
      then Some (Refused ''pinned_transport'')
      else if verb = WORKSPACE_UPGRADE_VERB \<and>
              jget payload (lit ''runtime_generation'') \<noteq>
                JStr (uuid_text (th_generation th))
      then Some (Refused ''generation_changed'')
      else None)"

definition pinned_admission :: "world \<Rightarrow> thread \<Rightarrow> admission_error + uuid option" where
  "pinned_admission w th =
     (case th_agent th of None \<Rightarrow> Inl (Not_Ready ''not_ready'')
      | Some a \<Rightarrow>
          if th_admission_agent th \<noteq> Some a then Inl (Not_Ready ''not_ready'')
          else if \<not> reciprocal w a (th_id th) then Inl (Not_Ready ''not_ready'')
          else Inr (Some a))"

text \<open>The queue checks of an effectful verb, for which the session must be idle.\<close>

definition queue_refusal :: "pytext \<Rightarrow> row option \<Rightarrow> admission_error option" where
  "queue_refusal verb q0 =
     (case q0 of None \<Rightarrow> None
      | Some q \<Rightarrow>
          if unit_kind q \<noteq> UNIT_KIND_SESSION_TURN then Some (Refused ''queue_identity'')
          else if state q = Parked then Some (Refused ''parked'')
          else if verb \<in> set IDLE_ONLY_VERBS \<and> state q = Leased then Some (Not_Ready ''leased'')
          else if verb \<in> set IDLE_ONLY_VERBS \<and> pending_input q then Some (Not_Ready ''pending_input'')
          else None)"

definition stateless_admission ::
  "(thread \<Rightarrow> string \<times> string option) \<Rightarrow> pytext \<Rightarrow> world \<Rightarrow> thread \<Rightarrow> admission_error + uuid option" where
  "stateless_admission workspace_check verb w th =
     (case workspace_check th of
        (backend, Some refusal) \<Rightarrow> Inl (Refused refusal)
      | (backend, None) \<Rightarrow>
          if th_agent th \<noteq> None then Inl (Refused ''agent_binding'')
          else if verb = WORKSPACE_UNDO_VERB \<and> backend \<noteq> ''sandbox'' then Inl (Refused ''undo_backend'')
          else case queue_refusal verb (row_of (rq w) (th_id th)) of
            Some e \<Rightarrow> Inl e
          | None \<Rightarrow>
              if \<exists>r \<in> set (controls w). is_pending (th_id th) r \<and> cr_agent r \<noteq> None
              then Inl (Refused ''stranded_pinned'') else Inr None)"

definition lane_admission ::
  "(thread \<Rightarrow> string \<times> string option) \<Rightarrow> pytext \<Rightarrow> world \<Rightarrow> thread \<Rightarrow> admission_error + uuid option" where
  "lane_admission workspace_check verb w th =
     (if th_lane th = LANE_PINNED then pinned_admission w th
      else if th_lane th = LANE_STATELESS then stateless_admission workspace_check verb w th
      else Inl (Refused ''lane''))"

section \<open>The transaction\<close>

definition human_baseline :: "world \<Rightarrow> uuid \<Rightarrow> int" where
  "human_baseline w t =
     foldr max (map msg_seq (filter (\<lambda>m. msg_thread m = t \<and> msg_role m = ''human'' \<and> \<not> msg_rewound m)
       (messages (rq w)))) 0"

definition new_control ::
  "uuid \<Rightarrow> uuid \<Rightarrow> int \<Rightarrow> uuid \<Rightarrow> pytext \<Rightarrow> fields \<Rightarrow> uuid option \<Rightarrow> uuid option \<Rightarrow> control_request" where
  "new_control i t sq client verb payload agent gen =
     \<lparr>cr_id = i, cr_thread = t, cr_seq = sq, cr_client = client, cr_verb = verb,
      cr_payload = JObj payload, cr_agent = agent, cr_generation = gen, cr_outcome = None,
      cr_result = None, cr_applied_at = None, cr_applied_token = None, cr_applied_agent = None,
      cr_journal = None, cr_error = None\<rparr>"

type_synonym upgrade = "thread \<Rightarrow> string option" \<comment> \<open>the refusal, if any\<close>

definition admit_new ::
  "bool \<Rightarrow> secs \<Rightarrow> uuid \<Rightarrow> thread \<Rightarrow> uuid option \<Rightarrow> uuid \<Rightarrow> pytext \<Rightarrow> fields \<Rightarrow> uuid option \<Rightarrow> world
   \<Rightarrow> admission_error + admitted \<times> world" where
  "admit_new seen now i th owner client verb payload agent w =
     (let sq = th_control_hwm th + 1; t = th_id th;
          w1 = (put_thread (th\<lparr>th_control_hwm := sq\<rparr>) w)
                 \<lparr>controls := controls w @ [new_control i t sq client verb payload agent (Some (th_generation th))]\<rparr>;
          result = \<lparr>ad_id = i, ad_seq = sq, ad_client = client, ad_verb = verb, ad_state = None,
                    ad_duplicate = False, ad_generation = Some (th_generation th)\<rparr>
      in if th_lane th \<noteq> LANE_STATELESS then Inr (result, w1)
         else case record_control_seq seen now t UNIT_KIND_SESSION_TURN sq (human_baseline w t)
                     (Some (case owner of None \<Rightarrow> ''None'' | Some u \<Rightarrow> map char_of (uuid_text u))) (rq w1) of
           Inl _ \<Rightarrow> Inl (Refused ''database'')
         | Inr (st, d) \<Rightarrow>
             if st = Parked then Inl (Refused ''parked'') else Inr (result, w1\<lparr>rq := d\<rparr>))"

definition admit_thread_control ::
  "py \<Rightarrow> (thread \<Rightarrow> string \<times> string option) \<Rightarrow> upgrade option \<Rightarrow> bool \<Rightarrow> secs \<Rightarrow> uuid
   \<Rightarrow> uuid \<Rightarrow> uuid option \<Rightarrow> uuid \<Rightarrow> pytext \<Rightarrow> fields \<Rightarrow> uuid option \<Rightarrow> bool \<Rightarrow> world
   \<Rightarrow> admission_error + admitted \<times> world" where
  "admit_thread_control p workspace_check upgrade seen now i t owner client verb payload expected
      require_generation w =
     (case thread_of w t of None \<Rightarrow> Inl (Refused ''unavailable'')
      | Some th \<Rightarrow>
          if th_user th \<noteq> owner then Inl (Refused ''unavailable'')
          else (case existing_control w t client of
            Some r \<Rightarrow>
              if \<not> same_content p verb payload r then Inl (Refused ''different_control'')
              else if expected \<noteq> None \<and> cr_generation r \<noteq> expected
              then Inl (Refused ''different_runtime'')
              else Inr (duplicate_of r, w)
          | None \<Rightarrow>
              (case request_refusal th verb payload expected require_generation of
                Some e \<Rightarrow> Inl e
              | None \<Rightarrow>
                  bind_ok (lane_admission workspace_check verb w th) (\<lambda>agent.
                    if verb \<notin> set control_verbs then Inl (Refused ''unsupported_verb'')
                    else if verb = WORKSPACE_UPGRADE_VERB \<and>
                            (case upgrade of None \<Rightarrow> True | Some f \<Rightarrow> f th \<noteq> None)
                    then Inl (Refused ''upgrade'')
                    else admit_new seen now i th owner client verb payload agent w))))"

end
