(* ===== verification/Control_Inbox.thy ===== *)
theory Control_Inbox
  imports Control_Admission
begin

text \<open>
  The control inbox as a whole: every interleaving of admission, adoption, journal writes,
  terminalization and queue work as a step relation on the shared tables, and the invariant that
  ties the inbox to the queue's control watermark.
\<close>

section \<open>The control marks of the queue\<close>

definition control_marks :: "db \<Rightarrow> uuid \<Rightarrow> int \<times> int" where
  "control_marks d u =
     (case row_of d u of None \<Rightarrow> (0, 0)
      | Some q \<Rightarrow> (control_consumed_seq q, control_input_seq q))"

lemma control_marks_store:
  "row_of d (unit_id q) = Some q0 \<Longrightarrow>
   control_marks (store d q) u =
     (if u = unit_id q then (control_consumed_seq q, control_input_seq q) else control_marks d u)"
  by (auto simp: control_marks_def row_of_store split: option.splits)

lemma control_marks_insert:
  "row_of d (unit_id q) = None \<Longrightarrow>
   control_marks (insert_row d q) u =
     (if u = unit_id q then (control_consumed_seq q, control_input_seq q) else control_marks d u)"
  by (auto simp: control_marks_def row_of_insert split: option.splits)

lemma cas_keeps_marks:
  assumes "cas u guard eff d = Inr (x, d')"
    and "\<And>r. unit_id (eff r) = unit_id r"
    and "\<And>r. control_consumed_seq (eff r) = control_consumed_seq r"
    and "\<And>r. control_input_seq (eff r) = control_input_seq r"
  shows "control_marks d' v = control_marks d v"
  using assms(1)
proof (cases rule: cas_cases)
  case (hit r)
  then show ?thesis
    using assms(2-) row_of_unit [of d u r]
    by (auto simp: control_marks_def row_of_store split: option.splits)
qed simp

lemma marks_cong: "queue d' = queue d \<Longrightarrow> control_marks d' u = control_marks d u"
  by (simp add: control_marks_def row_of_def)

text \<open>Admission sets the marks of its own unit and nothing else.\<close>

lemma record_control_marks:
  assumes "record_control_seq seen now t kind s base fair d = Inr (st, d')"
  shows "control_marks d' u =
    (if u \<noteq> t then control_marks d u
     else case row_of d t of None \<Rightarrow> (s - 1, s)
       | Some q \<Rightarrow> (control_baseline s q, max (control_input_seq q) s))"
proof (cases "row_of d t")
  case None
  then show ?thesis
    using assms
    by (auto simp: record_control_seq_def record_control_sql_def Let_def control_marks_insert
        fresh_row_def)
next
  case (Some q)
  then show ?thesis
    using assms row_of_unit [OF Some]
    by (auto simp: record_control_seq_def record_control_sql_def Let_def map_ok_Inr cas_def
        record_control_upd_def record_control_merge_def control_marks_store split: if_splits)
qed

lemma record_control_ok:
  assumes "record_control_seq seen now t kind s base fair d = Inr (st, d')" "db_ok d"
  shows "db_ok d'"
  using rq_step_ok [OF rq_step.control [OF assms(1)], of True] assms(2) by simp

section \<open>Every other operation of the queue leaves the marks alone\<close>

lemma claim_keeps_marks:
  assumes "db_ok d" "claim_unit locked now kind pod pref ttl grace d = Inr (res, d')"
  shows "control_marks d' v = control_marks d v"
proof (cases res)
  case None
  with assms(2) have "d' = d"
    by (cases rule: claim_unit_cases) (auto simp: claim_sql_def dest: claim_mark_None)
  then show ?thesis by simp
next
  case (Some c)
  obtain r where "row_of d (unit_id r) = Some r" "d' = store d (claim_update now pod ttl r)"
    using claim_unit_SomeE [OF assms(1) assms(2) [unfolded Some]] by metis
  then show ?thesis
    by (auto simp: control_marks_def row_of_store claim_update_def split: option.splits)
qed

lemma insert_keeps_marks:
  assumes "row_of d (unit_id q) = None" "control_consumed_seq q = 0" "control_input_seq q = 0"
  shows "control_marks (insert_row d q) v = control_marks d v"
  using assms by (simp add: control_marks_insert) (simp add: control_marks_def)

lemma enqueue_keeps_marks:
  assumes "enqueue_unit seen now u kind fair dk prio ra inp d = Inr (res, d')"
  shows "control_marks d' v = control_marks d v"
proof (cases dk)
  case (Some k)
  then show ?thesis
    using assms
    by (auto simp: enqueue_unit_def enqueue_dedup_sql_def Let_def enqueue_new_def fresh_row_def
        insert_keeps_marks split: if_splits)
next
  case None
  then obtain r where sql: "enqueue_sql seen now u kind fair prio ra inp d = Inr (r, d')"
    using assms by (auto simp: enqueue_unit_def map_ok_Inr)
  show ?thesis
  proof (cases "row_of d u")
    case None
    then show ?thesis
      using sql by (auto simp: enqueue_sql_def Let_def enqueue_new_def fresh_row_def
          insert_keeps_marks)
  next
    case (Some q)
    then show ?thesis
      using sql by (auto simp: enqueue_sql_def map_ok_Inr Let_def enqueue_upd_def
          enqueue_merge_def elim!: cas_keeps_marks split: if_splits)
  qed
qed

lemma input_keeps_marks:
  assumes "record_input_seq seen now u kind s fair d = Inr (res, d')"
  shows "control_marks d' v = control_marks d v"
proof (cases "row_of d u")
  case None
  then show ?thesis
    using assms by (auto simp: record_input_seq_def record_input_sql_def Let_def fresh_row_def
        insert_keeps_marks)
next
  case (Some q)
  then show ?thesis
    using assms by (auto simp: record_input_seq_def record_input_sql_def map_ok_Inr Let_def
        record_input_upd_def record_input_merge_def elim!: cas_keeps_marks split: if_splits)
qed

lemma release_keeps_marks:
  "release_unit now u tok backoff err reason msg d = Inr (res, d') \<Longrightarrow>
   control_marks d' v = control_marks d v"
  by (cases reason)
    (auto simp: release_unit_def map_ok_Inr release_eff_def release_deterministic_eff_def Let_def
      elim!: cas_keeps_marks)

lemma only_admission_moves_the_marks:
  "rq_step races d d' \<Longrightarrow> db_ok d \<Longrightarrow>
   (\<exists>seen now u kind s base fair r. record_control_seq seen now u kind s base fair d = Inr (r, d'))
   \<or> (\<forall>v. control_marks d' v = control_marks d v)"
proof (induction rule: rq_step.induct)
  case (beat now u tok ttl d r4 d')
  then show ?case
    by (auto simp: heartbeat_unit_def map_ok_Inr heartbeat_eff_def elim!: cas_keeps_marks)
next
  case (admit u tok turn d r5 d')
  then show ?case
    by (auto simp: open_interrupt_admission_def map_ok_Inr open_eff_def elim!: cas_keeps_marks
        split: if_splits)
next
  case (dismiss u tok turn wm d r5 d')
  then show ?case
    by (auto simp: close_interrupt_admission_def map_ok_Inr close_eff_def elim!: cas_keeps_marks
        split: if_splits)
next
  case (finish now u tok wm d r6 d')
  then show ?case
    by (auto simp: complete_unit_def map_ok_Inr complete_eff_def elim!: cas_keeps_marks)
next
  case (park now u tok reason msg d r6 d')
  then show ?case
    by (auto simp: park_unit_def map_ok_Inr park_eff_def elim!: cas_keeps_marks)
next
  case (attach now u tok emsg sig backoff threshold d r7 d')
  then show ?case
    by (auto simp: record_attach_failure_def map_ok_Inr attach_failure_eff_def Let_def
        elim!: cas_keeps_marks)
next
  case (steal now grace backoff c d r8 d')
  then show ?case
    by (auto simp: reap_steal_def map_ok_Inr reap_eff_def Let_def elim!: cas_keeps_marks)
next
  case (unpark now u d r5 d')
  then show ?case
    by (auto simp: unpark_unit_def map_ok_Inr unpark_eff_def elim!: cas_keeps_marks)
next
  case (settle now u wm d r6 d')
  then show ?case
    by (auto simp: settle_parked_unit_def map_ok_Inr settle_eff_def Let_def elim!: cas_keeps_marks)
qed (auto dest: enqueue_keeps_marks input_keeps_marks claim_keeps_marks release_keeps_marks
    marks_cong)

section \<open>The invariant\<close>

definition pending_of :: "control_request list \<Rightarrow> uuid \<Rightarrow> control_request list" where
  "pending_of cs t = filter (is_pending t) cs"

text \<open>The pending requests that no pinned agent has taken: what a lease owner serves.\<close>

definition waiting_of :: "control_request list \<Rightarrow> uuid \<Rightarrow> control_request list" where
  "waiting_of cs t = filter (\<lambda>r. cr_agent r = None) (pending_of cs t)"

text \<open>
  For a stateless session the waiting requests are exactly the numbers between the consumed and
  the admitted mark of its queue row; while anything waits the latter is the session's high-water
  mark and no request of an earlier pinned life is left.
\<close>

definition watermark_ok :: "control_request list \<Rightarrow> db \<Rightarrow> uuid \<Rightarrow> int \<Rightarrow> bool" where
  "watermark_ok cs d t hwm \<longleftrightarrow>
     cr_seq ` set (waiting_of cs t) = {fst (control_marks d t) <.. snd (control_marks d t)} \<and>
     fst (control_marks d t) \<le> snd (control_marks d t) \<and> snd (control_marks d t) \<le> hwm \<and>
     (fst (control_marks d t) < snd (control_marks d t) \<longrightarrow>
        snd (control_marks d t) = hwm \<and> (\<forall>r \<in> set (pending_of cs t). cr_agent r = None))"

lemma watermark_ok_cong:
  "set (pending_of cs' t) = set (pending_of cs t) \<Longrightarrow> control_marks d' t = control_marks d t \<Longrightarrow>
   watermark_ok cs' d' t hwm = watermark_ok cs d t hwm"
  by (simp add: watermark_ok_def waiting_of_def)

definition thread_view :: "thread \<Rightarrow> uuid \<times> string \<times> int" where
  "thread_view th = (th_id th, th_lane th, th_control_hwm th)"

definition view_ok :: "control_request list \<Rightarrow> db \<Rightarrow> uuid \<times> string \<times> int \<Rightarrow> bool" where
  "view_ok cs d v =
     (case v of (t, lane, hwm) \<Rightarrow>
        0 \<le> hwm \<and> (\<forall>r \<in> set cs. cr_thread r = t \<longrightarrow> 1 \<le> cr_seq r \<and> cr_seq r \<le> hwm) \<and>
        (lane = LANE_STATELESS \<longrightarrow> watermark_ok cs d t hwm))"

definition inbox_ok :: "world \<Rightarrow> bool" where
  "inbox_ok w \<longleftrightarrow>
     db_ok (rq w) \<and> distinct (map th_id (threads w)) \<and> distinct (map cr_id (controls w)) \<and>
     cr_thread ` set (controls w) \<subseteq> th_id ` set (threads w) \<and>
     distinct (map (\<lambda>r. (cr_thread r, cr_seq r)) (controls w)) \<and>
     distinct (map (\<lambda>r. (cr_thread r, cr_client r)) (controls w)) \<and>
     (\<forall>v \<in> thread_view ` set (threads w). view_ok (controls w) (rq w) v)"

lemma inbox_okD:
  assumes "inbox_ok w"
  shows "db_ok (rq w)" "distinct (map th_id (threads w))" "distinct (map cr_id (controls w))"
  using assms by (simp_all add: inbox_ok_def)

lemma inbox_ok_member:
  "inbox_ok w \<Longrightarrow> r \<in> set (controls w) \<Longrightarrow> control_of w (cr_id r) = Some r"
  by (simp add: control_of_def inbox_okD find_by_distinct)

lemma inbox_ok_view:
  "inbox_ok w \<Longrightarrow> thread_of w t = Some th \<Longrightarrow> view_ok (controls w) (rq w) (t, th_lane th, th_control_hwm th)"
  using thread_of_id [of w t th] by (auto simp: inbox_ok_def thread_view_def thread_of_def dest!: find_by_Some_set)

lemma inbox_ok_watermark:
  assumes "inbox_ok w" "thread_of w t = Some th" "th_lane th = LANE_STATELESS"
  shows "watermark_ok (controls w) (rq w) t (th_control_hwm th)"
  using inbox_ok_view [OF assms(1,2)] assms(3) by (simp add: view_ok_def)

lemma inbox_ok_thread:
  assumes "inbox_ok w" "r \<in> set (controls w)"
  obtains th where "thread_of w (cr_thread r) = Some th" "1 \<le> cr_seq r" "cr_seq r \<le> th_control_hwm th"
proof -
  have "cr_thread r \<in> th_id ` set (threads w)" using assms by (auto simp: inbox_ok_def)
  then obtain th where th: "thread_of w (cr_thread r) = Some th"
    using find_by_None [of th_id "cr_thread r" "threads w"] by (auto simp: thread_of_def)
  then show ?thesis using inbox_ok_view [OF assms(1) th] assms(2) that by (auto simp: view_ok_def)
qed

text \<open>A step that touches neither the requests, nor the marks, nor the identity of threads.\<close>

lemma view_ok_cong:
  "(\<And>u. control_marks d' u = control_marks d u) \<Longrightarrow> view_ok cs d' v = view_ok cs d v"
  by (auto simp: view_ok_def watermark_ok_def)

lemma inbox_frame:
  assumes ok: "inbox_ok w" and db: "db_ok (rq w')"
    and cs: "controls w' = controls w"
    and th: "map thread_view (threads w') = map thread_view (threads w)"
    and marks: "\<And>u. control_marks (rq w') u = control_marks (rq w) u"
  shows "inbox_ok w'"
proof -
  have ids: "map th_id (threads x) = map fst (map thread_view (threads x))" for x
    by (simp add: thread_view_def)
  have views: "thread_view ` set (threads w') = thread_view ` set (threads w)"
    using th by (metis set_map)
  have ids': "map th_id (threads w') = map th_id (threads w)" using ids th by metis
  then have "th_id ` set (threads w') = th_id ` set (threads w)" by (metis set_map)
  moreover have "view_ok (controls w') (rq w') v = view_ok (controls w) (rq w) v" for v
    using view_ok_cong [of "rq w'" "rq w"] marks cs by simp
  ultimately show ?thesis
    using ok db unfolding inbox_ok_def by (simp add: views ids' cs)
qed

lemma put_thread_views:
  assumes "distinct (map th_id (threads w))" "thread_of w (th_id th) = Some th0"
    "thread_view th = thread_view th0"
  shows "map thread_view (threads (put_thread th w)) = map thread_view (threads w)"
proof -
  have "x = th0" if "x \<in> set (threads w)" "th_id x = th_id th" for x
    using that assms(1,2) find_by_distinct [of th_id "threads w" x] by (simp add: thread_of_def)
  then show ?thesis using assms(3) by (auto simp: put_thread_def put_by_def)
qed

section \<open>What terminalization does\<close>

definition settled_world ::
  "py \<Rightarrow> secs \<Rightarrow> credential \<Rightarrow> outcome \<Rightarrow> pytext option \<Rightarrow> control_request \<Rightarrow> event
   \<Rightarrow> int option \<times> uuid option \<Rightarrow> (column \<times> pytext) option \<Rightarrow> world \<Rightarrow> world" where
  "settled_world p now c out err r e who scalar w =
     (if cred_lease c = None then id else advance_control (cr_thread r) (cr_seq r))
       (publish_scalar (cr_thread r) scalar
         (put_control (terminal_control now out err (json_object p (ev_payload e)) e who r) w))"

text \<open>The transaction of a pending request that has a receipt, with the verdict on it.\<close>

definition settle_verdict ::
  "py \<Rightarrow> secs \<Rightarrow> credential \<Rightarrow> outcome \<Rightarrow> pytext option \<Rightarrow> control_request \<Rightarrow> event
   \<Rightarrow> receipt_result option \<Rightarrow> world \<Rightarrow> exn + final_status \<times> world" where
  "settle_verdict p now c out err r e verdict w =
     (case verdict of None \<Rightarrow> Inr (Invalid_Receipt, w)
      | Some (out', err', scalar) \<Rightarrow>
          if out' \<noteq> out \<or> (out = Rejected \<and> err' \<noteq> err) then Inr (Invalid_Receipt, w)
          else map_ok (\<lambda>auth. case auth of Inl st \<Rightarrow> (st, w)
              | Inr who \<Rightarrow> (Final out, settled_world p now c out err r e who scalar w))
            (final_authority w r c))"

lemma finalize_pending:
  assumes "one_owner c" "control_of w i = Some r" "cr_outcome r = None"
    "fetch_control_receipt w (cr_thread r) i = Some e"
  shows "finalize_control_request p now i c out err w =
    bind_ok (receipt_verdict p r e) (\<lambda>verdict. settle_verdict p now c out err r e verdict w)"
  using assms unfolding finalize_control_request_def settle_verdict_def settled_world_def
  by (simp only: option.simps not_True_eq_False not_not simp_thms if_False)

lemma settle_verdict_cases:
  assumes "settle_verdict p now c out err r e verdict w = Inr (st, w')"
  obtains (refused) "w' = w" "\<And>o'. st \<noteq> Final o'"
  | (settled) err' scalar who where "st = Final out" "verdict = Some (out, err', scalar)"
      "out = Rejected \<longrightarrow> err' = err" "final_authority w r c = Inr (Inr who)"
      "w' = settled_world p now c out err r e who scalar w"
proof (cases verdict)
  case None
  then show ?thesis using assms refused by (simp add: settle_verdict_def)
next
  case (Some v)
  obtain out' err' scalar where v: "v = (out', err', scalar)" by (cases v)
  show ?thesis
  proof (cases "out' \<noteq> out \<or> (out = Rejected \<and> err' \<noteq> err)")
    case True
    then show ?thesis using assms refused Some v by (auto simp: settle_verdict_def)
  next
    case False
    then obtain auth where auth: "final_authority w r c = Inr auth"
      "(st, w') = (case auth of Inl st \<Rightarrow> (st, w)
         | Inr who \<Rightarrow> (Final out, settled_world p now c out err r e who scalar w))"
      using assms Some v by (auto simp: settle_verdict_def map_ok_Inr)
    show ?thesis
    proof (cases auth)
      case (Inl s)
      have "s \<noteq> Final o'" for o'
        using auth(1) unfolding Inl
        by (auto simp: final_authority_def map_ok_Inr split: option.splits if_splits)
      then show ?thesis using auth(2) Inl refused by simp
    next
      case (Inr who)
      then show ?thesis using auth False Some v settled [of err' scalar who] by simp
    qed
  qed
qed

lemma finalize_cases:
  assumes "finalize_control_request p now i c out err w = Inr (st, w')"
  obtains (refused) "w' = w" "\<And>o'. st \<noteq> Final o'"
  | (settled) r e err' scalar who where "st = Final out" "control_of w i = Some r" "cr_outcome r = None"
      "fetch_control_receipt w (cr_thread r) i = Some e"
      "receipt_verdict p r e = Inr (Some (out, err', scalar))" "out = Rejected \<longrightarrow> err' = err"
      "one_owner c" "final_authority w r c = Inr (Inr who)"
      "w' = settled_world p now c out err r e who scalar w"
proof (cases "\<exists>r e. one_owner c \<and> control_of w i = Some r \<and> cr_outcome r = None \<and>
    fetch_control_receipt w (cr_thread r) i = Some e")
  case True
  then obtain r e where r: "one_owner c" "control_of w i = Some r" "cr_outcome r = None"
    "fetch_control_receipt w (cr_thread r) i = Some e" by blast
  then obtain verdict where verdict: "receipt_verdict p r e = Inr verdict"
    "settle_verdict p now c out err r e verdict w = Inr (st, w')"
    using assms by (auto simp: finalize_pending bind_ok_Inr)
  from verdict(2) show ?thesis
  proof (cases rule: settle_verdict_cases)
    case refused
    then show ?thesis using that(1) by blast
  next
    case (settled err' scalar who)
    then show ?thesis using that(2) [of r e err' scalar who] r verdict(1) by simp
  qed
next
  case False
  have check: "terminal_check w r c \<noteq> Inr (Final o')" for r o'
    by (auto simp: terminal_check_def map_ok_Inr split: option.splits if_splits)
  have "w' = w \<and> (\<forall>o'. st \<noteq> Final o')"
  proof (cases "control_of w i")
    case None
    then show ?thesis
      using assms by (auto simp: finalize_control_request_def split: if_splits)
  next
    case (Some r)
    then show ?thesis
      using assms False check [of r]
      by (cases "fetch_control_receipt w (cr_thread r) i")
        (auto simp: finalize_control_request_def map_ok_Inr split: if_splits)
  qed
  then show ?thesis using that(1) by blast
qed

lemma final_authority_cases:
  assumes "final_authority w r c = Inr (Inr who)" "one_owner c"
  obtains (lease) tok q where "cred_lease c = Some tok" "cred_agent c = None" "cr_agent r = None"
      "stateless_fence w (cr_thread r) tok" "row_of (rq w) (cr_thread r) = Some q"
      "control_consumed_seq q = cr_seq r - 1" "who = (Some tok, None)"
  | (pinned) a gen where "cred_lease c = None" "cred_agent c = Some a" "cred_generation c = Some gen"
      "cr_agent r \<noteq> None" "cr_generation r = Some gen"
      "pinned_fence w (cr_thread r) a gen (cred_attach c)"
      "\<forall>x \<in> set (controls w). is_pending (cr_thread r) x \<longrightarrow> cr_seq r \<le> cr_seq x"
      "who = (None, cr_agent r)"
proof (cases "cred_lease c")
  case None
  moreover obtain a where "cred_agent c = Some a" using None assms(2) by (auto simp: one_owner_def)
  ultimately show ?thesis
    using assms pinned
    by (auto simp: final_authority_def owner_fence_current_def map_ok_Inr not_less split: if_splits)
next
  case (Some tok)
  then have "cred_agent c = None" using assms(2) by (auto simp: one_owner_def)
  then show ?thesis
    using assms Some lease by (auto simp: final_authority_def split: if_splits option.splits)
qed

lemma publish_fields [simp]:
  "th_id (publish s th) = th_id th" "th_lane (publish s th) = th_lane th"
  "th_control_hwm (publish s th) = th_control_hwm th" "th_agent (publish s th) = th_agent th"
  "th_epoch (publish s th) = th_epoch th" "th_events_hwm (publish s th) = th_events_hwm th"
  "thread_view (publish s th) = thread_view th"
  by (cases "(s, th)" rule: publish.cases; simp add: thread_view_def)+

lemma publish_scalar_fields [simp]:
  "rq (publish_scalar t s w) = rq w" "controls (publish_scalar t s w) = controls w"
  "agents (publish_scalar t s w) = agents w" "events (publish_scalar t s w) = events w"
  by (simp_all add: publish_scalar_def split: option.splits)

lemma advance_control_fields [simp]:
  "threads (advance_control t sq w) = threads w" "controls (advance_control t sq w) = controls w"
  "agents (advance_control t sq w) = agents w" "events (advance_control t sq w) = events w"
  by (simp_all add: advance_control_def split: option.splits)

lemma settled_world_fields [simp]:
  "controls (settled_world p now c out err r e who scalar w) =
     put_by cr_id (terminal_control now out err (json_object p (ev_payload e)) e who r) (controls w)"
  "events (settled_world p now c out err r e who scalar w) = events w"
  "agents (settled_world p now c out err r e who scalar w) = agents w"
  by (simp_all add: settled_world_def put_control_def)

lemma settled_world_thread:
  "thread_of (settled_world p now c out err r e who scalar w) u =
     (if u = cr_thread r then map_option (publish scalar) (thread_of w u) else thread_of w u)"
proof -
  have "thread_of (advance_control t sq x) u = thread_of x u" for t sq x
    by (simp add: thread_of_def)
  then have "thread_of (settled_world p now c out err r e who scalar w) u
      = thread_of (publish_scalar (cr_thread r) scalar
         (put_control (terminal_control now out err (json_object p (ev_payload e)) e who r) w)) u"
    by (simp add: settled_world_def)
  then show ?thesis
    using thread_of_id [of w "cr_thread r"]
    by (auto simp: publish_scalar_def thread_of_put_thread split: option.splits)
qed

lemma settled_world_queue:
  "rq (settled_world p now c out err r e who scalar w) =
     (case (cred_lease c, row_of (rq w) (cr_thread r)) of
        (Some tok, Some q) \<Rightarrow> store (rq w) (q\<lparr>control_consumed_seq := cr_seq r\<rparr>)
      | _ \<Rightarrow> rq w)"
  by (auto simp: settled_world_def advance_control_def split: option.splits)

lemma settled_world_views:
  assumes "inbox_ok w" "r \<in> set (controls w)"
  shows "map thread_view (threads (settled_world p now c out err r e who scalar w))
       = map thread_view (threads w)"
proof -
  obtain th where th: "thread_of w (cr_thread r) = Some th"
    using inbox_ok_thread [OF assms] by metis
  define v where "v = put_control (terminal_control now out err (json_object p (ev_payload e)) e who r) w"
  have v: "threads v = threads w" "thread_of v (cr_thread r) = Some th"
    using th by (simp_all add: v_def thread_of_def)
  have "threads (settled_world p now c out err r e who scalar w) = threads (put_thread (publish scalar th) v)"
    using v(2) by (simp add: settled_world_def v_def [symmetric] publish_scalar_def)
  also have "map thread_view \<dots> = map thread_view (threads v)"
    using put_thread_views [of v "publish scalar th" th] inbox_okD(2) [OF assms(1)] v
      thread_of_id [OF v(2)] by simp
  finally show ?thesis by (simp add: v(1))
qed

section \<open>Terminalization keeps the invariant\<close>

lemma advanced_row:
  assumes ok: "db_ok d" and q: "row_of d t = Some q"
    and seq: "control_consumed_seq q \<le> sq" "sq \<le> control_input_seq q"
  shows "db_ok (store d (q\<lparr>control_consumed_seq := sq\<rparr>))"
    "db_le d (store d (q\<lparr>control_consumed_seq := sq\<rparr>))"
proof -
  let ?s = "q\<lparr>control_consumed_seq := sq\<rparr>"
  have "row_ok ?s" using row_of_ok [OF ok q] seq(2) by (auto simp: shape_defs split: option.splits)
  moreover have "\<not> dedup_conflict (queue d) ?s"
    using ok row_of_in [OF q] by (fastforce simp: db_ok_def dedup_conflict_def same_dedup_def)
  ultimately show "db_ok (store d ?s)" using db_ok_store [OF ok q] by simp
  show "db_le d (store d ?s)" using db_le_store [OF q, of ?s] seq(1) by (simp add: row_le_def)
qed

text \<open>Replacing one request by another of the same identity.\<close>

lemma map_put_control:
  assumes "distinct (map cr_id cs)" "r \<in> set cs" "cr_id r' = cr_id r" "f r' = f r"
  shows "map f (put_by cr_id r' cs) = map f cs"
proof -
  have "x = r" if "x \<in> set cs" "cr_id x = cr_id r" for x
    using that assms(1,2) find_by_distinct by (metis option.inject)
  then show ?thesis using assms(3,4) by (auto simp: put_by_def)
qed

lemma set_put_control:
  assumes "distinct (map cr_id cs)" "r \<in> set cs" "cr_id r' = cr_id r"
  shows "set (put_by cr_id r' cs) = insert r' (set cs - {r})"
proof -
  have "x = r" if "x \<in> set cs" "cr_id x = cr_id r" for x
    using that assms(1,2) find_by_distinct by (metis option.inject)
  then show ?thesis using assms(2,3) by (auto simp: put_by_def)
qed

lemma terminal_control_fields [simp]:
  "cr_id (terminal_control now out err params e who r) = cr_id r"
  "cr_thread (terminal_control now out err params e who r) = cr_thread r"
  "cr_seq (terminal_control now out err params e who r) = cr_seq r"
  "cr_client (terminal_control now out err params e who r) = cr_client r"
  "cr_outcome (terminal_control now out err params e who r) = Some out"
  by (simp_all add: terminal_control_def)

lemma pending_of_terminal:
  assumes "distinct (map cr_id cs)" "r \<in> set cs" "cr_id r' = cr_id r" "cr_outcome r' \<noteq> None"
  shows "set (pending_of (put_by cr_id r' cs) t) = set (pending_of cs t) - {r}"
  using set_put_control [OF assms(1-3)] assms(4) by (auto simp: pending_of_def is_pending_def)

lemma inbox_ok_seq_inj:
  assumes "inbox_ok w" "x \<in> set (controls w)" "y \<in> set (controls w)"
    "cr_thread x = cr_thread y" "cr_seq x = cr_seq y"
  shows "x = y"
  using assms by (auto simp: inbox_ok_def distinct_map inj_on_def)

lemma pending_seqs_removed:
  assumes ok: "inbox_ok w" and r: "r \<in> set (controls w)" "is_pending t r"
  shows "cr_seq ` (set (waiting_of (controls w) t) - {r})
       = cr_seq ` set (waiting_of (controls w) t) - {cr_seq r}"
proof -
  have "x = r" if "x \<in> set (waiting_of (controls w) t)" "cr_seq x = cr_seq r" for x
    using inbox_ok_seq_inj [OF ok, of x r] that r by (auto simp: waiting_of_def pending_of_def is_pending_def)
  then show ?thesis by auto
qed

lemma waiting_of_terminal:
  assumes "distinct (map cr_id cs)" "r \<in> set cs" "cr_id r' = cr_id r" "cr_outcome r' \<noteq> None"
  shows "set (waiting_of (put_by cr_id r' cs) t) = set (waiting_of cs t) - {r}"
  using pending_of_terminal [OF assms] by (auto simp: waiting_of_def)

lemma settled_watermark:
  assumes ok: "inbox_ok w" and r: "r \<in> set (controls w)" "cr_outcome r = None" "cr_agent r = None"
    and tok: "cred_lease c = Some tok" and q: "row_of (rq w) (cr_thread r) = Some q"
    and next_seq: "control_consumed_seq q = cr_seq r - 1"
    and wm: "watermark_ok (controls w) (rq w) (cr_thread r) hwm"
  shows "watermark_ok (controls (settled_world p now c out err r e who scalar w))
           (rq (settled_world p now c out err r e who scalar w)) (cr_thread r) hwm"
proof -
  let ?w = "settled_world p now c out err r e who scalar w" and ?t = "cr_thread r"
  have pend: "is_pending ?t r" using r(2) by (simp add: is_pending_def)
  have marks: "control_marks (rq w) ?t = (cr_seq r - 1, control_input_seq q)"
    using q next_seq by (simp add: control_marks_def)
  have q': "rq ?w = store (rq w) (q\<lparr>control_consumed_seq := cr_seq r\<rparr>)"
    using tok q by (simp add: settled_world_queue)
  have marks': "control_marks (rq ?w) ?t = (cr_seq r, control_input_seq q)"
    using q row_of_unit [OF q] by (simp add: q' control_marks_store)
  have seqs: "cr_seq ` set (waiting_of (controls w) ?t) = {cr_seq r - 1 <.. control_input_seq q}"
    using wm marks by (simp add: watermark_ok_def)
  have left: "set (waiting_of (controls ?w) ?t) = set (waiting_of (controls w) ?t) - {r}"
    using waiting_of_terminal [OF inbox_okD(3) [OF ok] r(1)] by simp
  have wait: "r \<in> set (waiting_of (controls w) ?t)" using pend r by (simp add: waiting_of_def pending_of_def)
  then have "cr_seq r \<in> {cr_seq r - 1 <.. control_input_seq q}" unfolding seqs [symmetric] by (rule imageI)
  then have le: "cr_seq r \<le> control_input_seq q" by simp
  have "cr_seq ` set (waiting_of (controls ?w) ?t) = {cr_seq r <.. control_input_seq q}"
    unfolding left pending_seqs_removed [OF ok r(1) pend] seqs by auto
  moreover have "set (pending_of (controls ?w) ?t) \<subseteq> set (pending_of (controls w) ?t)"
    using pending_of_terminal [OF inbox_okD(3) [OF ok] r(1)] by auto
  ultimately show ?thesis
    using wm le unfolding watermark_ok_def marks marks' by auto
qed

text \<open>Which part of the queue a terminalization may change.\<close>

lemma settled_queue_cases:
  assumes ok: "inbox_ok w" and r: "r \<in> set (controls w)" "cr_outcome r = None"
    and auth: "final_authority w r c = Inr (Inr who)" "one_owner c"
  obtains (pinned) th where "cred_lease c = None" "thread_of w (cr_thread r) = Some th"
      "th_lane th = LANE_PINNED" "rq (settled_world p now c out err r e who scalar w) = rq w"
  | (lease) tok q th where "cred_lease c = Some tok" "thread_of w (cr_thread r) = Some th"
      "th_lane th = LANE_STATELESS" "row_of (rq w) (cr_thread r) = Some q"
      "control_consumed_seq q = cr_seq r - 1" "cr_seq r \<le> control_input_seq q"
      "rq (settled_world p now c out err r e who scalar w)
       = store (rq w) (q\<lparr>control_consumed_seq := cr_seq r\<rparr>)" "cr_agent r = None"
  using auth
proof (cases rule: final_authority_cases)
  case (lease tok q)
  then obtain th where th: "thread_of w (cr_thread r) = Some th" "th_lane th = LANE_STATELESS"
    by (auto simp: stateless_fence_def split: option.splits)
  have "r \<in> set (waiting_of (controls w) (cr_thread r))"
    using r lease(3) by (simp add: waiting_of_def pending_of_def is_pending_def)
  then have "cr_seq r \<in> {cr_seq r - 1 <.. control_input_seq q}"
    using inbox_ok_watermark [OF ok th] lease
    by (auto simp: watermark_ok_def control_marks_def)
  then show ?thesis using that(2) [of tok th q] lease th by (simp add: settled_world_queue)
next
  case (pinned a gen)
  then obtain th where "thread_of w (cr_thread r) = Some th" "th_lane th = LANE_PINNED"
    by (auto simp: pinned_fence_def split: option.splits)
  then show ?thesis using that(1) pinned(1) by (simp add: settled_world_queue)
qed

text \<open>A step that keeps the identities of threads and requests need only keep the marks right.\<close>

definition request_view :: "control_request \<Rightarrow> uuid \<times> uuid \<times> int \<times> uuid" where
  "request_view r = (cr_id r, cr_thread r, cr_seq r, cr_client r)"

lemma inbox_ok_views:
  assumes ok: "inbox_ok w" and db: "db_ok (rq w')"
    and th: "map thread_view (threads w') = map thread_view (threads w)"
    and cs: "map request_view (controls w') = map request_view (controls w)"
    and views: "\<And>v. v \<in> thread_view ` set (threads w) \<Longrightarrow> view_ok (controls w') (rq w') v"
  shows "inbox_ok w'"
proof -
  have t: "map (g \<circ> thread_view) (threads w') = map (g \<circ> thread_view) (threads w)" for g :: "_ \<Rightarrow> 'k"
    using th by (metis map_map)
  have c: "map (g \<circ> request_view) (controls w') = map (g \<circ> request_view) (controls w)" for g :: "_ \<Rightarrow> 'k"
    using cs by (metis map_map)
  have "map th_id (threads w') = map th_id (threads w)"
    using t [of fst] by (simp add: comp_def thread_view_def)
  moreover have "map cr_id (controls w') = map cr_id (controls w)"
    using c [of fst] by (simp add: comp_def request_view_def)
  moreover have "map (\<lambda>r. (cr_thread r, cr_seq r)) (controls w')
      = map (\<lambda>r. (cr_thread r, cr_seq r)) (controls w)"
    using c [of "\<lambda>(i, t, s, k). (t, s)"] by (simp add: comp_def request_view_def)
  moreover have "map (\<lambda>r. (cr_thread r, cr_client r)) (controls w')
      = map (\<lambda>r. (cr_thread r, cr_client r)) (controls w)"
    using c [of "\<lambda>(i, t, s, k). (t, k)"] by (simp add: comp_def request_view_def)
  moreover have "map cr_thread (controls w') = map cr_thread (controls w)"
    using c [of "\<lambda>(i, t, s, k). t"] by (simp add: comp_def request_view_def)
  moreover have "thread_view ` set (threads w') = thread_view ` set (threads w)"
    using th by (metis set_map)
  ultimately show ?thesis
    using ok db views unfolding inbox_ok_def by (metis set_map)
qed

lemma view_thread:
  assumes "inbox_ok w" "(t, lane, hwm) \<in> thread_view ` set (threads w)"
  obtains th where "thread_of w t = Some th" "th_lane th = lane" "th_control_hwm th = hwm"
proof -
  obtain th where th: "th \<in> set (threads w)" "thread_view th = (t, lane, hwm)" using assms(2) by force
  then have "thread_of w t = Some th"
    using find_by_distinct [OF inbox_okD(2) [OF assms(1)] th(1)]
    by (auto simp: thread_of_def thread_view_def)
  then show ?thesis using that th(2) by (simp add: thread_view_def)
qed

lemma settled_view_ok:
  assumes ok: "inbox_ok w" and r: "r \<in> set (controls w)" "cr_outcome r = None"
    and auth: "final_authority w r c = Inr (Inr who)" "one_owner c"
    and v: "(t, lane, hwm) \<in> thread_view ` set (threads w)"
    and marks: "t \<noteq> cr_thread r \<Longrightarrow>
      control_marks (rq (settled_world p now c out err r e who scalar w)) t = control_marks (rq w) t"
  shows "view_ok (controls (settled_world p now c out err r e who scalar w))
           (rq (settled_world p now c out err r e who scalar w)) (t, lane, hwm)"
    (is "view_ok (controls ?w) (rq ?w) _")
proof -
  have old: "view_ok (controls w) (rq w) (t, lane, hwm)" using ok v by (auto simp: inbox_ok_def)
  have "1 \<le> cr_seq x \<and> cr_seq x \<le> hwm" if x: "x \<in> set (controls ?w)" "cr_thread x = t" for x
  proof -
    have "request_view x \<in> request_view ` set (controls w)"
      using x(1) r(1) by (auto simp: request_view_def dest!: subsetD [OF set_put_subset])
    then show ?thesis using old x(2) by (auto simp: view_ok_def request_view_def)
  qed
  moreover have "watermark_ok (controls ?w) (rq ?w) t hwm" if lane: "lane = LANE_STATELESS"
  proof (cases "t = cr_thread r")
    case False
    have pend: "set (pending_of (controls ?w) t) = set (pending_of (controls w) t)"
      using pending_of_terminal [OF inbox_okD(3) [OF ok] r(1), of _ t] False
      by (auto simp: pending_of_def is_pending_def)
    then show ?thesis
      using old lane watermark_ok_cong [OF pend marks [OF False]] by (simp add: view_ok_def)
  next
    case True
    obtain th0 where th0: "thread_of w t = Some th0" "th_lane th0 = lane"
      using view_thread [OF ok v] by metis
    from ok r auth show ?thesis
    proof (cases rule: settled_queue_cases [where p = p and now = now and out = out and err = err
          and e = e and scalar = scalar])
      case (pinned th)
      then show ?thesis using th0 True lane by simp
    next
      case (lease tok q th)
      have "watermark_ok (controls w) (rq w) (cr_thread r) hwm"
        using old True lane by (simp add: view_ok_def)
      then show ?thesis
        unfolding True by (rule settled_watermark [OF ok r lease(8,1,4,5)])
    qed
  qed
  ultimately show ?thesis using old by (auto simp: view_ok_def)
qed

lemma settled_inbox_ok:
  assumes ok: "inbox_ok w" and r: "r \<in> set (controls w)" "cr_outcome r = None"
    and auth: "final_authority w r c = Inr (Inr who)" "one_owner c"
  shows "inbox_ok (settled_world p now c out err r e who scalar w)" (is "inbox_ok ?w")
proof -
  let ?r = "terminal_control now out err (json_object p (ev_payload e)) e who r"
  have db: "db_ok (rq ?w) \<and> (\<forall>u. u \<noteq> cr_thread r \<longrightarrow> control_marks (rq ?w) u = control_marks (rq w) u)"
    using ok r auth
  proof (cases rule: settled_queue_cases [where p = p and now = now and out = out and err = err
        and e = e and scalar = scalar])
    case (lease tok q th)
    then show ?thesis
      using advanced_row(1) [OF inbox_okD(1) [OF ok], of "cr_thread r" q "cr_seq r"]
        row_of_unit [of "rq w" "cr_thread r" q] by (simp add: control_marks_store)
  qed (simp add: inbox_okD(1) [OF ok])
  have "request_view ?r = request_view r" by (simp add: request_view_def)
  then have cs: "map request_view (controls ?w) = map request_view (controls w)"
    using map_put_control [OF inbox_okD(3) [OF ok] r(1), of ?r request_view] by simp
  show ?thesis
  proof (rule inbox_ok_views [OF ok _ settled_world_views [OF ok r(1)] cs])
    show "view_ok (controls ?w) (rq ?w) v" if "v \<in> thread_view ` set (threads w)" for v
    proof -
      obtain t lane hwm where v: "v = (t, lane, hwm)" by (cases v)
      show ?thesis unfolding v using settled_view_ok [OF ok r auth that [unfolded v]] db by blast
    qed
  qed (simp add: db)
qed

lemma finalize_inbox_ok:
  assumes "inbox_ok w" "finalize_control_request p now i c out err w = Inr (st, w')"
  shows "inbox_ok w'"
  using assms(2)
proof (cases rule: finalize_cases)
  case (settled r e err' scalar who)
  then show ?thesis using settled_inbox_ok [OF assms(1) control_of_in] by blast
qed (simp add: assms(1))

section \<open>Adoption, journal and admission keep the invariant\<close>

lemma adopt_cases:
  assumes "adopt_next_pinned w t a gen attach = (b, w')"
  obtains (none) "w' = w" "\<not> b"
  | (adopted) r th where "b" "r \<in> set (controls w)" "cr_thread r = t" "cr_outcome r = None"
      "thread_of w t = Some th" "th_lane th = LANE_PINNED" "pinned_fence w t a gen attach"
      "cr_generation r = Some gen" "w' = put_control (r\<lparr>cr_agent := Some a\<rparr>) w"
proof (cases "oldest_pending t (\<lambda>r. cr_generation r = Some gen) w")
  case None
  then show ?thesis using assms none by (simp add: adopt_next_pinned_def)
next
  case (Some r)
  show ?thesis
  proof (cases "cr_agent r \<noteq> Some a \<and> \<not> has_receipt w r \<and> pinned_fence w t a gen attach")
    case False
    then show ?thesis using assms none Some by (simp add: adopt_next_pinned_def split: if_splits)
  next
    case True
    obtain th where th: "thread_of w t = Some th" "th_lane th = LANE_PINNED"
      using True by (auto simp: pinned_fence_def split: option.splits)
    have "r \<in> set (controls w) \<and> is_pending t r \<and> cr_generation r = Some gen"
      using first_min_in [OF Some [unfolded oldest_pending_def]] by simp
    then show ?thesis
      using assms True Some th adopted [of r th] by (simp add: adopt_next_pinned_def is_pending_def)
  qed
qed

lemma adopt_inbox_ok:
  assumes ok: "inbox_ok w" and step: "adopt_next_pinned w t a gen attach = (b, w')"
  shows "inbox_ok w'"
  using step
proof (cases rule: adopt_cases)
  case (adopted r th)
  let ?r = "r\<lparr>cr_agent := Some a\<rparr>"
  have cs: "controls w' = put_by cr_id ?r (controls w)" using adopted by (simp add: put_control_def)
  have rest: "rq w' = rq w" "threads w' = threads w" using adopted by simp_all
  have set': "set (controls w') = insert ?r (set (controls w) - {r})"
    unfolding cs using set_put_control [OF inbox_okD(3) [OF ok] adopted(2)] by simp
  show ?thesis
  proof (rule inbox_ok_views [OF ok])
    show "map request_view (controls w') = map request_view (controls w)"
      unfolding cs by (rule map_put_control [OF inbox_okD(3) [OF ok] adopted(2)])
        (simp_all add: request_view_def)
    fix v assume v: "v \<in> thread_view ` set (threads w)"
    obtain u lane hwm where u: "v = (u, lane, hwm)" by (cases v)
    have old: "view_ok (controls w) (rq w) (u, lane, hwm)" using ok v u by (auto simp: inbox_ok_def)
    obtain th0 where th0: "thread_of w u = Some th0" "th_lane th0 = lane"
      using view_thread [OF ok v [unfolded u]] by metis
    have "watermark_ok (controls w') (rq w) u hwm" if "lane = LANE_STATELESS"
    proof -
      have "u \<noteq> t" using that th0 adopted(5,6) by auto
      then have "set (pending_of (controls w') u) = set (pending_of (controls w) u)"
        using adopted(3) by (auto simp: pending_of_def is_pending_def set')
      then show ?thesis using old that watermark_ok_cong [of "controls w'" u "controls w"]
        by (simp add: view_ok_def)
    qed
    then show "view_ok (controls w') (rq w') v"
      using old adopted(2) by (auto simp: view_ok_def u rest set')
  qed (simp_all add: rest inbox_okD(1) [OF ok])
qed (simp add: ok)

lemma insert_event_cases:
  assumes "insert_event epoch e w = Inr (n, w')"
  obtains (none) "w' = w" "n = 0"
  | (inserted) th where "thread_of w (ev_thread e) = Some th" "th_epoch th = epoch"
      "ev_epoch e = epoch" "\<not> event_conflict w e" "n = 1"
      "w' = put_thread (th\<lparr>th_events_hwm := max (th_events_hwm th) (ev_seq e)\<rparr>)
              (w\<lparr>events := events w @ [e]\<rparr>)"
  using assms by (auto simp: insert_event_def split: option.splits if_splits)

lemma insert_event_inbox_ok:
  assumes ok: "inbox_ok w" and step: "insert_event epoch e w = Inr (n, w')"
  shows "inbox_ok w'"
  using step
proof (cases rule: insert_event_cases)
  case (inserted th)
  let ?th = "th\<lparr>th_events_hwm := max (th_events_hwm th) (ev_seq e)\<rparr>"
  have th: "thread_of w (th_id ?th) = Some th" using inserted(1) thread_of_id [of w "ev_thread e"] by simp
  have "threads w' = threads (put_thread ?th w)" by (simp add: inserted put_thread_def)
  then have "map thread_view (threads w') = map thread_view (threads w)"
    using put_thread_views [OF inbox_okD(2) [OF ok] th] by (simp add: thread_view_def)
  then show ?thesis
    using inserted inbox_okD(1) [OF ok] by (intro inbox_frame [OF ok]) simp_all
qed (simp add: ok)

lemma journal_inbox_ok:
  assumes "inbox_ok w" "write_control_receipt wr sq kind params i w = Inr (n, w')"
  shows "inbox_ok w'"
  using assms insert_event_inbox_ok [OF assms(1)]
  by (auto simp: write_control_receipt_def split: if_splits)

text \<open>The two ways in which an admission succeeds.\<close>

lemma admit_cases:
  assumes "admit_thread_control p wc up seen now i t owner client verb payload expected rg w = Inr (a, w')"
  obtains (duplicate) r th where "thread_of w t = Some th" "existing_control w t client = Some r"
      "same_content p verb payload r" "a = duplicate_of r" "w' = w"
  | (fresh) th agent where "thread_of w t = Some th" "th_user th = owner"
      "existing_control w t client = None"
      "request_refusal th verb payload expected rg = None" "lane_admission wc verb w th = Inr agent"
      "admit_new seen now i th owner client verb payload agent w = Inr (a, w')"
  using assms
  by (auto simp: admit_thread_control_def bind_ok_Inr split: option.splits if_splits)

lemma admit_new_cases:
  assumes "admit_new seen now i th owner client verb payload agent w = Inr (a, w')"
  obtains (other) "th_lane th \<noteq> LANE_STATELESS" "rq w' = rq w"
      "threads w' = threads (put_thread (th\<lparr>th_control_hwm := th_control_hwm th + 1\<rparr>) w)"
      "controls w' = controls w @ [new_control i (th_id th) (th_control_hwm th + 1) client verb payload
         agent (Some (th_generation th))]" "events w' = events w" "ad_seq a = th_control_hwm th + 1"
  | (stateless) st base fair d where "th_lane th = LANE_STATELESS" "rq w' = d"
      "threads w' = threads (put_thread (th\<lparr>th_control_hwm := th_control_hwm th + 1\<rparr>) w)"
      "controls w' = controls w @ [new_control i (th_id th) (th_control_hwm th + 1) client verb payload
         agent (Some (th_generation th))]" "events w' = events w"
      "record_control_seq seen now (th_id th) UNIT_KIND_SESSION_TURN (th_control_hwm th + 1) base fair
         (rq w) = Inr (st, d)" "st \<noteq> Parked" "ad_seq a = th_control_hwm th + 1"
  using assms
  by (auto simp: admit_new_def Let_def put_thread_def split: if_splits sum.splits)

lemma pending_of_append:
  "set (pending_of (cs @ [r]) t) =
   (if is_pending t r then insert r (set (pending_of cs t)) else set (pending_of cs t))"
  by (simp add: pending_of_def)

lemma new_control_fields [simp]:
  "cr_id (new_control i t sq client verb payload agent gen) = i"
  "cr_thread (new_control i t sq client verb payload agent gen) = t"
  "cr_seq (new_control i t sq client verb payload agent gen) = sq"
  "cr_client (new_control i t sq client verb payload agent gen) = client"
  "cr_agent (new_control i t sq client verb payload agent gen) = agent"
  "cr_outcome (new_control i t sq client verb payload agent gen) = None"
  by (simp_all add: new_control_def)

text \<open>
  The watermark across an admission: the baseline jump of the queue keeps the pending set
  contiguous although request numbers are global to the session.
\<close>

lemma admitted_watermark:
  assumes old: "watermark_ok cs d t hwm" "0 \<le> hwm"
    and none: "\<forall>x \<in> set (pending_of cs t). cr_agent x = None"
    and rec: "record_control_seq seen now t kind (hwm + 1) base fair d = Inr (st, d')"
    and r: "cr_thread r = t" "cr_outcome r = None" "cr_seq r = hwm + 1" "cr_agent r = None"
  shows "watermark_ok (cs @ [r]) d' t (hwm + 1)"
proof -
  have new: "cr_seq ` set (waiting_of (cs @ [r]) t) = insert (hwm + 1) (cr_seq ` set (waiting_of cs t))"
    using r by (simp add: waiting_of_def pending_of_def is_pending_def)
  have agents: "\<forall>x \<in> set (pending_of (cs @ [r]) t). cr_agent x = None"
    using none r by (auto simp: pending_of_append)
  show ?thesis
  proof (cases "row_of d t")
    case None
    then have "control_marks d t = (0, 0)" by (simp add: control_marks_def)
    moreover have "control_marks d' t = (hwm, hwm + 1)"
      using record_control_marks [OF rec, of t] None by simp
    ultimately show ?thesis using old new agents by (auto simp: watermark_ok_def)
  next
    case (Some q)
    then have m: "control_marks d t = (control_consumed_seq q, control_input_seq q)"
      by (simp add: control_marks_def)
    have m': "control_marks d' t = (control_baseline (hwm + 1) q, max (control_input_seq q) (hwm + 1))"
      using record_control_marks [OF rec, of t] Some by simp
    show ?thesis
      using old new agents unfolding watermark_ok_def m m'
      by (cases "control_input_seq q = control_consumed_seq q") (auto simp: control_baseline_def)
  qed
qed

lemma stateless_admission_facts:
  assumes "lane_admission wc verb w th = Inr agent" "th_lane th = LANE_STATELESS"
  shows "agent = None" "th_agent th = None"
    "\<forall>r \<in> set (controls w). is_pending (th_id th) r \<longrightarrow> cr_agent r = None"
  using assms
  by (auto simp: lane_admission_def stateless_admission_def split: prod.splits option.splits if_splits)

lemma admit_new_rq:
  assumes "admit_new seen now i th owner client verb payload agent w = Inr (a, w')" "db_ok (rq w)"
  shows "db_ok (rq w')" "u \<noteq> th_id th \<Longrightarrow> control_marks (rq w') u = control_marks (rq w) u"
  using assms(1)
  by (cases rule: admit_new_cases;
      simp add: assms(2) record_control_ok record_control_marks)+

lemma admit_new_tables:
  assumes "admit_new seen now i th owner client verb payload agent w = Inr (a, w')"
  shows "threads w' = threads (put_thread (th\<lparr>th_control_hwm := th_control_hwm th + 1\<rparr>) w)"
    "controls w' = controls w @ [new_control i (th_id th) (th_control_hwm th + 1) client verb payload
         agent (Some (th_generation th))]"
    "ad_seq a = th_control_hwm th + 1" "events w' = events w"
  using assms by (cases rule: admit_new_cases; simp)+

lemma admit_new_view:
  assumes ok: "inbox_ok w" and th: "thread_of w t = Some th"
    and lane: "lane_admission wc verb w th = Inr agent"
    and new: "admit_new seen now i th owner client verb payload agent w = Inr (a, w')"
    and v: "v \<in> thread_view ` set (threads w')"
  shows "view_ok (controls w') (rq w') v"
proof -
  let ?h = "th_control_hwm th" let ?r = "new_control i t (?h + 1) client verb payload agent (Some (th_generation th))"
  have t: "th_id th = t" using thread_of_id [OF th] .
  have cs: "controls w' = controls w @ [?r]" using admit_new_tables(2) [OF new] by (simp add: t)
  have old: "view_ok (controls w) (rq w) (t, th_lane th, ?h)" using inbox_ok_view [OF ok th] .
  have vs: "v = (t, th_lane th, ?h + 1) \<or> (v \<in> thread_view ` set (threads w) \<and> fst v \<noteq> t)"
    using v t unfolding admit_new_tables(1) [OF new]
    by (auto simp: put_thread_def thread_view_def dest!: subsetD [OF set_put_subset])
  show ?thesis
  proof (cases "v = (t, th_lane th, ?h + 1)")
    case True
    have "watermark_ok (controls w') (rq w') t (?h + 1)" if st: "th_lane th = LANE_STATELESS"
      using new
    proof (cases rule: admit_new_cases)
      case (stateless st' base fair d)
      have "watermark_ok (controls w) (rq w) t ?h" "0 \<le> ?h" using old st by (simp_all add: view_ok_def)
      moreover have "\<forall>x \<in> set (pending_of (controls w) t). cr_agent x = None"
        using stateless_admission_facts(3) [OF lane st] t by (simp add: pending_of_def)
      moreover have "cr_agent ?r = None" using stateless_admission_facts(1) [OF lane st] by simp
      ultimately show ?thesis
        using admitted_watermark [OF _ _ _ stateless(6) [unfolded t], of "controls w" ?r] stateless(2)
        by (simp add: cs)
    qed (use st in simp)
    then show ?thesis using old True by (auto simp: view_ok_def cs)
  next
    case False
    then obtain u lane hwm where u: "v = (u, lane, hwm)" "u \<noteq> t" "v \<in> thread_view ` set (threads w)"
      using vs by (cases v) auto
    have "view_ok (controls w) (rq w) (u, lane, hwm)" using ok u by (auto simp: inbox_ok_def)
    moreover have "set (pending_of (controls w') u) = set (pending_of (controls w) u)"
      using u(2) by (simp add: cs pending_of_def is_pending_def)
    moreover have marks: "control_marks (rq w') u = control_marks (rq w) u"
      using admit_new_rq(2) [OF new inbox_okD(1) [OF ok]] u(2) t by simp
    ultimately show ?thesis
      using u(2) watermark_ok_cong [of "controls w'" u "controls w" "rq w'" "rq w"]
      by (simp add: view_ok_def u(1)) (simp add: cs)
  qed
qed

lemma existing_control_None:
  "existing_control w t client = None \<longleftrightarrow>
   (t, client) \<notin> (\<lambda>r. (cr_thread r, cr_client r)) ` set (controls w)"
  by (auto simp: existing_control_def find_None_iff)

lemma admit_new_inbox_ok:
  assumes ok: "inbox_ok w" and th: "thread_of w t = Some th"
    and fresh: "control_of w i = None" "existing_control w t client = None"
    and lane: "lane_admission wc verb w th = Inr agent"
    and new: "admit_new seen now i th owner client verb payload agent w = Inr (a, w')"
  shows "inbox_ok w'"
proof -
  let ?h = "th_control_hwm th"
  have t: "th_id th = t" using thread_of_id [OF th] .
  have cs: "controls w' = controls w @ [new_control i t (?h + 1) client verb payload agent (Some (th_generation th))]"
    using admit_new_tables(2) [OF new] by (simp add: t)
  have ids: "map th_id (threads w') = map th_id (threads w)"
    using admit_new_tables(1) [OF new] by (simp add: put_thread_def map_key_put)
  have tids: "th_id ` set (threads w') = th_id ` set (threads w)" by (metis ids set_map)
  have "cr_seq r \<le> ?h" if "r \<in> set (controls w)" "cr_thread r = t" for r
    using inbox_ok_view [OF ok th] that by (auto simp: view_ok_def)
  then have "(t, ?h + 1) \<notin> (\<lambda>r. (cr_thread r, cr_seq r)) ` set (controls w)" by fastforce
  moreover have "i \<notin> cr_id ` set (controls w)"
    using fresh(1) by (simp add: control_of_def find_by_None)
  moreover have "t \<in> th_id ` set (threads w)"
    using th t by (auto simp: thread_of_def dest: find_by_Some_set)
  ultimately show ?thesis
    using ok fresh(2) admit_new_rq(1) [OF new inbox_okD(1) [OF ok]] admit_new_view [OF ok th lane new]
    unfolding inbox_ok_def ids tids by (simp add: cs existing_control_None)
qed

lemma admit_inbox_ok:
  assumes "inbox_ok w" "control_of w i = None"
    "admit_thread_control p wc up seen now i t owner client verb payload expected rg w = Inr (a, w')"
  shows "inbox_ok w'"
  using assms(3)
proof (cases rule: admit_cases)
  case (fresh th agent)
  then show ?thesis using admit_new_inbox_ok [OF assms(1)] assms(2) by blast
qed (simp add: assms(1))

end
