(* ===== verification/Thread_Interrupts.thy ===== *)
theory Thread_Interrupts
  imports Control_Drain
begin

text \<open>
  The session interrupt inbox: \<^verbatim>\<open>src/shared/thread_interrupts/queries.py\<close>, its admission in
  \<^verbatim>\<open>src/orchestrator/services/thread_interrupt_inbox.py\<close>, and the owner's half in
  \<^verbatim>\<open>src/agent/api/persistent_app.py\<close>. A request names the exact lease token and turn that
  were running when it was admitted. An applied interrupt consumes the human message of that turn
  once, marked in the result of every sibling request. A function that raises rolls its
  transaction back.
\<close>

section \<open>Reads\<close>

definition interrupt_owner :: "world \<Rightarrow> uuid \<Rightarrow> int \<Rightarrow> bool" where
  "interrupt_owner w t tok =
     (case thread_of w t of None \<Rightarrow> False
      | Some th \<Rightarrow> th_lane th = LANE_STATELESS \<and> th_agent th = None \<and> live_lease t tok (rq w))"

definition consumed_key :: pytext where "consumed_key = lit ''consumed_input_seq''"

definition fetch_next_interrupt_request ::
  "world \<Rightarrow> uuid \<Rightarrow> int \<Rightarrow> int \<Rightarrow> interrupt_request option" where
  "fetch_next_interrupt_request w t tok turn =
     (if interrupt_owner w t tok
      then first_min (\<lambda>r. (ir_requested_at r, ir_id r))
        (filter (\<lambda>r. ir_thread r = t \<and> ir_outcome r = None \<and> ir_token r = tok \<and> ir_turn r = turn)
          (interrupts w))
      else None)"

text \<open>Requests of older leases that still lack an outcome or an input marker.\<close>

definition unsettled :: "interrupt_request \<Rightarrow> bool" where
  "unsettled r \<longleftrightarrow>
     ir_outcome r = None \<or> (ir_outcome r = Some Applied \<and> consumed_key \<notin> keys (ir_result r))"

definition fetch_stale_interrupt_requests :: "world \<Rightarrow> uuid \<Rightarrow> int \<Rightarrow> interrupt_request list" where
  "fetch_stale_interrupt_requests w t tok =
     (if interrupt_owner w t tok
      then sort_key (\<lambda>r. (ir_token r, ir_turn r, ir_requested_at r, ir_id r))
        (filter (\<lambda>r. ir_thread r = t \<and> unsettled r \<and> ir_token r < tok) (interrupts w))
      else [])"

definition fetch_next_stale_interrupt_request :: "world \<Rightarrow> uuid \<Rightarrow> int \<Rightarrow> interrupt_request option" where
  "fetch_next_stale_interrupt_request w t tok =
     (case fetch_stale_interrupt_requests w t tok of [] \<Rightarrow> None | r # _ \<Rightarrow> Some r)"

definition fetch_interrupt_receipt :: "world \<Rightarrow> uuid \<Rightarrow> uuid \<Rightarrow> event option" where
  "fetch_interrupt_receipt w t i = find (\<lambda>e. ev_thread e = t \<and> ev_interrupt e = Some i) (events w)"

definition interrupt_modes :: "pytext list" where
  "interrupt_modes = [lit ''hard'', lit ''graceful'']"

type_synonym interrupt_verdict = "outcome \<times> pytext option \<times> pytext option"

definition interrupt_receipt_result ::
  "py \<Rightarrow> uuid \<Rightarrow> uuid \<Rightarrow> int \<Rightarrow> pytext \<Rightarrow> json \<Rightarrow> interrupt_verdict option" where
  "interrupt_receipt_result p i client turn kind event_payload =
     (let ev = json_object p event_payload;
          mode = str_or_empty p (jget ev (lit ''mode''));
          code = str_or_empty p (jget ev (lit ''error_code''))
      in case py_int p (jget ev (lit ''target_turn_id'')) of None \<Rightarrow> None
         | Some n \<Rightarrow>
             if kind \<noteq> lit ''interrupt.ack'' \<or>
                str_or_empty p (jget ev (lit ''request_id'')) \<noteq> uuid_text i \<or>
                str_or_empty p (jget ev (lit ''client_request_id'')) \<noteq> uuid_text client \<or> n \<noteq> turn
             then None
             else case jget ev (lit ''applied'') of
               JBool b \<Rightarrow>
                 if b then (if mode \<notin> set interrupt_modes \<or> jget ev (lit ''error_code'') \<noteq> JNull then None
                            else Some (Applied, Some mode, None))
                 else (if code = [] \<or> jget ev (lit ''mode'') \<noteq> JNull then None
                       else Some (Rejected, None, Some code))
             | _ \<Rightarrow> None)"

definition interrupt_verdict :: "py \<Rightarrow> interrupt_request \<Rightarrow> event \<Rightarrow> interrupt_verdict option" where
  "interrupt_verdict p r e =
     interrupt_receipt_result p (ir_id r) (ir_client r) (ir_turn r) (ev_kind e) (ev_payload e)"

section \<open>Consuming the interrupted input\<close>

record consumption =
  ic_consumed_seq :: int
  ic_state :: qstate
  ic_pending_input :: bool
  ic_pending_control :: bool
  ic_advanced :: bool

datatype settle_mode = Live | Idle | Idle_Terminal

definition settle_guard :: "settle_mode \<Rightarrow> int \<Rightarrow> row \<Rightarrow> bool" where
  "settle_guard mode cur q \<longleftrightarrow>
     unit_kind q = UNIT_KIND_SESSION_TURN \<and> lease_token q = cur \<and>
     (case mode of Live \<Rightarrow> state q = Leased
      | Idle \<Rightarrow> state q \<in> {Queued, Parked} \<and> leased_by q = None \<and> leased_until q = None
      | Idle_Terminal \<Rightarrow> state q \<in> {Queued, Parked, Done} \<and> leased_by q = None \<and> leased_until q = None)"

definition settle_input_eff :: "settle_mode \<Rightarrow> secs \<Rightarrow> int \<Rightarrow> row \<Rightarrow> row" where
  "settle_input_eff mode now c q =
     (let q1 = q\<lparr>consumed_seq := sql_greatest (consumed_seq q) (Some c),
                 attempts_since_completion := 0\<rparr>;
          idled = q1\<lparr>queued_at := now, run_after := now, leased_by := None, leased_until := None,
                     interrupt_admission_lease_token := None, interrupt_admission_turn_id := None\<rparr>
      in case mode of Live \<Rightarrow> q1
         | Idle_Terminal \<Rightarrow> idled\<lparr>state := Queued\<rparr>
         | Idle \<Rightarrow>
             idled\<lparr>state :=
               (if (case input_seq q of None \<Rightarrow> False
                    | Some i \<Rightarrow> max (case_option (-1) id (consumed_seq q)) c < i) \<or> control_pending q
                then Queued else Done)\<rparr>)"

definition in_group :: "uuid \<Rightarrow> int \<Rightarrow> int \<Rightarrow> interrupt_request \<Rightarrow> bool" where
  "in_group t acc turn r \<longleftrightarrow>
     ir_thread r = t \<and> ir_token r = acc \<and> ir_turn r = turn \<and> ir_outcome r = Some Applied"

text \<open>The markers of a group of siblings; a marker that is not an integer raises.\<close>

fun markers_of :: "py \<Rightarrow> interrupt_request list \<Rightarrow> int list option" where
  "markers_of p [] = Some []"
| "markers_of p (r # rs) =
     (case jget (ir_result r) consumed_key of
        JNull \<Rightarrow> markers_of p rs
      | v \<Rightarrow> (case py_int p v of None \<Rightarrow> None
              | Some n \<Rightarrow> map_option (List.insert n) (markers_of p rs)))"

definition human_inputs :: "world \<Rightarrow> uuid \<Rightarrow> int \<Rightarrow> int list" where
  "human_inputs w t turn =
     map msg_seq (filter (\<lambda>m. msg_thread m = t \<and> msg_role m = ''human'' \<and> \<not> msg_rewound m \<and>
                              msg_turn m = Some turn) (messages (rq w)))"

text \<open>The input to consume and whether the watermark advances, from the marker or from the turn.\<close>

definition consumed_input :: "py \<Rightarrow> world \<Rightarrow> uuid \<Rightarrow> int \<Rightarrow> interrupt_request list \<Rightarrow> row \<Rightarrow> exn + int \<times> bool" where
  "consumed_input p w t turn rows q =
     (case markers_of p rows of None \<Rightarrow> Inl Exn_Runtime
      | Some [] \<Rightarrow>
          (case human_inputs w t turn of
             [c] \<Rightarrow> Inr (c, case consumed_seq q of None \<Rightarrow> True | Some x \<Rightarrow> x < c)
           | _ \<Rightarrow> Inl Exn_Runtime)
      | Some [c] \<Rightarrow>
          (case consumed_seq q of None \<Rightarrow> Inl Exn_Runtime
           | Some x \<Rightarrow> if x < c then Inl Exn_Runtime else Inr (c, False))
      | _ \<Rightarrow> Inl Exn_Runtime)"

definition input_marker :: "settle_mode \<Rightarrow> int \<Rightarrow> int \<Rightarrow> int \<Rightarrow> fields" where
  "input_marker mode cur acc c =
     [(consumed_key, JInt c), (lit ''input_settled_by_lease_token'', JInt cur),
      (lit ''input_settlement'',
       JStr (if mode \<noteq> Live \<or> acc < cur then lit ''lease_recovery'' else lit ''lease_owner''))]"

definition stamp_group :: "uuid \<Rightarrow> int \<Rightarrow> int \<Rightarrow> fields \<Rightarrow> world \<Rightarrow> world" where
  "stamp_group t acc turn marker w =
     w\<lparr>interrupts := map (\<lambda>r. if in_group t acc turn r
                             then r\<lparr>ir_result := merged (ir_result r) marker\<rparr> else r) (interrupts w)\<rparr>"

definition consumption_of :: "bool \<Rightarrow> row \<Rightarrow> consumption" where
  "consumption_of adv q =
     (let c = case_option 0 id (consumed_seq q) in
      \<lparr>ic_consumed_seq = c, ic_state = state q,
       ic_pending_input = (case input_seq q of None \<Rightarrow> False | Some i \<Rightarrow> c < i),
       ic_pending_control = control_pending q, ic_advanced = adv\<rparr>)"

definition stateless_thread :: "world \<Rightarrow> uuid \<Rightarrow> bool" where
  "stateless_thread w t =
     (case thread_of w t of None \<Rightarrow> False
      | Some th \<Rightarrow> th_lane th = LANE_STATELESS \<and> th_agent th = None)"

definition consume_applied_interrupt_input ::
  "py \<Rightarrow> secs \<Rightarrow> uuid \<Rightarrow> int \<Rightarrow> int \<Rightarrow> int \<Rightarrow> uuid \<Rightarrow> settle_mode \<Rightarrow> world
   \<Rightarrow> exn + consumption option \<times> world" where
  "consume_applied_interrupt_input p now t cur acc turn i mode w =
     (if cur \<le> 0 \<or> acc \<le> 0 \<or> turn \<le> 0 then Inl Exn_Value
      else if cur < acc then Inl Exn_Value
      else if \<not> stateless_thread w t then Inr (None, w)
      else case row_of (rq w) t of None \<Rightarrow> Inr (None, w)
      | Some q \<Rightarrow>
          if \<not> settle_guard mode cur q then Inr (None, w)
          else let rows = filter (in_group t acc turn) (interrupts w) in
            if \<forall>r \<in> set rows. ir_id r \<noteq> i then Inr (None, w)
            else bind_ok (consumed_input p w t turn rows q) (\<lambda>(c, adv).
              let q' = settle_input_eff mode now c q in
              if dedup_conflict (queue (rq w)) q' then Inl Exn_Unique
              else Inr (Some (consumption_of adv q'),
                        put_queue q' (stamp_group t acc turn (input_marker mode cur acc c) w))))"

definition consume_applied_interrupt_input_live ::
  "py \<Rightarrow> secs \<Rightarrow> uuid \<Rightarrow> int \<Rightarrow> int \<Rightarrow> int \<Rightarrow> uuid \<Rightarrow> world \<Rightarrow> exn + consumption option \<times> world" where
  "consume_applied_interrupt_input_live p now t cur acc turn i w =
     consume_applied_interrupt_input p now t cur acc turn i Live w"

definition consume_applied_interrupt_input_idle ::
  "py \<Rightarrow> secs \<Rightarrow> uuid \<Rightarrow> int \<Rightarrow> int \<Rightarrow> int \<Rightarrow> uuid \<Rightarrow> bool \<Rightarrow> world
   \<Rightarrow> exn + consumption option \<times> world" where
  "consume_applied_interrupt_input_idle p now t cur acc turn i terminal w =
     consume_applied_interrupt_input p now t cur acc turn i (if terminal then Idle_Terminal else Idle) w"

section \<open>Terminalization\<close>

datatype interrupt_status =
  Interrupt_Final outcome | Interrupt_Terminal | Interrupt_Missing | Interrupt_No_Receipt
| Interrupt_Invalid | Interrupt_Lost_Owner

definition interrupt_result :: "interrupt_request \<Rightarrow> outcome \<Rightarrow> pytext option \<Rightarrow> pytext option \<Rightarrow> fields" where
  "interrupt_result r out mode err =
     [(lit ''request_id'', JStr (uuid_text (ir_id r))),
      (lit ''client_request_id'', JStr (uuid_text (ir_client r))),
      (lit ''target_turn_id'', JInt (ir_turn r)), (lit ''applied'', JBool (out = Applied))]
     @ (case mode of None \<Rightarrow> [] | Some m \<Rightarrow> [(lit ''mode'', JStr m)])
     @ (case err of None \<Rightarrow> [] | Some c \<Rightarrow> [(lit ''error_code'', JStr c)])"

definition put_interrupt :: "interrupt_request \<Rightarrow> world \<Rightarrow> world" where
  "put_interrupt r w = w\<lparr>interrupts := put_by ir_id r (interrupts w)\<rparr>"

definition terminal_interrupt ::
  "secs \<Rightarrow> outcome \<Rightarrow> fields \<Rightarrow> pytext option \<Rightarrow> pytext option \<Rightarrow> int \<Rightarrow> int \<times> int
   \<Rightarrow> interrupt_request \<Rightarrow> interrupt_request" where
  "terminal_interrupt now out result mode err tok journal r =
     r\<lparr>ir_outcome := Some out, ir_result := result, ir_mode := mode, ir_applied_at := Some now,
       ir_applied_token := Some tok, ir_journal := Some journal, ir_error := err\<rparr>"

definition terminal_fields_ok :: "outcome \<Rightarrow> pytext option \<Rightarrow> pytext option \<Rightarrow> bool" where
  "terminal_fields_ok out mode err =
     (case out of
        Applied \<Rightarrow> (case mode of None \<Rightarrow> False | Some m \<Rightarrow> m \<in> set interrupt_modes) \<and> err \<in> {None, Some []}
      | Rejected \<Rightarrow> mode = None \<and> err \<notin> {None, Some []})"

definition finalize_interrupt_request ::
  "py \<Rightarrow> secs \<Rightarrow> uuid \<Rightarrow> uuid \<Rightarrow> int \<Rightarrow> int \<Rightarrow> outcome \<Rightarrow> pytext option \<Rightarrow> pytext option \<Rightarrow> int option
   \<Rightarrow> bool \<Rightarrow> world \<Rightarrow> exn + interrupt_status \<times> world" where
  "finalize_interrupt_request p now i t tok turn out mode err accepted stale w =
     (let req = case_option tok id accepted in
      if \<not> terminal_fields_ok out mode err then Inl Exn_Value
      else if (if stale then tok \<le> req else req \<noteq> tok) then Inl Exn_Value
      else if \<not> interrupt_owner w t tok then Inr (Interrupt_Lost_Owner, w)
      else case interrupt_of w i of None \<Rightarrow> Inr (Interrupt_Missing, w)
      | Some r \<Rightarrow>
          if ir_thread r \<noteq> t \<or> ir_token r \<noteq> req \<or> ir_turn r \<noteq> turn
          then Inr (Interrupt_Lost_Owner, w)
          else if ir_outcome r \<noteq> None then Inr (Interrupt_Terminal, w)
          else case fetch_interrupt_receipt w t i of None \<Rightarrow> Inr (Interrupt_No_Receipt, w)
          | Some e \<Rightarrow>
              if interrupt_verdict p r e \<noteq> Some (out, mode, err) then Inr (Interrupt_Invalid, w)
              else
                let w1 = put_interrupt (terminal_interrupt now out (interrupt_result r out mode err) mode err
                           req (ev_epoch e, ev_seq e) r) w in
                if out \<noteq> Applied then Inr (Interrupt_Final out, w1)
                else bind_ok (consume_applied_interrupt_input_live p now t tok req turn i w1)
                  (\<lambda>(res, w2). case res of None \<Rightarrow> Inl Exn_Runtime
                     | Some _ \<Rightarrow> Inr (Interrupt_Final out, w2)))"

end
