(* ===== verification/Interrupt_Owner.thy ===== *)
theory Interrupt_Owner
  imports Thread_Interrupts
begin

text \<open>
  Admission of interrupts in \<^verbatim>\<open>src/orchestrator/services/thread_interrupt_inbox.py\<close>, the
  owner's journal write and drain loop in \<^verbatim>\<open>src/agent/api/persistent_app.py\<close>, and the
  signal it gives the running turn in \<^verbatim>\<open>src/agent/api/session_input.py\<close>.
\<close>

section \<open>Admission\<close>

definition STATELESS_STOP_KEYS :: "pytext set" where
  "STATELESS_STOP_KEYS =
     lit ` {''_stateless_workspace_retirement_pending'', ''_stateless_claim_retirement'',
            ''_stateless_claim_losses'', ''_stateless_claim_loss_hold''}"

text \<open>The markers in a metadata root; a root that is no object raises.\<close>

definition stateless_stop_markers :: "py \<Rightarrow> json \<Rightarrow> exn + pytext set" where
  "stateless_stop_markers p metadata =
     (case metadata of
        JObj d \<Rightarrow> Inr (STATELESS_STOP_KEYS \<inter> keys d)
      | JStr s \<Rightarrow> (case py_loads p s of Some (JObj d) \<Rightarrow> Inr (STATELESS_STOP_KEYS \<inter> keys d)
                  | _ \<Rightarrow> Inl Exn_Runtime)
      | _ \<Rightarrow> Inl Exn_Runtime)"

record admitted_interrupt =
  ai_id :: uuid
  ai_client :: uuid
  ai_turn :: int
  ai_token :: int
  ai_leased_by :: pytext
  ai_state :: "outcome option"
  ai_duplicate :: bool

definition interrupt_admitted :: "interrupt_request \<Rightarrow> bool \<Rightarrow> admitted_interrupt" where
  "interrupt_admitted r dup =
     \<lparr>ai_id = ir_id r, ai_client = ir_client r, ai_turn = ir_turn r, ai_token = ir_token r,
      ai_leased_by = ir_leased_by r, ai_state = ir_outcome r, ai_duplicate = dup\<rparr>"

definition existing_interrupt :: "world \<Rightarrow> uuid \<Rightarrow> uuid \<Rightarrow> interrupt_request option" where
  "existing_interrupt w t client = find (\<lambda>r. ir_thread r = t \<and> ir_client r = client) (interrupts w)"

definition find_existing_thread_interrupt ::
  "uuid \<Rightarrow> uuid option \<Rightarrow> uuid \<Rightarrow> int \<Rightarrow> world \<Rightarrow> string + admitted_interrupt option" where
  "find_existing_thread_interrupt t owner client turn w =
     (case (thread_of w t, existing_interrupt w t client) of
        (Some th, Some r) \<Rightarrow>
          if th_user th \<noteq> owner then Inr None
          else if ir_turn r \<noteq> turn then Inl ''different_turn''
          else Inr (Some (interrupt_admitted r True))
      | _ \<Rightarrow> Inr None)"

text \<open>The gate: the row is leased and advertises exactly this turn under its current token.\<close>

definition gate_open :: "int \<Rightarrow> row \<Rightarrow> bool" where
  "gate_open turn q \<longleftrightarrow>
     unit_kind q = UNIT_KIND_SESSION_TURN \<and> state q = Leased \<and>
     (case leased_by q of None \<Rightarrow> False | Some b \<Rightarrow> strip (lit b) \<noteq> []) \<and>
     interrupt_admission_lease_token q = Some (lease_token q) \<and>
     interrupt_admission_turn_id q = Some turn"

definition interrupt_refusal ::
  "py \<Rightarrow> (thread \<Rightarrow> string \<times> string option) \<Rightarrow> thread \<Rightarrow> string option" where
  "interrupt_refusal p workspace_check th =
     (if th_lane th \<noteq> LANE_STATELESS \<or> th_agent th \<noteq> None then Some ''lane''
      else if th_status th \<notin> {''created'', ''active'', ''awaiting_user''} then Some ''status''
      else if snd (workspace_check th) \<noteq> None then Some ''workspace''
      else case stateless_stop_markers p (th_metadata th) of
        Inl _ \<Rightarrow> Some ''metadata''
      | Inr ms \<Rightarrow> if ms \<noteq> {} then Some ''stopping'' else None)"

definition new_interrupt :: "uuid \<Rightarrow> secs \<Rightarrow> uuid \<Rightarrow> uuid \<Rightarrow> int \<Rightarrow> row \<Rightarrow> interrupt_request" where
  "new_interrupt i now t client turn q =
     \<lparr>ir_id = i, ir_thread = t, ir_client = client, ir_turn = turn, ir_token = lease_token q,
      ir_leased_by = strip (case leased_by q of None \<Rightarrow> lit ''None'' | Some b \<Rightarrow> lit b),
      ir_requested_at = now, ir_outcome = None, ir_result = [], ir_mode = None, ir_applied_at = None,
      ir_applied_token = None, ir_journal = None, ir_error = None\<rparr>"

definition admit_thread_interrupt ::
  "py \<Rightarrow> (thread \<Rightarrow> string \<times> string option) \<Rightarrow> uuid \<Rightarrow> secs \<Rightarrow> uuid \<Rightarrow> uuid option \<Rightarrow> uuid \<Rightarrow> int \<Rightarrow> world
   \<Rightarrow> string + admitted_interrupt \<times> world" where
  "admit_thread_interrupt p workspace_check i now t owner client turn w =
     (case thread_of w t of None \<Rightarrow> Inl ''unavailable''
      | Some th \<Rightarrow>
          if th_user th \<noteq> owner then Inl ''unavailable''
          else case existing_interrupt w t client of
            Some r \<Rightarrow> if ir_turn r \<noteq> turn then Inl ''different_turn'' else Inr (interrupt_admitted r True, w)
          | None \<Rightarrow>
              (case interrupt_refusal p workspace_check th of Some m \<Rightarrow> Inl m
               | None \<Rightarrow>
                   (case row_of (rq w) t of None \<Rightarrow> Inl ''not_accepting''
                    | Some q \<Rightarrow>
                        if \<not> gate_open turn q then Inl ''not_accepting''
                        else let r = new_interrupt i now t client turn q in
                          Inr (interrupt_admitted r False, w\<lparr>interrupts := interrupts w @ [r]\<rparr>))))"

section \<open>The journal write of an acknowledgement\<close>

definition lockable_interrupt :: "world \<Rightarrow> uuid \<Rightarrow> int \<Rightarrow> uuid \<Rightarrow> bool" where
  "lockable_interrupt w t acc i =
     (case interrupt_of w i of None \<Rightarrow> False
      | Some r \<Rightarrow> ir_thread r = t \<and> ir_token r = acc \<and> ir_outcome r = None)"

definition write_interrupt_receipt ::
  "writer \<Rightarrow> int \<Rightarrow> int option \<Rightarrow> bool \<Rightarrow> int \<Rightarrow> pytext \<Rightarrow> fields \<Rightarrow> uuid \<Rightarrow> world \<Rightarrow> exn + int \<times> world" where
  "write_interrupt_receipt wr tok accepted stale sq kind params i w =
     (let acc = case_option tok id accepted in
      if cred_lease (wr_cred wr) = None then Inr (0, w)
      else if (if stale then tok \<le> acc else acc \<noteq> tok) then Inr (0, w)
      else if \<not> interrupt_owner w (wr_thread wr) tok then Inr (0, w)
      else if \<not> lockable_interrupt w (wr_thread wr) acc i then Inr (0, w)
      else insert_event (wr_epoch wr)
             \<lparr>ev_thread = wr_thread wr, ev_epoch = wr_epoch wr, ev_seq = sq, ev_kind = kind,
              ev_payload = JObj params, ev_control = None, ev_interrupt = Some i,
              ev_permission = None\<rparr> w)"

section \<open>Signalling the turn\<close>

record turn_state =
  ts_turn :: "int option" \<comment> \<open>turn count of the session, if there is one\<close>
  ts_open :: bool
  ts_tool_inflight :: bool
  ts_mode :: "pytext option"
  ts_target :: "int option"
  ts_user_cause :: bool
  ts_hard_event :: bool
  ts_next_seq :: int

definition signal_interrupt_for_turn :: "int \<Rightarrow> turn_state \<Rightarrow> pytext option \<times> turn_state" where
  "signal_interrupt_for_turn turn s =
     (if ts_turn s \<noteq> Some turn \<or> \<not> ts_open s then (None, s)
      else let mode = (if ts_tool_inflight s then lit ''graceful'' else lit ''hard'') in
        (Some mode,
         s\<lparr>ts_user_cause := True, ts_mode := Some mode, ts_target := Some turn,
           ts_hard_event := (ts_hard_event s \<or> mode = lit ''hard'')\<rparr>))"

section \<open>The drain loop\<close>

definition interrupt_params :: "interrupt_request \<Rightarrow> pytext option \<Rightarrow> fields" where
  "interrupt_params r mode =
     interrupt_result r (if mode = None then Rejected else Applied) mode
       (if mode = None then Some (lit ''target_turn_not_active'') else None)"

definition settle_interrupt ::
  "py \<Rightarrow> secs \<Rightarrow> uuid \<Rightarrow> int \<Rightarrow> interrupt_request \<Rightarrow> interrupt_verdict \<Rightarrow> turn_state \<times> world
   \<Rightarrow> drain_status \<times> turn_state \<times> world" where
  "settle_interrupt p now t tok r v sw =
     (let (s, w) = sw; (out, mode, err) = v in
      case finalize_interrupt_request p now (ir_id r) t tok (ir_turn r) out mode err None False w of
        Inl x \<Rightarrow> (Drain_Raised x, s, w)
      | Inr (st, w') \<Rightarrow>
          if st = Interrupt_Final out \<or> st = Interrupt_Terminal then (Drain_Next, s, w')
          else (Drain_Blocked, s, w'))"

definition interrupt_step ::
  "py \<Rightarrow> secs \<Rightarrow> writer \<Rightarrow> uuid \<Rightarrow> int \<Rightarrow> int \<Rightarrow> turn_state \<times> world \<Rightarrow> drain_status \<times> turn_state \<times> world" where
  "interrupt_step p now wr t tok turn sw =
     (let (s, w) = sw in
      if \<not> interrupt_owner w t tok then (Drain_Blocked, s, w)
      else case fetch_next_interrupt_request w t tok turn of
        None \<Rightarrow> (Drain_Empty, s, w)
      | Some r \<Rightarrow>
          (case fetch_interrupt_receipt w t (ir_id r) of
             Some e \<Rightarrow>
               (case interrupt_verdict p r e of None \<Rightarrow> (Drain_Blocked, s, w)
                | Some v \<Rightarrow> settle_interrupt p now t tok r v (s, w))
           | None \<Rightarrow>
               let (mode, s') = signal_interrupt_for_turn (ir_turn r) s;
                   sq = ts_next_seq s' + 1; s'' = s'\<lparr>ts_next_seq := sq\<rparr>;
                   v = (if mode = None then (Rejected, None, Some (lit ''target_turn_not_active''))
                        else (Applied, mode, None))
               in case write_interrupt_receipt wr tok None False sq (lit ''interrupt.ack'')
                         (interrupt_params r mode) (ir_id r) w of
                    Inl x \<Rightarrow> (Drain_Blocked, s'', w)
                  | Inr (n, w') \<Rightarrow>
                      if n = 0 then (Drain_Blocked, s'', w')
                      else settle_interrupt p now t tok r v (s'', w')))"

fun drain_thread_interrupts ::
  "nat \<Rightarrow> py \<Rightarrow> secs \<Rightarrow> writer \<Rightarrow> uuid \<Rightarrow> int \<Rightarrow> int \<Rightarrow> nat \<Rightarrow> turn_state \<times> world
   \<Rightarrow> (drain_status \<times> nat \<times> turn_state \<times> world) option" where
  "drain_thread_interrupts 0 p now wr t tok turn n sw = None"
| "drain_thread_interrupts (Suc k) p now wr t tok turn n sw =
     (case interrupt_step p now wr t tok turn sw of
        (Drain_Next, sw') \<Rightarrow> drain_thread_interrupts k p now wr t tok turn (Suc n) sw'
      | (st, sw') \<Rightarrow> Some (st, n, sw'))"

end
