(* ===== verification/Interrupt_Recovery.thy ===== *)
theory Interrupt_Recovery
  imports Interrupt_Owner
begin

text \<open>
  Settlement of the interrupts of a lease that was taken away, by the reaper's post-steal
  transaction: \<^verbatim>\<open>_reconcile_stolen_interrupts\<close> and \<^verbatim>\<open>_reconcile_interrupt_rows\<close> of
  \<^verbatim>\<open>src/orchestrator/services/run_queue_reaper.py\<close>. A receipt the old owner left wins;
  otherwise the admission itself is the stop intent. Each function is one transaction part; what
  raises rolls back.
\<close>

definition receipt_payload :: "py \<Rightarrow> json \<Rightarrow> fields option" where
  "receipt_payload p v =
     (case v of JObj d \<Rightarrow> Some d
      | JStr s \<Rightarrow> (case py_loads p s of Some (JObj d) \<Rightarrow> Some d | _ \<Rightarrow> None)
      | _ \<Rightarrow> None)"

definition stolen_interrupts :: "world \<Rightarrow> uuid \<Rightarrow> int \<Rightarrow> interrupt_request list" where
  "stolen_interrupts w t tok =
     sort_key (\<lambda>r. (ir_requested_at r, ir_id r))
       (filter (\<lambda>r. ir_thread r = t \<and> ir_token r = tok \<and> unsettled r) (interrupts w))"

definition owner_lost_params :: "interrupt_request \<Rightarrow> pytext \<Rightarrow> fields" where
  "owner_lost_params r reason =
     [(lit ''request_id'', JStr (uuid_text (ir_id r))),
      (lit ''client_request_id'', JStr (uuid_text (ir_client r))),
      (lit ''target_turn_id'', JInt (ir_turn r)), (lit ''applied'', JBool True),
      (lit ''mode'', JStr (lit ''hard'')), (lit ''reason'', JStr (lit ''owner_lost'')),
      (lit ''owner_loss_reason'', JStr reason)]"

text \<open>
  The verdict on one request, with its payload and journal position, from the receipt or by a
  system frame.
\<close>

definition owner_loss_verdict ::
  "py \<Rightarrow> uuid \<Rightarrow> pytext \<Rightarrow> interrupt_request \<times> event option \<Rightarrow> world
   \<Rightarrow> exn + (interrupt_verdict \<times> fields \<times> int \<times> int) \<times> world" where
  "owner_loss_verdict p t reason re w =
     (case re of
        (r, Some e) \<Rightarrow>
          (case (interrupt_verdict p r e, receipt_payload p (ev_payload e)) of
             (Some (out, mode, err), Some d) \<Rightarrow>
               if ir_outcome r \<noteq> None \<and> ir_outcome r \<noteq> Some out then Inl Exn_Runtime
               else Inr (((out, mode, err), d, ev_epoch e, ev_seq e), w)
           | _ \<Rightarrow> Inl Exn_Runtime)
      | (r, None) \<Rightarrow>
          if ir_outcome r \<noteq> None then Inl Exn_Runtime
          else bind_ok (append_system_frame t (lit ''interrupt.ack'') (owner_lost_params r reason) (Some (ir_id r)) None w)
            (\<lambda>(pos, w'). case pos of None \<Rightarrow> Inl Exn_Runtime
              | Some (ep, sq) \<Rightarrow>
                  Inr (((Applied, Some (lit ''hard''), None), owner_lost_params r reason, ep, sq), w')))"

definition terminalize_stolen ::
  "secs \<Rightarrow> uuid \<Rightarrow> interrupt_request \<Rightarrow> interrupt_verdict \<times> fields \<times> int \<times> int \<Rightarrow> world \<Rightarrow> exn + world" where
  "terminalize_stolen now t r v w =
     (let ((out, mode, err), d, ep, sq) = v in
      case interrupt_of w (ir_id r) of None \<Rightarrow> Inl Exn_Runtime
      | Some x \<Rightarrow>
          if ir_thread x \<noteq> t \<or> ir_token x \<noteq> ir_token r \<or> ir_outcome x \<noteq> None then Inl Exn_Runtime
          else Inr (put_interrupt (terminal_interrupt now out d mode err (ir_token r) (ep, sq) x) w))"

record reconcile_result =
  rr_count :: nat
  rr_turns :: "int list"
  rr_ids :: "uuid list"
  rr_state :: "qstate option"
  rr_by_target :: "(int \<times> uuid list) list"

definition no_reconcile :: reconcile_result where
  "no_reconcile = \<lparr>rr_count = 0, rr_turns = [], rr_ids = [], rr_state = None, rr_by_target = []\<rparr>"

fun add_target :: "int \<Rightarrow> uuid \<Rightarrow> (int \<times> uuid list) list \<Rightarrow> (int \<times> uuid list) list" where
  "add_target turn i [] = [(turn, [i])]"
| "add_target turn i ((k, is) # rest) =
     (if k = turn then (k, is @ [i]) # rest else (k, is) # add_target turn i rest)"

definition count_row :: "interrupt_request \<Rightarrow> reconcile_result \<Rightarrow> reconcile_result" where
  "count_row r a =
     a\<lparr>rr_count := Suc (rr_count a),
       rr_turns := (if ir_turn r \<in> set (rr_turns a) then rr_turns a else rr_turns a @ [ir_turn r]),
       rr_ids := rr_ids a @ [ir_id r], rr_by_target := add_target (ir_turn r) (ir_id r) (rr_by_target a)\<rparr>"

type_synonym group_ref = "int \<times> int \<times> uuid"

fun settle_rows ::
  "py \<Rightarrow> secs \<Rightarrow> uuid \<Rightarrow> pytext \<Rightarrow> (interrupt_request \<times> event option) list
   \<Rightarrow> reconcile_result \<times> group_ref list \<times> world \<Rightarrow> exn + reconcile_result \<times> group_ref list \<times> world" where
  "settle_rows p now t reason [] s = Inr s"
| "settle_rows p now t reason ((r, e) # rows) (a, groups, w) =
     bind_ok (owner_loss_verdict p t reason (r, e) w) (\<lambda>(v, w1).
       bind_ok (if ir_outcome r = None then terminalize_stolen now t r v w1 else Inr w1) (\<lambda>w2.
         let groups' =
           (if fst (fst v) = Applied \<and> (\<forall>(k, n, i) \<in> set groups. (k, n) \<noteq> (ir_token r, ir_turn r))
            then groups @ [(ir_token r, ir_turn r, ir_id r)] else groups)
         in settle_rows p now t reason rows (count_row r a, groups', w2)))"

fun settle_groups ::
  "py \<Rightarrow> secs \<Rightarrow> uuid \<Rightarrow> int \<Rightarrow> bool \<Rightarrow> group_ref list \<Rightarrow> qstate option \<times> world
   \<Rightarrow> exn + qstate option \<times> world" where
  "settle_groups p now t cur terminal [] s = Inr s"
| "settle_groups p now t cur terminal ((acc, turn, i) # gs) (st, w) =
     bind_ok (consume_applied_interrupt_input_idle p now t cur acc turn i terminal w) (\<lambda>(res, w').
       case res of None \<Rightarrow> Inl Exn_Runtime
       | Some c \<Rightarrow> settle_groups p now t cur terminal gs (Some (ic_state c), w'))"

definition reconcile_interrupt_rows ::
  "py \<Rightarrow> secs \<Rightarrow> uuid \<Rightarrow> int \<Rightarrow> interrupt_request list \<Rightarrow> pytext \<Rightarrow> bool \<Rightarrow> world
   \<Rightarrow> exn + reconcile_result \<times> world" where
  "reconcile_interrupt_rows p now t cur pending reason terminal w =
     bind_ok (settle_rows p now t reason
         (map (\<lambda>r. (r, fetch_interrupt_receipt w (ir_thread r) (ir_id r))) pending) (no_reconcile, [], w))
       (\<lambda>(a, groups, w1).
          map_ok (\<lambda>(st, w2). (a\<lparr>rr_state := st\<rparr>, w2)) (settle_groups p now t cur terminal groups (None, w1)))"

definition reconcile_stolen_interrupts ::
  "py \<Rightarrow> secs \<Rightarrow> uuid \<Rightarrow> stolen_unit \<Rightarrow> world \<Rightarrow> exn + reconcile_result \<times> world" where
  "reconcile_stolen_interrupts p now t unit w =
     (case su_previous_lease_token unit of None \<Rightarrow> Inr (no_reconcile, w)
      | Some prev \<Rightarrow>
          if prev \<le> 0 \<or> su_lease_token unit \<noteq> prev + 1 then Inl Exn_Runtime
          else reconcile_interrupt_rows p now t (su_lease_token unit) (stolen_interrupts w t prev)
                 (lit ''lease_expired'') False w)"

end
