(* ===== verification/Session_Retirement.thy ===== *)
theory Session_Retirement
  imports Interrupt_Recovery
begin

text \<open>
  Claimants that lost their lease but may still write, from
  \<^verbatim>\<open>src/shared/session_retirement.py\<close>. The thread's metadata keeps a ledger of unresolved
  claimants, one entry per lost token, and a hold with the disposition the queue row gets back
  when the last entry is acknowledged. The metadata value is the one the driver returns, the
  object or its text. Timestamps enter the metadata as text; rendering and parsing them, and the
  text of a JSON value, are Python's and PostgreSQL's, the record \<^verbatim>\<open>pg\<close>.
\<close>

record pg =
  pg_iso :: "secs \<Rightarrow> pytext" \<comment> \<open>datetime.isoformat\<close>
  pg_time :: "secs \<Rightarrow> pytext" \<comment> \<open>to_jsonb of a timestamp\<close>
  pg_parse :: "pytext \<Rightarrow> secs option"
  pg_json :: "json \<Rightarrow> pytext"

section \<open>Keys\<close>

definition CLAIM_RETIREMENT_KEY :: pytext where "CLAIM_RETIREMENT_KEY = lit ''_stateless_claim_retirement''"
definition WORKSPACE_RETIREMENT_PENDING_KEY :: pytext where
  "WORKSPACE_RETIREMENT_PENDING_KEY = lit ''_stateless_workspace_retirement_pending''"
definition CLAIM_LOSS_LEDGER_KEY :: pytext where "CLAIM_LOSS_LEDGER_KEY = lit ''_stateless_claim_losses''"
definition CLAIM_LOSS_HOLD_KEY :: pytext where "CLAIM_LOSS_HOLD_KEY = lit ''_stateless_claim_loss_hold''"
definition CLAIM_LOSS_RECEIPTS_KEY :: pytext where
  "CLAIM_LOSS_RECEIPTS_KEY = lit ''_stateless_claim_loss_receipts''"
definition CLAIM_LOSS_RECEIPT_LIMIT :: nat where "CLAIM_LOSS_RECEIPT_LIMIT = 8"
definition ACTIVE_CLAIM_KEY :: pytext where "ACTIVE_CLAIM_KEY = lit ''_stateless_active_claim''"

section \<open>Parsing the metadata\<close>

definition metadata_root :: "py \<Rightarrow> json \<Rightarrow> exn + fields" where
  "metadata_root p v =
     (case v of JObj d \<Rightarrow> Inr d
      | JStr s \<Rightarrow> (case py_loads p s of Some (JObj d) \<Rightarrow> Inr d | _ \<Rightarrow> Inl Exn_Runtime)
      | _ \<Rightarrow> Inl Exn_Runtime)"

record claimant =
  cl_pod :: pytext
  cl_uid :: pytext
  cl_eviction_requested :: bool

definition stripped_text :: "py \<Rightarrow> json \<Rightarrow> pytext" where
  "stripped_text p v = strip (str_or_empty p v)"

definition claimant_authority :: "py \<Rightarrow> json \<Rightarrow> exn + claimant" where
  "claimant_authority p v =
     (case v of JObj d \<Rightarrow>
        let pod = stripped_text p (jget d (lit ''pod'')); uid = stripped_text p (jget d (lit ''pod_uid'')) in
        if pod = [] \<or> uid = [] then Inl Exn_Runtime
        else Inr \<lparr>cl_pod = pod, cl_uid = uid,
                  cl_eviction_requested = (jget d (lit ''eviction_requested_at'') \<noteq> JNull)\<rparr>
      | _ \<Rightarrow> Inl Exn_Runtime)"

definition active_claim_authority :: "py \<Rightarrow> json \<Rightarrow> exn + (int \<times> claimant) option" where
  "active_claim_authority p metadata =
     bind_ok (metadata_root p metadata) (\<lambda>md.
       if ACTIVE_CLAIM_KEY \<notin> keys md then Inr None
       else let raw = jget md ACTIVE_CLAIM_KEY in
         bind_ok (claimant_authority p raw) (\<lambda>c.
           case raw of JObj d \<Rightarrow>
             (case jget d (lit ''lease_token'') of
                JInt tok \<Rightarrow> if tok \<le> 0 then Inl Exn_Runtime else Inr (Some (tok, c))
              | _ \<Rightarrow> Inl Exn_Runtime)
           | _ \<Rightarrow> Inl Exn_Runtime))"

text \<open>The ledger, entry by entry; a malformed entry raises rather than being dropped.\<close>

fun loss_entries :: "py \<Rightarrow> fields \<Rightarrow> (int \<times> claimant) list \<Rightarrow> exn + (int \<times> claimant) list" where
  "loss_entries p [] losses = Inr losses"
| "loss_entries p ((k, v) # d) losses =
     (case py_int_text p k of None \<Rightarrow> Inl Exn_Runtime
      | Some tok \<Rightarrow>
          if k \<noteq> int_text tok \<or> tok \<in> fst ` set losses then Inl Exn_Runtime
          else (case v of JObj e \<Rightarrow>
              if tok \<le> 0 \<or> jget e (lit ''quiesced'') \<noteq> JBool False then Inl Exn_Runtime
              else bind_ok (claimant_authority p v) (\<lambda>c. loss_entries p d (losses @ [(tok, c)]))
            | _ \<Rightarrow> Inl Exn_Runtime))"

definition unresolved_claim_losses :: "py \<Rightarrow> json \<Rightarrow> exn + (int \<times> claimant) list" where
  "unresolved_claim_losses p metadata =
     bind_ok (metadata_root p metadata) (\<lambda>md.
       if CLAIM_LOSS_LEDGER_KEY \<notin> keys md then Inr []
       else case jget md CLAIM_LOSS_LEDGER_KEY of
         JObj raw \<Rightarrow> if raw = [] then Inl Exn_Runtime else loss_entries p raw []
       | _ \<Rightarrow> Inl Exn_Runtime)"

definition claim_loss_hold :: "py \<Rightarrow> fields \<Rightarrow> exn + fields option" where
  "claim_loss_hold p metadata =
     (if CLAIM_LOSS_HOLD_KEY \<notin> keys metadata then Inr None
      else case jget metadata CLAIM_LOSS_HOLD_KEY of
        JObj raw \<Rightarrow>
          (case (jget raw (lit ''lease_token''), jget raw (lit ''attempts_since_completion'')) of
             (JInt tok, JInt attempts) \<Rightarrow>
               if tok \<le> 0 \<or> attempts < 0 \<or>
                  str_or_empty p (jget raw (lit ''intended_state''))
                    \<notin> {lit ''queued'', lit ''parked'', lit ''done''}
               then Inl Exn_Runtime
               else (case jget raw (lit ''park_reason'') of
                   JNull \<Rightarrow> Inr (Some raw)
                 | JStr s \<Rightarrow> if strip s = [] then Inl Exn_Runtime else Inr (Some raw)
                 | _ \<Rightarrow> Inl Exn_Runtime)
           | _ \<Rightarrow> Inl Exn_Runtime)
      | _ \<Rightarrow> Inl Exn_Runtime)"

definition without :: "fields \<Rightarrow> pytext \<Rightarrow> fields" where
  "without d k = filter (\<lambda>(k', v). k' \<noteq> k) d"

definition state_text :: "qstate \<Rightarrow> pytext" where
  "state_text s = (case s of Queued \<Rightarrow> lit ''queued'' | Leased \<Rightarrow> lit ''leased'' | Parked \<Rightarrow> lit ''parked''
                   | Done \<Rightarrow> lit ''done'')"

section \<open>Writes\<close>

text \<open>The value at a path is text that equals a string: \<^verbatim>\<open>metadata #>> path = text\<close>.\<close>

definition path_is :: "pg \<Rightarrow> json \<Rightarrow> pytext \<Rightarrow> bool" where
  "path_is g v s = (case v of JNull \<Rightarrow> False | JStr x \<Rightarrow> x = s | _ \<Rightarrow> pg_json g v = s)"

definition object_at :: "fields \<Rightarrow> pytext \<Rightarrow> fields" where
  "object_at d k = (case jget d k of JObj e \<Rightarrow> e | _ \<Rightarrow> [])"

definition ledger_entry :: "fields \<Rightarrow> int \<Rightarrow> fields" where
  "ledger_entry md tok = object_at (object_at md CLAIM_LOSS_LEDGER_KEY) (int_text tok)"

definition names_claimant :: "pg \<Rightarrow> fields \<Rightarrow> int \<Rightarrow> pytext \<Rightarrow> pytext \<Rightarrow> bool" where
  "names_claimant g md tok owner uid \<longleftrightarrow>
     path_is g (jget (ledger_entry md tok) (lit ''pod'')) owner \<and>
     path_is g (jget (ledger_entry md tok) (lit ''pod_uid'')) uid"

definition session_row :: "world \<Rightarrow> uuid \<Rightarrow> row option" where
  "session_row w t =
     (case row_of (rq w) t of None \<Rightarrow> None
      | Some q \<Rightarrow> if unit_kind q = UNIT_KIND_SESSION_TURN then Some q else None)"

definition stateless_session :: "world \<Rightarrow> uuid \<Rightarrow> thread option" where
  "stateless_session w t =
     (case thread_of w t of None \<Rightarrow> None
      | Some th \<Rightarrow> if th_lane th = LANE_STATELESS then Some th else None)"

definition matching_loss :: "(int \<times> claimant) list \<Rightarrow> int \<Rightarrow> pytext \<Rightarrow> pytext \<Rightarrow> claimant option" where
  "matching_loss losses tok owner uid =
     (case map_of losses tok of None \<Rightarrow> None
      | Some c \<Rightarrow> if cl_pod c = owner \<and> cl_uid c = uid then Some c else None)"

definition mark_session_claim_eviction_requested ::
  "py \<Rightarrow> pg \<Rightarrow> secs \<Rightarrow> uuid \<Rightarrow> int \<Rightarrow> pytext \<Rightarrow> pytext \<Rightarrow> world \<Rightarrow> exn + bool \<times> world" where
  "mark_session_claim_eviction_requested p g now t tok pod pod_uid w =
     (let owner = strip pod; uid = strip pod_uid in
      if tok \<le> 0 \<or> owner = [] \<or> uid = [] then Inr (False, w)
      else case stateless_session w t of None \<Rightarrow> Inr (False, w)
      | Some th \<Rightarrow>
          bind_ok (unresolved_claim_losses p (th_metadata th)) (\<lambda>losses.
            case matching_loss losses tok owner uid of None \<Rightarrow> Inr (False, w)
            | Some c \<Rightarrow>
                if session_row w t = None then Inr (False, w)
                else if cl_eviction_requested c then Inr (True, w)
                else bind_ok (metadata_root p (th_metadata th)) (\<lambda>md.
                  let e = ledger_entry md tok in
                  if \<not> names_claimant g md tok owner uid \<or> lit ''eviction_requested_at'' \<in> keys e
                  then Inr (False, w)
                  else
                    let e' = merged e [(lit ''eviction_requested_at'', JStr (pg_time g now))];
                        ledger = merged (object_at md CLAIM_LOSS_LEDGER_KEY) [(int_text tok, JObj e')]
                    in Inr (True, put_thread (th\<lparr>th_metadata :=
                         JObj (merged md [(CLAIM_LOSS_LEDGER_KEY, JObj ledger)])\<rparr>) w))))"

definition text_time :: "pg \<Rightarrow> json \<Rightarrow> exn + secs option" where
  "text_time g v =
     (case v of JNull \<Rightarrow> Inr None
      | JStr s \<Rightarrow> (case pg_parse g s of None \<Rightarrow> Inl Exn_Value | Some x \<Rightarrow> Inr (Some x))
      | _ \<Rightarrow> Inl Exn_Type)"

text \<open>The disposition the hold gives back, with inputs and controls that came in meanwhile.\<close>

definition restored_state :: "py \<Rightarrow> fields \<Rightarrow> row \<Rightarrow> qstate" where
  "restored_state p hold q =
     (let s = str_or_empty p (jget hold (lit ''intended_state'')) in
      if s = lit ''parked'' then Parked
      else if s = lit ''queued'' \<or> pending_input q \<or> control_pending q then Queued else Done)"

definition restore_eff ::
  "qstate \<Rightarrow> int \<Rightarrow> secs option \<Rightarrow> secs option \<Rightarrow> pytext option \<Rightarrow> row \<Rightarrow> row" where
  "restore_eff st attempts ra qa reason q =
     q\<lparr>state := st, attempts_since_completion := attempts,
       run_after := case_option (run_after q) id ra, queued_at := case_option (queued_at q) id qa,
       park_reason := (if st = Parked
         then Some (case reason of None \<Rightarrow> ''reaper_max_attempts'' | Some s \<Rightarrow> map char_of s) else None),
       parked_at := (if st = Parked then parked_at q else None)\<rparr>"

definition restore_unit :: "py \<Rightarrow> pg \<Rightarrow> fields \<Rightarrow> row \<Rightarrow> world \<Rightarrow> exn + world" where
  "restore_unit p g hold q w =
     bind_ok (text_time g (jget hold (lit ''run_after''))) (\<lambda>ra.
     bind_ok (text_time g (jget hold (lit ''queued_at''))) (\<lambda>qa.
       let attempts = (case jget hold (lit ''attempts_since_completion'') of JInt n \<Rightarrow> n | _ \<Rightarrow> 0);
           reason = (case jget hold (lit ''park_reason'') of JStr s \<Rightarrow> Some s | _ \<Rightarrow> None);
           q' = restore_eff (restored_state p hold q) attempts ra qa reason q
       in if state q \<noteq> Parked \<or> leased_by q \<noteq> None \<or> jget hold (lit ''lease_token'') \<noteq> JInt (lease_token q)
          then Inl Exn_Runtime
          else if dedup_conflict (queue (rq w)) q' then Inl Exn_Unique
          else Inr (put_queue q' w)))"

definition receipt_trail :: "fields \<Rightarrow> fields \<Rightarrow> json" where
  "receipt_trail md receipt =
     (let prior = (case jget md CLAIM_LOSS_RECEIPTS_KEY of
                     JList xs \<Rightarrow> filter (\<lambda>x. case x of JObj _ \<Rightarrow> True | _ \<Rightarrow> False) xs | _ \<Rightarrow> []);
          all = prior @ [JObj receipt]
      in JList (drop (length all - CLAIM_LOSS_RECEIPT_LIMIT) all))"

text \<open>
  The pending End of the session: its marker, or a malformed one. Its full validation, which the
  End path asks for by its expected token, is the argument \<^verbatim>\<open>terminal_of\<close>.
\<close>

definition pending_retirement :: "fields \<Rightarrow> exn + fields option" where
  "pending_retirement md =
     (if WORKSPACE_RETIREMENT_PENDING_KEY \<notin> keys md then Inr None
      else case jget md CLAIM_RETIREMENT_KEY of
        JObj r \<Rightarrow> if jget md WORKSPACE_RETIREMENT_PENDING_KEY = JBool True then Inr (Some r)
                  else Inl Exn_Runtime
      | _ \<Rightarrow> Inl Exn_Runtime)"

definition settled_retirement :: "pytext \<Rightarrow> bool \<Rightarrow> fields \<Rightarrow> fields" where
  "settled_retirement by all_quiesced r =
     merged r [(lit ''claimant_quiesced'', JBool all_quiesced),
               (lit ''quiesced_by'', if all_quiesced then JStr by else JNull)]"

definition settled_metadata ::
  "fields \<Rightarrow> fields \<Rightarrow> fields option \<Rightarrow> pytext \<Rightarrow> fields option \<Rightarrow> fields" where
  "settled_metadata md raw retirement by receipt =
     (let m1 = (if raw \<noteq> [] then merged md [(CLAIM_LOSS_LEDGER_KEY, JObj raw)]
                else without (without md CLAIM_LOSS_LEDGER_KEY) CLAIM_LOSS_HOLD_KEY);
          m2 = (case retirement of None \<Rightarrow> m1
                | Some r \<Rightarrow> merged m1 [(CLAIM_RETIREMENT_KEY, JObj (settled_retirement by (raw = []) r))])
      in case receipt of None \<Rightarrow> m2
         | Some r \<Rightarrow> merged m2 [(CLAIM_LOSS_RECEIPTS_KEY, receipt_trail m2 r)])"

definition settlement_receipt :: "int \<Rightarrow> pytext \<Rightarrow> pytext \<Rightarrow> pytext \<Rightarrow> pytext \<Rightarrow> fields \<Rightarrow> fields" where
  "settlement_receipt tok owner uid by stamp r =
     merged r [(lit ''lease_token'', JInt tok), (lit ''pod'', JStr owner), (lit ''pod_uid'', JStr uid),
               (lit ''quiesced_by'', JStr by), (lit ''settled_at'', JStr stamp)]"

definition settle_loss ::
  "py \<Rightarrow> pg \<Rightarrow> int \<Rightarrow> pytext \<Rightarrow> pytext \<Rightarrow> pytext \<Rightarrow> fields option \<Rightarrow> thread \<Rightarrow> row \<Rightarrow> fields \<Rightarrow> world
   \<Rightarrow> exn + bool \<times> world" where
  "settle_loss p g tok owner uid by receipt th q md w =
     bind_ok (pending_retirement md) (\<lambda>retirement.
     bind_ok (claim_loss_hold p md) (\<lambda>hold.
       let raw = without (object_at md CLAIM_LOSS_LEDGER_KEY) (int_text tok);
           w1 = put_thread (th\<lparr>th_metadata := JObj (settled_metadata md raw retirement by receipt)\<rparr>) w
       in if raw = [] \<and> (case hold of None \<Rightarrow> False
               | Some h \<Rightarrow> jget h (lit ''lease_token'') \<noteq> JInt (lease_token q))
          then Inl Exn_Runtime
          else if \<not> names_claimant g md tok owner uid \<or>
                  jget (ledger_entry md tok) (lit ''quiesced'') \<noteq> JBool False
          then Inr (False, w)
          else case hold of
            Some h \<Rightarrow> if raw = [] \<and> retirement = None
                      then map_ok (\<lambda>w2. (True, w2)) (restore_unit p g h q w1) else Inr (True, w1)
          | None \<Rightarrow> Inr (True, w1)))"

definition acknowledge_session_claim_quiesced ::
  "py \<Rightarrow> pg \<Rightarrow> (fields \<Rightarrow> exn + int option) \<Rightarrow> pytext \<Rightarrow> uuid \<Rightarrow> int \<Rightarrow> pytext \<Rightarrow> pytext \<Rightarrow> pytext \<Rightarrow> int option
   \<Rightarrow> fields option \<Rightarrow> world \<Rightarrow> exn + bool \<times> world" where
  "acknowledge_session_claim_quiesced p g terminal_of stamp t tok pod pod_uid by expected receipt w =
     (let owner = strip pod; uid = strip pod_uid in
      if tok \<le> 0 \<or> owner = [] \<or> uid = [] then Inr (False, w)
      else case stateless_session w t of None \<Rightarrow> Inr (False, w)
      | Some th \<Rightarrow>
          bind_ok (metadata_root p (th_metadata th)) (\<lambda>md.
          bind_ok (unresolved_claim_losses p (JObj md)) (\<lambda>losses.
            if matching_loss losses tok owner uid = None then Inr (False, w)
            else case session_row w t of None \<Rightarrow> Inr (False, w)
            | Some q \<Rightarrow>
                let receipt' = map_option (settlement_receipt tok owner uid by stamp) receipt in
                (case expected of None \<Rightarrow> settle_loss p g tok owner uid by receipt' th q md w
                 | Some e \<Rightarrow>
                     bind_ok (pending_retirement md) (\<lambda>_.
                     bind_ok (terminal_of md) (\<lambda>terminal.
                       if th_status th \<noteq> ''ended'' \<or> terminal \<noteq> Some e \<or> lease_token q \<noteq> e
                       then Inr (False, w)
                       else settle_loss p g tok owner uid by receipt' th q md w))))))"

definition update_stateless_claim_status ::
  "py \<Rightarrow> uuid \<Rightarrow> int \<Rightarrow> string \<Rightarrow> world \<Rightarrow> bool \<times> world" where
  "update_stateless_claim_status p t tok status w =
     (if status \<notin> {''active'', ''awaiting_user''} \<or> tok \<le> 0 then (False, w)
      else case stateless_session w t of None \<Rightarrow> (False, w)
      | Some th \<Rightarrow>
          if th_status th \<notin> {''created'', ''active'', ''awaiting_user''} then (False, w)
          else (case (stateless_stop_markers p (th_metadata th), active_claim_authority p (th_metadata th)) of
             (Inr ms, Inr (Some (k, _))) \<Rightarrow>
               if ms \<noteq> {} \<or> k \<noteq> tok \<or> \<not> live_lease t tok (rq w) then (False, w)
               else (True, put_thread (th\<lparr>th_status := status\<rparr>) w)
           | _ \<Rightarrow> (False, w)))"

definition mark_stateless_claim_active :: "py \<Rightarrow> uuid \<Rightarrow> int \<Rightarrow> world \<Rightarrow> bool \<times> world" where
  "mark_stateless_claim_active p t tok w = update_stateless_claim_status p t tok ''active'' w"

end
