(* ===== verification/Control_Lanes.thy ===== *)
theory Control_Lanes
  imports Control_Inbox Session_Retirement
begin

text \<open>
  The lane switch of a session with a live control inbox,
  \<^verbatim>\<open>src/orchestrator/services/stateless_vm_upgrade_handoff.py\<close>: one transaction that proves the
  session quiet, records the upgrade request without waking the queue, closes the queue row under
  the next token, opens a journal epoch and moves the session to the pinned lane. It keeps the
  invariant of the inbox, as does the way back.

  Not under the model's tables and therefore arguments: the kind of the thread (\<^verbatim>\<open>is_root\<close>), the
  workspace classification, live subagents and unacknowledged cloud pushes (\<^verbatim>\<open>busy\<close>), and the
  parser of UUIDs.
\<close>

section \<open>Checks\<close>

definition LITE_BACKENDS :: "string set" where
  "LITE_BACKENDS = {''virtual'', ''none''}"

definition LANE_CHANGED_FRAME :: pytext where
  "LANE_CHANGED_FRAME = lit ''session.lane_changed''"

definition payload_generation :: "py \<Rightarrow> (pytext \<Rightarrow> uuid option) \<Rightarrow> fields \<Rightarrow> admission_error + uuid" where
  "payload_generation p parse_uuid payload =
     (if \<not> keys payload \<subseteq> WORKSPACE_UPGRADE_PAYLOAD_KEYS \<or>
         \<not> (jget payload (lit ''target_tier'') = JNull \<or> jget payload (lit ''target_tier'') = JStr (lit ''vm''))
      then Inl (Refused ''upgrade_payload'')
      else if lit ''runtime_generation'' \<notin> keys payload then Inl (Refused ''generation_required'')
      else case parse_uuid (py_str p (jget payload (lit ''runtime_generation''))) of
        None \<Rightarrow> Inl (Refused ''generation_required'')
      | Some g \<Rightarrow> Inr g)"

definition switch_refusal ::
  "py \<Rightarrow> (thread \<Rightarrow> bool) \<Rightarrow> (thread \<Rightarrow> string \<times> string option) \<Rightarrow> uuid \<Rightarrow> thread \<Rightarrow> admission_error option" where
  "switch_refusal p is_root workspace_check generation th =
     (if keys (json_object p (th_metadata th)) \<inter> STATELESS_STOP_KEYS \<noteq> {} then Some (Refused ''session_ending'')
      else case workspace_check th of (backend, refusal) \<Rightarrow>
        if th_lane th \<noteq> LANE_STATELESS \<or> \<not> is_root th \<or>
           th_status th \<notin> {''created'', ''active'', ''awaiting_user''} \<or>
           th_generation th \<noteq> generation \<or> th_agent th \<noteq> None \<or> th_attach th \<noteq> None \<or>
           th_admission_agent th \<noteq> None \<or> th_retirement th \<noteq> None \<or> refusal \<noteq> None \<or>
           backend \<notin> LITE_BACKENDS
        then Some (Refused ''not_possible'') else None)"

definition quiet_queue_refusal :: "row option \<Rightarrow> admission_error option" where
  "quiet_queue_refusal q0 =
     (case q0 of None \<Rightarrow> None
      | Some q \<Rightarrow>
          if unit_kind q \<noteq> UNIT_KIND_SESSION_TURN then Some (Refused ''queue_identity'')
          else if state q = Leased then Some (Not_Ready ''turn_running'')
          else if state q = Parked then Some (Refused ''parked'')
          else if pending_input q then Some (Not_Ready ''input_pending'')
          else if control_pending q then Some (Not_Ready ''background_work'')
          else None)"

definition pending_control_refusal :: "world \<Rightarrow> uuid \<Rightarrow> admission_error option" where
  "pending_control_refusal w t =
     (if pending_of (controls w) t = [] then None
      else if \<exists>r \<in> set (pending_of (controls w) t). cr_agent r \<noteq> None then Some (Refused ''stranded_pinned'')
      else Some (Not_Ready ''background_work''))"

definition background_work :: "(uuid \<Rightarrow> bool) \<Rightarrow> world \<Rightarrow> uuid \<Rightarrow> bool" where
  "background_work busy w t \<longleftrightarrow>
     (\<exists>r \<in> set (interrupts w). ir_thread r = t \<and>
        (ir_outcome r = None \<or> (ir_outcome r = Some Applied \<and> consumed_key \<notin> keys (ir_result r)))) \<or>
     (\<exists>r \<in> set (permissions w). pr_thread r = t \<and> pr_status r = ''pending'') \<or>
     (\<exists>d \<in> set (deliveries (rq w)). dlv_thread d = t \<and>
        dlv_state d \<in> {''persisted'', ''owned'', ''queued'', ''deferred''}) \<or>
     busy t"

definition switch_checks ::
  "py \<Rightarrow> (thread \<Rightarrow> bool) \<Rightarrow> (thread \<Rightarrow> string \<times> string option) \<Rightarrow> (uuid \<Rightarrow> bool) \<Rightarrow> uuid \<Rightarrow> thread \<Rightarrow> world
   \<Rightarrow> admission_error option" where
  "switch_checks p is_root workspace_check busy generation th w =
     (case switch_refusal p is_root workspace_check generation th of Some e \<Rightarrow> Some e
      | None \<Rightarrow> (case quiet_queue_refusal (row_of (rq w) (th_id th)) of Some e \<Rightarrow> Some e
      | None \<Rightarrow> (case pending_control_refusal w (th_id th) of Some e \<Rightarrow> Some e
      | None \<Rightarrow>
          if background_work busy w (th_id th) then Some (Not_Ready ''background_work'')
          else if \<exists>a \<in> set (agents w). ag_thread a = Some (th_id th) then Some (Refused ''not_possible'')
          else None)))"

section \<open>The transaction\<close>

definition closed_row :: "secs \<Rightarrow> row \<Rightarrow> row" where
  "closed_row now q =
     q\<lparr>lease_token := lease_token q + 1, state := Done, attempts_since_completion := 0,
       leased_by := None, last_leased_by := None, leased_until := None,
       interrupt_admission_lease_token := None, interrupt_admission_turn_id := None,
       queued_at := now, run_after := now\<rparr>"

definition closable :: "int \<Rightarrow> row \<Rightarrow> bool" where
  "closable tok q \<longleftrightarrow>
     unit_kind q = UNIT_KIND_SESSION_TURN \<and> lease_token q = tok \<and> state q \<in> {Queued, Done} \<and> leased_by q = None"

definition close_queue :: "secs \<Rightarrow> uuid \<Rightarrow> world \<Rightarrow> admission_error + world" where
  "close_queue now t w =
     (case row_of (rq w) t of None \<Rightarrow> Inr w
      | Some q \<Rightarrow>
          (case cas t (closable (lease_token q)) (closed_row now) (rq w) of
            Inr (Some _, d) \<Rightarrow> Inr (w\<lparr>rq := d\<rparr>)
          | Inr (None, _) \<Rightarrow> Inl (Refused ''not_possible'')
          | Inl _ \<Rightarrow> Inl (Refused ''database'')))"

definition lane_changed_params :: "uuid \<Rightarrow> uuid \<Rightarrow> uuid \<Rightarrow> fields" where
  "lane_changed_params i client generation =
     [(lit ''from'', JStr (lit ''stateless'')), (lit ''to'', JStr (lit ''pinned'')),
      (lit ''reason'', JStr (lit ''vm_upgrade'')), (lit ''control_request_id'', JStr (uuid_text i)),
      (lit ''client_request_id'', JStr (uuid_text client)),
      (lit ''session_runtime_generation'', JStr (uuid_text generation))]"

text \<open>PostgreSQL's \<^verbatim>\<open>metadata - key\<close>, which refuses a scalar.\<close>

definition jsonb_minus :: "json \<Rightarrow> pytext \<Rightarrow> json option" where
  "jsonb_minus v k =
     (case v of JObj d \<Rightarrow> Some (JObj (filter (\<lambda>(k', x). k' \<noteq> k) d))
      | JList xs \<Rightarrow> Some (JList (filter (\<lambda>x. x \<noteq> JStr k) xs))
      | JNull \<Rightarrow> Some JNull
      | _ \<Rightarrow> None)"

definition flip_lane :: "uuid \<Rightarrow> uuid \<Rightarrow> world \<Rightarrow> admission_error + world" where
  "flip_lane t generation w =
     (case thread_of w t of None \<Rightarrow> Inl (Refused ''not_possible'')
      | Some th \<Rightarrow>
          if th_lane th = LANE_STATELESS \<and> th_generation th = generation \<and> th_agent th = None
          then (case jsonb_minus (th_metadata th) ACTIVE_CLAIM_KEY of
                  None \<Rightarrow> Inl (Refused ''database'')
                | Some md \<Rightarrow> Inr (put_thread (th\<lparr>th_lane := LANE_PINNED, th_metadata := md\<rparr>) w))
          else Inl (Refused ''not_possible''))"

definition switch_new ::
  "secs \<Rightarrow> uuid \<Rightarrow> thread \<Rightarrow> uuid \<Rightarrow> fields \<Rightarrow> uuid \<Rightarrow> world \<Rightarrow> admission_error + admitted \<times> world" where
  "switch_new now i th client payload generation w =
     (let t = th_id th; sq = th_control_hwm th + 1;
          w1 = (put_thread (th\<lparr>th_control_hwm := sq\<rparr>) w)
                 \<lparr>controls := controls w @ [new_control i t sq client WORKSPACE_UPGRADE_VERB payload None (Some generation)]\<rparr>
      in bind_ok (close_queue now t w1) (\<lambda>w2.
           case append_system_frame t LANE_CHANGED_FRAME (lane_changed_params i client generation) None None
                  (snd (bump_epoch t w2)) of
             Inl _ \<Rightarrow> Inl (Refused ''database'')
           | Inr (_, w3) \<Rightarrow>
               bind_ok (flip_lane t generation w3) (\<lambda>w4.
                 Inr (\<lparr>ad_id = i, ad_seq = sq, ad_client = client, ad_verb = WORKSPACE_UPGRADE_VERB,
                        ad_state = None, ad_duplicate = False, ad_generation = Some generation\<rparr>, w4))))"

definition begin_stateless_vm_upgrade_handoff ::
  "py \<Rightarrow> (pytext \<Rightarrow> uuid option) \<Rightarrow> (thread \<Rightarrow> bool) \<Rightarrow> (thread \<Rightarrow> string \<times> string option) \<Rightarrow> (uuid \<Rightarrow> bool)
   \<Rightarrow> secs \<Rightarrow> uuid \<Rightarrow> uuid \<Rightarrow> uuid option \<Rightarrow> uuid \<Rightarrow> fields \<Rightarrow> world \<Rightarrow> admission_error + admitted \<times> world" where
  "begin_stateless_vm_upgrade_handoff p parse_uuid is_root workspace_check busy now i t owner client payload w =
     bind_ok (payload_generation p parse_uuid payload) (\<lambda>generation.
       case thread_of w t of None \<Rightarrow> Inl (Refused ''unavailable'')
       | Some th \<Rightarrow>
           if th_user th \<noteq> owner then Inl (Refused ''unavailable'')
           else (case existing_control w t client of
             Some r \<Rightarrow>
               if \<not> same_content p WORKSPACE_UPGRADE_VERB payload r then Inl (Refused ''different_control'')
               else Inr (duplicate_of r, w)
           | None \<Rightarrow>
               (case switch_checks p is_root workspace_check busy generation th w of
                 Some e \<Rightarrow> Inl e
               | None \<Rightarrow> switch_new now i th client payload generation w)))"

section \<open>What the switch does\<close>

lemma closed_row_ok:
  assumes "db_ok d" "row_of d t = Some q" "\<not> dedup_conflict (queue d) (closed_row now q)"
  shows "db_ok (store d (closed_row now q))" "db_le d (store d (closed_row now q))"
    "control_marks (store d (closed_row now q)) u = control_marks d u"
proof -
  have q: "row_ok q" using row_of_ok [OF assms(1,2)] .
  have "row_ok (closed_row now q)"
    using q by (simp add: shape_defs closed_row_def split: if_splits)
  then show "db_ok (store d (closed_row now q))"
    using db_ok_store [OF assms(1,2)] assms(3) by (simp add: closed_row_def)
  show "db_le d (store d (closed_row now q))"
    by (rule db_le_store [OF assms(2)]) (simp_all add: closed_row_def row_le_def)
  show "control_marks (store d (closed_row now q)) u = control_marks d u"
    using assms(2) row_of_unit [OF assms(2)]
    by (auto simp: control_marks_def row_of_store closed_row_def split: option.splits)
qed

lemma close_queue_keeps:
  assumes "close_queue now t w = Inr w'"
  shows "w' = w\<lparr>rq := rq w'\<rparr>"
    and "db_ok (rq w) \<Longrightarrow> db_ok (rq w')" and "db_ok (rq w) \<Longrightarrow> db_le (rq w) (rq w')"
    and "db_ok (rq w) \<Longrightarrow> control_marks (rq w') u = control_marks (rq w) u"
    and "row_of (rq w) t = Some q \<Longrightarrow> row_of (rq w') t = Some (closed_row now q)"
proof -
  have *: "(row_of (rq w) t = None \<and> w' = w) \<or>
    (\<exists>q. row_of (rq w) t = Some q \<and> \<not> dedup_conflict (queue (rq w)) (closed_row now q) \<and>
       w' = w\<lparr>rq := store (rq w) (closed_row now q)\<rparr>)"
    using assms by (auto simp: close_queue_def elim!: cas_cases split: option.splits sum.splits prod.splits)
  then show "w' = w\<lparr>rq := rq w'\<rparr>" by auto
  show "db_ok (rq w) \<Longrightarrow> db_ok (rq w')" "db_ok (rq w) \<Longrightarrow> db_le (rq w) (rq w')"
    "db_ok (rq w) \<Longrightarrow> control_marks (rq w') u = control_marks (rq w) u"
    using * closed_row_ok by auto
  show "row_of (rq w) t = Some q \<Longrightarrow> row_of (rq w') t = Some (closed_row now q)"
    using * row_of_unit [of "rq w" t q] by (auto simp: row_of_store closed_row_def)
qed

text \<open>What a lane change may touch: the thread's own row, and the requests by one fresh one.\<close>

definition other_views :: "uuid \<Rightarrow> world \<Rightarrow> (uuid \<times> string \<times> int) set" where
  "other_views t w = {v \<in> thread_view ` set (threads w). fst v \<noteq> t}"

lemma put_thread_other_views:
  "th_id th = t \<Longrightarrow> other_views t (put_thread th w) = other_views t w"
  by (auto simp: other_views_def put_thread_def put_by_def thread_view_def image_iff)

lemma put_thread_ids [simp]: "map th_id (threads (put_thread th w)) = map th_id (threads w)"
  by (simp add: put_thread_def map_key_put)

text \<open>Every thread but one is unchanged, and the one that changes leaves the stateless lane.\<close>

lemma lane_change_ok:
  assumes ok: "inbox_ok w" and db: "db_ok (rq w')" and t: "thread_of w' t = Some th"
    and ids: "map th_id (threads w') = map th_id (threads w)"
    and rest: "other_views t w' = other_views t w"
    and marks: "\<And>u. u \<noteq> t \<Longrightarrow> control_marks (rq w') u = control_marks (rq w) u"
    and cs: "\<And>u. u \<noteq> t \<Longrightarrow> pending_of (controls w') u = pending_of (controls w) u"
      "\<And>r. cr_thread r \<noteq> t \<Longrightarrow> r \<in> set (controls w') \<longleftrightarrow> r \<in> set (controls w)"
      "cr_thread ` set (controls w') \<subseteq> th_id ` set (threads w)"
    and dist: "distinct (map cr_id (controls w'))"
      "distinct (map (\<lambda>r. (cr_thread r, cr_seq r)) (controls w'))"
      "distinct (map (\<lambda>r. (cr_thread r, cr_client r)) (controls w'))"
    and own: "view_ok (controls w') (rq w') (thread_view th)"
  shows "inbox_ok w'"
proof -
  have dist_th: "distinct (map th_id (threads w'))" using inbox_okD(2) [OF ok] ids by simp
  have "view_ok (controls w') (rq w') v" if v: "v \<in> thread_view ` set (threads w')" for v
  proof (cases "fst v = t")
    case True
    then obtain x where x: "x \<in> set (threads w')" "v = thread_view x" "th_id x = t"
      using v by (auto simp: thread_view_def)
    then have "x = th" using t find_by_distinct [OF dist_th x(1)] by (simp add: thread_of_def)
    then show ?thesis using own x(2) by simp
  next
    case False
    then have "v \<in> other_views t w" using v rest by (auto simp: other_views_def)
    then have "view_ok (controls w) (rq w) v" using ok by (auto simp: other_views_def inbox_ok_def)
    then show ?thesis
      using False cs(1,2) marks watermark_ok_cong [of "controls w'" "fst v" "controls w" "rq w'" "rq w"]
      by (cases v) (auto simp: view_ok_def)
  qed
  moreover have "th_id ` set (threads w') = th_id ` set (threads w)" using ids by (metis set_map)
  ultimately show ?thesis using db dist_th cs(3) dist by (simp add: inbox_ok_def)
qed

lemma bump_epoch_keeps:
  "rq (snd (bump_epoch t w)) = rq w" "controls (snd (bump_epoch t w)) = controls w"
  "events (snd (bump_epoch t w)) = events w"
  "map th_id (threads (snd (bump_epoch t w))) = map th_id (threads w)"
  "other_views t (snd (bump_epoch t w)) = other_views t w"
  by (auto simp: bump_epoch_def put_thread_other_views thread_of_id split: option.splits)

lemma bump_epoch_thread:
  "thread_of w t = Some th \<Longrightarrow>
   thread_of (snd (bump_epoch t w)) t = Some (th\<lparr>th_epoch := th_epoch th + 1, th_events_hwm := 0\<rparr>)"
  using thread_of_id [of w t th] by (simp add: bump_epoch_def thread_of_put_thread)

lemma append_frame_keeps:
  assumes "append_system_frame t kind params i perm w = Inr (pos, w')" "thread_of w t = Some th"
  shows "rq w' = rq w" "controls w' = controls w" "set (events w) \<subseteq> set (events w')"
    "map th_id (threads w') = map th_id (threads w)" "other_views t w' = other_views t w"
    "thread_of w' t = Some (th\<lparr>th_events_hwm := th_events_hwm th + 1\<rparr>)"
proof -
  let ?th = "th\<lparr>th_events_hwm := th_events_hwm th + 1\<rparr>"
  have t: "th_id th = t" using thread_of_id [OF assms(2)] .
  obtain e where w': "w' = put_thread ?th (w\<lparr>events := events w @ [e]\<rparr>)"
    using assms by (auto simp: append_system_frame_def Let_def split: if_splits)
  have frame: "other_views t (w\<lparr>events := es\<rparr>) = other_views t w"
    "thread_of (w\<lparr>events := es\<rparr>) u = thread_of w u" for es u
    by (simp_all add: other_views_def thread_of_def)
  show "rq w' = rq w" "controls w' = controls w" "set (events w) \<subseteq> set (events w')"
    "map th_id (threads w') = map th_id (threads w)" by (auto simp: w')
  show "other_views t w' = other_views t w"
    using put_thread_other_views [of ?th t] t by (simp add: w' frame)
  show "thread_of w' t = Some ?th"
    using assms(2) t by (simp add: w' thread_of_put_thread frame)
qed

lemma flip_lane_keeps:
  assumes "flip_lane t g w = Inr w'"
  obtains th md where "thread_of w t = Some th" "jsonb_minus (th_metadata th) ACTIVE_CLAIM_KEY = Some md"
    "w' = put_thread (th\<lparr>th_lane := LANE_PINNED, th_metadata := md\<rparr>) w"
  using assms by (auto simp: flip_lane_def split: option.splits if_splits)

text \<open>The switch, end to end: which tables it leaves alone and what it puts where.\<close>

lemma switch_new_tables:
  assumes ok: "db_ok (rq w)" and th: "thread_of w t = Some th"
    and new: "switch_new now i th client payload g w = Inr (a, w')"
  obtains th' where "thread_of w' t = Some th'" "th_lane th' = LANE_PINNED" "th_agent th' = th_agent th"
    "th_control_hwm th' = th_control_hwm th + 1"
    "controls w' = controls w @
       [new_control i t (th_control_hwm th + 1) client WORKSPACE_UPGRADE_VERB payload None (Some g)]"
    "db_ok (rq w')" "db_le (rq w) (rq w')" "\<And>u. control_marks (rq w') u = control_marks (rq w) u"
    "map th_id (threads w') = map th_id (threads w)" "other_views t w' = other_views t w"
    "set (events w) \<subseteq> set (events w')" "ad_id a = i" "ad_seq a = th_control_hwm th + 1" "\<not> ad_duplicate a"
    "\<And>q. row_of (rq w) t = Some q \<Longrightarrow> row_of (rq w') t = Some (closed_row now q)"
proof -
  let ?sq = "th_control_hwm th + 1"
  let ?cs = "controls w @ [new_control i t ?sq client WORKSPACE_UPGRADE_VERB payload None (Some g)]"
  define w1 where "w1 = (put_thread (th\<lparr>th_control_hwm := ?sq\<rparr>) w)\<lparr>controls := ?cs\<rparr>"
  have t: "th_id th = t" using thread_of_id [OF th] .
  have w1: "rq w1 = rq w" "controls w1 = ?cs" "events w1 = events w"
    "map th_id (threads w1) = map th_id (threads w)" by (simp_all add: w1_def)
  have th1: "thread_of w1 t = Some (th\<lparr>th_control_hwm := ?sq\<rparr>)" "other_views t w1 = other_views t w"
    using thread_of_put_thread [of "th\<lparr>th_control_hwm := ?sq\<rparr>" w t] th t
      put_thread_other_views [of "th\<lparr>th_control_hwm := ?sq\<rparr>" t w]
    by (simp_all add: w1_def thread_of_def other_views_def)
  let ?a = "\<lparr>ad_id = i, ad_seq = ?sq, ad_client = client, ad_verb = WORKSPACE_UPGRADE_VERB,
    ad_state = None, ad_duplicate = False, ad_generation = Some g\<rparr>"
  let ?frame = "\<lambda>w2. append_system_frame t LANE_CHANGED_FRAME (lane_changed_params i client g) None None
    (snd (bump_epoch t w2))"
  obtain w2 where w2: "close_queue now t w1 = Inr w2"
    and k: "(case ?frame w2 of Inl _ \<Rightarrow> Inl (Refused ''database'')
      | Inr (_, w3) \<Rightarrow> bind_ok (flip_lane t g w3) (\<lambda>w4. Inr (?a, w4))) = Inr (a, w')"
    using new t unfolding switch_new_def Let_def w1_def [symmetric] bind_ok_Inr by (auto simp: w1_def)
  then obtain pos w3 where w3: "?frame w2 = Inr (pos, w3)" and w4: "flip_lane t g w3 = Inr w'" and a: "a = ?a"
    by (cases "?frame w2") (auto simp: bind_ok_Inr)
  note c = close_queue_keeps [OF w2]
  have same: "threads w2 = threads w1" "controls w2 = ?cs" "events w2 = events w"
    using c(1) w1 by (metis world.select_convs(2,4,7) world.update_convs(1) world.surjective)+
  then have th2: "thread_of w2 t = Some (th\<lparr>th_control_hwm := ?sq\<rparr>)" "other_views t w2 = other_views t w"
    using th1 by (simp_all add: thread_of_def other_views_def)
  note b = bump_epoch_keeps [of t w2] bump_epoch_thread [OF th2(1)]
  note f = append_frame_keeps [OF w3 b(6)]
  obtain md where w': "w' = put_thread ((th\<lparr>th_control_hwm := ?sq, th_epoch := th_epoch th + 1,
      th_events_hwm := 1, th_lane := LANE_PINNED, th_metadata := md\<rparr>)) w3"
    using w4 f(6) by (auto elim!: flip_lane_keeps)
  let ?th = "th\<lparr>th_control_hwm := ?sq, th_epoch := th_epoch th + 1,
      th_events_hwm := 1, th_lane := LANE_PINNED, th_metadata := md\<rparr>"
  have rq: "rq w' = rq w2" by (simp add: w' f(1) b(1))
  show ?thesis
  proof (rule that [of ?th])
    show "thread_of w' t = Some ?th" using thread_of_put_thread [of ?th w3 t] f(6) t by (simp add: w')
    show "controls w' = ?cs" by (simp add: w' f(2) b(2) same)
    show "db_ok (rq w')" "db_le (rq w) (rq w')" "\<And>u. control_marks (rq w') u = control_marks (rq w) u"
      unfolding rq using c(2,3,4) ok w1(1) by simp_all
    show "map th_id (threads w') = map th_id (threads w)" by (simp add: w' f(4) b(4) same w1(4))
    show "other_views t w' = other_views t w"
      using put_thread_other_views [of ?th t w3] t by (simp add: w' f(5) b(5) th2(2))
    show "set (events w) \<subseteq> set (events w')" using f(3) by (simp add: w' b(3) same)
    show "row_of (rq w') t = Some (closed_row now q)" if "row_of (rq w) t = Some q" for q
      using c(5) that w1(1) unfolding rq by simp
  qed (simp_all add: a)
qed

lemma handoff_cases:
  assumes "begin_stateless_vm_upgrade_handoff p pu ir wc busy now i t owner client payload w = Inr (a, w')"
  obtains (duplicate) r th where "thread_of w t = Some th" "existing_control w t client = Some r" "w' = w"
      "a = duplicate_of r"
  | (fresh) th g where "thread_of w t = Some th" "th_user th = owner" "existing_control w t client = None"
      "payload_generation p pu payload = Inr g" "switch_checks p ir wc busy g th w = None"
      "switch_new now i th client payload g w = Inr (a, w')"
proof -
  obtain g where g: "payload_generation p pu payload = Inr g"
    using assms by (cases "payload_generation p pu payload") (auto simp: begin_stateless_vm_upgrade_handoff_def)
  obtain th where th: "thread_of w t = Some th" "th_user th = owner"
    using assms g by (cases "thread_of w t") (auto simp: begin_stateless_vm_upgrade_handoff_def split: if_splits)
  show ?thesis
  proof (cases "existing_control w t client")
    case None
    then show ?thesis
      using assms g th fresh
      by (cases "switch_checks p ir wc busy g th w") (simp_all add: begin_stateless_vm_upgrade_handoff_def)
  next
    case (Some r)
    then show ?thesis
      using assms g th duplicate by (auto simp: begin_stateless_vm_upgrade_handoff_def split: if_splits)
  qed
qed

text \<open>A session that passes the checks is stateless, unbound, and has nothing pending or queued.\<close>

lemma switch_checks_pass:
  assumes "switch_checks p ir wc busy g th w = None"
  shows "th_lane th = LANE_STATELESS" "th_agent th = None" "pending_of (controls w) (th_id th) = []"
    "row_of (rq w) (th_id th) = Some q \<Longrightarrow>
       state q \<in> {Queued, Done} \<and> \<not> pending_input q \<and> \<not> control_pending q"
proof -
  have c: "switch_refusal p ir wc g th = None" "quiet_queue_refusal (row_of (rq w) (th_id th)) = None"
    "pending_control_refusal w (th_id th) = None"
    using assms by (simp_all add: switch_checks_def split: option.split_asm)
  show "th_lane th = LANE_STATELESS" "th_agent th = None"
    using c(1) by (auto simp: switch_refusal_def split: if_splits prod.split_asm)
  show "pending_of (controls w) (th_id th) = []"
    using c(3) by (simp add: pending_control_refusal_def split: if_splits)
  show "row_of (rq w) (th_id th) = Some q \<Longrightarrow>
      state q \<in> {Queued, Done} \<and> \<not> pending_input q \<and> \<not> control_pending q"
    using c(2) by (cases "state q") (simp_all add: quiet_queue_refusal_def split: if_splits)
qed

lemma switch_inbox_ok:
  assumes ok: "inbox_ok w" and th: "thread_of w t = Some th"
    and fresh: "control_of w i = None" "existing_control w t client = None"
    and new: "switch_new now i th client payload g w = Inr (a, w')"
  shows "inbox_ok w'"
proof -
  let ?h = "th_control_hwm th" let ?r = "new_control i t (?h + 1) client WORKSPACE_UPGRADE_VERB payload None (Some g)"
  obtain th' where th': "thread_of w' t = Some th'" "th_lane th' = LANE_PINNED" "th_control_hwm th' = ?h + 1"
    and w': "controls w' = controls w @ [?r]" "db_ok (rq w')" "\<And>u. control_marks (rq w') u = control_marks (rq w) u"
      "map th_id (threads w') = map th_id (threads w)" "other_views t w' = other_views t w"
    using switch_new_tables [OF inbox_okD(1) [OF ok] th new] by metis
  have own: "view_ok (controls w) (rq w) (t, th_lane th, ?h)" using inbox_ok_view [OF ok th] .
  have "cr_seq r \<le> ?h" if "r \<in> set (controls w)" "cr_thread r = t" for r
    using own that by (auto simp: view_ok_def)
  then have seq: "(t, ?h + 1) \<notin> (\<lambda>r. (cr_thread r, cr_seq r)) ` set (controls w)" by fastforce
  have id: "i \<notin> cr_id ` set (controls w)" using fresh(1) by (simp add: control_of_def find_by_None)
  have mem: "t \<in> th_id ` set (threads w)"
    using th thread_of_id [OF th] by (auto simp: thread_of_def dest: find_by_Some_set)
  show ?thesis
  proof (rule lane_change_ok [OF ok w'(2) th'(1) w'(4,5)])
    show "pending_of (controls w') u = pending_of (controls w) u" if "u \<noteq> t" for u
      using that by (simp add: w'(1) pending_of_def is_pending_def)
    show "r \<in> set (controls w') \<longleftrightarrow> r \<in> set (controls w)" if "cr_thread r \<noteq> t" for r
      using that by (auto simp: w'(1))
    show "cr_thread ` set (controls w') \<subseteq> th_id ` set (threads w)"
      using ok mem by (auto simp: w'(1) inbox_ok_def)
    show "distinct (map cr_id (controls w'))" using inbox_okD(3) [OF ok] id by (auto simp: w'(1))
    show "distinct (map (\<lambda>r. (cr_thread r, cr_seq r)) (controls w'))"
      using ok seq by (auto simp: w'(1) inbox_ok_def)
    show "distinct (map (\<lambda>r. (cr_thread r, cr_client r)) (controls w'))"
      using ok fresh(2) by (simp add: w'(1) inbox_ok_def existing_control_None)
    show "view_ok (controls w') (rq w') (thread_view th')"
      using own th' thread_of_id [OF th'(1)] by (auto simp: view_ok_def thread_view_def w'(1))
  qed (simp add: w'(3))
qed

lemma handoff_inbox_ok:
  assumes "inbox_ok w" "control_of w i = None"
    "begin_stateless_vm_upgrade_handoff p pu ir wc busy now i t owner client payload w = Inr (a, w')"
  shows "inbox_ok w'"
  using assms(3)
proof (cases rule: handoff_cases)
  case (fresh th g)
  then show ?thesis using switch_inbox_ok [OF assms(1)] assms(2) by blast
qed (simp add: assms(1))

section \<open>Any other lane change\<close>

text \<open>
  No service moves a session to the stateless lane; an operator can, on an idle session. What the
  inbox needs of it: no agent is bound, nothing waits, and the queue row, if there is one, has
  level control marks at or below the session's counter. Requests an earlier pinned agent had
  accepted may still be pending.
\<close>

definition may_enter_lane :: "string \<Rightarrow> uuid \<Rightarrow> thread \<Rightarrow> world \<Rightarrow> bool" where
  "may_enter_lane lane t th w \<longleftrightarrow>
     lane = LANE_STATELESS \<longrightarrow>
       th_agent th = None \<and> waiting_of (controls w) t = [] \<and>
       fst (control_marks (rq w) t) = snd (control_marks (rq w) t) \<and>
       snd (control_marks (rq w) t) \<le> th_control_hwm th"

lemma lane_move_ok:
  assumes ok: "inbox_ok w" and th: "thread_of w t = Some th" and may: "may_enter_lane lane t th w"
  shows "inbox_ok (put_thread (th\<lparr>th_lane := lane\<rparr>) w)" (is "inbox_ok ?w")
proof (rule lane_change_ok [OF ok])
  have t: "th_id th = t" using thread_of_id [OF th] .
  show "thread_of ?w t = Some (th\<lparr>th_lane := lane\<rparr>)"
    using th t by (simp add: thread_of_put_thread)
  show "other_views t ?w = other_views t w" by (rule put_thread_other_views) (simp add: t)
  have "view_ok (controls w) (rq w) (t, th_lane th, th_control_hwm th)" using inbox_ok_view [OF ok th] .
  then show "view_ok (controls ?w) (rq ?w) (thread_view (th\<lparr>th_lane := lane\<rparr>))"
    using may t by (auto simp: view_ok_def thread_view_def watermark_ok_def may_enter_lane_def)
qed (use ok in \<open>simp_all add: inbox_ok_def\<close>)

end
