(* ===== verification/Control_Steps.thy ===== *)
theory Control_Steps
  imports Control_Lanes
begin

text \<open>
  Every interleaving of the inbox operations with the rest of the system as a step relation, and
  what every run keeps: the invariant of the inbox, terminal requests, admitted requests, fencing
  tokens and the journal.
\<close>

section \<open>Steps\<close>

text \<open>
  Request ids are fresh UUIDs. The queue may take any step that is not an admission to this
  inbox; \<^verbatim>\<open>only_admission_moves_the_marks\<close> shows that all of them leave the control marks
  alone. A session changes its lane through the upgrade switch, or by any other move whose
  conditions \<^verbatim>\<open>may_enter_lane\<close> states; otherwise threads may change in any way that keeps
  their lane and their request counter, and new ones may appear. The inbox row of a deleted
  session goes with the session and is not modelled.
\<close>

inductive inbox_step :: "world \<Rightarrow> world \<Rightarrow> bool" where
  admit: "control_of w i = None \<Longrightarrow>
    admit_thread_control p wc up seen now i t owner client verb payload expected rg w = Inr (a, w') \<Longrightarrow>
    inbox_step w w'"
| adopt: "adopt_next_pinned w t a' gen attach = (b, w') \<Longrightarrow> inbox_step w w'"
| journal: "write_control_receipt wr sq kind params i w = Inr (n, w') \<Longrightarrow> inbox_step w w'"
| settle: "finalize_control_request p now i c out err w = Inr (st, w') \<Longrightarrow> inbox_step w w'"
| queue_op: "rq_step True (rq w) d \<Longrightarrow> \<forall>u. control_marks d u = control_marks (rq w) u \<Longrightarrow>
    inbox_step w (w\<lparr>rq := d\<rparr>)"
| event: "ev_control e = None \<Longrightarrow> insert_event epoch e w = Inr (n, w') \<Longrightarrow> inbox_step w w'"
| created: "thread_of w (th_id th) = None \<Longrightarrow> row_of (rq w) (th_id th) = None \<Longrightarrow>
    th_control_hwm th = 0 \<Longrightarrow> inbox_step w (w\<lparr>threads := threads w @ [th]\<rparr>)"
| handoff: "control_of w i = None \<Longrightarrow>
    begin_stateless_vm_upgrade_handoff p pu ir wc busy now i t owner client payload w = Inr (a, w') \<Longrightarrow>
    inbox_step w w'"
| lane: "thread_of w t = Some th \<Longrightarrow> may_enter_lane lane t th w \<Longrightarrow>
    inbox_step w (put_thread (th\<lparr>th_lane := lane\<rparr>) w)"
| other: "map thread_view (threads w') = map thread_view (threads w) \<Longrightarrow> controls w' = controls w \<Longrightarrow>
    rq w' = rq w \<Longrightarrow> set (events w) \<subseteq> set (events w') \<Longrightarrow> inbox_step w w'"

section \<open>The invariant over runs\<close>

lemma created_inbox_ok:
  assumes ok: "inbox_ok w" and th: "thread_of w (th_id th) = None" "row_of (rq w) (th_id th) = None"
    "th_control_hwm th = 0"
  shows "inbox_ok (w\<lparr>threads := threads w @ [th]\<rparr>)"
proof -
  have new: "th_id th \<notin> th_id ` set (threads w)" using th(1) by (simp add: thread_of_def find_by_None)
  then have none: "cr_thread r \<noteq> th_id th" if "r \<in> set (controls w)" for r
    using inbox_ok_thread [OF ok that] th(1) by (metis option.distinct(1))
  then have "pending_of (controls w) (th_id th) = []"
    by (auto simp: pending_of_def is_pending_def filter_empty_conv)
  then have "watermark_ok (controls w) (rq w) (th_id th) 0"
    using th(2) by (simp add: watermark_ok_def waiting_of_def control_marks_def)
  then have "view_ok (controls w) (rq w) (thread_view th)"
    using th(3) none by (auto simp: view_ok_def thread_view_def)
  then show ?thesis using ok new by (auto simp: inbox_ok_def)
qed

lemma inbox_step_ok: "inbox_step w w' \<Longrightarrow> inbox_ok w \<Longrightarrow> inbox_ok w'"
proof (induction rule: inbox_step.induct)
  case (queue_op w d)
  then show ?case
    using rq_step_ok [OF queue_op(1)] by (intro inbox_frame [OF queue_op(3)]) (simp_all add: inbox_okD)
next
  case (other w' w)
  then show ?case by (intro inbox_frame [OF other(5)]) (simp_all add: inbox_okD)
qed (auto intro: admit_inbox_ok adopt_inbox_ok journal_inbox_ok finalize_inbox_ok
    insert_event_inbox_ok created_inbox_ok handoff_inbox_ok lane_move_ok)

lemma inbox_run_ok: "inbox_step\<^sup>*\<^sup>* w w' \<Longrightarrow> inbox_ok w \<Longrightarrow> inbox_ok w'"
  by (induction rule: rtranclp_induct) (auto intro: inbox_step_ok)

definition empty_world :: world where
  "empty_world =
     \<lparr>rq = empty_db, threads = [], agents = [], controls = [], interrupts = [], permissions = [], events = []\<rparr>"

lemma empty_world_ok: "inbox_ok empty_world"
  by (simp add: inbox_ok_def empty_world_def empty_db_ok)

section \<open>Requests over runs\<close>

lemma control_of_append:
  "control_of w i = Some r \<Longrightarrow> controls w' = controls w @ cs \<Longrightarrow> control_of w' i = Some r"
  by (simp add: control_of_def find_by_append)

text \<open>What may happen to a request: only its adopter changes, or it becomes terminal for good.\<close>

definition request_le :: "control_request \<Rightarrow> control_request \<Rightarrow> bool" where
  "request_le r s \<longleftrightarrow>
     request_view s = request_view r \<and> cr_verb s = cr_verb r \<and> cr_payload s = cr_payload r \<and>
     cr_generation s = cr_generation r \<and> (cr_outcome r \<noteq> None \<longrightarrow> s = r)"

lemma request_le_refl [simp]: "request_le r r"
  by (simp add: request_le_def)

lemma request_le_trans: "request_le r s \<Longrightarrow> request_le s u \<Longrightarrow> request_le r u"
  by (auto simp: request_le_def)

lemma request_le_terminal:
  "cr_outcome r = None \<Longrightarrow> request_le r (terminal_control now out err params e who r)"
  by (simp add: request_le_def request_view_def) (simp add: terminal_control_def)

lemma put_control_le:
  assumes "control_of w i = Some r" "request_le s s'" "s \<in> set (controls w)" "inbox_ok w"
  shows "\<exists>r'. control_of (put_control s' w) i = Some r' \<and> request_le r r'"
proof -
  have s: "control_of w (cr_id s) = Some s" using inbox_ok_member [OF assms(4,3)] .
  have "cr_id s' = cr_id s" using assms(2) by (simp add: request_le_def request_view_def)
  then show ?thesis using assms(1,2) s by (auto simp: control_of_put_control)
qed

lemma settled_control_of:
  "control_of (settled_world p now c out err r e who scalar w) i
   = control_of (put_control (terminal_control now out err (json_object p (ev_payload e)) e who r) w) i"
  by (simp add: control_of_def put_control_def)

lemma inbox_step_requests:
  assumes "inbox_step w w'" "inbox_ok w" "control_of w i = Some r"
  shows "\<exists>r'. control_of w' i = Some r' \<and> request_le r r'"
  using assms
proof (induction rule: inbox_step.induct)
  case (admit w j p wc up seen now t owner client verb payload expected rg a w')
  from admit(2) show ?case
  proof (cases rule: admit_cases)
    case (fresh th agent)
    then show ?thesis using control_of_append [OF admit(4) admit_new_tables(2)] by auto
  qed (use admit in auto)
next
  case (adopt w t a' gen attach b w')
  from adopt(1) show ?case
  proof (cases rule: adopt_cases)
    case (adopted s th)
    then have "request_le s (s\<lparr>cr_agent := Some a'\<rparr>)" by (simp add: request_le_def request_view_def)
    then show ?thesis using put_control_le [OF adopt(3) _ adopted(2) adopt(2)] adopted by blast
  qed (use adopt in auto)
next
  case (settle p now j c out err w st w')
  from settle(1) show ?case
  proof (cases rule: finalize_cases)
    case (settled s e err' scalar who)
    then show ?thesis
      using put_control_le [OF settle(3) request_le_terminal control_of_in [OF settled(2)] settle(2)]
      by (simp add: settled_control_of)
  qed (use settle in auto)
next
  case (journal wr sq kind params j w n w')
  then have "controls w' = controls w"
    by (auto simp: write_control_receipt_def elim!: insert_event_cases split: if_splits)
  then show ?case using journal by (auto simp: control_of_def)
next
  case (handoff w j p pu ir wc busy now t owner client payload a w')
  from handoff(2) show ?case
  proof (cases rule: handoff_cases)
    case (fresh th g)
    then obtain th' where "controls w' = controls w @ [new_control j t (th_control_hwm th + 1) client
        WORKSPACE_UPGRADE_VERB payload None (Some g)]"
      using switch_new_tables [OF inbox_okD(1) [OF handoff(3)] fresh(1,6)] by metis
    then show ?thesis using control_of_append [OF handoff(4)] by auto
  qed (use handoff in auto)
next
  case (event e epoch w n w')
  then have "controls w' = controls w" by (auto elim!: insert_event_cases)
  then show ?case using event by (auto simp: control_of_def)
qed (auto simp: control_of_def)

lemma inbox_run_requests:
  assumes "inbox_step\<^sup>*\<^sup>* w w'" "inbox_ok w" "control_of w i = Some r"
  shows "\<exists>r'. control_of w' i = Some r' \<and> request_le r r'"
  using assms(1)
proof (induction rule: rtranclp_induct)
  case (step y z)
  then obtain s where s: "control_of y i = Some s" "request_le r s" by blast
  then obtain s' where "control_of z i = Some s'" "request_le s s'"
    using inbox_step_requests [OF step(2) inbox_run_ok [OF step(1) assms(2)]] by blast
  then show ?case using s(2) request_le_trans by blast
qed (use assms(3) in auto)

section \<open>Tokens over runs\<close>

lemma inbox_step_le:
  assumes "inbox_step w w'" "inbox_ok w"
  shows "db_le (rq w) (rq w')"
  using assms
proof (induction rule: inbox_step.induct)
  case (admit w j p wc up seen now t owner client verb payload expected rg a w')
  from admit(2) show ?case
  proof (cases rule: admit_cases)
    case (fresh th agent)
    from fresh(6) show ?thesis
    proof (cases rule: admit_new_cases)
      case (stateless st base fair d)
      then show ?thesis using rq_step_le [OF rq_step.control [OF stateless(6), of True]] admit inbox_okD by simp
    qed simp
  qed simp
next
  case (adopt w t a' gen attach b w')
  from adopt(1) show ?case by (cases rule: adopt_cases) simp_all
next
  case (settle p now j c out err w st w')
  from settle(1) show ?case
  proof (cases rule: finalize_cases)
    case (settled r e err' scalar who)
    have r: "r \<in> set (controls w)" using control_of_in [OF settled(2)] .
    show ?thesis
      using settle(2) r settled(3,8,7)
    proof (cases rule: settled_queue_cases [where p = p and now = now and out = out and err = err
          and e = e and scalar = scalar])
      case (lease tok q th)
      then show ?thesis
        using advanced_row(2) [OF inbox_okD(1) [OF settle(2)] lease(4), of "cr_seq r"] settled(9) by simp
    qed (simp add: settled(9))
  qed simp
next
  case (journal wr sq kind params j w n w')
  then have "rq w' = rq w"
    by (auto simp: write_control_receipt_def elim!: insert_event_cases split: if_splits)
  then show ?case by simp
next
  case (queue_op w d)
  then show ?case using rq_step_le inbox_okD by simp
next
  case (handoff w j p pu ir wc busy now t owner client payload a w')
  from handoff(2) show ?case
  proof (cases rule: handoff_cases)
    case (fresh th g)
    then show ?thesis using switch_new_tables [OF inbox_okD(1) [OF handoff(3)] fresh(1,6)] by metis
  qed simp
next
  case (event e epoch w n w')
  then have "rq w' = rq w" by (auto elim!: insert_event_cases)
  then show ?case by simp
qed simp_all

lemma inbox_run_le:
  assumes "inbox_step\<^sup>*\<^sup>* w w'" "inbox_ok w"
  shows "db_le (rq w) (rq w')"
  using assms(1)
proof (induction rule: rtranclp_induct)
  case (step y z)
  then show ?case using inbox_step_le inbox_run_ok [OF step(1) assms(2)] db_le_trans by blast
qed simp

end
