(* ===== verification/Control_Receipts.thy ===== *)
theory Control_Receipts
  imports Control_Steps
begin

text \<open>
  The receipts of the control inbox: what the runtime writes for a request is what the
  validator reads back, and one turn of the drain loop settles exactly one request.
\<close>

section \<open>Round trip of receipts\<close>

text \<open>Only a text prints as a mode word; numbers, lists and dictionaries print otherwise.\<close>

definition text_mode :: "py \<Rightarrow> control_request \<Rightarrow> bool" where
  "text_mode p r \<longleftrightarrow>
     (let v = jget (json_object p (cr_payload r)) (lit ''mode'') in
      is_permission_mode (str_or_empty p v) \<or> str_or_empty p v \<in> set NARRATION_MODES \<longrightarrow>
      v = JStr (str_or_empty p v))"

definition envelope_of :: "control_request \<Rightarrow> fields \<Rightarrow> bool" where
  "envelope_of r ev \<longleftrightarrow>
     jget ev (lit ''request_id'') = JStr (uuid_text (cr_id r)) \<and>
     jget ev (lit ''client_request_id'') = JStr (uuid_text (cr_client r)) \<and>
     jget ev (lit ''request_seq'') = JInt (cr_seq r) \<and>
     jget ev (lit ''method'') = JStr (cr_verb r)"

lemma envelope_of_matches:
  "envelope_of r ev \<Longrightarrow>
   envelope_matches p (cr_id r) (cr_client r) (cr_seq r) (cr_verb r) ev (cr_seq r) \<and>
   py_int p (jget ev (lit ''request_seq'')) = Some (cr_seq r)"
  by (simp add: envelope_of_def envelope_matches_def)

lemma map_of_keys: "k \<in> keys b \<longleftrightarrow> map_of b k \<noteq> None"
  by (simp add: keys_def map_of_eq_None_iff)

lemma map_of_filter_keys: "map_of (filter (\<lambda>(k, v). P k) a) k = (if P k then map_of a k else None)"
  by (induction a) auto

lemma jget_merged: "jget (merged a b) k = (if k \<in> keys b then jget b k else jget a k)"
  by (auto simp: jget_def merged_def map_of_keys map_add_def map_of_filter_keys split: option.splits)

lemma jget_append: "jget (a @ b) k = (if k \<in> keys a then jget a k else jget b k)"
  by (auto simp: jget_def map_of_keys map_add_def split: option.splits)

lemma keys_append [simp]: "keys (a @ b) = keys a \<union> keys b"
  by (auto simp: keys_def)

lemma keys_filter: "keys (filter (\<lambda>(k, v). P k) a) = {k \<in> keys a. P k}"
  by (auto simp: keys_def)

lemma keys_merged [simp]: "keys (merged a b) = keys a \<union> keys b"
  by (auto simp: merged_def keys_filter)

lemma control_envelope_keys:
  "keys (control_envelope r)
   = {lit ''request_id'', lit ''client_request_id'', lit ''request_seq'', lit ''method''}"
  by (simp add: control_envelope_def)

lemma receipt_envelope: "envelope_of r (receipt_params p r out err effect)"
  by (auto simp: envelope_of_def receipt_params_def Let_def jget_merged jget_append
      control_envelope_keys) (auto simp: control_envelope_def)

text \<open>The receipt of a scalar change that was applied.\<close>

lemma scalar_receipt:
  assumes "envelope_of r ev" "scalar_verb (cr_verb r) = Some (kind, column, allowed, canon)"
    and "canon (jget (json_object p (cr_payload r)) (lit ''mode'')) = JStr m" "m \<in> set allowed"
    and "canon (jget ev (lit ''mode'')) = JStr m"
  shows "control_receipt_result p (cr_id r) (cr_client r) (cr_seq r) (cr_verb r) (cr_payload r)
    kind (JObj ev) = Inr (Some (Applied, None, Some (column, m)))"
  using assms envelope_of_matches [OF assms(1)]
  by (simp add: control_receipt_result_def applied_control_scalar_def in_texts_def)

text \<open>A refusal: the verdict is the code it carries.\<close>

lemma refusal_receipt:
  assumes ev: "envelope_of r ev" and code: "str_or_empty p (jget ev (lit ''error_code'')) = c" "c \<noteq> []"
    and kind: "kind = lit ''control.rejected'' \<or>
      (kind = lit ''workspace_upgrade.failed'' \<and> cr_verb r = WORKSPACE_UPGRADE_VERB)"
  shows "control_receipt_result p (cr_id r) (cr_client r) (cr_seq r) (cr_verb r) (cr_payload r)
    kind (JObj ev) = Inr (Some (Rejected, Some c, None))"
proof -
  have "applied_control_scalar p (cr_id r) (cr_client r) (cr_seq r) (cr_verb r) (cr_payload r)
      kind (JObj ev) = Inr None"
    using kind envelope_of_matches [OF ev]
    by (auto simp: applied_control_scalar_def scalar_verb_def Let_def)
  moreover have "\<not> undo_receipt kind req ev" "\<not> compact_receipt kind req ev" "\<not> upgrade_started kind req" for req
    using kind by (auto simp: undo_receipt_def compact_receipt_def upgrade_started_def)
  ultimately show ?thesis
    using kind code envelope_of_matches [OF ev]
    by (auto simp: control_receipt_result_def rejection_def Let_def)
qed

lemma normalize_text: "normalize_permission_mode (JStr s) = JStr (if s = lit ''supervised'' then lit ''read_only'' else s)"
  by (simp add: normalize_permission_mode_def)

lemma describe_cases:
  assumes "describe_control_request p r = (kind, out, err)"
  obtains (permission) "cr_verb r = lit ''mode.set''" "kind = lit ''mode.changed''" "out = Applied" "err = None"
      "is_permission_mode (str_or_empty p (jget (json_object p (cr_payload r)) (lit ''mode'')))"
  | (narration) "cr_verb r = lit ''narration.set''" "kind = lit ''narration.changed''" "out = Applied" "err = None"
      "str_or_empty p (jget (json_object p (cr_payload r)) (lit ''mode'')) \<in> set NARRATION_MODES"
  | (effect) "cr_verb r \<in> set effect_verbs" "out = Applied" "err = None"
  | (unsupported) "kind = lit ''control.rejected''" "out = Rejected" "err = Some (lit ''unsupported_control'')"
  using assms by (auto simp: describe_control_request_def Let_def effect_verbs_def split: if_splits)

text \<open>
  Whatever the runtime writes for a request that needs no effect, the validator reads back as
  the same outcome, the same error and the scalar the request asked for.
\<close>

lemma receipt_round_trip:
  assumes d: "describe_control_request p r = (kind, out, err)" and words: "text_mode p r"
    and plain: "\<not> (out = Applied \<and> cr_verb r \<in> set effect_verbs)"
  shows "\<exists>scalar. control_receipt_result p (cr_id r) (cr_client r) (cr_seq r) (cr_verb r) (cr_payload r)
      kind (JObj (receipt_params p r out err [])) = Inr (Some (out, err, scalar)) \<and>
    (scalar = None \<longleftrightarrow> out = Rejected)"
proof -
  let ?ev = "receipt_params p r out err []" and ?v = "jget (json_object p (cr_payload r)) (lit ''mode'')"
  let ?m = "str_or_empty p ?v"
  have env: "envelope_of r ?ev" by (rule receipt_envelope)
  have mode: "jget ?ev (lit ''mode'') = JStr ?m"
    if "out = Applied" "cr_verb r \<in> {lit ''mode.set'', lit ''narration.set''}"
    using that by (simp add: receipt_params_def Let_def jget_append control_envelope_keys)
  from d show ?thesis
  proof (cases rule: describe_cases)
    case permission
    let ?n = "if ?m = lit ''supervised'' then lit ''read_only'' else ?m"
    have "?v = JStr ?m" using words permission by (simp add: text_mode_def Let_def)
    then have "normalize_permission_mode ?v = JStr ?n" by (metis normalize_text)
    moreover have "?n \<in> set PERMISSION_MODES"
      using permission by (simp add: is_permission_mode_def normalize_text in_texts_def)
    ultimately show ?thesis
      using scalar_receipt [OF env, of kind Permission_Mode PERMISSION_MODES normalize_permission_mode p ?n]
        permission mode by (auto simp: scalar_verb_def normalize_text)
  next
    case narration
    have "?v = JStr ?m" using words narration by (simp add: text_mode_def Let_def)
    then show ?thesis
      using scalar_receipt [OF env, of kind Narration_Mode NARRATION_MODES "\<lambda>v. v" p ?m]
        narration mode by (auto simp: scalar_verb_def)
  next
    case effect
    then show ?thesis using plain by simp
  next
    case unsupported
    have "jget ?ev (lit ''error_code'') = JStr (lit ''unsupported_control'')"
      using unsupported by (auto simp: receipt_params_def Let_def jget_merged)
    then show ?thesis
      using refusal_receipt [OF env, of p "lit ''unsupported_control''" kind] unsupported
      by (simp add: lit_def)
  qed
qed

end
