(* ===== verification/Control_Behaviour.thy ===== *)
theory Control_Behaviour
  imports Control_Receipts
begin

text \<open>
  The properties of the session control inbox: the watermark is the pending set, admission is
  idempotent and wakes the queue, terminalization is fenced, ordered and final, a lost lease
  settles nothing, and a drain under a live lease answers every pending request once.
\<close>

section \<open>One turn of the drain loop\<close>

lemma next_stateless_None:
  assumes "inbox_ok w" "stateless_fence w t tok" "next_stateless w t tok = None"
  shows "waiting_of (controls w) t = []"
  using assms(2,3) by (auto simp: next_stateless_def oldest_pending_def waiting_of_def pending_of_def)

lemma next_stateless_Some:
  assumes ok: "inbox_ok w" and fence: "stateless_fence w t tok" and r: "next_stateless w t tok = Some r"
  shows "r \<in> set (controls w)" "is_pending t r" "cr_agent r = None"
    "final_authority w r (by_lease tok) = Inr (Inr (Some tok, None))"
proof -
  have m: "first_min cr_seq (filter (\<lambda>r. is_pending t r \<and> cr_agent r = None) (controls w)) = Some r"
    using r by (simp add: next_stateless_def oldest_pending_def split: if_splits)
  show r': "r \<in> set (controls w)" "is_pending t r" "cr_agent r = None"
    using first_min_in [OF m] by simp_all
  obtain th where th: "thread_of w t = Some th" "th_lane th = LANE_STATELESS"
    using fence by (auto simp: stateless_fence_def split: option.splits)
  obtain q where q: "row_of (rq w) t = Some q"
    using fence by (auto simp: stateless_fence_def live_lease_def split: option.splits)
  have wm: "watermark_ok (controls w) (rq w) t (th_control_hwm th)"
    using inbox_ok_watermark [OF ok th] .
  then have seqs: "cr_seq ` set (waiting_of (controls w) t) = {control_consumed_seq q <.. control_input_seq q}"
    using q by (simp add: watermark_ok_def control_marks_def)
  moreover have "cr_seq r \<in> cr_seq ` set (waiting_of (controls w) t)"
    using r' by (simp add: waiting_of_def pending_of_def)
  ultimately have bounds: "control_consumed_seq q < cr_seq r" "cr_seq r \<le> control_input_seq q" by auto
  then have "control_consumed_seq q + 1 \<in> cr_seq ` set (waiting_of (controls w) t)"
    using seqs by auto
  then obtain s where s: "s \<in> set (waiting_of (controls w) t)" "cr_seq s = control_consumed_seq q + 1"
    by force
  then have "cr_seq r \<le> cr_seq s"
    using first_min_le [OF m, of s] by (simp add: waiting_of_def pending_of_def)
  then have "control_consumed_seq q = cr_seq r - 1" using bounds s(2) by simp
  then show "final_authority w r (by_lease tok) = Inr (Inr (Some tok, None))"
    using fence q r' by (simp add: final_authority_def by_lease_def is_pending_def)
qed

lemma by_lease_fields [simp]:
  "cred_lease (by_lease tok) = Some tok" "cred_agent (by_lease tok) = None" "one_owner (by_lease tok)"
  by (simp_all add: by_lease_def one_owner_def)

text \<open>A receipt with a verdict that agrees with the caller settles the oldest request.\<close>

lemma finalize_oldest:
  assumes ok: "inbox_ok w" and fence: "stateless_fence w t tok" and r: "next_stateless w t tok = Some r"
    and e: "fetch_control_receipt w t (cr_id r) = Some e"
    and v: "receipt_verdict p r e = Inr (Some (out, err', scalar))" "out = Rejected \<longrightarrow> err' = err"
  shows "finalize_control_request p now (cr_id r) (by_lease tok) out err w
    = Inr (Final out, settled_world p now (by_lease tok) out err r e (Some tok, None) scalar w)"
proof -
  note next_r = next_stateless_Some [OF ok fence r]
  have "cr_thread r = t" "cr_outcome r = None" using next_r(2) by (simp_all add: is_pending_def)
  then have "finalize_control_request p now (cr_id r) (by_lease tok) out err w
      = settle_verdict p now (by_lease tok) out err r e (Some (out, err', scalar)) w"
    using finalize_pending [OF _ inbox_ok_member [OF ok next_r(1)]] e v(1) by simp
  then show ?thesis using v(2) next_r(4) by (auto simp: settle_verdict_def)
qed

section \<open>A session whose inbox can be drained\<close>

definition answer :: "py \<Rightarrow> effect \<Rightarrow> control_request \<Rightarrow> (description \<times> fields) option" where
  "answer p effect r =
     (if fst (snd (describe_control_request p r)) = Applied \<and> cr_verb r \<in> set effect_verbs
      then effect r else Some (describe_control_request p r, []))"

definition accepted :: "outcome \<Rightarrow> pytext option \<Rightarrow> exn + receipt_result option \<Rightarrow> bool" where
  "accepted out err v = (case v of Inr (Some (out', err', scalar)) \<Rightarrow>
       out' = out \<and> (out = Rejected \<longrightarrow> err' = err) | _ \<Rightarrow> False)"

text \<open>
  What the runtime will say of the request is a receipt the validator accepts. For a request
  without an effect this follows from \<^verbatim>\<open>text_mode\<close>; for the others the effect has to report it.
\<close>

definition answerable :: "py \<Rightarrow> effect \<Rightarrow> control_request \<Rightarrow> bool" where
  "answerable p effect r =
     (case answer p effect r of None \<Rightarrow> False
      | Some ((kind, out, err), params) \<Rightarrow>
          accepted out err
            (control_receipt_result p (cr_id r) (cr_client r) (cr_seq r) (cr_verb r) (cr_payload r)
               kind (JObj (receipt_params p r out err params))))"

lemma plain_answerable:
  assumes "text_mode p r" "cr_verb r \<notin> set effect_verbs"
  shows "answerable p effect r"
proof -
  obtain kind out err where d: "describe_control_request p r = (kind, out, err)"
    by (cases "describe_control_request p r")
  show ?thesis
    using receipt_round_trip [OF d assms(1)] assms(2)
    by (auto simp: answerable_def answer_def accepted_def d)
qed

definition servable :: "py \<Rightarrow> effect \<Rightarrow> world \<Rightarrow> control_request \<Rightarrow> bool" where
  "servable p effect w r \<longleftrightarrow>
     (case fetch_control_receipt w (cr_thread r) (cr_id r) of
        Some e \<Rightarrow> (case receipt_verdict p r e of Inr (Some v) \<Rightarrow> True | _ \<Rightarrow> False)
      | None \<Rightarrow> (\<forall>e \<in> set (events w). ev_control e \<noteq> Some (cr_id r)) \<and> answerable p effect r)"

definition drain_ready ::
  "py \<Rightarrow> effect \<Rightarrow> writer \<Rightarrow> uuid \<Rightarrow> int \<Rightarrow> ram \<Rightarrow> world \<Rightarrow> bool" where
  "drain_ready p effect wr t tok m w \<longleftrightarrow>
     inbox_ok w \<and> stateless_fence w t tok \<and> wr_thread wr = t \<and> wr_cred wr = by_lease tok \<and>
     (\<forall>r \<in> set (pending_of (controls w) t). cr_agent r = None) \<and>
     (case thread_of w t of None \<Rightarrow> False
      | Some th \<Rightarrow> th_agent th = None \<and> th_epoch th = wr_epoch wr) \<and>
     (\<forall>e \<in> set (events w). ev_thread e = t \<and> ev_epoch e = wr_epoch wr \<longrightarrow> ev_seq e \<le> rm_next_seq m) \<and>
     (\<forall>r \<in> set (pending_of (controls w) t). servable p effect w r)"

lemma apply_control_next [simp]: "rm_next_seq (apply_control_request p r m) = rm_next_seq m"
  by (simp add: apply_control_request_def Let_def)

lemma settled_lease:
  assumes fence: "stateless_fence w t tok"
  shows "stateless_fence (settled_world p now (by_lease tok') out err r e who scalar w) t tok"
proof -
  obtain th q where th: "thread_of w t = Some th" "th_lane th = LANE_STATELESS"
    and q: "row_of (rq w) t = Some q" "unit_kind q = UNIT_KIND_SESSION_TURN" "held tok q"
    using fence by (auto simp: stateless_fence_def live_lease_def split: option.splits)
  show ?thesis
    using th q row_of_unit
    by (auto simp: stateless_fence_def live_lease_def settled_world_thread settled_world_queue
        row_of_store held_def split: option.splits)
qed

lemma drain_ready_settled:
  assumes ready: "drain_ready p effect wr t tok m w" and next_r: "next_stateless w t tok = Some r"
    and m': "rm_next_seq m' = rm_next_seq m"
  shows "drain_ready p effect wr t tok m'
           (settled_world p now (by_lease tok) out err r e (Some tok, None) scalar w)"
    and "set (pending_of (controls (settled_world p now (by_lease tok) out err r e (Some tok, None) scalar w)) t)
       = set (pending_of (controls w) t) - {r}"
proof -
  let ?w = "settled_world p now (by_lease tok) out err r e (Some tok, None) scalar w"
  have ok: "inbox_ok w" and fence: "stateless_fence w t tok" using ready by (simp_all add: drain_ready_def)
  note r = next_stateless_Some [OF ok fence next_r]
  show left: "set (pending_of (controls ?w) t) = set (pending_of (controls w) t) - {r}"
    using pending_of_terminal [OF inbox_okD(3) [OF ok] r(1)] by simp
  have "inbox_ok ?w"
    using settled_inbox_ok [OF ok r(1) _ r(4)] r(2) by (simp add: is_pending_def)
  moreover have "servable p effect ?w x" if "x \<in> set (pending_of (controls ?w) t)" for x
  proof -
    have ev: "events ?w = events w" by (rule settled_world_fields)
    have "servable p effect ?w x = servable p effect w x"
      unfolding servable_def fetch_control_receipt_def ev by (rule refl)
    moreover have "x \<in> set (pending_of (controls w) t)" using that unfolding left by simp
    ultimately show ?thesis using ready by (simp add: drain_ready_def)
  qed
  moreover have "\<forall>x \<in> set (pending_of (controls ?w) t). cr_agent x = None"
    using ready unfolding left by (simp add: drain_ready_def)
  ultimately show "drain_ready p effect wr t tok m' ?w"
    using ready settled_lease [OF fence] m'
    by (auto simp: drain_ready_def settled_world_thread split: option.splits)
qed

text \<open>The journal write of a drainable session succeeds and keeps it drainable.\<close>

definition receipt_event :: "writer \<Rightarrow> int \<Rightarrow> pytext \<Rightarrow> fields \<Rightarrow> uuid \<Rightarrow> event" where
  "receipt_event wr sq kind params i =
     \<lparr>ev_thread = wr_thread wr, ev_epoch = wr_epoch wr, ev_seq = sq, ev_kind = kind,
      ev_payload = JObj params, ev_control = Some i, ev_interrupt = None,
      ev_permission = None\<rparr>"

lemma receipt_event_fields [simp]:
  "ev_thread (receipt_event wr sq kind params i) = wr_thread wr"
  "ev_epoch (receipt_event wr sq kind params i) = wr_epoch wr"
  "ev_seq (receipt_event wr sq kind params i) = sq"
  "ev_kind (receipt_event wr sq kind params i) = kind"
  "ev_payload (receipt_event wr sq kind params i) = JObj params"
  "ev_control (receipt_event wr sq kind params i) = Some i"
  "ev_interrupt (receipt_event wr sq kind params i) = None"
  "ev_permission (receipt_event wr sq kind params i) = None"
  by (simp_all add: receipt_event_def)

lemma write_ready:
  assumes ready: "drain_ready p effect wr t tok m w" and next_r: "next_stateless w t tok = Some r"
    and none: "\<forall>e \<in> set (events w). ev_control e \<noteq> Some (cr_id r)" and sq: "rm_next_seq m < sq"
  obtains w' where "write_control_receipt wr sq kind params (cr_id r) w = Inr (1, w')"
    "rq w' = rq w" "controls w' = controls w"
    "events w' = events w @ [receipt_event wr sq kind params (cr_id r)]"
    "\<And>u. thread_of w' u = map_option (\<lambda>th. if u = t
        then th\<lparr>th_events_hwm := max (th_events_hwm th) sq\<rparr> else th) (thread_of w u)"
proof -
  have ok: "inbox_ok w" and fence: "stateless_fence w t tok"
    and wr: "wr_thread wr = t" "wr_cred wr = by_lease tok" using ready by (simp_all add: drain_ready_def)
  note r = next_stateless_Some [OF ok fence next_r]
  obtain th where th: "thread_of w t = Some th" "th_agent th = None" "th_epoch th = wr_epoch wr"
    "th_lane th = LANE_STATELESS" "live_lease t tok (rq w)"
    using ready fence by (auto simp: drain_ready_def stateless_fence_def split: option.splits)
  let ?e = "receipt_event wr sq kind params (cr_id r)"
  have "control_writer_fence w wr" using th wr by (simp add: control_writer_fence_def)
  moreover have "lockable_control w wr (cr_id r)"
    using inbox_ok_member [OF ok r(1)] r wr by (simp add: lockable_control_def)
  moreover have "\<not> event_conflict w ?e"
    using ready none sq wr by (fastforce simp: event_conflict_def drain_ready_def)
  moreover define w' where
    "w' = put_thread (th\<lparr>th_events_hwm := max (th_events_hwm th) sq\<rparr>) (w\<lparr>events := events w @ [?e]\<rparr>)"
  ultimately have "write_control_receipt wr sq kind params (cr_id r) w = Inr (1, w')"
    using th wr by (simp add: write_control_receipt_def insert_event_def receipt_event_def)
  moreover have "thread_of w' u = map_option (\<lambda>th. if u = t
      then th\<lparr>th_events_hwm := max (th_events_hwm th) sq\<rparr> else th) (thread_of w u)" for u
  proof -
    have "thread_of (w\<lparr>events := events w @ [?e]\<rparr>) u = thread_of w u" by (simp add: thread_of_def)
    then show ?thesis
      using th(1) thread_of_id [OF th(1)] by (cases "thread_of w u") (auto simp: w'_def thread_of_put_thread)
  qed
  ultimately show ?thesis using that by (simp add: w'_def)
qed

lemma journaled_ready:
  assumes ready: "drain_ready p effect wr t tok m w" and next_r: "next_stateless w t tok = Some r"
    and w': "rq w' = rq w" "controls w' = controls w"
      "events w' = events w @ [receipt_event wr sq kind params (cr_id r)]"
      "\<And>u. thread_of w' u = map_option (\<lambda>th. if u = t
        then th\<lparr>th_events_hwm := max (th_events_hwm th) sq\<rparr> else th) (thread_of w u)"
    and ok': "inbox_ok w'" and sq: "rm_next_seq m \<le> sq" "rm_next_seq m' = sq"
    and v: "receipt_verdict p r (receipt_event wr sq kind params (cr_id r)) = Inr (Some v)"
    and none: "fetch_control_receipt w t (cr_id r) = None"
  shows "drain_ready p effect wr t tok m' w'" "next_stateless w' t tok = Some r"
    "fetch_control_receipt w' t (cr_id r) = Some (receipt_event wr sq kind params (cr_id r))"
proof -
  have ok: "inbox_ok w" and fence: "stateless_fence w t tok"
    and wr: "wr_thread wr = t" "wr_cred wr = by_lease tok" using ready by (simp_all add: drain_ready_def)
  have fence': "stateless_fence w' t tok"
    using fence w'(1) by (auto simp: stateless_fence_def w'(4) split: option.splits)
  show "next_stateless w' t tok = Some r"
    using next_r fence fence' w'(2) by (simp add: next_stateless_def oldest_pending_def)
  show fetch: "fetch_control_receipt w' t (cr_id r) = Some (receipt_event wr sq kind params (cr_id r))"
    using none wr by (simp add: fetch_control_receipt_def w'(3) find_append)
  have "servable p effect w' x" if x: "x \<in> set (pending_of (controls w') t)" for x
  proof (cases "x = r")
    case True
    have "cr_thread r = t" using next_stateless_Some(2) [OF ok fence next_r] by (simp add: is_pending_def)
    then show ?thesis using fetch v True by (simp add: servable_def)
  next
    case False
    have "x \<in> set (controls w)" using x w'(2) by (simp add: pending_of_def)
    then have "cr_id x \<noteq> cr_id r"
      using False inbox_ok_member [OF ok] next_stateless_Some(1) [OF ok fence next_r]
      by (metis option.inject)
    then have "servable p effect w' x = servable p effect w x"
      by (auto simp: servable_def fetch_control_receipt_def w'(3) find_append split: option.splits)
    then show ?thesis using ready x w'(2) by (simp add: drain_ready_def)
  qed
  moreover have th': "case thread_of w' t of None \<Rightarrow> False
      | Some th \<Rightarrow> th_agent th = None \<and> th_epoch th = wr_epoch wr"
    using ready by (simp add: drain_ready_def w'(4) split: option.splits)
  moreover have "ev_seq e \<le> rm_next_seq m'"
    if "e \<in> set (events w')" "ev_thread e = t" "ev_epoch e = wr_epoch wr" for e
  proof (cases "e \<in> set (events w)")
    case True
    then have "ev_seq e \<le> rm_next_seq m" using ready that(2,3) by (simp add: drain_ready_def)
    then show ?thesis using sq by simp
  next
    case False
    then show ?thesis using that(1) sq(2) by (simp add: w'(3))
  qed
  moreover have "\<forall>x \<in> set (pending_of (controls w') t). cr_agent x = None"
    using ready w'(2) by (simp add: drain_ready_def)
  ultimately show "drain_ready p effect wr t tok m' w'"
    using ok' fence' wr th' unfolding drain_ready_def by blast
qed

lemma settle_ready:
  assumes ready: "drain_ready p effect wr t tok m w" and next_r: "next_stateless w t tok = Some r"
    and e: "fetch_control_receipt w t (cr_id r) = Some e"
    and v: "receipt_verdict p r e = Inr (Some (out, err', scalar))" "out = Rejected \<longrightarrow> err' = err"
  obtains m' w' where "settle_request p now tok r out err (m, w) = (Drain_Next, m', w')"
    "drain_ready p effect wr t tok m' w'" "inbox_step w w'"
    "set (pending_of (controls w') t) = set (pending_of (controls w) t) - {r}"
proof -
  have ok: "inbox_ok w" and fence: "stateless_fence w t tok" using ready by (simp_all add: drain_ready_def)
  note fin = finalize_oldest [OF ok fence next_r e v, of now]
  let ?w = "settled_world p now (by_lease tok) out err r e (Some tok, None) scalar w"
  have "settle_request p now tok r out err (m, w) = (Drain_Next, apply_control_request p r m, ?w)"
    by (simp add: settle_request_def fin)
  then show ?thesis
    using that drain_ready_settled [OF ready next_r apply_control_next] inbox_step.settle [OF fin] by blast
qed

lemma fetch_control_receipt_None:
  "fetch_control_receipt w t i = None \<Longrightarrow> e \<in> set (events w) \<Longrightarrow> ev_thread e = t \<Longrightarrow> ev_control e \<noteq> Some i"
  by (auto simp: fetch_control_receipt_def find_None_iff)

lemma drain_step_ready:
  assumes ready: "drain_ready p effect wr t tok m w" and next_r: "next_stateless w t tok = Some r"
  obtains m' w' where "drain_step p effect now wr t tok (m, w) = (Drain_Next, m', w')"
    "drain_ready p effect wr t tok m' w'" "inbox_step\<^sup>*\<^sup>* w w'"
    "set (pending_of (controls w') t) = set (pending_of (controls w) t) - {r}"
proof -
  have ok: "inbox_ok w" and fence: "stateless_fence w t tok" using ready by (simp_all add: drain_ready_def)
  note r = next_stateless_Some [OF ok fence next_r]
  have t: "cr_thread r = t" using r(2) by (simp add: is_pending_def)
  have "r \<in> set (pending_of (controls w) t)" using r by (simp add: pending_of_def)
  then have s: "servable p effect w r" using ready by (simp add: drain_ready_def)
  show ?thesis
  proof (cases "fetch_control_receipt w t (cr_id r)")
    case (Some e)
    then obtain out err scalar where v: "receipt_verdict p r e = Inr (Some (out, err, scalar))"
      using s t by (auto simp: servable_def split: sum.splits option.splits)
    obtain m' w' where *: "settle_request p now tok r out err (m, w) = (Drain_Next, m', w')"
      "drain_ready p effect wr t tok m' w'" "inbox_step w w'"
      "set (pending_of (controls w') t) = set (pending_of (controls w) t) - {r}"
      using settle_ready [OF ready next_r Some v, where err = err and now = now] by auto
    then have "drain_step p effect now wr t tok (m, w) = (Drain_Next, m', w')"
      using fence next_r Some v by (simp add: drain_step_def)
    then show ?thesis using that * by blast
  next
    case None
    then have none: "\<forall>e \<in> set (events w). ev_control e \<noteq> Some (cr_id r)" and a: "answerable p effect r"
      using s t by (simp_all add: servable_def)
    obtain kind out err params where ans: "answer p effect r = Some ((kind, out, err), params)"
      and acc: "accepted out err (control_receipt_result p (cr_id r) (cr_client r) (cr_seq r) (cr_verb r)
        (cr_payload r) kind (JObj (receipt_params p r out err params)))"
      using a by (auto simp: answerable_def split: option.splits)
    let ?sq = "rm_next_seq m + 1" let ?params = "receipt_params p r out err params"
    let ?e = "receipt_event wr ?sq kind ?params (cr_id r)" let ?m = "m\<lparr>rm_next_seq := ?sq\<rparr>"
    obtain err' scalar where v: "receipt_verdict p r ?e = Inr (Some (out, err', scalar))" "out = Rejected \<longrightarrow> err' = err"
      using acc by (auto simp: accepted_def receipt_verdict_def split: sum.splits option.splits)
    have wr: "wr_thread wr = t" using ready by (simp add: drain_ready_def)
    obtain w1 where w1: "write_control_receipt wr ?sq kind ?params (cr_id r) w = Inr (1, w1)"
      "rq w1 = rq w" "controls w1 = controls w" "events w1 = events w @ [?e]"
      "\<And>u. thread_of w1 u = map_option (\<lambda>th. if u = t
        then th\<lparr>th_events_hwm := max (th_events_hwm th) ?sq\<rparr> else th) (thread_of w u)"
      using write_ready [OF ready next_r none, of ?sq kind ?params] by auto
    note j = journaled_ready [OF ready next_r w1(2-5) journal_inbox_ok [OF ok w1(1)] _ _ v(1) None, of ?m]
    obtain m' w' where *: "settle_request p now tok r out err (?m, w1) = (Drain_Next, m', w')"
      "drain_ready p effect wr t tok m' w'" "inbox_step w1 w'"
      "set (pending_of (controls w') t) = set (pending_of (controls w1) t) - {r}"
      using settle_ready [OF j(1,2,3) v, where now = now] by auto
    then have "drain_step p effect now wr t tok (m, w) = (Drain_Next, m', w')"
      using fence next_r None ans w1(1)
      by (simp add: drain_step_def serve_request_def answer_def [symmetric] Let_def)
    moreover have "inbox_step\<^sup>*\<^sup>* w w'"
      using inbox_step.journal [OF w1(1)] *(3) by (meson r_into_rtranclp rtranclp.rtrancl_into_rtrancl)
    ultimately show ?thesis using that * w1(3) by simp
  qed
qed


lemma drain_run:
  "drain_ready p effect wr t tok m w \<Longrightarrow> card (set (pending_of (controls w) t)) = n \<Longrightarrow> n < fuel \<Longrightarrow>
   \<exists>m' w'. drain_thread_controls fuel p effect now wr t tok c (m, w) = Some (Drain_Empty, c + n, m', w') \<and>
     drain_ready p effect wr t tok m' w' \<and> pending_of (controls w') t = [] \<and> inbox_step\<^sup>*\<^sup>* w w'"
proof (induction n arbitrary: m w c fuel)
  case 0
  then have ok: "inbox_ok w" and fence: "stateless_fence w t tok" and empty: "pending_of (controls w) t = []"
    by (simp_all add: drain_ready_def)
  have "next_stateless w t tok = None"
    using empty by (simp add: next_stateless_def oldest_pending_def pending_of_def filter_empty_conv)
  then have "drain_step p effect now wr t tok (m, w) = (Drain_Empty, m, w)"
    using fence by (simp add: drain_step_def)
  moreover obtain k where "fuel = Suc k" using 0(3) by (cases fuel) auto
  ultimately show ?case using 0(1) empty by simp
next
  case (Suc n)
  then have ok: "inbox_ok w" and fence: "stateless_fence w t tok"
    and nobody: "\<forall>r \<in> set (pending_of (controls w) t). cr_agent r = None" by (simp_all add: drain_ready_def)
  obtain k where k: "fuel = Suc k" using Suc.prems(3) by (cases fuel) auto
  obtain r where r: "next_stateless w t tok = Some r"
    using next_stateless_None [OF ok fence] nobody Suc.prems(2)
    by (cases "next_stateless w t tok") (auto simp: waiting_of_def filter_empty_conv)
  obtain m1 w1 where s1: "drain_step p effect now wr t tok (m, w) = (Drain_Next, m1, w1)"
    "drain_ready p effect wr t tok m1 w1" "inbox_step\<^sup>*\<^sup>* w w1"
    "set (pending_of (controls w1) t) = set (pending_of (controls w) t) - {r}"
    using drain_step_ready [OF Suc.prems(1) r] .
  have "r \<in> set (pending_of (controls w) t)"
    using next_stateless_Some(1,2) [OF ok fence r] by (simp add: pending_of_def)
  then have "card (set (pending_of (controls w1) t)) = n" using Suc.prems(2) s1(4) by simp
  then obtain m' w' where "drain_thread_controls k p effect now wr t tok (Suc c) (m1, w1)
      = Some (Drain_Empty, Suc c + n, m', w')" "drain_ready p effect wr t tok m' w'"
    "pending_of (controls w') t = []" "inbox_step\<^sup>*\<^sup>* w1 w'"
    using Suc.IH [OF s1(2), of k "Suc c"] Suc.prems(3) k by auto
  then show ?case using s1(1,3) k by auto
qed

section \<open>Properties\<close>

text \<open>
  C16. Draining under a live lease ends: with more fuel than pending requests, when each of them
  can be answered, the loop settles exactly the pending requests, one receipt each, in a run of
  the inbox, leaves nothing pending and leaves the queue row without a pending control.
\<close>

theorem drain_settles_every_request:
  assumes "drain_ready p effect wr t tok m w" "card (set (pending_of (controls w) t)) < fuel"
  shows "\<exists>m' w' q. drain_thread_controls fuel p effect now wr t tok 0 (m, w)
      = Some (Drain_Empty, card (set (pending_of (controls w) t)), m', w') \<and>
    inbox_step\<^sup>*\<^sup>* w w' \<and> pending_of (controls w') t = [] \<and>
    row_of (rq w') t = Some q \<and> \<not> control_pending q"
proof -
  obtain m' w' where d: "drain_thread_controls fuel p effect now wr t tok 0 (m, w)
      = Some (Drain_Empty, card (set (pending_of (controls w) t)), m', w')"
    "drain_ready p effect wr t tok m' w'" "pending_of (controls w') t = []" "inbox_step\<^sup>*\<^sup>* w w'"
    using drain_run [OF assms(1) refl assms(2), of now 0] by auto
  then have fence: "stateless_fence w' t tok" and ok: "inbox_ok w'" by (simp_all add: drain_ready_def)
  obtain th q where th: "thread_of w' t = Some th" "th_lane th = LANE_STATELESS"
    and q: "row_of (rq w') t = Some q"
    using fence by (auto simp: stateless_fence_def live_lease_def split: option.splits)
  have "{control_consumed_seq q <.. control_input_seq q} = {}"
    using inbox_ok_watermark [OF ok th] q d(3) by (simp add: watermark_ok_def waiting_of_def control_marks_def)
  then show ?thesis using d q by (auto simp: control_pending_def)
qed

text \<open>
  C19. In every run of the system that starts without sessions, sessions that change lanes
  included, the waiting requests of a stateless session (the pending ones no pinned agent has
  accepted, which a lease owner serves) are exactly the numbers between the two control marks of
  its queue row, and no number is given twice; so a claimed or completed unit sees a pending
  control precisely when something waits in the inbox. A request stranded from a pinned life is
  pending only while the marks are equal: nothing waits beside it.
\<close>

theorem control_watermark_is_the_pending_set:
  assumes "inbox_step\<^sup>*\<^sup>* empty_world w" "thread_of w t = Some th" "th_lane th = LANE_STATELESS"
  shows "cr_seq ` {r \<in> set (pending_of (controls w) t). cr_agent r = None}
      = {fst (control_marks (rq w) t) <.. snd (control_marks (rq w) t)} \<and>
    inj_on cr_seq (set (pending_of (controls w) t)) \<and>
    ((\<exists>q. row_of (rq w) t = Some q \<and> control_pending q) \<longleftrightarrow>
      (\<exists>r \<in> set (pending_of (controls w) t). cr_agent r = None)) \<and>
    ((\<exists>r \<in> set (pending_of (controls w) t). cr_agent r \<noteq> None) \<longrightarrow>
      fst (control_marks (rq w) t) = snd (control_marks (rq w) t))"
proof -
  have ok: "inbox_ok w" using inbox_run_ok [OF assms(1) empty_world_ok] .
  let ?W = "{r \<in> set (pending_of (controls w) t). cr_agent r = None}"
  have W: "?W = set (waiting_of (controls w) t)" by (auto simp: waiting_of_def)
  note wm = inbox_ok_watermark [OF ok assms(2,3), unfolded watermark_ok_def]
  have seqs: "cr_seq ` ?W = {fst (control_marks (rq w) t) <.. snd (control_marks (rq w) t)}"
    using wm unfolding W by blast
  have inj: "inj_on cr_seq (set (pending_of (controls w) t))"
    using inbox_ok_seq_inj [OF ok] by (auto simp: inj_on_def pending_of_def is_pending_def)
  have "(\<exists>q. row_of (rq w) t = Some q \<and> control_pending q) \<longleftrightarrow>
      fst (control_marks (rq w) t) < snd (control_marks (rq w) t)"
    by (auto simp: control_marks_def control_pending_def split: option.splits)
  also have "\<dots> \<longleftrightarrow> cr_seq ` ?W \<noteq> {}" unfolding seqs by simp
  also have "\<dots> \<longleftrightarrow> (\<exists>r \<in> set (pending_of (controls w) t). cr_agent r = None)" by blast
  finally have pend: "(\<exists>q. row_of (rq w) t = Some q \<and> control_pending q) \<longleftrightarrow>
      (\<exists>r \<in> set (pending_of (controls w) t). cr_agent r = None)" .
  have stranded: "(\<exists>r \<in> set (pending_of (controls w) t). cr_agent r \<noteq> None) \<longrightarrow>
      fst (control_marks (rq w) t) = snd (control_marks (rq w) t)"
    using wm by (metis order_le_less)
  show ?thesis by (intro conjI seqs inj pend stranded)
qed

text \<open>While a request waits, every pending request of its session lies between the two marks.\<close>

lemma oldest_waiting:
  assumes "inbox_ok w" "r \<in> set (controls w)" "thread_of w (cr_thread r) = Some th"
    "th_lane th = LANE_STATELESS" "cr_outcome r = None" "cr_agent r = None"
    "row_of (rq w) (cr_thread r) = Some q" "x \<in> set (controls w)" "is_pending (cr_thread r) x"
  shows "cr_seq x \<in> {control_consumed_seq q <.. control_input_seq q}"
proof -
  note wm = inbox_ok_watermark [OF assms(1,3,4), unfolded watermark_ok_def]
  have m: "control_marks (rq w) (cr_thread r) = (control_consumed_seq q, control_input_seq q)"
    using assms(7) by (simp add: control_marks_def)
  have "r \<in> set (waiting_of (controls w) (cr_thread r))"
    using assms(2,5,6) by (simp add: waiting_of_def pending_of_def is_pending_def)
  then have "cr_seq r \<in> {control_consumed_seq q <.. control_input_seq q}" using wm m by auto
  then have "cr_agent x = None" using wm m assms(8,9) by (simp add: pending_of_def)
  then have "x \<in> set (waiting_of (controls w) (cr_thread r))"
    using assms(8,9) by (simp add: waiting_of_def pending_of_def)
  then show ?thesis using wm m by auto
qed

text \<open>
  C20. A request becomes terminal only while it is pending, on a journalled receipt that says the
  same outcome, under an owner fence that holds at that moment, and never before an older request
  of the session; the scalar the receipt proves is published and a lease owner's watermark moves
  to exactly this request.
\<close>

theorem terminalization_is_fenced_and_ordered:
  assumes ok: "inbox_ok w"
    and fin: "finalize_control_request p now i c out err w = Inr (Final out', w')"
  shows "\<exists>r e err' scalar. out' = out \<and> control_of w i = Some r \<and> cr_outcome r = None \<and>
    fetch_control_receipt w (cr_thread r) i = Some e \<and>
    receipt_verdict p r e = Inr (Some (out, err', scalar)) \<and>
    owner_fence_current w (cr_thread r) c = Inr True \<and>
    (\<forall>x \<in> set (controls w). is_pending (cr_thread r) x \<longrightarrow> cr_seq r \<le> cr_seq x) \<and>
    map_option cr_outcome (control_of w' i) = Some (Some out) \<and>
    thread_of w' (cr_thread r) = map_option (publish scalar) (thread_of w (cr_thread r)) \<and>
    (cred_lease c \<noteq> None \<longrightarrow> fst (control_marks (rq w') (cr_thread r)) = cr_seq r)"
  using fin
proof (cases rule: finalize_cases)
  case (settled r e err' scalar who)
  have r: "r \<in> set (controls w)" using control_of_in [OF settled(2)] .
  have fence: "owner_fence_current w (cr_thread r) c = Inr True"
    using settled(8,7)
    by (cases rule: final_authority_cases) (simp_all add: owner_fence_current_def settled(7))
  have le: "\<forall>x \<in> set (controls w). is_pending (cr_thread r) x \<longrightarrow> cr_seq r \<le> cr_seq x"
  proof (intro ballI impI)
    fix x assume x: "x \<in> set (controls w)" "is_pending (cr_thread r) x"
    from settled(8,7) show "cr_seq r \<le> cr_seq x"
    proof (cases rule: final_authority_cases)
      case (lease tok q)
      then obtain th where "thread_of w (cr_thread r) = Some th" "th_lane th = LANE_STATELESS"
        by (auto simp: stateless_fence_def split: option.splits)
      then have "cr_seq x \<in> {control_consumed_seq q <.. control_input_seq q}"
        using oldest_waiting [OF ok r _ _ settled(3) lease(3,5) x] by blast
      then have "cr_seq x \<in> {cr_seq r - 1 <.. control_input_seq q}" using lease(6) by simp
      then show ?thesis by simp
    qed (use x in blast)
  qed
  have mark: "fst (control_marks (rq w') (cr_thread r)) = cr_seq r" if "cred_lease c \<noteq> None"
    using ok r settled(3,8,7)
  proof (cases rule: settled_queue_cases [where p = p and now = now and out = out and err = err
        and e = e and scalar = scalar])
    case (lease tok q th)
    then show ?thesis using row_of_unit [OF lease(4)] by (simp add: settled(9) control_marks_store)
  qed (use that in simp)
  have "map_option cr_outcome (control_of w' i) = Some (Some out)"
    using settled(2) control_of_id [OF settled(2)]
    by (simp add: settled(9) settled_control_of control_of_put_control)
  then show ?thesis
    using settled fence le mark by (simp add: settled_world_thread)
qed blast

text \<open>
  Once the lease of a session is lost, in every later state its token reads nothing from the
  inbox, writes no receipt, settles nothing and its drain loop stops without a change.
\<close>

theorem lost_lease_settles_nothing:
  assumes ok: "inbox_ok w" and run: "inbox_step\<^sup>*\<^sup>* w w'" and dead: "token_dead (rq w) t tok"
    and r: "control_of w' i = Some r" "cr_thread r = t"
    and wr: "wr_thread wr = t" "wr_cred wr = by_lease tok"
  shows "fetch_next_control_request w' t (by_lease tok) = Inr None \<and>
    write_control_receipt wr sq kind params i w' = Inr (0, w') \<and>
    (\<forall>st w''. finalize_control_request p now i (by_lease tok) out err w' = Inr (st, w'') \<longrightarrow>
         w'' = w' \<and> st \<noteq> Final out) \<and>
    drain_thread_controls (Suc k) p effect now wr t tok n (m, w') = Some (Drain_Blocked, n, m, w')"
proof -
  have "token_dead (rq w') t tok" using token_dead_mono [OF dead] inbox_run_le [OF run ok] by blast
  then have lease: "\<not> live_lease t tok (rq w')" by (rule live_lease_dead)
  then have fence: "\<not> stateless_fence w' t tok" by (simp add: stateless_fence_def split: option.splits)
  have final: "w'' = w' \<and> st \<noteq> Final out"
    if "finalize_control_request p now i (by_lease tok) out err w' = Inr (st, w'')" for st w''
    using that
  proof (cases rule: finalize_cases)
    case (settled s e err' scalar who)
    then have "final_authority w' r (by_lease tok) = Inr (Inr who)" using r by simp
    then show ?thesis using fence r(2) by (auto simp: final_authority_def split: if_splits)
  qed simp
  have "fetch_next_control_request w' t (by_lease tok) = Inr None"
    using fence by (simp add: fetch_next_control_request_def next_stateless_def)
  moreover have "write_control_receipt wr sq kind params i w' = Inr (0, w')"
    using wr lease by (simp add: write_control_receipt_def control_writer_fence_def split: option.splits)
  moreover have "drain_thread_controls (Suc k) p effect now wr t tok n (m, w') = Some (Drain_Blocked, n, m, w')"
    using fence by (simp add: drain_step_def)
  ultimately show ?thesis using final by blast
qed


text \<open>
  C28. An admitted request is never lost, renumbered or rewritten by anything that happens later,
  and once it is terminal its outcome, result, journal position and owner never change again.
\<close>

theorem admitted_requests_are_durable:
  assumes "inbox_ok w" "inbox_step\<^sup>*\<^sup>* w w'" "control_of w i = Some r"
  shows "\<exists>r'. control_of w' i = Some r' \<and> cr_thread r' = cr_thread r \<and> cr_seq r' = cr_seq r \<and>
    cr_client r' = cr_client r \<and> cr_verb r' = cr_verb r \<and> cr_payload r' = cr_payload r \<and>
    (cr_outcome r \<noteq> None \<longrightarrow> r' = r)"
  using inbox_run_requests [OF assms(2,1,3)] by (auto simp: request_le_def request_view_def)

text \<open>What an admission has stored, whether it was the first with its client id or a retry.\<close>

lemma admitted_request:
  assumes ok: "inbox_ok w" and fresh: "control_of w i = None"
    and adm: "admit_thread_control p wc up seen now i t owner client verb payload expected rg w = Inr (a, w')"
    and keyed: "well_keyed (JObj payload)"
  obtains r where "control_of w' (cr_id r) = Some r" "cr_thread r = t" "cr_client r = client"
    "same_content p verb payload r" "expected = None \<or> cr_generation r = expected"
    "ad_id a = cr_id r" "ad_seq a = cr_seq r"
  using adm
proof (cases rule: admit_cases)
  case (duplicate r th)
  have r: "r \<in> set (controls w)" "cr_thread r = t" "cr_client r = client"
    using duplicate(2) by (auto simp: existing_control_def find_Some_iff)
  have "expected = None \<or> cr_generation r = expected"
    using adm duplicate by (auto simp: admit_thread_control_def split: if_splits)
  then show ?thesis
    using that [of r] r duplicate inbox_ok_member [OF ok r(1)] by (simp add: duplicate_of_def)
next
  case (fresh th agent)
  let ?r = "new_control i t (th_control_hwm th + 1) client verb payload agent (Some (th_generation th))"
  have t: "th_id th = t" using thread_of_id [OF fresh(1)] .
  have cs: "controls w' = controls w @ [?r]" "ad_seq a = th_control_hwm th + 1"
    using admit_new_tables [OF fresh(6)] t by simp_all
  have "control_of w' i = Some ?r"
    using \<open>control_of w i = None\<close> cs(1) by (simp add: control_of_def find_by_append)
  moreover have "same_content p verb payload ?r"
    using py_eq_refl(1) [OF keyed] by (simp add: same_content_def new_control_def)
  moreover have "expected = None \<or> cr_generation ?r = expected"
    using fresh(4) by (auto simp: request_refusal_def new_control_def split: if_splits)
  moreover have "ad_id a = i"
    using fresh(6) by (auto simp: admit_new_def Let_def split: if_splits sum.splits)
  ultimately show ?thesis using that [of ?r] cs(2) by simp
qed

lemma existing_control_found:
  assumes "inbox_ok w" "control_of w i = Some r" "cr_thread r = t" "cr_client r = client"
  shows "existing_control w t client = Some r"
proof -
  have r: "r \<in> set (controls w)" using control_of_in [OF assms(2)] .
  then obtain s where s: "existing_control w t client = Some s"
    using existing_control_None assms(3,4) by (cases "existing_control w t client") force+
  then have "s \<in> set (controls w)" "cr_thread s = t" "cr_client s = client"
    by (auto simp: existing_control_def find_Some_iff)
  then have "s = r"
    using assms(1,3,4) r by (auto simp: inbox_ok_def distinct_map inj_on_def)
  then show ?thesis using s by simp
qed

text \<open>
  Admission is idempotent per client request id: after a successful admission, whatever
  happens in between, a retry with the same content by the same owner returns the same request
  number as a duplicate and changes nothing, even when its session would refuse a new request by
  now; the same id with another verb is refused.
\<close>

theorem admission_is_idempotent:
  assumes ok: "inbox_ok w" and fresh: "control_of w i = None"
    and adm: "admit_thread_control p wc up seen now i t owner client verb payload expected rg w = Inr (a, w')"
    and keyed: "well_keyed (JObj payload)"
    and run: "inbox_step\<^sup>*\<^sup>* w' w''" and th: "thread_of w'' t = Some th" "th_user th = owner"
  shows "(\<exists>b. admit_thread_control p wc' up' seen' now' j t owner client verb payload expected rg' w''
      = Inr (b, w'') \<and> ad_id b = ad_id a \<and> ad_seq b = ad_seq a \<and> ad_duplicate b) \<and>
    (verb' \<noteq> verb \<longrightarrow>
      admit_thread_control p wc' up' seen' now' j t owner client verb' payload' expected rg' w''
      = Inl (Refused ''different_control''))"
proof -
  obtain r where r: "control_of w' (cr_id r) = Some r" "cr_thread r = t" "cr_client r = client"
    "same_content p verb payload r" "expected = None \<or> cr_generation r = expected"
    "ad_id a = cr_id r" "ad_seq a = cr_seq r"
    using admitted_request [OF ok fresh adm keyed] .
  have ok': "inbox_ok w'" using admit_inbox_ok [OF ok fresh adm] .
  obtain s where s: "control_of w'' (cr_id r) = Some s" "request_le r s"
    using inbox_run_requests [OF run ok' r(1)] by blast
  then have e: "existing_control w'' t client = Some s"
    using existing_control_found [OF inbox_run_ok [OF run ok'] s(1)] r(2,3)
    by (simp add: request_le_def request_view_def)
  have "same_content p verb payload s" "cr_generation s = cr_generation r" "cr_verb s = verb"
    using r(4) s(2) by (auto simp: same_content_def request_le_def)
  then show ?thesis
    using th e r(5-7) s(2)
    by (auto simp: admit_thread_control_def duplicate_of_def same_content_def request_le_def
        request_view_def)
qed

text \<open>
  A control admitted to a stateless session is never stranded: the admission leaves the
  session's queue row queued or leased, with exactly this request as its newest pending control,
  so some claim or the running turn will see it. (The row must be visible to the statement's
  snapshot, or absent.)
\<close>

theorem admitted_control_wakes_the_queue:
  assumes ok: "inbox_ok w" and th: "thread_of w t = Some th" "th_lane th = LANE_STATELESS"
    and first: "existing_control w t client = None" and seen: "seen \<or> row_of (rq w) t = None"
    and adm: "admit_thread_control p wc up seen now i t owner client verb payload expected rg w = Inr (a, w')"
  shows "\<exists>q. row_of (rq w') t = Some q \<and> state q \<in> {Queued, Leased} \<and> control_pending q \<and>
    control_input_seq q = ad_seq a \<and> ad_seq a = th_control_hwm th + 1"
  using adm
proof (cases rule: admit_cases)
  case (fresh th' agent)
  then have "th' = th" using th by simp
  have t: "th_id th = t" using thread_of_id [OF th(1)] .
  have hwm: "snd (control_marks (rq w) t) \<le> th_control_hwm th"
    and le: "fst (control_marks (rq w) t) \<le> snd (control_marks (rq w) t)"
    using inbox_ok_watermark [OF ok th] by (simp_all add: watermark_ok_def)
  from fresh(6) show ?thesis
  proof (cases rule: admit_new_cases)
    case (stateless st base fair d)
    note rec = stateless(6) [unfolded \<open>th' = th\<close> t]
    have seq: "ad_seq a = th_control_hwm th + 1" using stateless(8) \<open>th' = th\<close> by simp
    have "rq w' = d" using stateless(2) .
    show ?thesis
    proof (cases "row_of (rq w) t")
      case None
      then show ?thesis
        using rec seq unfolding \<open>rq w' = d\<close>
        by (auto simp: record_control_seq_def record_control_sql_def Let_def row_of_insert fresh_row_def
            control_pending_def)
    next
      case (Some q)
      then have "seen" using seen by simp
      then have "st = state (record_control_upd now (th_control_hwm th + 1) fair q)"
        "row_of d t = Some (record_control_upd now (th_control_hwm th + 1) fair q)"
        using rec Some row_of_unit [OF Some]
        by (auto simp: record_control_seq_def record_control_sql_def map_ok_Inr cas_def row_of_store
            record_control_upd_def Let_def split: if_splits)
      moreover have "control_consumed_seq q \<le> control_input_seq q" "control_input_seq q \<le> th_control_hwm th"
        using hwm le Some by (simp_all add: control_marks_def)
      ultimately show ?thesis
        using stateless(7) seq \<open>rq w' = d\<close>
        by (cases "state q") (auto simp: record_control_upd_def Let_def control_pending_def control_baseline_def)
    qed
  qed (use \<open>th' = th\<close> th(2) in simp)
qed (use first in simp)

text \<open>
  What the runtime writes for a request that needs no effect is read back by the validator
  as the same outcome and error, and as a scalar change precisely when the request was applied.
\<close>

theorem runtime_receipts_are_accepted:
  assumes "describe_control_request p r = (kind, out, err)" "text_mode p r"
    and "\<not> (out = Applied \<and> cr_verb r \<in> set effect_verbs)"
  shows "\<exists>scalar. control_receipt_result p (cr_id r) (cr_client r) (cr_seq r) (cr_verb r) (cr_payload r)
      kind (JObj (receipt_params p r out err [])) = Inr (Some (out, err, scalar)) \<and>
    (scalar = None \<longleftrightarrow> out = Rejected)"
  using assms by (rule receipt_round_trip)


end
