(* ===== verification/Control_Witnesses.thy ===== *)
theory Control_Witnesses
  imports Control_Behaviour
begin

text \<open>
  A concrete session for the properties of the control inbox: a stateless session is created,
  one permission change is admitted, a pod claims the unit and drains the inbox.
\<close>

definition demo_py :: py where
  "demo_py = \<lparr>py_loads = \<lambda>_. None, py_int_text = \<lambda>_. None, py_repr = \<lambda>_. lit ''[]''\<rparr>"

definition demo_session :: thread where
  "demo_session =
     \<lparr>th_id = 7, th_user = Some 3, th_agent = None, th_status = ''active'', th_lane = LANE_STATELESS,
      th_control_hwm = 0, th_admission_agent = None, th_generation = 11, th_retirement = None,
      th_attach = None, th_epoch = 1, th_events_hwm = 0, th_mode = lit ''read_only'',
      th_narration = None, th_metadata = JObj []\<rparr>"

definition demo_w0 :: world where
  "demo_w0 = empty_world\<lparr>threads := threads empty_world @ [demo_session]\<rparr>"

definition demo_payload :: fields where
  "demo_payload = [(lit ''mode'', JStr (lit ''auto_accept''))]"

definition demo_request :: control_request where
  "demo_request = new_control 31 7 1 21 (lit ''mode.set'') demo_payload None (Some 11)"

definition demo_unit :: row where
  "demo_unit = (fresh_row 0 7 UNIT_KIND_SESSION_TURN 1)
     \<lparr>fair_key := Some (map char_of (uuid_text 3)), input_seq := Some 0, consumed_seq := Some 0,
      control_input_seq := 1, control_consumed_seq := 0\<rparr>"

definition demo_w1 :: world where
  "demo_w1 = demo_w0\<lparr>threads := [demo_session\<lparr>th_control_hwm := 1\<rparr>], controls := [demo_request],
     rq := insert_row empty_db demo_unit\<rparr>"

definition demo_admission :: "nat \<Rightarrow> world \<Rightarrow> admission_error + admitted \<times> world" where
  "demo_admission i w = admit_thread_control demo_py (\<lambda>_. (''sandbox'', None)) None True 0 i 7 (Some 3) 21
     (lit ''mode.set'') demo_payload None False w"

definition demo_admitted :: admitted where
  "demo_admitted = \<lparr>ad_id = 31, ad_seq = 1, ad_client = 21, ad_verb = lit ''mode.set'', ad_state = None,
     ad_duplicate = False, ad_generation = Some 11\<rparr>"

lemma demo_w0_lookup:
  "thread_of demo_w0 7 = Some demo_session" "controls demo_w0 = []" "rq demo_w0 = empty_db"
  "existing_control demo_w0 7 21 = None" "row_of empty_db u = None"
  "next_ord empty_db = 1"
  by (simp_all add: demo_w0_def empty_world_def thread_of_def demo_session_def existing_control_def
      row_of_def empty_db_def)

lemma demo_record:
  "record_control_seq True 0 7 UNIT_KIND_SESSION_TURN 1 0 (Some (map char_of (uuid_text 3))) empty_db
   = Inr (Queued, insert_row empty_db demo_unit)"
  by (simp add: record_control_seq_def record_control_sql_def demo_w0_lookup Let_def demo_unit_def
      fresh_row_def)

lemma demo_admits: "demo_admission 31 demo_w0 = Inr (demo_admitted, demo_w1)"
proof -
  have "request_refusal demo_session (lit ''mode.set'') demo_payload None False = None"
    by (simp add: request_refusal_def demo_session_def WORKSPACE_UNDO_VERB_def COMPACT_VERB_def
        WORKSPACE_UPGRADE_VERB_def)
  moreover have "lane_admission (\<lambda>_. (''sandbox'', None)) (lit ''mode.set'') demo_w0 demo_session = Inr None"
    using demo_w0_lookup
    by (simp add: lane_admission_def stateless_admission_def queue_refusal_def demo_session_def
        WORKSPACE_UNDO_VERB_def)
  moreover have "admit_new True 0 31 demo_session (Some 3) 21 (lit ''mode.set'') demo_payload None demo_w0
      = Inr (demo_admitted, demo_w1)"
    using demo_record
    by (simp add: admit_new_def Let_def demo_session_def human_baseline_def demo_w0_def demo_w1_def
        empty_world_def empty_db_def put_thread_def put_by_def demo_admitted_def demo_request_def)
  moreover have "th_user demo_session = Some 3" by (simp add: demo_session_def)
  ultimately show ?thesis
    using demo_w0_lookup
    by (simp add: demo_admission_def admit_thread_control_def control_verbs_def WORKSPACE_UPGRADE_VERB_def)
qed

lemma demo_run1: "inbox_step\<^sup>*\<^sup>* empty_world demo_w1"
proof -
  have "inbox_step empty_world demo_w0"
    unfolding demo_w0_def
    by (rule inbox_step.created) (simp_all add: demo_session_def empty_world_def thread_of_def
        row_of_def empty_db_def)
  moreover have "inbox_step demo_w0 demo_w1"
    using demo_admits unfolding demo_admission_def
    by (rule inbox_step.admit [rotated]) (simp add: control_of_def demo_w0_lookup)
  ultimately show ?thesis by (meson r_into_rtranclp rtranclp.rtrancl_into_rtrancl)
qed

definition demo_leased_unit :: row where
  "demo_leased_unit = claim_update 0 ''pod'' 60 demo_unit"

definition demo_w2 :: world where
  "demo_w2 = demo_w1\<lparr>rq := store (rq demo_w1) demo_leased_unit\<rparr>"

lemma demo_w1_lookup:
  "row_of (rq demo_w1) 7 = Some demo_unit" "thread_of demo_w1 7 = Some (demo_session\<lparr>th_control_hwm := 1\<rparr>)"
  "controls demo_w1 = [demo_request]" "events demo_w1 = []"
  by (simp_all add: demo_w1_def row_of_insert demo_w0_lookup demo_unit_def fresh_row_def thread_of_def
      demo_session_def demo_w0_def empty_world_def)

lemma demo_claim_step: "inbox_step demo_w1 demo_w2"
proof -
  have unit: "unit_id demo_unit = 7" "runnable 0 UNIT_KIND_SESSION_TURN (rq demo_w1) demo_unit"
    by (simp_all add: demo_unit_def fresh_row_def runnable_def recovery_held_def demo_w1_def
        insert_row_def empty_db_def)
  then have "claim_unit (\<lambda>_. False) 0 UNIT_KIND_SESSION_TURN ''pod'' (Some 7) 60 0 (rq demo_w1)
      = Inr (Some (claimed_of demo_leased_unit), store (rq demo_w1) demo_leased_unit)"
    using claim_prefer_result [of "\<lambda>_. False" 0 UNIT_KIND_SESSION_TURN "''pod''" 60 7 "rq demo_w1"]
    by (simp add: claim_unit_def demo_w1_lookup demo_leased_unit_def)
  then have "rq_step True (rq demo_w1) (store (rq demo_w1) demo_leased_unit)" by (rule rq_step.claim)
  moreover have "control_marks (store (rq demo_w1) demo_leased_unit) u = control_marks (rq demo_w1) u" for u
    using unit demo_w1_lookup(1)
    by (simp add: control_marks_def row_of_store demo_leased_unit_def claim_update_def)
  ultimately show ?thesis unfolding demo_w2_def by (intro inbox_step.queue_op) simp_all
qed

lemma demo_claim_run: "inbox_step\<^sup>*\<^sup>* demo_w1 demo_w2"
  using demo_claim_step by blast

lemma demo_run2: "inbox_step\<^sup>*\<^sup>* empty_world demo_w2"
  using demo_run1 demo_claim_step by (rule rtranclp.rtrancl_into_rtrancl)

lemma demo_ok: "inbox_ok demo_w0" "inbox_ok demo_w1" "inbox_ok demo_w2"
proof -
  show "inbox_ok demo_w1" "inbox_ok demo_w2"
    using inbox_run_ok [OF demo_run1 empty_world_ok] inbox_run_ok [OF demo_run2 empty_world_ok] .
  show "inbox_ok demo_w0"
    unfolding demo_w0_def by (rule created_inbox_ok [OF empty_world_ok])
      (simp_all add: demo_session_def empty_world_def thread_of_def row_of_def empty_db_def)
qed

definition demo_writer :: writer where
  "demo_writer = \<lparr>wr_thread = 7, wr_epoch = 1, wr_cred = by_lease 1\<rparr>"

definition demo_ram :: ram where
  "demo_ram = \<lparr>rm_mode = lit ''read_only'', rm_narration = lit ''silent'', rm_next_seq = 0\<rparr>"

lemma demo_w2_lookup:
  "row_of (rq demo_w2) 7 = Some demo_leased_unit" "thread_of demo_w2 7 = Some (demo_session\<lparr>th_control_hwm := 1\<rparr>)"
  "controls demo_w2 = [demo_request]" "events demo_w2 = []"
  "control_of demo_w2 31 = Some demo_request"
  using demo_w1_lookup
  by (simp_all add: demo_w2_def row_of_store demo_leased_unit_def claim_update_def demo_unit_def
      fresh_row_def thread_of_def control_of_def demo_request_def)

lemma demo_pending: "pending_of (controls demo_w2) 7 = [demo_request]" "pending_of (controls demo_w1) 7 = [demo_request]"
  by (simp_all add: pending_of_def demo_w2_lookup demo_w1_lookup demo_request_def is_pending_def)

lemma demo_agent: "cr_agent demo_request = None"
  by (simp add: demo_request_def)

lemma demo_text_mode: "text_mode demo_py demo_request"
  by (simp add: text_mode_def demo_request_def new_control_def demo_payload_def Let_def)

lemma demo_ready: "drain_ready demo_py (\<lambda>_. None) demo_writer 7 1 demo_ram demo_w2"
proof -
  have "stateless_fence demo_w2 7 1"
    by (simp add: stateless_fence_def live_lease_def demo_w2_lookup demo_leased_unit_def demo_unit_def
        claim_update_def fresh_row_def held_def demo_session_def)
  moreover have "answerable demo_py (\<lambda>_. None) demo_request"
    by (rule plain_answerable [OF demo_text_mode])
      (simp add: demo_request_def new_control_def effect_verbs_def WORKSPACE_UPGRADE_VERB_def)
  then have "servable demo_py (\<lambda>_. None) demo_w2 demo_request"
    by (simp add: servable_def fetch_control_receipt_def demo_w2_lookup)
  ultimately show ?thesis
    using demo_ok(3)
    by (simp add: drain_ready_def demo_w2_lookup demo_pending [unfolded demo_w2_lookup] demo_writer_def
        demo_session_def demo_agent)
qed

section \<open>The properties at this session\<close>

theorem drain_settles_every_request_witness:
  "\<exists>m w q. drain_thread_controls 2 demo_py (\<lambda>_. None) 0 demo_writer 7 1 0 (demo_ram, demo_w2)
      = Some (Drain_Empty, 1, m, w) \<and>
    pending_of (controls demo_w2) 7 \<noteq> [] \<and> pending_of (controls w) 7 = [] \<and>
    row_of (rq w) 7 = Some q \<and> \<not> control_pending q"
  using drain_settles_every_request [OF demo_ready, of 2 0] by (auto simp: demo_pending)

text \<open>
  The same session on another way: switched to the pinned lane for a workspace upgrade, its
  request accepted by a pinned agent, and set back to the stateless lane with the request pending.
\<close>

definition moved_payload :: fields where
  "moved_payload = [(lit ''runtime_generation'', JStr (uuid_text 11))]"

definition moved_request :: control_request where
  "moved_request = new_control 31 7 1 21 WORKSPACE_UPGRADE_VERB moved_payload None (Some 11)"

definition moved_session :: thread where
  "moved_session = demo_session\<lparr>th_control_hwm := 1, th_epoch := 2, th_events_hwm := 1, th_lane := LANE_PINNED\<rparr>"

definition moved_frame :: event where
  "moved_frame =
     \<lparr>ev_thread = 7, ev_epoch = 2, ev_seq = 1, ev_kind = LANE_CHANGED_FRAME,
      ev_payload = JObj (lane_changed_params 31 21 11), ev_control = None, ev_interrupt = None, ev_permission = None\<rparr>"

definition moved_world :: "uuid option \<Rightarrow> control_request \<Rightarrow> string \<Rightarrow> world" where
  "moved_world a r lane = empty_world\<lparr>threads := [moved_session\<lparr>th_agent := a, th_lane := lane\<rparr>],
     agents := (case a of None \<Rightarrow> [] | Some x \<Rightarrow> [\<lparr>ag_id = x, ag_thread = Some 7\<rparr>]),
     controls := [r], events := [moved_frame]\<rparr>"

lemma moved_thread: "thread_of (moved_world a r lane) 7 = Some (moved_session\<lparr>th_agent := a, th_lane := lane\<rparr>)"
  by (simp add: moved_world_def thread_of_def moved_session_def demo_session_def)

lemma moved_step1: "inbox_step demo_w0 (moved_world None moved_request LANE_PINNED)"
proof -
  have "payload_generation demo_py (\<lambda>s. if s = uuid_text 11 then Some 11 else None) moved_payload = Inr 11"
    by (simp add: payload_generation_def moved_payload_def keys_def jget_def WORKSPACE_UPGRADE_PAYLOAD_KEYS_def
        py_str_def)
  moreover have "switch_checks demo_py (\<lambda>_. True) (\<lambda>_. (''none'', None)) (\<lambda>_. False) 11 demo_session demo_w0 = None"
    by (simp add: switch_checks_def switch_refusal_def quiet_queue_refusal_def pending_control_refusal_def
        background_work_def demo_session_def demo_w0_def empty_world_def empty_db_def row_of_def pending_of_def
        keys_def LITE_BACKENDS_def)
  moreover have "\<exists>a. switch_new 0 31 demo_session 21 moved_payload 11 demo_w0
      = Inr (a, moved_world None moved_request LANE_PINNED)"
    by (simp add: switch_new_def Let_def close_queue_def bump_epoch_def append_system_frame_def flip_lane_def
        jsonb_minus_def event_conflict_def thread_of_def put_thread_def put_by_def moved_world_def
        moved_session_def moved_request_def moved_frame_def demo_session_def demo_w0_def empty_world_def
        empty_db_def row_of_def)
  moreover have "th_user demo_session = Some 3" by (simp add: demo_session_def)
  ultimately obtain a where "begin_stateless_vm_upgrade_handoff demo_py
      (\<lambda>s. if s = uuid_text 11 then Some 11 else None) (\<lambda>_. True) (\<lambda>_. (''none'', None)) (\<lambda>_. False) 0 31 7
      (Some 3) 21 moved_payload demo_w0 = Inr (a, moved_world None moved_request LANE_PINNED)"
    using demo_w0_lookup by (auto simp: begin_stateless_vm_upgrade_handoff_def)
  then show ?thesis by (rule inbox_step.handoff [rotated]) (simp add: control_of_def demo_w0_lookup)
qed

definition stranded_request :: control_request where
  "stranded_request = moved_request\<lparr>cr_agent := Some 51\<rparr>"

lemma moved_step2: "inbox_step (moved_world None moved_request LANE_PINNED) (moved_world (Some 51) moved_request LANE_PINNED)"
  by (rule inbox_step.other) (simp_all add: moved_world_def thread_view_def)

lemma moved_step3: "inbox_step (moved_world (Some 51) moved_request LANE_PINNED) (moved_world (Some 51) stranded_request LANE_PINNED)"
proof (rule inbox_step.adopt)
  have "oldest_pending 7 (\<lambda>r. cr_generation r = Some 11) (moved_world (Some 51) moved_request LANE_PINNED)
      = Some moved_request"
    by (simp add: oldest_pending_def moved_world_def moved_request_def is_pending_def new_control_def)
  then show "adopt_next_pinned (moved_world (Some 51) moved_request LANE_PINNED) 7 51 11 None
      = (True, moved_world (Some 51) stranded_request LANE_PINNED)"
    by (simp add: adopt_next_pinned_def pinned_fence_def moved_thread has_receipt_def reciprocal_def)
      (simp add: moved_world_def moved_frame_def moved_request_def new_control_def moved_session_def
        demo_session_def put_control_def put_by_def stranded_request_def)
qed

lemma moved_step4: "inbox_step (moved_world (Some 51) stranded_request LANE_PINNED) (moved_world None stranded_request LANE_PINNED)"
  by (rule inbox_step.other) (simp_all add: moved_world_def thread_view_def)

lemma moved_step5: "inbox_step (moved_world None stranded_request LANE_PINNED) (moved_world None stranded_request LANE_STATELESS)"
proof -
  have "may_enter_lane LANE_STATELESS 7 (moved_session\<lparr>th_agent := None, th_lane := LANE_PINNED\<rparr>)
      (moved_world None stranded_request LANE_PINNED)"
    by (simp add: may_enter_lane_def moved_world_def waiting_of_def pending_of_def stranded_request_def
        control_marks_def empty_world_def empty_db_def row_of_def moved_session_def)
  from inbox_step.lane [OF moved_thread this] show ?thesis
    by (simp add: moved_world_def put_thread_def put_by_def moved_session_def demo_session_def empty_world_def)
qed

lemma moved_run: "inbox_step\<^sup>*\<^sup>* empty_world (moved_world None stranded_request LANE_STATELESS)"
proof -
  have "inbox_step empty_world demo_w0"
    unfolding demo_w0_def
    by (rule inbox_step.created) (simp_all add: demo_session_def empty_world_def thread_of_def
        row_of_def empty_db_def)
  then show ?thesis
    using moved_step1 moved_step2 moved_step3 moved_step4 moved_step5
    by (meson r_into_rtranclp rtranclp.rtrancl_into_rtrancl)
qed

theorem control_watermark_is_the_pending_set_witness:
  "cr_seq ` set (pending_of (controls demo_w2) 7) = {0 <.. 1} \<and>
   (\<exists>q. row_of (rq demo_w2) 7 = Some q \<and> control_pending q) \<and>
   pending_of (controls (moved_world None stranded_request LANE_STATELESS)) 7 = [stranded_request] \<and>
   (\<nexists>q. row_of (rq (moved_world None stranded_request LANE_STATELESS)) 7 = Some q \<and> control_pending q)"
proof -
  have marks: "control_marks (rq demo_w2) 7 = (0, 1)"
    by (simp add: control_marks_def demo_w2_lookup demo_leased_unit_def claim_update_def demo_unit_def)
  note agent = demo_agent
  then have all: "{r \<in> set (pending_of (controls demo_w2) 7). cr_agent r = None} = set (pending_of (controls demo_w2) 7)"
    by (auto simp: demo_pending)
  have st: "th_lane (demo_session\<lparr>th_control_hwm := 1\<rparr>) = LANE_STATELESS" by (simp add: demo_session_def)
  note first = control_watermark_is_the_pending_set [OF demo_run2 demo_w2_lookup(2) st, unfolded all]
  have stranded: "pending_of (controls (moved_world None stranded_request LANE_STATELESS)) 7 = [stranded_request]"
    by (simp add: moved_world_def pending_of_def stranded_request_def moved_request_def is_pending_def new_control_def)
  have "\<nexists>q. row_of (rq (moved_world None stranded_request LANE_STATELESS)) 7 = Some q \<and> control_pending q"
    using control_watermark_is_the_pending_set [OF moved_run moved_thread] stranded
    by (simp add: stranded_request_def)
  then show ?thesis using first marks stranded agent by (simp add: demo_pending)
qed

lemma demo_next: "next_stateless demo_w2 7 1 = Some demo_request"
  using demo_ready
  by (simp add: drain_ready_def next_stateless_def oldest_pending_def demo_w2_lookup is_pending_def
      demo_request_def)

text \<open>The session after the runtime has journalled its answer.\<close>

lemma demo_journaled:
  obtains w e where "drain_ready demo_py (\<lambda>_. None) demo_writer 7 1 (demo_ram\<lparr>rm_next_seq := 1\<rparr>) w"
    "next_stateless w 7 1 = Some demo_request" "fetch_control_receipt w 7 31 = Some e"
    "receipt_verdict demo_py demo_request e = Inr (Some (Applied, None, Some (Permission_Mode, lit ''auto_accept'')))"
proof -
  let ?ps = "receipt_params demo_py demo_request Applied None []" and ?k = "lit ''mode.changed''"
  have id: "cr_id demo_request = 31" by (simp add: demo_request_def)
  have mode: "jget ?ps (lit ''mode'') = JStr (lit ''auto_accept'')"
    by (simp add: receipt_params_def Let_def jget_append control_envelope_keys)
      (simp add: demo_request_def new_control_def demo_payload_def)
  have v: "receipt_verdict demo_py demo_request (receipt_event demo_writer 1 ?k ?ps (cr_id demo_request))
      = Inr (Some (Applied, None, Some (Permission_Mode, lit ''auto_accept'')))"
    unfolding receipt_verdict_def receipt_event_fields
    using mode
    by (intro scalar_receipt [where canon = normalize_permission_mode and allowed = PERMISSION_MODES, OF receipt_envelope])
      (simp_all only: mode, simp_all add: scalar_verb_def demo_request_def new_control_def demo_payload_def
        normalize_permission_mode_def PERMISSION_MODES_def)
  obtain w where w: "write_control_receipt demo_writer 1 ?k ?ps (cr_id demo_request) demo_w2 = Inr (1, w)"
    "rq w = rq demo_w2" "controls w = controls demo_w2"
    "events w = events demo_w2 @ [receipt_event demo_writer 1 ?k ?ps (cr_id demo_request)]"
    "\<And>u. thread_of w u = map_option (\<lambda>th. if u = 7
        then th\<lparr>th_events_hwm := max (th_events_hwm th) 1\<rparr> else th) (thread_of demo_w2 u)"
    using write_ready [OF demo_ready demo_next, of 1 ?k ?ps]
    by (auto simp: demo_w2_lookup demo_ram_def)
  have none: "fetch_control_receipt demo_w2 7 (cr_id demo_request) = None"
    by (simp add: fetch_control_receipt_def demo_w2_lookup)
  have "rm_next_seq demo_ram \<le> 1" "rm_next_seq (demo_ram\<lparr>rm_next_seq := 1\<rparr>) = 1"
    by (simp_all add: demo_ram_def)
  then show ?thesis
    using that journaled_ready [OF demo_ready demo_next w(2-5) journal_inbox_ok [OF demo_ok(3) w(1)] _ _ v none] v id
    by metis
qed

theorem terminalization_is_fenced_and_ordered_witness:
  "\<exists>w w' e. inbox_ok w \<and>
    finalize_control_request demo_py 0 31 (by_lease 1) Applied None w = Inr (Final Applied, w') \<and>
    fetch_control_receipt w 7 31 = Some e \<and>
    map_option cr_outcome (control_of w' 31) = Some (Some Applied) \<and>
    fst (control_marks (rq w') 7) = 1"
proof -
  obtain w e where w: "drain_ready demo_py (\<lambda>_. None) demo_writer 7 1 (demo_ram\<lparr>rm_next_seq := 1\<rparr>) w"
    "next_stateless w 7 1 = Some demo_request" "fetch_control_receipt w 7 31 = Some e"
    "receipt_verdict demo_py demo_request e = Inr (Some (Applied, None, Some (Permission_Mode, lit ''auto_accept'')))"
    by (rule demo_journaled)
  have ok: "inbox_ok w" and fence: "stateless_fence w 7 1" using w(1) by (simp_all add: drain_ready_def)
  have i: "cr_id demo_request = 31" "cr_thread demo_request = 7" "cr_seq demo_request = 1"
    by (simp_all add: demo_request_def)
  obtain w' where fin: "finalize_control_request demo_py 0 31 (by_lease 1) Applied None w = Inr (Final Applied, w')"
    using finalize_oldest [OF ok fence w(2) _ w(4), where now = 0 and err = None] w(3) i by auto
  have "control_of w 31 = Some demo_request"
    using inbox_ok_member [OF ok next_stateless_Some(1) [OF ok fence w(2)]] i by simp
  then show ?thesis
    using terminalization_is_fenced_and_ordered [OF ok fin] ok fin w(3) i by auto
qed

theorem lost_lease_settles_nothing_witness:
  "fetch_next_control_request demo_w2 7 (by_lease 0) = Inr None \<and>
   drain_thread_controls 1 demo_py (\<lambda>_. None) 0 (demo_writer\<lparr>wr_cred := by_lease 0\<rparr>) 7 0 5 (demo_ram, demo_w2)
     = Some (Drain_Blocked, 5, demo_ram, demo_w2)"
proof -
  have dead: "token_dead (rq demo_w2) 7 0"
    by (auto simp: token_dead_def demo_w2_lookup demo_leased_unit_def claim_update_def demo_unit_def
        fresh_row_def)
  have "cr_thread demo_request = 7" by (simp add: demo_request_def)
  then show ?thesis
    using lost_lease_settles_nothing
      [OF demo_ok(3) rtranclp.rtrancl_refl dead demo_w2_lookup(5),
       of "demo_writer\<lparr>wr_cred := by_lease 0\<rparr>", where k = 0]
    by (simp add: demo_writer_def)
qed

theorem admitted_requests_are_durable_witness:
  "\<exists>r. control_of demo_w2 31 = Some r \<and> cr_seq r = 1 \<and> cr_verb r = lit ''mode.set''"
proof -
  have "control_of demo_w1 31 = Some demo_request"
    by (simp add: control_of_def demo_w1_lookup demo_request_def)
  then show ?thesis
    using admitted_requests_are_durable [OF demo_ok(2) demo_claim_run, of 31 demo_request]
    by (auto simp: demo_request_def) (simp add: new_control_def)
qed

theorem admission_is_idempotent_witness:
  "\<exists>b. demo_admission 32 demo_w2 = Inr (b, demo_w2) \<and> ad_id b = 31 \<and> ad_seq b = 1 \<and> ad_duplicate b"
proof -
  have "control_of demo_w0 31 = None" by (simp add: control_of_def demo_w0_lookup)
  moreover have "well_keyed (JObj demo_payload)" by (simp add: demo_payload_def)
  moreover have "th_user (demo_session\<lparr>th_control_hwm := 1\<rparr>) = Some 3" by (simp add: demo_session_def)
  ultimately show ?thesis
    using admission_is_idempotent [OF demo_ok(1) _ demo_admits [unfolded demo_admission_def] _
        demo_claim_run demo_w2_lookup(2), where j = 32]
    by (simp add: demo_admission_def demo_admitted_def)
qed

theorem admitted_control_wakes_the_queue_witness:
  "\<exists>q. row_of (rq demo_w1) 7 = Some q \<and> state q = Queued \<and> control_pending q \<and> control_input_seq q = 1"
proof -
  have "th_lane demo_session = LANE_STATELESS" by (simp add: demo_session_def)
  then have "\<exists>q. row_of (rq demo_w1) 7 = Some q \<and> state q \<in> {Queued, Leased} \<and> control_pending q \<and>
      control_input_seq q = ad_seq demo_admitted \<and> ad_seq demo_admitted = th_control_hwm demo_session + 1"
    using admitted_control_wakes_the_queue
      [OF demo_ok(1) demo_w0_lookup(1) _ demo_w0_lookup(4) _ demo_admits [unfolded demo_admission_def]]
    by simp
  then show ?thesis
    by (auto simp: demo_w1_lookup demo_unit_def fresh_row_def demo_admitted_def)
qed

theorem runtime_receipts_are_accepted_witness:
  "control_receipt_result demo_py 31 21 1 (lit ''mode.set'') (JObj demo_payload) (lit ''mode.changed'')
     (JObj (receipt_params demo_py demo_request Applied None [])) \<noteq> Inr None"
proof -
  have "describe_control_request demo_py demo_request = (lit ''mode.changed'', Applied, None)"
    by (simp add: describe_control_request_def demo_request_def new_control_def demo_payload_def Let_def
        is_permission_mode_def normalize_permission_mode_def PERMISSION_MODES_def in_texts_def)
  moreover have "cr_verb demo_request = lit ''mode.set''" "cr_payload demo_request = JObj demo_payload"
    by (simp_all add: demo_request_def new_control_def)
  moreover have "lit ''mode.set'' \<notin> set effect_verbs"
    by (simp add: effect_verbs_def WORKSPACE_UPGRADE_VERB_def)
  ultimately show ?thesis
    using runtime_receipts_are_accepted [OF _ demo_text_mode] by (fastforce simp: demo_request_def)
qed


end
