(* ===== verification/Interrupt_Inbox.thy ===== *)
theory Interrupt_Inbox
  imports Interrupt_Recovery Control_Steps
begin

text \<open>
  The invariant of the interrupt inbox and its steps: a pending request has no result, an applied
  one carries the marker of the input it consumed, the marker is at or below the queue's input
  watermark, and the siblings of one lease and turn carry the same marker.
\<close>

section \<open>Markers\<close>

definition marker_of :: "interrupt_request \<Rightarrow> int option" where
  "marker_of r = (case jget (ir_result r) consumed_key of JInt c \<Rightarrow> Some c | _ \<Rightarrow> None)"

definition row_marked :: "db \<Rightarrow> interrupt_request \<Rightarrow> bool" where
  "row_marked d r \<longleftrightarrow>
     (ir_outcome r = None \<longrightarrow> ir_result r = []) \<and>
     (ir_outcome r = Some Applied \<longrightarrow>
        (case (marker_of r, row_of d (ir_thread r)) of
           (Some c, Some q) \<Rightarrow> Some c \<le> consumed_seq q | _ \<Rightarrow> False))"

definition siblings :: "interrupt_request \<Rightarrow> interrupt_request \<Rightarrow> bool" where
  "siblings r s \<longleftrightarrow>
     ir_thread r = ir_thread s \<and> ir_token r = ir_token s \<and> ir_turn r = ir_turn s \<and>
     ir_outcome r = Some Applied \<and> ir_outcome s = Some Applied"

text \<open>The invariant for all requests but those a running transaction still has to mark.\<close>

definition marked_except :: "(interrupt_request \<Rightarrow> bool) \<Rightarrow> world \<Rightarrow> bool" where
  "marked_except P w \<longleftrightarrow>
     db_ok (rq w) \<and> distinct (map ir_id (interrupts w)) \<and>
     (\<forall>r \<in> set (interrupts w). \<not> P r \<longrightarrow> row_marked (rq w) r) \<and>
     (\<forall>r \<in> set (interrupts w). \<forall>s \<in> set (interrupts w).
        \<not> P r \<and> \<not> P s \<and> siblings r s \<longrightarrow> marker_of r = marker_of s)"

definition interrupts_ok :: "world \<Rightarrow> bool" where
  "interrupts_ok w \<longleftrightarrow> marked_except (\<lambda>_. False) w"

lemma marked_exceptD:
  assumes "marked_except P w"
  shows "db_ok (rq w)" "distinct (map ir_id (interrupts w))"
    "\<And>r. r \<in> set (interrupts w) \<Longrightarrow> \<not> P r \<Longrightarrow> row_marked (rq w) r"
    "\<And>r s. r \<in> set (interrupts w) \<Longrightarrow> s \<in> set (interrupts w) \<Longrightarrow> \<not> P r \<Longrightarrow> \<not> P s \<Longrightarrow> siblings r s \<Longrightarrow>
       marker_of r = marker_of s"
  using assms unfolding marked_except_def by blast+

lemma marked_except_mono: "marked_except P w \<Longrightarrow> (\<And>r. P r \<Longrightarrow> Q r) \<Longrightarrow> marked_except Q w"
  unfolding marked_except_def by blast

lemma row_marked_le:
  assumes "row_marked d r" "db_le d d'"
  shows "row_marked d' r"
proof (cases "ir_outcome r = Some Applied")
  case True
  then obtain c q where c: "marker_of r = Some c" "row_of d (ir_thread r) = Some q" "Some c \<le> consumed_seq q"
    using assms(1) by (auto simp: row_marked_def split: option.splits)
  obtain q' where q': "row_of d' (ir_thread r) = Some q'" "row_le q q'"
    using assms(2) c(2) by (auto simp: db_le_def)
  have "consumed_seq q \<le> consumed_seq q'" using q'(2) by (simp add: row_le_def)
  then show ?thesis using assms(1) c q' True by (simp add: row_marked_def)
next
  case False
  then show ?thesis using assms(1) by (simp add: row_marked_def)
qed

lemma interrupts_frame:
  assumes "marked_except P w" "interrupts w' = interrupts w" "db_ok (rq w')" "db_le (rq w) (rq w')"
  shows "marked_except P w'"
  using assms unfolding marked_except_def by (metis row_marked_le)

lemma interrupt_of_in: "interrupt_of w i = Some r \<Longrightarrow> r \<in> set (interrupts w) \<and> ir_id r = i"
  by (auto simp: interrupt_of_def dest: find_by_Some_set)

lemma interrupt_of_member:
  "distinct (map ir_id (interrupts w)) \<Longrightarrow> r \<in> set (interrupts w) \<Longrightarrow> interrupt_of w (ir_id r) = Some r"
  by (simp add: interrupt_of_def find_by_distinct)

section \<open>Consumption of an input\<close>

lemma settle_eff_fields [simp]:
  "unit_id (settle_input_eff mode now c q) = unit_id q"
  "enqueue_ord (settle_input_eff mode now c q) = enqueue_ord q"
  "unit_kind (settle_input_eff mode now c q) = unit_kind q"
  "lease_token (settle_input_eff mode now c q) = lease_token q"
  "input_seq (settle_input_eff mode now c q) = input_seq q"
  "control_input_seq (settle_input_eff mode now c q) = control_input_seq q"
  "control_consumed_seq (settle_input_eff mode now c q) = control_consumed_seq q"
  "consumed_seq (settle_input_eff mode now c q) = max (consumed_seq q) (Some c)"
  by (cases mode; simp add: settle_input_eff_def Let_def sql_simps)+

lemma settle_eff_ok: "row_ok q \<Longrightarrow> settle_guard mode cur q \<Longrightarrow> row_ok (settle_input_eff mode now c q)"
  by (cases mode)
    (auto simp: settle_guard_def settle_input_eff_def Let_def shape_defs interrupt_shape_None
      split: option.splits)

lemma settle_eff_le: "settle_guard mode cur q \<Longrightarrow> row_le q (settle_input_eff mode now c q)"
  by (cases mode) (auto simp: settle_guard_def row_le_def settle_input_eff_def Let_def sql_simps)

lemma consume_cases:
  assumes "consume_applied_interrupt_input p now t cur acc turn i mode w = Inr (res, w')"
  obtains (nothing) "res = None" "w' = w"
  | (consumed) q c adv where "row_of (rq w) t = Some q" "settle_guard mode cur q" "stateless_thread w t"
      "\<exists>r \<in> set (interrupts w). in_group t acc turn r \<and> ir_id r = i" "acc \<le> cur"
      "consumed_input p w t turn (filter (in_group t acc turn) (interrupts w)) q = Inr (c, adv)"
      "\<not> dedup_conflict (queue (rq w)) (settle_input_eff mode now c q)"
      "res = Some (consumption_of adv (settle_input_eff mode now c q))"
      "w' = put_queue (settle_input_eff mode now c q) (stamp_group t acc turn (input_marker mode cur acc c) w)"
proof (cases "res = None")
  case True
  then have "w' = w"
    using assms
    by (auto simp: consume_applied_interrupt_input_def Let_def bind_ok_Inr
        split: if_splits option.splits prod.splits)
  then show ?thesis using that True by blast
next
  case False
  from assms have pos: "\<not> (cur \<le> 0 \<or> acc \<le> 0 \<or> turn \<le> 0)" "\<not> cur < acc"
    by (auto simp: consume_applied_interrupt_input_def split: if_splits)
  then have th: "stateless_thread w t"
    using assms False by (auto simp: consume_applied_interrupt_input_def split: if_splits)
  then obtain q where q: "row_of (rq w) t = Some q" "settle_guard mode cur q"
    using assms False pos by (auto simp: consume_applied_interrupt_input_def split: if_splits option.splits)
  let ?rows = "filter (in_group t acc turn) (interrupts w)"
  have member: "\<exists>r \<in> set ?rows. ir_id r = i"
    using assms False pos th q by (auto simp: consume_applied_interrupt_input_def Let_def split: if_splits)
  then have found: "(\<forall>r \<in> set ?rows. ir_id r \<noteq> i) = False" by blast
  have "bind_ok (consumed_input p w t turn ?rows q) (\<lambda>(c, adv).
      let q' = settle_input_eff mode now c q in
      if dedup_conflict (queue (rq w)) q' then Inl Exn_Unique
      else Inr (Some (consumption_of adv q'),
        put_queue q' (stamp_group t acc turn (input_marker mode cur acc c) w))) = Inr (res, w')"
    using assms pos th q by (simp add: consume_applied_interrupt_input_def Let_def found del: set_filter)
  then obtain c adv where "consumed_input p w t turn ?rows q = Inr (c, adv)"
    "\<not> dedup_conflict (queue (rq w)) (settle_input_eff mode now c q)"
    "res = Some (consumption_of adv (settle_input_eff mode now c q))"
    "w' = put_queue (settle_input_eff mode now c q) (stamp_group t acc turn (input_marker mode cur acc c) w)"
    by (auto simp: bind_ok_Inr Let_def split: if_splits)
  then show ?thesis using that(2) [of q c adv] q th member pos by auto
qed

lemma consumed_queue:
  assumes ok: "db_ok (rq w)" and q: "row_of (rq w) t = Some q" "settle_guard mode cur q"
    and no: "\<not> dedup_conflict (queue (rq w)) (settle_input_eff mode now c q)"
  shows "db_ok (store (rq w) (settle_input_eff mode now c q))"
    "db_le (rq w) (store (rq w) (settle_input_eff mode now c q))"
proof -
  have "row_ok q" using row_of_ok [OF ok q(1)] .
  then show "db_ok (store (rq w) (settle_input_eff mode now c q))"
    using db_ok_store [OF ok q(1)] settle_eff_ok q(2) no by simp
  show "db_le (rq w) (store (rq w) (settle_input_eff mode now c q))"
    using db_le_store [OF q(1)] settle_eff_le [OF q(2)] by simp
qed

lemma jget_merged_right: "k \<in> keys b \<Longrightarrow> jget (merged a b) k = jget b k"
  by (simp add: jget_def merged_def map_add_def keys_def map_of_eq_None_iff split: option.splits)

lemma marker_stamped: "marker_of (r\<lparr>ir_result := merged (ir_result r) (input_marker mode cur acc c)\<rparr>) = Some c"
  by (simp add: marker_of_def jget_merged_right input_marker_def)

lemma put_queue_interrupts [simp]: "interrupts (stamp_group t acc turn m w) =
    map (\<lambda>r. if in_group t acc turn r then r\<lparr>ir_result := merged (ir_result r) m\<rparr> else r) (interrupts w)"
  "rq (stamp_group t acc turn m w) = rq w" "threads (stamp_group t acc turn m w) = threads w"
  "controls (stamp_group t acc turn m w) = controls w" "events (stamp_group t acc turn m w) = events w"
  by (simp_all add: stamp_group_def)

lemma siblings_group: "siblings r s \<Longrightarrow> in_group t acc turn r \<longleftrightarrow> in_group t acc turn s"
  by (auto simp: siblings_def in_group_def)

lemma stamped_marked:
  assumes inv: "marked_except P w" and q: "row_of (rq w) t = Some q" "settle_guard mode cur q"
    and no: "\<not> dedup_conflict (queue (rq w)) (settle_input_eff mode now c q)"
  shows "marked_except (\<lambda>r. P r \<and> \<not> in_group t acc turn r)
    (put_queue (settle_input_eff mode now c q) (stamp_group t acc turn (input_marker mode cur acc c) w))"
    (is "marked_except ?P ?w")
proof -
  note I = marked_exceptD [OF inv]
  let ?m = "input_marker mode cur acc c" and ?q = "settle_input_eff mode now c q"
  let ?f = "\<lambda>r. if in_group t acc turn r then r\<lparr>ir_result := merged (ir_result r) ?m\<rparr> else r"
  have rq': "rq ?w = store (rq w) ?q" by simp
  have is': "interrupts ?w = map ?f (interrupts w)" by simp
  have g: "in_group t acc turn (?f r) = in_group t acc turn r" "ir_id (?f r) = ir_id r" for r
    by (simp_all add: in_group_def)
  have row: "row_of (rq ?w) t = Some ?q"
    using q(1) row_of_unit [OF q(1)] by (simp add: row_of_store)
  have db: "db_ok (rq ?w)" "db_le (rq w) (rq ?w)" unfolding rq' using consumed_queue [OF I(1) q no] .
  have marked: "row_marked (rq ?w) x" if x: "x \<in> set (interrupts ?w)" "\<not> ?P x" for x
  proof -
    obtain r where r: "r \<in> set (interrupts w)" "x = ?f r" using x(1) by (auto simp: is')
    show ?thesis
    proof (cases "in_group t acc turn r")
      case True
      have "marker_of x = Some c" using True r(2) by (simp add: marker_stamped)
      moreover have "ir_thread x = t" "ir_outcome x = Some Applied" using True r(2) by (simp_all add: in_group_def)
      ultimately show ?thesis using row by (simp add: row_marked_def)
    next
      case False
      then have "x = r" using r(2) by simp
      then have "\<not> P r" using False x(2) by simp
      then show ?thesis using row_marked_le [OF I(3) db(2)] r(1) \<open>x = r\<close> by simp
    qed
  qed
  have same: "marker_of x = marker_of y"
    if xy: "x \<in> set (interrupts ?w)" "y \<in> set (interrupts ?w)" "\<not> ?P x" "\<not> ?P y" "siblings x y" for x y
  proof -
    obtain r s where rs: "r \<in> set (interrupts w)" "x = ?f r" "s \<in> set (interrupts w)" "y = ?f s"
      using xy(1,2) by (auto simp: is')
    have gg: "in_group t acc turn r = in_group t acc turn s"
      using siblings_group [OF xy(5), of t acc turn] unfolding rs(2,4) g .
    show ?thesis
    proof (cases "in_group t acc turn r")
      case True
      then show ?thesis using gg rs by (simp add: marker_stamped)
    next
      case False
      then have "x = r" "y = s" using gg rs(2,4) by simp_all
      then show ?thesis using I(4) rs(1,3) xy(3-5) False gg by blast
    qed
  qed
  have ids: "map ir_id (interrupts ?w) = map ir_id (interrupts w)"
    unfolding is' map_map comp_def g(2) by (rule refl)
  show ?thesis unfolding marked_except_def ids using I(2) db(1) marked same by blast
qed

lemma consume_marked:
  assumes inv: "marked_except P w"
    and step: "consume_applied_interrupt_input p now t cur acc turn i mode w = Inr (Some res, w')"
  shows "marked_except (\<lambda>r. P r \<and> \<not> in_group t acc turn r) w'"
  using step
proof (cases rule: consume_cases)
  case (consumed q c adv)
  then show ?thesis using stamped_marked [OF inv consumed(1,2,7)] by simp
qed simp

lemma consume_queue_le:
  assumes "db_ok (rq w)" and step: "consume_applied_interrupt_input p now t cur acc turn i mode w = Inr (res, w')"
  shows "db_le (rq w) (rq w')" "db_ok (rq w')"
  using step
  by (cases rule: consume_cases; simp add: consumed_queue assms(1))+

section \<open>Terminalization\<close>

lemma put_interrupt_fields [simp]:
  "rq (put_interrupt r w) = rq w" "threads (put_interrupt r w) = threads w"
  "controls (put_interrupt r w) = controls w" "events (put_interrupt r w) = events w"
  "agents (put_interrupt r w) = agents w"
  by (simp_all add: put_interrupt_def)

lemma terminal_interrupt_fields [simp]:
  "ir_id (terminal_interrupt now out d mode err tok j r) = ir_id r"
  "ir_thread (terminal_interrupt now out d mode err tok j r) = ir_thread r"
  "ir_token (terminal_interrupt now out d mode err tok j r) = ir_token r"
  "ir_turn (terminal_interrupt now out d mode err tok j r) = ir_turn r"
  "ir_client (terminal_interrupt now out d mode err tok j r) = ir_client r"
  "ir_outcome (terminal_interrupt now out d mode err tok j r) = Some out"
  "ir_result (terminal_interrupt now out d mode err tok j r) = d"
  by (simp_all add: terminal_interrupt_def)

lemma set_put_interrupt:
  assumes "distinct (map ir_id is)" "r \<in> set is" "ir_id r' = ir_id r"
  shows "set (put_by ir_id r' is) = insert r' (set is - {r})"
proof -
  have "x = r" if "x \<in> set is" "ir_id x = ir_id r" for x
    using that assms(1,2) find_by_distinct by (metis option.inject)
  then show ?thesis using assms(2,3) by (auto simp: put_by_def)
qed

text \<open>
  A request that becomes terminal is left out of the invariant until its group is marked; a
  rejected one need not be.
\<close>

lemma terminal_marked:
  assumes inv: "marked_except P w" and r: "r \<in> set (interrupts w)"
    and P: "\<And>x. P x \<Longrightarrow> Q x"
    and new: "out = Applied \<Longrightarrow> Q (terminal_interrupt now out d mode err tok j r)"
  shows "marked_except Q (put_interrupt (terminal_interrupt now out d mode err tok j r) w)"
    (is "marked_except Q (put_interrupt ?r w)")
proof -
  note I = marked_exceptD [OF inv]
  have set': "set (interrupts (put_interrupt ?r w)) = insert ?r (set (interrupts w) - {r})"
    using set_put_interrupt [OF I(2) r] by (simp add: put_interrupt_def)
  have ids: "map ir_id (interrupts (put_interrupt ?r w)) = map ir_id (interrupts w)"
    by (simp add: put_interrupt_def map_key_put)
  have "row_marked (rq w) x" if "x \<in> set (interrupts (put_interrupt ?r w))" "\<not> Q x" for x
  proof (cases "x = ?r")
    case True
    then have "out = Rejected" using new that(2) by (cases out) auto
    then show ?thesis using True by (simp add: row_marked_def)
  next
    case False
    then show ?thesis using I(3) P that unfolding set' by blast
  qed
  moreover have "marker_of x = marker_of y"
    if "x \<in> set (interrupts (put_interrupt ?r w))" "y \<in> set (interrupts (put_interrupt ?r w))"
      "\<not> Q x" "\<not> Q y" "siblings x y" for x y
  proof (cases "x = ?r \<or> y = ?r")
    case True
    then have "out = Applied" using that(5) by (auto simp: siblings_def)
    then show ?thesis using new True that(3,4) by auto
  next
    case False
    then show ?thesis using I(4) P that unfolding set' by blast
  qed
  ultimately show ?thesis using I(1,2) ids unfolding marked_except_def by simp
qed

lemma interrupt_final_cases:
  assumes "finalize_interrupt_request p now i t tok turn out mode err accepted stale w = Inr (st, w')"
  obtains (refused) "w' = w" "\<And>o'. st \<noteq> Interrupt_Final o'"
  | (settled) r e req where "st = Interrupt_Final out" "req = case_option tok id accepted"
      "interrupt_owner w t tok" "interrupt_of w i = Some r" "ir_thread r = t" "ir_token r = req"
      "ir_turn r = turn" "ir_outcome r = None" "fetch_interrupt_receipt w t i = Some e"
      "interrupt_verdict p r e = Some (out, mode, err)"
      "if out = Applied then \<exists>res. consume_applied_interrupt_input p now t tok req turn i Live
           (put_interrupt (terminal_interrupt now out (interrupt_result r out mode err) mode err
              req (ev_epoch e, ev_seq e) r) w) = Inr (Some res, w')
       else w' = put_interrupt (terminal_interrupt now out (interrupt_result r out mode err) mode err
              req (ev_epoch e, ev_seq e) r) w"
proof -
  define req where "req = case_option tok id accepted"
  have ok: "terminal_fields_ok out mode err" "\<not> (if stale then tok \<le> req else req \<noteq> tok)"
    using assms by (auto simp: finalize_interrupt_request_def Let_def req_def split: if_splits)
  note def = finalize_interrupt_request_def Let_def req_def [symmetric]
  show ?thesis
  proof (cases "interrupt_owner w t tok \<and> (\<exists>r e. interrupt_of w i = Some r \<and> ir_thread r = t \<and>
      ir_token r = req \<and> ir_turn r = turn \<and> ir_outcome r = None \<and>
      fetch_interrupt_receipt w t i = Some e \<and> interrupt_verdict p r e = Some (out, mode, err))")
    case False
    then have "w' = w \<and> (\<forall>o'. st \<noteq> Interrupt_Final o')"
      using assms ok by (auto simp: def split: if_splits option.splits)
    then show ?thesis using refused by blast
  next
    case True
    then obtain r e where r: "interrupt_owner w t tok" "interrupt_of w i = Some r" "ir_thread r = t"
      "ir_token r = req" "ir_turn r = turn" "ir_outcome r = None"
      "fetch_interrupt_receipt w t i = Some e" "interrupt_verdict p r e = Some (out, mode, err)" by blast
    let ?w = "put_interrupt (terminal_interrupt now out (interrupt_result r out mode err) mode err
              req (ev_epoch e, ev_seq e) r) w"
    have fin: "(if out \<noteq> Applied then Inr (Interrupt_Final out, ?w)
        else bind_ok (consume_applied_interrupt_input_live p now t tok req turn i ?w)
          (\<lambda>(res, w2). case res of None \<Rightarrow> Inl Exn_Runtime | Some _ \<Rightarrow> Inr (Interrupt_Final out, w2)))
        = Inr (st, w')"
      using assms ok r by (simp add: def)
    show ?thesis
    proof (cases "out = Applied")
      case True
      then obtain res where "consume_applied_interrupt_input p now t tok req turn i Live ?w = Inr (Some res, w')"
        "st = Interrupt_Final out"
        using fin by (auto simp: bind_ok_Inr consume_applied_interrupt_input_live_def split: option.splits)
      then show ?thesis using settled [OF _ req_def r] True by auto
    next
      case False
      then show ?thesis using fin settled [OF _ req_def r] by auto
    qed
  qed
qed

lemma finalize_interrupts_ok:
  assumes ok: "interrupts_ok w"
    and fin: "finalize_interrupt_request p now i t tok turn out mode err accepted stale w = Inr (st, w')"
  shows "interrupts_ok w' \<and> db_le (rq w) (rq w')"
  using fin
proof (cases rule: interrupt_final_cases)
  case (settled r e req)
  have inv: "marked_except (\<lambda>_. False) w" using ok by (simp add: interrupts_ok_def)
  have r: "r \<in> set (interrupts w)" using interrupt_of_in [OF settled(4)] by simp
  let ?r = "terminal_interrupt now out (interrupt_result r out mode err) mode err req (ev_epoch e, ev_seq e) r"
  show ?thesis
  proof (cases "out = Applied")
    case True
    then obtain res where c: "consume_applied_interrupt_input p now t tok req turn i Live (put_interrupt ?r w)
        = Inr (Some res, w')"
      using settled(11) by auto
    have "marked_except (in_group t req turn) (put_interrupt ?r w)"
      by (rule terminal_marked [OF inv r]) (use settled True in \<open>simp_all add: in_group_def\<close>)
    from consume_marked [OF this c] have "interrupts_ok w'" by (simp add: interrupts_ok_def)
    moreover have "db_le (rq w) (rq w')"
      using consume_queue_le(1) [OF _ c] marked_exceptD(1) [OF inv] by simp
    ultimately show ?thesis by simp
  next
    case False
    have "marked_except (\<lambda>_. False) (put_interrupt ?r w)"
      by (rule terminal_marked [OF inv r]) (use False in simp_all)
    then show ?thesis using settled(11) False by (simp add: interrupts_ok_def)
  qed
qed (simp add: ok)

section \<open>Settlement after a steal\<close>

type_synonym interrupt_key = "uuid \<times> uuid \<times> int \<times> int \<times> uuid"

definition interrupt_view :: "interrupt_request \<Rightarrow> interrupt_key" where
  "interrupt_view r = (ir_id r, ir_thread r, ir_token r, ir_turn r, ir_client r)"

definition open_requests :: "world \<Rightarrow> interrupt_key set" where
  "open_requests w = {interrupt_view r | r. r \<in> set (interrupts w) \<and> ir_outcome r = None}"

definition in_groups :: "uuid \<Rightarrow> group_ref list \<Rightarrow> interrupt_request \<Rightarrow> bool" where
  "in_groups t gs r \<longleftrightarrow> (\<exists>(k, n, i) \<in> set gs. in_group t k n r)"

lemma append_frame_tables:
  assumes "append_system_frame t kind params i perm w = Inr (pos, w')"
  shows "rq w' = rq w" "interrupts w' = interrupts w" "controls w' = controls w"
    "set (events w) \<subseteq> set (events w')"
    "map thread_view (threads w') = map thread_view (threads w) \<or> \<not> distinct (map th_id (threads w))"
proof -
  show "rq w' = rq w" "interrupts w' = interrupts w" "controls w' = controls w" "set (events w) \<subseteq> set (events w')"
    using assms by (auto simp: append_system_frame_def Let_def split: option.splits if_splits)
  show "map thread_view (threads w') = map thread_view (threads w) \<or> \<not> distinct (map th_id (threads w))"
  proof (cases "thread_of w t")
    case None
    then show ?thesis using assms by (simp add: append_system_frame_def)
  next
    case (Some th)
    let ?th = "th\<lparr>th_events_hwm := th_events_hwm th + 1\<rparr>"
    have "threads w' = threads (put_thread ?th w)"
      using assms Some by (auto simp: append_system_frame_def Let_def put_thread_def split: if_splits)
    then show ?thesis
      using put_thread_views [of w ?th th] Some thread_of_id [OF Some] by (auto simp: thread_view_def)
  qed
qed

lemma verdict_tables:
  assumes "owner_loss_verdict p t reason (r, e) w = Inr (v, w')"
  shows "rq w' = rq w" "interrupts w' = interrupts w"
  using assms
  by (auto simp: owner_loss_verdict_def bind_ok_Inr dest: append_frame_tables
      split: option.splits if_splits prod.splits)

lemma terminalize_cases:
  assumes "terminalize_stolen now t r v w = Inr w'"
  obtains x out mode err d ep sq where "v = ((out, mode, err), d, ep, sq)" "x \<in> set (interrupts w)"
    "ir_id x = ir_id r" "ir_thread x = t" "ir_token x = ir_token r" "ir_outcome x = None"
    "w' = put_interrupt (terminal_interrupt now out d mode err (ir_token r) (ep, sq) x) w"
proof -
  obtain out mode err d ep sq where v: "v = ((out, mode, err), d, ep, sq)" by (metis surj_pair)
  obtain x where x: "interrupt_of w (ir_id r) = Some x" "ir_thread x = t" "ir_token x = ir_token r"
    "ir_outcome x = None"
    "w' = put_interrupt (terminal_interrupt now out d mode err (ir_token r) (ep, sq) x) w"
    using assms v by (auto simp: terminalize_stolen_def split: option.splits if_splits)
  show ?thesis using that [OF v _ _ x(2-5)] interrupt_of_in [OF x(1)] by simp
qed

lemma put_interrupt_views:
  assumes "distinct (map ir_id (interrupts w))" "x \<in> set (interrupts w)" "interrupt_view x' = interrupt_view x"
    "ir_outcome x' \<noteq> None"
  shows "interrupt_view ` set (interrupts (put_interrupt x' w)) = interrupt_view ` set (interrupts w)"
    "open_requests (put_interrupt x' w) \<subseteq> open_requests w - {interrupt_view x}"
proof -
  have id: "ir_id x' = ir_id x" using assms(3) by (simp add: interrupt_view_def)
  have set': "set (interrupts (put_interrupt x' w)) = insert x' (set (interrupts w) - {x})"
    using set_put_interrupt [OF assms(1,2) id] by (simp add: put_interrupt_def)
  then show "interrupt_view ` set (interrupts (put_interrupt x' w)) = interrupt_view ` set (interrupts w)"
    using assms(2,3) by auto
  have "interrupt_view r \<noteq> interrupt_view x" if "r \<in> set (interrupts w)" "r \<noteq> x" for r
    using that assms(1,2) find_by_distinct unfolding interrupt_view_def by (metis option.inject prod.inject)
  then show "open_requests (put_interrupt x' w) \<subseteq> open_requests w - {interrupt_view x}"
    using assms(3,4) unfolding open_requests_def set' by force
qed

lemma settle_row_ok:
  assumes w2: "(if ir_outcome r = None then terminalize_stolen now t r v w else Inr w) = Inr w2"
    and inv: "marked_except (in_groups t groups) w"
    and view: "interrupt_view r \<in> interrupt_view ` set (interrupts w)"
    and sub: "\<And>x. in_groups t groups x \<Longrightarrow> in_groups t gs x"
    and group: "fst (fst v) = Applied \<Longrightarrow> \<exists>i. (ir_token r, ir_turn r, i) \<in> set gs"
  shows "marked_except (in_groups t gs) w2 \<and> rq w2 = rq w \<and> open_requests w2 \<subseteq> open_requests w \<and>
    interrupt_view ` set (interrupts w2) = interrupt_view ` set (interrupts w) \<and>
    (ir_outcome r = None \<longrightarrow> interrupt_view r \<notin> open_requests w2)"
proof (cases "ir_outcome r = None")
  case False
  then show ?thesis using w2 inv marked_except_mono sub by auto
next
  case True
  obtain x out mode err d ep sq where x: "v = ((out, mode, err), d, ep, sq)" "x \<in> set (interrupts w)"
    "ir_id x = ir_id r" "ir_thread x = t" "ir_token x = ir_token r" "ir_outcome x = None"
    "w2 = put_interrupt (terminal_interrupt now out d mode err (ir_token r) (ep, sq) x) w"
    using terminalize_cases w2 True by (metis (no_types, lifting))
  let ?x = "terminal_interrupt now out d mode err (ir_token r) (ep, sq) x"
  have same: "interrupt_view x = interrupt_view r"
  proof -
    obtain y where y: "y \<in> set (interrupts w)" "interrupt_view y = interrupt_view r" using view by force
    then have "y = x"
      using x(2,3) find_by_distinct [OF marked_exceptD(2) [OF inv]]
      unfolding interrupt_view_def by (metis option.inject prod.inject)
    then show ?thesis using y(2) by simp
  qed
  have new: "in_groups t gs ?x" if "out = Applied"
    using group that x(1,4) same by (force simp: in_groups_def in_group_def interrupt_view_def)
  have "marked_except (in_groups t gs) w2"
    unfolding x(7) by (rule terminal_marked [OF inv x(2)]) (use sub new in blast)+
  moreover have "interrupt_view ?x = interrupt_view x" by (simp add: interrupt_view_def)
  ultimately show ?thesis
    using put_interrupt_views [OF marked_exceptD(2) [OF inv] x(2), of ?x] same unfolding x(7) by auto
qed

lemma settle_rows_ok:
  "settle_rows p now t reason rows (a, groups, w) = Inr (a', groups', w') \<Longrightarrow>
   marked_except (in_groups t groups) w \<Longrightarrow>
   interrupt_view ` fst ` set rows \<subseteq> interrupt_view ` set (interrupts w) \<Longrightarrow>
   marked_except (in_groups t groups') w' \<and> rq w' = rq w \<and> open_requests w' \<subseteq> open_requests w \<and>
   interrupt_view ` set (interrupts w') = interrupt_view ` set (interrupts w) \<and>
   (\<forall>(r, e) \<in> set rows. ir_outcome r = None \<longrightarrow> interrupt_view r \<notin> open_requests w')"
proof (induction p now t reason rows "(a, groups, w)" arbitrary: a groups w rule: settle_rows.induct)
  case (1 p now t reason)
  then show ?case by simp
next
  case (2 p now t reason r e rows a groups w)
  obtain v w1 where v: "owner_loss_verdict p t reason (r, e) w = Inr (v, w1)"
    using 2(2) by (auto simp: bind_ok_Inr)
  note t1 = verdict_tables [OF v]
  obtain w2 where w2: "(if ir_outcome r = None then terminalize_stolen now t r v w1 else Inr w1) = Inr w2"
    using 2(2) v by (auto simp: bind_ok_Inr)
  define gs where "gs = (if fst (fst v) = Applied \<and> (\<forall>(k, n, i) \<in> set groups. (k, n) \<noteq> (ir_token r, ir_turn r))
            then groups @ [(ir_token r, ir_turn r, ir_id r)] else groups)"
  have rest: "settle_rows p now t reason rows (count_row r a, gs, w2) = Inr (a', groups', w')"
    using 2(2) v w2 by (simp add: gs_def Let_def)
  have inv1: "marked_except (in_groups t groups) w1" using 2(3) t1 unfolding marked_except_def by simp
  have view: "interrupt_view r \<in> interrupt_view ` set (interrupts w1)" using 2(4) t1 by simp
  have sub: "in_groups t groups x \<Longrightarrow> in_groups t gs x" for x by (auto simp: in_groups_def gs_def)
  have group: "\<exists>i. (ir_token r, ir_turn r, i) \<in> set gs" if "fst (fst v) = Applied"
    using that by (fastforce simp: gs_def)
  note step = settle_row_ok [OF w2 inv1 view sub group]
  have vs: "interrupt_view ` fst ` set rows \<subseteq> interrupt_view ` set (interrupts w2)"
    using 2(4) step t1 by auto
  have IH: "marked_except (in_groups t groups') w' \<and> rq w' = rq w2 \<and> open_requests w' \<subseteq> open_requests w2 \<and>
      interrupt_view ` set (interrupts w') = interrupt_view ` set (interrupts w2) \<and>
      (\<forall>(r, e) \<in> set rows. ir_outcome r = None \<longrightarrow> interrupt_view r \<notin> open_requests w')"
    by (rule 2(1) [OF gs_def rest _ vs]) (rule conjunct1 [OF step])
  have "open_requests w1 = open_requests w" using t1 by (simp add: open_requests_def)
  then show ?case using IH step t1 by auto
qed

lemma stamp_views:
  "open_requests (stamp_group t acc turn m w) = open_requests w"
  "interrupt_view ` set (interrupts (stamp_group t acc turn m w)) = interrupt_view ` set (interrupts w)"
proof -
  let ?f = "\<lambda>r. if in_group t acc turn r then r\<lparr>ir_result := merged (ir_result r) m\<rparr> else r"
  have f: "interrupt_view (?f r) = interrupt_view r" "ir_outcome (?f r) = ir_outcome r" for r
    by (simp_all add: interrupt_view_def)
  have is': "interrupts (stamp_group t acc turn m w) = map ?f (interrupts w)" by simp
  show "interrupt_view ` set (interrupts (stamp_group t acc turn m w)) = interrupt_view ` set (interrupts w)"
    unfolding is' set_map image_image f(1) by (rule refl)
  have op: "open_requests x = interrupt_view ` {r \<in> set (interrupts x). ir_outcome r = None}" for x
    by (auto simp: open_requests_def)
  have img: "{r \<in> ?f ` A. ir_outcome r = None} = ?f ` {r \<in> A. ir_outcome r = None}" for A
    using f(2) by (auto simp del: if_split)
  show "open_requests (stamp_group t acc turn m w) = open_requests w"
    unfolding op is' set_map img image_image f(1) by (rule refl)
qed

lemma settle_groups_ok:
  "settle_groups p now t cur terminal gs (st, w) = Inr (st', w') \<Longrightarrow> marked_except (in_groups t gs) w \<Longrightarrow>
   interrupts_ok w' \<and> db_le (rq w) (rq w') \<and> open_requests w' = open_requests w \<and>
   interrupt_view ` set (interrupts w') = interrupt_view ` set (interrupts w)"
proof (induction p now t cur terminal gs "(st, w)" arbitrary: st w rule: settle_groups.induct)
  case (1 p now t cur terminal)
  have "in_groups t [] = (\<lambda>_. False)" by (simp add: in_groups_def fun_eq_iff)
  then show ?case using 1 by (simp add: interrupts_ok_def)
next
  case (2 p now t cur terminal acc turn i gs st w)
  obtain c w1 where c: "consume_applied_interrupt_input_idle p now t cur acc turn i terminal w = Inr (Some c, w1)"
    "settle_groups p now t cur terminal gs (Some (ic_state c), w1) = Inr (st', w')"
    using 2(2) by (auto simp: bind_ok_Inr split: option.splits)
  note idle = c(1) [unfolded consume_applied_interrupt_input_idle_def]
  have "marked_except (in_groups t gs) w1"
    using consume_marked [OF 2(3) idle] by (rule marked_except_mono) (auto simp: in_groups_def)
  moreover have "db_le (rq w) (rq w1)" using consume_queue_le(1) [OF marked_exceptD(1) [OF 2(3)] idle] .
  moreover have "open_requests w1 = open_requests w \<and>
      interrupt_view ` set (interrupts w1) = interrupt_view ` set (interrupts w)"
    using idle
  proof (cases rule: consume_cases)
    case (consumed q c adv)
    have "open_requests (put_queue q x) = open_requests x" for q x by (simp add: open_requests_def)
    then show ?thesis unfolding consumed(9) by (simp only: put_fields stamp_views)
  qed simp
  ultimately show ?case using 2(1) [OF refl c(2)] db_le_trans by (metis (no_types, lifting))
qed

end
