(* ===== verification/Interrupt_Runs.thy ===== *)
theory Interrupt_Runs
  imports Interrupt_Inbox
begin

text \<open>
  The properties of the interrupt inbox: the interrupted input is consumed exactly once, only the
  current lease settles a request, admission names an open gate and is idempotent, and after a
  steal no request of the old lease is left unsettled.
\<close>

section \<open>Steps\<close>

text \<open>
  The request ids are fresh UUIDs. Any other component may run in between, as long as it keeps the
  requests and lets the queue only grow; the steps of the queue and of the control inbox do.
\<close>

inductive interrupt_run :: "world \<Rightarrow> world \<Rightarrow> bool" where
  admitted: "interrupt_of w i = None \<Longrightarrow>
    admit_thread_interrupt p wc i now t owner client turn w = Inr (a, w') \<Longrightarrow> interrupt_run w w'"
| journalled: "write_interrupt_receipt wr tok accepted stale sq kind params i w = Inr (n, w') \<Longrightarrow>
    interrupt_run w w'"
| finalized: "finalize_interrupt_request p now i t tok turn out mode err accepted stale w = Inr (st, w') \<Longrightarrow>
    interrupt_run w w'"
| consumed: "consume_applied_interrupt_input p now t cur acc turn i mode w = Inr (res, w') \<Longrightarrow>
    interrupt_run w w'"
| recovered: "reconcile_stolen_interrupts p now t unit w = Inr (a, w') \<Longrightarrow> interrupt_run w w'"
| elsewhere: "interrupts w' = interrupts w \<Longrightarrow> (db_ok (rq w) \<Longrightarrow> db_ok (rq w') \<and> db_le (rq w) (rq w')) \<Longrightarrow>
    interrupt_run w w'"

lemma queue_step_elsewhere: "rq_step races (rq w) d \<Longrightarrow> interrupt_run w (w\<lparr>rq := d\<rparr>)"
  using rq_step_ok rq_step_le by (intro interrupt_run.elsewhere) auto

lemma stolen_views: "set (stolen_interrupts w t tok) = {r \<in> set (interrupts w). ir_thread r = t \<and> ir_token r = tok \<and> unsettled r}"
  by (simp add: stolen_interrupts_def)

lemma reconcile_rows_ok:
  assumes ok: "interrupts_ok w" and sub: "set pending \<subseteq> set (interrupts w)"
    and rec: "reconcile_interrupt_rows p now t cur pending reason terminal w = Inr (a, w')"
  shows "interrupts_ok w'" "db_le (rq w) (rq w')"
    "open_requests w' \<subseteq> open_requests w"
    "\<forall>r \<in> set pending. ir_outcome r = None \<longrightarrow> interrupt_view r \<notin> open_requests w'"
    "interrupt_view ` set (interrupts w') = interrupt_view ` set (interrupts w)"
proof -
  let ?rows = "map (\<lambda>r. (r, fetch_interrupt_receipt w (ir_thread r) (ir_id r))) pending"
  obtain b gs w1 where s: "settle_rows p now t reason ?rows (no_reconcile, [], w) = Inr (b, gs, w1)"
    using rec by (auto simp: reconcile_interrupt_rows_def bind_ok_Inr)
  then obtain st where g: "settle_groups p now t cur terminal gs (None, w1) = Inr (st, w')"
    using rec by (auto simp: reconcile_interrupt_rows_def bind_ok_Inr map_ok_Inr)
  have none: "in_groups t [] = (\<lambda>_. False)" by (simp add: in_groups_def fun_eq_iff)
  have start: "marked_except (in_groups t []) w" using ok by (simp add: none interrupts_ok_def)
  have fsts: "fst ` set ?rows = set pending" by force
  have views: "interrupt_view ` fst ` set ?rows \<subseteq> interrupt_view ` set (interrupts w)"
    unfolding fsts using sub by (rule image_mono)
  note S = settle_rows_ok [OF s start views]
  note G = settle_groups_ok [OF g conjunct1 [OF S]]
  show "interrupts_ok w'" "db_le (rq w) (rq w')" using G S by simp_all
  show "open_requests w' \<subseteq> open_requests w" using G S by simp
  show "\<forall>r \<in> set pending. ir_outcome r = None \<longrightarrow> interrupt_view r \<notin> open_requests w'"
    using G S by auto
  show "interrupt_view ` set (interrupts w') = interrupt_view ` set (interrupts w)" using G S by simp
qed

lemma reconcile_stolen_ok:
  assumes ok: "interrupts_ok w" and rec: "reconcile_stolen_interrupts p now t unit w = Inr (a, w')"
  shows "interrupts_ok w' \<and> db_le (rq w) (rq w') \<and>
    interrupt_view ` set (interrupts w') = interrupt_view ` set (interrupts w)"
proof (cases "su_previous_lease_token unit")
  case None
  then show ?thesis using rec ok by (simp add: reconcile_stolen_interrupts_def)
next
  case (Some prev)
  have sub: "set (stolen_interrupts w t prev) \<subseteq> set (interrupts w)" by (auto simp: stolen_views)
  have "reconcile_interrupt_rows p now t (su_lease_token unit) (stolen_interrupts w t prev)
      (lit ''lease_expired'') False w = Inr (a, w')"
    using rec Some by (auto simp: reconcile_stolen_interrupts_def split: if_splits)
  from reconcile_rows_ok(1,2,5) [OF ok sub this] show ?thesis by simp
qed

lemma admit_interrupt_cases:
  assumes "admit_thread_interrupt p wc i now t owner client turn w = Inr (a, w')"
  obtains (duplicate) r th where "thread_of w t = Some th" "th_user th = owner"
      "existing_interrupt w t client = Some r" "ir_turn r = turn" "a = interrupt_admitted r True" "w' = w"
  | (fresh) th q where "thread_of w t = Some th" "th_user th = owner" "existing_interrupt w t client = None"
      "interrupt_refusal p wc th = None" "row_of (rq w) t = Some q" "gate_open turn q"
      "a = interrupt_admitted (new_interrupt i now t client turn q) False"
      "w' = w\<lparr>interrupts := interrupts w @ [new_interrupt i now t client turn q]\<rparr>"
  using assms
  by (auto simp: admit_thread_interrupt_def Let_def split: option.splits if_splits)

lemma admit_interrupts_ok:
  assumes ok: "interrupts_ok w" and fresh: "interrupt_of w i = None"
    and adm: "admit_thread_interrupt p wc i now t owner client turn w = Inr (a, w')"
  shows "interrupts_ok w' \<and> rq w' = rq w"
  using adm
proof (cases rule: admit_interrupt_cases)
  case (fresh th q)
  let ?r = "new_interrupt i now t client turn q"
  have inv: "marked_except (\<lambda>_. False) w" using ok by (simp add: interrupts_ok_def)
  have r: "ir_outcome ?r = None" "ir_result ?r = []" "ir_id ?r = i" by (simp_all add: new_interrupt_def)
  have "i \<notin> ir_id ` set (interrupts w)"
    using \<open>interrupt_of w i = None\<close> by (simp add: interrupt_of_def find_by_None)
  then have ids: "distinct (map ir_id (interrupts w'))"
    using marked_exceptD(2) [OF inv] r(3) by (simp add: fresh(8))
  have "row_marked (rq w') x" if "x \<in> set (interrupts w')" for x
    using that marked_exceptD(3) [OF inv] r(1,2) by (auto simp: fresh(8) row_marked_def)
  moreover have "marker_of x = marker_of y"
    if "x \<in> set (interrupts w')" "y \<in> set (interrupts w')" "siblings x y" for x y
  proof -
    have "x \<noteq> ?r" "y \<noteq> ?r" using that(3) r(1) by (auto simp: siblings_def)
    then show ?thesis using that marked_exceptD(4) [OF inv] by (auto simp: fresh(8))
  qed
  ultimately have "marked_except (\<lambda>_. False) w'"
    using marked_exceptD(1) [OF inv] ids unfolding marked_except_def by (simp add: fresh(8))
  then show ?thesis by (simp add: interrupts_ok_def fresh(8))
qed (simp add: ok)

lemma interrupt_run_ok:
  assumes "interrupt_run w w'" "interrupts_ok w"
  shows "interrupts_ok w' \<and> db_le (rq w) (rq w')"
  using assms
proof (induction rule: interrupt_run.induct)
  case (admitted w i p wc now t owner client turn a w')
  then show ?case using admit_interrupts_ok by simp
next
  case (journalled wr tok accepted stale sq kind params i w n w')
  then have "interrupts w' = interrupts w" "rq w' = rq w"
    by (auto simp: write_interrupt_receipt_def Let_def elim!: insert_event_cases split: if_splits)
  then show ?case
    using journalled interrupts_frame [of "\<lambda>_. False" w w'] marked_exceptD(1) [of "\<lambda>_. False" w]
    by (simp add: interrupts_ok_def)
next
  case (finalized p now i t tok turn out mode err accepted stale w st w')
  then show ?case using finalize_interrupts_ok by blast
next
  case (consumed p now t cur acc turn i mode w res w')
  have inv: "marked_except (\<lambda>_. False) w" using consumed(2) by (simp add: interrupts_ok_def)
  show ?case
  proof (cases res)
    case None
    with consumed(1) have "w' = w" by (cases rule: consume_cases) simp_all
    then show ?thesis using consumed(2) by simp
  next
    case (Some c)
    then show ?thesis
      using consume_marked [OF inv consumed(1) [unfolded Some]] consume_queue_le(1) [OF marked_exceptD(1) [OF inv] consumed(1)]
      by (simp add: interrupts_ok_def)
  qed
next
  case (recovered p now t unit w a w')
  then show ?case using reconcile_stolen_ok by blast
next
  case (elsewhere w' w)
  then show ?case
    using interrupts_frame [of "\<lambda>_. False" w w'] marked_exceptD(1) [of "\<lambda>_. False" w]
    by (simp add: interrupts_ok_def)
qed

lemma interrupt_runs_ok: "interrupt_run\<^sup>*\<^sup>* w w' \<Longrightarrow> interrupts_ok w \<Longrightarrow> interrupts_ok w' \<and> db_le (rq w) (rq w')"
proof (induction rule: rtranclp_induct)
  case (step y z)
  then show ?case using interrupt_run_ok db_le_trans by blast
qed simp

lemma empty_interrupts_ok: "interrupts_ok empty_world"
  by (simp add: interrupts_ok_def marked_except_def empty_world_def empty_db_ok)

section \<open>Identities over runs\<close>

definition clients_ok :: "world \<Rightarrow> bool" where
  "clients_ok w \<longleftrightarrow>
     (\<forall>r \<in> set (interrupts w). \<forall>s \<in> set (interrupts w).
        ir_thread r = ir_thread s \<and> ir_client r = ir_client s \<longrightarrow> ir_id r = ir_id s)"

lemma clients_ok_same:
  assumes "clients_ok w" "interrupt_view ` set (interrupts w') = interrupt_view ` set (interrupts w)"
  shows "clients_ok w'"
  unfolding clients_ok_def
proof (intro ballI impI)
  fix r s assume rs: "r \<in> set (interrupts w')" "s \<in> set (interrupts w')"
    "ir_thread r = ir_thread s \<and> ir_client r = ir_client s"
  obtain r0 where r0: "r0 \<in> set (interrupts w)" "interrupt_view r = interrupt_view r0"
    using rs(1) assms(2) by (metis image_iff)
  obtain s0 where s0: "s0 \<in> set (interrupts w)" "interrupt_view s = interrupt_view s0"
    using rs(2) assms(2) by (metis image_iff)
  have f: "ir_id r = ir_id r0" "ir_thread r = ir_thread r0" "ir_client r = ir_client r0"
    using r0(2) by (simp_all add: interrupt_view_def)
  have g: "ir_id s = ir_id s0" "ir_thread s = ir_thread s0" "ir_client s = ir_client s0"
    using s0(2) by (simp_all add: interrupt_view_def)
  have "ir_thread r0 = ir_thread s0 \<and> ir_client r0 = ir_client s0" using rs(3) f g by simp
  then have "ir_id r0 = ir_id s0" using assms(1) r0(1) s0(1) unfolding clients_ok_def by blast
  then show "ir_id r = ir_id s" using f(1) g(1) by simp
qed

lemma put_terminal_views:
  assumes "interrupts_ok w" "r \<in> set (interrupts w)"
  shows "interrupt_view ` set (interrupts (put_interrupt (terminal_interrupt now out d mode err tok j r) w))
    = interrupt_view ` set (interrupts w)"
proof -
  have "distinct (map ir_id (interrupts w))"
    using assms(1) marked_exceptD(2) by (auto simp: interrupts_ok_def)
  then show ?thesis
    using put_interrupt_views(1) [OF _ assms(2), of "terminal_interrupt now out d mode err tok j r"]
    by (simp add: interrupt_view_def)
qed

lemma consume_views:
  assumes "consume_applied_interrupt_input p now t cur acc turn i mode w = Inr (res, w')"
  shows "interrupt_view ` set (interrupts w') = interrupt_view ` set (interrupts w)"
  using assms
proof (cases rule: consume_cases)
  case (consumed q c adv)
  then show ?thesis by (simp only: put_fields stamp_views)
qed simp

lemma finalize_views:
  assumes ok: "interrupts_ok w"
    and fin: "finalize_interrupt_request p now i t tok turn out mode err accepted stale w = Inr (st, w')"
  shows "interrupt_view ` set (interrupts w') = interrupt_view ` set (interrupts w)"
  using fin
proof (cases rule: interrupt_final_cases)
  case (settled r e req)
  have r: "r \<in> set (interrupts w)" using interrupt_of_in [OF settled(4)] by simp
  show ?thesis
  proof (cases "out = Applied")
    case True
    then obtain res where "consume_applied_interrupt_input p now t tok req turn i Live
        (put_interrupt (terminal_interrupt now out (interrupt_result r out mode err) mode err
          req (ev_epoch e, ev_seq e) r) w) = Inr (Some res, w')"
      using settled(11) by auto
    from consume_views [OF this] show ?thesis unfolding put_terminal_views [OF ok r] .
  next
    case False
    then show ?thesis using settled(11) put_terminal_views [OF ok r] by simp
  qed
qed simp

lemma existing_interrupt_None:
  "existing_interrupt w t client = None \<Longrightarrow> r \<in> set (interrupts w) \<Longrightarrow> ir_thread r = t \<Longrightarrow> ir_client r \<noteq> client"
  by (auto simp: existing_interrupt_def find_None_iff)

lemma interrupt_run_views:
  assumes "interrupt_run w w'" "interrupts_ok w" "clients_ok w"
  shows "clients_ok w' \<and> interrupt_view ` set (interrupts w) \<subseteq> interrupt_view ` set (interrupts w')"
proof -
  have same: ?thesis if "interrupt_view ` set (interrupts w') = interrupt_view ` set (interrupts w)"
    using clients_ok_same [OF assms(3) that] that by simp
  from assms(1) show ?thesis
  proof (cases rule: interrupt_run.cases)
    case (admitted i p wc now t owner client turn a)
    from admitted(2) show ?thesis
    proof (cases rule: admit_interrupt_cases)
      case (fresh th q)
      let ?r = "new_interrupt i now t client turn q"
      have r: "ir_thread ?r = t" "ir_client ?r = client" by (simp_all add: new_interrupt_def)
      have "\<not> (ir_thread x = t \<and> ir_client x = client)" if "x \<in> set (interrupts w)" for x
        using that existing_interrupt_None [OF fresh(3)] by blast
      then have "ir_id x = ir_id y" if "x \<in> set (interrupts w) \<union> {?r}" "y \<in> set (interrupts w) \<union> {?r}"
        "ir_thread x = ir_thread y \<and> ir_client x = ir_client y" for x y
        using that assms(3) r by (metis Un_iff clients_ok_def singletonD)
      moreover have "set (interrupts w') = set (interrupts w) \<union> {?r}" by (simp add: fresh(8))
      ultimately have "clients_ok w'" unfolding clients_ok_def by blast
      then show ?thesis by (auto simp: fresh(8))
    qed (use same in simp)
  next
    case (journalled wr tok accepted stale sq kind params i n)
    then have "interrupts w' = interrupts w"
      by (auto simp: write_interrupt_receipt_def Let_def elim!: insert_event_cases split: if_splits)
    then show ?thesis by (intro same) simp
  next
    case (finalized p now i t tok turn out mode err accepted stale st)
    then show ?thesis using same finalize_views [OF assms(2)] by blast
  next
    case (consumed p now t cur acc turn i mode res)
    then show ?thesis using same consume_views by blast
  next
    case (recovered p now t unit a)
    then show ?thesis using same reconcile_stolen_ok [OF assms(2)] by blast
  next
    case elsewhere
    then show ?thesis by (intro same) simp
  qed
qed

lemma interrupt_runs_views:
  "interrupt_run\<^sup>*\<^sup>* w w' \<Longrightarrow> interrupts_ok w \<Longrightarrow> clients_ok w \<Longrightarrow>
   clients_ok w' \<and> interrupt_view ` set (interrupts w) \<subseteq> interrupt_view ` set (interrupts w')"
proof (induction rule: rtranclp_induct)
  case (step y z)
  have "interrupts_ok y" using interrupt_runs_ok [OF step(1,4)] by simp
  then show ?case using interrupt_run_views [OF step(2)] step(3) [OF step(4,5)] by blast
qed simp

end
