(* ===== verification/Interrupt_Behaviour.thy ===== *)
theory Interrupt_Behaviour
  imports Interrupt_Runs
begin

text \<open>
  The properties of the interrupt inbox: the interrupted input is consumed exactly once, only the
  current lease settles a request, admission names an open gate and is idempotent, the owner's
  drain loop ends and leaves other turns alone, and after a steal no request of the old lease is
  left unsettled.
\<close>

section \<open>Settled requests stay settled\<close>

text \<open>An outcome and an input marker, once written, are in every later state.\<close>

definition outcomes_le :: "world \<Rightarrow> world \<Rightarrow> bool" where
  "outcomes_le w w' \<longleftrightarrow>
     (\<forall>r \<in> set (interrupts w). \<forall>o'. ir_outcome r = Some o' \<longrightarrow>
        (\<exists>s \<in> set (interrupts w'). interrupt_view s = interrupt_view r \<and> ir_outcome s = Some o' \<and>
           (\<forall>c. marker_of r = Some c \<longrightarrow> marker_of s = Some c)))"

lemma outcomes_leI:
  assumes "\<And>r o'. r \<in> set (interrupts w) \<Longrightarrow> ir_outcome r = Some o' \<Longrightarrow>
    \<exists>s \<in> set (interrupts w'). interrupt_view s = interrupt_view r \<and> ir_outcome s = Some o' \<and>
           (\<forall>c. marker_of r = Some c \<longrightarrow> marker_of s = Some c)"
  shows "outcomes_le w w'"
  using assms unfolding outcomes_le_def by blast

lemma outcomes_le_subset: "set (interrupts w) \<subseteq> set (interrupts w') \<Longrightarrow> outcomes_le w w'"
  by (rule outcomes_leI) blast

lemma outcomes_le_trans: "outcomes_le w w1 \<Longrightarrow> outcomes_le w1 w2 \<Longrightarrow> outcomes_le w w2"
proof (rule outcomes_leI)
  fix r o' assume le: "outcomes_le w w1" "outcomes_le w1 w2" and r: "r \<in> set (interrupts w)" "ir_outcome r = Some o'"
  obtain s where s: "s \<in> set (interrupts w1)" "interrupt_view s = interrupt_view r" "ir_outcome s = Some o'"
    "\<forall>c. marker_of r = Some c \<longrightarrow> marker_of s = Some c"
    using le(1) r unfolding outcomes_le_def by blast
  obtain u where u: "u \<in> set (interrupts w2)" "interrupt_view u = interrupt_view s" "ir_outcome u = Some o'"
    "\<forall>c. marker_of s = Some c \<longrightarrow> marker_of u = Some c"
    using le(2) s(1,3) unfolding outcomes_le_def by blast
  show "\<exists>s \<in> set (interrupts w2). interrupt_view s = interrupt_view r \<and> ir_outcome s = Some o' \<and>
           (\<forall>c. marker_of r = Some c \<longrightarrow> marker_of s = Some c)"
    using u s by (intro bexI [of _ u]) simp_all
qed

lemma put_outcomes_le:
  assumes "distinct (map ir_id (interrupts w))" "x \<in> set (interrupts w)" "ir_id x' = ir_id x" "ir_outcome x = None"
  shows "outcomes_le w (put_interrupt x' w)"
proof (rule outcomes_leI)
  fix r o' assume r: "r \<in> set (interrupts w)" "ir_outcome r = Some o'"
  have "set (interrupts (put_interrupt x' w)) = insert x' (set (interrupts w) - {x})"
    using set_put_interrupt [OF assms(1-3)] by (simp add: put_interrupt_def)
  moreover have "r \<noteq> x" using r(2) assms(4) by auto
  ultimately have "r \<in> set (interrupts (put_interrupt x' w))" using r(1) by blast
  then show "\<exists>s \<in> set (interrupts (put_interrupt x' w)). interrupt_view s = interrupt_view r \<and>
      ir_outcome s = Some o' \<and> (\<forall>c. marker_of r = Some c \<longrightarrow> marker_of s = Some c)"
    using r(2) by (intro bexI [of _ r]) simp_all
qed

text \<open>A marked group is stamped again with its own marker.\<close>

lemma markers_of_Cons:
  "markers_of p (r # rs) =
     (if jget (ir_result r) consumed_key = JNull then markers_of p rs
      else case py_int p (jget (ir_result r) consumed_key) of None \<Rightarrow> None
        | Some n \<Rightarrow> map_option (List.insert n) (markers_of p rs))"
  by (cases "jget (ir_result r) consumed_key") simp_all

lemma markers_of_member:
  "markers_of p rs = Some ms \<Longrightarrow> r \<in> set rs \<Longrightarrow> jget (ir_result r) consumed_key = JInt c \<Longrightarrow> c \<in> set ms"
proof (induction rs arbitrary: ms)
  case (Cons x rs)
  show ?case
  proof (cases "r = x")
    case True
    then show ?thesis using Cons.prems by (auto simp: markers_of_Cons simp del: markers_of.simps(2))
  next
    case False
    then have "r \<in> set rs" using Cons.prems(2) by simp
    then show ?thesis
      using Cons.IH Cons.prems(1,3)
      by (auto simp: markers_of_Cons simp del: markers_of.simps(2) split: if_splits option.splits)
  qed
qed simp

lemma marker_of_Some: "marker_of r = Some c \<longleftrightarrow> jget (ir_result r) consumed_key = JInt c"
  by (auto simp: marker_of_def split: json.splits)

lemma consumed_input_marked:
  assumes "consumed_input p w t turn rows q = Inr (c, adv)" "r \<in> set rows" "marker_of r = Some m"
  shows "c = m"
proof -
  obtain ms where ms: "markers_of p rows = Some ms" "m \<in> set ms"
    using assms markers_of_member [of p rows]
    by (cases "markers_of p rows") (auto simp: consumed_input_def marker_of_Some)
  then show ?thesis
    using assms(1) by (auto simp: consumed_input_def split: list.splits option.splits if_splits)
qed

lemma consume_outcomes_le:
  assumes "consume_applied_interrupt_input p now t cur acc turn i mode w = Inr (res, w')"
  shows "outcomes_le w w'"
  using assms
proof (cases rule: consume_cases)
  case (consumed q c adv)
  let ?m = "input_marker mode cur acc c"
  let ?f = "\<lambda>r. if in_group t acc turn r then r\<lparr>ir_result := merged (ir_result r) ?m\<rparr> else r"
  have is': "set (interrupts w') = ?f ` set (interrupts w)" by (simp add: consumed(9))
  show ?thesis
  proof (rule outcomes_leI)
    fix r o' assume r: "r \<in> set (interrupts w)" "ir_outcome r = Some o'"
    have "marker_of (?f r) = Some k" if "marker_of r = Some k" for k
    proof (cases "in_group t acc turn r")
      case True
      then have "r \<in> set (filter (in_group t acc turn) (interrupts w))" using r(1) by simp
      from consumed_input_marked [OF consumed(6) this that] show ?thesis
        using True by (simp add: marker_stamped)
    qed (use that in simp)
    moreover have "interrupt_view (?f r) = interrupt_view r" "ir_outcome (?f r) = ir_outcome r"
      by (simp_all add: interrupt_view_def)
    moreover have "?f r \<in> set (interrupts w')" unfolding is' using r(1) by blast
    ultimately show "\<exists>s \<in> set (interrupts w'). interrupt_view s = interrupt_view r \<and> ir_outcome s = Some o' \<and>
           (\<forall>c. marker_of r = Some c \<longrightarrow> marker_of s = Some c)"
      using r(2) by (intro bexI [of _ "?f r"]) simp_all
  qed
qed (simp add: outcomes_le_subset)

lemma finalize_outcomes_le:
  assumes ok: "interrupts_ok w"
    and fin: "finalize_interrupt_request p now i t tok turn out mode err accepted stale w = Inr (st, w')"
  shows "outcomes_le w w'"
  using fin
proof (cases rule: interrupt_final_cases)
  case (settled r e req)
  let ?r = "terminal_interrupt now out (interrupt_result r out mode err) mode err req (ev_epoch e, ev_seq e) r"
  have "marked_except (\<lambda>_. False) w" using ok by (simp add: interrupts_ok_def)
  then have put: "outcomes_le w (put_interrupt ?r w)"
    using put_outcomes_le [of w r ?r] interrupt_of_in [OF settled(4)] settled(8) marked_exceptD(2) by simp
  show ?thesis
  proof (cases "out = Applied")
    case True
    then show ?thesis using settled(11) put outcomes_le_trans consume_outcomes_le by metis
  next
    case False
    then show ?thesis using settled(11) put by simp
  qed
qed (simp add: outcomes_le_subset)

lemma settle_row_outcomes_le:
  assumes "(if ir_outcome r = None then terminalize_stolen now t r v w else Inr w) = Inr w2"
    "distinct (map ir_id (interrupts w))"
  shows "outcomes_le w w2"
proof (cases "ir_outcome r = None")
  case True
  then have "terminalize_stolen now t r v w = Inr w2" using assms(1) by simp
  then show ?thesis
    by (cases rule: terminalize_cases) (simp add: put_outcomes_le [OF assms(2)])
next
  case False
  then have "w2 = w" using assms(1) unfolding if_not_P [OF False] by simp
  then show ?thesis by (simp add: outcomes_le_subset)
qed

lemma settle_rows_outcomes_le:
  "settle_rows p now t reason rows (a, groups, w) = Inr (a', groups', w') \<Longrightarrow>
   distinct (map ir_id (interrupts w)) \<Longrightarrow> outcomes_le w w' \<and> distinct (map ir_id (interrupts w'))"
proof (induction p now t reason rows "(a, groups, w)" arbitrary: a groups w rule: settle_rows.induct)
  case (1 p now t reason)
  then show ?case by (simp add: outcomes_le_subset)
next
  case (2 p now t reason r e rows a groups w)
  obtain v w1 where v: "owner_loss_verdict p t reason (r, e) w = Inr (v, w1)"
    using 2(2) by (auto simp: bind_ok_Inr)
  have t1: "interrupts w1 = interrupts w" using verdict_tables [OF v] by simp
  obtain w2 where w2: "(if ir_outcome r = None then terminalize_stolen now t r v w1 else Inr w1) = Inr w2"
    using 2(2) v by (auto simp: bind_ok_Inr)
  define gs where "gs = (if fst (fst v) = Applied \<and> (\<forall>(k, n, i) \<in> set groups. (k, n) \<noteq> (ir_token r, ir_turn r))
            then groups @ [(ir_token r, ir_turn r, ir_id r)] else groups)"
  have rest: "settle_rows p now t reason rows (count_row r a, gs, w2) = Inr (a', groups', w')"
    using 2(2) v w2 by (simp add: gs_def Let_def)
  have d2: "distinct (map ir_id (interrupts w2))"
    using w2 2(3) t1
    by (cases "ir_outcome r = None") (auto elim!: terminalize_cases simp: put_interrupt_def map_key_put)
  have "outcomes_le w w1" by (rule outcomes_le_subset) (simp add: t1)
  moreover have "outcomes_le w1 w2" using settle_row_outcomes_le [OF w2] 2(3) t1 by simp
  ultimately show ?case using 2(1) [OF gs_def rest d2] outcomes_le_trans by blast
qed

lemma settle_groups_outcomes_le:
  "settle_groups p now t cur terminal gs (st, w) = Inr (st', w') \<Longrightarrow> outcomes_le w w'"
proof (induction p now t cur terminal gs "(st, w)" arbitrary: st w rule: settle_groups.induct)
  case (1 p now t cur terminal)
  then show ?case by (simp add: outcomes_le_subset)
next
  case (2 p now t cur terminal acc turn i gs st w)
  obtain c w1 where c: "consume_applied_interrupt_input_idle p now t cur acc turn i terminal w = Inr (Some c, w1)"
    "settle_groups p now t cur terminal gs (Some (ic_state c), w1) = Inr (st', w')"
    using 2(2) by (auto simp: bind_ok_Inr split: option.splits)
  then show ?case
    using 2(1) [OF refl c(2)] consume_outcomes_le outcomes_le_trans
    unfolding consume_applied_interrupt_input_idle_def by blast
qed

lemma reconcile_outcomes_le:
  assumes ok: "interrupts_ok w" and rec: "reconcile_stolen_interrupts p now t unit w = Inr (a, w')"
  shows "outcomes_le w w'"
proof (cases "su_previous_lease_token unit")
  case None
  then show ?thesis using rec by (simp add: reconcile_stolen_interrupts_def outcomes_le_subset)
next
  case (Some prev)
  then have "reconcile_interrupt_rows p now t (su_lease_token unit) (stolen_interrupts w t prev)
      (lit ''lease_expired'') False w = Inr (a, w')"
    using rec by (auto simp: reconcile_stolen_interrupts_def split: if_splits)
  then obtain rows b gs w1 st where
    s: "settle_rows p now t (lit ''lease_expired'') rows (no_reconcile, [], w) = Inr (b, gs, w1)" and
    g: "settle_groups p now t (su_lease_token unit) False gs (None, w1) = Inr (st, w')"
    by (auto simp: reconcile_interrupt_rows_def bind_ok_Inr map_ok_Inr)
  have "marked_except (\<lambda>_. False) w" using ok by (simp add: interrupts_ok_def)
  then have "outcomes_le w w1" using settle_rows_outcomes_le [OF s] marked_exceptD(2) by simp
  then show ?thesis using settle_groups_outcomes_le [OF g] outcomes_le_trans by blast
qed


lemma interrupt_run_outcomes:
  assumes "interrupt_run w w'" "interrupts_ok w"
  shows "outcomes_le w w'"
  using assms
proof (induction rule: interrupt_run.induct)
  case (admitted w i p wc now t owner client turn a w')
  from admitted(2) have "set (interrupts w) \<subseteq> set (interrupts w')"
    by (cases rule: admit_interrupt_cases) auto
  then show ?case by (rule outcomes_le_subset)
next
  case (journalled wr tok accepted stale sq kind params i w n w')
  then have "interrupts w' = interrupts w"
    by (auto simp: write_interrupt_receipt_def Let_def elim!: insert_event_cases split: if_splits)
  then show ?case by (intro outcomes_le_subset) simp
next
  case (finalized p now i t tok turn out mode err accepted stale w st w')
  then show ?case using finalize_outcomes_le by blast
next
  case (consumed p now t cur acc turn i mode w res w')
  then show ?case using consume_outcomes_le by blast
next
  case (recovered p now t unit w a w')
  then show ?case using reconcile_outcomes_le by blast
next
  case (elsewhere w' w)
  then show ?case by (intro outcomes_le_subset) simp
qed

lemma interrupt_runs_outcomes: "interrupt_run\<^sup>*\<^sup>* w w' \<Longrightarrow> interrupts_ok w \<Longrightarrow> outcomes_le w w'"
proof (induction rule: rtranclp_induct)
  case (step y z)
  have "interrupts_ok y" using interrupt_runs_ok [OF step(1,4)] by simp
  then show ?case using interrupt_run_outcomes [OF step(2)] step(3) [OF step(4)] outcomes_le_trans by blast
qed (simp add: outcomes_le_subset)

section \<open>The consumed input\<close>

text \<open>
  C17. In every run from the empty system an applied interrupt names the input it consumed, which is
  at or below the input watermark of its session. In every later state the request is still
  applied with the same input, and so is each sibling of the same lease and turn.
\<close>
theorem interrupted_input_is_consumed_once:
  assumes "interrupt_run\<^sup>*\<^sup>* empty_world w" "interrupt_run\<^sup>*\<^sup>* w w'"
    and r: "r \<in> set (interrupts w)" "ir_outcome r = Some Applied"
  shows "\<exists>c q q' s. marker_of r = Some c \<and>
    row_of (rq w) (ir_thread r) = Some q \<and> Some c \<le> consumed_seq q \<and>
    row_of (rq w') (ir_thread r) = Some q' \<and> consumed_seq q \<le> consumed_seq q' \<and>
    s \<in> set (interrupts w') \<and> interrupt_view s = interrupt_view r \<and> ir_outcome s = Some Applied \<and>
    marker_of ` {x \<in> set (interrupts w'). siblings s x} = {Some c}"
proof -
  have ok: "interrupts_ok w" using interrupt_runs_ok [OF assms(1) empty_interrupts_ok] by simp
  have ok': "interrupts_ok w'" "db_le (rq w) (rq w')" using interrupt_runs_ok [OF assms(2) ok] by simp_all
  note I = marked_exceptD [OF ok [unfolded interrupts_ok_def]]
  note I' = marked_exceptD [OF ok'(1) [unfolded interrupts_ok_def]]
  have "row_marked (rq w) r" using I(3) r(1) by simp
  then obtain c q where c: "marker_of r = Some c" "row_of (rq w) (ir_thread r) = Some q" "Some c \<le> consumed_seq q"
    using r(2) by (auto simp: row_marked_def split: option.splits)
  obtain q' where q': "row_of (rq w') (ir_thread r) = Some q'" "consumed_seq q \<le> consumed_seq q'"
    using ok'(2) c(2) by (auto simp: db_le_def row_le_def)
  obtain s where s: "s \<in> set (interrupts w')" "interrupt_view s = interrupt_view r" "ir_outcome s = Some Applied"
    "marker_of s = Some c"
    using interrupt_runs_outcomes [OF assms(2) ok] r c(1) unfolding outcomes_le_def by blast
  have "siblings s s" using s(3) by (simp add: siblings_def)
  moreover have "marker_of x = Some c" if "x \<in> set (interrupts w')" "siblings s x" for x
    using I'(4) [OF s(1) that(1) _ _ that(2)] s(4) by simp
  ultimately have "marker_of ` {x \<in> set (interrupts w'). siblings s x} = {Some c}"
    using s(1,4) by force
  then show ?thesis using c q' s(1-3) by blast
qed

lemma markers_of_unmarked:
  "(\<And>r. r \<in> set rs \<Longrightarrow> jget (ir_result r) consumed_key = JNull) \<Longrightarrow> markers_of p rs = Some []"
  by (induction rs) (simp_all add: markers_of_Cons del: markers_of.simps(2))

lemma interrupt_result_unmarked: "jget (interrupt_result r out mode err) consumed_key = JNull"
  by (cases mode; cases err; simp add: interrupt_result_def consumed_key_def jget_def lit_inj)

lemma live_consumption:
  assumes inv: "interrupts_ok w" and r: "interrupt_of w i = Some r" "ir_thread r = t" "ir_turn r = turn" "ir_outcome r = None"
    and x: "x = terminal_interrupt now Applied (interrupt_result r Applied mode err) mode err (ir_token r) j r"
    and cons: "consume_applied_interrupt_input p now t (ir_token r) (ir_token r) turn i Live (put_interrupt x w) = Inr (Some res, w')"
    and G: "G = {y \<in> set (interrupts w). in_group t (ir_token r) turn y}"
  shows "\<exists>c q. row_of (rq w) t = Some q \<and>
    (if G = {} then human_inputs w t turn = [c] else marker_of ` G = {Some c}) \<and>
    row_of (rq w') t = Some (q\<lparr>consumed_seq := max (consumed_seq q) (Some c), attempts_since_completion := 0\<rparr>) \<and>
    (\<lambda>y. (ir_id y, marker_of y)) ` {y \<in> set (interrupts w'). in_group t (ir_token r) turn y}
      = (\<lambda>k. (k, Some c)) ` insert i (ir_id ` G)"
  using cons
proof (cases rule: consume_cases)
  case (consumed q c adv)
  note I = marked_exceptD [OF inv [unfolded interrupts_ok_def]]
  have rin: "r \<in> set (interrupts w)" "ir_id r = i" using interrupt_of_in [OF r(1)] by simp_all
  have xf: "in_group t (ir_token r) turn x" "ir_id x = i" "ir_outcome x = Some Applied"
    using r rin(2) by (simp_all add: x in_group_def)
  have put: "set (interrupts (put_interrupt x w)) = insert x (set (interrupts w) - {r})"
    using set_put_interrupt [OF I(2) rin(1)] by (simp add: x put_interrupt_def)
  let ?g = "in_group t (ir_token r) turn"
  have rG: "\<not> ?g r" using r(4) by (simp add: in_group_def)
  have rows: "set (filter ?g (interrupts (put_interrupt x w))) = insert x G"
    unfolding set_filter put using rG xf(1) by (auto simp: G)
  have "if G = {} then human_inputs w t turn = [c] else marker_of ` G = {Some c}"
  proof (cases "G = {}")
    case True
    have "jget (ir_result y) consumed_key = JNull"
      if "y \<in> set (filter ?g (interrupts (put_interrupt x w)))" for y
      using that unfolding rows True by (simp add: x interrupt_result_unmarked)
    then have "markers_of p (filter ?g (interrupts (put_interrupt x w))) = Some []" by (rule markers_of_unmarked)
    moreover have "human_inputs (put_interrupt x w) t turn = human_inputs w t turn" by (simp add: human_inputs_def)
    ultimately have "human_inputs w t turn = [c]"
      using consumed(6) by (auto simp: consumed_input_def split: list.splits)
    then show ?thesis using True by simp
  next
    case False
    have "marker_of y = Some c" if y: "y \<in> G" for y
    proof -
      have "row_marked (rq w) y" "ir_outcome y = Some Applied" using y I(3) by (simp_all add: G in_group_def)
      then obtain m where m: "marker_of y = Some m" by (auto simp: row_marked_def split: option.splits)
      have "y \<in> set (filter ?g (interrupts (put_interrupt x w)))" unfolding rows using y by blast
      from consumed_input_marked [OF consumed(6) this m] show ?thesis using m by simp
    qed
    then have "marker_of ` G = {Some c}" using False by force
    then show ?thesis using False by simp
  qed
  moreover have "row_of (rq w') t = Some (q\<lparr>consumed_seq := max (consumed_seq q) (Some c), attempts_since_completion := 0\<rparr>)"
    using consumed(1) row_of_unit [OF consumed(1)]
    by (simp add: consumed(9) row_of_store settle_input_eff_def sql_simps)
  moreover have "(\<lambda>y. (ir_id y, marker_of y)) ` {y \<in> set (interrupts w'). ?g y} = (\<lambda>k. (k, Some c)) ` insert i (ir_id ` G)"
  proof -
    let ?m = "input_marker Live (ir_token r) (ir_token r) c"
    let ?f = "\<lambda>r. r\<lparr>ir_result := merged (ir_result r) ?m\<rparr>"
    have "{y \<in> set (interrupts w'). ?g y} = ?f ` insert x G"
    proof -
      have gf: "?g (?f y) = ?g y" for y by (simp add: in_group_def)
      have "set (interrupts w') = (\<lambda>y. if ?g y then ?f y else y) ` set (interrupts (put_interrupt x w))"
        by (simp add: consumed(9))
      then have "{y \<in> set (interrupts w'). ?g y} = ?f ` {y \<in> set (interrupts (put_interrupt x w)). ?g y}"
        using gf by (auto split: if_splits)
      then show ?thesis using rows by simp
    qed
    then have "(\<lambda>y. (ir_id y, marker_of y)) ` {y \<in> set (interrupts w'). ?g y} = (\<lambda>y. (ir_id y, marker_of y)) ` ?f ` insert x G"
      by simp
    also have "\<dots> = (\<lambda>y. (ir_id y, Some c)) ` insert x G"
      unfolding image_image marker_stamped by simp
    finally show ?thesis by (simp add: image_image xf(2))
  qed
  ultimately show ?thesis using consumed(1) by (intro exI [of _ c] exI [of _ q]) simp
qed simp

text \<open>
  A request becomes terminal only under the live lease, while pending, as its receipt says. An
  applied one consumes the input that an applied sibling of its lease and turn already carries, or
  else the only live human message of the turn: the whole group carries it and the watermark
  reaches it. A rejected one leaves the queue alone.
\<close>
theorem interrupt_settles_from_its_receipt:
  assumes run: "interrupt_run\<^sup>*\<^sup>* empty_world w"
    and fin: "finalize_interrupt_request p now i t tok turn out mode err None False w = Inr (Interrupt_Final o', w')"
  shows "\<exists>r e. interrupt_owner w t tok \<and> interrupt_of w i = Some r \<and> ir_outcome r = None \<and>
    ir_token r = tok \<and> ir_turn r = turn \<and> fetch_interrupt_receipt w t i = Some e \<and>
    interrupt_verdict p r e = Some (out, mode, err) \<and> o' = out \<and>
    (let G = {y \<in> set (interrupts w). in_group t tok turn y} in
     if out = Applied
     then \<exists>c q. row_of (rq w) t = Some q \<and>
       (if G = {} then human_inputs w t turn = [c] else marker_of ` G = {Some c}) \<and>
       row_of (rq w') t = Some (q\<lparr>consumed_seq := max (consumed_seq q) (Some c), attempts_since_completion := 0\<rparr>) \<and>
       (\<lambda>y. (ir_id y, marker_of y)) ` {y \<in> set (interrupts w'). in_group t tok turn y}
         = (\<lambda>k. (k, Some c)) ` insert i (ir_id ` G)
     else rq w' = rq w \<and> ir_id ` {y \<in> set (interrupts w'). in_group t tok turn y} = ir_id ` G)"
proof -
  have ok: "interrupts_ok w" using interrupt_runs_ok [OF run empty_interrupts_ok] by simp
  note I = marked_exceptD [OF ok [unfolded interrupts_ok_def]]
  from fin show ?thesis
  proof (cases rule: interrupt_final_cases)
    case (settled r e req)
    have req: "req = tok" using settled(2) by simp
    let ?x = "terminal_interrupt now out (interrupt_result r out mode err) mode err tok (ev_epoch e, ev_seq e) r"
    show ?thesis
    proof (cases "out = Applied")
      case True
      obtain res where "consume_applied_interrupt_input p now t tok tok turn i Live (put_interrupt ?x w) = Inr (Some res, w')"
        using settled(11) True req by auto
      then show ?thesis
        using live_consumption [OF ok settled(4,5,7,8), of ?x now mode err _ p res w'] settled True req
        by (intro exI [of _ r] exI [of _ e]) (simp add: Let_def)
    next
      case False
      then have w': "w' = put_interrupt ?x w" and out: "out = Rejected"
        using settled(11) req by (simp_all, cases out) simp_all
      have "r \<in> set (interrupts w)" using interrupt_of_in [OF settled(4)] by simp
      then have "set (interrupts w') = insert ?x (set (interrupts w) - {r})"
        using set_put_interrupt [OF I(2)] by (simp add: w' put_interrupt_def)
      moreover have "\<not> in_group t tok turn ?x" "\<not> in_group t tok turn r"
        using out settled(8) by (simp_all add: in_group_def)
      ultimately have "{y \<in> set (interrupts w'). in_group t tok turn y} = {y \<in> set (interrupts w). in_group t tok turn y}"
        by auto
      then show ?thesis
        using settled False req w' by (intro exI [of _ r] exI [of _ e]) (simp add: Let_def)
    qed
  next
    case refused
    then show ?thesis by blast
  qed
qed

section \<open>The lease\<close>

lemma interrupt_owner_dead: "token_dead (rq w) t tok \<Longrightarrow> \<not> interrupt_owner w t tok"
  by (auto simp: interrupt_owner_def live_lease_dead split: option.splits)

text \<open>
  A token that lost its lease reads no request, journals no acknowledgement, settles nothing
  and leaves its drain loop at once.
\<close>
theorem lost_lease_settles_no_interrupt:
  assumes dead: "token_dead (rq w) (wr_thread wr) tok"
  shows "fetch_next_interrupt_request w (wr_thread wr) tok turn = None \<and>
    fetch_stale_interrupt_requests w (wr_thread wr) tok = [] \<and>
    write_interrupt_receipt wr tok acc stale sq kind params i w = Inr (0, w) \<and>
    finalize_interrupt_request p now i (wr_thread wr) tok turn out mode err acc stale w
      \<in> {Inl Exn_Value, Inr (Interrupt_Lost_Owner, w)} \<and>
    drain_thread_interrupts (Suc k) p now wr (wr_thread wr) tok turn n (s, w) = Some (Drain_Blocked, n, s, w)"
proof -
  have no: "\<not> interrupt_owner w (wr_thread wr) tok" using interrupt_owner_dead [OF dead] .
  have "fetch_next_interrupt_request w (wr_thread wr) tok turn = None"
    "fetch_stale_interrupt_requests w (wr_thread wr) tok = []"
    using no by (simp_all add: fetch_next_interrupt_request_def fetch_stale_interrupt_requests_def)
  moreover have "write_interrupt_receipt wr tok acc stale sq kind params i w = Inr (0, w)"
    using no by (simp add: write_interrupt_receipt_def Let_def)
  moreover have "finalize_interrupt_request p now i (wr_thread wr) tok turn out mode err acc stale w
      \<in> {Inl Exn_Value, Inr (Interrupt_Lost_Owner, w)}"
    using no by (simp add: finalize_interrupt_request_def Let_def)
  moreover have "interrupt_step p now wr (wr_thread wr) tok turn (s, w) = (Drain_Blocked, s, w)"
    using no by (simp add: interrupt_step_def)
  ultimately show ?thesis by simp
qed

section \<open>Admission\<close>

lemma existing_interrupt_found:
  assumes ok: "interrupts_ok w" "clients_ok w" and v: "(i, t, tok, turn, client) \<in> interrupt_view ` set (interrupts w)"
  shows "\<exists>r. existing_interrupt w t client = Some r \<and> interrupt_view r = (i, t, tok, turn, client)"
proof -
  obtain r where r: "r \<in> set (interrupts w)" "interrupt_view r = (i, t, tok, turn, client)" using v by auto
  then have "existing_interrupt w t client \<noteq> None"
    by (auto simp: existing_interrupt_def find_None_iff interrupt_view_def)
  then obtain s where s: "existing_interrupt w t client = Some s" by blast
  then have in_s: "s \<in> set (interrupts w)" "ir_thread s = t" "ir_client s = client"
    by (auto simp: existing_interrupt_def find_Some_iff)
  have rf: "ir_thread r = t" "ir_client r = client" "ir_id r = i" using r(2) by (simp_all add: interrupt_view_def)
  have "ir_id s = ir_id r"
    using ok(2) r(1) in_s rf unfolding clients_ok_def by (metis (no_types, lifting))
  then have "s = r"
    using interrupt_of_member marked_exceptD(2) [OF ok(1) [unfolded interrupts_ok_def]] r(1) in_s(1)
    by (metis option.inject)
  then show ?thesis using s r(2) by blast
qed

text \<open>
  An admitted interrupt names the lease and the turn that the queue row advertised when it was
  admitted. A retry with the same id returns the same request and changes nothing, in every later
  state; the same id for another turn is refused.
\<close>
theorem interrupt_admission_is_pinned_and_idempotent:
  assumes run: "interrupt_run\<^sup>*\<^sup>* empty_world w" and fresh: "interrupt_of w i = None"
    and adm: "admit_thread_interrupt p wc i now t owner client turn w = Inr (a, w1)" "\<not> ai_duplicate a"
    and later: "interrupt_run\<^sup>*\<^sup>* w1 w2" "thread_of w2 t = Some th" "th_user th = owner"
  shows "(\<exists>q. row_of (rq w) t = Some q \<and> gate_open turn q \<and> ai_token a = lease_token q) \<and>
    ai_turn a = turn \<and> ai_id a = i \<and>
    (\<exists>b. admit_thread_interrupt p' wc' j now' t owner client turn' w2
       = (if turn' = turn then Inr (b, w2) else Inl ''different_turn'') \<and>
      ai_id b = i \<and> ai_token b = ai_token a \<and> ai_turn b = turn \<and> ai_duplicate b)"
  using adm(1)
proof (cases rule: admit_interrupt_cases)
  case (duplicate r th)
  then show ?thesis using adm(2) by (simp add: interrupt_admitted_def)
next
  case (fresh th0 q)
  let ?r = "new_interrupt i now t client turn q"
  have clients: "clients_ok empty_world" by (simp add: clients_ok_def empty_world_def)
  have ok: "interrupts_ok w" "clients_ok w"
    using interrupt_runs_ok [OF run empty_interrupts_ok] interrupt_runs_views [OF run empty_interrupts_ok clients]
    by simp_all
  have step: "interrupt_run w w1" using adm(1) \<open>interrupt_of w i = None\<close> by (rule interrupt_run.admitted [rotated])
  have ok1: "interrupts_ok w1" "clients_ok w1"
    using interrupt_run_ok [OF step ok(1)] interrupt_run_views [OF step ok] by simp_all
  have ok2: "interrupts_ok w2" "clients_ok w2"
    "interrupt_view ` set (interrupts w1) \<subseteq> interrupt_view ` set (interrupts w2)"
    using interrupt_runs_ok [OF later(1) ok1(1)] interrupt_runs_views [OF later(1) ok1] by simp_all
  have view: "interrupt_view ?r = (i, t, lease_token q, turn, client)"
    by (simp add: interrupt_view_def new_interrupt_def)
  have "interrupt_view ?r \<in> interrupt_view ` set (interrupts w1)" unfolding fresh(8) by simp
  then have "(i, t, lease_token q, turn, client) \<in> interrupt_view ` set (interrupts w2)"
    using ok2(3) view by (metis subsetD)
  then obtain r2 where r2: "existing_interrupt w2 t client = Some r2"
    "interrupt_view r2 = (i, t, lease_token q, turn, client)"
    using existing_interrupt_found [OF ok2(1,2)] by blast
  then have "admit_thread_interrupt p' wc' j now' t owner client turn' w2
      = (if turn' = turn then Inr (interrupt_admitted r2 True, w2) else Inl ''different_turn'')"
    using later(2,3) by (simp add: admit_thread_interrupt_def interrupt_view_def)
  moreover have "ai_id a = i" "ai_turn a = turn" "ai_token a = lease_token q"
    unfolding fresh(7) by (simp_all add: interrupt_admitted_def new_interrupt_def)
  moreover have "ai_id (interrupt_admitted r2 True) = i \<and> ai_token (interrupt_admitted r2 True) = lease_token q \<and>
      ai_turn (interrupt_admitted r2 True) = turn \<and> ai_duplicate (interrupt_admitted r2 True)"
    using r2(2) by (simp add: interrupt_admitted_def interrupt_view_def)
  ultimately show ?thesis using fresh(5,6) by (metis (no_types, lifting))
qed

section \<open>After a steal\<close>

lemma settle_rows_count:
  "settle_rows p now t reason rows (a, groups, w) = Inr (a', groups', w') \<Longrightarrow> rr_count a' = rr_count a + length rows"
proof (induction p now t reason rows "(a, groups, w)" arbitrary: a groups w rule: settle_rows.induct)
  case (2 p now t reason r e rows a groups w)
  obtain v w1 w2 gs where gs: "owner_loss_verdict p t reason (r, e) w = Inr (v, w1)"
    "settle_rows p now t reason rows (count_row r a, gs, w2) = Inr (a', groups', w')"
    "gs = (if fst (fst v) = Applied \<and> (\<forall>(k, n, i) \<in> set groups. (k, n) \<noteq> (ir_token r, ir_turn r))
            then groups @ [(ir_token r, ir_turn r, ir_id r)] else groups)"
    using 2(2) by (auto simp: bind_ok_Inr Let_def)
  show ?case using 2(1) [OF gs(3,2)] by (simp add: count_row_def)
qed simp

text \<open>
  When the settlement after a steal succeeds, no request of the stolen lease is pending or
  without its consumed input, each was counted once, and the request ids are the same.
\<close>
theorem steal_leaves_no_open_interrupt:
  assumes run: "interrupt_run\<^sup>*\<^sup>* empty_world w"
    and rec: "reconcile_stolen_interrupts p now t unit w = Inr (a, w')" "su_previous_lease_token unit = Some prev"
  shows "stolen_interrupts w' t prev = [] \<and> rr_count a = length (stolen_interrupts w t prev) \<and>
    interrupt_view ` set (interrupts w') = interrupt_view ` set (interrupts w) \<and> db_le (rq w) (rq w')"
proof -
  have ok: "interrupts_ok w" using interrupt_runs_ok [OF run empty_interrupts_ok] by simp
  let ?old = "stolen_interrupts w t prev"
  have sub: "set ?old \<subseteq> set (interrupts w)" by (auto simp: stolen_views)
  have rows: "reconcile_interrupt_rows p now t (su_lease_token unit) ?old (lit ''lease_expired'') False w = Inr (a, w')"
    using rec by (auto simp: reconcile_stolen_interrupts_def split: if_splits)
  note R = reconcile_rows_ok [OF ok sub rows]
  note I' = marked_exceptD [OF R(1) [unfolded interrupts_ok_def]]
  have "\<not> unsettled r" if r: "r \<in> set (interrupts w')" "ir_thread r = t" "ir_token r = prev" for r
  proof (cases "ir_outcome r")
    case None
    then have "interrupt_view r \<in> open_requests w'" using r(1) by (auto simp: open_requests_def)
    moreover from this obtain r0 where r0: "r0 \<in> set (interrupts w)" "ir_outcome r0 = None"
      "interrupt_view r = interrupt_view r0"
      using R(3) unfolding open_requests_def by blast
    have "ir_thread r0 = t" "ir_token r0 = prev" using r0(3) r(2,3) by (simp_all add: interrupt_view_def)
    then have "r0 \<in> set ?old" using r0(1,2) by (simp add: stolen_views unsettled_def)
    then have "interrupt_view r0 \<notin> open_requests w'" using R(4) r0(2) by blast
    ultimately show ?thesis using r0(3) by simp
  next
    case (Some out)
    have "row_marked (rq w') r" using I'(3) r(1) by simp
    then have "out = Applied \<longrightarrow> (\<exists>c. marker_of r = Some c)"
      using Some by (auto simp: row_marked_def split: option.splits)
    then show ?thesis
      using Some
      by (auto simp: unsettled_def marker_of_Some jget_def keys_def dest!: map_of_SomeD
          intro: rev_image_eqI split: option.splits)
  qed
  then have "set (stolen_interrupts w' t prev) = {}" unfolding stolen_views by blast
  moreover have "rr_count a = length ?old"
    using rows settle_rows_count
    by (fastforce simp: reconcile_interrupt_rows_def bind_ok_Inr map_ok_Inr no_reconcile_def)
  ultimately show ?thesis using R(2,5) by simp
qed

end
