(* ===== verification/Interrupt_Drain.thy ===== *)
theory Interrupt_Drain
  imports Interrupt_Behaviour
begin

text \<open>
  The owner's drain loop over the interrupts of one turn: every pass that goes on settles one
  pending request, so the loop ends; it is a run of the inbox; and it never signals a turn that is
  not the running one.
\<close>

section \<open>Waiting requests\<close>

definition waiting :: "world \<Rightarrow> uuid \<Rightarrow> int \<Rightarrow> int \<Rightarrow> interrupt_request set" where
  "waiting w t tok turn =
     {r \<in> set (interrupts w). ir_thread r = t \<and> ir_outcome r = None \<and> ir_token r = tok \<and> ir_turn r = turn}"

lemma finite_waiting [simp]: "finite (waiting w t tok turn)"
  by (simp add: waiting_def)

lemma fetched_waiting:
  "fetch_next_interrupt_request w t tok turn = Some r \<Longrightarrow> r \<in> waiting w t tok turn"
  by (auto simp: fetch_next_interrupt_request_def waiting_def dest: first_min_in split: if_splits)

lemma fetched_None:
  "interrupt_owner w t tok \<Longrightarrow> fetch_next_interrupt_request w t tok turn = None \<Longrightarrow> waiting w t tok turn = {}"
  by (auto simp: fetch_next_interrupt_request_def waiting_def filter_empty_conv split: if_splits)

lemma written_interrupts:
  "write_interrupt_receipt wr tok accepted stale sq kind params i w = Inr (n, w') \<Longrightarrow> interrupts w' = interrupts w"
  by (auto simp: write_interrupt_receipt_def Let_def elim!: insert_event_cases split: if_splits)

lemma stamp_waiting: "waiting (put_queue q (stamp_group t acc turn m w)) t' tok' turn' = waiting w t' tok' turn'"
  by (auto simp: waiting_def in_group_def split: if_splits intro: rev_image_eqI)

lemma put_waiting:
  assumes "distinct (map ir_id (interrupts w))" "x \<in> waiting w t tok turn" "ir_id x' = ir_id x" "ir_outcome x' \<noteq> None"
  shows "waiting (put_interrupt x' w) t tok turn = waiting w t tok turn - {x}"
proof -
  have "x \<in> set (interrupts w)" using assms(2) by (simp add: waiting_def)
  then have "set (interrupts (put_interrupt x' w)) = insert x' (set (interrupts w) - {x})"
    using set_put_interrupt [OF assms(1) _ assms(3)] by (simp add: put_interrupt_def)
  then show ?thesis using assms(4) by (auto simp: waiting_def)
qed

lemma finalize_waiting:
  assumes ok: "interrupts_ok w" and r: "r \<in> waiting w t tok turn"
    and fin: "finalize_interrupt_request p now (ir_id r) t tok (ir_turn r) out mode err accepted stale w = Inr (st, w')"
    and st: "st = Interrupt_Final out \<or> st = Interrupt_Terminal"
  shows "waiting w' t tok turn = waiting w t tok turn - {r}"
proof -
  have ids: "distinct (map ir_id (interrupts w))" using marked_exceptD(2) [OF ok [unfolded interrupts_ok_def]] .
  have rin: "r \<in> set (interrupts w)" "ir_outcome r = None" using r by (simp_all add: waiting_def)
  have found: "interrupt_of w (ir_id r) = Some r" using interrupt_of_member [OF ids rin(1)] .
  have "st \<noteq> Interrupt_Terminal"
    using fin found rin(2)
    by (auto simp: finalize_interrupt_request_def Let_def bind_ok_Inr split: if_splits option.splits)
  then have st: "st = Interrupt_Final out" using st by simp
  from fin show ?thesis
  proof (cases rule: interrupt_final_cases)
    case (settled x e req)
    let ?x = "terminal_interrupt now out (interrupt_result x out mode err) mode err req (ev_epoch e, ev_seq e) x"
    have x: "x = r" using settled(4) found by simp
    have put: "waiting (put_interrupt ?x w) t tok turn = waiting w t tok turn - {r}"
      using put_waiting [OF ids r, of ?x] by (simp add: x)
    show ?thesis
    proof (cases "out = Applied")
      case True
      then obtain res where "consume_applied_interrupt_input p now t tok req (ir_turn r) (ir_id r) Live (put_interrupt ?x w)
          = Inr (Some res, w')"
        using settled(11) by auto
      then show ?thesis
        by (cases rule: consume_cases) (simp_all only: stamp_waiting put option.distinct)
    next
      case False
      then show ?thesis using settled(11) put by simp
    qed
  next
    case refused
    then show ?thesis using st by blast
  qed
qed

section \<open>One pass\<close>

lemma settle_interrupt_cases:
  assumes "settle_interrupt p now t tok r v (s, w) = (d, s', w')"
  obtains (raised) x where "d = Drain_Raised x" "s' = s" "w' = w"
  | (settled) st out mode err where "v = (out, mode, err)" "d = Drain_Next" "s' = s"
      "finalize_interrupt_request p now (ir_id r) t tok (ir_turn r) out mode err None False w = Inr (st, w')"
      "st = Interrupt_Final out \<or> st = Interrupt_Terminal"
  | (blocked) st out mode err where "v = (out, mode, err)" "d = Drain_Blocked" "s' = s"
      "finalize_interrupt_request p now (ir_id r) t tok (ir_turn r) out mode err None False w = Inr (st, w')"
proof -
  obtain out mode err where v: "v = (out, mode, err)" by (metis surj_pair)
  show ?thesis
  proof (cases "finalize_interrupt_request p now (ir_id r) t tok (ir_turn r) out mode err None False w")
    case (Inl x)
    then show ?thesis using assms v by (intro raised [of x]) (auto simp: settle_interrupt_def)
  next
    case (Inr a)
    then obtain st w1 where "finalize_interrupt_request p now (ir_id r) t tok (ir_turn r) out mode err None False w
        = Inr (st, w1)"
      by (cases a) simp
    then show ?thesis
      using assms settled [OF v] blocked [OF v] by (auto simp: settle_interrupt_def v split: if_splits)
  qed
qed

definition unsignalled :: "turn_state \<Rightarrow> turn_state \<Rightarrow> bool" where
  "unsignalled s s' \<longleftrightarrow> s' = s\<lparr>ts_next_seq := ts_next_seq s'\<rparr>"

lemma interrupt_step_cases:
  assumes "interrupt_step p now wr t tok turn (s, w) = (d, s', w')"
  obtains (still) "d = Drain_Blocked" "unsignalled s s'" "w' = w"
  | (empty) "d = Drain_Empty" "s' = s" "w' = w" "waiting w t tok turn = {}"
  | (replayed) r v where "r \<in> waiting w t tok turn" "settle_interrupt p now t tok r v (s, w) = (d, s', w')"
  | (served) r mode s1 n w1 v where "r \<in> waiting w t tok turn" "signal_interrupt_for_turn turn s = (mode, s1)"
      "write_interrupt_receipt wr tok None False (ts_next_seq s1 + 1) (lit ''interrupt.ack'')
         (interrupt_params r mode) (ir_id r) w = Inr (n, w1)"
      "(d, s', w') = (Drain_Blocked, s1\<lparr>ts_next_seq := ts_next_seq s1 + 1\<rparr>, w1) \<or>
       settle_interrupt p now t tok r v (s1\<lparr>ts_next_seq := ts_next_seq s1 + 1\<rparr>, w1) = (d, s', w')"
  | (conflict) mode s1 where "signal_interrupt_for_turn turn s = (mode, s1)" "d = Drain_Blocked"
      "s' = s1\<lparr>ts_next_seq := ts_next_seq s1 + 1\<rparr>" "w' = w"
proof (cases "interrupt_owner w t tok")
  case False
  then show ?thesis using assms still by (simp add: interrupt_step_def unsignalled_def)
next
  case owner: True
  show ?thesis
  proof (cases "fetch_next_interrupt_request w t tok turn")
    case None
    then show ?thesis using assms owner empty fetched_None [OF owner] by (simp add: interrupt_step_def)
  next
    case (Some r)
    have r: "r \<in> waiting w t tok turn" "ir_turn r = turn"
      using fetched_waiting [OF Some] by (simp_all add: waiting_def)
    show ?thesis
    proof (cases "fetch_interrupt_receipt w t (ir_id r)")
      case receipt: (Some e)
      show ?thesis
      proof (cases "interrupt_verdict p r e")
        case None
        then show ?thesis using assms owner Some receipt still by (simp add: interrupt_step_def unsignalled_def)
      next
        case verdict: (Some v)
        then show ?thesis using assms owner Some receipt replayed [OF r(1)] by (simp add: interrupt_step_def)
      qed
    next
      case None
      obtain mode s1 where sig: "signal_interrupt_for_turn turn s = (mode, s1)" by (metis surj_pair)
      show ?thesis
      proof (cases "write_interrupt_receipt wr tok None False (ts_next_seq s1 + 1) (lit ''interrupt.ack'')
         (interrupt_params r mode) (ir_id r) w")
        case (Inl x)
        then show ?thesis using assms owner Some None sig r(2) conflict [OF sig] by (simp add: interrupt_step_def Let_def)
      next
        case (Inr a)
        then obtain n w1 where "write_interrupt_receipt wr tok None False (ts_next_seq s1 + 1) (lit ''interrupt.ack'')
         (interrupt_params r mode) (ir_id r) w = Inr (n, w1)" by (cases a) simp
        then show ?thesis
          using assms owner Some None sig r served [OF r(1) sig, of n w1]
          by (auto simp: interrupt_step_def Let_def split: if_splits)
      qed
    qed
  qed
qed

lemma settle_interrupt_run:
  assumes ok: "interrupts_ok w" and r: "r \<in> waiting w t tok turn"
    and settle: "settle_interrupt p now t tok r v (s, w) = (d, s', w')"
  shows "interrupt_run\<^sup>*\<^sup>* w w' \<and> s' = s \<and> d \<noteq> Drain_Empty \<and>
    (d = Drain_Next \<longrightarrow> waiting w' t tok turn = waiting w t tok turn - {r})"
  using settle
proof (cases rule: settle_interrupt_cases)
  case (settled st out mode err)
  then show ?thesis
    using finalize_waiting [OF ok r settled(4,5)] interrupt_run.finalized [OF settled(4)] by blast
next
  case (blocked st out mode err)
  then show ?thesis using interrupt_run.finalized [OF blocked(4)] by blast
qed simp

lemma interrupt_step_run:
  assumes ok: "interrupts_ok w" and step: "interrupt_step p now wr t tok turn (s, w) = (d, s', w')"
  shows "interrupt_run\<^sup>*\<^sup>* w w' \<and>
    (d = Drain_Next \<longrightarrow> (\<exists>r \<in> waiting w t tok turn. waiting w' t tok turn = waiting w t tok turn - {r})) \<and>
    (d = Drain_Empty \<longrightarrow> w' = w \<and> waiting w t tok turn = {})"
  using step
proof (cases rule: interrupt_step_cases)
  case (replayed r v)
  then show ?thesis using settle_interrupt_run [OF ok replayed] by blast
next
  case (served r mode s1 n w1 v)
  have run: "interrupt_run w w1" using served(3) by (rule interrupt_run.journalled)
  have same: "waiting w1 t tok turn = waiting w t tok turn"
    using written_interrupts [OF served(3)] by (simp add: waiting_def)
  have ok1: "interrupts_ok w1" using interrupt_run_ok [OF run ok] by simp
  from served(4) show ?thesis
  proof
    assume "(d, s', w') = (Drain_Blocked, s1\<lparr>ts_next_seq := ts_next_seq s1 + 1\<rparr>, w1)"
    then show ?thesis using run by auto
  next
    assume "settle_interrupt p now t tok r v (s1\<lparr>ts_next_seq := ts_next_seq s1 + 1\<rparr>, w1) = (d, s', w')"
    from settle_interrupt_run [OF ok1 served(1) [folded same] this] show ?thesis
      using run served(1) same by (metis converse_rtranclp_into_rtranclp)
  qed
qed simp_all

lemma signal_other_turn:
  "ts_turn s \<noteq> Some turn \<or> \<not> ts_open s \<Longrightarrow> signal_interrupt_for_turn turn s = (None, s)"
  by (auto simp: signal_interrupt_for_turn_def)

lemma step_other_turn:
  assumes "interrupt_step p now wr t tok turn (s, w) = (d, s', w')" "ts_turn s \<noteq> Some turn \<or> \<not> ts_open s"
    and ok: "interrupts_ok w"
  shows "unsignalled s s'"
  using assms(1)
proof (cases rule: interrupt_step_cases)
  case (replayed r v)
  then show ?thesis using settle_interrupt_run [OF ok replayed] by (simp add: unsignalled_def)
next
  case (served r mode s1 n w1 v)
  have s1: "s1 = s" using served(2) signal_other_turn [OF assms(2)] by simp
  have run: "interrupt_run w w1" using served(3) by (rule interrupt_run.journalled)
  have "waiting w1 t tok turn = waiting w t tok turn"
    using written_interrupts [OF served(3)] by (simp add: waiting_def)
  then have "s' = s1\<lparr>ts_next_seq := ts_next_seq s1 + 1\<rparr>"
    using served(1,4) settle_interrupt_run [of w1 r t tok turn p now v] interrupt_run_ok [OF run ok] by fastforce
  then show ?thesis by (simp add: s1 unsignalled_def)
next
  case (conflict mode s1)
  then show ?thesis using signal_other_turn [OF assms(2)] by (simp add: unsignalled_def)
qed (simp_all add: unsignalled_def)

section \<open>The loop\<close>

lemma drain_ends:
  "interrupts_ok w \<Longrightarrow> card (waiting w t tok turn) < k \<Longrightarrow>
   \<exists>d m s' w'. drain_thread_interrupts k p now wr t tok turn n (s, w) = Some (d, n + m, s', w') \<and>
     interrupt_run\<^sup>*\<^sup>* w w' \<and> m \<le> card (waiting w t tok turn) \<and> d \<noteq> Drain_Next \<and>
     (d = Drain_Empty \<longrightarrow> waiting w' t tok turn = {} \<and> m = card (waiting w t tok turn)) \<and>
     (ts_turn s \<noteq> Some turn \<or> \<not> ts_open s \<longrightarrow> unsignalled s s')"
proof (induction k arbitrary: n s w)
  case (Suc k)
  obtain d s1 w1 where step: "interrupt_step p now wr t tok turn (s, w) = (d, s1, w1)" by (metis surj_pair)
  note S = interrupt_step_run [OF Suc.prems(1) step]
  note U = step_other_turn [OF step _ Suc.prems(1)]
  have ok1: "interrupts_ok w1" using interrupt_runs_ok S Suc.prems(1) by blast
  show ?case
  proof (cases "d = Drain_Next")
    case True
    then obtain r where r: "r \<in> waiting w t tok turn" "waiting w1 t tok turn = waiting w t tok turn - {r}"
      using S by blast
    then have card: "card (waiting w t tok turn) = Suc (card (waiting w1 t tok turn))"
      by (metis card_Suc_Diff1 finite_waiting)
    then have "card (waiting w1 t tok turn) < k" using Suc.prems(2) by simp
    then obtain d' m s' w' where
      IH: "drain_thread_interrupts k p now wr t tok turn (Suc n) (s1, w1) = Some (d', Suc n + m, s', w')"
        "interrupt_run\<^sup>*\<^sup>* w1 w'" "m \<le> card (waiting w1 t tok turn)" "d' \<noteq> Drain_Next"
        "d' = Drain_Empty \<longrightarrow> waiting w' t tok turn = {} \<and> m = card (waiting w1 t tok turn)"
        "ts_turn s1 \<noteq> Some turn \<or> \<not> ts_open s1 \<longrightarrow> unsignalled s1 s'"
      using Suc.IH [OF ok1, of "Suc n" s1] by blast
    have "unsignalled s s'" if "ts_turn s \<noteq> Some turn \<or> \<not> ts_open s"
    proof -
      have s1: "s1 = s\<lparr>ts_next_seq := ts_next_seq s1\<rparr>" using U [OF that] unfolding unsignalled_def .
      then have "ts_turn s1 = ts_turn s" "ts_open s1 = ts_open s" by (metis turn_state.select_convs(1,2) turn_state.surjective turn_state.update_convs(8))+
      then have "s' = s1\<lparr>ts_next_seq := ts_next_seq s'\<rparr>" using IH(6) that unfolding unsignalled_def by simp
      then show ?thesis using s1 unfolding unsignalled_def by (metis turn_state.surjective turn_state.update_convs(8))
    qed
    then show ?thesis
      using step True IH(1-5) S card
      by (intro exI [of _ d'] exI [of _ "Suc m"] exI [of _ s'] exI [of _ w']) (auto intro: rtranclp_trans)
  next
    case False
    then have "drain_thread_interrupts (Suc k) p now wr t tok turn n (s, w) = Some (d, n + 0, s1, w1)"
      using step by (cases d) simp_all
    then show ?thesis
      using S U False by (intro exI [of _ d] exI [of _ 0] exI [of _ s1] exI [of _ w1]) auto
  qed
qed simp

text \<open>
  C18. The drain loop of the lease owner ends: with more fuel than pending requests it returns, it
  is a run of the inbox, and when it returns empty it has settled each pending request of the turn
  exactly once. When the turn is not the running one, nothing of the running turn is signalled.
\<close>
theorem interrupt_drain_ends:
  assumes run: "interrupt_run\<^sup>*\<^sup>* empty_world w" and fuel: "card (waiting w t tok turn) < k"
  shows "\<exists>d m s' w'. drain_thread_interrupts k p now wr t tok turn n (s, w) = Some (d, n + m, s', w') \<and>
     interrupt_run\<^sup>*\<^sup>* w w' \<and> m \<le> card (waiting w t tok turn) \<and> d \<noteq> Drain_Next \<and>
     (d = Drain_Empty \<longrightarrow> waiting w' t tok turn = {} \<and> m = card (waiting w t tok turn)) \<and>
     (ts_turn s \<noteq> Some turn \<or> \<not> ts_open s \<longrightarrow> s' = s\<lparr>ts_next_seq := ts_next_seq s'\<rparr>)"
  using drain_ends [OF _ fuel] interrupt_runs_ok [OF run empty_interrupts_ok]
  unfolding unsignalled_def by blast

end
