(* ===== verification/Interrupt_Witnesses.thy ===== *)
theory Interrupt_Witnesses
  imports Interrupt_Drain Control_Witnesses
begin

text \<open>
  A concrete session for the properties of the interrupt inbox: a leased turn advertises its gate,
  one interrupt is admitted and the runtime drains it; in another history the lease is stolen.
\<close>

definition turn_unit :: row where
  "turn_unit = (fresh_row 0 7 UNIT_KIND_SESSION_TURN 1)
     \<lparr>state := Leased, lease_token := 1, leased_by := Some ''pod'', leased_until := Some 60,
      input_seq := Some 5, interrupt_admission_lease_token := Some 1, interrupt_admission_turn_id := Some 4\<rparr>"

definition turn_message :: message where
  "turn_message = \<lparr>msg_id = 90, msg_thread = 7, msg_seq = 5, msg_rewound = False, msg_turn = Some 4,
     msg_role = ''human''\<rparr>"

definition turn_db :: "row \<Rightarrow> db" where
  "turn_db r = (insert_row empty_db r)\<lparr>messages := [turn_message]\<rparr>"

definition turn_world :: world where
  "turn_world = empty_world\<lparr>threads := [demo_session], rq := turn_db turn_unit\<rparr>"

definition turn_request :: interrupt_request where
  "turn_request = new_interrupt 31 0 7 21 4 turn_unit"

definition asked_world :: world where
  "asked_world = turn_world\<lparr>interrupts := [turn_request]\<rparr>"

definition turn_admission :: "int \<Rightarrow> world \<Rightarrow> string + admitted_interrupt \<times> world" where
  "turn_admission turn w = admit_thread_interrupt demo_py (\<lambda>_. (''sandbox'', None)) 31 0 7 (Some 3) 21 turn w"

lemma turn_unit_fields [simp]:
  "unit_id turn_unit = 7" "unit_kind turn_unit = UNIT_KIND_SESSION_TURN" "state turn_unit = Leased"
  "lease_token turn_unit = 1" "leased_by turn_unit = Some ''pod''" "leased_until turn_unit = Some 60"
  "input_seq turn_unit = Some 5" "consumed_seq turn_unit = None" "enqueue_ord turn_unit = 1"
  "interrupt_admission_lease_token turn_unit = Some 1" "interrupt_admission_turn_id turn_unit = Some 4"
  "dedup_key turn_unit = None"
  by (simp_all add: turn_unit_def fresh_row_def)

lemma turn_db_row: "unit_id r = 7 \<Longrightarrow> row_of (turn_db r) 7 = Some r"
  by (simp add: turn_db_def row_of_def insert_row_def empty_db_def)

lemma turn_db_ok: "row_ok r \<Longrightarrow> enqueue_ord r = 1 \<Longrightarrow> db_ok (turn_db r)"
  by (simp add: db_ok_def turn_db_def insert_row_def empty_db_def)

lemma turn_unit_ok: "row_ok turn_unit"
  by (simp add: row_ok_def lease_shape_def interrupt_shape_def) (simp add: turn_unit_def fresh_row_def)

lemma turn_world_lookup:
  "row_of (rq turn_world) 7 = Some turn_unit" "thread_of turn_world 7 = Some demo_session"
  "interrupts turn_world = []" "events turn_world = []"
  "row_of (rq asked_world) 7 = Some turn_unit" "thread_of asked_world 7 = Some demo_session"
  "interrupts asked_world = [turn_request]" "events asked_world = []"
  "messages (rq turn_world) = [turn_message]" "messages (rq asked_world) = [turn_message]"
  by (simp_all add: turn_world_def asked_world_def turn_db_row thread_of_def demo_session_def empty_world_def)
    (simp_all add: turn_db_def)

lemma turn_run: "interrupt_run\<^sup>*\<^sup>* empty_world turn_world"
proof -
  have "db_ok (turn_db turn_unit)" by (rule turn_db_ok [OF turn_unit_ok]) simp
  then have "interrupt_run empty_world turn_world"
    by (intro interrupt_run.elsewhere)
      (simp_all add: turn_world_def empty_world_def db_le_def row_of_def empty_db_def)
  then show ?thesis by blast
qed

lemma turn_gate: "gate_open 4 turn_unit"
proof -
  have "strip (lit ''pod'') \<noteq> []" by code_simp
  then show ?thesis by (simp add: gate_open_def)
qed

lemma turn_admits: "turn_admission 4 turn_world = Inr (interrupt_admitted turn_request False, asked_world)"
proof -
  have "interrupt_refusal demo_py (\<lambda>_. (''sandbox'', None)) demo_session = None"
    by (simp add: interrupt_refusal_def demo_session_def stateless_stop_markers_def keys_def)
  moreover have "th_user demo_session = Some 3" by (simp add: demo_session_def)
  ultimately show ?thesis
    using turn_gate
    by (simp add: turn_admission_def admit_thread_interrupt_def turn_world_lookup existing_interrupt_def
        turn_request_def asked_world_def Let_def)
qed

lemma asked_run: "interrupt_run\<^sup>*\<^sup>* empty_world asked_world"
proof -
  have "interrupt_of turn_world 31 = None" by (simp add: interrupt_of_def turn_world_lookup)
  then have "interrupt_run turn_world asked_world"
    using turn_admits unfolding turn_admission_def by (rule interrupt_run.admitted)
  then show ?thesis using turn_run by (rule rtranclp.rtrancl_into_rtrancl [rotated])
qed

definition turn_ack :: event where
  "turn_ack = \<lparr>ev_thread = 7, ev_epoch = 1, ev_seq = 1, ev_kind = lit ''interrupt.ack'',
     ev_payload = JObj (interrupt_params turn_request (Some (lit ''hard''))), ev_control = None,
     ev_interrupt = Some 31, ev_permission = None\<rparr>"

definition acked_world :: world where
  "acked_world = put_thread (demo_session\<lparr>th_events_hwm := 1\<rparr>) (asked_world\<lparr>events := [turn_ack]\<rparr>)"

lemma turn_request_fields [simp]:
  "ir_id turn_request = 31" "ir_thread turn_request = 7" "ir_client turn_request = 21" "ir_turn turn_request = 4"
  "ir_token turn_request = 1" "ir_outcome turn_request = None" "ir_result turn_request = []"
  by (simp_all add: turn_request_def new_interrupt_def)

lemma turn_owner: "interrupt_owner asked_world 7 1" "interrupt_owner acked_world 7 1"
proof -
  have "held 1 turn_unit" by (simp add: held_def)
  moreover have "thread_of acked_world 7 = Some (demo_session\<lparr>th_events_hwm := 1\<rparr>)"
    "rq acked_world = rq asked_world"
    using turn_world_lookup by (simp_all add: acked_world_def thread_of_put_thread) (simp_all add: demo_session_def thread_of_def)
  ultimately show "interrupt_owner asked_world 7 1" "interrupt_owner acked_world 7 1"
    using turn_world_lookup
    by (simp_all add: interrupt_owner_def live_lease_def) (simp_all add: demo_session_def)
qed

lemma turn_writes:
  "write_interrupt_receipt demo_writer 1 None False 1 (lit ''interrupt.ack'')
     (interrupt_params turn_request (Some (lit ''hard''))) 31 asked_world = Inr (1, acked_world)"
proof -
  have "lockable_interrupt asked_world 7 1 31"
    by (simp add: lockable_interrupt_def interrupt_of_def turn_world_lookup)
  then show ?thesis
    using turn_owner(1) turn_world_lookup
    by (simp add: write_interrupt_receipt_def demo_writer_def by_lease_def insert_event_def event_conflict_def
        acked_world_def turn_ack_def demo_session_def)
qed

lemma acked_run: "interrupt_run\<^sup>*\<^sup>* empty_world acked_world"
  using asked_run interrupt_run.journalled [OF turn_writes] by (rule rtranclp.rtrancl_into_rtrancl)

lemma turn_verdict: "interrupt_verdict demo_py turn_request turn_ack = Some (Applied, Some (lit ''hard''), None)"
proof -
  have "lit ''hard'' \<noteq> []" by (simp add: lit_def)
  then show ?thesis
  by (simp add: interrupt_verdict_def interrupt_receipt_result_def turn_ack_def interrupt_params_def
      interrupt_result_def json_object_def str_or_empty_def jget_def  py_str_def interrupt_modes_def Let_def)
qed

definition stopped_request :: interrupt_request where
  "stopped_request = terminal_interrupt 0 Applied
     (interrupt_result turn_request Applied (Some (lit ''hard'')) None) (Some (lit ''hard'')) None 1 (1, 1) turn_request"

definition stopped_world :: world where
  "stopped_world = put_queue (settle_input_eff Live 0 5 turn_unit)
     (stamp_group 7 1 4 (input_marker Live 1 1 5) (put_interrupt stopped_request acked_world))"

lemma acked_lookup:
  "row_of (rq acked_world) 7 = Some turn_unit" "interrupts acked_world = [turn_request]"
  "events acked_world = [turn_ack]" "thread_of acked_world 7 = Some (demo_session\<lparr>th_events_hwm := 1\<rparr>)"
  "messages (rq acked_world) = [turn_message]" "queue (rq acked_world) = [turn_unit]"
proof -
  show "thread_of acked_world 7 = Some (demo_session\<lparr>th_events_hwm := 1\<rparr>)"
    using turn_world_lookup(6)
    by (simp add: acked_world_def thread_of_put_thread) (simp add: demo_session_def thread_of_def)
  show "row_of (rq acked_world) 7 = Some turn_unit" "interrupts acked_world = [turn_request]"
    "messages (rq acked_world) = [turn_message]"
    using turn_world_lookup by (simp_all add: acked_world_def)
  show "events acked_world = [turn_ack]" by (simp add: acked_world_def)
  show "queue (rq acked_world) = [turn_unit]"
    by (simp add: acked_world_def asked_world_def turn_world_def turn_db_def insert_row_def empty_db_def)
qed

lemma stopped_fields [simp]:
  "ir_id stopped_request = 31" "ir_thread stopped_request = 7" "ir_token stopped_request = 1"
  "ir_turn stopped_request = 4" "ir_outcome stopped_request = Some Applied"
  "jget (ir_result stopped_request) consumed_key = JNull"
  by (simp_all add: stopped_request_def interrupt_result_unmarked)

lemma turn_consumes:
  "consume_applied_interrupt_input demo_py 0 7 1 1 4 31 Live (put_interrupt stopped_request acked_world)
   = Inr (Some (consumption_of True (settle_input_eff Live 0 5 turn_unit)), stopped_world)"
proof -
  let ?w = "put_interrupt stopped_request acked_world"
  have is': "interrupts ?w = [stopped_request]" by (simp add: put_interrupt_def put_by_def acked_lookup)
  have th: "stateless_thread ?w 7"
    using acked_lookup(4) by (simp add: stateless_thread_def thread_of_def demo_session_def)
  have "consumed_input demo_py ?w 7 4 [stopped_request] turn_unit = Inr (5, True)"
    by (simp add: consumed_input_def human_inputs_def acked_lookup turn_message_def)
  moreover have "settle_guard Live 1 turn_unit" by (simp add: settle_guard_def)
  moreover have "in_group 7 1 4 stopped_request" by (simp add: in_group_def)
  ultimately show ?thesis
    using th is' acked_lookup(1,6)
    by (simp add: consume_applied_interrupt_input_def dedup_conflict_def same_dedup_def stopped_world_def Let_def)
qed

lemma turn_finalizes:
  "finalize_interrupt_request demo_py 0 31 7 1 4 Applied (Some (lit ''hard'')) None None False acked_world
   = Inr (Interrupt_Final Applied, stopped_world)"
proof -
  have "fetch_interrupt_receipt acked_world 7 31 = Some turn_ack"
    by (simp add: fetch_interrupt_receipt_def acked_lookup turn_ack_def)
  moreover have "interrupt_of acked_world 31 = Some turn_request"
    by (simp add: interrupt_of_def acked_lookup)
  moreover have "ev_epoch turn_ack = 1" "ev_seq turn_ack = 1" by (simp_all add: turn_ack_def)
  ultimately show ?thesis
    using turn_owner(2) turn_verdict turn_consumes
    by (simp add: finalize_interrupt_request_def terminal_fields_ok_def interrupt_modes_def
        consume_applied_interrupt_input_live_def stopped_request_def [symmetric])
qed

lemma stopped_run: "interrupt_run\<^sup>*\<^sup>* empty_world stopped_world"
  using acked_run interrupt_run.finalized [OF turn_finalizes] by (rule rtranclp.rtrancl_into_rtrancl)

section \<open>A stolen lease\<close>

definition stolen_row :: row where
  "stolen_row = turn_unit\<lparr>state := Queued, lease_token := 2, leased_by := None, leased_until := None,
     interrupt_admission_lease_token := None, interrupt_admission_turn_id := None\<rparr>"

definition stolen_world :: world where
  "stolen_world = asked_world\<lparr>rq := turn_db stolen_row\<rparr>"

definition demo_stolen :: stolen_unit where
  "demo_stolen = \<lparr>su_unit_id = 7, su_unit_kind = UNIT_KIND_SESSION_TURN, su_state = Queued, su_attempts = 1,
     su_leased_by = Some ''pod'', su_lease_token = 2, su_previous_lease_token = Some 1,
     su_interrupt_turn = Some 4, su_lifecycle_journaled = False\<rparr>"

lemma stolen_row_fields [simp]:
  "unit_id stolen_row = 7" "unit_kind stolen_row = UNIT_KIND_SESSION_TURN" "state stolen_row = Queued"
  "lease_token stolen_row = 2" "leased_by stolen_row = None" "leased_until stolen_row = None"
  "consumed_seq stolen_row = None" "enqueue_ord stolen_row = 1" "dedup_key stolen_row = None"
  by (simp_all add: stolen_row_def)

lemma stolen_lookup:
  "row_of (rq stolen_world) 7 = Some stolen_row" "interrupts stolen_world = [turn_request]"
  "events stolen_world = []" "thread_of stolen_world 7 = Some demo_session"
  "messages (rq stolen_world) = [turn_message]" "queue (rq stolen_world) = [stolen_row]"
proof -
  show "thread_of stolen_world 7 = Some demo_session"
    using turn_world_lookup(6) by (simp add: stolen_world_def thread_of_def)
qed (simp_all add: stolen_world_def row_of_def asked_world_def turn_world_def empty_world_def turn_db_def
      insert_row_def empty_db_def)

lemma stolen_run: "interrupt_run\<^sup>*\<^sup>* empty_world stolen_world"
proof -
  have "row_ok stolen_row"
    using turn_unit_ok by (simp add: row_ok_def lease_shape_def interrupt_shape_def) (simp add: stolen_row_def)
  then have "db_ok (turn_db stolen_row)" by (rule turn_db_ok) simp
  moreover have "db_le (rq asked_world) (turn_db stolen_row)"
  proof -
    have "row_le turn_unit stolen_row" by (simp add: row_le_def) (simp add: stolen_row_def)
    moreover have "row_of (rq asked_world) u = (if u = 7 then Some turn_unit else None)"
      "row_of (turn_db stolen_row) u = (if u = 7 then Some stolen_row else None)" for u
      by (simp_all add: asked_world_def turn_world_def turn_db_def row_of_def insert_row_def empty_db_def)
    ultimately show ?thesis by (simp add: db_le_def)
  qed
  ultimately have "interrupt_run asked_world stolen_world"
    by (intro interrupt_run.elsewhere) (simp_all add: stolen_world_def)
  then show ?thesis using asked_run by (rule rtranclp.rtrancl_into_rtrancl [rotated])
qed

lemma stolen_verdict:
  "\<exists>w. owner_loss_verdict demo_py 7 (lit ''lease_expired'') (turn_request, None) stolen_world
      = Inr (((Applied, Some (lit ''hard''), None),
               owner_lost_params turn_request (lit ''lease_expired''), 1, 1), w) \<and>
    rq w = rq stolen_world \<and> interrupts w = [turn_request] \<and> stateless_thread w 7"
proof -
  let ?e = "\<lparr>ev_thread = 7, ev_epoch = 1, ev_seq = 1, ev_kind = lit ''interrupt.ack'',
    ev_payload = JObj (owner_lost_params turn_request (lit ''lease_expired'')), ev_control = None,
    ev_interrupt = Some 31, ev_permission = None\<rparr>"
  let ?w = "put_thread (demo_session\<lparr>th_events_hwm := 1\<rparr>) (stolen_world\<lparr>events := [?e]\<rparr>)"
  have session: "th_events_hwm demo_session = 0" "th_epoch demo_session = 1" by (simp_all add: demo_session_def)
  have "append_system_frame 7 (lit ''interrupt.ack'') (owner_lost_params turn_request (lit ''lease_expired''))
      (Some 31) None stolen_world = Inr (Some (1, 1), ?w)"
    using stolen_lookup by (simp add: append_system_frame_def event_conflict_def session)
  moreover have "thread_of (stolen_world\<lparr>events := [?e]\<rparr>) 7 = Some demo_session"
    using stolen_lookup(4) by (simp add: thread_of_def)
  then have "thread_of ?w 7 = Some (demo_session\<lparr>th_events_hwm := 1\<rparr>)"
    by (simp add: thread_of_put_thread) (simp add: demo_session_def)
  then have "stateless_thread ?w 7" by (simp add: stateless_thread_def) (simp add: demo_session_def)
  ultimately show ?thesis
    using stolen_lookup by (intro exI [of _ ?w]) (simp add: owner_loss_verdict_def)
qed

lemma stolen_reconciles:
  "\<exists>a w. reconcile_stolen_interrupts demo_py 0 7 demo_stolen stolen_world = Inr (a, w)"
proof -
  let ?d = "owner_lost_params turn_request (lit ''lease_expired'')"
  let ?x = "terminal_interrupt 0 Applied ?d (Some (lit ''hard'')) None 1 (1, 1) turn_request"
  obtain w where w: "owner_loss_verdict demo_py 7 (lit ''lease_expired'') (turn_request, None) stolen_world
      = Inr (((Applied, Some (lit ''hard''), None), ?d, 1, 1), w)"
    "rq w = rq stolen_world" "interrupts w = [turn_request]" "stateless_thread w 7"
    using stolen_verdict by blast
  let ?w = "put_interrupt ?x w"
  have "terminalize_stolen 0 7 turn_request ((Applied, Some (lit ''hard''), None), ?d, 1, 1) w = Inr ?w"
    by (simp add: terminalize_stolen_def interrupt_of_def w(3))
  then have rows: "settle_rows demo_py 0 7 (lit ''lease_expired'') [(turn_request, None)] (no_reconcile, [], stolen_world)
      = Inr (count_row turn_request no_reconcile, [(1, 4, 31)], ?w)"
    by (simp add: w(1))
  have "jget ?d consumed_key = JNull" by (simp add: owner_lost_params_def consumed_key_def jget_def)
  then have "consumed_input demo_py ?w 7 4 [?x] stolen_row = Inr (5, True)"
    using w(2) stolen_lookup by (simp add: consumed_input_def human_inputs_def turn_message_def)
  moreover have "settle_guard Idle 2 stolen_row" by (simp add: settle_guard_def)
  moreover have "in_group 7 1 4 ?x" by (simp add: in_group_def)
  moreover have "stateless_thread ?w 7" using w(4) by (simp add: stateless_thread_def thread_of_def)
  moreover have "interrupts ?w = [?x]" by (simp add: put_interrupt_def put_by_def w(3))
  moreover have "\<not> dedup_conflict (queue (rq ?w)) (settle_input_eff Idle 0 5 stolen_row)"
    using stolen_lookup(6) w(2) by (simp add: dedup_conflict_def same_dedup_def)
  ultimately have "\<exists>c w'. consume_applied_interrupt_input_idle demo_py 0 7 2 1 4 31 False ?w = Inr (Some c, w')"
    using stolen_lookup(1) w(2)
    by (simp add: consume_applied_interrupt_input_idle_def consume_applied_interrupt_input_def Let_def)
  then obtain c w' where "consume_applied_interrupt_input_idle demo_py 0 7 2 1 4 31 False ?w = Inr (Some c, w')"
    by blast
  then show ?thesis
    using rows
    by (simp add: reconcile_stolen_interrupts_def demo_stolen_def reconcile_interrupt_rows_def
        stolen_interrupts_def stolen_lookup unsettled_def fetch_interrupt_receipt_def map_ok_def)
qed

section \<open>The properties at this session\<close>

definition demo_turn :: turn_state where
  "demo_turn = \<lparr>ts_turn = Some 9, ts_open = True, ts_tool_inflight = False, ts_mode = None, ts_target = None,
     ts_user_cause = False, ts_hard_event = False, ts_next_seq = 0\<rparr>"

lemma stopped_members: "\<exists>r \<in> set (interrupts stopped_world). ir_id r = 31 \<and> ir_thread r = 7 \<and>
    ir_token r = 1 \<and> ir_turn r = 4 \<and> ir_outcome r = Some Applied \<and> marker_of r = Some 5"
proof -
  have "in_group 7 1 4 stopped_request" by (simp add: in_group_def)
  then have "interrupts stopped_world = [stopped_request\<lparr>ir_result := merged (ir_result stopped_request) (input_marker Live 1 1 5)\<rparr>]"
    by (simp add: stopped_world_def put_interrupt_def put_by_def acked_lookup)
  then show ?thesis by (simp add: marker_stamped)
qed

theorem interrupted_input_is_consumed_once_witness:
  "\<exists>q c. row_of (rq stopped_world) 7 = Some q \<and> Some c \<le> consumed_seq q"
proof -
  obtain r where r: "r \<in> set (interrupts stopped_world)" "ir_thread r = 7" "ir_outcome r = Some Applied"
    using stopped_members by blast
  show ?thesis
    using interrupted_input_is_consumed_once [OF stopped_run rtranclp.rtrancl_refl r(1,3)] r(2) by auto
qed

theorem interrupt_settles_from_its_receipt_witness:
  "human_inputs acked_world 7 4 = [5] \<and>
   row_of (rq stopped_world) 7 = Some (turn_unit\<lparr>consumed_seq := Some 5, attempts_since_completion := 0\<rparr>)"
proof -
  have "{y \<in> set (interrupts acked_world). in_group 7 1 4 y} = {}"
    by (auto simp: acked_lookup in_group_def)
  moreover have "human_inputs acked_world 7 4 = [5]" by (simp add: human_inputs_def acked_lookup turn_message_def)
  ultimately show ?thesis
    using interrupt_settles_from_its_receipt [OF acked_run turn_finalizes] by (auto simp: acked_lookup)
qed

theorem lost_lease_settles_no_interrupt_witness:
  "fetch_next_interrupt_request stolen_world 7 1 4 = None \<and>
   drain_thread_interrupts 1 demo_py 0 demo_writer 7 1 4 2 (demo_turn, stolen_world)
     = Some (Drain_Blocked, 2, demo_turn, stolen_world)"
proof -
  have "token_dead (rq stolen_world) (wr_thread demo_writer) 1"
    by (simp add: token_dead_def demo_writer_def stolen_lookup)
  from lost_lease_settles_no_interrupt [OF this, of 4] show ?thesis
    by (simp add: demo_writer_def numeral_eq_Suc)
qed

theorem interrupt_admission_is_pinned_and_idempotent_witness:
  "turn_admission 5 asked_world = Inl ''different_turn'' \<and>
   (\<exists>b. turn_admission 4 asked_world = Inr (b, asked_world) \<and> ai_token b = 1 \<and> ai_duplicate b)"
proof -
  have new: "interrupt_of turn_world 31 = None" by (simp add: interrupt_of_def turn_world_lookup)
  have "\<not> ai_duplicate (interrupt_admitted turn_request False)" "th_user demo_session = Some 3"
    by (simp_all add: interrupt_admitted_def demo_session_def)
  then show ?thesis
    using interrupt_admission_is_pinned_and_idempotent [OF turn_run new turn_admits [unfolded turn_admission_def] _
        rtranclp.rtrancl_refl turn_world_lookup(6), where turn' = 5 and j = 31]
      interrupt_admission_is_pinned_and_idempotent [OF turn_run new turn_admits [unfolded turn_admission_def] _
        rtranclp.rtrancl_refl turn_world_lookup(6), where turn' = 4 and j = 31]
    by (fastforce simp: turn_admission_def turn_world_lookup)
qed

theorem steal_leaves_no_open_interrupt_witness:
  "length (stolen_interrupts stolen_world 7 1) = 1 \<and>
   (\<exists>a w. reconcile_stolen_interrupts demo_py 0 7 demo_stolen stolen_world = Inr (a, w) \<and> rr_count a = 1 \<and>
     stolen_interrupts w 7 1 = [])"
proof -
  obtain a w where rec: "reconcile_stolen_interrupts demo_py 0 7 demo_stolen stolen_world = Inr (a, w)"
    using stolen_reconciles by blast
  have one: "length (stolen_interrupts stolen_world 7 1) = 1"
    by (simp add: stolen_interrupts_def stolen_lookup unsettled_def)
  have "su_previous_lease_token demo_stolen = Some 1" by (simp add: demo_stolen_def)
  then show ?thesis using steal_leaves_no_open_interrupt [OF stolen_run rec] rec one by auto
qed

theorem interrupt_drain_ends_witness:
  "\<exists>d m s w. drain_thread_interrupts 2 demo_py 0 demo_writer 7 1 4 0 (demo_turn, asked_world)
     = Some (d, m, s, w) \<and> \<not> ts_hard_event s"
proof -
  have "waiting asked_world 7 1 4 = {turn_request}" by (auto simp: waiting_def turn_world_lookup)
  then have "card (waiting asked_world 7 1 4) < 2" by simp
  from interrupt_drain_ends [OF asked_run this, of demo_py 0 demo_writer 0 demo_turn]
  obtain d m s w where d: "drain_thread_interrupts 2 demo_py 0 demo_writer 7 1 4 0 (demo_turn, asked_world)
      = Some (d, 0 + m, s, w)"
    "ts_turn demo_turn \<noteq> Some 4 \<or> \<not> ts_open demo_turn \<longrightarrow> s = demo_turn\<lparr>ts_next_seq := ts_next_seq s\<rparr>"
    by blast
  have "ts_turn demo_turn \<noteq> Some 4" by (simp add: demo_turn_def)
  then have "s = demo_turn\<lparr>ts_next_seq := ts_next_seq s\<rparr>" using d(2) by simp
  moreover have "\<not> ts_hard_event (demo_turn\<lparr>ts_next_seq := k\<rparr>)" for k by (simp add: demo_turn_def)
  ultimately have "\<not> ts_hard_event s" by metis
  then show ?thesis using d(1) by auto
qed

section \<open>A waiting event delivery\<close>

text \<open>
  The idle settlement decides between queued and done from the inputs and the controls alone: a
  unit becomes done while an event delivery of its thread waits.
\<close>

definition event_world :: world where
  "event_world = stolen_world\<lparr>interrupts := [stopped_request],
     rq := (rq stolen_world)\<lparr>
       messages := [turn_message, \<lparr>msg_id = 91, msg_thread = 7, msg_seq = 6, msg_rewound = False,
         msg_turn = None, msg_role = ''event''\<rparr>],
       deliveries := [\<lparr>dlv_message = 91, dlv_thread = 7, dlv_lane = ''stateless'', dlv_state = ''queued'',
         dlv_owner_token = None\<rparr>]\<rparr>\<rparr>"

theorem idle_settlement_skips_deliveries:
  "\<exists>res w. consume_applied_interrupt_input_idle demo_py 0 7 2 1 4 31 False event_world = Inr (Some res, w) \<and>
     ic_state res = Done \<and> delivery_pending (rq w) 7 \<and>
     map_option state (row_of (rq w) 7) = Some Done"
proof -
  have row: "row_of (rq event_world) 7 = Some stolen_row" "queue (rq event_world) = [stolen_row]"
    using stolen_lookup(1,6) by (simp_all add: event_world_def row_of_def)
  have "consumed_input demo_py event_world 7 4 [stopped_request] stolen_row = Inr (5, True)"
    by (simp add: consumed_input_def human_inputs_def event_world_def turn_message_def)
  moreover have "settle_guard Idle 2 stolen_row" by (simp add: settle_guard_def)
  moreover have "in_group 7 1 4 stopped_request" by (simp add: in_group_def)
  moreover have "stateless_thread event_world 7"
    using stolen_lookup(4) by (simp add: event_world_def stateless_thread_def thread_of_def) (simp add: demo_session_def)
  moreover have "interrupts event_world = [stopped_request]" by (simp add: event_world_def)
  moreover have "\<not> dedup_conflict (queue (rq event_world)) (settle_input_eff Idle 0 5 stolen_row)"
    using row(2) by (simp add: dedup_conflict_def same_dedup_def)
  ultimately have step: "consume_applied_interrupt_input_idle demo_py 0 7 2 1 4 31 False event_world
      = Inr (Some (consumption_of True (settle_input_eff Idle 0 5 stolen_row)),
          put_queue (settle_input_eff Idle 0 5 stolen_row)
            (stamp_group 7 1 4 (input_marker Idle 2 1 5) event_world))"
    using row(1)
    by (simp add: consume_applied_interrupt_input_idle_def consume_applied_interrupt_input_def Let_def)
  have "state (settle_input_eff Idle 0 5 stolen_row) = Done"
    by (simp add: settle_input_eff_def stolen_row_def control_pending_def)
      (simp add: turn_unit_def fresh_row_def)
  moreover have "delivery_pending (store (rq event_world) r) 7" for r
    by (simp add: delivery_pending_def event_world_def store_def)
  ultimately show ?thesis
    using step row(1) by (simp add: consumption_of_def row_of_store)
qed

end
