(* ===== verification/Steal_Journal.thy ===== *)
theory Steal_Journal
  imports Session_Retirement
begin

text \<open>
  What the orchestrator writes when a session loses its lease: the prompts of the old owner
  expire (\<^verbatim>\<open>src/shared/session_permission_retirement.py\<close>), its interrupts are settled, and
  lifecycle frames go to the event journal
  (\<^verbatim>\<open>src/orchestrator/services/run_queue_reaper.py\<close>). Each entry point is one transaction.
\<close>

section \<open>Retirement of permission prompts\<close>

definition retire_reasons :: "pytext list" where
  "retire_reasons = [lit ''lease_expired'', lit ''force_end'']"

definition stale_permissions :: "world \<Rightarrow> uuid \<Rightarrow> int \<Rightarrow> permission_request list" where
  "stale_permissions w t succ =
     sort_key (\<lambda>r. (pr_token r, pr_requested_at r, pr_id r))
       (filter (\<lambda>r. pr_thread r = t \<and> pr_status r = ''pending'' \<and>
                    (case pr_token r of None \<Rightarrow> True | Some k \<Rightarrow> 0 < k \<and> k < succ)) (permissions w))"

definition permission_of :: "world \<Rightarrow> uuid \<Rightarrow> permission_request option" where
  "permission_of w i = find_by pr_id i (permissions w)"

definition put_permission :: "permission_request \<Rightarrow> world \<Rightarrow> world" where
  "put_permission r w = w\<lparr>permissions := put_by pr_id r (permissions w)\<rparr>"

record retired_permission =
  rp_request :: uuid
  rp_tool_call :: pytext
  rp_epoch :: int
  rp_seq :: int

definition expired_permission :: "secs \<Rightarrow> pytext \<Rightarrow> permission_request \<Rightarrow> permission_request" where
  "expired_permission now reason r =
     r\<lparr>pr_status := ''expired'', pr_decided_at := Some now, pr_decided_by := Some (lit ''system/'' @ reason)\<rparr>"

definition resolved_params :: "permission_request \<Rightarrow> pytext \<Rightarrow> fields" where
  "resolved_params r reason =
     [(lit ''id'', JStr (pr_tool_call r)), (lit ''approval_id'', JStr (uuid_text (pr_id r))),
      (lit ''decision'', JStr (lit ''expired'')), (lit ''reason'', JStr reason),
      (lit ''accepted_lease_token'', case pr_token r of None \<Rightarrow> JNull | Some k \<Rightarrow> JInt k),
      (lit ''legacy_unbound'', JBool (pr_token r = None))]"

fun expire_permissions ::
  "secs \<Rightarrow> uuid \<Rightarrow> pytext \<Rightarrow> permission_request list \<Rightarrow> retired_permission list \<times> world
   \<Rightarrow> exn + retired_permission list \<times> world" where
  "expire_permissions now t reason [] s = Inr s"
| "expire_permissions now t reason (c # cs) (receipts, w) =
     (case permission_of w (pr_id c) of None \<Rightarrow> Inl Exn_Runtime
      | Some r \<Rightarrow>
          if pr_thread r \<noteq> t \<or> pr_token r \<noteq> pr_token c \<or> pr_status r \<noteq> ''pending'' \<or>
             pr_tool_call r \<noteq> pr_tool_call c
          then Inl Exn_Runtime
          else bind_ok (append_system_frame t (lit ''permission.resolved'') (resolved_params c reason) None
                          (Some (pr_id c)) (put_permission (expired_permission now reason r) w))
            (\<lambda>(pos, w'). case pos of None \<Rightarrow> Inl Exn_Runtime
              | Some (ep, sq) \<Rightarrow>
                  expire_permissions now t reason cs
                    (receipts @ [\<lparr>rp_request = pr_id c, rp_tool_call = pr_tool_call c, rp_epoch = ep,
                                  rp_seq = sq\<rparr>], w')))"

text \<open>The receipts and whether the epoch was bumped.\<close>

definition retire_stale_stateless_permissions ::
  "secs \<Rightarrow> uuid \<Rightarrow> int \<Rightarrow> int \<Rightarrow> pytext \<Rightarrow> bool \<Rightarrow> world \<Rightarrow> exn + (retired_permission list \<times> bool) \<times> world" where
  "retire_stale_stateless_permissions now t retired succ reason bumped w =
     (if retired < 0 \<or> succ \<noteq> retired + 1 then Inl Exn_Value
      else if reason \<notin> set retire_reasons then Inl Exn_Value
      else let pending = stale_permissions w t succ in
        if pending = [] then Inr (([], False), w)
        else map_ok (\<lambda>(receipts, w'). ((receipts, \<not> bumped), w'))
               (expire_permissions now t reason pending ([], if bumped then w else snd (bump_epoch t w))))"

section \<open>Lifecycle frames\<close>

definition turn_frame_payload ::
  "int \<Rightarrow> pytext option \<Rightarrow> reconcile_result \<Rightarrow> int option \<Rightarrow> pytext \<Rightarrow> fields" where
  "turn_frame_payload attempts stolen_from rr fallback reason =
     (let target = (\<lambda>n. [(lit ''target_turn_id'', JInt n), (lit ''turn_id'', JInt n)]) in
      [(lit ''reason'', JStr reason), (lit ''attempts'', JInt attempts),
       (lit ''stolen_from'', case stolen_from of None \<Rightarrow> JNull | Some s \<Rightarrow> JStr s)]
      @ (case rr_turns rr of
           [n] \<Rightarrow> target n
         | [] \<Rightarrow> (case fallback of None \<Rightarrow> [] | Some n \<Rightarrow> target n)
         | ns \<Rightarrow> [(lit ''target_turn_ids'', JList (map JInt ns))])
      @ (case rr_ids rr of [i] \<Rightarrow> [(lit ''interrupt_request_id'', JStr (uuid_text i))] | _ \<Rightarrow> [])
      @ (if rr_ids rr = [] then []
         else [(lit ''interrupt_request_ids'', JList (map (JStr \<circ> uuid_text) (rr_ids rr)))]))"

definition turn_frame_slices :: "reconcile_result \<Rightarrow> reconcile_result list" where
  "turn_frame_slices rr =
     (if rr_by_target rr = [] then [rr]
      else map (\<lambda>(n, ids). \<lparr>rr_count = length ids, rr_turns = [n], rr_ids = ids, rr_state = rr_state rr,
                             rr_by_target = [(n, ids)]\<rparr>) (rr_by_target rr))"

fun append_frames :: "uuid \<Rightarrow> pytext \<Rightarrow> fields list \<Rightarrow> world \<Rightarrow> exn + world" where
  "append_frames t kind [] w = Inr w"
| "append_frames t kind (d # ds) w =
     bind_ok (append_system_frame t kind d None None w)
       (\<lambda>(pos, w'). if pos = None then Inl Exn_Runtime else append_frames t kind ds w')"

definition append_turn_frames ::
  "uuid \<Rightarrow> pytext \<Rightarrow> int \<Rightarrow> pytext option \<Rightarrow> reconcile_result \<Rightarrow> int option \<Rightarrow> pytext \<Rightarrow> world \<Rightarrow> exn + world" where
  "append_turn_frames t kind attempts stolen_from rr fallback reason w =
     append_frames t kind
       (map (\<lambda>s. turn_frame_payload attempts stolen_from s fallback reason) (turn_frame_slices rr)) w"

definition steal_frame_kind :: "qstate \<Rightarrow> reconcile_result \<Rightarrow> pytext" where
  "steal_frame_kind st rr =
     (if st = Queued \<or> rr_state rr \<in> {Some Done, Some Queued} then lit ''turn.interrupted''
      else lit ''turn.parked'')"

section \<open>The journal of a steal\<close>

datatype journal_result = Written | Skipped_Successor_Claimed | Skipped_Queue_Changed

definition post_steal_queue_result :: "thread option \<Rightarrow> row option \<Rightarrow> stolen_unit \<Rightarrow> journal_result" where
  "post_steal_queue_result th_opt q_opt unit =
     (if (case q_opt of None \<Rightarrow> False | Some q \<Rightarrow> state q = Leased \<and> su_lease_token unit < lease_token q)
      then Skipped_Successor_Claimed
      else case (th_opt, q_opt) of
        (Some th, Some q) \<Rightarrow>
          if th_lane th \<noteq> LANE_STATELESS \<or> th_agent th \<noteq> None \<or> unit_kind q \<noteq> UNIT_KIND_SESSION_TURN \<or>
             state q \<notin> {Queued, Parked} \<or> state q \<noteq> su_state unit \<or> lease_token q \<noteq> su_lease_token unit \<or>
             leased_by q \<noteq> None
          then Skipped_Queue_Changed else Written
      | _ \<Rightarrow> Skipped_Queue_Changed)"

text \<open>
  The part the two steal paths share: prompts, interrupts and frames under the bumped epoch.
\<close>

definition journal_loss ::
  "py \<Rightarrow> secs \<Rightarrow> uuid \<Rightarrow> stolen_unit \<Rightarrow> world \<Rightarrow> exn + reconcile_result \<times> world" where
  "journal_loss p now t unit w =
     (case su_previous_lease_token unit of None \<Rightarrow> Inl Exn_Type
      | Some prev \<Rightarrow>
          bind_ok (retire_stale_stateless_permissions now t prev (su_lease_token unit) (lit ''lease_expired'')
                     True (snd (bump_epoch t w))) (\<lambda>(_, w1).
          bind_ok (reconcile_stolen_interrupts p now t unit w1) (\<lambda>(rr, w2).
          map_ok (\<lambda>w3. (rr, w3))
            (append_turn_frames t (steal_frame_kind (su_state unit) rr) (su_attempts unit)
               (map_option lit (su_leased_by unit)) rr (su_interrupt_turn unit) (lit ''lease_expired'') w2))))"

definition journal_steal :: "py \<Rightarrow> secs \<Rightarrow> stolen_unit \<Rightarrow> world \<Rightarrow> exn + journal_result \<times> world" where
  "journal_steal p now unit w =
     (let t = su_unit_id unit; r = post_steal_queue_result (thread_of w t) (row_of (rq w) t) unit in
      if r \<noteq> Written then Inr (r, w)
      else map_ok (\<lambda>(_, w'). (Written, w')) (journal_loss p now t unit w))"

section \<open>Repair of failed settlements\<close>

definition queue_allows_stale_retry :: "row option \<Rightarrow> bool" where
  "queue_allows_stale_retry q_opt =
     (case q_opt of None \<Rightarrow> False
      | Some q \<Rightarrow> unit_kind q = UNIT_KIND_SESSION_TURN \<and> state q = Parked \<and> leased_by q = None)"

definition pending_stale_interrupts :: "world \<Rightarrow> uuid \<Rightarrow> int \<Rightarrow> interrupt_request list" where
  "pending_stale_interrupts w t tok =
     (if stateless_thread w t
      then sort_key (\<lambda>r. (ir_requested_at r, ir_id r))
             (filter (\<lambda>r. ir_thread r = t \<and> unsettled r \<and> ir_token r < tok) (interrupts w))
      else [])"

definition sole_owner :: "interrupt_request list \<Rightarrow> pytext option" where
  "sole_owner rs = (case remdups (map ir_leased_by rs) of [s] \<Rightarrow> Some s | _ \<Rightarrow> None)"

definition retry_stale_interrupt_thread :: "py \<Rightarrow> secs \<Rightarrow> uuid \<Rightarrow> world \<Rightarrow> exn + nat \<times> world" where
  "retry_stale_interrupt_thread p now t w =
     (case thread_of w t of None \<Rightarrow> Inr (0, w)
      | Some th \<Rightarrow>
          if th_lane th \<noteq> LANE_STATELESS \<or> th_agent th \<noteq> None then Inr (0, w)
          else bind_ok (unresolved_claim_losses p (th_metadata th)) (\<lambda>losses.
            if losses \<noteq> [] then Inr (0, w)
            else case row_of (rq w) t of None \<Rightarrow> Inr (0, w)
            | Some q \<Rightarrow>
                if \<not> queue_allows_stale_retry (Some q) then Inr (0, w)
                else let pending = pending_stale_interrupts w t (lease_token q) in
                  if pending = [] then Inr (0, w)
                  else
                    bind_ok (retire_stale_stateless_permissions now t (lease_token q - 1) (lease_token q)
                               (lit ''lease_expired'') True (snd (bump_epoch t w))) (\<lambda>(_, w1).
                    bind_ok (reconcile_interrupt_rows p now t (lease_token q) pending (lit ''lease_expired'')
                               False w1) (\<lambda>(rr, w2).
                    map_ok (\<lambda>w3. (rr_count rr, w3))
                      (append_turn_frames t
                         (if rr_state rr \<in> {Some Done, Some Queued} then lit ''turn.interrupted''
                          else lit ''turn.parked'')
                         (attempts_since_completion q) (sole_owner pending) rr None (lit ''lease_expired'') w2)))))"

text \<open>The sweep; a session that raises is skipped.\<close>

fun retry_stale_loop :: "py \<Rightarrow> secs \<Rightarrow> uuid list \<Rightarrow> world \<Rightarrow> nat \<times> world" where
  "retry_stale_loop p now [] w = (0, w)"
| "retry_stale_loop p now (t # ts) w =
     (case retry_stale_interrupt_thread p now t w of
        Inl _ \<Rightarrow> retry_stale_loop p now ts w
      | Inr (n, w') \<Rightarrow> (let (m, w'') = retry_stale_loop p now ts w' in (n + m, w'')))"

definition has_claim_losses :: "py \<Rightarrow> thread \<Rightarrow> bool" where
  "has_claim_losses p th =
     (case metadata_root p (th_metadata th) of Inl _ \<Rightarrow> False | Inr md \<Rightarrow> CLAIM_LOSS_LEDGER_KEY \<in> keys md)"

definition stale_candidates :: "py \<Rightarrow> nat \<Rightarrow> world \<Rightarrow> uuid list" where
  "stale_candidates p n w =
     (let rs = filter (\<lambda>r. unsettled r \<and> stateless_thread w (ir_thread r) \<and>
                  (case thread_of w (ir_thread r) of None \<Rightarrow> False | Some th \<Rightarrow> \<not> has_claim_losses p th) \<and>
                  (case row_of (rq w) (ir_thread r) of None \<Rightarrow> False
                   | Some q \<Rightarrow> queue_allows_stale_retry (Some q) \<and> ir_token r < lease_token q)) (interrupts w)
      in take n (rev (remdups (rev (map ir_thread (sort_key (\<lambda>r. (ir_requested_at r, ir_thread r)) rs))))))"

definition retry_stale_interrupt_requests :: "py \<Rightarrow> secs \<Rightarrow> int \<Rightarrow> world \<Rightarrow> nat \<times> world" where
  "retry_stale_interrupt_requests p now max_threads w =
     (if max_threads \<le> 0 then (0, w)
      else retry_stale_loop p now (stale_candidates p (nat max_threads) w) w)"

end
