(* ===== verification/Session_Steal.thy ===== *)
theory Session_Steal
  imports Steal_Journal
begin

text \<open>
  The two transactions that take a session away from its lease owner, in
  \<^verbatim>\<open>src/orchestrator/services/run_queue_reaper.py\<close>: the reaper's steal of an expired lease, which
  records the claimant as a loss and holds the unit parked until it is gone, and the settlement
  of a session that is ended.
\<close>

section \<open>The end of a session\<close>

definition terminal_guard :: "int \<Rightarrow> row \<Rightarrow> bool" where
  "terminal_guard tok q \<longleftrightarrow>
     unit_kind q = UNIT_KIND_SESSION_TURN \<and> lease_token q = tok \<and> state q \<in> {Queued, Parked} \<and>
     leased_by q = None \<and> leased_until q = None"

definition next_unanswered :: "world \<Rightarrow> uuid \<Rightarrow> int option \<Rightarrow> int option" where
  "next_unanswered w t consumed =
     first_min id (map msg_seq (filter (\<lambda>m. msg_thread m = t \<and> msg_role m = ''human'' \<and>
        \<not> msg_rewound m \<and> case_option (-1) id consumed < msg_seq m) (messages (rq w))))"

definition settle_active_turn :: "uuid \<Rightarrow> int \<Rightarrow> int \<Rightarrow> world \<Rightarrow> exn + world" where
  "settle_active_turn t turn tok w =
     (case human_inputs w t turn of
        [c] \<Rightarrow>
          (case row_of (rq w) t of None \<Rightarrow> Inl Exn_Runtime
           | Some q \<Rightarrow>
               if \<not> terminal_guard tok q then Inl Exn_Runtime
               else if (case consumed_seq q of None \<Rightarrow> False | Some x \<Rightarrow> c \<le> x) then Inr w
               else if next_unanswered w t (consumed_seq q) \<noteq> Some c then Inl Exn_Runtime
               else Inr (put_queue (q\<lparr>consumed_seq := Some (max (case_option (-1) id (consumed_seq q)) c),
                                      attempts_since_completion := 0\<rparr>) w))
      | _ \<Rightarrow> Inl Exn_Runtime)"

definition terminal_reasons :: "pytext list" where
  "terminal_reasons = [lit ''force_end'', lit ''user_end'']"

definition end_active_turn ::
  "uuid \<Rightarrow> int option \<Rightarrow> int \<Rightarrow> pytext option \<Rightarrow> int \<Rightarrow> pytext \<Rightarrow> reconcile_result \<Rightarrow> world \<Rightarrow> exn + world" where
  "end_active_turn t active tok leased attempts reason rr w =
     (case active of None \<Rightarrow> Inr w
      | Some n \<Rightarrow>
          bind_ok (settle_active_turn t n tok w) (\<lambda>w'.
            if n \<in> set (rr_turns rr) then Inr w'
            else append_turn_frames t (lit ''turn.interrupted'') attempts leased no_reconcile (Some n) reason w'))"

definition reconcile_terminal_interrupts ::
  "py \<Rightarrow> secs \<Rightarrow> uuid \<Rightarrow> int \<Rightarrow> int \<Rightarrow> pytext option \<Rightarrow> int \<Rightarrow> int option \<Rightarrow> pytext \<Rightarrow> bool \<Rightarrow> world
   \<Rightarrow> exn + reconcile_result \<times> world" where
  "reconcile_terminal_interrupts p now t old tok leased attempts active reason bumped w =
     (if old \<le> 0 \<or> tok \<noteq> old + 1 then Inl Exn_Value
      else if reason \<notin> set terminal_reasons then Inl Exn_Value
      else let pending = pending_stale_interrupts w t tok in
        if (case active of None \<Rightarrow> False | Some n \<Rightarrow> n \<le> 0) then Inl Exn_Value
        else if pending = [] \<and> active = None then Inr (no_reconcile, w)
        else if \<not> bumped \<and> thread_of w t = None then Inl Exn_Runtime
        else
          bind_ok (reconcile_interrupt_rows p now t tok pending reason True
                     (if bumped then w else snd (bump_epoch t w))) (\<lambda>(rr, w1).
          bind_ok (if pending = [] then Inr w1
                   else append_turn_frames t (lit ''turn.interrupted'') attempts leased rr None reason w1) (\<lambda>w2.
          map_ok (\<lambda>w3. (rr, w3)) (end_active_turn t active tok leased attempts reason rr w2))))"

section \<open>The steal of an expired lease\<close>

definition candidate_owner :: "candidate \<Rightarrow> pytext" where
  "candidate_owner c = strip (case_option [] lit (cand_leased_by c))"

text \<open>The claimant that still has workspace credentials, if the metadata published one.\<close>

definition current_claimant :: "py \<Rightarrow> candidate \<Rightarrow> json \<Rightarrow> exn + claimant option" where
  "current_claimant p c metadata =
     bind_ok (unresolved_claim_losses p metadata) (\<lambda>losses.
       if cand_lease_token c \<in> fst ` set losses then Inl Exn_Runtime
       else bind_ok (active_claim_authority p metadata) (\<lambda>active.
         case active of None \<Rightarrow> Inr None
         | Some (k, a) \<Rightarrow>
             if cand_lease_token c < k then Inl Exn_Runtime
             else if k < cand_lease_token c then Inr None
             else if cl_pod a \<noteq> candidate_owner c then Inl Exn_Runtime
             else Inr (Some a)))"

definition steal_guard :: "secs \<Rightarrow> secs \<Rightarrow> candidate \<Rightarrow> row \<Rightarrow> bool" where
  "steal_guard now grace c q \<longleftrightarrow>
     unit_kind q = UNIT_KIND_SESSION_TURN \<and> held (cand_lease_token c) q \<and>
     case_option [] lit (leased_by q) = candidate_owner c \<and> expired now grace q"

definition stolen_session :: "candidate \<Rightarrow> row \<Rightarrow> row \<Rightarrow> stolen_unit" where
  "stolen_session c old new =
     (stolen_of c old new)\<lparr>su_leased_by := Some (map char_of (candidate_owner c)), su_lifecycle_journaled := True\<rparr>"

definition loss_ledger :: "candidate \<Rightarrow> claimant option \<Rightarrow> fields \<Rightarrow> fields" where
  "loss_ledger c cur md =
     (let old = object_at md CLAIM_LOSS_LEDGER_KEY in
      case cur of None \<Rightarrow> old
      | Some a \<Rightarrow> merged old [(int_text (cand_lease_token c),
                               JObj [(lit ''pod'', JStr (cl_pod a)), (lit ''pod_uid'', JStr (cl_uid a)),
                                     (lit ''quiesced'', JBool False)])])"

definition hold_of :: "pg \<Rightarrow> int \<Rightarrow> row \<Rightarrow> fields" where
  "hold_of g tok q =
     [(lit ''lease_token'', JInt tok), (lit ''intended_state'', JStr (state_text (state q))),
      (lit ''attempts_since_completion'', JInt (attempts_since_completion q)),
      (lit ''queued_at'', JStr (pg_iso g (queued_at q))), (lit ''run_after'', JStr (pg_iso g (run_after q)))]
     @ (if state q = Parked
        then [(lit ''park_reason'', case park_reason q of None \<Rightarrow> JNull | Some s \<Rightarrow> JStr (lit s))] else [])"

definition stolen_metadata :: "pg \<Rightarrow> candidate \<Rightarrow> claimant option \<Rightarrow> int \<Rightarrow> row \<Rightarrow> fields \<Rightarrow> fields" where
  "stolen_metadata g c cur tok q md =
     (let base = without md ACTIVE_CLAIM_KEY; ledger = loss_ledger c cur md in
      if ledger = [] then without (without base CLAIM_LOSS_LEDGER_KEY) CLAIM_LOSS_HOLD_KEY
      else merged base [(CLAIM_LOSS_LEDGER_KEY, JObj ledger), (CLAIM_LOSS_HOLD_KEY, JObj (hold_of g tok q))])"

definition hold_eff :: "secs \<Rightarrow> row \<Rightarrow> row" where
  "hold_eff now q =
     q\<lparr>state := Parked, park_reason := Some ''claim_loss_hold'', parked_at := Some now, leased_by := None,
       last_leased_by := None, leased_until := None\<rparr>"

definition hold_session ::
  "pg \<Rightarrow> secs \<Rightarrow> candidate \<Rightarrow> claimant option \<Rightarrow> fields \<Rightarrow> stolen_unit \<Rightarrow> world \<Rightarrow> exn + world" where
  "hold_session g now c cur md unit w =
     (let t = cand_unit_id c; tok = su_lease_token unit in
      case (row_of (rq w) t, thread_of w t) of
        (Some q, Some th) \<Rightarrow>
          if lease_token q \<noteq> tok \<or> leased_by q \<noteq> None \<or> state q = Leased then Inl Exn_Runtime
          else
            let w1 = put_thread (th\<lparr>th_metadata := JObj (stolen_metadata g c cur tok q md)\<rparr>) w
            in Inr (if loss_ledger c cur md = [] then w1 else put_queue (hold_eff now q) w1)
      | _ \<Rightarrow> Inl Exn_Runtime)"

definition steal_session_with_claim_loss ::
  "py \<Rightarrow> pg \<Rightarrow> secs \<Rightarrow> secs \<Rightarrow> secs \<Rightarrow> candidate \<Rightarrow> world \<Rightarrow> exn + stolen_unit option \<times> world" where
  "steal_session_with_claim_loss p g now grace backoff c w =
     (let t = cand_unit_id c in
      if cand_lease_token c \<le> 0 \<or> candidate_owner c = [] then Inl Exn_Runtime
      else case thread_of w t of None \<Rightarrow> Inr (None, w)
      | Some th \<Rightarrow>
          if th_lane th \<noteq> LANE_STATELESS \<or> th_agent th \<noteq> None then Inr (None, w)
          else bind_ok (current_claimant p c (th_metadata th)) (\<lambda>cur.
            case row_of (rq w) t of None \<Rightarrow> Inr (None, w)
            | Some q \<Rightarrow>
                if \<not> steal_guard now grace c q then Inr (None, w)
                else if dedup_conflict (queue (rq w)) (reap_eff now backoff q) then Inl Exn_Unique
                else let unit = stolen_session c q (reap_eff now backoff q) in
                  bind_ok (metadata_root p (th_metadata th)) (\<lambda>md.
                  bind_ok (journal_loss p now t unit (put_queue (reap_eff now backoff q) w)) (\<lambda>(rr, w2).
                  map_ok (\<lambda>w3. (Some unit, w3)) (hold_session g now c cur md unit w2)))))"

text \<open>A steal that raises leaves the lease as it was.\<close>

definition try_steal_session ::
  "py \<Rightarrow> pg \<Rightarrow> secs \<Rightarrow> secs \<Rightarrow> secs \<Rightarrow> candidate \<Rightarrow> world \<Rightarrow> stolen_unit option \<times> world" where
  "try_steal_session p g now grace backoff c w =
     (case steal_session_with_claim_loss p g now grace backoff c w of Inl _ \<Rightarrow> (None, w) | Inr r \<Rightarrow> r)"

end
