(* ===== verification/Tool_Debt.thy ===== *)
theory Tool_Debt
  imports Session_Steal
begin

text \<open>
  Unanswered tool calls in a session transcript, from \<^verbatim>\<open>src/shared/session_tool_debt.py\<close>: the
  query that tells whether the transcript holds debt, the query that lists the calls an owner may
  answer, and what the answers leave. A row of the transcript has the columns of
  \<^verbatim>\<open>thread_messages\<close> the queries read and the decision writes.
\<close>

section \<open>The transcript\<close>

record chat_row =
  ch_id :: uuid
  ch_thread :: uuid
  ch_seq :: int
  ch_role :: string
  ch_content :: pytext
  ch_turn :: "int option"
  ch_rewound :: bool
  ch_calls :: "json option" \<comment> \<open>tool_calls\<close>
  ch_result_of :: "pytext option" \<comment> \<open>tool_call_id\<close>
  ch_metrics :: "json option"

text \<open>What the run queue's statements see of a row.\<close>

definition as_message :: "chat_row \<Rightarrow> message" where
  "as_message r = \<lparr>msg_id = ch_id r, msg_thread = ch_thread r, msg_seq = ch_seq r,
                   msg_rewound = ch_rewound r, msg_turn = ch_turn r, msg_role = ch_role r\<rparr>"

text \<open>\<^verbatim>\<open>v -> k\<close>, \<^verbatim>\<open>v ->> k\<close> and \<^verbatim>\<open>BTRIM(s) <> ''\<close>.\<close>

definition json_item :: "json \<Rightarrow> pytext \<Rightarrow> json option" where
  "json_item v k = (case v of JObj d \<Rightarrow> map_of d k | _ \<Rightarrow> None)"

definition json_text :: "pg \<Rightarrow> json \<Rightarrow> pytext \<Rightarrow> pytext option" where
  "json_text g v k =
     (case json_item v k of None \<Rightarrow> None | Some JNull \<Rightarrow> None | Some (JStr s) \<Rightarrow> Some s
      | Some x \<Rightarrow> Some (pg_json g x))"

definition not_blank :: "pytext \<Rightarrow> bool" where
  "not_blank s \<longleftrightarrow> (\<exists>c \<in> set s. c \<noteq> 32)"

definition call_items :: "chat_row \<Rightarrow> json list" where
  "call_items r = (case ch_calls r of Some (JList xs) \<Rightarrow> xs | _ \<Rightarrow> [])"

definition live_row :: "uuid \<Rightarrow> string \<Rightarrow> chat_row \<Rightarrow> bool" where
  "live_row t role r \<longleftrightarrow> ch_thread r = t \<and> ch_role r = role \<and> \<not> ch_rewound r"

definition call_named :: "json \<Rightarrow> bool" where
  "call_named c = (case json_item c (lit ''id'') of Some (JStr s) \<Rightarrow> not_blank s | _ \<Rightarrow> False)"

definition not_delegated :: "pg \<Rightarrow> json \<Rightarrow> bool" where
  "not_delegated g c \<longleftrightarrow> json_text g c (lit ''name'') \<noteq> Some (lit ''delegate_agent'')"

text \<open>A delegation-only batch with well-formed ids is left to the child ledger.\<close>

definition ambiguous_batch :: "pg \<Rightarrow> chat_row \<Rightarrow> bool" where
  "ambiguous_batch g r \<longleftrightarrow> (\<exists>s \<in> set (call_items r). not_delegated g s \<or> \<not> call_named s)"

definition answered :: "pg \<Rightarrow> chat_row list \<Rightarrow> chat_row \<Rightarrow> json \<Rightarrow> bool" where
  "answered g tr r c \<longleftrightarrow>
     (\<exists>x \<in> set tr. live_row (ch_thread r) ''tool'' x \<and> ch_seq r < ch_seq x \<and> ch_turn x = ch_turn r \<and>
        ch_result_of x \<noteq> None \<and> ch_result_of x = json_text g c (lit ''id''))"

section \<open>The two queries\<close>

definition malformed_calls :: "uuid \<Rightarrow> chat_row list \<Rightarrow> bool" where
  "malformed_calls t tr \<longleftrightarrow>
     (\<exists>r \<in> set tr. live_row t ''ai'' r \<and>
        (case ch_calls r of None \<Rightarrow> False | Some (JList _) \<Rightarrow> False | Some _ \<Rightarrow> True))"

definition same_call :: "pg \<Rightarrow> uuid \<Rightarrow> chat_row list \<Rightarrow> chat_row \<Rightarrow> json \<Rightarrow> (chat_row \<times> json) list" where
  "same_call g t tr r c =
     filter (\<lambda>(x, d). ch_turn x = ch_turn r \<and> json_text g d (lit ''id'') = json_text g c (lit ''id''))
       (concat (map (\<lambda>x. map (Pair x) (call_items x)) (filter (live_row t ''ai'') tr)))"

definition duplicate_calls :: "pg \<Rightarrow> uuid \<Rightarrow> chat_row list \<Rightarrow> bool" where
  "duplicate_calls g t tr \<longleftrightarrow>
     (\<exists>r \<in> set tr. live_row t ''ai'' r \<and> (\<exists>c \<in> set (call_items r).
        1 < length (same_call g t tr r c) \<and>
        (\<exists>(x, d) \<in> set (same_call g t tr r c). \<exists>s \<in> set (call_items x). not_delegated g s)))"

definition unproven_calls :: "pg \<Rightarrow> uuid \<Rightarrow> chat_row list \<Rightarrow> bool" where
  "unproven_calls g t tr \<longleftrightarrow>
     (\<exists>r \<in> set tr. live_row t ''ai'' r \<and> ambiguous_batch g r \<and>
        (\<exists>c \<in> set (call_items r). \<not> call_named c \<or> \<not> answered g tr r c))"

definition has_tool_debt :: "pg \<Rightarrow> uuid \<Rightarrow> chat_row list \<Rightarrow> bool" where
  "has_tool_debt g t tr \<longleftrightarrow> malformed_calls t tr \<or> duplicate_calls g t tr \<or> unproven_calls g t tr"

record open_call =
  oc_seq :: int
  oc_turn :: "int option"
  oc_id :: pytext
  oc_name :: "pytext option"
  oc_args :: "pytext option"

definition open_call_of :: "pg \<Rightarrow> chat_row \<Rightarrow> json \<Rightarrow> open_call" where
  "open_call_of g r c =
     \<lparr>oc_seq = ch_seq r, oc_turn = ch_turn r, oc_id = case_option [] id (json_text g c (lit ''id'')),
      oc_name = json_text g c (lit ''name''), oc_args = map_option (pg_json g) (json_item c (lit ''args''))\<rparr>"

definition unanswered_tool_calls :: "pg \<Rightarrow> uuid \<Rightarrow> chat_row list \<Rightarrow> open_call list" where
  "unanswered_tool_calls g t tr =
     concat (map (\<lambda>r. map (open_call_of g r) (filter (\<lambda>c. call_named c \<and> \<not> answered g tr r c) (call_items r)))
       (sort_key ch_seq (filter (\<lambda>r. live_row t ''ai'' r \<and> ambiguous_batch g r) tr)))"

section \<open>Answers\<close>

definition answer_row :: "uuid \<Rightarrow> pytext \<Rightarrow> (nat \<Rightarrow> uuid \<times> int) \<Rightarrow> nat \<Rightarrow> open_call \<Rightarrow> chat_row" where
  "answer_row t content fresh i c =
     \<lparr>ch_id = fst (fresh i), ch_thread = t, ch_seq = snd (fresh i), ch_role = ''tool'', ch_content = content,
      ch_turn = oc_turn c, ch_rewound = False, ch_calls = None, ch_result_of = Some (oc_id c),
      ch_metrics = Some (JObj [(lit ''tool_result_state'',
        JObj [(lit ''state'', JStr (lit ''unknown'')), (lit ''tool_call_id'', JStr (oc_id c))])])\<rparr>"

definition answer_rows :: "uuid \<Rightarrow> pytext \<Rightarrow> (nat \<Rightarrow> uuid \<times> int) \<Rightarrow> open_call list \<Rightarrow> chat_row list" where
  "answer_rows t content fresh cs = map (\<lambda>(i, c). answer_row t content fresh i c) (enumerate 0 cs)"

text \<open>An id that no answer row can name: not a string, or blank.\<close>

definition unnamed_calls :: "pg \<Rightarrow> uuid \<Rightarrow> chat_row list \<Rightarrow> bool" where
  "unnamed_calls g t tr \<longleftrightarrow>
     (\<exists>r \<in> set tr. live_row t ''ai'' r \<and> (\<exists>c \<in> set (call_items r). \<not> call_named c))"

section \<open>Facts\<close>

lemma call_named_text: "call_named c \<Longrightarrow> \<exists>s. json_text g c (lit ''id'') = Some s \<and> not_blank s"
  by (auto simp: call_named_def json_text_def split: option.splits json.splits)

lemma unnamed_ambiguous: "c \<in> set (call_items r) \<Longrightarrow> \<not> call_named c \<Longrightarrow> ambiguous_batch g r"
  by (auto simp: ambiguous_batch_def)

lemma unanswered_in:
  "oc \<in> set (unanswered_tool_calls g t tr) \<longleftrightarrow>
     (\<exists>r \<in> set tr. live_row t ''ai'' r \<and> ambiguous_batch g r \<and>
        (\<exists>c \<in> set (call_items r). call_named c \<and> \<not> answered g tr r c \<and> oc = open_call_of g r c))"
  by (auto simp: unanswered_tool_calls_def)

text \<open>The list is complete: what the last branch of the query finds is listed or unnamed.\<close>

lemma unproven_listed:
  "unproven_calls g t tr \<longleftrightarrow> unanswered_tool_calls g t tr \<noteq> [] \<or> unnamed_calls g t tr"
proof -
  have "unproven_calls g t tr \<longleftrightarrow>
      (\<exists>oc. oc \<in> set (unanswered_tool_calls g t tr)) \<or>
      (\<exists>r \<in> set tr. live_row t ''ai'' r \<and> ambiguous_batch g r \<and> (\<exists>c \<in> set (call_items r). \<not> call_named c))"
    unfolding unproven_calls_def unanswered_in by blast
  also have "(\<exists>r \<in> set tr. live_row t ''ai'' r \<and> ambiguous_batch g r \<and>
      (\<exists>c \<in> set (call_items r). \<not> call_named c)) = unnamed_calls g t tr"
    unfolding unnamed_calls_def using unnamed_ambiguous by meson
  finally show ?thesis by (simp add: ex_in_conv)
qed

lemma answer_rows_set:
  "x \<in> set (answer_rows t content fresh cs) \<longleftrightarrow>
     (\<exists>i < length cs. x = answer_row t content fresh i (cs ! i))"
  by (force simp: answer_rows_def in_set_enumerate_eq)

lemma answer_rows_role: "x \<in> set (answer_rows t content fresh cs) \<Longrightarrow> ch_role x = ''tool''"
  by (auto simp: answer_rows_set answer_row_def)

lemma answers_no_ai: "filter (live_row t ''ai'') (answer_rows u content fresh cs) = []"
  by (auto simp: filter_empty_conv live_row_def dest: answer_rows_role)

lemma answers_keep_ai:
  "live_row t ''ai'' r \<and> r \<in> set (tr @ answer_rows u content fresh cs) \<longleftrightarrow> live_row t ''ai'' r \<and> r \<in> set tr"
  by (auto simp: live_row_def dest: answer_rows_role)

lemma malformed_after: "malformed_calls t (tr @ answer_rows u content fresh cs) = malformed_calls t tr"
  unfolding malformed_calls_def using answers_keep_ai by (metis (no_types, lifting))

lemma same_call_after: "same_call g t (tr @ answer_rows u content fresh cs) r c = same_call g t tr r c"
  by (simp add: same_call_def answers_no_ai)

lemma duplicate_after: "duplicate_calls g t (tr @ answer_rows u content fresh cs) = duplicate_calls g t tr"
  unfolding duplicate_calls_def same_call_after using answers_keep_ai by (metis (no_types, lifting))

lemma unnamed_after: "unnamed_calls g t (tr @ answer_rows u content fresh cs) = unnamed_calls g t tr"
  unfolding unnamed_calls_def using answers_keep_ai by (metis (no_types, lifting))

lemma answered_mono: "answered g tr r c \<Longrightarrow> answered g (tr @ xs) r c"
  by (auto simp: answered_def)

text \<open>The answers of a session with increasing numbers answer every listed call.\<close>

lemma answers_answer:
  assumes r: "r \<in> set tr" "live_row t ''ai'' r" "ambiguous_batch g r" and c: "c \<in> set (call_items r)" "call_named c"
    and fresh: "\<And>i. ch_seq r < snd (fresh i)"
  shows "answered g (tr @ answer_rows t content fresh (unanswered_tool_calls g t tr)) r c"
proof (cases "answered g tr r c")
  case False
  then have "open_call_of g r c \<in> set (unanswered_tool_calls g t tr)" using r c unanswered_in by blast
  then obtain i where i: "i < length (unanswered_tool_calls g t tr)"
    "unanswered_tool_calls g t tr ! i = open_call_of g r c"
    by (auto simp: in_set_conv_nth)
  let ?x = "answer_row t content fresh i (open_call_of g r c)"
  have "?x \<in> set (answer_rows t content fresh (unanswered_tool_calls g t tr))"
    using i by (auto simp: answer_rows_set)
  moreover obtain s where "json_text g c (lit ''id'') = Some s" using call_named_text [OF c(2)] by blast
  ultimately show ?thesis
    using r fresh unfolding answered_def
    by (intro bexI [of _ ?x]) (auto simp: answer_row_def live_row_def open_call_of_def)
qed (rule answered_mono)

lemma no_open_calls_left:
  assumes fresh: "\<And>i r. r \<in> set tr \<Longrightarrow> ch_seq r < snd (fresh i)"
  shows "unanswered_tool_calls g t (tr @ answer_rows t content fresh (unanswered_tool_calls g t tr)) = []"
proof -
  let ?tr' = "tr @ answer_rows t content fresh (unanswered_tool_calls g t tr)"
  have "oc \<notin> set (unanswered_tool_calls g t ?tr')" for oc
  proof
    assume "oc \<in> set (unanswered_tool_calls g t ?tr')"
    then obtain r c where x: "r \<in> set ?tr'" "live_row t ''ai'' r" "ambiguous_batch g r" "c \<in> set (call_items r)"
      "call_named c" "\<not> answered g ?tr' r c"
      unfolding unanswered_in by blast
    have r: "r \<in> set tr" using x(1,2) answers_keep_ai by blast
    from answers_answer [OF r x(2-5), of fresh content] fresh [OF r] x(6) show False by blast
  qed
  then show ?thesis by (metis list.set_intros(1) neq_Nil_conv)
qed

end
