(* ===== verification/Queue_Verbs.thy ===== *)
theory Queue_Verbs
  imports Tool_Debt
begin

text \<open>
  The verbs an owner or an operator has over a parked unit, and the view of the unit the owner
  gets: \<^verbatim>\<open>stateless_queue_state.py\<close>, \<^verbatim>\<open>run_queue_admin.py\<close> and
  \<^verbatim>\<open>session_unknown_tool_results.py\<close> of \<^verbatim>\<open>src/orchestrator/services\<close> and the retry route
  of \<^verbatim>\<open>src/orchestrator/routers/thread_transport.py\<close>. Every verb runs in one transaction that
  locks the thread before the queue row; what is refused or raises rolls back.
\<close>

datatype verb_error = Http nat string | Raised exn

definition rq_exn :: "rq_error \<Rightarrow> exn" where
  "rq_exn e = (case e of Value_Error \<Rightarrow> Exn_Value | Unique_Violation \<Rightarrow> Exn_Unique)"

section \<open>Refusals\<close>

definition metadata_object :: "py \<Rightarrow> json \<Rightarrow> json" where
  "metadata_object p v =
     (case v of JNull \<Rightarrow> JObj [] | JStr s \<Rightarrow> (case py_loads p s of None \<Rightarrow> v | Some x \<Rightarrow> x) | _ \<Rightarrow> v)"

datatype retry_refusal = Refuse_Stop_Markers | Refuse_Claim_Loss_Hold | Refuse_Not_Retryable

definition refusal_code :: "retry_refusal \<Rightarrow> string" where
  "refusal_code r = (case r of Refuse_Stop_Markers \<Rightarrow> ''stop_markers''
                     | Refuse_Claim_Loss_Hold \<Rightarrow> ''claim_loss_hold'' | Refuse_Not_Retryable \<Rightarrow> ''not_retryable'')"

definition PARK_REASON_CLAIM_LOSS_HOLD :: string where "PARK_REASON_CLAIM_LOSS_HOLD = ''claim_loss_hold''"
definition PARK_REASON_MODEL_UNAVAILABLE :: string where "PARK_REASON_MODEL_UNAVAILABLE = ''model_unavailable''"

definition park_retry_refusal :: "py \<Rightarrow> string option \<Rightarrow> json \<Rightarrow> retry_refusal option" where
  "park_retry_refusal p reason metadata =
     (case stateless_stop_markers p (metadata_object p metadata) of
        Inl _ \<Rightarrow> Some Refuse_Stop_Markers
      | Inr markers \<Rightarrow>
          if CLAIM_LOSS_HOLD_KEY \<in> markers \<or> reason = Some PARK_REASON_CLAIM_LOSS_HOLD
          then Some Refuse_Claim_Loss_Hold
          else if markers \<noteq> {} then Some Refuse_Stop_Markers
          else if reason \<notin> Some ` set retryable_park_reasons then Some Refuse_Not_Retryable
          else None)"

definition unknown_result_refusal :: "py \<Rightarrow> json \<Rightarrow> retry_refusal option" where
  "unknown_result_refusal p metadata =
     (case stateless_stop_markers p (metadata_object p metadata) of
        Inl _ \<Rightarrow> Some Refuse_Stop_Markers
      | Inr markers \<Rightarrow>
          if CLAIM_LOSS_HOLD_KEY \<in> markers then Some Refuse_Claim_Loss_Hold
          else if markers \<noteq> {} then Some Refuse_Stop_Markers else None)"

section \<open>The owner's view\<close>

record call_view =
  cv_id :: pytext
  cv_name :: pytext
  cv_args :: "json option"

definition unknown_call_view :: "py \<Rightarrow> open_call \<Rightarrow> call_view" where
  "unknown_call_view p c =
     \<lparr>cv_id = oc_id c,
      cv_name = (case oc_name c of None \<Rightarrow> lit ''unknown'' | Some n \<Rightarrow> if n = [] then lit ''unknown'' else n),
      cv_args = (case oc_args c of None \<Rightarrow> None
                 | Some s \<Rightarrow> if length s \<le> 4000 then py_loads p s else None)\<rparr>"

record queue_block =
  qb_state :: pytext
  qb_park_reason :: "string option"
  qb_park_message :: "string option"
  qb_parked_at :: "pytext option"
  qb_retryable :: bool
  qb_attempts :: int
  qb_pending_input :: bool

definition queue_block :: "py \<Rightarrow> pg \<Rightarrow> queue_status option \<Rightarrow> json \<Rightarrow> queue_block" where
  "queue_block p g st metadata =
     (case st of
        None \<Rightarrow> \<lparr>qb_state = lit ''none'', qb_park_reason = None, qb_park_message = None, qb_parked_at = None,
                 qb_retryable = False, qb_attempts = 0, qb_pending_input = False\<rparr>
      | Some s \<Rightarrow>
          let parked = (qs_state s = Parked);
              refusal = (if parked then park_retry_refusal p (qs_park_reason s) metadata else None)
          in \<lparr>qb_state = state_text (qs_state s),
              qb_park_reason = (if parked then qs_park_reason s else None),
              qb_park_message =
                (if parked \<and> qs_park_reason s = Some PARK_REASON_MODEL_UNAVAILABLE then qs_last_error s else None),
              qb_parked_at = (if parked then map_option (pg_iso g) (qs_parked_at s) else None),
              qb_retryable = (parked \<and> refusal = None),
              qb_attempts = qs_attempts s, qb_pending_input = qs_pending_input s\<rparr>)"

definition unknown_tool_calls_block ::
  "py \<Rightarrow> pg \<Rightarrow> uuid \<Rightarrow> json \<Rightarrow> queue_block \<Rightarrow> chat_row list \<Rightarrow> call_view list" where
  "unknown_tool_calls_block p g t metadata b tr =
     (if qb_state b \<noteq> lit ''parked'' \<or> qb_park_reason b = Some PARK_REASON_CLAIM_LOSS_HOLD \<or>
         unknown_result_refusal p metadata \<noteq> None
      then [] else map (unknown_call_view p) (unanswered_tool_calls g t tr))"

section \<open>Unparking\<close>

text \<open>The transaction part the verbs share; nothing is reported as 404.\<close>

definition unpark_row :: "secs \<Rightarrow> uuid \<Rightarrow> world \<Rightarrow> verb_error + world" where
  "unpark_row now t w =
     (case unpark_unit now t (rq w) of
        Inl e \<Rightarrow> Inl (Raised (rq_exn e))
      | Inr (ok, d) \<Rightarrow> if ok then Inr (w\<lparr>rq := d\<rparr>) else Inl (Http 404 ''Unit is not parked''))"

text \<open>The operator's verb; a metadata value that is no object, SQL NULL too, counts as stopped.\<close>

definition operator_markers :: "py \<Rightarrow> json \<Rightarrow> pytext set" where
  "operator_markers p v =
     (let v' = (case v of JStr s \<Rightarrow> (case py_loads p s of None \<Rightarrow> JNull | Some x \<Rightarrow> x) | _ \<Rightarrow> v) in
      case stateless_stop_markers p v' of Inl _ \<Rightarrow> {lit ''malformed''} | Inr ms \<Rightarrow> ms)"

definition unpark_run_queue_unit :: "py \<Rightarrow> secs \<Rightarrow> uuid \<Rightarrow> world \<Rightarrow> verb_error + world" where
  "unpark_run_queue_unit p now t w =
     (if (case thread_of w t of None \<Rightarrow> False
          | Some th \<Rightarrow> th_lane th = LANE_STATELESS \<and> operator_markers p (th_metadata th) \<noteq> {})
      then Inl (Http 409 ''Unit is awaiting claimant quiescence'')
      else unpark_row now t w)"

text \<open>The owner's verb on a session that is not pinned.\<close>

definition retry_parked_unit :: "py \<Rightarrow> secs \<Rightarrow> uuid \<Rightarrow> thread \<Rightarrow> world \<Rightarrow> verb_error + string option \<times> world" where
  "retry_parked_unit p now t th w =
     (case queue_state_for t (rq w) of
        None \<Rightarrow> Inl (Http 404 ''Unit is not parked'')
      | Some s \<Rightarrow>
          if qs_state s \<noteq> Parked then Inl (Http 404 ''Unit is not parked'')
          else case park_retry_refusal p (qs_park_reason s) (th_metadata th) of
            Some r \<Rightarrow> Inl (Http 409 (refusal_code r))
          | None \<Rightarrow> map_ok (Pair (qs_park_reason s)) (unpark_row now t w))"

section \<open>The owner's decision on unknown tool results\<close>

definition RESULT_UNKNOWN_TEXT :: pytext where
  "RESULT_UNKNOWN_TEXT =
     lit (''Result unknown: this call was interrupted before its result was recorded '' @
          ''(the process running it was replaced or lost the workspace), so it may '' @
          ''or may not have finished.'')"

datatype debt_decision = Decide_Continue | Decide_Stop

definition result_text :: "debt_decision \<Rightarrow> pytext" where
  "result_text dec = RESULT_UNKNOWN_TEXT @
     (case dec of Decide_Continue \<Rightarrow> lit '' The user chose to continue.''
      | Decide_Stop \<Rightarrow> lit '' The user chose to stop here: do not resume this work unless they ask.'')"

definition interrupted_input :: "uuid \<Rightarrow> open_call list \<Rightarrow> chat_row list \<Rightarrow> int option" where
  "interrupted_input t calls tr =
     (let s = Max (oc_seq ` set calls);
          ns = map ch_seq (filter (\<lambda>r. live_row t ''human'' r \<and> ch_seq r < s) tr)
      in if ns = [] then None else Some (Max (set ns)))"

record debt_outcome =
  do_state :: qstate
  do_calls :: "pytext list"
  do_continue :: bool

text \<open>A tool call id the column cannot hold makes the INSERT raise.\<close>

definition decide_unknown_tool_results ::
  "py \<Rightarrow> pg \<Rightarrow> secs \<Rightarrow> (nat \<Rightarrow> uuid \<times> int) \<Rightarrow> uuid \<Rightarrow> debt_decision \<Rightarrow> chat_row list \<Rightarrow> world
   \<Rightarrow> verb_error + debt_outcome \<times> chat_row list \<times> world" where
  "decide_unknown_tool_results p g now fresh t dec tr w =
     (case thread_of w t of None \<Rightarrow> Inl (Http 404 ''thread_not_found'')
      | Some th \<Rightarrow>
          if th_lane th \<noteq> LANE_STATELESS then Inl (Http 409 ''not_stateless'')
          else case unknown_result_refusal p (th_metadata th) of
            Some r \<Rightarrow> Inl (Http 409 (refusal_code r))
          | None \<Rightarrow>
          (case row_of (rq w) t of None \<Rightarrow> Inl (Http 404 ''not_parked'')
           | Some q \<Rightarrow>
               if state q \<noteq> Parked then Inl (Http 404 ''not_parked'')
               else if park_reason q = Some PARK_REASON_CLAIM_LOSS_HOLD then Inl (Http 409 ''claim_loss_hold'')
               else
                 let calls = unanswered_tool_calls g t tr;
                     answers = answer_rows t (result_text dec) fresh calls;
                     tr' = tr @ answers;
                     d = (rq w)\<lparr>messages := messages (rq w) @ map as_message answers\<rparr>
                 in if calls = [] then Inl (Http 409 ''no_unknown_results'')
                    else if \<exists>c \<in> set calls. 255 < length (oc_id c) then Inl (Raised Exn_Value)
                    else if has_tool_debt g t tr' then Inl (Http 409 ''tool_history_ambiguous'')
                    else case settle_parked_unit now t (interrupted_input t calls tr') d of
                      Inl e \<Rightarrow> Inl (Raised (rq_exn e))
                    | Inr (None, d') \<Rightarrow> Inl (Http 409 ''workspace_recovery_pending'')
                    | Inr (Some st, d') \<Rightarrow>
                        Inr (\<lparr>do_state = st, do_calls = map oc_id calls,
                              do_continue = (dec = Decide_Continue \<and> st = Done)\<rparr>, tr', w\<lparr>rq := d'\<rparr>)))"

section \<open>The operator's attestation\<close>

text \<open>
  The losses that name the exact pod, and then one acknowledgement for each, every one its own
  transaction. The pod is looked up in Kubernetes in between.
\<close>

definition admin_metadata_object :: "py \<Rightarrow> json \<Rightarrow> json" where
  "admin_metadata_object p v =
     (case v of JNull \<Rightarrow> JObj [] | JStr s \<Rightarrow> (case py_loads p s of None \<Rightarrow> JNull | Some x \<Rightarrow> x) | _ \<Rightarrow> v)"

definition attestable_tokens ::
  "py \<Rightarrow> (pytext \<Rightarrow> bool) \<Rightarrow> uuid \<Rightarrow> pytext \<Rightarrow> pytext \<Rightarrow> world \<Rightarrow> verb_error + int list" where
  "attestable_tokens p uuid_syntax t pod pod_uid w =
     (let owner = strip pod; uid = strip pod_uid;
          missing = Inl (Http 404 ''No unresolved claimant-loss debt names that pod'')
      in if \<not> uuid_syntax uid then missing
         else case thread_of w t of None \<Rightarrow> missing
         | Some th \<Rightarrow>
             if th_lane th \<noteq> LANE_STATELESS \<or> owner = [] then missing
             else case unresolved_claim_losses p (admin_metadata_object p (th_metadata th)) of
               Inl _ \<Rightarrow> Inl (Http 409 ''Claimant-loss ledger is malformed'')
             | Inr losses \<Rightarrow>
                 let toks = sort (map fst (filter (\<lambda>(k, c). cl_pod c = owner \<and> cl_uid c = uid) losses))
                 in if toks = [] then missing else Inr toks)"

fun attest_losses ::
  "py \<Rightarrow> pg \<Rightarrow> pytext \<Rightarrow> uuid \<Rightarrow> pytext \<Rightarrow> pytext \<Rightarrow> pytext \<Rightarrow> fields \<Rightarrow> int list \<Rightarrow> world
   \<Rightarrow> (exn + int list) \<times> world" where
  "attest_losses p g stamp t owner uid actor receipt [] w = (Inr [], w)"
| "attest_losses p g stamp t owner uid actor receipt (tok # toks) w =
     (case acknowledge_session_claim_quiesced p g (\<lambda>_. Inr None) stamp t tok owner uid actor None (Some receipt) w of
        Inl e \<Rightarrow> (Inl e, w)
      | Inr (ok, w') \<Rightarrow>
          (case attest_losses p g stamp t owner uid actor receipt toks w' of
             (Inl e, w'') \<Rightarrow> (Inl e, w'')
           | (Inr done, w'') \<Rightarrow> (Inr (if ok then tok # done else done), w'')))"

definition attestation_receipt :: "pytext \<Rightarrow> pytext \<Rightarrow> fields" where
  "attestation_receipt authority reason =
     [(lit ''evidence'', JStr (lit ''operator_attestation'')), (lit ''kubernetes_authority'', JStr authority),
      (lit ''reason'', JStr reason)]"

end
