(* ===== verification/Claim_Reconcile.thy ===== *)
theory Claim_Reconcile
  imports Queue_Verbs
begin

text \<open>
  One cycle of the reaper, \<^verbatim>\<open>reap_cycle\<close> of
  \<^verbatim>\<open>src/orchestrator/services/run_queue_reaper.py\<close>: steal, journal, repair of interrupts and
  prompts an earlier pass left, and reconciliation of the lost claimants with the state of their
  pods. Kubernetes is the argument \<^verbatim>\<open>k\<close>. Every step is its own
  transaction and a session that raises does not stop the others.
\<close>

section \<open>Repair of prompts\<close>

definition reaper_metadata :: "py \<Rightarrow> json \<Rightarrow> exn + fields" where
  "reaper_metadata p v =
     (if \<not> truthy v then Inr []
      else case v of
        JObj d \<Rightarrow> Inr d
      | JStr s \<Rightarrow> (case py_loads p s of None \<Rightarrow> Inl Exn_Value | Some (JObj d) \<Rightarrow> Inr d | Some _ \<Rightarrow> Inl Exn_Runtime)
      | _ \<Rightarrow> Inl Exn_Runtime)"

definition thread_allows_parked_permission_retry :: "py \<Rightarrow> thread option \<Rightarrow> exn + bool" where
  "thread_allows_parked_permission_retry p th_opt =
     (case th_opt of None \<Rightarrow> Inr False
      | Some th \<Rightarrow>
          if th_lane th \<noteq> LANE_STATELESS \<or> th_agent th \<noteq> None then Inr False
          else (case reaper_metadata p (th_metadata th) of
              Inl Exn_Runtime \<Rightarrow> Inr False
            | Inl e \<Rightarrow> Inl e
            | Inr d \<Rightarrow> Inr (keys d \<inter> {ACTIVE_CLAIM_KEY, CLAIM_LOSS_LEDGER_KEY, CLAIM_LOSS_HOLD_KEY} = {})))"

text \<open>An applied interrupt of the stolen lease whose receipt shows that this token settled its input.\<close>

definition recovery_receipt :: "pg \<Rightarrow> interrupt_request \<Rightarrow> event \<Rightarrow> bool" where
  "recovery_receipt g r e \<longleftrightarrow>
     ev_thread e = ir_thread r \<and> ev_interrupt e = Some (ir_id r) \<and>
     ir_journal r = Some (ev_epoch e, ev_seq e) \<and> ev_kind e = lit ''interrupt.ack'' \<and>
     (case ev_payload e of JObj d \<Rightarrow>
        jget d (lit ''request_id'') = JStr (uuid_text (ir_id r)) \<and>
        jget d (lit ''client_request_id'') = JStr (uuid_text (ir_client r)) \<and>
        jget d (lit ''target_turn_id'') = JInt (ir_turn r) \<and> jget d (lit ''applied'') = JBool True \<and>
        (path_is g (jget d (lit ''mode'')) (lit ''hard'') \<or> path_is g (jget d (lit ''mode'')) (lit ''graceful''))
      | _ \<Rightarrow> False)"

definition done_recovery_proof :: "pg \<Rightarrow> world \<Rightarrow> uuid \<Rightarrow> int \<Rightarrow> bool" where
  "done_recovery_proof g w t tok \<longleftrightarrow>
     (\<exists>r \<in> set (interrupts w). ir_thread r = t \<and> ir_outcome r = Some Applied \<and> 0 < ir_token r \<and>
        ir_token r = tok - 1 \<and> ir_applied_token r = Some (ir_token r) \<and>
        path_is g (jget (ir_result r) (lit ''input_settlement'')) (lit ''lease_recovery'') \<and>
        jget (ir_result r) (lit ''input_settled_by_lease_token'') = JInt tok \<and>
        (\<exists>e \<in> set (events w). recovery_receipt g r e))"

definition retry_stale_permission_thread :: "py \<Rightarrow> pg \<Rightarrow> secs \<Rightarrow> uuid \<Rightarrow> world \<Rightarrow> exn + nat \<times> world" where
  "retry_stale_permission_thread p g now t w =
     bind_ok (thread_allows_parked_permission_retry p (thread_of w t)) (\<lambda>ok.
       if \<not> ok then Inr (0, w)
       else case row_of (rq w) t of None \<Rightarrow> Inr (0, w)
       | Some q \<Rightarrow>
           if unit_kind q \<noteq> UNIT_KIND_SESSION_TURN \<or> state q \<notin> {Parked, Done} \<or> leased_by q \<noteq> None \<or>
              lease_token q \<le> 0 \<or> last_leased_by q \<noteq> None \<or>
              (state q = Done \<and> \<not> done_recovery_proof g w t (lease_token q))
           then Inr (0, w)
           else map_ok (\<lambda>((receipts, _), w'). (length receipts, w'))
                  (retire_stale_stateless_permissions now t (lease_token q - 1) (lease_token q)
                     (lit ''lease_expired'') False w))"

definition stale_permission_candidates :: "py \<Rightarrow> pg \<Rightarrow> nat \<Rightarrow> world \<Rightarrow> uuid list" where
  "stale_permission_candidates p g n w =
     (let rs = filter (\<lambda>r. pr_status r = ''pending'' \<and>
            thread_allows_parked_permission_retry p (thread_of w (pr_thread r)) = Inr True \<and>
            (case row_of (rq w) (pr_thread r) of None \<Rightarrow> False
             | Some q \<Rightarrow>
                 (case pr_token r of None \<Rightarrow> True | Some k \<Rightarrow> 0 < k \<and> k < lease_token q) \<and>
                 unit_kind q = UNIT_KIND_SESSION_TURN \<and> 0 < lease_token q \<and>
                 (state q = Parked \<or> (state q = Done \<and> done_recovery_proof g w (pr_thread r) (lease_token q))) \<and>
                 leased_by q = None \<and> last_leased_by q = None)) (permissions w)
      in take n (rev (remdups (rev (map pr_thread (sort_key (\<lambda>r. (pr_requested_at r, pr_thread r)) rs))))))"

fun retry_permission_loop :: "py \<Rightarrow> pg \<Rightarrow> secs \<Rightarrow> uuid list \<Rightarrow> world \<Rightarrow> nat \<times> world" where
  "retry_permission_loop p g now [] w = (0, w)"
| "retry_permission_loop p g now (t # ts) w =
     (case retry_stale_permission_thread p g now t w of
        Inl _ \<Rightarrow> retry_permission_loop p g now ts w
      | Inr (n, w') \<Rightarrow> (let (m, w'') = retry_permission_loop p g now ts w' in (n + m, w'')))"

definition retry_stale_permission_requests :: "py \<Rightarrow> pg \<Rightarrow> secs \<Rightarrow> int \<Rightarrow> world \<Rightarrow> nat \<times> world" where
  "retry_stale_permission_requests p g now max_threads w =
     (if max_threads \<le> 0 then (0, w)
      else retry_permission_loop p g now (stale_permission_candidates p g (nat max_threads) w) w)"

section \<open>The rotation over held threads\<close>

text \<open>The ids of the held threads in order, and one page of them after a cursor.\<close>

definition held_threads :: "py \<Rightarrow> world \<Rightarrow> uuid list" where
  "held_threads p w =
     sort (map th_id (filter (\<lambda>th. th_lane th = LANE_STATELESS \<and> th_agent th = None \<and> has_claim_losses p th)
       (threads w)))"

definition hold_candidates :: "nat \<Rightarrow> uuid option \<Rightarrow> uuid list \<Rightarrow> uuid list" where
  "hold_candidates limit cursor ids =
     take limit (filter (\<lambda>i. case cursor of None \<Rightarrow> True | Some c \<Rightarrow> c < i) ids)"

definition next_claim_loss_hold_page :: "nat \<Rightarrow> uuid option \<Rightarrow> uuid list \<Rightarrow> uuid list \<times> uuid option" where
  "next_claim_loss_hold_page limit cursor ids =
     (let first = hold_candidates limit cursor ids;
          page = (if cursor \<noteq> None \<and> length first < limit
                  then take limit (first @ filter (\<lambda>i. i \<notin> set first) (hold_candidates limit None ids))
                  else first)
      in (page, if limit \<le> length page then Some (last page) else None))"

section \<open>Reconciliation with the pods\<close>

datatype pod_state = Exact_Live | Exact_Terminal | Exact_Absent | Pod_Replaced | Pod_Unknown

text \<open>Kubernetes: the state of a pod by name and uid, and whether its deletion returns.\<close>

record kube =
  kube_look :: "pytext \<Rightarrow> pytext \<Rightarrow> exn + pod_state"
  kube_delete :: "pytext \<Rightarrow> pytext \<Rightarrow> bool"

text \<open>
  One thread: how many losses were settled, the pods asked to go away, the world. An exception
  ends the thread's pass and keeps what was committed.
\<close>

fun reconcile_losses ::
  "py \<Rightarrow> pg \<Rightarrow> secs \<Rightarrow> pytext \<Rightarrow> kube \<Rightarrow> uuid \<Rightarrow> (int \<times> claimant) list \<Rightarrow> world
   \<Rightarrow> nat \<times> (pytext \<times> pytext) list \<times> world" where
  "reconcile_losses p g now stamp k t [] w = (0, [], w)"
| "reconcile_losses p g now stamp k t ((tok, c) # losses) w =
     (case kube_look k (cl_pod c) (cl_uid c) of
        Inl _ \<Rightarrow> (0, [], w)
      | Inr Exact_Live \<Rightarrow>
          (case mark_session_claim_eviction_requested p g now t tok (cl_pod c) (cl_uid c) w of
             Inl _ \<Rightarrow> (0, [], w)
           | Inr (ok, w') \<Rightarrow>
               if ok \<and> \<not> kube_delete k (cl_pod c) (cl_uid c) then (0, [(cl_pod c, cl_uid c)], w')
               else (let (n, pods, w'') = reconcile_losses p g now stamp k t losses w'
                     in (n, if ok then (cl_pod c, cl_uid c) # pods else pods, w'')))
      | Inr Exact_Terminal \<Rightarrow>
          (case acknowledge_session_claim_quiesced p g (\<lambda>_. Inr None) stamp t tok (cl_pod c) (cl_uid c)
                  (lit ''pod_terminal'') None (Some [(lit ''evidence'', JStr (lit ''exact_terminal''))]) w of
             Inl _ \<Rightarrow> (0, [], w)
           | Inr (ok, w') \<Rightarrow>
               (let (n, pods, w'') = reconcile_losses p g now stamp k t losses w'
                in (if ok then Suc n else n, pods, w'')))
      | Inr _ \<Rightarrow> reconcile_losses p g now stamp k t losses w)"

fun reconcile_page ::
  "py \<Rightarrow> pg \<Rightarrow> secs \<Rightarrow> pytext \<Rightarrow> kube \<Rightarrow> (uuid \<times> json) list \<Rightarrow> world
   \<Rightarrow> nat \<times> (pytext \<times> pytext) list \<times> world" where
  "reconcile_page p g now stamp k [] w = (0, [], w)"
| "reconcile_page p g now stamp k ((t, metadata) # page) w =
     (case unresolved_claim_losses p metadata of
        Inl _ \<Rightarrow> reconcile_page p g now stamp k page w
      | Inr losses \<Rightarrow>
          (let (n, pods, w') = reconcile_losses p g now stamp k t (sort_key fst losses) w;
               (m, more, w'') = reconcile_page p g now stamp k page w'
           in (n + m, pods @ more, w'')))"

definition reconcile_claim_loss_holds ::
  "py \<Rightarrow> pg \<Rightarrow> secs \<Rightarrow> pytext \<Rightarrow> kube \<Rightarrow> int \<Rightarrow> uuid option \<Rightarrow> world
   \<Rightarrow> (nat \<times> (pytext \<times> pytext) list \<times> world) \<times> uuid option" where
  "reconcile_claim_loss_holds p g now stamp k max_threads cursor w =
     (if max_threads \<le> 0 then ((0, [], w), cursor)
      else let (page, cursor') = next_claim_loss_hold_page (nat max_threads) cursor (held_threads p w);
               rows = map (\<lambda>i. (i, case thread_of w i of None \<Rightarrow> JNull | Some th \<Rightarrow> th_metadata th)) page
           in (reconcile_page p g now stamp k rows w, cursor'))"

text \<open>The executor pods that neither a session lease nor a ledger names.\<close>

definition unreferenced_executor_uids :: "py \<Rightarrow> pg \<Rightarrow> (pytext \<times> pytext) list \<Rightarrow> world \<Rightarrow> pytext list" where
  "unreferenced_executor_uids p g pods w =
     map fst (filter (\<lambda>(uid, name).
         (\<forall>q \<in> set (queue (rq w)). unit_kind q = UNIT_KIND_SESSION_TURN \<longrightarrow> map_option lit (leased_by q) \<noteq> Some name) \<and>
         (\<forall>th \<in> set (threads w). case metadata_root p (th_metadata th) of Inl _ \<Rightarrow> True
            | Inr md \<Rightarrow> CLAIM_LOSS_LEDGER_KEY \<in> keys md \<longrightarrow> \<not> occurs uid (pg_json g (jget md CLAIM_LOSS_LEDGER_KEY))))
       pods)"

section \<open>The cycle\<close>

fun reap_units ::
  "py \<Rightarrow> pg \<Rightarrow> steal_hook option \<Rightarrow> (nat \<Rightarrow> secs) \<Rightarrow> (nat \<Rightarrow> secs) \<Rightarrow> secs \<Rightarrow> secs \<Rightarrow> nat \<Rightarrow> candidate list
   \<Rightarrow> world \<Rightarrow> (rq_error + stolen_unit list) \<times> world" where
  "reap_units p g ws clock jit grace base i [] w = (Inr [], w)"
| "reap_units p g ws clock jit grace base i (c # cs) w =
     (let backoff = base * of_int (cand_attempts c) * (1 + jit i) in
      case (if cand_unit_kind c = UNIT_KIND_SESSION_TURN
            then Inr (try_steal_session p g (clock i) grace backoff c w)
            else map_ok (\<lambda>(u, d). (u, w\<lparr>rq := d\<rparr>)) (steal_for None ws (clock i) grace backoff c (rq w))) of
        Inl e \<Rightarrow> (Inl e, w)
      | Inr (u, w1) \<Rightarrow>
          (case reap_units p g ws clock jit grace base (Suc i) cs w1 of
             (Inl e, w2) \<Rightarrow> (Inl e, w2)
           | (Inr us, w2) \<Rightarrow> (Inr (case u of None \<Rightarrow> us | Some x \<Rightarrow> x # us), w2)))"

fun journal_units :: "py \<Rightarrow> secs \<Rightarrow> stolen_unit list \<Rightarrow> world \<Rightarrow> world" where
  "journal_units p now [] w = w"
| "journal_units p now (u # us) w =
     journal_units p now us
       (if su_unit_kind u \<noteq> UNIT_KIND_SESSION_TURN \<or> su_lifecycle_journaled u then w
        else case journal_steal p now u w of Inl _ \<Rightarrow> w | Inr (_, w') \<Rightarrow> w')"

definition reap_cycle ::
  "py \<Rightarrow> pg \<Rightarrow> steal_hook option \<Rightarrow> (uuid \<Rightarrow> bool) \<Rightarrow> (nat \<Rightarrow> secs) \<Rightarrow> (nat \<Rightarrow> secs) \<Rightarrow> pytext \<Rightarrow> kube
   \<Rightarrow> secs \<Rightarrow> secs \<Rightarrow> uuid option \<Rightarrow> world \<Rightarrow> ((rq_error + nat) \<times> uuid option) \<times> world" where
  "reap_cycle p g ws locked clock jit stamp k grace now cursor w =
     (case reap_units p g ws clock jit grace 5 0 (reap_candidates locked now grace None 50 (rq w)) w of
        (Inl e, w1) \<Rightarrow> ((Inl e, cursor), w1)
      | (Inr units, w1) \<Rightarrow>
          (let w2 = journal_units p now units w1;
               w3 = snd (retry_stale_interrupt_requests p now 25 w2);
               w4 = snd (retry_stale_permission_requests p g now 25 w3);
               ((_, _, w5), cursor') = reconcile_claim_loss_holds p g now stamp k 25 cursor w4
           in ((Inr (length units), cursor'), w5)))"

end
