(* ===== verification/Claim_Loss_Laws.thy ===== *)
theory Claim_Loss_Laws
  imports Claim_Reconcile Interrupt_Runs Control_Receipts
begin

text \<open>
  What the settlement of a stolen session leaves alone: the metadata and lane of every thread,
  the queue rows of other units, and the fact that the session's own row is not leased. Every
  step of the settlement keeps this contract, and it composes.
\<close>

section \<open>The contract\<close>

definition session_view :: "world \<Rightarrow> uuid \<Rightarrow> (string \<times> uuid option \<times> json) option" where
  "session_view w u = map_option (\<lambda>th. (th_lane th, th_agent th, th_metadata th)) (thread_of w u)"

definition idle_after :: "row \<Rightarrow> row option \<Rightarrow> bool" where
  "idle_after q q_opt \<longleftrightarrow>
     (\<exists>q'. q_opt = Some q' \<and> unit_kind q' = unit_kind q \<and> lease_token q' = lease_token q \<and> state q' \<noteq> Leased \<and>
        (state q' = Parked \<longrightarrow> state q = Parked \<and> park_reason q' = park_reason q))"

locale session_frames =
  fixes quiet :: "world \<Rightarrow> world \<Rightarrow> bool"
  assumes refl: "quiet w w"
    and trans: "quiet w w1 \<Longrightarrow> quiet w1 w2 \<Longrightarrow> quiet w w2"
    and tables: "rq w' = rq w \<Longrightarrow> session_view w' = session_view w \<Longrightarrow> quiet w w'"
begin

lemma thread_change:
  assumes "thread_of w (th_id th') = Some th" "th_lane th' = th_lane th" "th_agent th' = th_agent th"
    "th_metadata th' = th_metadata th" "rq w' = rq w" "threads w' = threads (put_thread th' w)"
  shows "quiet w w'"
proof (rule tables)
  have "thread_of w' u = thread_of (put_thread th' w) u" for u using assms(6) by (simp add: thread_of_def)
  then show "session_view w' = session_view w"
    using assms(1-4) by (auto simp: session_view_def fun_eq_iff thread_of_put_thread)
qed (rule assms(5))

lemma frame_quiet:
  assumes "append_system_frame u kind d i perm w = Inr (pos, w')"
  shows "quiet w w'"
proof (cases "thread_of w u")
  case None
  then show ?thesis using assms refl by (simp add: append_system_frame_def)
next
  case (Some th)
  let ?th = "th\<lparr>th_events_hwm := th_events_hwm th + 1\<rparr>"
  have "thread_of w (th_id ?th) = Some th" using Some thread_of_id [OF Some] by simp
  moreover have "rq w' = rq w" "threads w' = threads (put_thread ?th w)"
    using assms Some by (auto simp: append_system_frame_def Let_def put_thread_def split: if_splits)
  ultimately show ?thesis by (intro thread_change) simp_all
qed

lemma bump_quiet: "quiet w (snd (bump_epoch u w))"
proof (cases "thread_of w u")
  case None
  then show ?thesis using refl by (simp add: bump_epoch_def)
next
  case (Some th)
  show ?thesis
    by (rule thread_change [of w "th\<lparr>th_epoch := th_epoch th + 1, th_events_hwm := 0\<rparr>" th])
      (use Some thread_of_id [OF Some] in \<open>simp_all add: bump_epoch_def\<close>)
qed

lemma frames_quiet: "append_frames u kind ds w = Inr w' \<Longrightarrow> quiet w w'"
proof (induction ds arbitrary: w)
  case Nil
  then show ?case using refl by simp
next
  case (Cons d ds)
  then obtain pos w1 where 1: "append_system_frame u kind d None None w = Inr (pos, w1)"
    "append_frames u kind ds w1 = Inr w'"
    by (auto simp: bind_ok_Inr split: if_splits)
  show ?case using trans [OF frame_quiet [OF 1(1)] Cons.IH [OF 1(2)]] .
qed

lemma turn_frames_quiet: "append_turn_frames u kind a s rr fb reason w = Inr w' \<Longrightarrow> quiet w w'"
  by (simp add: append_turn_frames_def frames_quiet)

lemma expire_quiet:
  "expire_permissions now u reason cs (receipts, w) = Inr (receipts', w') \<Longrightarrow> quiet w w'"
proof (induction cs arbitrary: receipts w)
  case Nil
  then show ?case using refl by simp
next
  case (Cons c cs)
  then obtain r pos w1 receipts1 where 1:
    "append_system_frame u (lit ''permission.resolved'') (resolved_params c reason) None (Some (pr_id c))
       (put_permission (expired_permission now reason r) w) = Inr (pos, w1)"
    "expire_permissions now u reason cs (receipts1, w1) = Inr (receipts', w')"
    by (auto simp: bind_ok_Inr split: option.splits if_splits)
  have "session_view (put_permission x w) = session_view w" for x
    by (simp add: session_view_def fun_eq_iff thread_of_def put_permission_def)
  then have "quiet w (put_permission (expired_permission now reason r) w)"
    by (intro tables) (simp_all add: put_permission_def)
  from trans [OF this frame_quiet [OF 1(1)]] Cons.IH [OF 1(2)] show ?case by (rule trans)
qed

lemma retire_quiet:
  assumes "retire_stale_stateless_permissions now u old new reason bumped w = Inr (res, w')"
  shows "quiet w w'"
proof (cases "w' = w")
  case False
  then obtain receipts receipts' where "expire_permissions now u reason (stale_permissions w u new)
      (receipts, if bumped then w else snd (bump_epoch u w)) = Inr (receipts', w')"
    using assms by (auto simp: retire_stale_stateless_permissions_def Let_def map_ok_Inr split: if_splits)
  from trans [OF _ expire_quiet [OF this]] show ?thesis using refl bump_quiet by simp
qed (simp add: refl)

lemma verdict_quiet:
  assumes "owner_loss_verdict p u reason re w = Inr (v, w')"
  shows "quiet w w'"
proof (cases "w' = w")
  case False
  then have "\<exists>r pos. append_system_frame u (lit ''interrupt.ack'') (owner_lost_params r reason) (Some (ir_id r)) None w
      = Inr (pos, w')"
    using assms
    by (cases re) (auto simp: owner_loss_verdict_def bind_ok_Inr split: option.splits if_splits prod.splits)
  then show ?thesis using frame_quiet by blast
qed (simp add: refl)

lemma terminalize_quiet: "terminalize_stolen now u r v w = Inr w' \<Longrightarrow> quiet w w'"
  by (erule terminalize_cases, rule tables) (simp_all add: session_view_def fun_eq_iff thread_of_def)

lemma rows_quiet:
  "settle_rows p now u reason rows (a, gs, w) = Inr (a', gs', w') \<Longrightarrow> quiet w w'"
proof (induction rows arbitrary: a gs w)
  case Nil
  then show ?case using refl by simp
next
  case (Cons re rows)
  obtain r e where re: "re = (r, e)" by (cases re)
  obtain v w1 w2 a1 gs1 where 1: "owner_loss_verdict p u reason (r, e) w = Inr (v, w1)"
    "(if ir_outcome r = None then terminalize_stolen now u r v w1 else Inr w1) = Inr w2"
    "settle_rows p now u reason rows (a1, gs1, w2) = Inr (a', gs', w')"
    using Cons.prems unfolding re by (auto simp: bind_ok_Inr Let_def)
  have "quiet w1 w2" using 1(2) refl terminalize_quiet by (cases "ir_outcome r = None") auto
  from trans [OF verdict_quiet [OF 1(1)] this] Cons.IH [OF 1(3)] show ?case by (rule trans)
qed

lemma retry_permissions_quiet:
  assumes "retry_stale_permission_thread p g now t w = Inr (n, w')"
  shows "quiet w w'"
proof (cases "w' = w")
  case False
  then obtain old new res where "retire_stale_stateless_permissions now t old new (lit ''lease_expired'') False w
      = Inr (res, w')"
    using assms
    by (auto simp: retry_stale_permission_thread_def bind_ok_Inr map_ok_Inr split: option.splits if_splits)
  then show ?thesis by (rule retire_quiet)
qed (simp add: refl)

end

text \<open>A settlement also consumes the input of an interrupted turn.\<close>

locale session_settlement = session_frames +
  fixes t :: uuid
  assumes consumed: "consume_applied_interrupt_input p now t cur acc turn i Idle w = Inr (res, w') \<Longrightarrow> quiet w w'"
begin

lemma groups_quiet: "settle_groups p now t cur False gs (st, w) = Inr (st', w') \<Longrightarrow> quiet w w'"
proof (induction gs arbitrary: st w)
  case Nil
  then show ?case using refl by simp
next
  case (Cons x gs)
  obtain acc turn i where x: "x = (acc, turn, i)" by (cases x)
  obtain c w1 where 1: "consume_applied_interrupt_input_idle p now t cur acc turn i False w = Inr (Some c, w1)"
    "settle_groups p now t cur False gs (Some (ic_state c), w1) = Inr (st', w')"
    using Cons.prems unfolding x by (auto simp: bind_ok_Inr split: option.splits)
  have "quiet w w1" using 1(1) consumed by (simp add: consume_applied_interrupt_input_idle_def)
  then show ?case using Cons.IH [OF 1(2)] by (rule trans)
qed

lemma reconcile_quiet:
  assumes "reconcile_interrupt_rows p now t cur pending reason False w = Inr (a, w')"
  shows "quiet w w'"
proof -
  obtain b gs w1 st where 1: "settle_rows p now t reason
      (map (\<lambda>r. (r, fetch_interrupt_receipt w (ir_thread r) (ir_id r))) pending) (no_reconcile, [], w) = Inr (b, gs, w1)"
    "settle_groups p now t cur False gs (None, w1) = Inr (st, w')"
    using assms by (auto simp: reconcile_interrupt_rows_def bind_ok_Inr map_ok_Inr)
  show ?thesis using trans [OF rows_quiet [OF 1(1)] groups_quiet [OF 1(2)]] .
qed

lemma stolen_quiet: "reconcile_stolen_interrupts p now t unit w = Inr (a, w') \<Longrightarrow> quiet w w'"
  using refl reconcile_quiet by (auto simp: reconcile_stolen_interrupts_def split: option.splits if_splits)

lemma journal_quiet:
  assumes "journal_loss p now t unit w = Inr (rr, w')"
  shows "quiet w w'"
proof -
  obtain prev where prev: "su_previous_lease_token unit = Some prev"
    using assms by (auto simp: journal_loss_def split: option.splits)
  obtain res w1 w2 where 1: "retire_stale_stateless_permissions now t prev (su_lease_token unit) (lit ''lease_expired'')
      True (snd (bump_epoch t w)) = Inr (res, w1)" "reconcile_stolen_interrupts p now t unit w1 = Inr (rr, w2)"
    "append_turn_frames t (steal_frame_kind (su_state unit) rr) (su_attempts unit)
       (map_option lit (su_leased_by unit)) rr (su_interrupt_turn unit) (lit ''lease_expired'') w2 = Inr w'"
    using assms prev by (auto simp: journal_loss_def bind_ok_Inr map_ok_Inr)
  have "quiet w w1" using trans [OF bump_quiet retire_quiet [OF 1(1)]] .
  moreover have "quiet w1 w'" using trans [OF stolen_quiet [OF 1(2)] turn_frames_quiet [OF 1(3)]] .
  ultimately show ?thesis by (rule trans)
qed

lemma retry_interrupts_quiet:
  assumes "retry_stale_interrupt_thread p now t w = Inr (n, w')"
  shows "quiet w w'"
proof (cases "w' = w")
  case False
  then obtain old new pending res w1 rr w2 kind a s where 1:
    "retire_stale_stateless_permissions now t old new (lit ''lease_expired'') True (snd (bump_epoch t w)) = Inr (res, w1)"
    "reconcile_interrupt_rows p now t new pending (lit ''lease_expired'') False w1 = Inr (rr, w2)"
    "append_turn_frames t kind a s rr None (lit ''lease_expired'') w2 = Inr w'"
    using assms
    by (auto simp: retry_stale_interrupt_thread_def Let_def bind_ok_Inr map_ok_Inr split: option.splits if_splits)
  have "quiet w w1" using trans [OF bump_quiet retire_quiet [OF 1(1)]] .
  moreover have "quiet w1 w'" using trans [OF reconcile_quiet [OF 1(2)] turn_frames_quiet [OF 1(3)]] .
  ultimately show ?thesis by (rule trans)
qed (simp add: refl)

end

section \<open>The queue under frames and under a settlement\<close>

text \<open>Frames and expired prompts leave the queue as it is.\<close>

definition queue_same :: "world \<Rightarrow> world \<Rightarrow> bool" where
  "queue_same w w' \<longleftrightarrow> rq w' = rq w \<and> session_view w' = session_view w"

interpretation queue_frames: session_frames queue_same
  by unfold_locales (auto simp: queue_same_def)

text \<open>The row of the session stays without a lease, the others are untouched.\<close>

definition queue_quiet :: "uuid \<Rightarrow> world \<Rightarrow> world \<Rightarrow> bool" where
  "queue_quiet t w w' \<longleftrightarrow>
     session_view w' = session_view w \<and> (db_ok (rq w) \<longrightarrow> db_ok (rq w')) \<and>
     (\<forall>u. u \<noteq> t \<longrightarrow> row_of (rq w') u = row_of (rq w) u) \<and>
     (\<forall>q. row_of (rq w) t = Some q \<and> state q \<noteq> Leased \<longrightarrow> idle_after q (row_of (rq w') t))"

lemma idle_after_self: "state q \<noteq> Leased \<Longrightarrow> idle_after q (Some q)"
  by (simp add: idle_after_def)

lemma queue_quiet_tables: "rq w' = rq w \<Longrightarrow> session_view w' = session_view w \<Longrightarrow> queue_quiet t w w'"
  by (simp add: queue_quiet_def idle_after_self)

lemma queue_quiet_trans:
  assumes "queue_quiet t w w1" "queue_quiet t w1 w2"
  shows "queue_quiet t w w2"
  unfolding queue_quiet_def
proof (intro conjI allI impI)
  fix q assume q: "row_of (rq w) t = Some q \<and> state q \<noteq> Leased"
  then have "idle_after q (row_of (rq w1) t)" using assms(1) by (simp add: queue_quiet_def)
  then obtain q1 where q1: "row_of (rq w1) t = Some q1" "unit_kind q1 = unit_kind q"
    "lease_token q1 = lease_token q" "state q1 \<noteq> Leased"
    "state q1 = Parked \<longrightarrow> state q = Parked \<and> park_reason q1 = park_reason q"
    by (auto simp: idle_after_def)
  then have "idle_after q1 (row_of (rq w2) t)" using assms(2) by (simp add: queue_quiet_def)
  then show "idle_after q (row_of (rq w2) t)" using q1 by (auto simp: idle_after_def)
qed (use assms in \<open>auto simp: queue_quiet_def\<close>)

lemma idle_eff: "unit_kind (settle_input_eff Idle now c q) = unit_kind q"
  "lease_token (settle_input_eff Idle now c q) = lease_token q" "unit_id (settle_input_eff Idle now c q) = unit_id q"
  "state (settle_input_eff Idle now c q) \<in> {Queued, Done}"
  by (simp_all add: settle_input_eff_def Let_def)

lemma queue_quiet_consumed:
  assumes "consume_applied_interrupt_input p now t cur acc turn i Idle w = Inr (res, w')"
  shows "queue_quiet t w w'"
  using assms
proof (cases rule: consume_cases)
  case nothing
  then show ?thesis using queue_quiet_tables by simp
next
  case (consumed q c adv)
  let ?q = "settle_input_eff Idle now c q"
  have rq': "rq w' = store (rq w) ?q" using consumed(9) by simp
  have rows: "row_of (rq w') u = (if u = t then Some ?q else row_of (rq w) u)" for u
    using row_of_store [of "rq w" ?q u] row_of_unit [OF consumed(1)] consumed(1) by (simp add: rq' idle_eff)
  have "session_view w' = session_view w"
    by (simp add: consumed(9) session_view_def fun_eq_iff thread_of_def)
  moreover have "idle_after q' (row_of (rq w') t)" if "row_of (rq w) t = Some q'" for q'
    using that consumed(1) idle_eff(4) [of now c q] by (auto simp: rows idle_after_def idle_eff(1-3))
  ultimately show ?thesis
    using consume_queue_le(2) [OF _ assms] by (auto simp: queue_quiet_def rows)
qed

interpretation queue_settlement: session_settlement "queue_quiet t" t for t
  by unfold_locales
    (auto intro: queue_quiet_tables queue_quiet_consumed elim: queue_quiet_trans)

end
