(* ===== verification/Worker_Hold.thy ===== *)
theory Worker_Hold
  imports Run_Queue_Behaviour
begin

text \<open>
  What the reaper's hook for worker batches does to the run queue:
  \<^verbatim>\<open>src/shared/worker_execution_hold.py\<close> parks an attempt whose outcome is unknown,
  \<^verbatim>\<open>src/orchestrator/services/vm_workspace_recovery_store.py\<close> parks every batch that shares a lost
  VM workspace, and \<^verbatim>\<open>_try_steal_worker_with_recovery\<close> of
  \<^verbatim>\<open>src/orchestrator/services/run_queue_reaper.py\<close> steals what neither of them holds.

  The verdicts these functions reach over jobs, attempts and workspace contracts, tables the model
  does not have, are arguments and may be anything; every write to the queue is a definition here.
  Time \<^verbatim>\<open>forever\<close> is PostgreSQL's \<^verbatim>\<open>infinity\<close>.
\<close>

section \<open>The execution hold\<close>

definition WORKER_EXECUTION_HOLD_REASON :: string where
  "WORKER_EXECUTION_HOLD_REASON = ''worker_execution_outcome_unknown''"

datatype hold_decision = Hold_Held | Hold_Not_Applicable | Hold_Superseded | Hold_Blocked

text \<open>What the Job, its attempt and its workspace contract say of a leased batch; it may raise.\<close>

datatype hold_evidence = Evidence_Raises | Evidence_Decides hold_decision | Evidence_Commits

definition worker_hold_eff :: "secs \<Rightarrow> row \<Rightarrow> row" where
  "worker_hold_eff now q =
     q\<lparr>state := Parked, lease_token := lease_token q + 1,
       park_reason := Some WORKER_EXECUTION_HOLD_REASON, parked_at := Some now, leased_by := None,
       last_leased_by := None, leased_until := None,
       interrupt_admission_lease_token := None, interrupt_admission_turn_id := None\<rparr>"

definition commit_worker_hold :: "secs \<Rightarrow> uuid \<Rightarrow> db \<Rightarrow> db" where
  "commit_worker_hold now u d =
     (case row_of d u of None \<Rightarrow> d | Some q \<Rightarrow> store d (worker_hold_eff now q))"

text \<open>A call that raises rolls its transaction back and is the result None.\<close>

definition hold_container_worker_attempt ::
  "secs \<Rightarrow> (row \<Rightarrow> hold_evidence) \<Rightarrow> uuid \<Rightarrow> int \<Rightarrow> secs option \<Rightarrow> db \<Rightarrow> hold_decision option \<times> db" where
  "hold_container_worker_attempt now evidence u tok grace d =
     (case row_of d u of None \<Rightarrow> (Some Hold_Superseded, d)
      | Some q \<Rightarrow>
          if unit_kind q \<noteq> UNIT_KIND_WORKER_BATCH \<or> lease_token q \<noteq> tok \<or> state q \<noteq> Leased
          then (Some Hold_Superseded, d)
          else if (case grace of None \<Rightarrow> False | Some g \<Rightarrow> \<not> expired now g q) then (Some Hold_Blocked, d)
          else case evidence q of
            Evidence_Raises \<Rightarrow> (None, d)
          | Evidence_Decides v \<Rightarrow> (Some v, d)
          | Evidence_Commits \<Rightarrow> (Some Hold_Held, commit_worker_hold now u d))"

section \<open>The workspace recovery hold\<close>

text \<open>
  \<^verbatim>\<open>park_worker_batch_for_workspace_recovery\<close>: the attempt of a leased member is refunded once, when
  it is the unauthorized, unrefunded attempt of this very count; \<^verbatim>\<open>claimed\<close> is the positive count that
  attempt row records, if there is such a row.
\<close>

definition recovery_park_eff :: "secs \<Rightarrow> secs \<Rightarrow> int option \<Rightarrow> row \<Rightarrow> row" where
  "recovery_park_eff now forever claimed q =
     q\<lparr>state := Parked, lease_token := lease_token q + 1,
       attempts_since_completion := attempts_since_completion q
         - of_bool (0 < attempts_since_completion q \<and> claimed = Some (attempts_since_completion q)),
       leased_by := None, last_leased_by := None, leased_until := None,
       interrupt_admission_lease_token := None, interrupt_admission_turn_id := None,
       run_after := forever, park_reason := Some ''workspace_recovery'', parked_at := Some now\<rparr>"

definition recovery_freeze_eff :: "secs \<Rightarrow> secs \<Rightarrow> row \<Rightarrow> row" where
  "recovery_freeze_eff now forever q =
     q\<lparr>state := Parked, lease_token := lease_token q + 1,
       leased_by := None, last_leased_by := None, leased_until := None,
       interrupt_admission_lease_token := None, interrupt_admission_turn_id := None,
       run_after := forever,
       park_reason := (case park_reason q of None \<Rightarrow> Some ''workspace_recovery'' | r \<Rightarrow> r),
       parked_at := (case parked_at q of None \<Rightarrow> Some now | x \<Rightarrow> x)\<rparr>"

definition inert_row :: "secs \<Rightarrow> secs \<Rightarrow> uuid \<Rightarrow> nat \<Rightarrow> row" where
  "inert_row now forever u ord =
     (fresh_row now u UNIT_KIND_WORKER_BATCH ord)\<lparr>state := Parked, run_after := forever\<rparr>"

text \<open>One stateless member: a missing row is inserted and held in the same transaction.\<close>

definition hold_member :: "secs \<Rightarrow> secs \<Rightarrow> (uuid \<Rightarrow> int \<Rightarrow> int option) \<Rightarrow> uuid \<Rightarrow> db \<Rightarrow> db" where
  "hold_member now forever claimed u d =
     (case row_of d u of
        None \<Rightarrow> insert_row d (recovery_freeze_eff now forever (inert_row now forever u (next_ord d)))
      | Some q \<Rightarrow>
          store d (if state q = Leased then recovery_park_eff now forever (claimed u (lease_token q)) q
                   else recovery_freeze_eff now forever q))"

text \<open>
  The admission of a hold: the members are the jobs of the workspace, with a mark for the stateless
  ones. The transaction raises when the reported lease is not the current expired one or a member's
  unit is of another kind; then nothing of it stays.
\<close>

definition batch_or_missing :: "db \<Rightarrow> uuid \<Rightarrow> bool" where
  "batch_or_missing d u \<longleftrightarrow>
     (case row_of d u of None \<Rightarrow> True | Some q \<Rightarrow> unit_kind q = UNIT_KIND_WORKER_BATCH)"

definition admit_hold ::
  "secs \<Rightarrow> secs \<Rightarrow> (uuid \<Rightarrow> int \<Rightarrow> int option) \<Rightarrow> uuid \<Rightarrow> int \<Rightarrow> secs \<Rightarrow> (uuid \<times> bool) list \<Rightarrow> db
   \<Rightarrow> bool option \<times> db" where
  "admit_hold now forever claimed u tok grace members d =
     (let stateless = map fst (filter snd members) in
      case row_of d u of None \<Rightarrow> (None, d)
      | Some q \<Rightarrow>
          if unit_kind q \<noteq> UNIT_KIND_WORKER_BATCH \<or> state q \<noteq> Leased \<or> lease_token q \<noteq> tok \<or>
             \<not> expired now grace q \<or> u \<notin> set stateless \<or>
             (\<exists>v \<in> set stateless. \<not> batch_or_missing d v)
          then (None, d)
          else (Some True, foldl (\<lambda>d v. hold_member now forever claimed v d) d stateless))"

text \<open>The classification before the admission, and whether the admission itself raises elsewhere.\<close>

datatype recovery_evidence =
  Recovery_Raises | Recovery_Held | Recovery_Not_Applicable | Recovery_Admits "(uuid \<times> bool) list"

definition admit_hold_from_reaper ::
  "secs \<Rightarrow> secs \<Rightarrow> (uuid \<Rightarrow> int \<Rightarrow> int option) \<Rightarrow> recovery_evidence \<Rightarrow> uuid \<Rightarrow> int \<Rightarrow> secs \<Rightarrow> db
   \<Rightarrow> bool option \<times> db" where
  "admit_hold_from_reaper now forever claimed evidence u tok grace d =
     (case evidence of
        Recovery_Raises \<Rightarrow> (None, d)
      | Recovery_Held \<Rightarrow> (Some True, d)
      | Recovery_Not_Applicable \<Rightarrow> (Some False, d)
      | Recovery_Admits members \<Rightarrow> admit_hold now forever claimed u tok grace members d)"

section \<open>The hook\<close>

text \<open>What the hook meets: the clock of its three writes and the verdicts of the other tables.\<close>

record worker_answers =
  wa_clock :: "nat \<Rightarrow> secs"
  wa_forever :: secs
  wa_recovery_enabled :: bool
  wa_first :: "row \<Rightarrow> hold_evidence"
  wa_recovery :: recovery_evidence
  wa_claimed :: "uuid \<Rightarrow> int \<Rightarrow> int option"
  wa_second :: "row \<Rightarrow> hold_evidence"

definition try_steal_worker_with_recovery :: "(candidate \<Rightarrow> worker_answers) \<Rightarrow> steal_hook" where
  "try_steal_worker_with_recovery answers c backoff grace d =
     (let a = answers c; u = cand_unit_id c; tok = cand_lease_token c;
          (first, d1) = hold_container_worker_attempt (wa_clock a 0) (wa_first a) u tok (Some grace) d
      in if first \<noteq> Some Hold_Not_Applicable then Inr (None, d1)
         else let (held, d2) =
                (if wa_recovery_enabled a
                 then admit_hold_from_reaper (wa_clock a 1) (wa_forever a) (wa_claimed a) (wa_recovery a) u tok grace d1
                 else (Some False, d1))
              in if held \<noteq> Some False then Inr (None, d2)
                 else let (second, d3) =
                        hold_container_worker_attempt (wa_clock a 2) (wa_second a) u tok (Some grace) d2
                      in if second \<noteq> Some Hold_Not_Applicable then Inr (None, d3)
                         else case reap_steal (wa_clock a 2) grace backoff c d3 of
                           Inl _ \<Rightarrow> Inr (None, d2)
                         | Inr (stolen, d4) \<Rightarrow> Inr (stolen, d4))"

section \<open>Only worker batches change\<close>

text \<open>
  The contract of everything the hook commits: the invariant of the queue is kept, no row goes
  away, and the rows that are no worker batches are exactly the ones that were there.
\<close>

definition worker_change :: "db \<Rightarrow> db \<Rightarrow> bool" where
  "worker_change d d' \<longleftrightarrow>
     (db_ok d \<longrightarrow> db_ok d') \<and> (\<forall>u. row_of d u \<noteq> None \<longrightarrow> row_of d' u \<noteq> None) \<and>
     (\<forall>u q. unit_kind q \<noteq> UNIT_KIND_WORKER_BATCH \<longrightarrow> row_of d' u = Some q \<longleftrightarrow> row_of d u = Some q)"

lemma worker_change_refl [simp]: "worker_change d d"
  by (simp add: worker_change_def)

lemma worker_change_trans: "worker_change d d1 \<Longrightarrow> worker_change d1 d2 \<Longrightarrow> worker_change d d2"
  by (simp add: worker_change_def)

lemma worker_change_store:
  assumes q: "row_of d u = Some q" "unit_kind q = UNIT_KIND_WORKER_BATCH"
    and s: "unit_id s = unit_id q" "unit_kind s = unit_kind q" "enqueue_ord s = enqueue_ord q" "state s \<noteq> Queued"
      "row_ok q \<Longrightarrow> row_ok s"
  shows "worker_change d (store d s)"
proof -
  have u: "unit_id s = u" using row_of_unit [OF q(1)] s(1) by simp
  have "db_ok (store d s)" if ok: "db_ok d"
    using db_ok_store [OF ok q(1) s(1,3) s(5) [OF row_of_ok [OF ok q(1)]]] s(4) dedup_conflict_queued by blast
  then show ?thesis
    using row_of_store [of d s] q u s(2) by (auto simp: worker_change_def)
qed

lemma worker_change_insert:
  assumes s: "row_of d (unit_id s) = None" "unit_kind s = UNIT_KIND_WORKER_BATCH"
    "enqueue_ord s = next_ord d" "row_ok s" "state s \<noteq> Queued"
  shows "worker_change d (insert_row d s)"
proof -
  have "db_ok (insert_row d s)" if ok: "db_ok d"
  proof -
    have q: "queue (insert_row d s) = queue d @ [s]" "next_ord (insert_row d s) = Suc (next_ord d)"
      by (simp_all add: insert_row_def)
    have new: "\<not> same_dedup s x" "\<not> same_dedup x s" for x using s(5) by (auto simp: same_dedup_def)
    show ?thesis
      using ok s(1,3,4) new unfolding db_ok_def q
      by (auto simp: row_of_None less_Suc_eq)
  qed
  then show ?thesis using s(1,2) by (auto simp: worker_change_def row_of_insert split: option.splits)
qed

lemma commit_worker_hold_change:
  assumes "row_of d u = Some q" "unit_kind q = UNIT_KIND_WORKER_BATCH"
  shows "worker_change d (commit_worker_hold now u d)"
proof -
  have "row_ok (worker_hold_eff now q)" if "row_ok q"
    using row_ok_bounds [OF that] by (intro row_ok_unleasedI) (auto simp: worker_hold_eff_def)
  then show ?thesis
    using worker_change_store [OF assms, of "worker_hold_eff now q"] assms(1)
    by (simp add: commit_worker_hold_def worker_hold_eff_def)
qed

lemma hold_attempt_change:
  "hold_container_worker_attempt now evidence u tok grace d = (v, d') \<Longrightarrow> worker_change d d'"
  using commit_worker_hold_change
  by (auto simp: hold_container_worker_attempt_def split: option.splits if_splits hold_evidence.splits)

lemma hold_member_change:
  assumes "batch_or_missing d u"
  shows "worker_change d (hold_member now forever claimed u d)"
proof (cases "row_of d u")
  case None
  let ?s = "recovery_freeze_eff now forever (inert_row now forever u (next_ord d))"
  have "row_ok ?s"
    by (intro row_ok_unleasedI) (simp_all add: recovery_freeze_eff_def inert_row_def fresh_row_def)
  then have "worker_change d (insert_row d ?s)"
    using None by (intro worker_change_insert)
      (simp_all add: recovery_freeze_eff_def inert_row_def fresh_row_def)
  then show ?thesis using None by (simp add: hold_member_def)
next
  case (Some q)
  then have kind: "unit_kind q = UNIT_KIND_WORKER_BATCH" using assms by (simp add: batch_or_missing_def)
  have ok: "row_ok (recovery_park_eff now forever cl q)" "row_ok (recovery_freeze_eff now forever q)"
    if "row_ok q" for cl
    using row_ok_bounds [OF that]
    by (auto intro!: row_ok_unleasedI simp: recovery_park_eff_def recovery_freeze_eff_def split: option.splits)
  then show ?thesis
    using worker_change_store [OF Some kind, of "recovery_park_eff now forever (claimed u (lease_token q)) q"]
      worker_change_store [OF Some kind, of "recovery_freeze_eff now forever q"] Some
    by (simp add: hold_member_def recovery_park_eff_def recovery_freeze_eff_def)
qed

lemma worker_change_kinds:
  assumes "worker_change d d'" "batch_or_missing d u"
  shows "batch_or_missing d' u"
proof (cases "row_of d' u")
  case (Some q)
  have "unit_kind q = UNIT_KIND_WORKER_BATCH"
  proof (rule ccontr)
    assume "unit_kind q \<noteq> UNIT_KIND_WORKER_BATCH"
    then have "row_of d u = Some q" using assms(1) Some by (simp add: worker_change_def)
    then show False using assms(2) \<open>unit_kind q \<noteq> _\<close> by (simp add: batch_or_missing_def)
  qed
  then show ?thesis using Some by (simp add: batch_or_missing_def)
qed (simp add: batch_or_missing_def)

lemma hold_members_change:
  "\<forall>u \<in> set us. batch_or_missing d u \<Longrightarrow>
   worker_change d (foldl (\<lambda>d v. hold_member now forever claimed v d) d us)"
proof (induction us arbitrary: d)
  case (Cons u us)
  have one: "worker_change d (hold_member now forever claimed u d)" using hold_member_change Cons.prems by simp
  then have "worker_change (hold_member now forever claimed u d)
      (foldl (\<lambda>d v. hold_member now forever claimed v d) (hold_member now forever claimed u d) us)"
    using Cons.prems by (intro Cons.IH ballI worker_change_kinds [OF one]) simp
  then show ?case using worker_change_trans [OF one] by simp
qed simp

lemma admit_hold_change:
  assumes "admit_hold_from_reaper now forever claimed evidence u tok grace d = (v, d')"
  shows "worker_change d d'"
proof (cases evidence)
  case (Recovery_Admits members)
  then have a: "admit_hold now forever claimed u tok grace members d = (v, d')"
    using assms by (simp add: admit_hold_from_reaper_def)
  let ?us = "map fst (filter snd members)"
  have "d' = d \<or> (d' = foldl (\<lambda>d v. hold_member now forever claimed v d) d ?us \<and> (\<forall>v \<in> set ?us. batch_or_missing d v))"
    using a unfolding admit_hold_def Let_def
    by (cases "row_of d u") (simp_all del: set_map set_filter split: if_splits, blast?)
  then show ?thesis using hold_members_change by auto
qed (use assms in \<open>simp_all add: admit_hold_from_reaper_def\<close>)

text \<open>What the hook commits, and what it reports of a worker batch.\<close>

lemma hook_change:
  assumes "try_steal_worker_with_recovery answers c b grace d = Inr (u, d')"
  obtains (held) "u = None" "worker_change d d'"
  | (stolen) d1 where "worker_change d d1" "reap_steal (wa_clock (answers c) 2) grace b c d1 = Inr (u, d')"
proof -
  let ?a = "answers c" let ?u = "cand_unit_id c" and ?tok = "cand_lease_token c"
  obtain v1 d1 where 1: "hold_container_worker_attempt (wa_clock ?a 0) (wa_first ?a) ?u ?tok (Some grace) d = (v1, d1)"
    by fastforce
  obtain v2 d2 where 2: "(if wa_recovery_enabled ?a
      then admit_hold_from_reaper (wa_clock ?a 1) (wa_forever ?a) (wa_claimed ?a) (wa_recovery ?a) ?u ?tok grace d1
      else (Some False, d1)) = (v2, d2)" by fastforce
  obtain v3 d3 where 3: "hold_container_worker_attempt (wa_clock ?a 2) (wa_second ?a) ?u ?tok (Some grace) d2 = (v3, d3)"
    by fastforce
  have w1: "worker_change d d1" using hold_attempt_change [OF 1] .
  have "worker_change d1 d2" using 2 admit_hold_change by (auto split: if_splits)
  then have w2: "worker_change d d2" using worker_change_trans [OF w1] by blast
  have w3: "worker_change d d3" using worker_change_trans [OF w2 hold_attempt_change [OF 3]] .
  note run = assms [unfolded try_steal_worker_with_recovery_def Let_def 1 prod.case 2 3]
  show ?thesis
  proof (cases "v1 = Some Hold_Not_Applicable \<and> v2 = Some False \<and> v3 = Some Hold_Not_Applicable")
    case True
    then show ?thesis
      using run held w2 stolen [OF w3]
      by (cases "reap_steal (wa_clock ?a 2) grace b c d3") auto
  next
    case False
    then have "u = None \<and> (d' = d1 \<or> d' = d2 \<or> d' = d3)" using run by (auto split: if_splits)
    then show ?thesis using held w1 w2 w3 by blast
  qed
qed

section \<open>No step changes the kind of a unit\<close>

definition keeps_kinds :: "db \<Rightarrow> db \<Rightarrow> bool" where
  "keeps_kinds d d' \<longleftrightarrow> (\<forall>u q. row_of d u = Some q \<longrightarrow> (\<exists>q'. row_of d' u = Some q' \<and> unit_kind q' = unit_kind q))"

lemma keeps_kinds_refl [simp]: "keeps_kinds d d"
  by (simp add: keeps_kinds_def)

lemma keeps_kinds_trans: "keeps_kinds d d1 \<Longrightarrow> keeps_kinds d1 d2 \<Longrightarrow> keeps_kinds d d2"
  unfolding keeps_kinds_def by metis

lemma cas_keeps_kinds:
  assumes "cas u guard eff d = Inr (x, d')"
    and "\<And>r. unit_id (eff r) = unit_id r" "\<And>r. unit_kind (eff r) = unit_kind r"
  shows "keeps_kinds d d'"
  using assms(1)
proof (cases rule: cas_cases)
  case (hit r)
  then show ?thesis
    using assms(2,3) row_of_unit [OF hit(1)] by (auto simp: keeps_kinds_def row_of_store)
qed simp

lemma insert_keeps_kinds [simp]: "keeps_kinds d (insert_row d r)"
  by (simp add: keeps_kinds_def insert_keeps)

lemma entries_keep_kinds:
  "enqueue_unit seen now u kind fair dk prio ra inp d = Inr (r1, d') \<Longrightarrow> keeps_kinds d d'"
  "record_input_seq seen now u kind sq fair d = Inr (r2, d') \<Longrightarrow> keeps_kinds d d'"
  "record_control_seq seen now u kind sq base fair d = Inr (r3, d') \<Longrightarrow> keeps_kinds d d'"
proof -
  show "keeps_kinds d d'" if "enqueue_unit seen now u kind fair dk prio ra inp d = Inr (r1, d')"
  proof (cases dk)
    case (Some k)
    then show ?thesis using that by (auto simp: enqueue_unit_def enqueue_dedup_sql_def Let_def split: if_splits)
  next
    case None
    then show ?thesis
      using that
      by (auto simp: enqueue_unit_def enqueue_sql_def map_ok_Inr Let_def enqueue_upd_def enqueue_merge_def
          elim!: cas_keeps_kinds split: option.splits if_splits)
  qed
  show "record_input_seq seen now u kind sq fair d = Inr (r2, d') \<Longrightarrow> keeps_kinds d d'"
    by (auto simp: record_input_seq_def record_input_sql_def map_ok_Inr Let_def record_input_upd_def
        record_input_merge_def elim!: cas_keeps_kinds split: option.splits if_splits)
  show "record_control_seq seen now u kind sq base fair d = Inr (r3, d') \<Longrightarrow> keeps_kinds d d'"
    by (auto simp: record_control_seq_def record_control_sql_def map_ok_Inr Let_def record_control_upd_def
        record_control_merge_def elim!: cas_keeps_kinds split: option.splits if_splits)
qed

lemma claim_keeps_kinds:
  assumes "db_ok d" "claim_unit locked now kind pod pref ttl grace d = Inr (res, d')"
  shows "keeps_kinds d d'"
proof (cases res)
  case None
  with assms(2) have "d' = d"
    by (cases rule: claim_unit_cases) (auto simp: claim_sql_def dest: claim_mark_None)
  then show ?thesis by simp
next
  case (Some c)
  obtain x where "row_of d (unit_id x) = Some x" "d' = store d (claim_update now pod ttl x)"
    using claim_unit_SomeE [OF assms(1) assms(2) [unfolded Some]] by metis
  then show ?thesis by (auto simp: keeps_kinds_def row_of_store claim_update_def)
qed

lemma release_keeps_kinds: "release_unit now u tok b err reason msg d = Inr (r, d') \<Longrightarrow> keeps_kinds d d'"
  by (cases reason) (auto simp: release_unit_def map_ok_Inr release_eff_def release_deterministic_eff_def
      Let_def elim!: cas_keeps_kinds)

lemma rq_step_kinds: "rq_step races d d' \<Longrightarrow> db_ok d \<Longrightarrow> keeps_kinds d d'"
proof (induction rule: rq_step.induct)
  case (beat now u tok ttl d r4 d')
  then show ?case by (auto simp: heartbeat_unit_def map_ok_Inr heartbeat_eff_def elim!: cas_keeps_kinds)
next
  case (admit u tok turn d r5 d')
  then show ?case
    by (auto simp: open_interrupt_admission_def map_ok_Inr open_eff_def elim!: cas_keeps_kinds split: if_splits)
next
  case (dismiss u tok turn wm d r5 d')
  then show ?case
    by (auto simp: close_interrupt_admission_def map_ok_Inr close_eff_def elim!: cas_keeps_kinds split: if_splits)
next
  case (finish now u tok wm d r6 d')
  then show ?case by (auto simp: complete_unit_def map_ok_Inr complete_eff_def elim!: cas_keeps_kinds)
next
  case (park now u tok reason msg d r6 d')
  then show ?case by (auto simp: park_unit_def map_ok_Inr park_eff_def elim!: cas_keeps_kinds)
next
  case (attach now u tok emsg sig backoff threshold d r7 d')
  then show ?case
    by (auto simp: record_attach_failure_def map_ok_Inr attach_failure_eff_def Let_def elim!: cas_keeps_kinds)
next
  case (steal now grace backoff c d r8 d')
  then show ?case by (auto simp: reap_steal_def map_ok_Inr reap_eff_def Let_def elim!: cas_keeps_kinds)
next
  case (unpark now u d r5 d')
  then show ?case by (auto simp: unpark_unit_def map_ok_Inr unpark_eff_def elim!: cas_keeps_kinds)
next
  case (settle now u wm d r6 d')
  then show ?case by (auto simp: settle_parked_unit_def map_ok_Inr settle_eff_def Let_def elim!: cas_keeps_kinds)
qed (auto dest: entries_keep_kinds claim_keeps_kinds release_keeps_kinds simp: keeps_kinds_def row_of_def)

lemma worker_change_keeps_kinds: "worker_change d d' \<Longrightarrow> keeps_kinds d d'"
  unfolding keeps_kinds_def
proof (intro allI impI)
  fix u q assume c: "worker_change d d'" and q: "row_of d u = Some q"
  obtain q' where q': "row_of d' u = Some q'" using c q by (auto simp: worker_change_def)
  have "q' = q" if "unit_kind q \<noteq> UNIT_KIND_WORKER_BATCH"
  proof -
    have "row_of d' u = Some q" using c q that unfolding worker_change_def by blast
    then show ?thesis using q' by simp
  qed
  moreover have "unit_kind q' = UNIT_KIND_WORKER_BATCH" if "unit_kind q = UNIT_KIND_WORKER_BATCH"
    using worker_change_kinds [OF c, of u] q q' that by (simp add: batch_or_missing_def)
  ultimately have "unit_kind q' = unit_kind q" by (cases "unit_kind q = UNIT_KIND_WORKER_BATCH") simp_all
  then show "\<exists>q'. row_of d' u = Some q' \<and> unit_kind q' = unit_kind q" using q' by blast
qed

end
