(* ===== verification/Claim_Loss_Runs.thy ===== *)
theory Claim_Loss_Runs
  imports Claim_Loss_Laws Worker_Hold
begin

text \<open>
  Everything that may happen to a session whose claimant was lost, as a step relation, and the
  invariant that ties the ledger and the hold in the thread's metadata to the parked row of the
  queue. The End of a session, which writes the ledger without a hold, is not a step.
\<close>

section \<open>Debt\<close>

definition debt_in :: "py \<Rightarrow> json \<Rightarrow> json option \<times> json option" where
  "debt_in p metadata =
     (case metadata_root p metadata of Inl _ \<Rightarrow> (None, None)
      | Inr md \<Rightarrow> (map_of md CLAIM_LOSS_LEDGER_KEY, map_of md CLAIM_LOSS_HOLD_KEY))"

definition claim_debt :: "py \<Rightarrow> world \<Rightarrow> uuid \<Rightarrow> json option \<times> json option" where
  "claim_debt p w t =
     (case thread_of w t of None \<Rightarrow> (None, None)
      | Some th \<Rightarrow> if th_lane th = LANE_STATELESS then debt_in p (th_metadata th) else (None, None))"

definition no_debt :: "json option \<times> json option" where "no_debt = (None, None)"

definition parked_row :: "world \<Rightarrow> uuid \<Rightarrow> bool" where
  "parked_row w t \<longleftrightarrow> (\<exists>q. row_of (rq w) t = Some q \<and> state q = Parked \<and> unit_kind q = UNIT_KIND_SESSION_TURN)"

definition debt_held :: "py \<Rightarrow> world \<Rightarrow> bool" where
  "debt_held p w \<longleftrightarrow>
     db_ok (rq w) \<and>
     (\<forall>t. (fst (claim_debt p w t) = None \<longleftrightarrow> snd (claim_debt p w t) = None) \<and>
          (claim_debt p w t \<noteq> no_debt \<longrightarrow> parked_row w t))"

section \<open>Steps\<close>

text \<open>
  The queue's own statements, except that a session is revived only through the guarded verbs;
  other callers unpark units that are no thread. Worker batches may change in any way that keeps the
  queue well formed, as the holds of the reaper's hook do. Other components may change the world as long
  as they leave the queue and the debt.
\<close>

inductive claim_step :: "bool \<Rightarrow> py \<Rightarrow> pg \<Rightarrow> world \<Rightarrow> world \<Rightarrow> bool" for races p g where
  queue: "rq_step races (rq w) d \<Longrightarrow> \<not> (\<exists>now v r. unpark_unit now v (rq w) = Inr (r, d)) \<Longrightarrow>
    \<not> (\<exists>now v wm r. settle_parked_unit now v wm (rq w) = Inr (r, d)) \<Longrightarrow> claim_step races p g w (w\<lparr>rq := d\<rparr>)"
| worker: "worker_change (rq w) d \<Longrightarrow> claim_step races p g w (w\<lparr>rq := d\<rparr>)"
| batch: "thread_of w v = None \<Longrightarrow> unpark_unit now v (rq w) = Inr (r, d) \<Longrightarrow> claim_step races p g w (w\<lparr>rq := d\<rparr>)"
| operator: "unpark_run_queue_unit p now t w = Inr w' \<Longrightarrow> claim_step races p g w w'"
| owner: "thread_of w t = Some th \<Longrightarrow> retry_parked_unit p now t th w = Inr (r, w') \<Longrightarrow> claim_step races p g w w'"
| decision: "decide_unknown_tool_results p g now fresh t dec tr w = Inr (out, tr', w') \<Longrightarrow> claim_step races p g w w'"
| steal: "steal_session_with_claim_loss p g now grace backoff c w = Inr (u, w') \<Longrightarrow> claim_step races p g w w'"
| evict: "mark_session_claim_eviction_requested p g now t tok pod uid w = Inr (ok, w') \<Longrightarrow> claim_step races p g w w'"
| acknowledge: "acknowledge_session_claim_quiesced p g terminal_of stamp t tok pod uid by e receipt w = Inr (ok, w') \<Longrightarrow>
    claim_step races p g w w'"
| status: "update_stateless_claim_status p t tok st w = (ok, w') \<Longrightarrow> claim_step races p g w w'"
| repair: "retry_stale_interrupt_thread p now t w = Inr (n, w') \<Longrightarrow> claim_step races p g w w'"
| prompts: "retry_stale_permission_thread p g now t w = Inr (n, w') \<Longrightarrow> claim_step races p g w w'"
| elsewhere: "rq w' = rq w \<Longrightarrow> (\<And>t. claim_debt p w' t = claim_debt p w t) \<Longrightarrow> claim_step races p g w w'"

section \<open>Reading the debt\<close>

lemma debt_view: "session_view w' u = session_view w u \<Longrightarrow> claim_debt p w' u = claim_debt p w u"
  by (auto simp: claim_debt_def session_view_def split: option.splits)

lemma view_put_queue [simp]: "session_view (put_queue q w) = session_view w"
  by (simp add: session_view_def fun_eq_iff)

lemma debt_queue [simp]: "claim_debt p (w\<lparr>rq := d\<rparr>) t = claim_debt p w t"
  by (rule debt_view) (simp add: session_view_def thread_of_def)

lemma debt_put_queue [simp]: "claim_debt p (put_queue q w) t = claim_debt p w t"
  by (rule debt_view) simp

lemma debt_put_thread:
  "thread_of w (th_id th) \<noteq> None \<Longrightarrow>
   claim_debt p (put_thread th w) u =
     (if u = th_id th then (if th_lane th = LANE_STATELESS then debt_in p (th_metadata th) else (None, None))
      else claim_debt p w u)"
  by (auto simp: claim_debt_def thread_of_put_thread)

lemma debt_in_root: "metadata_root p v = Inr md \<Longrightarrow>
   debt_in p v = (map_of md CLAIM_LOSS_LEDGER_KEY, map_of md CLAIM_LOSS_HOLD_KEY)"
  by (simp add: debt_in_def)

lemma debt_in_obj [simp]: "debt_in p (JObj md) = (map_of md CLAIM_LOSS_LEDGER_KEY, map_of md CLAIM_LOSS_HOLD_KEY)"
  by (simp add: debt_in_def metadata_root_def)

lemma claim_keys [simp]:
  "CLAIM_LOSS_HOLD_KEY \<noteq> CLAIM_LOSS_LEDGER_KEY" "ACTIVE_CLAIM_KEY \<noteq> CLAIM_LOSS_LEDGER_KEY"
  "ACTIVE_CLAIM_KEY \<noteq> CLAIM_LOSS_HOLD_KEY" "CLAIM_RETIREMENT_KEY \<noteq> CLAIM_LOSS_LEDGER_KEY"
  "CLAIM_RETIREMENT_KEY \<noteq> CLAIM_LOSS_HOLD_KEY" "CLAIM_LOSS_RECEIPTS_KEY \<noteq> CLAIM_LOSS_LEDGER_KEY"
  "CLAIM_LOSS_RECEIPTS_KEY \<noteq> CLAIM_LOSS_HOLD_KEY"
  "CLAIM_LOSS_LEDGER_KEY \<noteq> CLAIM_LOSS_HOLD_KEY" "CLAIM_LOSS_LEDGER_KEY \<noteq> ACTIVE_CLAIM_KEY"
  "CLAIM_LOSS_HOLD_KEY \<noteq> ACTIVE_CLAIM_KEY"
  by (simp_all add: CLAIM_LOSS_HOLD_KEY_def CLAIM_LOSS_LEDGER_KEY_def ACTIVE_CLAIM_KEY_def
      CLAIM_RETIREMENT_KEY_def CLAIM_LOSS_RECEIPTS_KEY_def)

lemmas claim_keys_sym [simp] = claim_keys(4-7) [symmetric]

lemma stop_keys: "CLAIM_LOSS_LEDGER_KEY \<in> STATELESS_STOP_KEYS" "CLAIM_LOSS_HOLD_KEY \<in> STATELESS_STOP_KEYS"
  by (auto simp: STATELESS_STOP_KEYS_def CLAIM_LOSS_HOLD_KEY_def CLAIM_LOSS_LEDGER_KEY_def)

text \<open>No stop marker, no debt: what the guarded verbs ask for.\<close>

lemma markers_root:
  "stateless_stop_markers p v =
     (case metadata_root p v of Inl _ \<Rightarrow> Inl Exn_Runtime | Inr md \<Rightarrow> Inr (STATELESS_STOP_KEYS \<inter> keys md))"
  by (simp add: stateless_stop_markers_def metadata_root_def split: json.splits option.splits)

lemma unmarked_no_debt:
  assumes "stateless_stop_markers p v = Inr {}"
  shows "debt_in p v = no_debt"
proof -
  obtain md where md: "metadata_root p v = Inr md" "STATELESS_STOP_KEYS \<inter> keys md = {}"
    using assms unfolding markers_root by (cases "metadata_root p v") simp_all
  then have "CLAIM_LOSS_LEDGER_KEY \<notin> keys md" "CLAIM_LOSS_HOLD_KEY \<notin> keys md" using stop_keys by blast+
  then show ?thesis unfolding debt_in_root [OF md(1)] map_of_keys no_debt_def by simp
qed

lemma parsed_debt:
  assumes "py_loads p s = Some x" "debt_in p x = no_debt"
  shows "debt_in p (JStr s) = no_debt"
proof (cases x)
  case (JObj d)
  then show ?thesis using assms by (simp add: debt_in_def metadata_root_def)
qed (simp_all add: debt_in_def metadata_root_def no_debt_def assms(1))

lemma null_debt: "debt_in p JNull = no_debt"
  by (simp add: debt_in_def metadata_root_def no_debt_def)

lemma metadata_object_debt: "debt_in p (metadata_object p v) = no_debt \<Longrightarrow> debt_in p v = no_debt"
proof (cases v)
  case (JStr s)
  moreover assume "debt_in p (metadata_object p v) = no_debt"
  ultimately show ?thesis
    by (cases "py_loads p s") (simp_all add: metadata_object_def parsed_debt)
qed (simp_all add: metadata_object_def null_debt)

lemma retry_no_debt: "park_retry_refusal p reason v = None \<Longrightarrow> debt_in p v = no_debt"
  by (rule metadata_object_debt, rule unmarked_no_debt)
    (auto simp: park_retry_refusal_def split: sum.splits if_splits)

lemma decide_no_debt: "unknown_result_refusal p v = None \<Longrightarrow> debt_in p v = no_debt"
  by (rule metadata_object_debt, rule unmarked_no_debt)
    (auto simp: unknown_result_refusal_def split: sum.splits if_splits)

lemma operator_no_debt:
  assumes "operator_markers p v = {}"
  shows "debt_in p v = no_debt"
proof -
  let ?v = "case v of JStr s \<Rightarrow> (case py_loads p s of None \<Rightarrow> JNull | Some x \<Rightarrow> x) | _ \<Rightarrow> v"
  have "stateless_stop_markers p ?v = Inr {}"
    using assms by (auto simp: operator_markers_def Let_def split: sum.splits)
  then have none: "debt_in p ?v = no_debt" by (rule unmarked_no_debt)
  show ?thesis
  proof (cases v)
    case (JStr s)
    then show ?thesis
    proof (cases "py_loads p s")
      case None
      then show ?thesis using JStr by (simp add: debt_in_def metadata_root_def no_debt_def)
    next
      case (Some x)
      then show ?thesis using none JStr parsed_debt by simp
    qed
  qed (use none in simp_all)
qed

section \<open>Rows\<close>

lemma debt_heldI:
  assumes "db_ok (rq w')"
    "\<And>u. fst (claim_debt p w' u) = None \<longleftrightarrow> snd (claim_debt p w' u) = None"
    "\<And>u. claim_debt p w' u \<noteq> no_debt \<Longrightarrow> parked_row w' u"
  shows "debt_held p w'"
  using assms by (simp add: debt_held_def)

lemma debt_heldD:
  assumes "debt_held p w"
  shows "db_ok (rq w)" "fst (claim_debt p w t) = None \<longleftrightarrow> snd (claim_debt p w t) = None"
    "claim_debt p w t \<noteq> no_debt \<Longrightarrow> parked_row w t"
  using assms by (auto simp: debt_held_def)

text \<open>A queue change at a unit without debt that leaves the parked rows of the others.\<close>

lemma debt_held_queue:
  assumes held: "debt_held p w" and db: "db_ok (rq w')"
    and debt: "\<And>u. claim_debt p w' u = claim_debt p w u"
    and rows: "\<And>u. claim_debt p w u \<noteq> no_debt \<Longrightarrow> parked_row w u \<Longrightarrow> parked_row w' u"
  shows "debt_held p w'"
  using held db rows debt_heldD(3) [OF held] by (auto simp: debt_held_def debt)

lemma unpark_frame:
  "unpark_unit now v d = Inr (r, d') \<Longrightarrow> u \<noteq> v \<Longrightarrow> row_of d' u = row_of d u"
  by (auto simp: unpark_unit_def map_ok_Inr dest: unpark.cas_frame)

lemma settle_frame:
  "settle_parked_unit now v wm d = Inr (r, d') \<Longrightarrow> u \<noteq> v \<Longrightarrow> row_of d' u = row_of d u"
  by (auto simp: settle_parked_unit_def map_ok_Inr dest: settle.cas_frame)

lemma unpark_row_held:
  assumes held: "debt_held p w" and none: "claim_debt p w t = no_debt" and un: "unpark_row now t w = Inr w'"
  shows "debt_held p w'"
proof -
  obtain r d where d: "unpark_unit now t (rq w) = Inr (r, d)" "w' = w\<lparr>rq := d\<rparr>"
    using un by (auto simp: unpark_row_def split: sum.splits if_splits)
  have "db_ok d" using rq_step_ok [OF rq_step.unpark [OF d(1)] debt_heldD(1) [OF held]] .
  then show ?thesis
    using none d(2) unpark_frame [OF d(1)]
    by (intro debt_held_queue [OF held]) (auto simp: parked_row_def, metis)
qed

lemma quiet_held:
  assumes held: "debt_held p w" and none: "claim_debt p w t = no_debt" and quiet: "queue_quiet t w w'"
  shows "debt_held p w'"
proof (rule debt_held_queue [OF held])
  show "db_ok (rq w')" using quiet debt_heldD(1) [OF held] by (simp add: queue_quiet_def)
  show "claim_debt p w' u = claim_debt p w u" for u
    using quiet by (intro debt_view) (simp add: queue_quiet_def)
  show "parked_row w' u" if "claim_debt p w u \<noteq> no_debt" "parked_row w u" for u
    using that none quiet by (cases "u = t") (auto simp: queue_quiet_def parked_row_def)
qed

section \<open>The steal\<close>

lemma map_of_without: "map_of (without d k) k' = (if k = k' then None else map_of d k')"
  by (induction d) (auto simp: without_def)

lemma map_of_merged: "map_of (merged a b) k = (case map_of b k of None \<Rightarrow> map_of a k | Some v \<Rightarrow> Some v)"
  by (auto simp: merged_def map_add_def map_of_keys map_of_filter_keys split: option.splits)

lemma steal_cases:
  assumes "steal_session_with_claim_loss p g now grace backoff c w = Inr (u, w')"
  obtains (none) "u = None" "w' = w"
  | (stolen) th q cur md rr w2 where "thread_of w (cand_unit_id c) = Some th" "th_lane th = LANE_STATELESS"
      "th_agent th = None" "current_claimant p c (th_metadata th) = Inr cur"
      "row_of (rq w) (cand_unit_id c) = Some q" "steal_guard now grace c q"
      "\<not> dedup_conflict (queue (rq w)) (reap_eff now backoff q)" "metadata_root p (th_metadata th) = Inr md"
      "journal_loss p now (cand_unit_id c) (stolen_session c q (reap_eff now backoff q))
         (put_queue (reap_eff now backoff q) w) = Inr (rr, w2)"
      "hold_session g now c cur md (stolen_session c q (reap_eff now backoff q)) w2 = Inr w'"
      "u = Some (stolen_session c q (reap_eff now backoff q))" "0 < cand_lease_token c"
  using assms
  by (auto simp: steal_session_with_claim_loss_def Let_def bind_ok_Inr map_ok_Inr split: option.splits if_splits)

lemma reap_eff_idle: "unit_id (reap_eff now b q) = unit_id q" "unit_kind (reap_eff now b q) = unit_kind q"
  "lease_token (reap_eff now b q) = lease_token q + 1" "state (reap_eff now b q) \<in> {Queued, Parked}"
  by (simp_all add: reap_eff_def Let_def)

lemma stolen_queue:
  assumes ok: "db_ok (rq w)" and q: "row_of (rq w) t = Some q" "steal_guard now grace c q"
    and no: "\<not> dedup_conflict (queue (rq w)) (reap_eff now b q)"
  shows "db_ok (rq (put_queue (reap_eff now b q) w))"
    "row_of (rq (put_queue (reap_eff now b q) w)) u = (if u = t then Some (reap_eff now b q) else row_of (rq w) u)"
proof -
  have "reap_guard ((rq w)\<lparr>recovery_jobs := []\<rparr>) now grace (cand_lease_token c) q"
    using q(2) by (simp add: reap_guard_def steal_guard_def recovery_held_def)
  then have "row_ok (reap_eff now b q)" using reap.eff_ok row_of_ok [OF ok q(1)] by blast
  then show "db_ok (rq (put_queue (reap_eff now b q) w))"
    using db_ok_store [OF ok q(1) reap.eff_unit reap.eff_ord _ no] by simp
  show "row_of (rq (put_queue (reap_eff now b q) w)) u = (if u = t then Some (reap_eff now b q) else row_of (rq w) u)"
    using row_of_store [of "rq w" "reap_eff now b q" u] row_of_unit [OF q(1)] q(1) by (simp add: reap_eff_idle)
qed

lemma hold_cases:
  assumes "hold_session g now c cur md unit w = Inr w'"
  obtains q th where "row_of (rq w) (cand_unit_id c) = Some q" "thread_of w (cand_unit_id c) = Some th"
    "lease_token q = su_lease_token unit" "leased_by q = None" "state q \<noteq> Leased"
    "w' = (let w1 = put_thread (th\<lparr>th_metadata := JObj (stolen_metadata g c cur (su_lease_token unit) q md)\<rparr>) w
           in if loss_ledger c cur md = [] then w1 else put_queue (hold_eff now q) w1)"
  using assms by (auto simp: hold_session_def Let_def split: option.splits if_splits)

lemma hold_eff_ok:
  assumes "row_ok q" "state q \<noteq> Leased"
  shows "row_ok (hold_eff now q)"
  using assms by (auto simp: hold_eff_def shape_defs split: option.splits)

lemma stolen_metadata_debt:
  "map_of (stolen_metadata g c cur tok q md) CLAIM_LOSS_LEDGER_KEY =
     (if loss_ledger c cur md = [] then None else Some (JObj (loss_ledger c cur md)))"
  "map_of (stolen_metadata g c cur tok q md) CLAIM_LOSS_HOLD_KEY =
     (if loss_ledger c cur md = [] then None else Some (JObj (hold_of g tok q)))"
  "map_of (stolen_metadata g c cur tok q md) ACTIVE_CLAIM_KEY = None"
  by (simp_all add: stolen_metadata_def Let_def map_of_without map_of_merged)

text \<open>The hold gives the row its disposition or parks it; it is never leased afterwards.\<close>

lemma hold_session_held:
  assumes ok: "db_ok (rq w)" and hold: "hold_session g now c cur md unit w = Inr w'"
    and th: "thread_of w (cand_unit_id c) = Some th" "th_lane th = LANE_STATELESS"
  shows "db_ok (rq w')" "u \<noteq> cand_unit_id c \<Longrightarrow> row_of (rq w') u = row_of (rq w) u"
    "u \<noteq> cand_unit_id c \<Longrightarrow> claim_debt p w' u = claim_debt p w u"
    "fst (claim_debt p w' (cand_unit_id c)) =
       (if loss_ledger c cur md = [] then None else Some (JObj (loss_ledger c cur md)))"
    "snd (claim_debt p w' (cand_unit_id c)) = None \<longleftrightarrow> loss_ledger c cur md = []"
    "(\<And>q. row_of (rq w) (cand_unit_id c) = Some q \<Longrightarrow> unit_kind q = UNIT_KIND_SESSION_TURN) \<Longrightarrow>
       loss_ledger c cur md \<noteq> [] \<Longrightarrow> parked_row w' (cand_unit_id c)"
  using hold
proof (induct rule: hold_cases)
  case (1 q x)
  let ?t = "cand_unit_id c" and ?L = "loss_ledger c cur md"
  let ?x = "x\<lparr>th_metadata := JObj (stolen_metadata g c cur (su_lease_token unit) q md)\<rparr>"
  have x: "x = th" "th_id ?x = ?t" using 1(2) th(1) thread_of_id [OF th(1)] by simp_all
  have some: "thread_of w (th_id ?x) \<noteq> None" using x th(1) by simp
  have w': "w' = (if ?L = [] then put_thread ?x w else put_queue (hold_eff now q) (put_thread ?x w))"
    using 1(6) by (simp add: Let_def)
  have unit: "unit_id (hold_eff now q) = ?t" using row_of_unit [OF 1(1)] by (simp add: hold_eff_def)
  have rows: "row_of (rq w') u = (if u = ?t \<and> ?L \<noteq> [] then Some (hold_eff now q) else row_of (rq w) u)" for u
    using row_of_store [of "rq w" "hold_eff now q" u] 1(1) unit by (cases "u = ?t") (simp_all add: w')
  have debt: "claim_debt p w' u = (if u = ?t then debt_in p (th_metadata ?x) else claim_debt p w u)" for u
    using debt_put_thread [OF some, of p u] x th(2) by (cases "u = ?t") (simp_all add: w')
  have "\<not> dedup_conflict (queue (rq w)) (hold_eff now q)"
    using dedup_conflict_queued by (force simp: hold_eff_def)
  then have "db_ok (store (rq w) (hold_eff now q))"
    by (intro db_ok_store [OF ok 1(1)]) (simp_all add: hold_eff_def [of now q] hold_eff_ok
        [OF row_of_ok [OF ok 1(1)] 1(5), unfolded hold_eff_def])
  then show "db_ok (rq w')" using ok by (simp add: w')
  show "u \<noteq> ?t \<Longrightarrow> row_of (rq w') u = row_of (rq w) u" by (simp add: rows)
  show "u \<noteq> ?t \<Longrightarrow> claim_debt p w' u = claim_debt p w u" by (simp add: debt)
  show "fst (claim_debt p w' ?t) = (if ?L = [] then None else Some (JObj ?L))"
    by (simp add: debt stolen_metadata_debt)
  show "snd (claim_debt p w' ?t) = None \<longleftrightarrow> ?L = []" by (simp add: debt stolen_metadata_debt)
  show "?L \<noteq> [] \<Longrightarrow> parked_row w' ?t"
    if "\<And>q. row_of (rq w) ?t = Some q \<Longrightarrow> unit_kind q = UNIT_KIND_SESSION_TURN"
    using that [OF 1(1)] by (simp add: parked_row_def rows) (simp add: hold_eff_def)
qed

lemma steal_held:
  assumes held: "debt_held p w" and steal: "steal_session_with_claim_loss p g now grace backoff c w = Inr (u, w')"
  shows "debt_held p w'"
  using steal
proof (cases rule: steal_cases)
  case none
  then show ?thesis using held by simp
next
  case (stolen th q cur md rr w2)
  let ?t = "cand_unit_id c" and ?w1 = "put_queue (reap_eff now backoff q) w"
  note q1 = stolen_queue [OF debt_heldD(1) [OF held] stolen(5-7)]
  have quiet: "queue_quiet ?t ?w1 w2" using queue_settlement.journal_quiet [OF stolen(9)] .
  have ok2: "db_ok (rq w2)" using quiet q1(1) by (simp add: queue_quiet_def)
  have view: "session_view w2 = session_view w" using quiet by (simp add: queue_quiet_def)
  obtain th2 where th2: "thread_of w2 ?t = Some th2" "th_lane th2 = LANE_STATELESS"
    using stolen(1,2) fun_cong [OF view, of ?t] by (auto simp: session_view_def)
  have "row_of (rq ?w1) ?t = Some (reap_eff now backoff q)" "state (reap_eff now backoff q) \<noteq> Leased"
    using q1(2) [of ?t] reap_eff_idle(4) [of now backoff q] by auto
  then have "idle_after (reap_eff now backoff q) (row_of (rq w2) ?t)"
    using quiet unfolding queue_quiet_def by blast
  then have kind: "unit_kind x = UNIT_KIND_SESSION_TURN" if "row_of (rq w2) ?t = Some x" for x
    using that stolen(6) by (auto simp: idle_after_def reap_eff_idle steal_guard_def)
  note H = hold_session_held [OF ok2 stolen(10) th2]
  have other: "row_of (rq w') v = row_of (rq w) v" "claim_debt p w' v = claim_debt p w v" if "v \<noteq> ?t" for v
    using that H(2,3) quiet q1(2) debt_view [of w2 v w p] view by (auto simp: queue_quiet_def)
  show ?thesis
  proof (rule debt_heldI)
    show "fst (claim_debt p w' v) = None \<longleftrightarrow> snd (claim_debt p w' v) = None" for v
      using H(4,5) [of p] other(2) debt_heldD(2) [OF held] by (cases "v = ?t") (simp_all split: if_splits)
    show "parked_row w' v" if debt: "claim_debt p w' v \<noteq> no_debt" for v
    proof (cases "v = ?t")
      case True
      then have "loss_ledger c cur md \<noteq> []" using debt H(4,5) [of p] by (auto simp: no_debt_def prod_eq_iff)
      then show ?thesis using H(6) [OF kind] True by simp
    next
      case False
      then show ?thesis using debt other debt_heldD(3) [OF held] by (simp add: parked_row_def)
    qed
  qed (rule H(1))
qed

section \<open>Acknowledgement\<close>

text \<open>An acknowledgement changes nothing, or settles the loss it names exactly.\<close>

lemma acknowledge_cases:
  assumes "acknowledge_session_claim_quiesced p g terminal_of stamp t tok pod uid by e receipt w = Inr (ok, w')"
  obtains (nothing) "\<not> ok" "w' = w"
  | (settled) th md losses q where "stateless_session w t = Some th" "metadata_root p (th_metadata th) = Inr md"
      "unresolved_claim_losses p (JObj md) = Inr losses" "matching_loss losses tok (strip pod) (strip uid) \<noteq> None"
      "session_row w t = Some q" "0 < tok"
      "settle_loss p g tok (strip pod) (strip uid) by
         (map_option (settlement_receipt tok (strip pod) (strip uid) by stamp) receipt) th q md w = Inr (ok, w')"
proof -
  let ?o = "strip pod" and ?u = "strip uid"
  consider (n) "\<not> ok" "w' = w" | (th) th where "stateless_session w t = Some th" "0 < tok"
    using assms
    by (auto simp: acknowledge_session_claim_quiesced_def Let_def split: option.splits if_splits)
  then show ?thesis
  proof cases
    case n
    then show ?thesis by (rule nothing)
  next
    case (th th)
    show ?thesis
    proof (cases "strip pod = [] \<or> strip uid = []")
      case True
      then have "\<not> ok" "w' = w" using assms by (auto simp: acknowledge_session_claim_quiesced_def)
      then show ?thesis by (rule nothing)
    next
      case False
      note ack = assms [unfolded acknowledge_session_claim_quiesced_def Let_def]
      obtain md losses where md: "metadata_root p (th_metadata th) = Inr md"
        "unresolved_claim_losses p (JObj md) = Inr losses"
        using ack False th by (auto simp: bind_ok_Inr)
      consider "\<not> ok" "w' = w" | q where "matching_loss losses tok ?o ?u \<noteq> None" "session_row w t = Some q"
        using ack False th md by (auto split: if_splits option.splits)
      then show ?thesis
      proof cases
        case 1
        then show ?thesis by (rule nothing)
      next
        case (2 q)
        then have "(\<not> ok \<and> w' = w) \<or> settle_loss p g tok ?o ?u by
            (map_option (settlement_receipt tok ?o ?u by stamp) receipt) th q md w = Inr (ok, w')"
          using ack False th md by (auto simp: bind_ok_Inr split: option.splits if_splits)
        then consider "\<not> ok" "w' = w" | "settle_loss p g tok ?o ?u by
            (map_option (settlement_receipt tok ?o ?u by stamp) receipt) th q md w = Inr (ok, w')"
          by argo
        then show ?thesis by cases (rule nothing, assumption+, rule settled [OF th(1) md 2 th(2)])
      qed
    qed
  qed
qed

lemma settle_loss_cases:
  assumes "settle_loss p g tok owner uid by receipt th q md w = Inr (ok, w')"
  obtains (nothing) "\<not> ok" "w' = w"
  | (settled) retirement hold raw w1 where "ok" "pending_retirement md = Inr retirement"
      "claim_loss_hold p md = Inr hold" "raw = without (object_at md CLAIM_LOSS_LEDGER_KEY) (int_text tok)"
      "w1 = put_thread (th\<lparr>th_metadata := JObj (settled_metadata md raw retirement by receipt)\<rparr>) w"
      "names_claimant g md tok owner uid"
      "case hold of Some h \<Rightarrow> if raw = [] \<and> retirement = None then restore_unit p g h q w1 = Inr w' else w' = w1
       | None \<Rightarrow> w' = w1"
proof -
  let ?raw = "without (object_at md CLAIM_LOSS_LEDGER_KEY) (int_text tok)"
  obtain ret hold where r: "pending_retirement md = Inr ret" "claim_loss_hold p md = Inr hold"
    using assms by (auto simp: settle_loss_def bind_ok_Inr)
  let ?w1 = "put_thread (th\<lparr>th_metadata := JObj (settled_metadata md ?raw ret by receipt)\<rparr>) w"
  note settle = assms [unfolded settle_loss_def r bind_ok_simps Let_def]
  show ?thesis
  proof (cases "\<not> names_claimant g md tok owner uid \<or> jget (ledger_entry md tok) (lit ''quiesced'') \<noteq> JBool False")
    case True
    then have "\<not> ok" "w' = w" using settle by (simp_all split: if_splits)
    then show ?thesis by (rule nothing)
  next
    case False
    then have "ok \<and> (case hold of Some h \<Rightarrow> if ?raw = [] \<and> ret = None then restore_unit p g h q ?w1 = Inr w' else w' = ?w1
       | None \<Rightarrow> w' = ?w1)"
      using settle by (cases hold) (auto simp: map_ok_Inr split: if_splits)
    then show ?thesis using settled [OF _ r refl refl] False by blast
  qed
qed

lemma restore_cases:
  assumes "restore_unit p g hold q w = Inr w'"
  obtains ra qa where "text_time g (jget hold (lit ''run_after'')) = Inr ra"
    "text_time g (jget hold (lit ''queued_at'')) = Inr qa" "state q = Parked" "leased_by q = None"
    "jget hold (lit ''lease_token'') = JInt (lease_token q)"
    "w' = put_queue (restore_eff (restored_state p hold q)
            (case jget hold (lit ''attempts_since_completion'') of JInt n \<Rightarrow> n | _ \<Rightarrow> 0) ra qa
            (case jget hold (lit ''park_reason'') of JStr s \<Rightarrow> Some s | _ \<Rightarrow> None) q) w"
    "\<not> dedup_conflict (queue (rq w)) (restore_eff (restored_state p hold q)
            (case jget hold (lit ''attempts_since_completion'') of JInt n \<Rightarrow> n | _ \<Rightarrow> 0) ra qa
            (case jget hold (lit ''park_reason'') of JStr s \<Rightarrow> Some s | _ \<Rightarrow> None) q)"
  using assms by (auto simp: restore_unit_def Let_def bind_ok_Inr split: if_splits)

lemma restored_state_free: "restored_state p hold q \<noteq> Leased"
  by (simp add: restored_state_def Let_def)

lemma hold_attempts:
  "claim_loss_hold p md = Inr (Some h) \<Longrightarrow> \<exists>n. jget h (lit ''attempts_since_completion'') = JInt n \<and> 0 \<le> n"
  by (auto simp: claim_loss_hold_def split: if_splits json.splits)

lemma restore_eff_ok:
  assumes "row_ok q" "state q = Parked" "st \<noteq> Leased" "0 \<le> n"
  shows "row_ok (restore_eff st n ra qa reason q)"
  using assms row_ok_unleased [OF assms(1)] row_ok_bounds [OF assms(1)]
  by (intro row_ok_unleasedI) (auto simp: restore_eff_def row_ok_def)

lemma restore_queue:
  assumes ok: "db_ok (rq w)" and q: "row_of (rq w) t = Some q" and hold: "claim_loss_hold p md = Inr (Some h)"
    and res: "restore_unit p g h q w = Inr w'"
  shows "db_ok (rq w')" "u \<noteq> t \<Longrightarrow> row_of (rq w') u = row_of (rq w) u" "session_view w' = session_view w"
proof -
  obtain n where n: "jget h (lit ''attempts_since_completion'') = JInt n" "0 \<le> n"
    using hold_attempts [OF hold] by blast
  obtain ra qa reason where r: "state q = Parked"
    "w' = put_queue (restore_eff (restored_state p h q) n ra qa reason q) w"
    "\<not> dedup_conflict (queue (rq w)) (restore_eff (restored_state p h q) n ra qa reason q)"
    using res by (cases rule: restore_cases) (simp add: n(1))
  let ?q = "restore_eff (restored_state p h q) n ra qa reason q"
  have id: "unit_id ?q = unit_id q" "enqueue_ord ?q = enqueue_ord q" by (simp_all add: restore_eff_def)
  have "row_ok ?q" using restore_eff_ok [OF row_of_ok [OF ok q] r(1) restored_state_free n(2)] .
  then show "db_ok (rq w')" using db_ok_store [OF ok q id _ r(3)] by (simp add: r(2))
  show "u \<noteq> t \<Longrightarrow> row_of (rq w') u = row_of (rq w) u"
    using row_of_store [of "rq w" ?q u] row_of_unit [OF q] q by (simp add: r(2) id)
  show "session_view w' = session_view w" by (simp add: r(2))
qed

lemma settled_metadata_debt:
  "map_of (settled_metadata md raw ret by receipt) CLAIM_LOSS_LEDGER_KEY = (if raw = [] then None else Some (JObj raw))"
  "map_of (settled_metadata md raw ret by receipt) CLAIM_LOSS_HOLD_KEY =
     (if raw = [] then None else map_of md CLAIM_LOSS_HOLD_KEY)"
  by (simp_all add: settled_metadata_def Let_def map_of_without map_of_merged split: option.splits)

lemma session_row_of: "session_row w t = Some q \<Longrightarrow> row_of (rq w) t = Some q \<and> unit_kind q = UNIT_KIND_SESSION_TURN"
  by (auto simp: session_row_def split: option.splits if_splits)

lemma stateless_session_of: "stateless_session w t = Some th \<Longrightarrow> thread_of w t = Some th \<and> th_lane th = LANE_STATELESS"
  by (auto simp: stateless_session_def split: option.splits if_splits)

lemma settle_loss_held:
  assumes held: "debt_held p w" and th: "thread_of w t = Some th" "th_lane th = LANE_STATELESS"
    and md: "metadata_root p (th_metadata th) = Inr md" and q: "row_of (rq w) t = Some q"
    and settle: "settle_loss p g tok owner uid by receipt th q md w = Inr (ok, w')"
  shows "debt_held p w'"
  using settle
proof (cases rule: settle_loss_cases)
  case nothing
  then show ?thesis using held by simp
next
  case (settled retirement hold raw w1)
  let ?th = "th\<lparr>th_metadata := JObj (settled_metadata md raw retirement by receipt)\<rparr>"
  have old: "claim_debt p w t = (map_of md CLAIM_LOSS_LEDGER_KEY, map_of md CLAIM_LOSS_HOLD_KEY)"
    using th md by (simp add: claim_debt_def debt_in_root)
  have some: "thread_of w (th_id ?th) \<noteq> None" using th(1) thread_of_id [OF th(1)] by simp
  have debt1: "claim_debt p w1 u = (if u = t then (if raw = [] then no_debt
      else (Some (JObj raw), map_of md CLAIM_LOSS_HOLD_KEY)) else claim_debt p w u)" for u
    using debt_put_thread [OF some, of p u] thread_of_id [OF th(1)] th(2)
    by (cases "u = t") (simp_all add: settled(5) settled_metadata_debt no_debt_def)
  have parked: "parked_row w t" "map_of md CLAIM_LOSS_HOLD_KEY \<noteq> None" if "raw \<noteq> []"
  proof -
    have "object_at md CLAIM_LOSS_LEDGER_KEY \<noteq> []" using that settled(4) by (auto simp: without_def)
    then have "map_of md CLAIM_LOSS_LEDGER_KEY \<noteq> None"
      by (cases "map_of md CLAIM_LOSS_LEDGER_KEY") (simp_all add: object_at_def jget_def)
    then show "parked_row w t" "map_of md CLAIM_LOSS_HOLD_KEY \<noteq> None"
      using debt_heldD(2,3) [OF held, of t] old by (auto simp: no_debt_def)
  qed
  have rq1: "rq w1 = rq w" by (simp add: settled(5))
  have held1: "debt_held p w1"
  proof (rule debt_heldI)
    show "fst (claim_debt p w1 u) = None \<longleftrightarrow> snd (claim_debt p w1 u) = None" for u
      using debt_heldD(2) [OF held] parked(2) by (simp add: debt1 no_debt_def)
    show "parked_row w1 u" if "claim_debt p w1 u \<noteq> no_debt" for u
      using that debt_heldD(3) [OF held, of u] parked(1)
      by (simp add: debt1 parked_row_def rq1 split: if_splits)
  qed (simp add: rq1 debt_heldD(1) [OF held])
  consider "w' = w1" | h where "hold = Some h" "raw = []" "restore_unit p g h q w1 = Inr w'"
    using settled(7) by (auto split: option.splits if_splits)
  then show ?thesis
  proof cases
    case 1
    then show ?thesis using held1 by simp
  next
    case (2 h)
    have q1: "row_of (rq w1) t = Some q" using q by (simp add: rq1)
    note R = restore_queue [OF debt_heldD(1) [OF held1] q1 settled(3) [unfolded 2(1)] 2(3)]
    show ?thesis
    proof (rule debt_held_queue [OF held1 R(1)])
      show "claim_debt p w' u = claim_debt p w1 u" for u by (rule debt_view) (simp add: R(3))
      show "parked_row w' u" if "claim_debt p w1 u \<noteq> no_debt" "parked_row w1 u" for u
        using that 2(2) R(2) [of u] by (cases "u = t") (auto simp: debt1 parked_row_def)
    qed
  qed
qed

section \<open>The remaining steps\<close>

lemma mark_cases:
  assumes "mark_session_claim_eviction_requested p g now t tok pod uid w = Inr (ok, w')"
  obtains (nothing) "w' = w"
  | (marked) th md ledger where "thread_of w t = Some th" "th_lane th = LANE_STATELESS"
      "metadata_root p (th_metadata th) = Inr md" "unresolved_claim_losses p (th_metadata th) \<noteq> Inr []"
      "ok" "w' = put_thread (th\<lparr>th_metadata := JObj (merged md [(CLAIM_LOSS_LEDGER_KEY, JObj ledger)])\<rparr>) w"
proof (cases "w' = w")
  case False
  note mark = assms [unfolded mark_session_claim_eviction_requested_def Let_def]
  obtain th where th: "stateless_session w t = Some th" "\<not> (tok \<le> 0 \<or> strip pod = [] \<or> strip uid = [])"
    using mark False by (auto split: if_splits option.splits)
  obtain losses c where l: "unresolved_claim_losses p (th_metadata th) = Inr losses"
    "matching_loss losses tok (strip pod) (strip uid) = Some c"
    using mark False th by (auto simp: bind_ok_Inr split: option.splits)
  obtain md ledger where md: "metadata_root p (th_metadata th) = Inr md"
    "ok" "w' = put_thread (th\<lparr>th_metadata := JObj (merged md [(CLAIM_LOSS_LEDGER_KEY, JObj ledger)])\<rparr>) w"
    using mark False th l by (auto simp: bind_ok_Inr split: if_splits)
  have "unresolved_claim_losses p (th_metadata th) \<noteq> Inr []"
    using l by (auto simp: matching_loss_def)
  then show ?thesis using that(2) stateless_session_of [OF th(1)] md by blast
qed (rule that(1))

lemma losses_none: "metadata_root p v = Inr md \<Longrightarrow> map_of md CLAIM_LOSS_LEDGER_KEY = None \<Longrightarrow>
   unresolved_claim_losses p v = Inr []"
  by (simp add: unresolved_claim_losses_def map_of_keys)

lemma mark_held:
  assumes held: "debt_held p w" and mark: "mark_session_claim_eviction_requested p g now t tok pod uid w = Inr (ok, w')"
  shows "debt_held p w'"
  using mark
proof (cases rule: mark_cases)
  case nothing
  then show ?thesis using held by simp
next
  case (marked th md ledger)
  let ?th = "th\<lparr>th_metadata := JObj (merged md [(CLAIM_LOSS_LEDGER_KEY, JObj ledger)])\<rparr>"
  have old: "claim_debt p w t = (map_of md CLAIM_LOSS_LEDGER_KEY, map_of md CLAIM_LOSS_HOLD_KEY)"
    using marked(1-3) by (simp add: claim_debt_def debt_in_root)
  have led: "map_of md CLAIM_LOSS_LEDGER_KEY \<noteq> None" using losses_none [OF marked(3)] marked(4) by blast
  have some: "thread_of w (th_id ?th) \<noteq> None" using marked(1) thread_of_id [OF marked(1)] by simp
  have debt: "claim_debt p w' u = (if u = t then (Some (JObj ledger), map_of md CLAIM_LOSS_HOLD_KEY)
      else claim_debt p w u)" for u
    using debt_put_thread [OF some, of p u] thread_of_id [OF marked(1)] marked(2)
    by (cases "u = t") (simp_all add: marked(6) map_of_merged)
  have rows: "rq w' = rq w" by (simp add: marked(6))
  have t: "parked_row w t" "map_of md CLAIM_LOSS_HOLD_KEY \<noteq> None"
    using debt_heldD(2,3) [OF held, of t] led old by (auto simp: no_debt_def)
  show ?thesis
  proof (rule debt_heldI)
    show "fst (claim_debt p w' u) = None \<longleftrightarrow> snd (claim_debt p w' u) = None" for u
      using debt_heldD(2) [OF held] t(2) by (simp add: debt)
    show "parked_row w' u" if "claim_debt p w' u \<noteq> no_debt" for u
      using that debt_heldD(3) [OF held, of u] t(1)
      by (cases "u = t") (simp_all add: debt parked_row_def rows)
  qed (simp add: rows debt_heldD(1) [OF held])
qed

lemma status_view:
  assumes "update_stateless_claim_status p t tok st w = (ok, w')"
  shows "rq w' = rq w \<and> session_view w' = session_view w"
proof (cases "w' = w")
  case False
  then obtain th where th: "thread_of w t = Some th" "w' = put_thread (th\<lparr>th_status := st\<rparr>) w"
    using assms
    by (auto simp: update_stateless_claim_status_def dest: stateless_session_of
        split: option.splits if_splits sum.splits prod.splits)
  then show ?thesis
    using thread_of_id [OF th(1)] by (auto simp: session_view_def fun_eq_iff thread_of_put_thread)
qed simp

section \<open>The invariant over every step\<close>

lemma queue_step_held:
  assumes held: "debt_held p w" and step: "rq_step races (rq w) d"
    and "\<not> (\<exists>now v r. unpark_unit now v (rq w) = Inr (r, d))"
    and "\<not> (\<exists>now v wm r. settle_parked_unit now v wm (rq w) = Inr (r, d))"
  shows "debt_held p (w\<lparr>rq := d\<rparr>)"
proof (rule debt_held_queue [OF held])
  show "db_ok (rq (w\<lparr>rq := d\<rparr>))" using rq_step_ok [OF step debt_heldD(1) [OF held]] by simp
  show "parked_row (w\<lparr>rq := d\<rparr>) u" if parked: "parked_row w u" for u
  proof -
    obtain q where q: "row_of (rq w) u = Some q" "state q = Parked" "unit_kind q = UNIT_KIND_SESSION_TURN"
      using parked by (auto simp: parked_row_def)
    obtain s where "row_of d u = Some s" "unit_kind s = unit_kind q"
      using rq_step_kinds [OF step debt_heldD(1) [OF held]] q(1) by (auto simp: keeps_kinds_def)
    then show ?thesis
      using rq_step_parked [OF step debt_heldD(1) [OF held] q(1,2)] assms(3,4) q(3) by (auto simp: parked_row_def)
  qed
qed simp

lemma worker_step_held:
  assumes held: "debt_held p w" and change: "worker_change (rq w) d"
  shows "debt_held p (w\<lparr>rq := d\<rparr>)"
proof (rule debt_held_queue [OF held])
  show "db_ok (rq (w\<lparr>rq := d\<rparr>))" using change debt_heldD(1) [OF held] by (simp add: worker_change_def)
  show "parked_row (w\<lparr>rq := d\<rparr>) u" if parked: "parked_row w u" for u
  proof -
    obtain q where q: "row_of (rq w) u = Some q" "state q = Parked" "unit_kind q = UNIT_KIND_SESSION_TURN"
      using parked by (auto simp: parked_row_def)
    then have "unit_kind q \<noteq> UNIT_KIND_WORKER_BATCH"
      by (simp add: UNIT_KIND_SESSION_TURN_def UNIT_KIND_WORKER_BATCH_def)
    then have "row_of d u = Some q" using change q(1) unfolding worker_change_def by blast
    then show ?thesis using q by (simp add: parked_row_def)
  qed
qed simp

lemma verb_held:
  assumes held: "debt_held p w"
  shows "unpark_run_queue_unit p now t w = Inr w' \<Longrightarrow> debt_held p w'"
    "thread_of w t = Some th \<Longrightarrow> retry_parked_unit p now t th w = Inr (r, w') \<Longrightarrow> debt_held p w'"
    "decide_unknown_tool_results p g now fresh t dec tr w = Inr (out, tr', w') \<Longrightarrow> debt_held p w'"
proof -
  assume un: "unpark_run_queue_unit p now t w = Inr w'"
  then have "claim_debt p w t = no_debt"
    using operator_no_debt
    by (auto simp: unpark_run_queue_unit_def claim_debt_def no_debt_def split: option.splits if_splits)
  with un show "debt_held p w'"
    using unpark_row_held [OF held] by (auto simp: unpark_run_queue_unit_def split: if_splits)
next
  assume th: "thread_of w t = Some th" and re: "retry_parked_unit p now t th w = Inr (r, w')"
  then have "debt_in p (th_metadata th) = no_debt" "unpark_row now t w = Inr w'"
    using retry_no_debt by (auto simp: retry_parked_unit_def map_ok_Inr split: option.splits if_splits)
  moreover from this th have "claim_debt p w t = no_debt" by (simp add: claim_debt_def no_debt_def)
  ultimately show "debt_held p w'" using unpark_row_held [OF held] by blast
next
  assume dec: "decide_unknown_tool_results p g now fresh t dec tr w = Inr (out, tr', w')"
  then obtain th where th: "thread_of w t = Some th" "unknown_result_refusal p (th_metadata th) = None"
    by (auto simp: decide_unknown_tool_results_def split: option.splits if_splits)
  obtain ms wm st d where d: "settle_parked_unit now t wm ((rq w)\<lparr>messages := ms\<rparr>) = Inr (st, d)" "w' = w\<lparr>rq := d\<rparr>"
    using dec th
    by (auto simp: decide_unknown_tool_results_def Let_def split: option.splits if_splits sum.splits)
  have same: "row_of ((rq w)\<lparr>messages := ms\<rparr>) u = row_of (rq w) u" for u by (simp add: row_of_def)
  have ok: "db_ok ((rq w)\<lparr>messages := ms\<rparr>)" using debt_heldD(1) [OF held] by (simp add: db_ok_def)
  have none: "claim_debt p w t = no_debt"
    using th decide_no_debt by (auto simp: claim_debt_def no_debt_def)
  show "debt_held p w'"
  proof (rule debt_held_queue [OF held])
    show "db_ok (rq w')" using rq_step_ok [OF rq_step.settle [OF d(1)] ok] d(2) by simp
    show "parked_row w' u" if "claim_debt p w u \<noteq> no_debt" "parked_row w u" for u
      using that none settle_frame [OF d(1)] d(2) same by (cases "u = t") (auto simp: parked_row_def)
  qed (simp add: d(2))
qed

lemma no_losses_no_debt:
  assumes held: "debt_held p w" and th: "thread_of w t = Some th" "unresolved_claim_losses p (th_metadata th) = Inr []"
  shows "claim_debt p w t = no_debt"
proof -
  obtain md where md: "metadata_root p (th_metadata th) = Inr md"
    using th(2) by (auto simp: unresolved_claim_losses_def bind_ok_Inr)
  have ne: "loss_entries p d acc = Inr losses \<Longrightarrow> acc \<noteq> [] \<or> d \<noteq> [] \<Longrightarrow> losses \<noteq> []" for d acc losses
    by (induction p d acc rule: loss_entries.induct) (auto simp: bind_ok_Inr Let_def split: option.splits if_splits json.splits)
  have "CLAIM_LOSS_LEDGER_KEY \<notin> keys md"
    using th(2) md ne by (fastforce simp: unresolved_claim_losses_def split: if_splits json.splits)
  then have "fst (claim_debt p w t) = None"
    using th(1) md by (simp add: claim_debt_def debt_in_root map_of_keys)
  then show ?thesis using debt_heldD(2) [OF held, of t] by (simp add: no_debt_def prod_eq_iff)
qed

lemma repair_held:
  assumes held: "debt_held p w" and rep: "retry_stale_interrupt_thread p now t w = Inr (n, w')"
  shows "debt_held p w'"
proof (cases "w' = w")
  case False
  then obtain th where "thread_of w t = Some th" "unresolved_claim_losses p (th_metadata th) = Inr []"
    using rep by (auto simp: retry_stale_interrupt_thread_def bind_ok_Inr split: option.splits if_splits)
  from no_losses_no_debt [OF held this] show ?thesis
    using quiet_held [OF held] queue_settlement.retry_interrupts_quiet [OF rep] by blast
qed (simp add: held)

lemma same_held:
  assumes held: "debt_held p w" and same: "queue_same w w'"
  shows "debt_held p w'"
proof (rule debt_held_queue [OF held])
  show "claim_debt p w' u = claim_debt p w u" for u
    using same by (intro debt_view) (simp add: queue_same_def)
qed (use same debt_heldD(1) [OF held] in \<open>simp_all add: queue_same_def parked_row_def\<close>)

lemma claim_step_held:
  assumes "claim_step races p g w w'" "debt_held p w"
  shows "debt_held p w'"
  using assms
proof (induction rule: claim_step.induct)
  case (queue w d)
  then show ?case by (intro queue_step_held)
next
  case (batch w v now r d)
  then have "claim_debt p w v = no_debt" by (simp add: claim_debt_def no_debt_def)
  moreover have "db_ok d" using rq_step_ok [OF rq_step.unpark [OF batch(2)] debt_heldD(1) [OF batch(3)]] .
  ultimately show ?case
    using unpark_frame [OF batch(2)]
    by (intro debt_held_queue [OF batch(3)]) (auto simp: parked_row_def, metis)
next
  case (acknowledge terminal_of stamp t tok pod uid actor e receipt w ok w')
  then show ?case
    using settle_loss_held stateless_session_of session_row_of
    by (cases rule: acknowledge_cases) blast+
next
  case (status t tok st w ok w')
  then show ?case using same_held status_view by (simp add: queue_same_def)
next
  case (prompts now t w n w')
  then show ?case using same_held queue_frames.retry_permissions_quiet by blast
next
  case (elsewhere w' w)
  then show ?case by (intro debt_held_queue [OF elsewhere(3)]) (simp_all add: parked_row_def debt_heldD)
qed (auto intro: worker_step_held verb_held(1) verb_held(2) verb_held(3) steal_held mark_held repair_held)

end
