(* ===== verification/Claim_Loss_Behaviour.thy ===== *)
theory Claim_Loss_Behaviour
  imports Claim_Loss_Runs
begin

text \<open>
  The properties of lost claimants: a session with an unresolved loss is not leased, a steal
  records exactly the claimant it took the lease from, only the exact acknowledgement lifts the
  hold, and it gives the row its disposition back.
\<close>

section \<open>A held session is not leased\<close>

definition claim_run :: "bool \<Rightarrow> py \<Rightarrow> pg \<Rightarrow> world \<Rightarrow> bool" where
  "claim_run races p g w \<longleftrightarrow> (claim_step races p g)\<^sup>*\<^sup>* empty_world w"

lemma claim_run_held: "claim_run races p g w \<Longrightarrow> debt_held p w"
proof -
  assume "claim_run races p g w"
  then have "(claim_step races p g)\<^sup>*\<^sup>* empty_world w" by (simp add: claim_run_def)
  then show ?thesis
  proof (induction rule: rtranclp_induct)
    case base
    show ?case by (simp add: debt_held_def empty_world_def empty_db_ok claim_debt_def thread_of_def no_debt_def)
  next
    case (step y z)
    then show ?case using claim_step_held by blast
  qed
qed

lemma losses_debt:
  assumes "thread_of w t = Some th" "th_lane th = LANE_STATELESS"
    "unresolved_claim_losses p (th_metadata th) = Inr losses" "losses \<noteq> []"
  shows "claim_debt p w t \<noteq> no_debt"
proof -
  obtain md where md: "metadata_root p (th_metadata th) = Inr md"
    using assms(3) by (auto simp: unresolved_claim_losses_def bind_ok_Inr)
  then have "map_of md CLAIM_LOSS_LEDGER_KEY \<noteq> None" using assms(3,4) losses_none [OF md] by auto
  then show ?thesis using assms(1,2) md by (simp add: claim_debt_def debt_in_root no_debt_def)
qed

text \<open>
  C1. Whatever happens, a session with an unresolved claimant loss stays parked: no steal, claim,
  admission, operator's or owner's verb, repair or reconciliation leases or queues it before the
  last loss is acknowledged.
\<close>

theorem unresolved_losses_hold_the_session:
  assumes "claim_run races p g w" and "thread_of w t = Some th" "th_lane th = LANE_STATELESS"
    and "unresolved_claim_losses p (th_metadata th) = Inr losses" "losses \<noteq> []"
  shows "(\<exists>q. row_of (rq w) t = Some q \<and> state q = Parked) \<and> \<not> live_lease t tok (rq w)"
proof -
  have "parked_row w t"
    using debt_heldD(3) [OF claim_run_held [OF assms(1)] losses_debt [OF assms(2-5)]] .
  then show ?thesis by (auto simp: parked_row_def live_lease_def held_def)
qed

section \<open>What a steal records\<close>

lemma current_claimant_loss:
  assumes "current_claimant p c v = Inr cur" "active_claim_authority p v = Inr (Some (cand_lease_token c, a))"
  shows "cur = Some a \<and> cl_pod a = candidate_owner c"
  using assms by (auto simp: current_claimant_def bind_ok_Inr split: if_splits)

lemma merged_single: "map_of (merged a [(k, v)]) k = Some v"
  by (simp add: map_of_merged)

lemma loss_ledger_entry:
  assumes "map_of md' CLAIM_LOSS_LEDGER_KEY = Some (JObj (loss_ledger c (Some a) md))"
  shows "ledger_entry md' (cand_lease_token c) =
    [(lit ''pod'', JStr (cl_pod a)), (lit ''pod_uid'', JStr (cl_uid a)), (lit ''quiesced'', JBool False)]"
  using assms
  by (simp add: ledger_entry_def object_at_def jget_def loss_ledger_def Let_def merged_single)

text \<open>
  C2. A steal from a pod that had published its claim bumps the token, removes the published claim
  and names exactly that pod in the ledger; the row is parked as a claim-loss hold and the hold
  carries the new token and the disposition the settlement of the turn left.
\<close>

theorem steal_records_the_claimant:
  assumes "steal_session_with_claim_loss p g now grace backoff c w = Inr (Some u, w')"
    and "thread_of w (cand_unit_id c) = Some th"
    and "active_claim_authority p (th_metadata th) = Inr (Some (cand_lease_token c, a))"
  shows "\<exists>th' md' q q'. thread_of w' (cand_unit_id c) = Some th' \<and> th_metadata th' = JObj md' \<and>
    ACTIVE_CLAIM_KEY \<notin> keys md' \<and>
    ledger_entry md' (cand_lease_token c) =
      [(lit ''pod'', JStr (cl_pod a)), (lit ''pod_uid'', JStr (cl_uid a)), (lit ''quiesced'', JBool False)] \<and>
    jget md' CLAIM_LOSS_HOLD_KEY = JObj (hold_of g (cand_lease_token c + 1) q) \<and>
    row_of (rq w') (cand_unit_id c) = Some q' \<and> q' = hold_eff now q \<and>
    state q \<noteq> Leased \<and> lease_token q' = cand_lease_token c + 1 \<and> su_lease_token u = cand_lease_token c + 1"
  using assms(1)
proof (cases rule: steal_cases)
  case (stolen th0 q0 cur md rr w2)
  let ?t = "cand_unit_id c" and ?w1 = "put_queue (reap_eff now backoff q0) w"
  have cur: "cur = Some a" using current_claimant_loss stolen(1,4) assms(2,3) by auto
  have tok: "lease_token q0 = cand_lease_token c" using stolen(6) by (simp add: steal_guard_def held_def)
  have unit: "su_lease_token (stolen_session c q0 (reap_eff now backoff q0)) = cand_lease_token c + 1"
    by (simp add: stolen_session_def stolen_of_def reap_eff_idle tok)
  obtain q x where h: "row_of (rq w2) ?t = Some q" "thread_of w2 ?t = Some x"
    "lease_token q = cand_lease_token c + 1" "state q \<noteq> Leased"
    "w' = (let w1 = put_thread (x\<lparr>th_metadata := JObj (stolen_metadata g c cur (cand_lease_token c + 1) q md)\<rparr>) w2
           in if loss_ledger c cur md = [] then w1 else put_queue (hold_eff now q) w1)"
    using hold_cases [OF stolen(10)] unfolding unit by metis
  let ?md = "stolen_metadata g c cur (cand_lease_token c + 1) q md"
  have ne: "loss_ledger c cur md \<noteq> []" by (simp add: loss_ledger_def cur merged_def)
  have w': "w' = put_queue (hold_eff now q) (put_thread (x\<lparr>th_metadata := JObj ?md\<rparr>) w2)"
    using h(5) ne by (simp add: Let_def)
  have th': "thread_of w' ?t = Some (x\<lparr>th_metadata := JObj ?md\<rparr>)"
    using h(2) thread_of_id [OF h(2)] by (simp add: w' thread_of_put_thread)
  have "unit_id (hold_eff now q) = ?t" using row_of_unit [OF h(1)] by (simp add: hold_eff_def)
  then have q': "row_of (rq w') ?t = Some (hold_eff now q)"
    using row_of_store [of "rq w2" "hold_eff now q" ?t] h(1) by (simp add: w')
  have "jget ?md CLAIM_LOSS_HOLD_KEY = JObj (hold_of g (cand_lease_token c + 1) q)"
    using ne by (simp add: jget_def stolen_metadata_debt)
  moreover have "ledger_entry ?md (cand_lease_token c) =
      [(lit ''pod'', JStr (cl_pod a)), (lit ''pod_uid'', JStr (cl_uid a)), (lit ''quiesced'', JBool False)]"
    using loss_ledger_entry ne cur by (simp add: stolen_metadata_debt)
  moreover have "ACTIVE_CLAIM_KEY \<notin> keys ?md" by (simp add: map_of_keys stolen_metadata_debt)
  ultimately show ?thesis
    using th' q' h(3,4) stolen(11) unit by (intro exI [of _ "x\<lparr>th_metadata := JObj ?md\<rparr>"] exI [of _ ?md])
      (force simp: hold_eff_def)
qed simp

section \<open>Hold and acknowledgement\<close>

text \<open>The text of a claimant and of the times of a row reads back.\<close>

definition claimant_named :: "claimant \<Rightarrow> bool" where
  "claimant_named a \<longleftrightarrow> cl_pod a \<noteq> [] \<and> strip (cl_pod a) = cl_pod a \<and> cl_uid a \<noteq> [] \<and> strip (cl_uid a) = cl_uid a"

definition times_read_back :: "pg \<Rightarrow> row \<Rightarrow> bool" where
  "times_read_back g q \<longleftrightarrow>
     pg_parse g (pg_iso g (queued_at q)) = Some (queued_at q) \<and>
     pg_parse g (pg_iso g (run_after q)) = Some (run_after q)"

definition reason_kept :: "row \<Rightarrow> bool" where
  "reason_kept q \<longleftrightarrow> state q = Parked \<longrightarrow> (\<exists>s. park_reason q = Some s \<and> strip (lit s) \<noteq> [])"

lemma hold_of_fields:
  "jget (hold_of g tok q) (lit ''lease_token'') = JInt tok"
  "jget (hold_of g tok q) (lit ''intended_state'') = JStr (state_text (state q))"
  "jget (hold_of g tok q) (lit ''attempts_since_completion'') = JInt (attempts_since_completion q)"
  "jget (hold_of g tok q) (lit ''queued_at'') = JStr (pg_iso g (queued_at q))"
  "jget (hold_of g tok q) (lit ''run_after'') = JStr (pg_iso g (run_after q))"
  "jget (hold_of g tok q) (lit ''park_reason'') =
     (if state q = Parked then case park_reason q of None \<Rightarrow> JNull | Some s \<Rightarrow> JStr (lit s) else JNull)"
  by (simp_all add: hold_of_def)

lemma state_text_simps: "state_text Queued = lit ''queued''" "state_text Leased = lit ''leased''"
  "state_text Parked = lit ''parked''" "state_text Done = lit ''done''"
  by (simp_all add: state_text_def)

lemma hold_parses:
  assumes "jget md CLAIM_LOSS_HOLD_KEY = JObj (hold_of g tok q)" "0 < tok" "0 \<le> attempts_since_completion q"
    "state q \<noteq> Leased" "reason_kept q"
  shows "claim_loss_hold p md = Inr (Some (hold_of g tok q))"
proof -
  have "CLAIM_LOSS_HOLD_KEY \<in> keys md"
    using assms(1) by (cases "map_of md CLAIM_LOSS_HOLD_KEY") (simp_all add: jget_def map_of_keys)
  moreover have "state_text (state q) \<in> {lit ''queued'', lit ''parked'', lit ''done''}"
    using assms(4) by (cases "state q") (simp_all add: state_text_simps)
  ultimately show ?thesis
    using assms by (simp add: claim_loss_hold_def hold_of_fields reason_kept_def) auto
qed

definition disposition :: "row \<Rightarrow> qstate" where
  "disposition q = (if state q = Done \<and> (pending_input q \<or> control_pending q) then Queued else state q)"

lemma pending_hold_eff [simp]:
  "pending_input (hold_eff now q) = pending_input q" "control_pending (hold_eff now q) = control_pending q"
  by (simp_all add: hold_eff_def pending_input_def control_pending_def split: option.splits)

lemma restored_disposition:
  "state q \<noteq> Leased \<Longrightarrow> restored_state p (hold_of g tok q) (hold_eff now q) = disposition q"
  by (cases "state q") (simp_all add: restored_state_def hold_of_fields state_text_simps disposition_def)

lemma char_of_lit [simp]: "map char_of (lit s) = s"
  by (simp add: lit_def comp_def)

lemma restore_held_row:
  assumes hold: "reason_kept q" "times_read_back g q" "state q \<noteq> Leased" "dedup_key q = None" "lease_token q = tok"
    and res: "restore_eff (disposition q) (attempts_since_completion q) (Some (run_after q)) (Some (queued_at q))
       (case jget (hold_of g tok q) (lit ''park_reason'') of JStr s \<Rightarrow> Some s | _ \<Rightarrow> None) (hold_eff now q) = q2"
  shows "restore_unit p g (hold_of g tok q) (hold_eff now q) w = Inr (put_queue q2 w)"
proof -
  have t: "text_time g (jget (hold_of g tok q) (lit ''run_after'')) = Inr (Some (run_after q))"
    "text_time g (jget (hold_of g tok q) (lit ''queued_at'')) = Inr (Some (queued_at q))"
    using hold(2) by (simp_all add: text_time_def hold_of_fields times_read_back_def)
  have "dedup_key q2 = None" using res hold(4) by (auto simp: restore_eff_def hold_eff_def)
  then have "\<not> dedup_conflict (queue (rq w)) q2" by (simp add: dedup_conflict_def same_dedup_def)
  moreover have "state (hold_eff now q) = Parked" "leased_by (hold_eff now q) = None"
    "lease_token (hold_eff now q) = tok"
    using hold(5) by (simp_all add: hold_eff_def)
  ultimately show ?thesis
    using t res restored_disposition [OF hold(3)]
    by (simp add: restore_unit_def Let_def hold_of_fields)
qed


text \<open>The metadata a steal writes over a thread without losses, read by an acknowledgement.\<close>

definition lost_entry :: "claimant \<Rightarrow> fields" where
  "lost_entry a = [(lit ''pod'', JStr (cl_pod a)), (lit ''pod_uid'', JStr (cl_uid a)), (lit ''quiesced'', JBool False)]"

lemma lost_entry_authority:
  "claimant_named a \<Longrightarrow> claimant_authority p (JObj (lost_entry a)) = Inr (a\<lparr>cl_eviction_requested := False\<rparr>)"
  by (simp add: claimant_authority_def lost_entry_def stripped_text_def claimant_named_def Let_def)

lemma first_loss:
  assumes md: "map_of md CLAIM_LOSS_LEDGER_KEY = Some (JObj [(int_text tok, JObj (lost_entry a))])"
    and a: "claimant_named a" "0 < tok" "py_int_text p (int_text tok) = Some tok"
  shows "unresolved_claim_losses p (JObj md) = Inr [(tok, a\<lparr>cl_eviction_requested := False\<rparr>)]"
    "names_claimant g md tok (cl_pod a) (cl_uid a)" "jget (ledger_entry md tok) (lit ''quiesced'') = JBool False"
    "without (object_at md CLAIM_LOSS_LEDGER_KEY) (int_text tok) = []"
proof -
  have obj: "object_at md CLAIM_LOSS_LEDGER_KEY = [(int_text tok, JObj (lost_entry a))]"
    using md by (simp add: object_at_def jget_def)
  have "jget (lost_entry a) (lit ''quiesced'') = JBool False" by (simp add: lost_entry_def)
  then have "loss_entries p [(int_text tok, JObj (lost_entry a))] [] = Inr [(tok, a\<lparr>cl_eviction_requested := False\<rparr>)]"
    using a lost_entry_authority [OF a(1), of p] by simp
  then show "unresolved_claim_losses p (JObj md) = Inr [(tok, a\<lparr>cl_eviction_requested := False\<rparr>)]"
    using md by (simp add: unresolved_claim_losses_def metadata_root_def map_of_keys jget_def)
  have entry: "ledger_entry md tok = lost_entry a" unfolding ledger_entry_def obj by (simp add: object_at_def)
  show "names_claimant g md tok (cl_pod a) (cl_uid a)" "jget (ledger_entry md tok) (lit ''quiesced'') = JBool False"
    unfolding names_claimant_def entry by (simp_all add: lost_entry_def path_is_def)
  show "without (object_at md CLAIM_LOSS_LEDGER_KEY) (int_text tok) = []" unfolding obj by (simp add: without_def)
qed

lemma stolen_pending:
  "WORKSPACE_RETIREMENT_PENDING_KEY \<notin> keys md \<Longrightarrow> pending_retirement (stolen_metadata g c cur tok q md) = Inr None"
proof -
  assume "WORKSPACE_RETIREMENT_PENDING_KEY \<notin> keys md"
  moreover have "WORKSPACE_RETIREMENT_PENDING_KEY \<noteq> CLAIM_LOSS_LEDGER_KEY" "WORKSPACE_RETIREMENT_PENDING_KEY \<noteq> CLAIM_LOSS_HOLD_KEY"
    by (simp_all add: WORKSPACE_RETIREMENT_PENDING_KEY_def CLAIM_LOSS_LEDGER_KEY_def CLAIM_LOSS_HOLD_KEY_def)
  ultimately have "WORKSPACE_RETIREMENT_PENDING_KEY \<notin> keys (stolen_metadata g c cur tok q md)"
    by (auto simp: stolen_metadata_def Let_def map_of_keys map_of_without map_of_merged)
  then show ?thesis by (simp add: pending_retirement_def)
qed

lemma first_ledger:
  "CLAIM_LOSS_LEDGER_KEY \<notin> keys md \<Longrightarrow>
   loss_ledger c (Some a) md = [(int_text (cand_lease_token c), JObj (lost_entry a))]"
  by (simp add: loss_ledger_def Let_def object_at_def jget_def map_of_keys merged_def lost_entry_def)

lemma hold_session_shape:
  assumes "hold_session g now c cur md u w = Inr w1" "loss_ledger c cur md \<noteq> []"
    and "thread_of w (cand_unit_id c) = Some th" "row_of (rq w) (cand_unit_id c) = Some q"
  shows "state q \<noteq> Leased" "row_of (rq w1) (cand_unit_id c) = Some (hold_eff now q)"
    "thread_of w1 (cand_unit_id c) =
       Some (th\<lparr>th_metadata := JObj (stolen_metadata g c cur (lease_token q) q md)\<rparr>)"
  using assms(1)
proof (induct rule: hold_cases)
  case (1 q' th')
  let ?t = "cand_unit_id c" and ?th = "th\<lparr>th_metadata := JObj (stolen_metadata g c cur (lease_token q) q md)\<rparr>"
  have eq: "q' = q" "th' = th" using 1(1,2) assms(3,4) by simp_all
  have w1: "w1 = put_queue (hold_eff now q) (put_thread ?th w)"
    using 1(6) assms(2) by (simp add: Let_def eq 1(3) [symmetric, unfolded eq])
  show "state q \<noteq> Leased" using 1(5) eq by simp
  have "unit_id (hold_eff now q) = ?t" using row_of_unit [OF assms(4)] by (simp add: hold_eff_def)
  then show "row_of (rq w1) ?t = Some (hold_eff now q)"
    using row_of_store [of "rq w" "hold_eff now q" ?t] assms(4) by (simp add: w1)
  show "thread_of w1 ?t = Some ?th"
    using assms(3) thread_of_id [OF assms(3)] by (simp add: w1 thread_of_put_thread)
qed

text \<open>The acknowledgement of a single loss, in terms of what its restoration does.\<close>

lemma acknowledge_first_loss:
  assumes th: "thread_of w t = Some th" "th_lane th = LANE_STATELESS" "th_metadata th = JObj md"
    and q: "row_of (rq w) t = Some q" "unit_kind q = UNIT_KIND_SESSION_TURN"
    and led: "map_of md CLAIM_LOSS_LEDGER_KEY = Some (JObj [(int_text tok, JObj (lost_entry a))])"
    and a: "claimant_named a" "0 < tok" "py_int_text p (int_text tok) = Some tok"
    and hold: "claim_loss_hold p md = Inr (Some h)" "pending_retirement md = Inr None"
      "jget h (lit ''lease_token'') = JInt (lease_token q)"
    and rc: "rc = map_option (settlement_receipt tok (cl_pod a) (cl_uid a) actor stamp) receipt"
    and res: "restore_unit p g h q (put_thread (th\<lparr>th_metadata := JObj (settled_metadata md [] None actor rc)\<rparr>) w) = Inr w2"
  shows "acknowledge_session_claim_quiesced p g terminal_of stamp t tok (cl_pod a) (cl_uid a) actor None receipt w
      = Inr (True, w2)"
proof -
  note F = first_loss [OF led a]
  have "settle_loss p g tok (cl_pod a) (cl_uid a) actor rc th q md w = Inr (True, w2)"
    using F(2-4) hold res by (simp add: settle_loss_def)
  moreover have "stateless_session w t = Some th" "session_row w t = Some q"
    using th q by (simp_all add: stateless_session_def session_row_def)
  moreover have "matching_loss [(tok, a\<lparr>cl_eviction_requested := False\<rparr>)] tok (cl_pod a) (cl_uid a) \<noteq> None"
    by (simp add: matching_loss_def)
  ultimately show ?thesis
    using F(1) a(1,2) th(3) rc
    by (simp add: acknowledge_session_claim_quiesced_def Let_def claimant_named_def metadata_root_def)
qed

text \<open>
  C11. Hold and acknowledgement are inverse: when the one claimant a steal recorded is acknowledged
  by its exact token, pod and uid, the ledger and the hold are gone and the row has its state,
  attempts, times and park reason back, except that a finished row with new input or controls is
  queued.
\<close>

theorem acknowledged_hold_is_restored:
  assumes "hold_session g now c (Some a) md u w = Inr w1"
    and "thread_of w (cand_unit_id c) = Some th" "th_lane th = LANE_STATELESS"
    and "row_of (rq w) (cand_unit_id c) = Some q" "unit_kind q = UNIT_KIND_SESSION_TURN" "dedup_key q = None"
    and "CLAIM_LOSS_LEDGER_KEY \<notin> keys md" "WORKSPACE_RETIREMENT_PENDING_KEY \<notin> keys md"
    and "claimant_named a" "0 < cand_lease_token c" "0 < lease_token q" "0 \<le> attempts_since_completion q"
    and "reason_kept q" "times_read_back g q" "py_int_text p (int_text (cand_lease_token c)) = Some (cand_lease_token c)"
  shows "\<exists>w2 q2. acknowledge_session_claim_quiesced p g terminal_of stamp (cand_unit_id c) (cand_lease_token c)
      (cl_pod a) (cl_uid a) actor None receipt w1 = Inr (True, w2) \<and>
    claim_debt p w2 (cand_unit_id c) = no_debt \<and> row_of (rq w2) (cand_unit_id c) = Some q2 \<and>
    state q2 = disposition q \<and> attempts_since_completion q2 = attempts_since_completion q \<and>
    queued_at q2 = queued_at q \<and> run_after q2 = run_after q \<and> lease_token q2 = lease_token q \<and>
    park_reason q2 = (if state q = Parked then park_reason q else None)"
proof -
  let ?t = "cand_unit_id c" and ?k = "cand_lease_token c"
  let ?md = "stolen_metadata g c (Some a) (lease_token q) q md"
  let ?th = "th\<lparr>th_metadata := JObj ?md\<rparr>" and ?h = "hold_of g (lease_token q) q"
  let ?rc = "map_option (settlement_receipt ?k (cl_pod a) (cl_uid a) actor stamp) receipt"
  let ?th2 = "?th\<lparr>th_metadata := JObj (settled_metadata ?md [] None actor ?rc)\<rparr>"
  have L: "loss_ledger c (Some a) md = [(int_text ?k, JObj (lost_entry a))]" by (rule first_ledger [OF assms(7)])
  then have "loss_ledger c (Some a) md \<noteq> []" by simp
  note S = hold_session_shape [OF assms(1) this assms(2,4)]
  define q2 where "q2 = restore_eff (disposition q) (attempts_since_completion q) (Some (run_after q)) (Some (queued_at q))
       (case jget ?h (lit ''park_reason'') of JStr s \<Rightarrow> Some s | _ \<Rightarrow> None) (hold_eff now q)"
  have "restore_unit p g ?h (hold_eff now q) (put_thread ?th2 w1) = Inr (put_queue q2 (put_thread ?th2 w1))"
    using assms(13,14) S(1) assms(6) refl q2_def [symmetric] by (rule restore_held_row)
  moreover have "claim_loss_hold p ?md = Inr (Some ?h)"
    by (rule hold_parses) (simp_all add: jget_def stolen_metadata_debt L assms(11-13) S(1))
  moreover have "map_of ?md CLAIM_LOSS_LEDGER_KEY = Some (JObj [(int_text ?k, JObj (lost_entry a))])"
    by (simp add: stolen_metadata_debt L)
  ultimately have ack: "acknowledge_session_claim_quiesced p g terminal_of stamp ?t ?k (cl_pod a) (cl_uid a) actor
      None receipt w1 = Inr (True, put_queue q2 (put_thread ?th2 w1))"
    using assms(3,5,9,10,15) stolen_pending [OF assms(8)]
    by (intro acknowledge_first_loss [OF S(3) _ _ S(2), where md = ?md and h = ?h and rc = ?rc])
      (simp_all add: hold_of_fields, simp_all add: hold_eff_def)
  have debt: "claim_debt p (put_queue q2 (put_thread ?th2 w1)) ?t = no_debt"
    using S(3) assms(3) thread_of_id [OF assms(2)] debt_put_thread [of w1 ?th2 p ?t]
    by (simp add: settled_metadata_debt no_debt_def)
  have "unit_id q2 = ?t" using row_of_unit [OF S(2)] by (simp add: q2_def restore_eff_def)
  then have row: "row_of (rq (put_queue q2 (put_thread ?th2 w1))) ?t = Some q2"
    using row_of_store [of "rq w1" q2 ?t] S(2) by simp
  have "state q2 = disposition q \<and> attempts_since_completion q2 = attempts_since_completion q \<and>
    queued_at q2 = queued_at q \<and> run_after q2 = run_after q \<and> lease_token q2 = lease_token q \<and>
    park_reason q2 = (if state q = Parked then park_reason q else None)"
    using assms(13)
    by (auto simp: q2_def restore_eff_def hold_eff_def disposition_def hold_of_fields reason_kept_def)
  then show ?thesis using ack debt row by blast
qed

section \<open>Exactness\<close>

lemma settled_debt:
  assumes th: "thread_of w t = Some th" "th_lane th = LANE_STATELESS"
  shows "claim_debt p (put_thread (th\<lparr>th_metadata := JObj (settled_metadata md raw ret actor rc)\<rparr>) w) t =
    (if raw = [] then no_debt else (Some (JObj raw), map_of md CLAIM_LOSS_HOLD_KEY))"
  using th thread_of_id [OF th(1)]
    debt_put_thread [of w "th\<lparr>th_metadata := JObj (settled_metadata md raw ret actor rc)\<rparr>" p t]
  by (simp add: settled_metadata_debt no_debt_def)

lemma restore_keeps_debt: "restore_unit p g h q w = Inr w' \<Longrightarrow> claim_debt p w' u = claim_debt p w u"
  by (erule restore_cases) simp

text \<open>What an acknowledgement that succeeds did.\<close>

lemma acknowledged:
  assumes "acknowledge_session_claim_quiesced p g terminal_of stamp t tok pod uid actor e receipt w = Inr (True, w')"
  obtains th md losses c rest where "thread_of w t = Some th" "metadata_root p (th_metadata th) = Inr md"
    "unresolved_claim_losses p (JObj md) = Inr losses" "map_of losses tok = Some c" "cl_pod c = strip pod"
    "cl_uid c = strip uid" "names_claimant g md tok (strip pod) (strip uid)" "th_lane th = LANE_STATELESS"
    "rest = without (object_at md CLAIM_LOSS_LEDGER_KEY) (int_text tok)"
    "fst (claim_debt p w' t) = (if rest = [] then None else Some (JObj rest))"
    "rest \<noteq> [] \<longrightarrow> rq w' = rq w \<and> snd (claim_debt p w' t) = snd (claim_debt p w t)"
    "\<And>u. u \<noteq> t \<Longrightarrow> claim_debt p w' u = claim_debt p w u"
  using assms
proof (cases rule: acknowledge_cases)
  case (settled th md losses q)
  have th: "thread_of w t = Some th" "th_lane th = LANE_STATELESS" using stateless_session_of [OF settled(1)] by simp_all
  obtain c where c: "map_of losses tok = Some c" "cl_pod c = strip pod" "cl_uid c = strip uid"
    using settled(4) by (auto simp: matching_loss_def split: option.splits if_splits)
  note md = settled(2,3)
  from settled(7) show ?thesis
  proof (cases rule: settle_loss_cases)
    case (settled retirement hold raw w1)
    let ?th = "th\<lparr>th_metadata := JObj (settled_metadata md raw retirement actor
      (map_option (settlement_receipt tok (strip pod) (strip uid) actor stamp) receipt))\<rparr>"
    have old: "snd (claim_debt p w t) = map_of md CLAIM_LOSS_HOLD_KEY"
      using th md by (simp add: claim_debt_def debt_in_root)
    have d1: "claim_debt p w1 t = (if raw = [] then no_debt else (Some (JObj raw), map_of md CLAIM_LOSS_HOLD_KEY))"
      unfolding settled(5) by (rule settled_debt [OF th])
    have o1: "claim_debt p w1 u = claim_debt p w u" if "u \<noteq> t" for u
      using that debt_put_thread [of w ?th p u] th(1) thread_of_id [OF th(1)] by (simp add: settled(5))
    have w': "claim_debt p w' u = claim_debt p w1 u" "raw \<noteq> [] \<longrightarrow> rq w' = rq w" for u
      using settled(5,7) restore_keeps_debt by (auto split: option.splits if_splits)
    show ?thesis
      by (rule that [OF th(1) md c settled(6) th(2) settled(4)]) (use d1 old o1 w' in \<open>auto simp: no_debt_def\<close>)
  qed simp
qed simp

text \<open>
  C12. An acknowledgement that succeeds names an unresolved loss by its token, pod and uid, and it
  removes that entry alone; while another loss is unresolved the hold and the queue stay as they
  are. An acknowledgement that does not succeed changes nothing.
\<close>

theorem acknowledgement_is_exact:
  assumes "acknowledge_session_claim_quiesced p g terminal_of stamp t tok pod uid actor e receipt w = Inr (ok, w')"
  shows "if ok then \<exists>th md losses c. thread_of w t = Some th \<and> metadata_root p (th_metadata th) = Inr md \<and>
      unresolved_claim_losses p (JObj md) = Inr losses \<and> map_of losses tok = Some c \<and>
      cl_pod c = strip pod \<and> cl_uid c = strip uid \<and>
      (let rest = without (object_at md CLAIM_LOSS_LEDGER_KEY) (int_text tok) in
       fst (claim_debt p w' t) = (if rest = [] then None else Some (JObj rest)) \<and>
       (rest \<noteq> [] \<longrightarrow> rq w' = rq w \<and> snd (claim_debt p w' t) = snd (claim_debt p w t)))
    else w' = w"
proof (cases ok)
  case True
  then have ack: "acknowledge_session_claim_quiesced p g terminal_of stamp t tok pod uid actor e receipt w = Inr (True, w')"
    using assms by simp
  obtain th md losses c where
    "thread_of w t = Some th" "metadata_root p (th_metadata th) = Inr md"
    "unresolved_claim_losses p (JObj md) = Inr losses" "map_of losses tok = Some c" "cl_pod c = strip pod"
    "cl_uid c = strip uid"
    "let rest = without (object_at md CLAIM_LOSS_LEDGER_KEY) (int_text tok) in
       fst (claim_debt p w' t) = (if rest = [] then None else Some (JObj rest)) \<and>
       (rest \<noteq> [] \<longrightarrow> rq w' = rq w \<and> snd (claim_debt p w' t) = snd (claim_debt p w t))"
    by (rule acknowledged [OF ack]) (simp add: Let_def)
  then show ?thesis using True by simp
next
  case False
  have "w' = w"
    using assms
  proof (cases rule: acknowledge_cases)
    case (settled th md losses q)
    from settled(7) False show ?thesis by (cases rule: settle_loss_cases) simp_all
  qed
  then show ?thesis using False by simp
qed

end
