(* ===== verification/Claim_Loss_Types.thy ===== *)
theory Claim_Loss_Types
  imports Claim_Loss_Behaviour
begin

text \<open>
  The shape of the ledger and of the hold: whatever the program writes there it can read, so no
  step that reads them raises because they are malformed.
\<close>

section \<open>Well-formed ledgers and holds\<close>

definition loss_ok :: "py \<Rightarrow> pytext \<times> json \<Rightarrow> bool" where
  "loss_ok p x \<longleftrightarrow>
     (\<exists>tok e c. x = (int_text tok, JObj e) \<and> py_int_text p (int_text tok) = Some tok \<and> 0 < tok \<and>
        jget e (lit ''quiesced'') = JBool False \<and> claimant_authority p (JObj e) = Inr c)"

definition ledger_typed :: "py \<Rightarrow> json \<Rightarrow> bool" where
  "ledger_typed p v \<longleftrightarrow>
     (\<exists>raw. v = JObj raw \<and> raw \<noteq> [] \<and> distinct (map fst raw) \<and> (\<forall>x \<in> set raw. loss_ok p x))"

definition hold_typed :: "py \<Rightarrow> json \<Rightarrow> bool" where
  "hold_typed p v \<longleftrightarrow> (\<exists>h. claim_loss_hold p [(CLAIM_LOSS_HOLD_KEY, v)] = Inr (Some h))"

lemma loss_entries_typed:
  "loss_entries p raw acc = Inr ls \<Longrightarrow>
   distinct (map fst raw) \<and> (\<forall>x \<in> set raw. loss_ok p x) \<and>
   (\<forall>k \<in> fst ` set raw. \<forall>tok \<in> fst ` set acc. k \<noteq> int_text tok) \<and>
   fst ` set acc \<subseteq> fst ` set ls \<and> (\<forall>tok \<in> fst ` set ls. tok \<in> fst ` set acc \<or> int_text tok \<in> fst ` set raw)"
proof (induction p raw acc rule: loss_entries.induct)
  case (1 p acc)
  then show ?case by simp
next
  case (2 p k v d acc)
  obtain tok e c where x: "py_int_text p k = Some tok" "k = int_text tok" "tok \<notin> fst ` set acc" "v = JObj e"
    "0 < tok" "jget e (lit ''quiesced'') = JBool False" "claimant_authority p v = Inr c"
    "loss_entries p d (acc @ [(tok, c)]) = Inr ls"
    using 2(2) by (auto simp: bind_ok_Inr split: option.splits if_splits json.splits)
  have IH: "distinct (map fst d) \<and> (\<forall>x \<in> set d. loss_ok p x) \<and>
      (\<forall>k \<in> fst ` set d. \<forall>t \<in> fst ` set (acc @ [(tok, c)]). k \<noteq> int_text t) \<and>
      fst ` set (acc @ [(tok, c)]) \<subseteq> fst ` set ls \<and>
      (\<forall>t \<in> fst ` set ls. t \<in> fst ` set (acc @ [(tok, c)]) \<or> int_text t \<in> fst ` set d)"
    by (rule 2(1) [OF x(1) _ x(4) _ x(8)]) (use x in auto)
  have ok: "loss_ok p (k, v)" using x unfolding loss_ok_def by blast
  have new: "k \<noteq> int_text t" if "t \<in> fst ` set acc" for t
    using that x(2,3) int_text_inj by blast
  show ?case using IH ok new x(2) by auto
qed

lemma typed_entries:
  "\<forall>x \<in> set raw. loss_ok p x \<Longrightarrow> distinct (map fst raw) \<Longrightarrow>
   \<forall>k \<in> fst ` set raw. \<forall>tok \<in> fst ` set acc. k \<noteq> int_text tok \<Longrightarrow>
   \<exists>ls. loss_entries p raw acc = Inr ls \<and> length ls = length acc + length raw"
proof (induction raw arbitrary: acc)
  case (Cons x raw)
  obtain tok e c where x: "x = (int_text tok, JObj e)" "py_int_text p (int_text tok) = Some tok" "0 < tok"
    "jget e (lit ''quiesced'') = JBool False" "claimant_authority p (JObj e) = Inr c"
    using Cons.prems(1) by (auto simp: loss_ok_def)
  have new: "tok \<notin> fst ` set acc" using Cons.prems(3) x(1) by auto
  have later: "\<forall>k \<in> fst ` set raw. \<forall>t \<in> fst ` set (acc @ [(tok, c)]). k \<noteq> int_text t"
  proof (intro ballI)
    fix k t assume k: "k \<in> fst ` set raw" and t: "t \<in> fst ` set (acc @ [(tok, c)])"
    have "int_text tok \<notin> fst ` set raw" using Cons.prems(2) x(1) by simp
    moreover have "k \<in> fst ` set (x # raw)" using k by auto
    then have "\<forall>tok \<in> fst ` set acc. k \<noteq> int_text tok" using Cons.prems(3) by blast
    moreover have "t = tok \<or> t \<in> fst ` set acc" using t by auto
    ultimately show "k \<noteq> int_text t" using k by metis
  qed
  from Cons.IH [OF _ _ later] Cons.prems(1,2) obtain ls where "loss_entries p raw (acc @ [(tok, c)]) = Inr ls"
    "length ls = length (acc @ [(tok, c)]) + length raw"
    by auto
  then show ?case using x new by simp
qed simp

lemma typed_reads:
  assumes "metadata_root p v = Inr md" "\<And>x. map_of md CLAIM_LOSS_LEDGER_KEY = Some x \<Longrightarrow> ledger_typed p x"
  shows "\<exists>ls. unresolved_claim_losses p v = Inr ls \<and> (ls = [] \<longleftrightarrow> map_of md CLAIM_LOSS_LEDGER_KEY = None)"
proof (cases "map_of md CLAIM_LOSS_LEDGER_KEY")
  case None
  then show ?thesis using losses_none [OF assms(1)] by simp
next
  case (Some x)
  then obtain raw where raw: "x = JObj raw" "raw \<noteq> []" "distinct (map fst raw)" "\<forall>x \<in> set raw. loss_ok p x"
    using assms(2) by (auto simp: ledger_typed_def)
  then obtain ls where "loss_entries p raw [] = Inr ls" "length ls = length raw"
    using typed_entries [OF raw(4,3), of "[]"] by auto
  then show ?thesis
    using Some raw(1,2) assms(1) by (auto simp: unresolved_claim_losses_def map_of_keys jget_def)
qed

lemma reads_typed:
  assumes "metadata_root p v = Inr md" "unresolved_claim_losses p v = Inr ls" "map_of md CLAIM_LOSS_LEDGER_KEY = Some x"
  shows "ledger_typed p x" "x = JObj (object_at md CLAIM_LOSS_LEDGER_KEY)"
    "tok \<in> fst ` set ls \<Longrightarrow> int_text tok \<in> keys (object_at md CLAIM_LOSS_LEDGER_KEY)"
proof -
  obtain raw where raw: "x = JObj raw" "raw \<noteq> []" "loss_entries p raw [] = Inr ls"
    using assms by (auto simp: unresolved_claim_losses_def map_of_keys jget_def split: json.splits if_splits)
  note T = loss_entries_typed [OF raw(3)]
  show "ledger_typed p x" using raw(1,2) T by (simp add: ledger_typed_def)
  show obj: "x = JObj (object_at md CLAIM_LOSS_LEDGER_KEY)" using assms(3) raw(1) by (simp add: object_at_def jget_def)
  show "int_text tok \<in> keys (object_at md CLAIM_LOSS_LEDGER_KEY)" if "tok \<in> fst ` set ls"
    using that T obj raw(1) by (auto simp: keys_def)
qed

lemma hold_typed_in:
  assumes "\<And>x. map_of md CLAIM_LOSS_HOLD_KEY = Some x \<Longrightarrow> hold_typed p x"
  shows "\<exists>h. claim_loss_hold p md = Inr h \<and> (h = None \<longleftrightarrow> map_of md CLAIM_LOSS_HOLD_KEY = None)"
proof (cases "map_of md CLAIM_LOSS_HOLD_KEY")
  case None
  then show ?thesis by (simp add: claim_loss_hold_def map_of_keys)
next
  case (Some x)
  then obtain h where "claim_loss_hold p [(CLAIM_LOSS_HOLD_KEY, x)] = Inr (Some h)"
    using assms by (auto simp: hold_typed_def)
  moreover have "claim_loss_hold p [(CLAIM_LOSS_HOLD_KEY, x)] = claim_loss_hold p md"
    using Some by (simp add: claim_loss_hold_def map_of_keys jget_def)
  ultimately show ?thesis using Some by auto
qed

section \<open>Writes keep the shape\<close>

lemma typed_merge:
  assumes "\<forall>x \<in> set old. loss_ok p x" "distinct (map fst old)" "loss_ok p (k, v)"
  shows "ledger_typed p (JObj (merged old [(k, v)]))"
proof -
  have "distinct (map fst (filter P old))" for P using assms(2) by (rule distinct_map_filter)
  then have "distinct (map fst (merged old [(k, v)]))" by (auto simp: merged_def)
  moreover have "\<forall>x \<in> set (merged old [(k, v)]). loss_ok p x" using assms(1,3) by (auto simp: merged_def)
  ultimately show ?thesis unfolding ledger_typed_def by (intro exI [of _ "merged old [(k, v)]"]) (simp add: merged_def)
qed

lemma typed_without:
  assumes "ledger_typed p (JObj raw)" "without raw k \<noteq> []"
  shows "ledger_typed p (JObj (without raw k))"
proof -
  have "distinct (map fst (without raw k))"
    using assms(1) by (auto simp: ledger_typed_def without_def intro: distinct_map_filter)
  moreover have "\<forall>x \<in> set (without raw k). loss_ok p x" using assms(1) by (auto simp: ledger_typed_def without_def)
  ultimately show ?thesis using assms(2) unfolding ledger_typed_def by blast
qed

text \<open>The entry of a lost claimant and the entry marked for eviction.\<close>

lemma claimant_strip: "claimant_authority p v = Inr c \<Longrightarrow> claimant_named c"
  by (auto simp: claimant_authority_def claimant_named_def stripped_text_def Let_def strip_idem
      split: json.splits if_splits)

lemma active_claimant:
  assumes "active_claim_authority p v = Inr (Some (k, c))"
  shows "claimant_named c"
proof -
  obtain md where "metadata_root p v = Inr md" "ACTIVE_CLAIM_KEY \<in> keys md"
    using assms by (auto simp: active_claim_authority_def bind_ok_Inr split: if_splits)
  then obtain c' where c: "claimant_authority p (jget md ACTIVE_CLAIM_KEY) = Inr c'"
    using assms by (auto simp: active_claim_authority_def Let_def bind_ok_Inr)
  obtain d where d: "jget md ACTIVE_CLAIM_KEY = JObj d"
    using c by (cases "jget md ACTIVE_CLAIM_KEY") (simp_all add: claimant_authority_def)
  have "c' = c"
    using assms \<open>metadata_root p v = Inr md\<close> \<open>ACTIVE_CLAIM_KEY \<in> keys md\<close> c d
    by (cases "jget d (lit ''lease_token'')") (auto simp: active_claim_authority_def Let_def split: if_splits)
  then show ?thesis using claimant_strip c by blast
qed

lemma lost_entry_ok:
  assumes "claimant_named a" "0 < tok" "py_int_text p (int_text tok) = Some tok"
  shows "loss_ok p (int_text tok, JObj (lost_entry a))"
proof -
  have "jget (lost_entry a) (lit ''quiesced'') = JBool False" by (simp add: lost_entry_def)
  then show ?thesis unfolding loss_ok_def using assms lost_entry_authority [OF assms(1), of p] by blast
qed

lemma marked_entry_ok:
  assumes "loss_ok p (int_text tok, JObj e)"
  shows "loss_ok p (int_text tok, JObj (merged e [(lit ''eviction_requested_at'', x)]))"
proof -
  obtain c where e: "py_int_text p (int_text tok) = Some tok" "0 < tok" "jget e (lit ''quiesced'') = JBool False"
    "claimant_authority p (JObj e) = Inr c"
    using assms int_text_inj by (auto simp: loss_ok_def)
  let ?e = "merged e [(lit ''eviction_requested_at'', x)]"
  have same: "jget ?e k = jget e k" if "k \<noteq> lit ''eviction_requested_at''" for k
    using that by (simp add: jget_merged)
  have "claimant_authority p (JObj ?e) = Inr (c\<lparr>cl_eviction_requested := (x \<noteq> JNull)\<rparr>)"
    using e(4) by (auto simp: claimant_authority_def Let_def same jget_merged split: if_splits)
  then show ?thesis unfolding loss_ok_def using e same by auto
qed

section \<open>The invariant\<close>

definition debt_typed :: "py \<Rightarrow> world \<Rightarrow> bool" where
  "debt_typed p w \<longleftrightarrow>
     (\<forall>t v. (fst (claim_debt p w t) = Some v \<longrightarrow> ledger_typed p v) \<and>
            (snd (claim_debt p w t) = Some v \<longrightarrow> hold_typed p v))"

lemma debt_typedD:
  assumes "debt_typed p w"
  shows "fst (claim_debt p w t) = Some v \<Longrightarrow> ledger_typed p v" "snd (claim_debt p w t) = Some v \<Longrightarrow> hold_typed p v"
  using assms by (simp_all add: debt_typed_def)

text \<open>A step that changes the debt of one thread.\<close>

lemma debt_typedI:
  assumes "debt_typed p w" "\<And>u. u \<noteq> t \<Longrightarrow> claim_debt p w' u = claim_debt p w u"
    and "\<And>v. fst (claim_debt p w' t) = Some v \<Longrightarrow> ledger_typed p v"
    and "\<And>v. snd (claim_debt p w' t) = Some v \<Longrightarrow> hold_typed p v"
  shows "debt_typed p w'"
  unfolding debt_typed_def
proof (intro allI)
  fix u v
  show "(fst (claim_debt p w' u) = Some v \<longrightarrow> ledger_typed p v) \<and> (snd (claim_debt p w' u) = Some v \<longrightarrow> hold_typed p v)"
    using assms debt_typedD [OF assms(1)] by (cases "u = t") auto
qed

lemma debt_typed_same: "debt_typed p w \<Longrightarrow> (\<And>u. claim_debt p w' u = claim_debt p w u) \<Longrightarrow> debt_typed p w'"
  by (simp add: debt_typed_def)

lemma hold_of_typed:
  assumes "0 < tok" "0 \<le> attempts_since_completion q" "state q \<noteq> Leased" "reason_kept q"
  shows "hold_typed p (JObj (hold_of g tok q))"
  unfolding hold_typed_def using hold_parses [OF _ assms, of "[(CLAIM_LOSS_HOLD_KEY, JObj (hold_of g tok q))]" g p]
  by auto

lemma stolen_ledger_typed:
  assumes cur: "current_claimant p c v = Inr cur" and md: "metadata_root p v = Inr md"
    and ints: "\<And>n. py_int_text p (int_text n) = Some n" and tok: "0 < cand_lease_token c"
    and ne: "loss_ledger c cur md \<noteq> []"
  shows "ledger_typed p (JObj (loss_ledger c cur md))"
proof -
  let ?old = "object_at md CLAIM_LOSS_LEDGER_KEY"
  obtain ls where ls: "unresolved_claim_losses p v = Inr ls" using cur by (auto simp: current_claimant_def bind_ok_Inr)
  have old: "?old = [] \<or> ledger_typed p (JObj ?old)"
  proof (cases "map_of md CLAIM_LOSS_LEDGER_KEY")
    case None
    then show ?thesis by (simp add: object_at_def jget_def)
  next
    case (Some x)
    then show ?thesis using reads_typed(1,2) [OF md ls Some] by simp
  qed
  show ?thesis
  proof (cases cur)
    case None
    then have "loss_ledger c cur md = ?old" by (simp add: loss_ledger_def)
    then show ?thesis using old ne by simp
  next
    case (Some a)
    then have "\<exists>k. active_claim_authority p v = Inr (Some (k, a))"
      using cur by (auto simp: current_claimant_def bind_ok_Inr split: option.splits if_splits prod.splits)
    then have "claimant_named a" using active_claimant by blast
    then have "loss_ok p (int_text (cand_lease_token c), JObj (lost_entry a))" using tok ints by (rule lost_entry_ok)
    moreover have "(\<forall>x \<in> set ?old. loss_ok p x) \<and> distinct (map fst ?old)" using old by (auto simp: ledger_typed_def)
    ultimately show ?thesis
      using typed_merge by (simp add: Some loss_ledger_def Let_def lost_entry_def)
  qed
qed

lemma reap_reason: "state (reap_eff now b q) = Parked \<Longrightarrow> park_reason (reap_eff now b q) = Some ''reaper_max_attempts''"
  by (simp add: reap_eff_def Let_def split: if_splits)

lemma steal_typed:
  assumes typed: "debt_typed p w" and ok: "db_ok (rq w)" and ints: "\<And>n. py_int_text p (int_text n) = Some n"
    and steal: "steal_session_with_claim_loss p g now grace backoff c w = Inr (u, w')"
  shows "debt_typed p w'"
  using steal
proof (cases rule: steal_cases)
  case none
  then show ?thesis using typed by simp
next
  case (stolen th q0 cur md rr w2)
  let ?t = "cand_unit_id c" and ?q1 = "reap_eff now backoff q0"
  note q1 = stolen_queue [OF ok stolen(5-7)]
  have quiet: "queue_quiet ?t (put_queue ?q1 w) w2" using queue_settlement.journal_quiet [OF stolen(9)] .
  have view: "session_view w2 = session_view w" and ok2: "db_ok (rq w2)"
    using quiet q1(1) by (simp_all add: queue_quiet_def)
  obtain th2 where th2: "thread_of w2 ?t = Some th2" "th_lane th2 = LANE_STATELESS"
    using stolen(1,2) fun_cong [OF view, of ?t] by (auto simp: session_view_def)
  have "row_of (rq (put_queue ?q1 w)) ?t = Some ?q1" "state ?q1 \<noteq> Leased"
    using q1(2) [of ?t] reap_eff_idle(4) [of now backoff q0] by auto
  then have "idle_after ?q1 (row_of (rq w2) ?t)" using quiet unfolding queue_quiet_def by blast
  then obtain q where q: "row_of (rq w2) ?t = Some q" "lease_token q = lease_token q0 + 1" "state q \<noteq> Leased"
    "state q = Parked \<longrightarrow> state ?q1 = Parked \<and> park_reason q = park_reason ?q1"
    by (auto simp: idle_after_def reap_eff_idle)
  note H = hold_session_held [OF ok2 stolen(10) th2]
  have other: "claim_debt p w' v = claim_debt p w v" if "v \<noteq> ?t" for v
    using that H(3) debt_view [of w2 v w p] view by simp
  show ?thesis
  proof (rule debt_typedI [OF typed other])
    fix v assume v: "fst (claim_debt p w' ?t) = Some v"
    then have ne: "loss_ledger c cur md \<noteq> []" "v = JObj (loss_ledger c cur md)" using H(4) [of p] by (auto split: if_splits)
    show "ledger_typed p v"
      unfolding ne(2) by (rule stolen_ledger_typed [OF stolen(4,8) ints stolen(12) ne(1)])
  next
    fix v assume v: "snd (claim_debt p w' ?t) = Some v"
    then have ne: "loss_ledger c cur md \<noteq> []" using H(5) [of p] by auto
    note S = hold_session_shape [OF stolen(10) ne th2(1) q(1)]
    have "v = JObj (hold_of g (lease_token q) q)"
      using v S(3) th2(2) ne by (simp add: claim_debt_def stolen_metadata_debt)
    moreover have "0 < lease_token q"
      using q(2) row_ok_bounds(1) [OF row_of_ok [OF ok stolen(5)]] by simp
    moreover have "reason_kept q" using q(4) reap_reason by (auto simp: reason_kept_def strip_def rstrip_def is_space_def lit_def)
    ultimately show "hold_typed p v"
      using hold_of_typed q(3) row_ok_bounds(2) [OF row_of_ok [OF ok2 q(1)]] by simp
  qed
qed

lemma object_at_field:
  assumes "object_at md k \<noteq> []"
  shows "map_of md k = Some (JObj (object_at md k))"
proof (cases "map_of md k")
  case None
  then show ?thesis using assms by (simp add: object_at_def jget_def)
next
  case (Some v)
  then show ?thesis using assms by (cases v) (simp_all add: object_at_def jget_def)
qed

lemma settle_typed:
  assumes typed: "debt_typed p w" and th: "thread_of w t = Some th" "th_lane th = LANE_STATELESS"
    and md: "metadata_root p (th_metadata th) = Inr md"
    and settle: "settle_loss p g tok owner uid actor receipt th q md w = Inr (ok, w')"
  shows "debt_typed p w'"
  using settle
proof (cases rule: settle_loss_cases)
  case nothing
  then show ?thesis using typed by simp
next
  case (settled retirement hold raw w1)
  have old: "claim_debt p w t = (map_of md CLAIM_LOSS_LEDGER_KEY, map_of md CLAIM_LOSS_HOLD_KEY)"
    using th md by (simp add: claim_debt_def debt_in_root)
  have d1: "claim_debt p w1 t = (if raw = [] then no_debt else (Some (JObj raw), map_of md CLAIM_LOSS_HOLD_KEY))"
    unfolding settled(5) by (rule settled_debt [OF th])
  let ?th = "th\<lparr>th_metadata := JObj (settled_metadata md raw retirement actor receipt)\<rparr>"
  have other: "claim_debt p w1 u = claim_debt p w u" if "u \<noteq> t" for u
    using that debt_put_thread [of w ?th p u] th thread_of_id [OF th(1)] by (simp add: settled(5))
  have "claim_debt p w' u = claim_debt p w1 u" for u
    using settled(7) restore_keeps_debt by (auto split: option.splits if_splits)
  moreover have "debt_typed p w1"
  proof (rule debt_typedI [OF typed other])
    fix v assume v: "fst (claim_debt p w1 t) = Some v"
    then have ne: "raw \<noteq> []" "v = JObj raw" using d1 by (auto simp: no_debt_def split: if_splits)
    then have "object_at md CLAIM_LOSS_LEDGER_KEY \<noteq> []" using settled(4) by (auto simp: without_def)
    then have "map_of md CLAIM_LOSS_LEDGER_KEY = Some (JObj (object_at md CLAIM_LOSS_LEDGER_KEY))"
      by (rule object_at_field)
    then have "ledger_typed p (JObj (object_at md CLAIM_LOSS_LEDGER_KEY))" using debt_typedD(1) [OF typed, of t] old by simp
    then show "ledger_typed p v" using typed_without ne settled(4) by simp
  next
    fix v assume "snd (claim_debt p w1 t) = Some v"
    then show "hold_typed p v" using d1 old debt_typedD(2) [OF typed, of t] by (auto simp: no_debt_def split: if_splits)
  qed
  ultimately show ?thesis using debt_typed_same by blast
qed

lemma mark_entry:
  assumes "mark_session_claim_eviction_requested p g now t tok pod uid w = Inr (ok, w')" "w' \<noteq> w"
  shows "\<exists>th md losses c. stateless_session w t = Some th \<and> metadata_root p (th_metadata th) = Inr md \<and>
    unresolved_claim_losses p (th_metadata th) = Inr losses \<and> map_of losses tok = Some c \<and>
    w' = put_thread (th\<lparr>th_metadata := JObj (merged md [(CLAIM_LOSS_LEDGER_KEY, JObj
      (merged (object_at md CLAIM_LOSS_LEDGER_KEY) [(int_text tok, JObj (merged (ledger_entry md tok)
        [(lit ''eviction_requested_at'', JStr (pg_time g now))]))]))])\<rparr>) w"
proof -
  note mark = assms(1) [unfolded mark_session_claim_eviction_requested_def Let_def]
  obtain th where th: "stateless_session w t = Some th" "\<not> (tok \<le> 0 \<or> strip pod = [] \<or> strip uid = [])"
    using mark assms(2) by (auto split: if_splits option.splits)
  note mark1 = mark [unfolded if_not_P [OF th(2)] th(1) option.case]
  obtain losses where l: "unresolved_claim_losses p (th_metadata th) = Inr losses"
    using mark1 by (auto simp: bind_ok_Inr)
  note mark2 = mark1 [unfolded l bind_ok_simps]
  obtain c where c: "matching_loss losses tok (strip pod) (strip uid) = Some c"
    using mark2 assms(2) by (cases "matching_loss losses tok (strip pod) (strip uid)") simp_all
  note mark3 = mark2 [unfolded c option.case]
  have "session_row w t \<noteq> None" "\<not> cl_eviction_requested c" using mark3 assms(2) by (auto split: if_splits)
  note mark4 = mark3 [unfolded if_not_P [OF this(1)] if_not_P [OF this(2)]]
  obtain md where md: "metadata_root p (th_metadata th) = Inr md" using mark4 by (auto simp: bind_ok_Inr)
  have "map_of losses tok = Some c" using c by (auto simp: matching_loss_def split: option.splits if_splits)
  moreover have "w' = put_thread (th\<lparr>th_metadata := JObj (merged md [(CLAIM_LOSS_LEDGER_KEY, JObj
      (merged (object_at md CLAIM_LOSS_LEDGER_KEY) [(int_text tok, JObj (merged (ledger_entry md tok)
        [(lit ''eviction_requested_at'', JStr (pg_time g now))]))]))])\<rparr>) w"
    using mark4 [unfolded md bind_ok_simps] assms(2)
    by (cases "\<not> names_claimant g md tok (strip pod) (strip uid) \<or> lit ''eviction_requested_at'' \<in> keys (ledger_entry md tok)")
      simp_all
  ultimately show ?thesis using th(1) l md by blast
qed

lemma mark_typed:
  assumes typed: "debt_typed p w"
    and mark: "mark_session_claim_eviction_requested p g now t tok pod uid w = Inr (ok, w')"
  shows "debt_typed p w'"
proof (cases "w' = w")
  case False
  obtain th md losses c where m: "stateless_session w t = Some th" "metadata_root p (th_metadata th) = Inr md"
    "unresolved_claim_losses p (th_metadata th) = Inr losses" "map_of losses tok = Some c"
    "w' = put_thread (th\<lparr>th_metadata := JObj (merged md [(CLAIM_LOSS_LEDGER_KEY, JObj
      (merged (object_at md CLAIM_LOSS_LEDGER_KEY) [(int_text tok, JObj (merged (ledger_entry md tok)
        [(lit ''eviction_requested_at'', JStr (pg_time g now))]))]))])\<rparr>) w"
    using mark_entry [OF mark False] by blast
  let ?old = "object_at md CLAIM_LOSS_LEDGER_KEY"
  let ?entry = "JObj (merged (ledger_entry md tok) [(lit ''eviction_requested_at'', JStr (pg_time g now))])"
  let ?th = "th\<lparr>th_metadata := JObj (merged md [(CLAIM_LOSS_LEDGER_KEY, JObj (merged ?old [(int_text tok, ?entry)]))])\<rparr>"
  note th = stateless_session_of [OF m(1)]
  have debt: "claim_debt p w' u = (if u = t then (Some (JObj (merged ?old [(int_text tok, ?entry)])),
      map_of md CLAIM_LOSS_HOLD_KEY) else claim_debt p w u)" for u
    using debt_put_thread [of w ?th p u] th thread_of_id [of w t th]
    by (cases "u = t") (simp_all add: m(5) map_of_merged)
  have old: "claim_debt p w t = (map_of md CLAIM_LOSS_LEDGER_KEY, map_of md CLAIM_LOSS_HOLD_KEY)"
    using th m(2) by (simp add: claim_debt_def debt_in_root)
  have "losses \<noteq> []" using m(4) by auto
  then have "map_of md CLAIM_LOSS_LEDGER_KEY \<noteq> None" using losses_none [OF m(2)] m(3) by auto
  then obtain x where x: "map_of md CLAIM_LOSS_LEDGER_KEY = Some x" by blast
  note R = reads_typed [OF m(2,3) x]
  have ok: "\<forall>x \<in> set ?old. loss_ok p x" "distinct (map fst ?old)" using R(1,2) by (auto simp: ledger_typed_def)
  have "tok \<in> fst ` set losses" using m(4) by (metis map_of_SomeD fst_conv imageI)
  then have "int_text tok \<in> keys ?old" by (rule R(3))
  then obtain v where v: "map_of ?old (int_text tok) = Some v" unfolding map_of_keys by blast
  then have v_ok: "loss_ok p (int_text tok, v)" using ok(1) map_of_SomeD by fast
  then obtain e where e: "v = JObj e" by (auto simp: loss_ok_def)
  then have "ledger_entry md tok = e" using v by (simp add: ledger_entry_def object_at_def jget_def)
  then have "loss_ok p (int_text tok, ?entry)" using marked_entry_ok v_ok e by simp
  then have "ledger_typed p (JObj (merged ?old [(int_text tok, ?entry)]))" using typed_merge ok by blast
  then show ?thesis
    using typed debt old debt_typedD(2) [OF typed, of t] by (intro debt_typedI [OF typed, of t]) auto
qed (simp add: typed)

lemma claim_step_typed:
  assumes "claim_step races p g w w'" "debt_typed p w" "db_ok (rq w)" "\<And>n. py_int_text p (int_text n) = Some n"
  shows "debt_typed p w'"
  using assms(1)
proof (cases rule: claim_step.cases)
  case (operator now t)
  then have "\<exists>d. w' = w\<lparr>rq := d\<rparr>"
    by (auto simp: unpark_run_queue_unit_def unpark_row_def split: if_splits sum.splits)
  then show ?thesis using debt_typed_same [OF assms(2)] by auto
next
  case (owner t th now r)
  then have "\<exists>d. w' = w\<lparr>rq := d\<rparr>"
    by (auto simp: retry_parked_unit_def unpark_row_def map_ok_Inr split: if_splits sum.splits option.splits)
  then show ?thesis using debt_typed_same [OF assms(2)] by auto
next
  case (decision now fresh t dec tr out tr')
  then have "\<exists>d. w' = w\<lparr>rq := d\<rparr>"
    by (auto simp: decide_unknown_tool_results_def Let_def split: if_splits sum.splits option.splits)
  then show ?thesis using debt_typed_same [OF assms(2)] by auto
next
  case (acknowledge terminal_of stamp t tok pod uid actor e receipt ok)
  from acknowledge show ?thesis
  proof (cases rule: acknowledge_cases)
    case (settled th md losses q)
    then show ?thesis using settle_typed [OF assms(2)] stateless_session_of [OF settled(1)] by blast
  qed (simp add: assms(2))
next
  case (status t tok st ok)
  then show ?thesis using debt_typed_same [OF assms(2)] debt_view status_view by metis
next
  case (repair now t n)
  then have "session_view w' = session_view w"
    using queue_settlement.retry_interrupts_quiet [OF repair] by (simp add: queue_quiet_def)
  then show ?thesis using debt_typed_same [OF assms(2)] debt_view by metis
next
  case (prompts now t n)
  then have "session_view w' = session_view w"
    using queue_frames.retry_permissions_quiet [OF prompts] by (simp add: queue_same_def)
  then show ?thesis using debt_typed_same [OF assms(2)] debt_view by metis
next
  case elsewhere
  then show ?thesis using debt_typed_same [OF assms(2)] by blast
qed (use debt_typed_same [OF assms(2)] steal_typed [OF assms(2-4)] mark_typed [OF assms(2)] in auto)

lemma claim_run_typed:
  assumes "claim_run races p g w" "\<And>n. py_int_text p (int_text n) = Some n"
  shows "debt_typed p w"
proof -
  have "(claim_step races p g)\<^sup>*\<^sup>* empty_world w" using assms(1) by (simp add: claim_run_def)
  then show ?thesis
  proof (induction rule: rtranclp_induct)
    case base
    show ?case by (simp add: debt_typed_def empty_world_def claim_debt_def thread_of_def)
  next
    case (step y z)
    have "claim_run races p g y" using step(1) by (simp add: claim_run_def)
    then have "db_ok (rq y)" using debt_heldD(1) claim_run_held by blast
    then show ?case using claim_step_typed step(2,3) assms(2) by blast
  qed
qed

text \<open>
  C21. Ledger and hold are well typed in every reachable state: what the steals, evictions and
  acknowledgements leave in the metadata parses, the two are there together or not at all, and no
  later step raises because one of them is malformed.
\<close>

theorem reachable_ledgers_parse:
  assumes "claim_run races p g w" "\<And>n. py_int_text p (int_text n) = Some n"
    and "thread_of w t = Some th" "th_lane th = LANE_STATELESS" "metadata_root p (th_metadata th) = Inr md"
  shows "\<exists>losses hold. unresolved_claim_losses p (th_metadata th) = Inr losses \<and>
    claim_loss_hold p md = Inr hold \<and> (losses = [] \<longleftrightarrow> hold = None)"
proof -
  have debt: "claim_debt p w t = (map_of md CLAIM_LOSS_LEDGER_KEY, map_of md CLAIM_LOSS_HOLD_KEY)"
    using assms(3-5) by (simp add: claim_debt_def debt_in_root)
  note T = debt_typedD [OF claim_run_typed [OF assms(1,2)], of t]
  obtain ls where "unresolved_claim_losses p (th_metadata th) = Inr ls" "ls = [] \<longleftrightarrow> map_of md CLAIM_LOSS_LEDGER_KEY = None"
    using typed_reads [OF assms(5)] T(1) debt by auto
  moreover obtain h where "claim_loss_hold p md = Inr h" "h = None \<longleftrightarrow> map_of md CLAIM_LOSS_HOLD_KEY = None"
    using hold_typed_in [of md p] T(2) debt by auto
  moreover have "map_of md CLAIM_LOSS_LEDGER_KEY = None \<longleftrightarrow> map_of md CLAIM_LOSS_HOLD_KEY = None"
    using debt_heldD(2) [OF claim_run_held [OF assms(1)], of t] debt by simp
  ultimately show ?thesis by (intro exI [of _ ls] exI [of _ h]) simp
qed

end
