(* ===== verification/Repair_Behaviour.thy ===== *)
theory Repair_Behaviour
  imports Claim_Reconcile Run_Queue_Behaviour
begin

text \<open>
  The properties of the repairs around a stolen session: prompts of lost owners expire once with
  a receipt, the owner's decision leaves no tool call unanswered, and the rotation over held
  threads reaches every one.
\<close>

section \<open>Prompts\<close>

lemma frame_permissions:
  assumes "append_system_frame t kind d i perm w = Inr (Some pos, w')"
  shows "permissions w' = permissions w" "\<exists>e. events w' = events w @ [e] \<and> ev_thread e = t \<and>
    ev_kind e = kind \<and> ev_payload e = JObj d \<and> ev_permission e = perm \<and> (ev_epoch e, ev_seq e) = pos"
  using assms
  by (auto simp: append_system_frame_def Let_def put_thread_def split: option.splits if_splits)

definition prompt_receipt :: "uuid \<Rightarrow> pytext \<Rightarrow> world \<Rightarrow> permission_request \<Rightarrow> bool" where
  "prompt_receipt t reason w c \<longleftrightarrow>
     (\<exists>e \<in> set (events w). ev_thread e = t \<and> ev_kind e = lit ''permission.resolved'' \<and>
        ev_permission e = Some (pr_id c) \<and> ev_payload e = JObj (resolved_params c reason))"

definition expire_in :: "secs \<Rightarrow> pytext \<Rightarrow> uuid set \<Rightarrow> permission_request list \<Rightarrow> permission_request list" where
  "expire_in now reason ids rs = map (\<lambda>r. if pr_id r \<in> ids then expired_permission now reason r else r) rs"

lemma expired_id [simp]: "pr_id (expired_permission now reason r) = pr_id r"
  by (simp add: expired_permission_def)

lemma put_expired:
  assumes "distinct (map pr_id rs)" "c \<in> set rs"
  shows "put_by pr_id (expired_permission now reason c) rs = expire_in now reason {pr_id c} rs"
proof -
  have eq: "x = c" if "x \<in> set rs" "pr_id x = pr_id c" for x
    using that assms by (metis find_by_distinct option.inject)
  show ?thesis
    unfolding put_by_def expire_in_def by (rule map_cong [OF refl]) (use eq in auto)
qed

lemma expire_in_twice:
  "i \<notin> ids \<Longrightarrow> expire_in now reason ids (expire_in now reason {i} rs) = expire_in now reason (insert i ids) rs"
  by (auto simp: expire_in_def)

lemma expire_facts:
  "expire_permissions now t reason cs (receipts, w) = Inr (receipts', w') \<Longrightarrow>
   distinct (map pr_id (permissions w)) \<Longrightarrow> distinct (map pr_id cs) \<Longrightarrow> set cs \<subseteq> set (permissions w) \<Longrightarrow>
   permissions w' = expire_in now reason (pr_id ` set cs) (permissions w) \<and>
   map rp_request receipts' = map rp_request receipts @ map pr_id cs \<and>
   set (events w) \<subseteq> set (events w') \<and> (\<forall>c \<in> set cs. prompt_receipt t reason w' c)"
proof (induction cs arbitrary: receipts w)
  case Nil
  then show ?case by (simp add: expire_in_def)
next
  case (Cons c cs)
  let ?w0 = "put_permission (expired_permission now reason c) w"
  have c: "permission_of w (pr_id c) = Some c"
    using Cons.prems(2,4) by (simp add: permission_of_def find_by_distinct)
  obtain pos w1 where 1: "append_system_frame t (lit ''permission.resolved'') (resolved_params c reason) None
      (Some (pr_id c)) ?w0 = Inr (Some pos, w1)"
    "expire_permissions now t reason cs (receipts @ [\<lparr>rp_request = pr_id c, rp_tool_call = pr_tool_call c,
       rp_epoch = fst pos, rp_seq = snd pos\<rparr>], w1) = Inr (receipts', w')"
    using Cons.prems(1) c by (auto simp: bind_ok_Inr split: option.splits if_splits)
  have p1: "permissions w1 = expire_in now reason {pr_id c} (permissions w)"
    using frame_permissions(1) [OF 1(1)] put_expired [OF Cons.prems(2)] Cons.prems(4)
    by (simp add: put_permission_def)
  have ids: "map pr_id (permissions w1) = map pr_id (permissions w)"
    by (auto simp: p1 expire_in_def)
  have sub: "set cs \<subseteq> set (permissions w1)"
  proof
    fix x assume x: "x \<in> set cs"
    moreover have "pr_id c \<notin> pr_id ` set cs" using Cons.prems(3) by simp
    ultimately have "pr_id x \<noteq> pr_id c" by (metis imageI)
    with x show "x \<in> set (permissions w1)" using Cons.prems(4) by (force simp: p1 expire_in_def)
  qed
  have IH: "permissions w' = expire_in now reason (pr_id ` set cs) (permissions w1) \<and>
   map rp_request receipts' = map rp_request receipts @ pr_id c # map pr_id cs \<and>
   set (events w1) \<subseteq> set (events w') \<and> (\<forall>c \<in> set cs. prompt_receipt t reason w' c)"
    using Cons.IH [OF 1(2) _ _ sub] Cons.prems(2,3) ids by simp
  obtain e where e: "events w1 = events ?w0 @ [e]" "ev_thread e = t" "ev_kind e = lit ''permission.resolved''"
    "ev_payload e = JObj (resolved_params c reason)" "ev_permission e = Some (pr_id c)"
    using frame_permissions(2) [OF 1(1)] by blast
  then have "prompt_receipt t reason w' c" using IH by (force simp: prompt_receipt_def)
  moreover have "set (events w) \<subseteq> set (events w')" using e(1) IH by (auto simp: put_permission_def)
  moreover have "pr_id c \<notin> pr_id ` set cs" using Cons.prems(3) by simp
  ultimately show ?case using IH expire_in_twice p1 by simp
qed

text \<open>
  After the retirement no prompt of an earlier lease is pending; each that was is expired with
  its own receipt in the journal, reported once, and every other prompt is as before.
\<close>

theorem stale_prompts_expire_once:
  assumes "distinct (map pr_id (permissions w))"
    and "retire_stale_stateless_permissions now t old new reason bumped w = Inr ((receipts, b), w')"
  shows "stale_permissions w' t new = [] \<and>
    map rp_request receipts = map pr_id (stale_permissions w t new) \<and>
    (\<forall>c \<in> set (stale_permissions w t new). prompt_receipt t reason w' c) \<and>
    permissions w' = expire_in now reason (pr_id ` set (stale_permissions w t new)) (permissions w)"
proof (cases "stale_permissions w t new = []")
  case True
  then show ?thesis
    using assms(2)
    by (auto simp: retire_stale_stateless_permissions_def expire_in_def split: if_splits)
next
  case False
  let ?ps = "stale_permissions w t new" and ?w0 = "if bumped then w else snd (bump_epoch t w)"
  have e: "expire_permissions now t reason ?ps ([], ?w0) = Inr (receipts, w')"
    using assms(2) False
    by (auto simp: retire_stale_stateless_permissions_def Let_def map_ok_Inr simp del: expire_permissions.simps
        split: if_splits)
  have w0: "permissions ?w0 = permissions w"
    by (auto simp: bump_epoch_def put_thread_def split: option.splits)
  have ps: "set ?ps \<subseteq> set (permissions w)" by (auto simp: stale_permissions_def)
  have "distinct (map pr_id (filter P (permissions w)))" for P using assms(1) by (rule distinct_map_filter)
  then have "distinct (map pr_id ?ps)"
    by (simp add: stale_permissions_def distinct_map inj_on_def)
  note F = expire_facts [OF e [unfolded w0] _ this]
  have F: "permissions w' = expire_in now reason (pr_id ` set ?ps) (permissions w) \<and>
     map rp_request receipts = map pr_id ?ps \<and> (\<forall>c \<in> set ?ps. prompt_receipt t reason w' c)"
    using F assms(1) w0 ps by simp
  have "\<not> (pr_thread r = t \<and> pr_status r = ''pending'' \<and>
      (case pr_token r of None \<Rightarrow> True | Some k \<Rightarrow> 0 < k \<and> k < new))" if "r \<in> set (permissions w')" for r
  proof -
    have "r \<in> (\<lambda>r. if pr_id r \<in> pr_id ` set ?ps then expired_permission now reason r else r) ` set (permissions w)"
      using that conjunct1 [OF F] by (simp add: expire_in_def)
    then obtain r0 where r0: "r0 \<in> set (permissions w)"
      "r = (if pr_id r0 \<in> pr_id ` set ?ps then expired_permission now reason r0 else r0)"
      by (rule imageE) blast
    then show ?thesis
      by (cases "pr_id r0 \<in> pr_id ` set ?ps") (auto simp: expired_permission_def stale_permissions_def image_iff)
  qed
  then have "stale_permissions w' t new = []" by (simp add: stale_permissions_def filter_empty_conv)
  with F show ?thesis by simp
qed

section \<open>The decision on tool debt\<close>

text \<open>
  C23. Once every listed call has its answer the transcript holds debt exactly when it was
  malformed, repeats a call id within a turn, or has a call without a proper id; the answers
  neither hide nor create such a history.
\<close>

theorem answers_leave_only_ambiguous_debt:
  assumes "\<And>i r. r \<in> set tr \<Longrightarrow> ch_seq r < snd (fresh i)"
  shows "has_tool_debt g t (tr @ answer_rows t content fresh (unanswered_tool_calls g t tr)) \<longleftrightarrow>
    malformed_calls t tr \<or> duplicate_calls g t tr \<or> unnamed_calls g t tr"
  unfolding has_tool_debt_def malformed_after duplicate_after unproven_listed unnamed_after
  using no_open_calls_left [OF assms] by simp

text \<open>
  C22. A decision that is taken answers each unanswered call once, leaves no debt, marks the
  interrupted request as consumed and takes the unit out of the parked state.
\<close>

theorem decision_settles_the_turn:
  assumes "decide_unknown_tool_results p g now fresh t dec tr w = Inr (out, tr', w')"
  shows "do_calls out = map oc_id (unanswered_tool_calls g t tr) \<and> \<not> has_tool_debt g t tr' \<and>
    tr' = tr @ answer_rows t (result_text dec) fresh (unanswered_tool_calls g t tr) \<and>
    messages (rq w') = messages (rq w) @ map as_message (drop (length tr) tr') \<and>
    (\<exists>q. row_of (rq w') t = Some q \<and> state q = do_state out \<and> state q \<in> {Queued, Done} \<and>
       sql_greatest (interrupted_input t (unanswered_tool_calls g t tr) tr') (consumed_seq q) = consumed_seq q)"
proof -
  let ?calls = "unanswered_tool_calls g t tr"
  let ?answers = "answer_rows t (result_text dec) fresh ?calls"
  let ?wm = "interrupted_input t ?calls (tr @ ?answers)"
  let ?d = "(rq w)\<lparr>messages := messages (rq w) @ map as_message ?answers\<rparr>"
  obtain th q0 where th: "thread_of w t = Some th" "th_lane th = LANE_STATELESS"
    "unknown_result_refusal p (th_metadata th) = None" "row_of (rq w) t = Some q0"
    using assms by (auto simp: decide_unknown_tool_results_def split: option.splits if_splits)
  obtain st d where s: "settle_parked_unit now t ?wm ?d = Inr (Some st, d)" "w' = w\<lparr>rq := d\<rparr>" "tr' = tr @ ?answers"
    "\<not> has_tool_debt g t tr'" "do_calls out = map oc_id ?calls" "do_state out = st"
    using assms th
    by (auto simp: decide_unknown_tool_results_def Let_def split: option.splits if_splits sum.splits)
  obtain res where res: "cas t (parked_free ?d) (settle_eff ?d now ?wm) ?d = Inr (res, d)"
    "Some st = map_option (state \<circ> snd) res"
    using s(1) by (auto simp: settle_parked_unit_def map_ok_Inr)
  obtain a b where "res = Some (a, b)" "st = state b" using res(2) by (cases res) auto
  then have c: "cas t (parked_free ?d) (settle_eff ?d now ?wm) ?d = Inr (Some (a, b), d)" "st = state b"
    using res(1) by simp_all
  have row: "b = settle_eff ?d now ?wm a" "row_of d t = Some b" using settle.cas_row [OF c(1)] by simp_all
  have "messages d = messages ?d" using c(1) by (cases rule: cas_cases) simp_all
  moreover have "state b \<in> {Queued, Done}" by (simp add: row(1) settle_eff_def Let_def)
  moreover have "consumed_seq b = settled_watermark ?wm a" by (simp add: row(1) settle_eff_def Let_def)
  then have "sql_greatest ?wm (consumed_seq b) = consumed_seq b"
    by (cases ?wm) (simp_all add: settled_watermark_def sql_simps split: option.splits)
  ultimately show ?thesis using s(2-6) c(2) row(2) by simp
qed

section \<open>The rotation over held threads\<close>

definition rotated :: "uuid option \<Rightarrow> uuid list \<Rightarrow> uuid list" where
  "rotated cursor ids = (case cursor of None \<Rightarrow> ids | Some c \<Rightarrow> filter (\<lambda>i. c < i) ids @ filter (\<lambda>i. i \<le> c) ids)"

lemma sorted_split: "sorted_wrt (<) (ids :: uuid list) \<Longrightarrow> filter (\<lambda>i. i \<le> c) ids @ filter (\<lambda>i. c < i) ids = ids"
proof (induction ids)
  case (Cons i ids)
  then have "c < i \<Longrightarrow> filter (\<lambda>i. i \<le> c) ids = []" by (force simp: filter_empty_conv)
  then show ?case using Cons by (cases "i \<le> c") (auto simp: not_le)
qed simp

lemma page_rotated:
  assumes "sorted_wrt (<) ids" "0 < limit"
  shows "fst (next_claim_loss_hold_page limit cursor ids) = take limit (rotated cursor ids)"
proof (cases cursor)
  case None
  then show ?thesis by (simp add: next_claim_loss_hold_page_def Let_def hold_candidates_def rotated_def)
next
  case (Some c)
  let ?F = "filter (\<lambda>i. c < i) ids" and ?G = "filter (\<lambda>i. i \<le> c) ids"
  have first: "hold_candidates limit (Some c) ids = take limit ?F" by (simp add: hold_candidates_def)
  have "filter (\<lambda>i. i \<notin> set ?F) (take limit ids) = take limit ?G"
  proof -
    have "filter (\<lambda>i. i \<notin> set ?F) (take limit ?G) = take limit ?G"
      by (rule filter_True) (auto dest: in_set_takeD)
    moreover have "filter (\<lambda>i. i \<notin> set ?F) (take n ?F) = []" for n
      by (rule filter_False) (auto dest: in_set_takeD)
    ultimately have "filter (\<lambda>i. i \<notin> set ?F) (take limit (?G @ ?F)) = take limit ?G"
      by (simp only: take_append filter_append append_Nil2)
    then show ?thesis unfolding sorted_split [OF assms(1)] .
  qed
  then have wrap: "filter (\<lambda>i. i \<notin> set ?F) (hold_candidates limit None ids) = take limit ?G"
    by (simp add: hold_candidates_def)
  show ?thesis
  proof (cases "length ?F < limit")
    case True
    then have "take limit ?F = ?F" by simp
    then show ?thesis
      using True wrap by (simp add: next_claim_loss_hold_page_def Let_def first Some rotated_def min_def)
  next
    case False
    then show ?thesis by (simp add: next_claim_loss_hold_page_def Let_def first Some rotated_def)
  qed
qed

fun hold_pages :: "nat \<Rightarrow> nat \<Rightarrow> uuid option \<Rightarrow> uuid list \<Rightarrow> uuid list list" where
  "hold_pages 0 limit cursor ids = []"
| "hold_pages (Suc k) limit cursor ids =
     (let (page, next) = next_claim_loss_hold_page limit cursor ids in page # hold_pages k limit next ids)"

text \<open>Every rotated list is a rotation in the sense of lists, and a full page moves on by its length.\<close>

lemma rotated_Some:
  assumes "sorted_wrt (<) ids" "j < length ids"
  shows "rotated (Some (ids ! j)) ids = rotate (Suc j) ids"
proof -
  let ?c = "ids ! j"
  have below: "i \<le> ?c" if i: "i \<in> set (take (Suc j) ids)" for i
  proof -
    obtain k where "k < length (take (Suc j) ids)" "i = take (Suc j) ids ! k"
      using i [unfolded in_set_conv_nth] by blast
    then have k: "k \<le> j" "i = ids ! k" by simp_all
    then show ?thesis
      using assms sorted_wrt_nth_less [OF assms(1), of k j] by (cases "k = j") auto
  qed
  have above: "?c < i" if i: "i \<in> set (drop (Suc j) ids)" for i
  proof -
    obtain k where "k < length (drop (Suc j) ids)" "i = drop (Suc j) ids ! k"
      using i [unfolded in_set_conv_nth] by blast
    then show ?thesis using sorted_wrt_nth_less [OF assms(1), of j "Suc j + k"] by simp
  qed
  have "filter (\<lambda>i. ?c < i) (take (Suc j) ids) = []" by (rule filter_False) (use below in \<open>auto simp: not_less\<close>)
  moreover have "filter (\<lambda>i. i \<le> ?c) (drop (Suc j) ids) = []"
    by (rule filter_False) (use above in \<open>auto simp: not_le\<close>)
  moreover have "filter (\<lambda>i. ?c < i) (drop (Suc j) ids) = drop (Suc j) ids"
    by (rule filter_True) (use above in blast)
  moreover have "filter (\<lambda>i. i \<le> ?c) (take (Suc j) ids) = take (Suc j) ids"
    by (rule filter_True) (use below in blast)
  moreover have "filter P ids = filter P (take (Suc j) ids) @ filter P (drop (Suc j) ids)" for P
    by (metis append_take_drop_id filter_append)
  moreover have "rotate (Suc j) ids = drop (Suc j) ids @ take (Suc j) ids"
    using assms(2) by (cases "Suc j = length ids") (simp_all add: rotate_drop_take)
  ultimately show ?thesis by (simp only: rotated_def option.case append_Nil append_Nil2)
qed

lemma rotated_rotate:
  assumes "sorted_wrt (<) ids"
  shows "\<exists>m. rotated cursor ids = rotate m ids"
proof (cases cursor)
  case None
  have "rotated cursor ids = rotate 0 ids" by (simp add: None rotated_def)
  then show ?thesis by blast
next
  case (Some c)
  let ?G = "filter (\<lambda>i. i \<le> c) ids" and ?F = "filter (\<lambda>i. c < i) ids"
  have "rotate (length ?G) (?G @ ?F) = ?F @ ?G" by (rule rotate_append)
  then show ?thesis unfolding sorted_split [OF assms] by (auto simp: Some rotated_def intro!: exI [of _ "length ?G"])
qed

lemma next_cursor:
  assumes "sorted_wrt (<) ids" "0 < limit" "limit \<le> length ids"
  shows "rotated (snd (next_claim_loss_hold_page limit cursor ids)) ids = rotate limit (rotated cursor ids)"
proof -
  let ?n = "length ids"
  obtain m where m: "rotated cursor ids = rotate m ids" using rotated_rotate [OF assms(1)] by blast
  let ?page = "take limit (rotate m ids)"
  have page: "fst (next_claim_loss_hold_page limit cursor ids) = ?page"
    using page_rotated [OF assms(1,2)] m by simp
  have len: "length ?page = limit" using assms(3) by simp
  have "snd (next_claim_loss_hold_page limit cursor ids) =
      (if limit \<le> length (fst (next_claim_loss_hold_page limit cursor ids))
       then Some (last (fst (next_claim_loss_hold_page limit cursor ids))) else None)"
    by (simp add: next_claim_loss_hold_page_def Let_def)
  then have cursor': "snd (next_claim_loss_hold_page limit cursor ids) = Some (last ?page)"
    unfolding page len by simp
  have "?page \<noteq> []" using len assms(2) by auto
  then have "last ?page = rotate m ids ! (limit - 1)" using len assms(2) by (simp add: last_conv_nth)
  also have "\<dots> = ids ! ((m + (limit - 1)) mod ?n)" using assms(2,3) by (intro nth_rotate) simp
  finally have "last ?page = ids ! ((m + (limit - 1)) mod ?n)" .
  then have "rotated (snd (next_claim_loss_hold_page limit cursor ids)) ids
      = rotate (Suc ((m + (limit - 1)) mod ?n)) ids"
    unfolding cursor' using rotated_Some [OF assms(1)] assms(2,3) by (metis mod_less_divisor order_less_le_trans)
  also have "\<dots> = rotate (m + limit) ids"
    using assms(2) by (subst (1 2) rotate_conv_mod) (simp add: mod_Suc_eq)
  finally show ?thesis by (simp add: m rotate_rotate add.commute)
qed

lemma pages_reach:
  assumes "sorted_wrt (<) ids" "0 < limit" "limit \<le> length ids" "p < k * limit"
  shows "rotated cursor ids ! (p mod length ids) \<in> set (concat (hold_pages k limit cursor ids))"
  using assms(4)
proof (induction k arbitrary: p cursor)
  case (Suc k)
  let ?n = "length ids"
  obtain m where m: "rotated cursor ids = rotate m ids" using rotated_rotate [OF assms(1)] by blast
  have len: "length (rotated cursor ids) = ?n" by (simp add: m)
  obtain page next' where pg: "next_claim_loss_hold_page limit cursor ids = (page, next')" by fastforce
  have page: "page = take limit (rotated cursor ids)" using page_rotated [OF assms(1,2), of cursor] pg by simp
  have next': "rotated next' ids = rotate limit (rotated cursor ids)" using next_cursor [OF assms(1-3), of cursor] pg by simp
  show ?case
  proof (cases "p < limit")
    case True
    then have "rotated cursor ids ! (p mod ?n) = page ! p" "p < length page"
      using assms(3) len by (simp_all add: page)
    then show ?thesis by (simp add: pg)
  next
    case False
    then have "rotated next' ids ! ((p - limit) mod ?n) \<in> set (concat (hold_pages k limit next' ids))"
      using Suc.prems by (intro Suc.IH) simp
    moreover have "rotated next' ids ! ((p - limit) mod ?n) = rotated cursor ids ! (p mod ?n)"
    proof -
      have "(limit + (p - limit) mod ?n) mod ?n = p mod ?n" using False by (simp add: mod_add_right_eq)
      moreover have "(p - limit) mod ?n < length (rotated cursor ids)" using assms(2,3) len by (metis mod_less_divisor order_less_le_trans)
      ultimately show ?thesis unfolding next' by (subst nth_rotate) (simp_all add: len)
    qed
    ultimately show ?thesis by (simp add: pg)
  qed
qed simp

text \<open>
  C24. However the cursor stands, every held thread is on one of the next pages once these have
  room for all: no hold is starved by holds that cannot be settled.
\<close>

theorem rotation_reaches_every_held_thread:
  assumes "sorted_wrt (<) ids" "0 < limit" "length ids \<le> k * limit"
  shows "set (concat (hold_pages k limit cursor ids)) = set ids"
proof -
  have sub: "set (concat (hold_pages n limit cursor ids)) \<subseteq> set ids" for n
  proof (induction n arbitrary: cursor)
    case (Suc n)
    obtain m where m: "rotated cursor ids = rotate m ids" using rotated_rotate [OF assms(1)] by blast
    have "set (fst (next_claim_loss_hold_page limit cursor ids)) \<subseteq> set ids"
      unfolding page_rotated [OF assms(1,2)] m by (auto dest: in_set_takeD)
    moreover obtain page next' where "next_claim_loss_hold_page limit cursor ids = (page, next')" by fastforce
    ultimately show ?case using Suc by simp
  qed simp
  have "x \<in> set (concat (hold_pages k limit cursor ids))" if x: "x \<in> set ids" for x
  proof -
    obtain m where m: "rotated cursor ids = rotate m ids" using rotated_rotate [OF assms(1)] by blast
    have "x \<in> set (rotated cursor ids)" using x by (simp add: m)
    then obtain p where p: "p < length ids" "x = rotated cursor ids ! p" by (metis in_set_conv_nth length_rotate m)
    show ?thesis
    proof (cases "limit \<le> length ids")
      case True
      then show ?thesis using pages_reach [OF assms(1,2) True, of p k cursor] p assms(3) by simp
    next
      case False
      have "k \<noteq> 0" using assms(3) p(1) by (cases k) simp_all
      then obtain k' where "k = Suc k'" by (cases k) simp_all
      moreover have "fst (next_claim_loss_hold_page limit cursor ids) = rotated cursor ids"
        unfolding page_rotated [OF assms(1,2)] using False by (simp add: m)
      moreover obtain page next' where "next_claim_loss_hold_page limit cursor ids = (page, next')" by fastforce
      ultimately show ?thesis using \<open>x \<in> set (rotated cursor ids)\<close> by simp
    qed
  qed
  then show ?thesis using sub by blast
qed

end
