(* ===== verification/Claim_Loss_Witnesses.thy ===== *)
theory Claim_Loss_Witnesses
  imports Claim_Loss_Types Repair_Behaviour Control_Witnesses
begin

text \<open>
  A concrete lost claimant: a pod claims a turn and publishes its claim, its lease expires and is
  stolen, and the reaper later learns that the pod is gone.
\<close>

section \<open>Text of numbers and times\<close>

fun digits_value :: "nat \<Rightarrow> pytext \<Rightarrow> nat" where
  "digits_value acc [] = acc"
| "digits_value acc (c # cs) = digits_value (acc * 10 + (c - 48)) cs"

definition text_int :: "pytext \<Rightarrow> int option" where
  "text_int s = (case s of [] \<Rightarrow> None | c # cs \<Rightarrow>
     if c = 45 then Some (- int (digits_value 0 cs)) else Some (int (digits_value 0 s)))"

definition int_py :: py where
  "int_py = \<lparr>py_loads = \<lambda>_. None, py_int_text = text_int, py_repr = \<lambda>_. lit ''[]''\<rparr>"

lemma digits_append: "digits_value acc (s @ [c]) = digits_value acc s * 10 + (c - 48)"
  by (induction s arbitrary: acc) simp_all

lemma digits_nat_text: "digits_value 0 (nat_text n) = n"
proof (induction n rule: nat_text.induct)
  case (1 n)
  then show ?case
    by (cases "n < 10") (simp_all add: nat_text_small nat_text_big digits_append)
qed

lemma text_int_nat: "text_int (nat_text m) = Some (int m)"
proof (cases "nat_text m")
  case Nil
  then show ?thesis by (cases "m < 10") (simp_all add: nat_text_small nat_text_big)
next
  case (Cons c cs)
  then have "48 \<le> c" using nat_text_digit [of c m] by simp
  then show ?thesis using Cons digits_nat_text [of m] by (simp add: text_int_def)
qed

lemma int_py_reads: "py_int_text int_py (int_text n) = Some n"
proof (cases "n < 0")
  case True
  then show ?thesis by (simp add: int_py_def int_text_def text_int_def digits_nat_text)
next
  case False
  then show ?thesis by (simp add: int_py_def int_text_def text_int_nat)
qed

definition lost_pg :: pg where
  "lost_pg = \<lparr>pg_iso = \<lambda>s. if s = 200 then lit ''t200'' else lit ''t205'',
     pg_time = \<lambda>_. lit ''now'',
     pg_parse = \<lambda>x. if x = lit ''t200'' then Some 200 else Some 205,
     pg_json = \<lambda>_. []\<rparr>"

section \<open>The session\<close>

definition lost_claimant :: claimant where
  "lost_claimant = \<lparr>cl_pod = lit ''pod-a'', cl_uid = lit ''u1'', cl_eviction_requested = False\<rparr>"

definition claimed_fields :: fields where
  "claimed_fields = [(ACTIVE_CLAIM_KEY, JObj [(lit ''pod'', JStr (lit ''pod-a'')), (lit ''pod_uid'', JStr (lit ''u1'')),
     (lit ''lease_token'', JInt 1)])]"

definition lost_session :: thread where
  "lost_session = demo_session\<lparr>th_metadata := JObj claimed_fields\<rparr>"

definition claimed_world :: "db \<Rightarrow> world" where
  "claimed_world d = empty_world\<lparr>threads := [lost_session], rq := d\<rparr>"

definition lost_candidate :: candidate where
  "lost_candidate = \<lparr>cand_unit_id = 7, cand_unit_kind = UNIT_KIND_SESSION_TURN, cand_leased_by = Some ''pod-a'',
     cand_lease_token = 1, cand_attempts = 1, cand_max_attempts = 5\<rparr>"

definition lost_row :: row where "lost_row = reap_eff 200 5 demo_turn_leased"

definition lost_unit :: stolen_unit where "lost_unit = stolen_session lost_candidate demo_turn_leased lost_row"

definition lost_frame :: event where
  "lost_frame = \<lparr>ev_thread = 7, ev_epoch = 2, ev_seq = 1, ev_kind = lit ''turn.interrupted'',
     ev_payload = JObj (turn_frame_payload (su_attempts lost_unit) (Some (lit ''pod-a'')) no_reconcile None
       (lit ''lease_expired'')), ev_control = None, ev_interrupt = None, ev_permission = None\<rparr>"

definition leased_db :: db where "leased_db = store demo_turn demo_turn_leased"

definition journaled_world :: world where
  "journaled_world = empty_world\<lparr>threads := [lost_session\<lparr>th_epoch := 2, th_events_hwm := 1\<rparr>],
     rq := store leased_db lost_row, events := [lost_frame]\<rparr>"

definition lost_fields :: fields where
  "lost_fields = stolen_metadata lost_pg lost_candidate (Some lost_claimant) 2 lost_row claimed_fields"

definition lost_thread :: thread where
  "lost_thread = lost_session\<lparr>th_epoch := 2, th_events_hwm := 1, th_metadata := JObj lost_fields\<rparr>"

definition lost_world :: world where
  "lost_world = empty_world\<lparr>threads := [lost_thread], events := [lost_frame],
     rq := store (store leased_db lost_row) (hold_eff 200 lost_row)\<rparr>"

lemma lost_names: "strip (lit ''pod-a'') = lit ''pod-a''" "strip (lit ''u1'') = lit ''u1''" "lit ''pod-a'' \<noteq> []" "lit ''u1'' \<noteq> []"
  by (simp_all add: lit_def strip_def rstrip_def is_space_def)

lemma lost_session_fields [simp]:
  "th_id lost_session = 7" "th_lane lost_session = LANE_STATELESS" "th_agent lost_session = None"
  "th_epoch lost_session = 1" "th_metadata lost_session = JObj claimed_fields"
  by (simp_all add: lost_session_def demo_session_def)

lemma lost_candidate_fields [simp]:
  "cand_unit_id lost_candidate = 7" "cand_lease_token lost_candidate = 1" "candidate_owner lost_candidate = lit ''pod-a''"
  by (simp_all add: lost_candidate_def candidate_owner_def lost_names)

lemma leased_fields [simp]: "unit_id demo_turn_row = 7"
  "unit_id demo_turn_leased = 7" "unit_kind demo_turn_leased = UNIT_KIND_SESSION_TURN" "state demo_turn_leased = Leased"
  "lease_token demo_turn_leased = 1" "leased_by demo_turn_leased = Some ''pod-a''" "leased_until demo_turn_leased = Some 70"
  "dedup_key demo_turn_leased = None" "interrupt_admission_turn_id demo_turn_leased = None"
  "attempts_since_completion demo_turn_leased = 1" "max_attempts demo_turn_leased = 5"
  "input_seq demo_turn_leased = Some 5" "consumed_seq demo_turn_leased = Some 4"
  by (simp_all add: demo_turn_defs)

lemma lost_row_fields [simp]:
  "unit_id lost_row = 7" "unit_kind lost_row = UNIT_KIND_SESSION_TURN" "state lost_row = Queued" "lease_token lost_row = 2"
  "leased_by lost_row = None" "leased_until lost_row = None" "dedup_key lost_row = None"
  "attempts_since_completion lost_row = 1" "queued_at lost_row = 200" "run_after lost_row = 205"
  by (simp_all add: lost_row_def reap_eff_def Let_def)

lemma lost_unit_fields [simp]:
  "su_unit_id lost_unit = 7" "su_state lost_unit = Queued" "su_lease_token lost_unit = 2"
  "su_previous_lease_token lost_unit = Some 1" "su_interrupt_turn lost_unit = None"
  "map_option lit (su_leased_by lost_unit) = Some (lit ''pod-a'')"
  by (simp_all add: lost_unit_def stolen_session_def stolen_of_def)

lemma claimed_tables [simp]:
  "permissions (claimed_world d) = []" "interrupts (claimed_world d) = []" "events (claimed_world d) = []"
  "rq (claimed_world d) = d"
  by (simp_all add: claimed_world_def empty_world_def)

lemma lost_lookup:
  "row_of leased_db 7 = Some demo_turn_leased" "queue leased_db = [demo_turn_leased]"
  "row_of (rq journaled_world) 7 = Some lost_row" "row_of (rq lost_world) 7 = Some (hold_eff 200 lost_row)"
  "thread_of (claimed_world d) 7 = Some lost_session" "thread_of lost_world 7 = Some lost_thread"
  "thread_of journaled_world 7 = Some (lost_session\<lparr>th_epoch := 2, th_events_hwm := 1\<rparr>)"
  by (simp_all add: leased_db_def demo_turn_rows store_def put_by_def row_of_def claimed_world_def lost_world_def
      lost_thread_def journaled_world_def thread_of_def hold_eff_def)

lemma lost_claim:
  "active_claim_authority int_py (JObj claimed_fields) = Inr (Some (1, lost_claimant))"
  "unresolved_claim_losses int_py (JObj claimed_fields) = Inr []"
  "current_claimant int_py lost_candidate (JObj claimed_fields) = Inr (Some lost_claimant)"
proof -
  show act: "active_claim_authority int_py (JObj claimed_fields) = Inr (Some (1, lost_claimant))"
    by (simp add: active_claim_authority_def claimant_authority_def metadata_root_def claimed_fields_def
        stripped_text_def lost_names lost_claimant_def Let_def)
  show none: "unresolved_claim_losses int_py (JObj claimed_fields) = Inr []"
    by (simp add: unresolved_claim_losses_def metadata_root_def claimed_fields_def)
  show "current_claimant int_py lost_candidate (JObj claimed_fields) = Inr (Some lost_claimant)"
    unfolding current_claimant_def none act by (simp add: lost_claimant_def)
qed

section \<open>The steal\<close>

lemma lost_journal:
  "journal_loss int_py 200 7 lost_unit (claimed_world (store leased_db lost_row)) = Inr (no_reconcile, journaled_world)"
proof -
  let ?w = "claimed_world (store leased_db lost_row)"
  let ?w1 = "put_thread (lost_session\<lparr>th_epoch := 2, th_events_hwm := 0\<rparr>) ?w"
  have w1: "snd (bump_epoch 7 ?w) = ?w1" by (simp add: bump_epoch_def lost_lookup)
  have none: "permissions ?w1 = []" "interrupts ?w1 = []" "events ?w1 = []"
    by (simp_all add: put_thread_def)
  have "stale_permissions ?w1 7 2 = []" by (simp add: stale_permissions_def none)
  then have r: "retire_stale_stateless_permissions 200 7 1 2 (lit ''lease_expired'') True ?w1 = Inr (([], False), ?w1)"
    by (simp add: retire_stale_stateless_permissions_def retire_reasons_def)
  have "stolen_interrupts ?w1 7 1 = []" by (simp add: stolen_interrupts_def none)
  then have i: "reconcile_stolen_interrupts int_py 200 7 lost_unit ?w1 = Inr (no_reconcile, ?w1)"
    by (simp add: reconcile_stolen_interrupts_def reconcile_interrupt_rows_def) (simp add: no_reconcile_def)
  have k: "steal_frame_kind Queued no_reconcile = lit ''turn.interrupted''" by (simp add: steal_frame_kind_def)
  have s: "turn_frame_slices no_reconcile = [no_reconcile]" by (simp add: turn_frame_slices_def no_reconcile_def)
  have th: "thread_of ?w1 7 = Some (lost_session\<lparr>th_epoch := 2, th_events_hwm := 0\<rparr>)"
    by (simp add: thread_of_put_thread lost_lookup)
  have "append_turn_frames 7 (lit ''turn.interrupted'') (su_attempts lost_unit) (Some (lit ''pod-a'')) no_reconcile None
      (lit ''lease_expired'') ?w1 = Inr journaled_world"
    unfolding append_turn_frames_def s
    by (simp add: append_system_frame_def th event_conflict_def none lost_frame_def journaled_world_def)
      (simp add: put_thread_def put_by_def claimed_world_def empty_world_def)
  then show ?thesis unfolding journal_loss_def using r i k by (simp add: w1)
qed

lemma lost_hold:
  "hold_session lost_pg 200 lost_candidate (Some lost_claimant) claimed_fields lost_unit journaled_world = Inr lost_world"
proof -
  have "loss_ledger lost_candidate (Some lost_claimant) claimed_fields \<noteq> []" by (simp add: loss_ledger_def merged_def)
  then show ?thesis
    by (simp add: hold_session_def lost_lookup Let_def)
      (simp add: lost_world_def lost_thread_def lost_fields_def journaled_world_def put_queue_def put_thread_def
        put_by_def)
qed

lemma lost_steal:
  "steal_session_with_claim_loss int_py lost_pg 200 30 5 lost_candidate (claimed_world leased_db)
   = Inr (Some lost_unit, lost_world)"
proof -
  have guard: "steal_guard 200 30 lost_candidate demo_turn_leased"
    by (simp add: steal_guard_def held_def expired_def)
  have q: "row_of (rq (claimed_world leased_db)) 7 = Some demo_turn_leased"
    using lost_lookup(1) by (simp add: claimed_world_def)
  have no: "\<not> dedup_conflict ds lost_row" for ds by (simp add: dedup_conflict_def same_dedup_def)
  have put: "put_queue lost_row (claimed_world leased_db) = claimed_world (store leased_db lost_row)"
    by (simp add: put_queue_def claimed_world_def)
  have md: "metadata_root int_py (JObj claimed_fields) = Inr claimed_fields" by (simp add: metadata_root_def)
  show ?thesis
    unfolding steal_session_with_claim_loss_def Let_def lost_candidate_fields
    using lost_names(3) guard q no lost_journal lost_hold
    by (simp add: lost_lookup lost_claim md put lost_row_def [symmetric] lost_unit_def [symmetric])
qed

lemma lost_run: "claim_run False int_py lost_pg lost_world"
proof -
  have debt: "claim_debt int_py (claimed_world d) t = claim_debt int_py empty_world t" for d t
    by (simp add: claim_debt_def claimed_world_def empty_world_def thread_of_def claimed_fields_def)
  have unparked: "\<not> (\<exists>now v r. unpark_unit now v d = Inr (r, d'))" "\<not> (\<exists>now v wm r. settle_parked_unit now v wm d = Inr (r, d'))"
    if "\<forall>q \<in> set (queue d). state q \<noteq> Parked" "d' \<noteq> d" for d d'
  proof -
    have "cas v (parked_free d) eff d = Inr (None, d)" for v eff
      using that(1) by (auto simp: cas_def parked_free_def row_of_in split: option.splits)
    then show "\<not> (\<exists>now v r. unpark_unit now v d = Inr (r, d'))" "\<not> (\<exists>now v wm r. settle_parked_unit now v wm d = Inr (r, d'))"
      using that(2) by (auto simp: unpark_unit_def settle_parked_unit_def)
  qed
  have "state demo_turn_row = Queued" by (simp add: demo_turn_row_def fresh_row_def)
  moreover have "state demo_turn_leased = Leased" by simp
  ultimately have "demo_turn_leased \<noteq> demo_turn_row" by (metis qstate.distinct(1))
  then have "queue demo_turn \<noteq> queue empty_db" "queue leased_db \<noteq> queue demo_turn"
    using lost_lookup(2) demo_turn_rows(1) by (simp_all add: empty_db_def)
  then have ne: "demo_turn \<noteq> empty_db" "leased_db \<noteq> demo_turn" by metis+
  have 1: "claim_step False int_py lost_pg empty_world (claimed_world empty_db)"
    using debt by (intro claim_step.elsewhere) (simp_all add: claimed_world_def empty_world_def)
  have "claim_step False int_py lost_pg (claimed_world empty_db) ((claimed_world empty_db)\<lparr>rq := demo_turn\<rparr>)"
    using rq_step.input [OF demo_turn_input] ne(1)
    by (intro claim_step.queue unparked) (simp_all add: claimed_world_def empty_db_def)
  then have 2: "claim_step False int_py lost_pg (claimed_world empty_db) (claimed_world demo_turn)"
    by (simp add: claimed_world_def)
  have "claim_step False int_py lost_pg (claimed_world demo_turn) ((claimed_world demo_turn)\<lparr>rq := leased_db\<rparr>)"
    using rq_step.claim [OF demo_turn_claim] ne(2)
    by (intro claim_step.queue unparked) (simp_all add: claimed_world_def leased_db_def demo_turn_rows demo_turn_row_def fresh_row_def)
  then have 3: "claim_step False int_py lost_pg (claimed_world demo_turn) (claimed_world leased_db)"
    by (simp add: claimed_world_def)
  have 4: "claim_step False int_py lost_pg (claimed_world leased_db) lost_world"
    by (rule claim_step.steal [OF lost_steal])
  have "(claim_step False int_py lost_pg)\<^sup>*\<^sup>* (claimed_world leased_db) lost_world"
    using 4 by (rule r_into_rtranclp)
  with 3 have "(claim_step False int_py lost_pg)\<^sup>*\<^sup>* (claimed_world demo_turn) lost_world"
    by (rule converse_rtranclp_into_rtranclp)
  with 2 have "(claim_step False int_py lost_pg)\<^sup>*\<^sup>* (claimed_world empty_db) lost_world"
    by (rule converse_rtranclp_into_rtranclp)
  with 1 show ?thesis
    unfolding claim_run_def by (rule converse_rtranclp_into_rtranclp)
qed

section \<open>Witnesses\<close>

lemma lost_claimant_named: "claimant_named lost_claimant"
  by (simp add: claimant_named_def lost_claimant_def lost_names)

lemma lost_ledger:
  "map_of lost_fields CLAIM_LOSS_LEDGER_KEY = Some (JObj [(int_text 1, JObj (lost_entry lost_claimant))])"
  "map_of lost_fields CLAIM_LOSS_HOLD_KEY = Some (JObj (hold_of lost_pg 2 lost_row))"
  "pending_retirement lost_fields = Inr None"
proof -
  have no: "CLAIM_LOSS_LEDGER_KEY \<notin> keys claimed_fields" "WORKSPACE_RETIREMENT_PENDING_KEY \<notin> keys claimed_fields"
    by (simp_all add: claimed_fields_def) (simp add: WORKSPACE_RETIREMENT_PENDING_KEY_def ACTIVE_CLAIM_KEY_def)
  show "map_of lost_fields CLAIM_LOSS_LEDGER_KEY = Some (JObj [(int_text 1, JObj (lost_entry lost_claimant))])"
    "map_of lost_fields CLAIM_LOSS_HOLD_KEY = Some (JObj (hold_of lost_pg 2 lost_row))"
    using first_ledger [OF no(1), of lost_candidate lost_claimant] by (simp_all add: lost_fields_def stolen_metadata_debt)
  show "pending_retirement lost_fields = Inr None" unfolding lost_fields_def by (rule stolen_pending [OF no(2)])
qed

lemma lost_thread_fields: "thread_of lost_world 7 = Some lost_thread" "th_lane lost_thread = LANE_STATELESS"
  "th_metadata lost_thread = JObj lost_fields" "metadata_root int_py (th_metadata lost_thread) = Inr lost_fields"
  by (simp_all add: lost_lookup) (simp_all add: lost_thread_def metadata_root_def)

lemma lost_losses: "unresolved_claim_losses int_py (th_metadata lost_thread) = Inr [(1, lost_claimant)]"
  using first_loss(1) [OF lost_ledger(1) lost_claimant_named _ int_py_reads]
  by (simp add: lost_thread_fields(3) lost_claimant_def)

theorem unresolved_losses_hold_the_session_witness:
  "(\<exists>q. row_of (rq lost_world) 7 = Some q \<and> state q = Parked) \<and> \<not> live_lease 7 2 (rq lost_world)"
  by (rule unresolved_losses_hold_the_session [OF lost_run lost_thread_fields(1,2) lost_losses]) simp

theorem steal_records_the_claimant_witness:
  "\<exists>th' md' q q'. thread_of lost_world 7 = Some th' \<and> th_metadata th' = JObj md' \<and>
    ACTIVE_CLAIM_KEY \<notin> keys md' \<and>
    ledger_entry md' 1 = [(lit ''pod'', JStr (lit ''pod-a'')), (lit ''pod_uid'', JStr (lit ''u1'')),
      (lit ''quiesced'', JBool False)] \<and>
    jget md' CLAIM_LOSS_HOLD_KEY = JObj (hold_of lost_pg 2 q) \<and>
    row_of (rq lost_world) 7 = Some q' \<and> q' = hold_eff 200 q \<and> state q \<noteq> Leased \<and> lease_token q' = 2 \<and>
    su_lease_token lost_unit = 2"
  using steal_records_the_claimant [OF lost_steal, of lost_session lost_claimant] lost_lookup(5) lost_claim(1)
  by (simp add: lost_claimant_def)

lemma lost_row_kept: "reason_kept lost_row" "times_read_back lost_pg lost_row"
proof -
  have "lit ''t205'' \<noteq> lit ''t200''" by simp
  then show "reason_kept lost_row" "times_read_back lost_pg lost_row"
    by (simp_all add: reason_kept_def times_read_back_def lost_pg_def)
qed

lemma lost_disposition: "disposition lost_row = Queued"
  by (simp add: disposition_def)

theorem acknowledged_hold_is_restored_witness:
  "\<exists>w2 q2. acknowledge_session_claim_quiesced int_py lost_pg (\<lambda>_. Inr None) (lit ''now'') 7 1 (lit ''pod-a'')
      (lit ''u1'') (lit ''drain'') None None lost_world = Inr (True, w2) \<and>
    claim_debt int_py w2 7 = no_debt \<and> row_of (rq w2) 7 = Some q2 \<and> state q2 = Queued \<and>
    attempts_since_completion q2 = 1 \<and> queued_at q2 = 200 \<and> run_after q2 = 205 \<and> lease_token q2 = 2 \<and>
    park_reason q2 = None"
proof -
  have no: "CLAIM_LOSS_LEDGER_KEY \<notin> keys claimed_fields" "WORKSPACE_RETIREMENT_PENDING_KEY \<notin> keys claimed_fields"
    by (simp_all add: claimed_fields_def) (simp add: WORKSPACE_RETIREMENT_PENDING_KEY_def ACTIVE_CLAIM_KEY_def)
  show ?thesis
    using acknowledged_hold_is_restored [OF lost_hold, of _ lost_row int_py "\<lambda>_. Inr None" "lit ''now''" "lit ''drain''" None]
      lost_lookup(3,7) no lost_claimant_named lost_row_kept int_py_reads [of 1] lost_disposition
    by (simp add: lost_claimant_def)
qed

definition settled_row :: row where
  "settled_row = restore_eff Queued 1 (Some 205) (Some 200) None (hold_eff 200 lost_row)"

definition settled_world :: world where
  "settled_world = put_queue settled_row
     (put_thread (lost_thread\<lparr>th_metadata := JObj (settled_metadata lost_fields [] None (lit ''drain'') None)\<rparr>) lost_world)"

lemma lost_ack:
  "acknowledge_session_claim_quiesced int_py lost_pg (\<lambda>_. Inr None) (lit ''now'') 7 1 (lit ''pod-a'') (lit ''u1'')
     (lit ''drain'') None None lost_world = Inr (True, settled_world)"
proof -
  have res: "restore_unit int_py lost_pg (hold_of lost_pg 2 lost_row) (hold_eff 200 lost_row) w = Inr (put_queue settled_row w)" for w
    by (rule restore_held_row [OF lost_row_kept])
      (simp_all add: settled_row_def hold_of_fields lost_disposition)
  have hold: "claim_loss_hold int_py lost_fields = Inr (Some (hold_of lost_pg 2 lost_row))"
    by (rule hold_parses) (simp_all add: jget_def lost_ledger lost_row_kept)
  have "acknowledge_session_claim_quiesced int_py lost_pg (\<lambda>_. Inr None) (lit ''now'') 7 1 (cl_pod lost_claimant)
      (cl_uid lost_claimant) (lit ''drain'') None None lost_world = Inr (True, settled_world)"
    unfolding settled_world_def
    by (rule acknowledge_first_loss [OF lost_thread_fields(1-3) lost_lookup(4) _ lost_ledger(1) lost_claimant_named _
        int_py_reads hold lost_ledger(3) _ refl])
      (simp_all add: hold_of_fields res, simp_all add: hold_eff_def)
  then show ?thesis by (simp add: lost_claimant_def)
qed

theorem acknowledgement_is_exact_witness:
  "\<exists>th md losses c. thread_of lost_world 7 = Some th \<and> metadata_root int_py (th_metadata th) = Inr md \<and>
      unresolved_claim_losses int_py (JObj md) = Inr losses \<and> map_of losses 1 = Some c \<and>
      cl_pod c = strip (lit ''pod-a'') \<and> cl_uid c = strip (lit ''u1'') \<and>
      (let rest = without (object_at md CLAIM_LOSS_LEDGER_KEY) (int_text 1) in
       fst (claim_debt int_py settled_world 7) = (if rest = [] then None else Some (JObj rest)) \<and>
       (rest \<noteq> [] \<longrightarrow> rq settled_world = rq lost_world \<and>
          snd (claim_debt int_py settled_world 7) = snd (claim_debt int_py lost_world 7)))"
  by (rule acknowledgement_is_exact [OF lost_ack, unfolded if_True])

theorem reachable_ledgers_parse_witness:
  "\<exists>losses hold. unresolved_claim_losses int_py (th_metadata lost_thread) = Inr losses \<and>
    claim_loss_hold int_py lost_fields = Inr hold \<and> (losses = [] \<longleftrightarrow> hold = None)"
  by (rule reachable_ledgers_parse [OF lost_run int_py_reads lost_thread_fields(1,2,4)])

end
