(* ===== verification/Reap_Cycle_Runs.thy ===== *)
theory Reap_Cycle_Runs
  imports Claim_Loss_Types
begin

text \<open>
  The reaper's cycle as the code runs it is a run of the step relation: each statement it commits
  is one step, whatever raises in between. What holds of every reachable world, in particular
  that a session with an unresolved loss stays parked, therefore holds after every cycle.
\<close>

section \<open>Steals of other units\<close>

definition revives :: "db \<Rightarrow> db \<Rightarrow> bool" where
  "revives d d' \<longleftrightarrow>
     (\<exists>now v r. unpark_unit now v d = Inr (r, d')) \<or> (\<exists>now v wm r. settle_parked_unit now v wm d = Inr (r, d'))"

lemma revived_row:
  assumes "revives d d'" "d' \<noteq> d"
  obtains q q' where "row_of d (unit_id q') = Some q" "state q = Parked" "d' = store d q'"
    "lease_token q' = lease_token q"
proof -
  obtain v eff res where c: "cas v (parked_free d) eff d = Inr (res, d')"
    "\<And>q. unit_id (eff q) = unit_id q" "\<And>q. lease_token (eff q) = lease_token q"
    using assms(1) by (auto simp: revives_def unpark_unit_def settle_parked_unit_def map_ok_Inr
        unpark_eff_def settle_eff_def Let_def)
  from c(1) show ?thesis
  proof (cases rule: cas_cases)
    case miss
    then show ?thesis using assms(2) by simp
  next
    case (hit r)
    then show ?thesis
      using that [of "eff r" r] c(2,3) row_of_unit [OF hit(1)] by (simp add: parked_free_def)
  qed
qed

lemma reap_steal_cases:
  assumes "reap_steal now grace b c d = Inr (u, d')"
  obtains (none) "u = None" "d' = d"
  | (stolen) q where "row_of d (cand_unit_id c) = Some q" "state q = Leased" "d' = store d (reap_eff now b q)"
      "u = Some (stolen_of c q (reap_eff now b q))"
proof -
  obtain res where r: "cas (cand_unit_id c) (reap_guard d now grace (cand_lease_token c)) (reap_eff now b) d
      = Inr (res, d')" "u = map_option (\<lambda>(old, new). stolen_of c old new) res"
    using assms by (auto simp: reap_steal_def map_ok_Inr)
  from r(1) show ?thesis
  proof (cases rule: cas_cases)
    case miss
    then show ?thesis using none r(2) by simp
  next
    case (hit q)
    then show ?thesis using stolen r(2) by (simp add: reap_guard_def held_def)
  qed
qed

text \<open>The rows the sweep has read are still there, with the kinds it has read.\<close>

definition kinds_seen :: "candidate list \<Rightarrow> db \<Rightarrow> bool" where
  "kinds_seen cs d \<longleftrightarrow>
     (\<forall>c \<in> set cs. \<exists>q. row_of d (cand_unit_id c) = Some q \<and> unit_kind q = cand_unit_kind c)"

lemma kinds_seen_same: "kinds_seen cs d \<Longrightarrow> keeps_kinds d d' \<Longrightarrow> kinds_seen cs d'"
  unfolding kinds_seen_def keeps_kinds_def by metis

lemma reap_steal_step:
  assumes "reap_steal now grace b c d = Inr (u, d')"
  shows "d' = d \<or> rq_step races d d' \<and> \<not> revives d d'" "keeps_kinds d d'"
    "u = Some x \<Longrightarrow> kinds_seen [c] d \<Longrightarrow> su_unit_kind x = cand_unit_kind c"
proof -
  have "(d' = d \<or> \<not> revives d d') \<and> keeps_kinds d d' \<and>
      (u = Some x \<longrightarrow> kinds_seen [c] d \<longrightarrow> su_unit_kind x = cand_unit_kind c)"
    using assms
  proof (cases rule: reap_steal_cases)
    case none
    then show ?thesis by (simp add: keeps_kinds_def)
  next
    case (stolen q)
    let ?q = "reap_eff now b q" and ?t = "cand_unit_id c"
    have id: "unit_id ?q = ?t" using row_of_unit [OF stolen(1)] by (simp add: reap_eff_idle)
    have rows: "row_of d' v = (if v = ?t then Some ?q else row_of d v)" for v
      using row_of_store [of d ?q v] stolen(1) id by (simp add: stolen(3))
    have "\<not> revives d d'" if ne: "d' \<noteq> d"
    proof
      assume "revives d d'"
      then obtain x x' where x: "row_of d (unit_id x') = Some x" "state x = Parked" "d' = store d x'"
        "lease_token x' = lease_token x"
        using ne by (rule revived_row)
      have "row_of d' (unit_id x') = Some x'" using row_of_store [of d x' "unit_id x'"] x(1,3) by simp
      moreover have "unit_id x' \<noteq> ?t" using x(1,2) stolen(1,2) by auto
      moreover have "row_of d' ?t = row_of d ?t"
        using row_of_store [of d x' ?t] x(1,3) calculation(2) by simp
      then have "?q = q" using rows [of ?t] stolen(1) by simp
      then show False using reap_eff_idle(3) [of now b q] by simp
    qed
    moreover have "keeps_kinds d d'"
      using stolen(1) by (auto simp: keeps_kinds_def rows reap_eff_idle)
    moreover have "su_unit_kind (stolen_of c q ?q) = unit_kind q" by (simp add: stolen_of_def reap_eff_idle)
    ultimately show ?thesis using stolen(1,4) by (auto simp: kinds_seen_def)
  qed
  then show "d' = d \<or> rq_step races d d' \<and> \<not> revives d d'" "keeps_kinds d d'"
    "u = Some x \<Longrightarrow> kinds_seen [c] d \<Longrightarrow> su_unit_kind x = cand_unit_kind c"
    using rq_step.steal [OF assms] by blast+
qed

section \<open>Steals of sessions\<close>

lemma steal_kinds:
  assumes ok: "db_ok (rq w)" and steal: "steal_session_with_claim_loss p g now grace b c w = Inr (u, w')"
  shows "keeps_kinds (rq w) (rq w')" "u = Some x \<Longrightarrow> su_lifecycle_journaled x"
proof -
  have "keeps_kinds (rq w) (rq w') \<and> (u = Some x \<longrightarrow> su_lifecycle_journaled x)"
    using steal
  proof (cases rule: steal_cases)
    case none
    then show ?thesis by (simp add: keeps_kinds_def)
  next
    case (stolen th q0 cur md rr w2)
    let ?t = "cand_unit_id c" and ?q1 = "reap_eff now b q0"
    note q1 = stolen_queue [OF ok stolen(5-7)]
    have quiet: "queue_quiet ?t (put_queue ?q1 w) w2" using queue_settlement.journal_quiet [OF stolen(9)] .
    have ok2: "db_ok (rq w2)" using quiet q1(1) by (simp add: queue_quiet_def)
    have "row_of (rq (put_queue ?q1 w)) ?t = Some ?q1" "state ?q1 \<noteq> Leased"
      using q1(2) [of ?t] reap_eff_idle(4) [of now b q0] by auto
    then have "idle_after ?q1 (row_of (rq w2) ?t)" using quiet unfolding queue_quiet_def by blast
    then obtain q where q: "row_of (rq w2) ?t = Some q" "unit_kind q = unit_kind q0"
      by (auto simp: idle_after_def reap_eff_idle)
    have other: "row_of (rq w2) v = row_of (rq w) v" if "v \<noteq> ?t" for v
      using that quiet q1(2) by (auto simp: queue_quiet_def)
    from stolen(10) have rows: "map_option unit_kind (row_of (rq w') v) = map_option unit_kind (row_of (rq w2) v)" for v
    proof (cases rule: hold_cases)
      case (1 x y)
      have "unit_id (hold_eff now x) = ?t" "unit_kind (hold_eff now x) = unit_kind x"
        using row_of_unit [OF 1(1)] by (simp_all add: hold_eff_def)
      then show ?thesis
        using row_of_store [of "rq w2" "hold_eff now x" v] 1(1) by (simp add: 1(6) Let_def)
    qed
    have "map_option unit_kind (row_of (rq w') v) = map_option unit_kind (row_of (rq w) v)" for v
      using rows q stolen(5) other by (cases "v = ?t") simp_all
    then have "keeps_kinds (rq w) (rq w')" unfolding keeps_kinds_def by (metis map_option_eq_Some)
    then show ?thesis using stolen(11) by (auto simp: stolen_session_def)
  qed
  then show "keeps_kinds (rq w) (rq w')" "u = Some x \<Longrightarrow> su_lifecycle_journaled x" by blast+
qed

section \<open>The loops\<close>

lemma run_trans: "(claim_step races p g)\<^sup>*\<^sup>* w w1 \<Longrightarrow> (claim_step races p g)\<^sup>*\<^sup>* w1 w2 \<Longrightarrow> (claim_step races p g)\<^sup>*\<^sup>* w w2"
  by (rule rtranclp_trans)

lemma run_held: "(claim_step races p g)\<^sup>*\<^sup>* w w' \<Longrightarrow> debt_held p w \<Longrightarrow> debt_held p w'"
  by (induction rule: rtranclp_induct) (use claim_step_held in blast)+

lemma queue_change_run:
  assumes "d' = rq w \<or> rq_step races (rq w) d' \<and> \<not> revives (rq w) d'"
  shows "(claim_step races p g)\<^sup>*\<^sup>* w (w\<lparr>rq := d'\<rparr>)"
proof (cases "d' = rq w")
  case False
  then have "claim_step races p g w (w\<lparr>rq := d'\<rparr>)"
    using assms by (intro claim_step.queue) (auto simp: revives_def)
  then show ?thesis by (rule r_into_rtranclp)
qed simp

text \<open>One candidate of the sweep.\<close>

definition stolen_quietly :: "stolen_unit option \<Rightarrow> bool" where
  "stolen_quietly u \<longleftrightarrow> (\<forall>x. u = Some x \<longrightarrow> su_unit_kind x \<noteq> UNIT_KIND_SESSION_TURN \<or> su_lifecycle_journaled x)"

lemma session_steal_run:
  assumes held: "debt_held p w" and steal: "try_steal_session p g now grace b c w = (u, w')"
  shows "(claim_step races p g)\<^sup>*\<^sup>* w w'" "keeps_kinds (rq w) (rq w')" "stolen_quietly u"
proof -
  have "(claim_step races p g)\<^sup>*\<^sup>* w w' \<and> keeps_kinds (rq w) (rq w') \<and> stolen_quietly u"
  proof (cases "steal_session_with_claim_loss p g now grace b c w")
    case (Inl e)
    then show ?thesis using steal by (simp add: try_steal_session_def keeps_kinds_def stolen_quietly_def)
  next
    case (Inr r)
    then have s: "steal_session_with_claim_loss p g now grace b c w = Inr (u, w')"
      using steal by (simp add: try_steal_session_def)
    show ?thesis
      using r_into_rtranclp [of "claim_step races p g", OF claim_step.steal [OF s]]
        steal_kinds [OF debt_heldD(1) [OF held] s]
      by (simp add: stolen_quietly_def)
  qed
  then show "(claim_step races p g)\<^sup>*\<^sup>* w w'" "keeps_kinds (rq w) (rq w')" "stolen_quietly u" by blast+
qed

text \<open>The hook for worker batches: what it parks is a step of worker batches, its steal one of the queue.\<close>

lemma worker_steal_run:
  assumes kinds: "kinds_seen [c] (rq w)" "cand_unit_kind c = UNIT_KIND_WORKER_BATCH"
    and steal: "try_steal_worker_with_recovery answers c b grace (rq w) = Inr (u, d')"
  shows "(claim_step races p g)\<^sup>*\<^sup>* w (w\<lparr>rq := d'\<rparr>) \<and> keeps_kinds (rq w) d' \<and> stolen_quietly u"
  using steal
proof (cases rule: hook_change)
  case held
  then show ?thesis
    using r_into_rtranclp [of "claim_step races p g", OF claim_step.worker] worker_change_keeps_kinds
    by (simp add: stolen_quietly_def)
next
  case (stolen d1)
  let ?w1 = "w\<lparr>rq := d1\<rparr>"
  have k1: "keeps_kinds (rq w) d1" using worker_change_keeps_kinds [OF stolen(1)] .
  have run1: "(claim_step races p g)\<^sup>*\<^sup>* w ?w1"
    using claim_step.worker [of w d1 races p g, OF stolen(1)] by (rule r_into_rtranclp)
  have "(claim_step races p g)\<^sup>*\<^sup>* ?w1 (?w1\<lparr>rq := d'\<rparr>)"
    using reap_steal_step(1) [OF stolen(2)] by (intro queue_change_run) simp
  moreover have "stolen_quietly u"
    using reap_steal_step(3) [OF stolen(2) _ kinds_seen_same [OF kinds(1) k1]] kinds(2)
    by (auto simp: stolen_quietly_def UNIT_KIND_SESSION_TURN_def UNIT_KIND_WORKER_BATCH_def)
  ultimately show ?thesis
    using run_trans [OF run1] keeps_kinds_trans [OF k1 reap_steal_step(2) [OF stolen(2)]] by simp
qed

lemma other_steal_run:
  assumes kinds: "kinds_seen [c] (rq w)" "cand_unit_kind c \<noteq> UNIT_KIND_SESSION_TURN"
    and steal: "steal_for None (Some (try_steal_worker_with_recovery answers)) now grace b c (rq w) = Inr (u, d')"
  shows "(claim_step races p g)\<^sup>*\<^sup>* w (w\<lparr>rq := d'\<rparr>) \<and> keeps_kinds (rq w) d' \<and> stolen_quietly u"
proof (cases "cand_unit_kind c = UNIT_KIND_WORKER_BATCH")
  case True
  then have "try_steal_worker_with_recovery answers c b grace (rq w) = Inr (u, d')"
    using steal kinds(2) by (auto simp: steal_for_def)
  from worker_steal_run [OF kinds(1) True this] show ?thesis .
next
  case False
  then have s: "reap_steal now grace b c (rq w) = Inr (u, d')"
    using steal kinds(2) by (auto simp: steal_for_def split: if_splits)
  show ?thesis
    using queue_change_run [OF reap_steal_step(1) [OF s]] reap_steal_step(2) [OF s]
      reap_steal_step(3) [OF s _ kinds(1)] kinds(2)
    by (simp add: stolen_quietly_def)
qed

lemma reap_units_run:
  "reap_units p g (Some (try_steal_worker_with_recovery answers)) clock jit grace base i cs w = (r, w') \<Longrightarrow>
   debt_held p w \<Longrightarrow> kinds_seen cs (rq w) \<Longrightarrow>
   (claim_step races p g)\<^sup>*\<^sup>* w w' \<and> (\<forall>us. r = Inr us \<longrightarrow> (\<forall>x \<in> set us. stolen_quietly (Some x)))"
proof (induction cs arbitrary: i w r)
  case Nil
  then show ?case by auto
next
  case (Cons c cs)
  let ?ws = "Some (try_steal_worker_with_recovery answers)"
  define b where "b = base * of_int (cand_attempts c) * (1 + jit i)"
  define res where "res = (if cand_unit_kind c = UNIT_KIND_SESSION_TURN
            then Inr (try_steal_session p g (clock i) grace b c w)
            else map_ok (\<lambda>(u, d). (u, w\<lparr>rq := d\<rparr>)) (steal_for None ?ws (clock i) grace b c (rq w)))"
  note loop = Cons.prems(1) [unfolded reap_units.simps Let_def, folded b_def, folded res_def]
  show ?case
  proof (cases res)
    case (Inl e)
    then show ?thesis using loop by auto
  next
    case (Inr y)
    obtain u w1 where y: "y = (u, w1)" by (cases y)
    have one: "(claim_step races p g)\<^sup>*\<^sup>* w w1 \<and> keeps_kinds (rq w) (rq w1) \<and> stolen_quietly u"
    proof (cases "cand_unit_kind c = UNIT_KIND_SESSION_TURN")
      case True
      then have "try_steal_session p g (clock i) grace b c w = (u, w1)" using Inr y by (simp add: res_def)
      note S = session_steal_run [OF Cons.prems(2) this]
      show ?thesis by (intro conjI S)
    next
      case False
      then obtain d where d: "steal_for None ?ws (clock i) grace b c (rq w) = Inr (u, d)" "w1 = w\<lparr>rq := d\<rparr>"
        using Inr y by (auto simp: res_def map_ok_Inr)
      have "kinds_seen [c] (rq w)" using Cons.prems(3) by (simp add: kinds_seen_def)
      from other_steal_run [OF this False d(1)] show ?thesis by (simp add: d(2))
    qed
    obtain r2 w2 where rest: "reap_units p g ?ws clock jit grace base (Suc i) cs w1 = (r2, w2)" by fastforce
    have seen: "kinds_seen cs (rq w1)"
      using kinds_seen_same [OF Cons.prems(3) conjunct1 [OF conjunct2 [OF one]]] by (simp add: kinds_seen_def)
    have w': "w2 = w'" "r = (case r2 of Inl e \<Rightarrow> Inl e | Inr us \<Rightarrow> Inr (case u of None \<Rightarrow> us | Some x \<Rightarrow> x # us))"
      using loop by (auto simp: Inr y rest split: sum.splits)
    note IH = Cons.IH [OF rest [unfolded w'(1)] run_held [OF conjunct1 [OF one] Cons.prems(2)] seen]
    show ?thesis
      using IH one run_trans by (auto simp: w'(2) split: sum.splits option.splits)
  qed
qed

lemma journal_nothing: "\<forall>x \<in> set us. stolen_quietly (Some x) \<Longrightarrow> journal_units p now us w = w"
  by (induction us) (auto simp: stolen_quietly_def)

lemma step_run: "claim_step races p g w w1 \<Longrightarrow> (claim_step races p g)\<^sup>*\<^sup>* w1 w2 \<Longrightarrow> (claim_step races p g)\<^sup>*\<^sup>* w w2"
  by (rule converse_rtranclp_into_rtranclp)

lemma retry_interrupts_run: "retry_stale_loop p now ts w = (n, w') \<Longrightarrow> (claim_step races p g)\<^sup>*\<^sup>* w w'"
proof (induction ts arbitrary: w n)
  case (Cons t ts)
  show ?case
  proof (cases "retry_stale_interrupt_thread p now t w")
    case (Inl e)
    then show ?thesis using Cons by simp
  next
    case (Inr r)
    then obtain n1 w1 where r: "retry_stale_interrupt_thread p now t w = Inr (n1, w1)" by (cases r) simp
    then show ?thesis
      using Cons.prems Cons.IH [of w1] step_run [OF claim_step.repair [OF r]] by (auto split: prod.splits)
  qed
qed simp

lemma retry_prompts_run: "retry_permission_loop p g now ts w = (n, w') \<Longrightarrow> (claim_step races p g)\<^sup>*\<^sup>* w w'"
proof (induction ts arbitrary: w n)
  case (Cons t ts)
  show ?case
  proof (cases "retry_stale_permission_thread p g now t w")
    case (Inl e)
    then show ?thesis using Cons by simp
  next
    case (Inr r)
    then obtain n1 w1 where r: "retry_stale_permission_thread p g now t w = Inr (n1, w1)" by (cases r) simp
    then show ?thesis
      using Cons.prems Cons.IH [of w1] step_run [OF claim_step.prompts [OF r]] by (auto split: prod.splits)
  qed
qed simp

text \<open>
  What one loss of the ledger does: nothing, a mark after which the pod is asked to go away, or an
  acknowledgement.
\<close>

inductive loss_move ::
  "py \<Rightarrow> pg \<Rightarrow> secs \<Rightarrow> pytext \<Rightarrow> kube \<Rightarrow> uuid \<Rightarrow> int \<times> claimant \<Rightarrow> world \<Rightarrow> world \<Rightarrow> (pytext \<times> pytext) set \<Rightarrow> bool"
  for p g now stamp k t x w where
  stay: "loss_move p g now stamp k t x w w {}"
| evict: "kube_look k (cl_pod (snd x)) (cl_uid (snd x)) = Inr Exact_Live \<Longrightarrow>
    mark_session_claim_eviction_requested p g now t (fst x) (cl_pod (snd x)) (cl_uid (snd x)) w = Inr (ok, w') \<Longrightarrow>
    loss_move p g now stamp k t x w w' (if ok then {(cl_pod (snd x), cl_uid (snd x))} else {})"
| settle: "kube_look k (cl_pod (snd x)) (cl_uid (snd x)) = Inr Exact_Terminal \<Longrightarrow>
    acknowledge_session_claim_quiesced p g (\<lambda>_. Inr None) stamp t (fst x) (cl_pod (snd x)) (cl_uid (snd x))
      (lit ''pod_terminal'') None (Some [(lit ''evidence'', JStr (lit ''exact_terminal''))]) w = Inr (ok, w') \<Longrightarrow>
    loss_move p g now stamp k t x w w' {}"

lemma reconcile_losses_move:
  assumes "reconcile_losses p g now stamp k t (x # losses) w = (n, pods, w')"
  shows "\<exists>w1 asked. loss_move p g now stamp k t x w w1 asked \<and>
    (w' = w1 \<and> set pods = asked \<or>
     (\<exists>m ps. reconcile_losses p g now stamp k t losses w1 = (m, ps, w') \<and> set pods = asked \<union> set ps))"
proof -
  obtain tok c where x: "x = (tok, c)" by (cases x)
  note R = assms [unfolded x reconcile_losses.simps]
  let ?rest = "\<lambda>w1. reconcile_losses p g now stamp k t losses w1"
  have go: ?thesis if "loss_move p g now stamp k t x w w1 asked" "?rest w1 = (m, ps, w')" "set pods = asked \<union> set ps"
    for w1 asked m ps
    using that by blast
  have halt: ?thesis if "loss_move p g now stamp k t x w w1 asked" "w' = w1" "set pods = asked" for w1 asked
    using that by blast
  note stay = loss_move.stay [of p g now stamp k t x w]
  show ?thesis
  proof (cases "kube_look k (cl_pod c) (cl_uid c)")
    case (Inl e)
    then show ?thesis using halt [OF stay] R by simp
  next
    case (Inr st)
    consider "st = Exact_Live" | "st = Exact_Terminal" | "st \<notin> {Exact_Live, Exact_Terminal}" by blast
    then show ?thesis
    proof cases
      case 1
      let ?mark = "mark_session_claim_eviction_requested p g now t tok (cl_pod c) (cl_uid c) w"
      show ?thesis
      proof (cases ?mark)
        case (Inl e)
        then show ?thesis using halt [OF stay] R \<open>kube_look k _ _ = _\<close> 1 by simp
      next
        case (Inr r)
        obtain ok w1 where r: "r = (ok, w1)" by (cases r)
        have mv: "loss_move p g now stamp k t x w w1 (if ok then {(cl_pod c, cl_uid c)} else {})"
          using loss_move.evict [of k "(tok, c)" p g now t w ok w1 stamp] Inr r \<open>kube_look k _ _ = _\<close> 1
          unfolding x fst_conv snd_conv by simp
        show ?thesis
          using halt [OF mv] go [OF mv] R Inr r \<open>kube_look k _ _ = _\<close> 1
          by (cases "?rest w1") (auto split: if_splits)
      qed
    next
      case 2
      let ?ack = "acknowledge_session_claim_quiesced p g (\<lambda>_. Inr None) stamp t tok (cl_pod c) (cl_uid c)
        (lit ''pod_terminal'') None (Some [(lit ''evidence'', JStr (lit ''exact_terminal''))]) w"
      show ?thesis
      proof (cases ?ack)
        case (Inl e)
        then show ?thesis using halt [OF stay] R \<open>kube_look k _ _ = _\<close> 2 by simp
      next
        case (Inr r)
        obtain ok w1 where r: "r = (ok, w1)" by (cases r)
        have mv: "loss_move p g now stamp k t x w w1 {}"
          using loss_move.settle [of k "(tok, c)" p g stamp t w ok w1 now] Inr r \<open>kube_look k _ _ = _\<close> 2
          unfolding x fst_conv snd_conv by simp
        show ?thesis
          using go [OF mv] R Inr r \<open>kube_look k _ _ = _\<close> 2 by (cases "?rest w1") simp
      qed
    next
      case 3
      then show ?thesis using go [OF stay] R Inr by (cases st) simp_all
    qed
  qed
qed

lemma loss_move_run: "loss_move p g now stamp k t x w w1 asked \<Longrightarrow> (claim_step races p g)\<^sup>*\<^sup>* w w1"
  by (induction rule: loss_move.cases) (auto intro: claim_step.evict claim_step.acknowledge)

lemma reconcile_losses_run:
  "reconcile_losses p g now stamp k t losses w = (n, pods, w') \<Longrightarrow> (claim_step races p g)\<^sup>*\<^sup>* w w'"
proof (induction losses arbitrary: n pods w)
  case (Cons x losses)
  obtain w1 asked where m: "loss_move p g now stamp k t x w w1 asked"
    "w' = w1 \<or> (\<exists>m ps. reconcile_losses p g now stamp k t losses w1 = (m, ps, w'))"
    using reconcile_losses_move [OF Cons.prems] by blast
  then show ?case using loss_move_run [OF m(1)] Cons.IH run_trans by blast
qed simp

lemma reconcile_page_run:
  "reconcile_page p g now stamp k page w = (n, pods, w') \<Longrightarrow> (claim_step races p g)\<^sup>*\<^sup>* w w'"
proof (induction page arbitrary: n pods w)
  case (Cons x page)
  obtain t md where x: "x = (t, md)" by (cases x)
  show ?case
  proof (cases "unresolved_claim_losses p md")
    case (Inl e)
    then show ?thesis using Cons x by simp
  next
    case (Inr losses)
    obtain m ps w1 where 1: "reconcile_losses p g now stamp k t (sort_key fst losses) w = (m, ps, w1)"
      by (metis prod_cases3)
    moreover obtain m2 ps2 w2 where 2: "reconcile_page p g now stamp k page w1 = (m2, ps2, w2)"
      by (metis prod_cases3)
    ultimately have "w2 = w'" using Cons.prems Inr x by simp
    then show ?thesis using reconcile_losses_run [OF 1] Cons.IH [OF 2 [unfolded \<open>w2 = w'\<close>]] run_trans by blast
  qed
qed simp

section \<open>The cycle\<close>

lemma candidates_kinds: "db_ok d \<Longrightarrow> kinds_seen (reap_candidates locked now grace kind n d) d"
  by (auto simp: kinds_seen_def reap_candidates_def row_of_member dest!: in_set_takeD)

text \<open>
  C14. A cycle of the reaper with its two steal hooks, the session steal that records the claimant
  and the worker hook that parks a batch of unknown outcome, whatever the cycle finds, whatever the
  Jobs and recovery tables or Kubernetes answer and whatever raises in it, is a run of the steps:
  from a reachable world it leaves a reachable one.
\<close>

theorem reap_cycle_is_a_run:
  assumes "claim_run races p g w"
    and "reap_cycle p g (Some (try_steal_worker_with_recovery answers)) locked clock jit stamp k grace now cursor w
      = (r, w')"
  shows "claim_run races p g w'"
proof -
  let ?run = "(claim_step races p g)\<^sup>*\<^sup>*"
  let ?cs = "reap_candidates locked now grace None 50 (rq w)"
  note held = claim_run_held [OF assms(1)]
  obtain r1 w1 where 1: "reap_units p g (Some (try_steal_worker_with_recovery answers)) clock jit grace 5 0 ?cs w = (r1, w1)" by fastforce
  note U = reap_units_run [OF 1 held candidates_kinds [OF debt_heldD(1) [OF held]]]
  have "?run w w'"
  proof (cases r1)
    case (Inl e)
    then show ?thesis using U assms(2) 1 by (simp add: reap_cycle_def)
  next
    case (Inr us)
    have j: "journal_units p now us w1 = w1" using U Inr journal_nothing by blast
    obtain n2 w2 where 2: "retry_stale_interrupt_requests p now 25 w1 = (n2, w2)" by fastforce
    obtain n3 w3 where 3: "retry_stale_permission_requests p g now 25 w2 = (n3, w3)" by fastforce
    obtain n4 ps w4 cur where 4: "reconcile_claim_loss_holds p g now stamp k 25 cursor w3 = ((n4, ps, w4), cur)"
      by (metis prod_cases4 prod.collapse)
    have "?run w1 w2" using 2 retry_interrupts_run by (auto simp: retry_stale_interrupt_requests_def)
    moreover have "?run w2 w3" using 3 retry_prompts_run by (auto simp: retry_stale_permission_requests_def)
    moreover have "?run w3 w4"
      using 4 reconcile_page_run by (auto simp: reconcile_claim_loss_holds_def Let_def split: prod.splits)
    moreover have "w' = w4" using assms(2) by (simp add: reap_cycle_def 1 Inr Let_def j 2 3 4)
    ultimately show ?thesis using U run_trans by blast
  qed
  then show ?thesis using assms(1) by (auto simp: claim_run_def)
qed

end
