(* ===== verification/Claim_Proof.thy ===== *)
theory Claim_Proof
  imports Reap_Cycle_Runs
begin

text \<open>
  What proves a lost claimant gone. Absence of its pod in Kubernetes, a replacement of the same
  name or an answer that cannot be read leave the loss in the ledger; only the pod seen with its
  exact uid and every container terminated lets the reconciliation remove it.
\<close>

section \<open>The recorded claimant\<close>

definition ledger_claim :: "json option \<Rightarrow> int \<Rightarrow> (json \<times> json) option" where
  "ledger_claim ledger tok =
     (case ledger of Some (JObj raw) \<Rightarrow>
        (case map_of raw (int_text tok) of
           Some (JObj e) \<Rightarrow> Some (jget e (lit ''pod''), jget e (lit ''pod_uid'')) | _ \<Rightarrow> None)
      | _ \<Rightarrow> None)"

definition recorded_claim :: "py \<Rightarrow> world \<Rightarrow> uuid \<Rightarrow> int \<Rightarrow> (json \<times> json) option" where
  "recorded_claim p w t tok = ledger_claim (fst (claim_debt p w t)) tok"

lemma ledger_claim_entry:
  assumes "ledger_claim (map_of md CLAIM_LOSS_LEDGER_KEY) tok = Some (a, b)"
  shows "map_of md CLAIM_LOSS_LEDGER_KEY = Some (JObj (object_at md CLAIM_LOSS_LEDGER_KEY))"
    "map_of (object_at md CLAIM_LOSS_LEDGER_KEY) (int_text tok) = Some (JObj (ledger_entry md tok))"
    "jget (ledger_entry md tok) (lit ''pod'') = a" "jget (ledger_entry md tok) (lit ''pod_uid'') = b"
proof -
  obtain raw e where "map_of md CLAIM_LOSS_LEDGER_KEY = Some (JObj raw)" "map_of raw (int_text tok) = Some (JObj e)"
    "jget e (lit ''pod'') = a" "jget e (lit ''pod_uid'') = b"
    using assms by (auto simp: ledger_claim_def split: option.splits json.splits)
  then show "map_of md CLAIM_LOSS_LEDGER_KEY = Some (JObj (object_at md CLAIM_LOSS_LEDGER_KEY))"
    "map_of (object_at md CLAIM_LOSS_LEDGER_KEY) (int_text tok) = Some (JObj (ledger_entry md tok))"
    "jget (ledger_entry md tok) (lit ''pod'') = a" "jget (ledger_entry md tok) (lit ''pod_uid'') = b"
    by (simp_all add: object_at_def ledger_entry_def jget_def)
qed

lemma session_debt:
  assumes "thread_of w t = Some th" "th_lane th = LANE_STATELESS" "metadata_root p (th_metadata th) = Inr md"
  shows "claim_debt p w t = (map_of md CLAIM_LOSS_LEDGER_KEY, map_of md CLAIM_LOSS_HOLD_KEY)"
  using assms by (simp add: claim_debt_def debt_in_root)

section \<open>Each move keeps the claims it does not prove gone\<close>

lemma acknowledged_keeps:
  assumes ack: "acknowledge_session_claim_quiesced p g tr stamp v k a b actor e rc w = Inr (ok, w')"
    and rec: "recorded_claim p w t tok = Some (JStr pod, JStr uid)"
    and other: "strip a \<noteq> pod \<or> strip b \<noteq> uid"
  shows "recorded_claim p w' t tok = Some (JStr pod, JStr uid)"
proof (cases ok)
  case False
  have "w' = w"
    using ack
  proof (cases rule: acknowledge_cases)
    case (settled th md losses q)
    from settled(7) False show ?thesis by (cases rule: settle_loss_cases) simp_all
  qed
  then show ?thesis using rec by simp
next
  case True
  then have "acknowledge_session_claim_quiesced p g tr stamp v k a b actor e rc w = Inr (True, w')" using ack by simp
  then show ?thesis
  proof (rule acknowledged)
    fix th md losses c rest
    assume a: "thread_of w v = Some th" "metadata_root p (th_metadata th) = Inr md" "th_lane th = LANE_STATELESS"
      "names_claimant g md k (strip a) (strip b)"
      "rest = without (object_at md CLAIM_LOSS_LEDGER_KEY) (int_text k)"
      "fst (claim_debt p w' v) = (if rest = [] then None else Some (JObj rest))"
      "\<And>u. u \<noteq> v \<Longrightarrow> claim_debt p w' u = claim_debt p w u"
    show ?thesis
    proof (cases "t = v")
      case True
      then have old: "ledger_claim (map_of md CLAIM_LOSS_LEDGER_KEY) tok = Some (JStr pod, JStr uid)"
        using rec session_debt [OF a(1,3,2)] by (simp add: recorded_claim_def)
      note E = ledger_claim_entry [OF old]
      have "k \<noteq> tok" using a(4) E(3,4) other by (auto simp: names_claimant_def path_is_def)
      then have "int_text k \<noteq> int_text tok" using int_text_inj by blast
      then have "map_of rest (int_text tok) = Some (JObj (ledger_entry md tok))"
        using E(2) by (simp add: a(5) map_of_without)
      then have "recorded_claim p w' v tok = Some (JStr pod, JStr uid)"
        using a(6) E(3,4) by (auto simp: recorded_claim_def ledger_claim_def)
      then show ?thesis using True by simp
    next
      case False
      then show ?thesis using a(7) rec by (simp add: recorded_claim_def)
    qed
  qed
qed

lemma mark_keeps:
  assumes mark: "mark_session_claim_eviction_requested p g now v k a b w = Inr (ok, w')"
    and rec: "recorded_claim p w t tok = Some x"
  shows "recorded_claim p w' t tok = Some x"
proof (cases "w' = w")
  case False
  obtain th md losses c where m: "stateless_session w v = Some th" "metadata_root p (th_metadata th) = Inr md"
    "w' = put_thread (th\<lparr>th_metadata := JObj (merged md [(CLAIM_LOSS_LEDGER_KEY, JObj
      (merged (object_at md CLAIM_LOSS_LEDGER_KEY) [(int_text k, JObj (merged (ledger_entry md k)
        [(lit ''eviction_requested_at'', JStr (pg_time g now))]))]))])\<rparr>) w"
    using mark_entry [OF mark False] by blast
  let ?old = "object_at md CLAIM_LOSS_LEDGER_KEY"
  let ?entry = "merged (ledger_entry md k) [(lit ''eviction_requested_at'', JStr (pg_time g now))]"
  let ?th = "th\<lparr>th_metadata := JObj (merged md [(CLAIM_LOSS_LEDGER_KEY, JObj (merged ?old [(int_text k, JObj ?entry)]))])\<rparr>"
  note th = stateless_session_of [OF m(1)]
  have debt: "claim_debt p w' u = (if u = v then (Some (JObj (merged ?old [(int_text k, JObj ?entry)])),
      map_of md CLAIM_LOSS_HOLD_KEY) else claim_debt p w u)" for u
    using debt_put_thread [of w ?th p u] th thread_of_id [of w v th]
    by (cases "u = v") (simp_all add: m(3) map_of_merged)
  show ?thesis
  proof (cases "t = v")
    case True
    obtain y z where x: "x = (y, z)" by (cases x)
    have old: "ledger_claim (map_of md CLAIM_LOSS_LEDGER_KEY) tok = Some (y, z)"
      using rec session_debt [of w v th p md] th m(2) by (simp add: recorded_claim_def True x)
    note E = ledger_claim_entry [OF old]
    show ?thesis
    proof (cases "k = tok")
      case True
      then show ?thesis
        using \<open>t = v\<close> E(3,4) by (simp add: recorded_claim_def debt ledger_claim_def map_of_merged jget_merged x)
    next
      case False
      then have "int_text k \<noteq> int_text tok" using int_text_inj by blast
      then show ?thesis
        using \<open>t = v\<close> E(2-4) by (simp add: recorded_claim_def debt ledger_claim_def map_of_merged x)
    qed
  next
    case False
    then show ?thesis using rec by (simp add: recorded_claim_def debt)
  qed
qed (simp add: rec)

lemma move_keeps:
  assumes "loss_move p g now stamp k v x w w' asked" "claimant_named (snd x)"
    and "recorded_claim p w t tok = Some (JStr pod, JStr uid)" "kube_look k pod uid \<noteq> Inr Exact_Terminal"
  shows "recorded_claim p w' t tok = Some (JStr pod, JStr uid)"
    "\<forall>(a, b) \<in> asked. kube_look k a b = Inr Exact_Live"
proof -
  have "recorded_claim p w' t tok = Some (JStr pod, JStr uid) \<and> (\<forall>(a, b) \<in> asked. kube_look k a b = Inr Exact_Live)"
    using assms(1)
  proof cases
    case stay
    then show ?thesis using assms(3) by simp
  next
    case (evict ok)
    then show ?thesis using mark_keeps [OF evict(3) assms(3)] by simp
  next
    case (settle ok)
    have "strip (cl_pod (snd x)) \<noteq> pod \<or> strip (cl_uid (snd x)) \<noteq> uid"
      using assms(2,4) settle(2) by (auto simp: claimant_named_def)
    then show ?thesis using acknowledged_keeps [OF settle(3) assms(3)] settle(1) by simp
  qed
  then show "recorded_claim p w' t tok = Some (JStr pod, JStr uid)"
    "\<forall>(a, b) \<in> asked. kube_look k a b = Inr Exact_Live" by blast+
qed

section \<open>The reconciliation\<close>

lemma loss_entries_named:
  "loss_entries p raw acc = Inr ls \<Longrightarrow> \<forall>x \<in> set acc. claimant_named (snd x) \<Longrightarrow> \<forall>x \<in> set ls. claimant_named (snd x)"
proof (induction p raw acc rule: loss_entries.induct)
  case (2 p k v d acc)
  obtain tok e c where x: "py_int_text p k = Some tok" "\<not> (k \<noteq> int_text tok \<or> tok \<in> fst ` set acc)" "v = JObj e"
    "\<not> (tok \<le> 0 \<or> jget e (lit ''quiesced'') \<noteq> JBool False)" "claimant_authority p v = Inr c"
    "loss_entries p d (acc @ [(tok, c)]) = Inr ls"
    using 2(2) by (auto simp: bind_ok_Inr split: option.splits if_splits json.splits)
  show ?case
    by (rule 2(1) [OF x(1-4) x(6)]) (use 2(3) claimant_strip [OF x(5)] in auto)
qed simp

lemma losses_named: "unresolved_claim_losses p v = Inr ls \<Longrightarrow> \<forall>x \<in> set ls. claimant_named (snd x)"
  using loss_entries_named [of p _ "[]" ls]
  by (auto simp: unresolved_claim_losses_def bind_ok_Inr split: if_splits json.splits)

lemma losses_keep:
  "reconcile_losses p g now stamp k v losses w = (n, pods, w') \<Longrightarrow> \<forall>x \<in> set losses. claimant_named (snd x) \<Longrightarrow>
   recorded_claim p w t tok = Some (JStr pod, JStr uid) \<Longrightarrow> kube_look k pod uid \<noteq> Inr Exact_Terminal \<Longrightarrow>
   recorded_claim p w' t tok = Some (JStr pod, JStr uid) \<and> (\<forall>(a, b) \<in> set pods. kube_look k a b = Inr Exact_Live)"
proof (induction losses arbitrary: n pods w)
  case (Cons x losses)
  obtain w1 asked where m: "loss_move p g now stamp k v x w w1 asked" and
    rest: "w' = w1 \<and> set pods = asked \<or>
     (\<exists>m ps. reconcile_losses p g now stamp k v losses w1 = (m, ps, w') \<and> set pods = asked \<union> set ps)"
    using reconcile_losses_move [OF Cons.prems(1)] by blast
  have "claimant_named (snd x)" using Cons.prems(2) by simp
  note keep = move_keeps [OF m this Cons.prems(3,4)]
  from rest show ?case
  proof
    assume "w' = w1 \<and> set pods = asked"
    then show ?thesis using keep by blast
  next
    assume "\<exists>m ps. reconcile_losses p g now stamp k v losses w1 = (m, ps, w') \<and> set pods = asked \<union> set ps"
    then obtain m ps where r: "reconcile_losses p g now stamp k v losses w1 = (m, ps, w')" "set pods = asked \<union> set ps"
      by blast
    have "\<forall>x \<in> set losses. claimant_named (snd x)" using Cons.prems(2) by simp
    from Cons.IH [OF r(1) this keep(1) Cons.prems(4)] show ?thesis using keep(2) r(2) by blast
  qed
qed simp

lemma page_keeps:
  "reconcile_page p g now stamp k page w = (n, pods, w') \<Longrightarrow>
   recorded_claim p w t tok = Some (JStr pod, JStr uid) \<Longrightarrow> kube_look k pod uid \<noteq> Inr Exact_Terminal \<Longrightarrow>
   recorded_claim p w' t tok = Some (JStr pod, JStr uid) \<and> (\<forall>(a, b) \<in> set pods. kube_look k a b = Inr Exact_Live)"
proof (induction page arbitrary: n pods w)
  case (Cons x page)
  obtain v md where x: "x = (v, md)" by (cases x)
  show ?case
  proof (cases "unresolved_claim_losses p md")
    case (Inl e)
    then show ?thesis using Cons x by simp
  next
    case (Inr losses)
    obtain m ps w1 where 1: "reconcile_losses p g now stamp k v (sort_key fst losses) w = (m, ps, w1)"
      by (metis prod_cases3)
    obtain m2 ps2 w2 where 2: "reconcile_page p g now stamp k page w1 = (m2, ps2, w2)"
      by (metis prod_cases3)
    have w': "w2 = w'" "pods = ps @ ps2" using Cons.prems(1) Inr x 1 2 by simp_all
    have "\<forall>x \<in> set (sort_key fst losses). claimant_named (snd x)" using losses_named [OF Inr] by simp
    note K = losses_keep [OF 1 this Cons.prems(2,3)]
    from Cons.IH [OF 2 [unfolded w'(1)] conjunct1 [OF K] Cons.prems(3)] show ?thesis using K by (auto simp: w'(2))
  qed
qed simp

text \<open>
  C13. A reconciliation leaves every recorded claimant whose pod Kubernetes does not show with its
  uid and all containers terminated: absent, replaced, unreadable and live pods keep their entry.
  It asks only pods to go away that it saw alive under their exact uid.
\<close>

theorem unproven_claimants_stay_recorded:
  assumes "reconcile_claim_loss_holds p g now stamp k limit cursor w = ((n, pods, w'), cursor')"
    and "recorded_claim p w t tok = Some (JStr pod, JStr uid)" and "kube_look k pod uid \<noteq> Inr Exact_Terminal"
  shows "recorded_claim p w' t tok = Some (JStr pod, JStr uid) \<and>
    (\<forall>(a, b) \<in> set pods. kube_look k a b = Inr Exact_Live)"
proof (cases "limit \<le> 0")
  case True
  then show ?thesis using assms by (auto simp: reconcile_claim_loss_holds_def)
next
  case False
  then obtain page where "reconcile_page p g now stamp k page w = (n, pods, w')"
    using assms(1) by (auto simp: reconcile_claim_loss_holds_def Let_def split: prod.splits)
  then show ?thesis using page_keeps assms(2,3) by blast
qed

end
