(* ===== verification/Reap_Witnesses.thy ===== *)
theory Reap_Witnesses
  imports Claim_Loss_Witnesses Claim_Proof
begin

text \<open>
  A cycle of the reaper over the concrete lost claimant, with a cluster that no longer knows the
  pod, and over a worker batch of unknown outcome, which the worker hook parks.
\<close>

definition absent_kube :: kube where
  "absent_kube = \<lparr>kube_look = \<lambda>_ _. Inr Exact_Absent, kube_delete = \<lambda>_ _. True\<rparr>"

text \<open>Beside it a worker batch below its attempt limit, whose lease ran out and whose outcome is unknown.\<close>

definition stray_batch :: row where
  "stray_batch = (fresh_row 0 9 UNIT_KIND_WORKER_BATCH (next_ord (rq lost_world)))
     \<lparr>state := Leased, lease_token := 1, attempts_since_completion := 1, leased_by := Some ''pod-b'',
      leased_until := Some 100\<rparr>"

definition stray_world :: world where
  "stray_world = lost_world\<lparr>rq := insert_row (rq lost_world) stray_batch\<rparr>"

definition stray_candidate :: candidate where
  "stray_candidate = \<lparr>cand_unit_id = 9, cand_unit_kind = UNIT_KIND_WORKER_BATCH, cand_leased_by = Some ''pod-b'',
     cand_lease_token = 1, cand_attempts = 1, cand_max_attempts = 5\<rparr>"

definition unknown_outcome :: "candidate \<Rightarrow> worker_answers" where
  "unknown_outcome c = \<lparr>wa_clock = \<lambda>_. 300, wa_forever = 1000000, wa_recovery_enabled = False,
     wa_first = \<lambda>_. Evidence_Commits, wa_recovery = Recovery_Not_Applicable, wa_claimed = \<lambda>_ _. None,
     wa_second = \<lambda>_. Evidence_Commits\<rparr>"

lemma stray_free: "row_of (rq lost_world) 9 = None"
  by (simp add: leased_db_def demo_turn_rows store_def put_by_def row_of_def claimed_world_def lost_world_def
      hold_eff_def lost_row_def reap_eff_def Let_def)

lemma stray_run: "claim_run False int_py lost_pg stray_world"
proof -
  have "row_ok stray_batch"
    by (simp add: stray_batch_def fresh_row_def shape_defs)
  then have "worker_change (rq lost_world) (insert_row (rq lost_world) stray_batch)"
    using stray_free by (intro worker_change_insert) (simp_all add: stray_batch_def fresh_row_def)
  from claim_step.worker [OF this] have "claim_step False int_py lost_pg lost_world stray_world"
    by (simp add: stray_world_def)
  then show ?thesis using lost_run unfolding claim_run_def by (rule rtranclp.rtrancl_into_rtrancl [rotated])
qed

lemma stray_row: "row_of (rq stray_world) 9 = Some stray_batch"
  using stray_free by (simp add: stray_world_def row_of_insert) (simp add: stray_batch_def fresh_row_def)

lemma stray_held:
  "try_steal_worker_with_recovery unknown_outcome stray_candidate 5 30 (rq stray_world)
   = Inr (None, store (rq stray_world) (worker_hold_eff 300 stray_batch))"
  by (simp add: try_steal_worker_with_recovery_def Let_def unknown_outcome_def stray_candidate_def
      hold_container_worker_attempt_def stray_row commit_worker_hold_def)
    (simp add: stray_batch_def fresh_row_def expired_def)

theorem reap_cycle_is_a_run_witness:
  "\<exists>r w' d q. reap_cycle int_py lost_pg (Some (try_steal_worker_with_recovery unknown_outcome)) (\<lambda>_. False)
      (\<lambda>_. 300) (\<lambda>_. 0) (lit ''now'') absent_kube 30 300 None stray_world = (r, w') \<and>
    claim_run False int_py lost_pg w' \<and>
    try_steal_worker_with_recovery unknown_outcome stray_candidate 5 30 (rq stray_world) = Inr (None, d) \<and>
    row_of d 9 = Some q \<and> state q = Parked \<and> lease_token q = 2 \<and>
    attempts_since_completion q < max_attempts q"
proof -
  obtain r w' where r: "reap_cycle int_py lost_pg (Some (try_steal_worker_with_recovery unknown_outcome)) (\<lambda>_. False)
      (\<lambda>_. 300) (\<lambda>_. 0) (lit ''now'') absent_kube 30 300 None stray_world = (r, w')"
    by fastforce
  have "row_of (store (rq stray_world) (worker_hold_eff 300 stray_batch)) 9 = Some (worker_hold_eff 300 stray_batch)"
    using row_of_store [of "rq stray_world" "worker_hold_eff 300 stray_batch" 9] stray_row
    by (simp add: worker_hold_eff_def stray_batch_def fresh_row_def)
  then show ?thesis
    using r stray_held reap_cycle_is_a_run [OF stray_run r]
    by (simp add: worker_hold_eff_def) (simp add: stray_batch_def fresh_row_def)
qed

lemma lost_recorded: "recorded_claim int_py lost_world 7 1 = Some (JStr (lit ''pod-a''), JStr (lit ''u1''))"
proof -
  have "claim_debt int_py lost_world 7 = (map_of lost_fields CLAIM_LOSS_LEDGER_KEY, map_of lost_fields CLAIM_LOSS_HOLD_KEY)"
    by (rule session_debt [OF lost_thread_fields(1,2,4)])
  then show ?thesis
    by (simp add: recorded_claim_def lost_ledger ledger_claim_def lost_entry_def lost_claimant_def)
qed

theorem unproven_claimants_stay_recorded_witness:
  "\<exists>n pods w' cur. reconcile_claim_loss_holds int_py lost_pg 300 (lit ''now'') absent_kube 25 None lost_world
      = ((n, pods, w'), cur) \<and>
    recorded_claim int_py w' 7 1 = Some (JStr (lit ''pod-a''), JStr (lit ''u1'')) \<and> pods = []"
proof -
  obtain n pods w' cur where r: "reconcile_claim_loss_holds int_py lost_pg 300 (lit ''now'') absent_kube 25 None lost_world
      = ((n, pods, w'), cur)"
    by (metis prod_cases3 prod.collapse)
  have "kube_look absent_kube (lit ''pod-a'') (lit ''u1'') \<noteq> Inr Exact_Terminal" by (simp add: absent_kube_def)
  from unproven_claimants_stay_recorded [OF r lost_recorded this] show ?thesis
    using r by (cases pods) (auto simp: absent_kube_def)
qed

end
