(* ===== verification/Repair_Witnesses.thy ===== *)
theory Repair_Witnesses
  imports Repair_Behaviour Control_Witnesses
begin

text \<open>
  The repairs at concrete sessions: a prompt of a lost owner, a turn with one unanswered tool call
  that its owner decides, and three held threads seen two at a time.
\<close>

section \<open>A prompt of a lost owner\<close>

definition stale_prompt :: permission_request where
  "stale_prompt = \<lparr>pr_id = 3, pr_thread = 7, pr_tool_call = lit ''c1'', pr_status = ''pending'',
     pr_requested_at = 5, pr_decided_at = None, pr_decided_by = None, pr_token = Some 1\<rparr>"

definition prompt_world :: world where
  "prompt_world = demo_w0\<lparr>permissions := [stale_prompt]\<rparr>"

lemma stale_prompt_listed: "stale_permissions prompt_world 7 2 = [stale_prompt]"
  by (simp add: stale_permissions_def prompt_world_def stale_prompt_def)

lemma prompt_retired:
  "\<exists>receipts b w'. retire_stale_stateless_permissions 9 7 1 2 (lit ''lease_expired'') True prompt_world
     = Inr ((receipts, b), w')"
  unfolding retire_stale_stateless_permissions_def stale_prompt_listed
  by (simp add: permission_of_def prompt_world_def stale_prompt_def append_system_frame_def thread_of_def
      put_permission_def demo_w0_def empty_world_def demo_session_def event_conflict_def
      retire_reasons_def Let_def) blast

theorem stale_prompts_expire_once_witness:
  "\<exists>receipts b w'. retire_stale_stateless_permissions 9 7 1 2 (lit ''lease_expired'') True prompt_world
      = Inr ((receipts, b), w') \<and>
    stale_permissions w' 7 2 = [] \<and> map rp_request receipts = [3] \<and>
    prompt_receipt 7 (lit ''lease_expired'') w' stale_prompt \<and>
    permissions w' = [expired_permission 9 (lit ''lease_expired'') stale_prompt]"
proof -
  obtain receipts b w' where r: "retire_stale_stateless_permissions 9 7 1 2 (lit ''lease_expired'') True prompt_world
     = Inr ((receipts, b), w')"
    using prompt_retired by blast
  have p: "permissions prompt_world = [stale_prompt]" "pr_id stale_prompt = 3"
    by (simp_all add: prompt_world_def stale_prompt_def)
  have "distinct (map pr_id (permissions prompt_world))" by (simp add: p)
  from stale_prompts_expire_once [OF this r] show ?thesis
    using r by (simp add: stale_prompt_listed p expire_in_def)
qed

section \<open>A turn with an unanswered call\<close>

definition debt_row :: chat_row where
  "debt_row = \<lparr>ch_id = 1, ch_thread = 7, ch_seq = 5, ch_role = ''ai'', ch_content = [], ch_turn = Some 1,
     ch_rewound = False, ch_calls = Some (JList [JObj [(lit ''id'', JStr (lit ''c1'')), (lit ''name'', JStr (lit ''run''))]]),
     ch_result_of = None, ch_metrics = None\<rparr>"

definition asked_row :: chat_row where
  "asked_row = \<lparr>ch_id = 2, ch_thread = 7, ch_seq = 4, ch_role = ''human'', ch_content = lit ''go'', ch_turn = Some 1,
     ch_rewound = False, ch_calls = None, ch_result_of = None, ch_metrics = None\<rparr>"

definition fresh_answer :: "nat \<Rightarrow> uuid \<times> int" where
  "fresh_answer i = (50 + i, 10 + int i)"

definition plain_pg :: pg where
  "plain_pg = \<lparr>pg_iso = \<lambda>_. [], pg_time = \<lambda>_. [], pg_parse = \<lambda>_. None, pg_json = \<lambda>_. []\<rparr>"

definition debt_call :: open_call where
  "debt_call = \<lparr>oc_seq = 5, oc_turn = Some 1, oc_id = lit ''c1'', oc_name = Some (lit ''run''), oc_args = None\<rparr>"

lemma debt_listed: "unanswered_tool_calls plain_pg 7 [asked_row, debt_row] = [debt_call]"
proof -
  have "ambiguous_batch plain_pg debt_row"
    by (simp add: ambiguous_batch_def call_items_def debt_row_def not_delegated_def json_text_def json_item_def)
  then have "filter (\<lambda>r. live_row 7 ''ai'' r \<and> ambiguous_batch plain_pg r) [asked_row, debt_row] = [debt_row]"
    by (simp add: live_row_def) (simp add: asked_row_def debt_row_def)
  moreover have "\<not> answered plain_pg [asked_row, debt_row] debt_row c" for c
    by (simp add: answered_def live_row_def asked_row_def debt_row_def)
  ultimately show ?thesis
    unfolding unanswered_tool_calls_def
    by (simp add: call_items_def debt_row_def call_named_def not_blank_def json_item_def open_call_of_def
        json_text_def debt_call_def lit_def)
qed

lemma debt_fresh: "r \<in> set [asked_row, debt_row] \<Longrightarrow> ch_seq r < snd (fresh_answer i)"
  by (auto simp: asked_row_def debt_row_def fresh_answer_def)

lemma debt_plain:
  "\<not> malformed_calls 7 [asked_row, debt_row]" "\<not> unnamed_calls plain_pg 7 [asked_row, debt_row]"
  "\<not> duplicate_calls plain_pg 7 [asked_row, debt_row]"
  by (simp_all add: malformed_calls_def unnamed_calls_def asked_row_def debt_row_def call_items_def
      call_named_def json_item_def not_blank_def lit_def duplicate_calls_def same_call_def live_row_def)

lemma debt_answered:
  "\<not> has_tool_debt plain_pg 7 ([asked_row, debt_row] @ answer_rows 7 content fresh_answer [debt_call])"
  using no_open_calls_left [of "[asked_row, debt_row]" fresh_answer plain_pg 7 content, OF debt_fresh] debt_plain
  unfolding has_tool_debt_def malformed_after duplicate_after unproven_listed unnamed_after debt_listed by simp

theorem answers_leave_only_ambiguous_debt_witness:
  "has_tool_debt plain_pg 7 [asked_row, debt_row] \<and>
   \<not> has_tool_debt plain_pg 7 ([asked_row, debt_row] @
     answer_rows 7 (lit ''unknown'') fresh_answer (unanswered_tool_calls plain_pg 7 [asked_row, debt_row]))"
proof -
  have "unproven_calls plain_pg 7 [asked_row, debt_row]" unfolding unproven_listed debt_listed by simp
  then show ?thesis
    using answers_leave_only_ambiguous_debt [of "[asked_row, debt_row]" fresh_answer, OF debt_fresh] debt_plain
    by (simp add: has_tool_debt_def)
qed

definition parked_turn :: row where
  "parked_turn = (fresh_row 0 7 UNIT_KIND_SESSION_TURN 1)\<lparr>state := Parked, park_reason := Some ''tool_debt'',
     lease_token := 1, input_seq := Some 4\<rparr>"

definition debt_world :: world where
  "debt_world = demo_w0\<lparr>rq := empty_db\<lparr>queue := [parked_turn]\<rparr>\<rparr>"

lemma debt_unit: "row_of (empty_db\<lparr>queue := parked_turn # [], messages := ms\<rparr>) 7 = Some parked_turn"
  by (simp add: row_of_def parked_turn_def fresh_row_def)

lemma debt_decided:
  "\<exists>out tr' w'. decide_unknown_tool_results demo_py plain_pg 9 fresh_answer 7 Decide_Continue [asked_row, debt_row]
     debt_world = Inr (out, tr', w') \<and> do_state out = Done"
proof -
  let ?answers = "answer_rows 7 (result_text Decide_Continue) fresh_answer [debt_call]"
  let ?d = "(rq debt_world)\<lparr>messages := messages (rq debt_world) @ map as_message ?answers\<rparr>"
  have rq: "rq debt_world = empty_db\<lparr>queue := [parked_turn]\<rparr>" by (simp add: debt_world_def)
  have th: "thread_of debt_world 7 = Some demo_session"
    by (simp add: debt_world_def demo_w0_def thread_of_def empty_world_def demo_session_def)
  have refusal: "unknown_result_refusal demo_py (th_metadata demo_session) = None"
    by (simp add: unknown_result_refusal_def metadata_object_def stateless_stop_markers_def demo_session_def)
  have row: "row_of (rq debt_world) 7 = Some parked_turn" "row_of ?d 7 = Some parked_turn"
    using debt_unit [of "messages (empty_db)"] debt_unit [of "messages (empty_db) @ map as_message ?answers"]
    by (simp_all add: rq)
  have wm: "interrupted_input 7 [debt_call] ([asked_row, debt_row] @ ?answers) = Some 4"
    by (simp add: interrupted_input_def live_row_def asked_row_def debt_row_def debt_call_def answer_rows_def
        answer_row_def)
  have "settle_parked_unit 9 7 (Some 4) ?d = Inr (Some Done, store ?d (settle_eff ?d 9 (Some 4) parked_turn))"
    unfolding settle_parked_unit_def cas_def row option.case
    by (simp add: rq parked_free_def parked_turn_def recovery_held_def empty_db_def dedup_conflict_def
        same_dedup_def settle_eff_def settled_watermark_def fresh_row_def control_pending_def delivery_pending_def Let_def)
  then show ?thesis
    unfolding decide_unknown_tool_results_def th option.case refusal row debt_listed Let_def
    using debt_answered wm
    by (simp add: parked_turn_def demo_session_def PARK_REASON_CLAIM_LOSS_HOLD_def debt_call_def)
qed

theorem decision_settles_the_turn_witness:
  "\<exists>out tr' w'. decide_unknown_tool_results demo_py plain_pg 9 fresh_answer 7 Decide_Continue [asked_row, debt_row]
      debt_world = Inr (out, tr', w') \<and>
    do_calls out = [lit ''c1''] \<and> \<not> has_tool_debt plain_pg 7 tr' \<and>
    tr' = [asked_row, debt_row, answer_row 7 (result_text Decide_Continue) fresh_answer 0 debt_call] \<and>
    (\<exists>q. row_of (rq w') 7 = Some q \<and> state q = Done)"
proof -
  obtain out tr' w' where r: "decide_unknown_tool_results demo_py plain_pg 9 fresh_answer 7 Decide_Continue
      [asked_row, debt_row] debt_world = Inr (out, tr', w')" "do_state out = Done"
    using debt_decided by blast
  from decision_settles_the_turn [OF r(1)] show ?thesis
    using r by (auto simp: debt_listed answer_rows_def debt_call_def)
qed

section \<open>Three held threads\<close>

theorem rotation_reaches_every_held_thread_witness:
  "set (concat (hold_pages 2 2 (Some 1) [1, 2, 3])) = {1, 2, 3} \<and>
   hold_pages 2 2 (Some 1) [1, 2, 3] = [[2, 3], [1, 2]]"
proof
  show "set (concat (hold_pages 2 2 (Some 1) [1, 2, 3])) = {1, 2, 3}"
    using rotation_reaches_every_held_thread [of "[1, 2, 3]" 2 2 "Some 1"] by simp
  show "hold_pages 2 2 (Some 1) [1, 2, 3] = [[2, 3], [1, 2]]"
    by (simp add: numeral_2_eq_2 next_claim_loss_hold_page_def hold_candidates_def)
qed

end
