(* ===== verification/Todo_Manager.thy ===== *)
theory Todo_Manager
  imports Prelude Py_Text
begin

text \<open>
  The agent's todo manager, \<^verbatim>\<open>src/agent/managers/todo.py\<close>: the list of a phase's tasks with
  its counter, the staging area of the next phase, the archive written at phase ends, the
  checkpoint export and restore, and the renderings that enter the conversation.

  The object's attributes are a record; each method is a function that returns the new record.
  The workspace is a second record with what the manager does to it: the files it writes and the
  commit messages it hands to git. Instants are integers in microseconds; where a method formats
  the current time, the formatted text is an argument. Items are values: the exported dictionary
  of the code shares its notes lists with the live items, which the checkpoint writer serialises
  at once.
\<close>

section \<open>Data\<close>

datatype todo_status = PENDING | IN_PROGRESS | COMPLETED

fun status_value :: "todo_status \<Rightarrow> pytext" where
  "status_value PENDING = lit ''pending''"
| "status_value IN_PROGRESS = lit ''in_progress''"
| "status_value COMPLETED = lit ''completed''"

record todo_item =
  td_id :: pytext
  td_content :: pytext
  td_status :: todo_status
  td_priority :: pytext
  td_notes :: "pytext list"
  td_created :: int

record manager =
  tm_todos :: "todo_item list"
  tm_next :: int
  tm_min :: int
  tm_max :: int
  tm_staged :: "todo_item list"
  tm_staged_name :: pytext
  tm_archived_total :: nat
  tm_archived_completed :: nat
  tm_strategic :: bool
  tm_phase :: int
  tm_phase_name :: pytext

record workspace =
  ws_git :: bool \<comment> \<open>a git manager is present and active\<close>
  ws_commits :: "pytext list"
  ws_files :: "(pytext \<times> pytext) list"

datatype todo_error =
    Too_Few nat int | Too_Many nat int | Not_A_String nat | Too_Short nat nat
  | Missing_Key pytext | Bad_Status pytext

definition todo_name :: "int \<Rightarrow> pytext" where
  "todo_name n = lit ''todo_'' @ int_text n"

definition new_item :: "pytext \<Rightarrow> pytext \<Rightarrow> todo_status \<Rightarrow> pytext \<Rightarrow> int \<Rightarrow> todo_item" where
  "new_item i c s p now =
     \<lparr>td_id = i, td_content = c, td_status = s, td_priority = p, td_notes = [], td_created = now\<rparr>"

definition new_manager :: "int \<Rightarrow> int \<Rightarrow> manager" where
  "new_manager lo hi =
     \<lparr>tm_todos = [], tm_next = 1, tm_min = lo, tm_max = hi, tm_staged = [], tm_staged_name = [],
      tm_archived_total = 0, tm_archived_completed = 0, tm_strategic = True, tm_phase = 1,
      tm_phase_name = []\<rparr>"

definition is_completed :: "todo_item \<Rightarrow> bool" where
  "is_completed t \<longleftrightarrow> td_status t = COMPLETED"

section \<open>Phase tracking\<close>

record phase_info =
  pi_number :: int
  pi_type :: pytext
  pi_name :: pytext

text \<open>\<^verbatim>\<open>a or b\<close> on strings: the empty string is false.\<close>

definition or_text :: "pytext \<Rightarrow> pytext \<Rightarrow> pytext" where
  "or_text a b = (if a = [] then b else a)"

definition set_is_strategic_phase :: "bool \<Rightarrow> manager \<Rightarrow> manager" where
  "set_is_strategic_phase b m = m\<lparr>tm_strategic := b\<rparr>"

definition set_phase_number :: "int \<Rightarrow> manager \<Rightarrow> manager" where
  "set_phase_number n m = m\<lparr>tm_phase := n\<rparr>"

definition current_phase_name :: "manager \<Rightarrow> pytext" where
  "current_phase_name m = or_text (tm_phase_name m) (tm_staged_name m)"

definition get_phase_info :: "manager \<Rightarrow> phase_info" where
  "get_phase_info m =
     \<lparr>pi_number = tm_phase m,
      pi_type = (if tm_strategic m then lit ''strategic'' else lit ''tactical''),
      pi_name = or_text (tm_phase_name m) (tm_staged_name m)\<rparr>"

definition increment_phase_number :: "manager \<Rightarrow> int \<times> manager" where
  "increment_phase_number m = (let m' = m\<lparr>tm_phase := tm_phase m + 1\<rparr> in (tm_phase m', m'))"

definition set_phase_name :: "pytext \<Rightarrow> manager \<Rightarrow> manager" where
  "set_phase_name n m = m\<lparr>tm_phase_name := n\<rparr>"

section \<open>The current list\<close>

definition add_todo :: "int \<Rightarrow> pytext \<Rightarrow> pytext \<Rightarrow> manager \<Rightarrow> todo_item \<times> manager" where
  "add_todo now c p m =
     (let item = new_item (todo_name (tm_next m)) c PENDING p now
      in (item, m\<lparr>tm_todos := tm_todos m @ [item], tm_next := tm_next m + 1\<rparr>))"

text \<open>
  \<^verbatim>\<open>for todo in self._todos: if todo.id == todo_id: ...; return\<close>: the first item with the
  identifier is changed in place.
\<close>

fun update_first :: "pytext \<Rightarrow> (todo_item \<Rightarrow> todo_item) \<Rightarrow> todo_item list \<Rightarrow> todo_item list" where
  "update_first i f [] = []"
| "update_first i f (t # ts) = (if td_id t = i then f t # ts else t # update_first i f ts)"

definition mark_completed :: "pytext list option \<Rightarrow> todo_item \<Rightarrow> todo_item" where
  "mark_completed ns t =
     t\<lparr>td_status := COMPLETED, td_notes := td_notes t @ (case ns of None \<Rightarrow> [] | Some l \<Rightarrow> l)\<rparr>"

definition phase_word :: "manager \<Rightarrow> pytext" where
  "phase_word m = (if tm_strategic m then lit ''Strategic'' else lit ''Tactical'')"

definition build_commit_message :: "pytext \<Rightarrow> manager \<Rightarrow> todo_item \<Rightarrow> pytext" where
  "build_commit_message stamp m t =
     lit ''[Phase '' @ int_text (tm_phase m) @ lit '' '' @ phase_word m @ lit ''] '' @ td_id t @
     lit '': '' @ td_content t @ [10, 10] @
     join_text [10] ([lit ''Completed: '' @ stamp] @
       (if td_notes t = [] then [] else [lit ''Notes: '' @ join_text (lit ''; '') (td_notes t)]))"

definition commit_todo_completion ::
  "(pytext \<Rightarrow> bool) \<Rightarrow> pytext \<Rightarrow> manager \<Rightarrow> todo_item \<Rightarrow> workspace \<Rightarrow> bool \<times> workspace" where
  "commit_todo_completion accepts stamp m t w =
     (if \<not> ws_git w then (True, w)
      else (let msg = build_commit_message stamp m t
            in (accepts msg, w\<lparr>ws_commits := ws_commits w @ [msg]\<rparr>)))"

definition complete_todo ::
  "(pytext \<Rightarrow> bool) \<Rightarrow> pytext \<Rightarrow> pytext \<Rightarrow> pytext list option \<Rightarrow> manager \<Rightarrow> workspace
   \<Rightarrow> todo_item option \<times> manager \<times> workspace" where
  "complete_todo accepts stamp i ns m w =
     (case find_by td_id i (tm_todos m) of
        None \<Rightarrow> (None, m, w)
      | Some t \<Rightarrow>
          (let t' = mark_completed ns t;
               m' = m\<lparr>tm_todos := update_first i (mark_completed ns) (tm_todos m)\<rparr>
           in (Some t', m', snd (commit_todo_completion accepts stamp m' t' w))))"

definition all_complete :: "manager \<Rightarrow> bool" where
  "all_complete m \<longleftrightarrow> tm_todos m \<noteq> [] \<and> (\<forall>t \<in> set (tm_todos m). is_completed t)"

fun complete_each ::
  "(pytext \<Rightarrow> bool) \<Rightarrow> pytext \<Rightarrow> pytext list \<Rightarrow> pytext list option \<Rightarrow> manager \<Rightarrow> workspace
   \<Rightarrow> (pytext list \<times> pytext list) \<times> manager \<times> workspace" where
  "complete_each accepts stamp [] ns m w = (([], []), m, w)"
| "complete_each accepts stamp (i # is) ns m w =
     (case complete_todo accepts stamp (strip i) ns m w of
        (res, m1, w1) \<Rightarrow>
          (case complete_each accepts stamp is ns m1 w1 of
             ((fin, missing), m2, w2) \<Rightarrow>
               (if res = None then ((fin, i # missing), m2, w2)
                else ((strip i # fin, missing), m2, w2))))"

text \<open>
  The returned items are references: their values are the ones they have when the method
  returns, so they are read from the final list.
\<close>

definition complete_multiple ::
  "(pytext \<Rightarrow> bool) \<Rightarrow> pytext \<Rightarrow> pytext list \<Rightarrow> pytext list option \<Rightarrow> manager \<Rightarrow> workspace
   \<Rightarrow> (todo_item list \<times> pytext list \<times> bool) \<times> manager \<times> workspace" where
  "complete_multiple accepts stamp is ns m w =
     (case complete_each accepts stamp is ns m w of
        ((fin, missing), m', w') \<Rightarrow>
          ((List.map_filter (\<lambda>i. find_by td_id i (tm_todos m')) fin, missing, all_complete m'),
           m', w'))"

definition start_todo :: "pytext \<Rightarrow> manager \<Rightarrow> todo_item option \<times> manager" where
  "start_todo i m =
     (case find_by td_id i (tm_todos m) of
        None \<Rightarrow> (None, m)
      | Some t \<Rightarrow> (Some (t\<lparr>td_status := IN_PROGRESS\<rparr>),
                   m\<lparr>tm_todos := update_first i (\<lambda>t. t\<lparr>td_status := IN_PROGRESS\<rparr>) (tm_todos m)\<rparr>))"

definition get_todo :: "pytext \<Rightarrow> manager \<Rightarrow> todo_item option" where
  "get_todo i m = find_by td_id i (tm_todos m)"

text \<open>\<^verbatim>\<open>priority_order.get(t.priority, 1)\<close>\<close>

definition priority_rank :: "todo_item \<Rightarrow> nat" where
  "priority_rank t =
     (if td_priority t = lit ''high'' then 0 else if td_priority t = lit ''medium'' then 1
      else if td_priority t = lit ''low'' then 2 else 1)"

definition list_pending :: "manager \<Rightarrow> todo_item list" where
  "list_pending m =
     sort_key (\<lambda>t. (priority_rank t, td_created t)) (filter (\<lambda>t. \<not> is_completed t) (tm_todos m))"

record first_result =
  fr_message :: pytext
  fr_completed :: "pytext option"
  fr_last :: bool

definition first_target :: "manager \<Rightarrow> todo_item option" where
  "first_target m =
     (case filter (\<lambda>t. td_status t = IN_PROGRESS) (tm_todos m) of
        t # _ \<Rightarrow> Some t
      | [] \<Rightarrow> (case list_pending m of [] \<Rightarrow> None | t # _ \<Rightarrow> Some t))"

definition complete_first_pending_sync ::
  "(pytext \<Rightarrow> bool) \<Rightarrow> pytext \<Rightarrow> pytext list option \<Rightarrow> manager \<Rightarrow> workspace
   \<Rightarrow> first_result \<times> manager \<times> workspace" where
  "complete_first_pending_sync accepts stamp ns m w =
     (case first_target m of
        None \<Rightarrow> (\<lparr>fr_message = lit ''No pending tasks to complete.'', fr_completed = None,
                  fr_last = all_complete m\<rparr>, m, w)
      | Some t \<Rightarrow>
          (case complete_todo accepts stamp (td_id t) ns m w of
             (_, m', w') \<Rightarrow>
               (let remaining = length (list_pending m');
                    head = lit ''Completed: '' @ td_content t @ [10];
                    msg = (if all_complete m'
                           then head @ lit ''All tasks complete! Ready for phase transition.''
                           else head @ lit ''Remaining: '' @ nat_text remaining @ lit '' tasks'' @
                             (case list_pending m' of [] \<Rightarrow> []
                              | n # _ \<Rightarrow> [10] @ lit ''Next: '' @ td_content n))
                in (\<lparr>fr_message = msg, fr_completed = Some (td_id t), fr_last = all_complete m'\<rparr>,
                    m', w'))))"

section \<open>Renderings\<close>

definition TODO_HEADLINE_MAX_CHARS :: nat where "TODO_HEADLINE_MAX_CHARS = 240"

definition todo_headline :: "pytext \<Rightarrow> pytext" where
  "todo_headline c =
     (let first = (case find (\<lambda>l. strip l \<noteq> []) (splitlines c) of None \<Rightarrow> [] | Some l \<Rightarrow> l);
          line = join_text (lit '' '') (split_ws first)
      in if TODO_HEADLINE_MAX_CHARS < length line
         then rstrip (take (TODO_HEADLINE_MAX_CHARS - 1) line) @ [8230]
         else line)"

text \<open>A message's content: plain text, a list of parts, or anything else with its \<^verbatim>\<open>str\<close>.\<close>

datatype message_part = Dict_Part pytext | Other_Part pytext
datatype message_content = Text_Content pytext | Parts "message_part list" | Other_Content pytext

fun part_text :: "message_part \<Rightarrow> pytext" where
  "part_text (Dict_Part t) = t"
| "part_text (Other_Part t) = t"

fun message_text :: "message_content \<Rightarrow> pytext" where
  "message_text (Text_Content t) = t"
| "message_text (Parts ps) = join_text [10] (map part_text ps)"
| "message_text (Other_Content t) = t"

definition with_status :: "todo_status \<Rightarrow> manager \<Rightarrow> todo_item list" where
  "with_status st m = filter (\<lambda>t. td_status t = st) (tm_todos m)"

definition phase_title :: "pytext \<Rightarrow> pytext \<Rightarrow> manager \<Rightarrow> pytext" where
  "phase_title lead name m =
     lead @ int_text (tm_phase m) @ lit '' ('' @ phase_word m @ lit '')'' @
     (if name = [] then [] else lit '': '' @ name)"

definition note_line :: "todo_item \<Rightarrow> pytext" where
  "note_line t =
     (let note = join_text (lit '' | '') (map (\<lambda>n. join_text (lit '' '') (split_ws n)) (td_notes t))
      in lit ''      Outcome: '' @ (if 1000 < length note then take 997 note @ lit ''...'' else note))"

text \<open>Only the last completed item with notes shows its outcome.\<close>

fun completed_lines :: "todo_item list \<Rightarrow> pytext list" where
  "completed_lines [] = []"
| "completed_lines (t # ts) =
     (lit ''  - [x] '' @ td_id t @ lit '': '' @ todo_headline (td_content t)) #
     (if td_notes t \<noteq> [] \<and> (\<forall>u \<in> set ts. td_notes u = []) then [note_line t] else []) @
     completed_lines ts"

definition format_for_injection :: "pytext \<Rightarrow> manager \<Rightarrow> pytext" where
  "format_for_injection footer m =
     (if tm_todos m = [] then lit ''No active todos.''
      else join_text [10]
        ([phase_title (lit ''Current Tasks '' @ [8212] @ lit '' Phase '') (tm_phase_name m) m] @
         (case with_status COMPLETED m of [] \<Rightarrow> []
          | ts \<Rightarrow> [[], lit ''Completed:''] @ completed_lines ts) @
         (case with_status IN_PROGRESS m of [] \<Rightarrow> []
          | ts \<Rightarrow> [[], lit ''In Progress:''] @
              map (\<lambda>t. lit ''  - [>] '' @ td_id t @ lit '': '' @ td_content t) ts) @
         (case with_status PENDING m of [] \<Rightarrow> []
          | ts \<Rightarrow> [[], lit ''Pending:''] @
              map (\<lambda>t. lit ''  - [ ] '' @ td_id t @ lit '': '' @ td_content t)
                (sort_key priority_rank ts)) @
         [[], footer]))"

definition TODO_LIST_RESTATEMENT_LEAD :: pytext where
  "TODO_LIST_RESTATEMENT_LEAD =
     lit ''[TODO_LIST] Your current todo list, restated because the conversation no longer shows it:''"

definition list_restatement :: "pytext \<Rightarrow> message_content list \<Rightarrow> manager \<Rightarrow> pytext option" where
  "list_restatement footer messages m =
     (if tm_todos m = [] then None
      else (let rendering = format_for_injection footer m
            in if \<exists>x \<in> set (rev messages). occurs rendering (message_text x) then None
               else Some (TODO_LIST_RESTATEMENT_LEAD @ [10, 10] @ rendering)))"

definition format_for_display :: "manager \<Rightarrow> pytext" where
  "format_for_display m =
     (if tm_todos m = [] then lit ''No active todos.''
      else join_text [10]
        ([phase_title (lit ''## Phase '') (or_text (tm_phase_name m) (tm_staged_name m)) m] @
         (case with_status IN_PROGRESS m of [] \<Rightarrow> []
          | ts \<Rightarrow> [[], lit ''**In Progress:**''] @
              map (\<lambda>t. lit ''  - ['' @ td_id t @ lit ''] '' @ td_content t) ts) @
         (case with_status PENDING m of [] \<Rightarrow> []
          | ts \<Rightarrow> [[], lit ''**Pending:**''] @
              map (\<lambda>t. lit ''  - ['' @ td_id t @ lit ''] '' @
                        (if td_priority t = lit ''high'' then lit ''[!] '' else []) @ td_content t)
                (sort_key priority_rank ts)) @
         (case with_status COMPLETED m of [] \<Rightarrow> []
          | ts \<Rightarrow> [[], lit ''**Completed:** '' @ nat_text (length ts) @ lit ''/'' @
                       nat_text (length (tm_todos m))])))"

record progress =
  pg_total :: nat
  pg_completed :: nat
  pg_pending :: nat

text \<open>The counts of \<^verbatim>\<open>get_progress\<close>; its floating-point percentage is not modelled.\<close>

definition get_progress :: "manager \<Rightarrow> progress" where
  "get_progress m =
     (let total = length (tm_todos m); fin = length (with_status COMPLETED m)
      in \<lparr>pg_total = total, pg_completed = fin, pg_pending = total - fin\<rparr>)"

text \<open>The COMPLETED block of \<^verbatim>\<open>_format_todo_summary\<close>.\<close>

definition summary_completed :: "manager \<Rightarrow> pytext list" where
  "summary_completed m =
     (let fin = with_status COMPLETED m in
      if fin = [] then []
      else [lit ''COMPLETED: ('' @ nat_text (length fin) @ lit '' tasks)''] @
           map (\<lambda>t. lit ''  '' @ [10003] @ lit '' '' @ td_content t) (take 3 fin) @
           (if 3 < length fin
            then [lit ''  ... and '' @ nat_text (length fin - 3) @ lit '' more''] else []))"

section \<open>Archive\<close>

definition write_file :: "pytext \<Rightarrow> pytext \<Rightarrow> workspace \<Rightarrow> workspace" where
  "write_file p c w = w\<lparr>ws_files := (p, c) # filter (\<lambda>f. fst f \<noteq> p) (ws_files w)\<rparr>"

definition read_file :: "pytext \<Rightarrow> workspace \<Rightarrow> pytext option" where
  "read_file p w = map_of (ws_files w) p"

definition archived_completed :: "todo_item \<Rightarrow> pytext list" where
  "archived_completed t =
     (lit ''- [x] '' @ td_content t) # map (\<lambda>n. lit ''  - '' @ n) (td_notes t)"

definition archived_open :: "todo_item \<Rightarrow> pytext" where
  "archived_open t =
     lit ''- ['' @ (if td_status t = IN_PROGRESS then lit ''~'' else lit '' '') @ lit ''] '' @
     td_content t"

definition archive_content :: "pytext \<Rightarrow> pytext \<Rightarrow> manager \<Rightarrow> pytext" where
  "archive_content stamp name m =
     (let info = get_phase_info m;
          header = or_text name (or_text (pi_name info)
            (lit ''Phase '' @ int_text (pi_number info) @ lit '' '' @ phase_word m));
          fin = filter is_completed (tm_todos m);
          rest = filter (\<lambda>t. \<not> is_completed t) (tm_todos m)
      in join_text [10]
        ([lit ''# Archived Todos: '' @ header,
          lit ''Phase: '' @ int_text (pi_number info) @ lit '' ('' @ pi_type info @ lit '')'',
          lit ''Archived: '' @ stamp, []] @
         (if fin = [] then []
          else [lit ''## Completed ('' @ nat_text (length fin) @ lit '')''] @
               concat (map archived_completed fin) @ [[]]) @
         (if rest = [] then []
          else [lit ''## Not Completed ('' @ nat_text (length rest) @ lit '')''] @
               map archived_open rest @ [[]]) @
         [lit ''## Summary'',
          lit ''- Total: '' @ nat_text (length (tm_todos m)),
          lit ''- Completed: '' @ nat_text (length fin),
          lit ''- Not completed: '' @ nat_text (length rest)]))"

definition archive_path :: "pytext \<Rightarrow> manager \<Rightarrow> pytext" where
  "archive_path ts m =
     lit ''archive/todos_phase_'' @ int_text (tm_phase m) @ lit ''_'' @ pi_type (get_phase_info m) @
     lit ''_'' @ ts @ lit ''.md''"

definition archive_todos ::
  "pytext \<Rightarrow> pytext \<Rightarrow> pytext \<Rightarrow> manager \<Rightarrow> workspace \<Rightarrow> pytext \<times> manager \<times> workspace" where
  "archive_todos stamp ts name m w =
     (if tm_todos m = [] then ([], m, w)
      else (archive_path ts m,
            m\<lparr>tm_archived_total := length (tm_todos m),
              tm_archived_completed := length (filter is_completed (tm_todos m)),
              tm_todos := [], tm_next := 1\<rparr>,
            write_file (archive_path ts m) (archive_content stamp name m) w))"

definition clear_todos :: "manager \<Rightarrow> manager" where
  "clear_todos m = m\<lparr>tm_todos := [], tm_next := 1\<rparr>"

definition archive_and_reset ::
  "pytext \<Rightarrow> pytext \<Rightarrow> pytext \<Rightarrow> manager \<Rightarrow> workspace \<Rightarrow> pytext \<times> manager \<times> workspace" where
  "archive_and_reset stamp ts name m w =
     (if tm_todos m = [] then (lit ''No todos to archive. The todo list is already empty.'', m, w)
      else (case archive_todos stamp ts name m w of
        (path, m', w') \<Rightarrow>
          (lit ''Archived '' @ nat_text (length (tm_todos m)) @ lit '' todos to '' @ path @ lit ''.'' @ [10] @
           lit ''Todo list cleared. Ready for new phase.'' @ [10] @
           lit ''Use next_phase_todos to add new tasks.'', m', w')))"

definition archive_with_failure_note ::
  "pytext \<Rightarrow> pytext \<Rightarrow> pytext \<Rightarrow> pytext \<Rightarrow> pytext \<Rightarrow> pytext \<Rightarrow> pytext \<Rightarrow> manager \<Rightarrow> workspace
   \<Rightarrow> pytext \<times> manager \<times> workspace" where
  "archive_with_failure_note hms stamp ts lower issue label heading m w =
     (if tm_todos m = [] then (lit ''No todos to archive.'', m, w)
      else (case archive_todos stamp ts (label @ lit ''_'' @ hms) m w of
        (path, m', w') \<Rightarrow>
          (let note = [10, 10] @ lit ''## '' @ heading @ [10, 10] @ issue @ [10];
               w'' = (case read_file path w' of None \<Rightarrow> w'
                      | Some existing \<Rightarrow> write_file path (existing @ note) w')
           in (lit ''Archived '' @ nat_text (length (tm_todos m)) @ lit '' todos with '' @ lower @
               lit '' to '' @ path @ lit ''.'' @ [10] @ lit ''Issue: '' @ issue @ [10] @
               lit ''Todo list cleared for re-planning.'', m', w''))))"

section \<open>Staging\<close>

text \<open>The tool's argument list: a member need not be a string.\<close>

datatype todo_arg = Str_Arg pytext | Not_Str

text \<open>The validation loop: the first offending member decides the error.\<close>

fun check_contents :: "nat \<Rightarrow> todo_arg list \<Rightarrow> todo_error + pytext list" where
  "check_contents i [] = Inr []"
| "check_contents i (Not_Str # as) = Inl (Not_A_String (i + 1))"
| "check_contents i (Str_Arg c # as) =
     (if length (strip c) < 10 then Inl (Too_Short (i + 1) (length (strip c)))
      else map_ok (\<lambda>cs. c # cs) (check_contents (Suc i) as))"

definition staged_items :: "(nat \<Rightarrow> int) \<Rightarrow> pytext list \<Rightarrow> todo_item list" where
  "staged_items clock cs =
     map (\<lambda>(i, c). new_item (todo_name (int i + 1)) (strip c) PENDING (lit ''medium'') (clock i))
       (enumerate 0 cs)"

definition staged_message :: "nat \<Rightarrow> pytext \<Rightarrow> pytext" where
  "staged_message n name =
     lit ''Staged '' @ nat_text n @ lit '' todos for the next tactical phase'' @
     (if name = [] then [] else lit '' ('' @ name @ lit '')'') @ lit ''.''"

definition stage_tactical_todos ::
  "(nat \<Rightarrow> int) \<Rightarrow> todo_arg list \<Rightarrow> pytext \<Rightarrow> manager \<Rightarrow> todo_error + (pytext \<times> manager)" where
  "stage_tactical_todos clock todos name m =
     (if int (length todos) < tm_min m then Inl (Too_Few (length todos) (tm_min m))
      else if tm_max m < int (length todos) then Inl (Too_Many (length todos) (tm_max m))
      else map_ok (\<lambda>cs. (staged_message (length cs) name,
                        m\<lparr>tm_staged := staged_items clock cs, tm_staged_name := name\<rparr>))
             (check_contents 0 todos))"

definition has_staged_todos :: "manager \<Rightarrow> bool" where
  "has_staged_todos m \<longleftrightarrow> 0 < length (tm_staged m)"

definition apply_staged_todos :: "manager \<Rightarrow> manager" where
  "apply_staged_todos m =
     (if tm_staged m = [] then m
      else m\<lparr>tm_todos := tm_staged m, tm_next := int (length (tm_staged m)) + 1,
             tm_staged := [], tm_staged_name := []\<rparr>)"

definition clear_staged_todos :: "manager \<Rightarrow> manager" where
  "clear_staged_todos m = m\<lparr>tm_staged := [], tm_staged_name := []\<rparr>"

section \<open>Dictionaries and checkpoints\<close>

text \<open>A dictionary with the keys the manager reads; \<^const>\<open>None\<close> is an absent key.\<close>

record todo_dict =
  dd_id :: "pytext option"
  dd_content :: "pytext option"
  dd_status :: "pytext option"
  dd_priority :: "pytext option"
  dd_notes :: "pytext list option"
  dd_created :: "int option"

definition status_of_value :: "pytext \<Rightarrow> todo_error + todo_status" where
  "status_of_value v =
     (if v = status_value PENDING then Inr PENDING
      else if v = status_value IN_PROGRESS then Inr IN_PROGRESS
      else if v = status_value COMPLETED then Inr COMPLETED
      else Inl (Bad_Status v))"

definition to_dict :: "todo_item \<Rightarrow> todo_dict" where
  "to_dict t =
     \<lparr>dd_id = Some (td_id t), dd_content = Some (td_content t),
      dd_status = Some (status_value (td_status t)), dd_priority = Some (td_priority t),
      dd_notes = Some (td_notes t), dd_created = Some (td_created t)\<rparr>"

definition from_dict :: "int \<Rightarrow> todo_dict \<Rightarrow> todo_error + todo_item" where
  "from_dict now dd =
     (case dd_id dd of None \<Rightarrow> Inl (Missing_Key (lit ''id''))
      | Some i \<Rightarrow>
        (case dd_content dd of None \<Rightarrow> Inl (Missing_Key (lit ''content''))
         | Some c \<Rightarrow>
           map_ok (\<lambda>st. \<lparr>td_id = i, td_content = c, td_status = st,
                         td_priority = case_option (lit ''medium'') id (dd_priority dd),
                         td_notes = case_option [] id (dd_notes dd),
                         td_created = case_option now id (dd_created dd)\<rparr>)
             (status_of_value (case_option (lit ''pending'') id (dd_status dd)))))"

fun items_from_dicts :: "(nat \<Rightarrow> int) \<Rightarrow> nat \<Rightarrow> todo_dict list \<Rightarrow> todo_error + todo_item list" where
  "items_from_dicts clock i [] = Inr []"
| "items_from_dicts clock i (dd # ds) =
     bind_ok (from_dict (clock i) dd)
       (\<lambda>t. map_ok (\<lambda>ts. t # ts) (items_from_dicts clock (Suc i) ds))"

text \<open>
  \<^verbatim>\<open>set_todos_from_list\<close> clears the list first and appends item by item, so a bad status leaves
  the items before it in the list. Its textual summary is not modelled.
\<close>

fun append_from_list ::
  "(nat \<Rightarrow> int) \<Rightarrow> nat \<Rightarrow> todo_dict list \<Rightarrow> manager \<Rightarrow> todo_error option \<times> manager" where
  "append_from_list clock i [] m = (None, m)"
| "append_from_list clock i (dd # ds) m =
     (case status_of_value (case_option (lit ''pending'') id (dd_status dd)) of
        Inl e \<Rightarrow> (Some e, m)
      | Inr st \<Rightarrow>
          (let c = case_option [] id (dd_content dd);
               p = case_option (lit ''medium'') id (dd_priority dd)
           in case dd_id dd of
                Some (x # xs) \<Rightarrow>
                  append_from_list clock (Suc i) ds
                    (m\<lparr>tm_todos := tm_todos m @ [new_item (x # xs) c st p (clock i)]\<rparr>)
              | _ \<Rightarrow>
                  append_from_list clock (Suc i) ds
                    (m\<lparr>tm_todos := tm_todos m @ [new_item (todo_name (tm_next m)) c st p (clock i)],
                      tm_next := tm_next m + 1\<rparr>)))"

definition set_todos_from_list ::
  "(nat \<Rightarrow> int) \<Rightarrow> todo_dict list \<Rightarrow> manager \<Rightarrow> todo_error option \<times> manager" where
  "set_todos_from_list clock ds m =
     append_from_list clock 0 ds (m\<lparr>tm_todos := [], tm_next := 1\<rparr>)"

record state_dict =
  sd_todos :: "todo_dict list option"
  sd_staged :: "todo_dict list option"
  sd_next_id :: "int option"
  sd_todo_next_id :: "int option"
  sd_staged_name :: "pytext option"
  sd_phase :: "int option"
  sd_phase_name :: "pytext option"
  sd_strategic :: "bool option"

definition export_state :: "manager \<Rightarrow> state_dict" where
  "export_state m =
     \<lparr>sd_todos = Some (map to_dict (tm_todos m)), sd_staged = Some (map to_dict (tm_staged m)),
      sd_next_id = Some (tm_next m), sd_todo_next_id = None,
      sd_staged_name = Some (tm_staged_name m), sd_phase = Some (tm_phase m),
      sd_phase_name = Some (tm_phase_name m), sd_strategic = Some (tm_strategic m)\<rparr>"

text \<open>\<^verbatim>\<open>a or b or 1\<close> on counters: zero and an absent key are false.\<close>

definition or_count :: "int option \<Rightarrow> int option \<Rightarrow> int" where
  "or_count a b =
     (case a of Some n \<Rightarrow> if n \<noteq> 0 then n else (case b of Some k \<Rightarrow> if k \<noteq> 0 then k else 1 | None \<Rightarrow> 1)
      | None \<Rightarrow> (case b of Some k \<Rightarrow> if k \<noteq> 0 then k else 1 | None \<Rightarrow> 1))"

definition restore_state ::
  "(nat \<Rightarrow> int) \<Rightarrow> state_dict \<Rightarrow> manager \<Rightarrow> todo_error option \<times> manager" where
  "restore_state clock sd m =
     (case items_from_dicts clock 0 (case_option [] id (sd_todos sd)) of
        Inl e \<Rightarrow> (Some e, m)
      | Inr ts \<Rightarrow>
          (let m1 = m\<lparr>tm_todos := ts\<rparr> in
           case items_from_dicts clock (length ts) (case_option [] id (sd_staged sd)) of
             Inl e \<Rightarrow> (Some e, m1)
           | Inr ss \<Rightarrow>
               (None, m1\<lparr>tm_staged := ss,
                        tm_next := or_count (sd_next_id sd) (sd_todo_next_id sd),
                        tm_staged_name := case_option [] id (sd_staged_name sd),
                        tm_phase := case_option 1 id (sd_phase sd),
                        tm_phase_name := case_option [] id (sd_phase_name sd),
                        tm_strategic := case_option (tm_strategic m) id (sd_strategic sd)\<rparr>)))"

end
