(* ===== verification/Todo_Laws.thy ===== *)
theory Todo_Laws
  imports Todo_Manager
begin

text \<open>
  The contract of the todo manager's mutators as a locale, its interpretation on each of them,
  and the manager's guarantees: unique task names, one task closed per completion and the end of
  the work loop, exact staging validation, lossless checkpoints, complete archives, and
  renderings that enter the conversation once.
\<close>

section \<open>Well-formed managers\<close>

text \<open>
  The live names are distinct, whoever chose them, and the staged names are numbered from one.
  Names that all came from the counter lie below it, so the counter's next name is new; a list
  loaded with names of its own need not have that property.
\<close>

definition named_below :: "int \<Rightarrow> todo_item list \<Rightarrow> bool" where
  "named_below n ts \<longleftrightarrow>
     distinct (map td_id ts) \<and> (\<forall>t \<in> set ts. \<exists>k. 1 \<le> k \<and> k < n \<and> td_id t = todo_name k)"

definition manager_ok :: "manager \<Rightarrow> bool" where
  "manager_ok m \<longleftrightarrow>
     1 \<le> tm_next m \<and> distinct (map td_id (tm_todos m)) \<and>
     named_below (int (length (tm_staged m)) + 1) (tm_staged m)"

lemma todo_name_inj: "todo_name i = todo_name j \<Longrightarrow> i = j"
  by (simp add: todo_name_def int_text_inj)

lemma named_below_Nil [simp]: "named_below n []"
  by (simp add: named_below_def)

lemma named_below_snoc:
  assumes "named_below n ts" "1 \<le> n" "td_id t = todo_name n"
  shows "named_below (n + 1) (ts @ [t])"
proof -
  have "todo_name n \<notin> td_id ` set ts"
  proof
    assume "todo_name n \<in> td_id ` set ts"
    then obtain u where u: "u \<in> set ts" "todo_name n = td_id u" by blast
    then obtain k where "k < n" "td_id u = todo_name k" using assms(1) unfolding named_below_def by blast
    with u(2) todo_name_inj [of n k] show False by simp
  qed
  moreover have "\<exists>k. 1 \<le> k \<and> k < n + 1 \<and> td_id u = todo_name k" if u: "u \<in> set ts" for u
  proof -
    obtain k where "1 \<le> k" "k < n" "td_id u = todo_name k"
      using assms(1) u unfolding named_below_def by blast
    then show ?thesis by (intro exI [of _ k]) simp
  qed
  moreover have "\<exists>k. 1 \<le> k \<and> k < n + 1 \<and> td_id t = todo_name k"
    using assms(2,3) by (intro exI [of _ n]) simp
  moreover have "distinct (map td_id ts)" using assms(1) by (simp add: named_below_def)
  ultimately show ?thesis
    unfolding named_below_def using assms(3) by (simp add: ball_Un)
qed

lemma update_first_ids [simp]:
  "(\<And>t. td_id (f t) = td_id t) \<Longrightarrow> map td_id (update_first i f ts) = map td_id ts"
  by (induction ts) auto

lemma update_first_length [simp]: "length (update_first i f ts) = length ts"
  by (induction ts) auto

lemma update_first_distinct:
  "distinct (map td_id ts) \<Longrightarrow> update_first i f ts = map (\<lambda>t. if td_id t = i then f t else t) ts"
proof (induction ts)
  case (Cons t ts)
  then show ?case
    by (auto intro!: map_idI [symmetric] simp: image_iff)
qed simp

section \<open>The contract of a mutator\<close>

locale manager_op =
  fixes op :: "manager \<Rightarrow> manager"
  assumes op_ok: "manager_ok m \<Longrightarrow> manager_ok (op m)"
    and op_limits: "tm_min (op m) = tm_min m \<and> tm_max (op m) = tm_max m"
begin

lemma iterate_ok: "manager_ok m \<Longrightarrow> manager_ok ((op ^^ n) m)"
  by (induction n) (auto intro: op_ok)

lemma iterate_limits: "tm_min ((op ^^ n) m) = tm_min m \<and> tm_max ((op ^^ n) m) = tm_max m"
  by (induction n) (auto simp: op_limits)

end

text \<open>A mutator that only changes items in place keeps every task and its position.\<close>

locale in_place_op = manager_op +
  assumes op_ids: "map td_id (tm_todos (op m)) = map td_id (tm_todos m)"
    and op_staged: "tm_staged (op m) = tm_staged m"
begin

lemma same_tasks: "get_todo i (op m) = None \<longleftrightarrow> get_todo i m = None"
  by (simp add: get_todo_def find_by_None) (metis op_ids list.set_map)

lemma same_length: "length (tm_todos (op m)) = length (tm_todos m)"
  using op_ids by (metis length_map)

end

lemma staged_named: "named_below (int (length cs) + 1) (staged_items clock cs)"
proof (induction cs rule: rev_induct)
  case Nil
  then show ?case by (simp add: staged_items_def)
next
  case (snoc c cs)
  have "staged_items clock (cs @ [c]) = staged_items clock cs @
      [new_item (todo_name (int (length cs) + 1)) (strip c) PENDING (lit ''medium'') (clock (length cs))]"
    by (simp add: staged_items_def enumerate_append_eq)
  then show ?case
    using named_below_snoc [OF snoc, of "new_item (todo_name (int (length cs) + 1)) (strip c) PENDING
        (lit ''medium'') (clock (length cs))"]
    by (simp add: new_item_def add.commute)
qed

lemma staged_length [simp]: "length (staged_items clock cs) = length cs"
  by (simp add: staged_items_def)

text \<open>
  \<^verbatim>\<open>add\<close> takes the counter's name whether or not a loaded list has used it; it keeps the names
  distinct when it is unused, which it is when all names came from the counter.
\<close>

lemma counter_name_unused:
  "named_below n ts \<Longrightarrow> todo_name n \<notin> td_id ` set ts"
  unfolding named_below_def by (metis imageE less_irrefl todo_name_inj)

lemma add_todo_ok:
  assumes "manager_ok m" "todo_name (tm_next m) \<notin> td_id ` set (tm_todos m)"
  shows "manager_ok (snd (add_todo now c p m))"
  using assms by (simp add: manager_ok_def add_todo_def Let_def new_item_def)

lemma add_todo_numbered:
  "1 \<le> tm_next m \<Longrightarrow> named_below (tm_next m) (tm_todos m) \<Longrightarrow>
   named_below (tm_next (snd (add_todo now c p m))) (tm_todos (snd (add_todo now c p m)))"
  using named_below_snoc [of "tm_next m" "tm_todos m"] by (simp add: add_todo_def Let_def new_item_def)

lemma add_todo_limits:
  "tm_min (snd (add_todo now c p m)) = tm_min m \<and> tm_max (snd (add_todo now c p m)) = tm_max m"
  by (simp add: add_todo_def Let_def)

lemma apply_staged_numbered:
  "manager_ok m \<Longrightarrow> tm_staged m \<noteq> [] \<Longrightarrow>
   named_below (tm_next (apply_staged_todos m)) (tm_todos (apply_staged_todos m))"
  by (simp add: manager_ok_def apply_staged_todos_def)

lemma append_from_list_fields:
  "append_from_list clock i ds m = (e, m') \<Longrightarrow>
   tm_next m \<le> tm_next m' \<and> tm_staged m' = tm_staged m \<and> tm_min m' = tm_min m \<and> tm_max m' = tm_max m"
proof (induction clock i ds m rule: append_from_list.induct)
  case (2 clock i dd ds m)
  then show ?case by (fastforce simp: Let_def split: sum.splits option.splits list.splits)
qed simp

lemma set_todos_fields:
  "set_todos_from_list clock ds m = (e, m') \<Longrightarrow>
   1 \<le> tm_next m' \<and> tm_staged m' = tm_staged m \<and> tm_min m' = tm_min m \<and> tm_max m' = tm_max m"
  by (drule append_from_list_fields [OF trans [OF sym [OF set_todos_from_list_def]]]) simp

lemma complete_todo_ids:
  "map td_id (tm_todos (fst (snd (complete_todo accepts stamp i ns m w)))) = map td_id (tm_todos m)"
  by (simp add: complete_todo_def Let_def mark_completed_def split: option.split)

lemma complete_todo_fields:
  "complete_todo accepts stamp i ns m w = (r, m', w') \<Longrightarrow>
   tm_next m' = tm_next m \<and> tm_staged m' = tm_staged m \<and> tm_min m' = tm_min m \<and> tm_max m' = tm_max m"
  by (auto simp: complete_todo_def Let_def split: option.splits)

interpretation complete_todo:
  in_place_op "\<lambda>m. fst (snd (complete_todo accepts stamp i ns m w))" for accepts stamp i ns w
proof
  fix m
  obtain r m' w' where c: "complete_todo accepts stamp i ns m w = (r, m', w')"
    by (cases "complete_todo accepts stamp i ns m w") auto
  note f = complete_todo_fields [OF c]
  show ids: "map td_id (tm_todos (fst (snd (complete_todo accepts stamp i ns m w)))) = map td_id (tm_todos m)"
    by (rule complete_todo_ids)
  show "manager_ok (fst (snd (complete_todo accepts stamp i ns m w)))" if "manager_ok m"
    using that ids f c by (simp add: manager_ok_def)
  show "tm_min (fst (snd (complete_todo accepts stamp i ns m w))) = tm_min m \<and>
        tm_max (fst (snd (complete_todo accepts stamp i ns m w))) = tm_max m"
    using f c by simp
  show "tm_staged (fst (snd (complete_todo accepts stamp i ns m w))) = tm_staged m"
    using f c by simp
qed

interpretation start_todo: in_place_op "\<lambda>m. snd (start_todo i m)" for i
proof
  fix m
  show ids: "map td_id (tm_todos (snd (start_todo i m))) = map td_id (tm_todos m)"
    by (simp add: start_todo_def split: option.split)
  show "manager_ok (snd (start_todo i m))" if "manager_ok m"
    using that ids by (simp add: manager_ok_def start_todo_def split: option.split)
qed (simp_all add: start_todo_def split: option.split)

interpretation apply_staged: manager_op apply_staged_todos
  by unfold_locales (auto simp: manager_ok_def apply_staged_todos_def named_below_def)

interpretation clear_todos: manager_op clear_todos
  by unfold_locales (auto simp: manager_ok_def clear_todos_def)

interpretation clear_staged: manager_op clear_staged_todos
  by unfold_locales (auto simp: manager_ok_def clear_staged_todos_def)

interpretation archive: manager_op "\<lambda>m. fst (snd (archive_todos stamp ts name m w))" for stamp ts name w
  by unfold_locales (auto simp: manager_ok_def archive_todos_def)

section \<open>Reachable managers\<close>

lemma complete_first_is_complete:
  assumes "complete_first_pending_sync accepts stamp ns m w = (res, m', w')"
  shows "(m' = m \<and> w' = w) \<or> (\<exists>i. m' = fst (snd (complete_todo accepts stamp i ns m w)))"
proof (cases "first_target m")
  case None
  with assms show ?thesis by (simp add: complete_first_pending_sync_def)
next
  case (Some t)
  obtain r m1 w1 where c: "complete_todo accepts stamp (td_id t) ns m w = (r, m1, w1)"
    by (cases "complete_todo accepts stamp (td_id t) ns m w") auto
  then have "m' = m1" using assms Some by (simp add: complete_first_pending_sync_def Let_def)
  then show ?thesis using c by (intro disjI2 exI [of _ "td_id t"]) simp
qed

lemma complete_each_ok:
  assumes "manager_ok m" "complete_each accepts stamp is ns m w = (r, m', w')"
  shows "manager_ok m'"
  using assms
proof (induction "is" arbitrary: m w r)
  case (Cons i "is")
  obtain x m1 w1 where c: "complete_todo accepts stamp (strip i) ns m w = (x, m1, w1)"
    by (cases "complete_todo accepts stamp (strip i) ns m w") auto
  then obtain y where e: "complete_each accepts stamp is ns m1 w1 = (y, m', w')"
    using Cons.prems(2) by (auto split: prod.splits if_splits)
  have "manager_ok m1" using complete_todo.op_ok [OF Cons.prems(1)] c by (metis fst_conv snd_conv)
  then show ?case using Cons.IH [OF _ e] by blast
qed simp

lemma complete_each_limits:
  "complete_each accepts stamp is ns m w = (r, m', w') \<Longrightarrow>
   tm_min m' = tm_min m \<and> tm_max m' = tm_max m"
proof (induction "is" arbitrary: m w r)
  case (Cons i "is")
  obtain x m1 w1 where c: "complete_todo accepts stamp (strip i) ns m w = (x, m1, w1)"
    by (cases "complete_todo accepts stamp (strip i) ns m w") auto
  then obtain y where e: "complete_each accepts stamp is ns m1 w1 = (y, m', w')"
    using Cons.prems by (auto split: prod.splits if_splits)
  show ?case using Cons.IH [OF e] complete_todo_fields [OF c] by simp
qed simp

lemma check_contents_length: "check_contents i as = Inr cs \<Longrightarrow> length cs = length as"
  by (induction i as arbitrary: cs rule: check_contents.induct)
    (auto simp: map_ok_Inr split: if_splits)

lemma stage_ok:
  "manager_ok m \<Longrightarrow> stage_tactical_todos clock as name m = Inr (msg, m') \<Longrightarrow> manager_ok m'"
  using staged_named
  by (auto simp: stage_tactical_todos_def map_ok_Inr manager_ok_def split: if_splits)

lemma items_roundtrip: "items_from_dicts clock i (map to_dict ts) = Inr ts"
proof (induction ts arbitrary: i)
  case (Cons t ts)
  have "status_of_value (status_value (td_status t)) = Inr (td_status t)"
    by (cases "td_status t") (simp_all add: status_of_value_def lit_def)
  then show ?case using Cons by (simp add: from_dict_def to_dict_def)
qed simp

lemma restore_export:
  assumes "tm_next m \<noteq> 0"
  shows "restore_state clock (export_state m) m0 =
    (None, m0\<lparr>tm_todos := tm_todos m, tm_staged := tm_staged m, tm_next := tm_next m,
            tm_staged_name := tm_staged_name m, tm_phase := tm_phase m,
            tm_phase_name := tm_phase_name m, tm_strategic := tm_strategic m\<rparr>)"
  using assms by (simp add: restore_state_def export_state_def items_roundtrip or_count_def Let_def)

text \<open>
  Every manager that the methods can produce, lists loaded from dictionaries included. Two steps
  have a condition: a loaded list must have no name twice (which the templates of the phases
  ensure, see the theory of templates), and \<^verbatim>\<open>add\<close>, which production code does not call, must not
  meet a loaded name that its counter is about to use.
\<close>

inductive reached :: "int \<Rightarrow> int \<Rightarrow> manager \<Rightarrow> bool" for lo hi where
  init: "reached lo hi (new_manager lo hi)"
| load: "reached lo hi m \<Longrightarrow> set_todos_from_list clock ds m = (r0, m') \<Longrightarrow>
    distinct (map td_id (tm_todos m')) \<Longrightarrow> reached lo hi m'"
| add: "reached lo hi m \<Longrightarrow> todo_name (tm_next m) \<notin> td_id ` set (tm_todos m) \<Longrightarrow>
    reached lo hi (snd (add_todo now c p m))"
| complete: "reached lo hi m \<Longrightarrow> reached lo hi (fst (snd (complete_todo accepts stamp i ns m w)))"
| complete_many: "reached lo hi m \<Longrightarrow> complete_multiple accepts stamp is ns m w = (r1, m', w') \<Longrightarrow>
    reached lo hi m'"
| complete_first: "reached lo hi m \<Longrightarrow>
    complete_first_pending_sync accepts stamp ns m w = (r2, m', w') \<Longrightarrow> reached lo hi m'"
| start: "reached lo hi m \<Longrightarrow> reached lo hi (snd (start_todo i m))"
| stage: "reached lo hi m \<Longrightarrow> stage_tactical_todos clock as name m = Inr (msg, m') \<Longrightarrow>
    reached lo hi m'"
| apply_staged: "reached lo hi m \<Longrightarrow> reached lo hi (apply_staged_todos m)"
| clear: "reached lo hi m \<Longrightarrow> reached lo hi (clear_todos m)"
| clear_staged: "reached lo hi m \<Longrightarrow> reached lo hi (clear_staged_todos m)"
| archive: "reached lo hi m \<Longrightarrow> reached lo hi (fst (snd (archive_todos stamp ts name m w)))"
| failure: "reached lo hi m \<Longrightarrow>
    archive_with_failure_note hms stamp ts lower issue label heading m w = (r3, m', w') \<Longrightarrow>
    reached lo hi m'"
| phase: "reached lo hi m \<Longrightarrow>
    m' \<in> {set_is_strategic_phase b m, set_phase_number n m, set_phase_name name m,
          snd (increment_phase_number m)} \<Longrightarrow> reached lo hi m'"
| resume: "reached lo hi m \<Longrightarrow> reached lo hi m0 \<Longrightarrow>
    restore_state clock (export_state m) m0 = (e, m') \<Longrightarrow> reached lo hi m'"

lemma reached_ok: "reached lo hi m \<Longrightarrow> manager_ok m \<and> tm_min m = lo \<and> tm_max m = hi"
proof (induction rule: reached.induct)
  case (complete_many m accepts stamp "is" ns w r1 m' w')
  obtain r m2 w2 where e: "complete_each accepts stamp is ns m w = (r, m2, w2)"
    by (cases "complete_each accepts stamp is ns m w") auto
  then have "m' = m2" using complete_many(2) by (auto simp: complete_multiple_def split: prod.splits)
  then show ?case using complete_many(3) complete_each_ok [OF _ e] complete_each_limits [OF e] by simp
next
  case (complete_first m accepts stamp ns w r2 m' w')
  then show ?case
    using complete_first_is_complete [OF complete_first(2)] complete_todo.op_ok complete_todo.op_limits
    by auto
next
  case (stage m clock as name msg m')
  then show ?case using stage_ok [OF _ stage(2)]
    by (auto simp: stage_tactical_todos_def map_ok_Inr split: if_splits)
next
  case (failure m hms stamp ts lower issue label heading w r3 m' w')
  have "m' = m \<or> m' = fst (snd (archive_todos stamp ts (label @ lit ''_'' @ hms) m w))"
    using failure(2) by (auto simp: archive_with_failure_note_def Let_def split: prod.splits if_splits)
  then show ?case using failure(3) archive.op_ok archive.op_limits by auto
next
  case (phase m m' b n name)
  then show ?case
    by (auto simp: manager_ok_def set_is_strategic_phase_def set_phase_number_def set_phase_name_def
        increment_phase_number_def Let_def)
next
  case (resume m m0 clock e m')
  then have "tm_next m \<noteq> 0" by (simp add: manager_ok_def)
  then show ?case
    using resume restore_export [of m clock m0] by (auto simp: manager_ok_def)
next
  case (load m clock ds r0 m')
  then show ?case using set_todos_fields [OF load(2)] by (simp add: manager_ok_def)
next
  case init
  then show ?case by (simp add: manager_ok_def new_manager_def)
qed (simp_all add: add_todo_ok add_todo_limits complete_todo.op_ok complete_todo.op_limits
    start_todo.op_ok start_todo.op_limits apply_staged.op_ok apply_staged.op_limits
    clear_todos.op_ok clear_todos.op_limits clear_staged.op_ok clear_staged.op_limits
    archive.op_ok archive.op_limits)

end
