(* ===== verification/Todo_Templates.thy ===== *)
theory Todo_Templates
  imports Todo_Laws
begin

text \<open>
  Where the predefined lists of the phases come from: the template validator of
  \<^verbatim>\<open>src/shared/runtime/core/loader.py\<close> (\<^verbatim>\<open>_parse_strategic_todos_yaml_from_string\<close> after the YAML
  parse, and the conversion to the manager's format) and the predefined lists of
  \<^verbatim>\<open>src/agent/core/phase.py\<close> with their hardcoded fallback, as \<^verbatim>\<open>graph.py\<close> and \<^verbatim>\<open>phase.py\<close> load
  them through \<^verbatim>\<open>set_todos_from_list\<close>. A list that passes has no name twice, so every such load is
  a step of \<^verbatim>\<open>reached\<close>. Finding and rendering the template file and the YAML parser are not
  modelled: a template is its list of parsed entries, or \<^const>\<open>None\<close> when no file is found.
\<close>

section \<open>Parsed templates\<close>

text \<open>A YAML scalar as the validator tells them apart; an absent key and \<^verbatim>\<open>null\<close> are \<^const>\<open>None\<close>.\<close>

datatype yaml_value = Yaml_Int int | Yaml_Bool bool | Yaml_Text pytext | Yaml_Other

datatype template_item = Not_Mapping | Mapping "yaml_value option" "yaml_value option"

datatype template_error =
    Expected_Mapping nat | Missing_Id nat | Id_Not_Integer nat | Duplicate_Id nat
  | Missing_Content nat | Content_Not_Text nat | Content_Too_Short nat

text \<open>\<^verbatim>\<open>isinstance(x, int)\<close> holds of a boolean too, and \<^verbatim>\<open>True == 1\<close> in the set of seen ids.\<close>

fun id_number :: "yaml_value \<Rightarrow> int option" where
  "id_number (Yaml_Int k) = Some k"
| "id_number (Yaml_Bool b) = Some (if b then 1 else 0)"
| "id_number _ = None"

fun check_id :: "nat \<Rightarrow> int list \<Rightarrow> yaml_value option \<Rightarrow> template_error list \<times> int list" where
  "check_id n seen None = ([Missing_Id n], seen)"
| "check_id n seen (Some v) =
     (case id_number v of
        None \<Rightarrow> ([Id_Not_Integer n], seen)
      | Some k \<Rightarrow> (if k \<in> set seen then ([Duplicate_Id n], seen) else ([], k # seen)))"

fun check_content :: "nat \<Rightarrow> yaml_value option \<Rightarrow> template_error list" where
  "check_content n None = [Missing_Content n]"
| "check_content n (Some (Yaml_Text c)) =
     (if length (strip c) < 10 then [Content_Too_Short n] else [])"
| "check_content n (Some _) = [Content_Not_Text n]"

text \<open>
  The loop over the entries. Errors accumulate, and an entry is collected only while there is
  none, so a collected entry has both keys.
\<close>

fun check_items ::
  "nat \<Rightarrow> int list \<Rightarrow> template_error list \<Rightarrow> template_item list
   \<Rightarrow> template_error list \<times> (yaml_value \<times> pytext) list" where
  "check_items n seen errs [] = (errs, [])"
| "check_items n seen errs (Not_Mapping # its) =
     check_items (Suc n) seen (errs @ [Expected_Mapping n]) its"
| "check_items n seen errs (Mapping i c # its) =
     (case check_id n seen i of
        (es, seen') \<Rightarrow>
          (let errs' = errs @ es @ check_content n c in
           case check_items (Suc n) seen' errs' its of
             (final, rows) \<Rightarrow>
               (case (i, c) of
                  (Some v, Some (Yaml_Text t)) \<Rightarrow>
                    if errs' = [] then (final, (v, strip t) # rows) else (final, rows)
                | _ \<Rightarrow> (final, rows))))"

definition parse_template :: "template_item list \<Rightarrow> template_error list + (yaml_value \<times> pytext) list" where
  "parse_template its =
     (case check_items 1 [] [] its of
        (errs, rows) \<Rightarrow> if errs \<noteq> [] then Inl errs else Inr rows)"

section \<open>Predefined lists\<close>

record predefined_todo =
  pd_id :: int
  pd_content :: pytext

definition predefined_dict :: "predefined_todo \<Rightarrow> todo_dict" where
  "predefined_dict p =
     \<lparr>dd_id = Some (todo_name (pd_id p)), dd_content = Some (pd_content p),
      dd_status = Some (lit ''pending''), dd_priority = Some (lit ''medium''),
      dd_notes = None, dd_created = None\<rparr>"

text \<open>
  \<^verbatim>\<open>int(f"todo_{id}".replace("todo_", ""))\<close>: an integer comes back, and a boolean, whose text is
  \<^verbatim>\<open>True\<close> or \<^verbatim>\<open>False\<close>, makes \<^verbatim>\<open>int\<close> raise.
\<close>

datatype load_error = Invalid_Template "template_error list" | Bad_Number

fun number_back :: "yaml_value \<Rightarrow> load_error + int" where
  "number_back (Yaml_Int k) = Inr k"
| "number_back _ = Inl Bad_Number"

fun predefined_rows :: "(yaml_value \<times> pytext) list \<Rightarrow> load_error + predefined_todo list" where
  "predefined_rows [] = Inr []"
| "predefined_rows ((v, c) # rows) =
     bind_ok (number_back v)
       (\<lambda>k. map_ok (\<lambda>ps. \<lparr>pd_id = k, pd_content = c\<rparr> # ps) (predefined_rows rows))"

definition template_rows ::
  "template_item list option \<Rightarrow> load_error + (yaml_value \<times> pytext) list" where
  "template_rows tmpl =
     (case tmpl of
        None \<Rightarrow> Inr []
      | Some its \<Rightarrow> (case parse_template its of Inl es \<Rightarrow> Inl (Invalid_Template es) | Inr rows \<Rightarrow> Inr rows))"

text \<open>The contents of the hardcoded fallback of a phase are an argument; it numbers them from one.\<close>

definition numbered_defaults :: "pytext list \<Rightarrow> predefined_todo list" where
  "numbered_defaults cs = map (\<lambda>(i, c). \<lparr>pd_id = int i + 1, pd_content = c\<rparr>) (enumerate 0 cs)"

definition phase_todos ::
  "pytext list \<Rightarrow> template_item list option \<Rightarrow> load_error + predefined_todo list" where
  "phase_todos defaults tmpl =
     bind_ok (template_rows tmpl)
       (\<lambda>rows. if rows \<noteq> [] then predefined_rows rows else Inr (numbered_defaults defaults))"

text \<open>\<^verbatim>\<open>todo_manager.set_todos_from_list([todo.to_dict() for todo in strategic_todos])\<close>\<close>

definition load_phase_todos ::
  "(nat \<Rightarrow> int) \<Rightarrow> pytext list \<Rightarrow> template_item list option \<Rightarrow> manager
   \<Rightarrow> load_error + (todo_error option \<times> manager)" where
  "load_phase_todos clock defaults tmpl m =
     map_ok (\<lambda>ps. set_todos_from_list clock (map predefined_dict ps) m) (phase_todos defaults tmpl)"

section \<open>A loaded list has no name twice\<close>

lemma check_items_errors: "check_items n seen errs its = (final, rows) \<Longrightarrow> final = [] \<Longrightarrow> errs = []"
proof (induction n seen errs its arbitrary: rows rule: check_items.induct)
  case (3 n seen errs i c its)
  obtain es seen' where k: "check_id n seen i = (es, seen')" by (cases "check_id n seen i") auto
  obtain f rs where f: "check_items (Suc n) seen' (errs @ es @ check_content n c) its = (f, rs)"
    by (cases "check_items (Suc n) seen' (errs @ es @ check_content n c) its") auto
  have "f = final" using 3(2) k f
    by (auto simp: Let_def split: if_splits option.splits yaml_value.splits)
  then show ?case using 3(1) [OF k [symmetric] refl] f 3(3) by simp
qed auto

lemma check_id_clean:
  "check_id n seen i = ([], seen') \<Longrightarrow> \<exists>v k. i = Some v \<and> id_number v = Some k \<and> k \<notin> set seen \<and> seen' = k # seen"
  by (cases i) (auto split: option.splits if_splits)

lemma check_content_clean:
  "check_content n c = [] \<Longrightarrow> \<exists>t. c = Some (Yaml_Text t) \<and> 10 \<le> length (strip t)"
  by (induction n c rule: check_content.induct) (auto split: if_splits)

lemma check_items_clean:
  assumes "check_items n seen errs its = ([], rows)"
  shows "length rows = length its \<and> distinct (map (id_number \<circ> fst) rows) \<and>
    (\<forall>r \<in> set rows. (\<exists>k. id_number (fst r) = Some k \<and> k \<notin> set seen) \<and> 10 \<le> length (snd r))"
  using assms
proof (induction its arbitrary: n seen errs rows)
  case (Cons x its)
  show ?case
  proof (cases x)
    case Not_Mapping
    then have "errs @ [Expected_Mapping n] = []"
      using Cons.prems by (intro check_items_errors [OF _ refl]) simp
    then show ?thesis by simp
  next
    case (Mapping i c)
    obtain es seen' where k: "check_id n seen i = (es, seen')" by (cases "check_id n seen i") auto
    obtain f rs where f: "check_items (Suc n) seen' (errs @ es @ check_content n c) its = (f, rs)"
      by (cases "check_items (Suc n) seen' (errs @ es @ check_content n c) its") auto
    have "f = []" using Cons.prems Mapping k f
      by (auto simp: Let_def split: if_splits option.splits yaml_value.splits)
    with f have f: "check_items (Suc n) seen' (errs @ es @ check_content n c) its = ([], rs)" by simp
    from check_items_errors [OF this refl] have "errs = []" "es = []" "check_content n c = []" by auto
    with k obtain v j t where i: "i = Some v" "id_number v = Some j" "j \<notin> set seen" "seen' = j # seen"
      and c: "c = Some (Yaml_Text t)" "10 \<le> length (strip t)"
      using check_id_clean check_content_clean by metis
    have rows: "rows = (v, strip t) # rs"
      using Cons.prems Mapping k f i c \<open>errs = []\<close> \<open>es = []\<close> by (simp add: Let_def)
    show ?thesis using Cons.IH [OF f] i c unfolding rows by fastforce
  qed
qed simp

lemma predefined_rows_ids:
  "predefined_rows rows = Inr ps \<Longrightarrow>
   map (id_number \<circ> fst) rows = map (Some \<circ> pd_id) ps \<and> map snd rows = map pd_content ps"
proof (induction rows arbitrary: ps)
  case (Cons r rows)
  obtain v c where r: "r = (v, c)" by (cases r)
  then show ?case using Cons by (cases v) (auto simp: map_ok_Inr)
qed simp

text \<open>The predefined list of a phase: distinct numbers, one entry per template entry.\<close>

lemma phase_todos_distinct:
  assumes "phase_todos defaults tmpl = Inr ps"
  shows "distinct (map pd_id ps) \<and>
    (case tmpl of Some (it # its) \<Rightarrow> length ps = length (it # its) | _ \<Rightarrow> length ps = length defaults)"
proof -
  have defaults: "distinct (map pd_id (numbered_defaults defaults)) \<and>
      length (numbered_defaults defaults) = length defaults"
  proof -
    have "map pd_id (numbered_defaults defaults) = map (\<lambda>i. int i + 1) [0..<length defaults]"
      by (rule nth_equalityI) (simp_all add: numbered_defaults_def nth_enumerate_eq)
    then show ?thesis by (simp add: distinct_map inj_on_def) (simp add: numbered_defaults_def)
  qed
  show ?thesis
  proof (cases tmpl)
    case None
    then show ?thesis using assms defaults by (simp add: phase_todos_def template_rows_def)
  next
    case (Some its)
    then obtain rows where c: "check_items 1 [] [] its = ([], rows)"
      and p: "(if rows \<noteq> [] then predefined_rows rows else Inr (numbered_defaults defaults)) = Inr ps"
      using assms by (auto simp: phase_todos_def template_rows_def parse_template_def
          split: sum.splits prod.splits if_splits)
    note clean = check_items_clean [OF c]
    show ?thesis
    proof (cases "rows = []")
      case True
      then have "its = []" using clean by simp
      then show ?thesis using Some True p defaults by auto
    next
      case False
      then have ids: "map (id_number \<circ> fst) rows = map (Some \<circ> pd_id) ps"
        using p predefined_rows_ids by (auto split: if_splits)
      have "distinct (map Some (map pd_id ps))" using clean ids by (simp del: map_map add: map_map [symmetric])
      then have "distinct (map pd_id ps)" by (auto simp: distinct_map inj_on_def)
      moreover have "length ps = length its" using clean ids by (metis length_map)
      moreover have "its \<noteq> []" using False clean by auto
      ultimately show ?thesis using Some by (auto split: list.split)
    qed
  qed
qed

lemma append_predefined:
  "append_from_list clock i (map predefined_dict ps) m =
     (None, m\<lparr>tm_todos := tm_todos m @
        map (\<lambda>(j, p). new_item (todo_name (pd_id p)) (pd_content p) PENDING (lit ''medium'') (clock j))
          (enumerate i ps)\<rparr>)"
proof (induction ps arbitrary: i m)
  case (Cons p ps)
  have "todo_name (pd_id p) = 116 # lit ''odo_'' @ int_text (pd_id p)"
    by (simp add: todo_name_def lit_def)
  moreover have "status_of_value (lit ''pending'') = Inr PENDING"
    by (simp add: status_of_value_def)
  ultimately show ?case using Cons by (simp add: predefined_dict_def)
qed simp

lemma set_predefined:
  "set_todos_from_list clock (map predefined_dict ps) m =
     (None, m\<lparr>tm_todos := map (\<lambda>(j, p). new_item (todo_name (pd_id p)) (pd_content p) PENDING
                          (lit ''medium'') (clock j)) (enumerate 0 ps), tm_next := 1\<rparr>)"
  by (simp add: set_todos_from_list_def append_predefined)

text \<open>
  A phase load never fails in the manager, gives one pending task per entry and keeps names apart.
\<close>

lemma load_phase_todos_result:
  assumes "load_phase_todos clock defaults tmpl m = Inr (e, m')"
  obtains ps where "phase_todos defaults tmpl = Inr ps" "e = None"
    "set_todos_from_list clock (map predefined_dict ps) m = (None, m')"
    "map td_id (tm_todos m') = map (todo_name \<circ> pd_id) ps"
    "map td_content (tm_todos m') = map pd_content ps"
    "\<forall>t \<in> set (tm_todos m'). td_status t = PENDING"
    "distinct (map td_id (tm_todos m'))"
proof -
  obtain ps where p: "phase_todos defaults tmpl = Inr ps"
    and s: "set_todos_from_list clock (map predefined_dict ps) m = (e, m')"
    using assms by (auto simp: load_phase_todos_def map_ok_Inr)
  from s have m': "e = None" "tm_todos m' = map (\<lambda>(j, p). new_item (todo_name (pd_id p))
      (pd_content p) PENDING (lit ''medium'') (clock j)) (enumerate 0 ps)"
    by (auto simp: set_predefined)
  have names: "map td_id (tm_todos m') = map (todo_name \<circ> pd_id) ps"
    and texts: "map td_content (tm_todos m') = map pd_content ps"
    by (rule nth_equalityI; simp add: m' nth_enumerate_eq new_item_def)+
  have "distinct (map todo_name (map pd_id ps))"
    using phase_todos_distinct [OF p] by (auto simp: distinct_map inj_on_def dest: todo_name_inj)
  then have "distinct (map td_id (tm_todos m'))" using names by simp
  moreover have "\<forall>t \<in> set (tm_todos m'). td_status t = PENDING" by (auto simp: m' new_item_def)
  ultimately show ?thesis using that p s m'(1) names texts by blast
qed

lemma load_phase_todos_reached:
  assumes "reached lo hi m" "load_phase_todos clock defaults tmpl m = Inr (e, m')"
  shows "reached lo hi m'"
  using assms(2) by (rule load_phase_todos_result) (metis assms(1) reached.load)

end
