(* ===== verification/Todo_Behaviour.thy ===== *)
theory Todo_Behaviour
  imports Todo_Templates
begin

text \<open>
  What the todo manager guarantees to the graph that drives it: unique task names, progress of
  the work loop, exact staging, lossless checkpoints, complete archives and renderings that enter
  the conversation once.
\<close>

section \<open>Unique names\<close>

text \<open>
  However the methods are combined, lists loaded from the phases' templates and checkpoint
  resumes included, a manager's task names are distinct, the staged names are distinct too, and a
  lookup by name finds the very item it is asked for. As long as all names came from the counter,
  the one it gives next is new.
\<close>

theorem task_names_stay_unique:
  assumes "reached lo hi m"
  shows "distinct (map td_id (tm_todos m)) \<and> distinct (map td_id (tm_staged m)) \<and>
    (\<forall>t \<in> set (tm_todos m). get_todo (td_id t) m = Some t) \<and>
    (named_below (tm_next m) (tm_todos m) \<longrightarrow>
       td_id (fst (add_todo now c p m)) \<notin> td_id ` set (tm_todos m))"
proof -
  have "manager_ok m" using reached_ok [OF assms] by blast
  then have d: "distinct (map td_id (tm_todos m))" "distinct (map td_id (tm_staged m))"
    by (simp_all add: manager_ok_def named_below_def)
  moreover have "td_id (fst (add_todo now c p m)) \<notin> td_id ` set (tm_todos m)"
    if "named_below (tm_next m) (tm_todos m)"
    using counter_name_unused [OF that] by (simp add: add_todo_def Let_def new_item_def)
  ultimately show ?thesis using find_by_distinct [OF d(1)] by (simp add: get_todo_def)
qed

definition demo_tasks :: manager where
  "demo_tasks = snd (add_todo 2 (lit ''write the report'') (lit ''low'')
     (snd (add_todo 1 (lit ''read the sources'') (lit ''high'') (new_manager 2 20))))"

definition demo_space :: workspace where
  "demo_space = \<lparr>ws_git = True, ws_commits = [], ws_files = []\<rparr>"

lemma demo_tasks_reached: "reached 2 20 demo_tasks"
  unfolding demo_tasks_def
  by (intro reached.add reached.init)
    (auto simp: add_todo_def new_manager_def Let_def new_item_def dest: todo_name_inj)

lemma demo_todos:
  "tm_todos demo_tasks =
     [new_item (todo_name 1) (lit ''read the sources'') PENDING (lit ''high'') 1,
      new_item (todo_name 2) (lit ''write the report'') PENDING (lit ''low'') 2]"
  by (simp add: demo_tasks_def add_todo_def new_manager_def Let_def)

theorem task_names_stay_unique_witness:
  "distinct (map td_id (tm_todos demo_tasks)) \<and> length (tm_todos demo_tasks) = 2"
  using task_names_stay_unique [OF demo_tasks_reached] by (simp add: demo_todos)

section \<open>The work loop\<close>

lemma list_pending_set: "set (list_pending m) = {t \<in> set (tm_todos m). \<not> is_completed t}"
  by (auto simp: list_pending_def)

lemma list_pending_length:
  "length (list_pending m) = length (filter (\<lambda>t. \<not> is_completed t) (tm_todos m))"
  by (simp add: list_pending_def)

lemma first_target_None: "first_target m = None \<longleftrightarrow> list_pending m = []"
proof -
  have "filter (\<lambda>t. td_status t = IN_PROGRESS) (tm_todos m) = []" if "list_pending m = []"
    using that list_pending_set [of m] by (auto simp: filter_empty_conv is_completed_def)
  then show ?thesis by (auto simp: first_target_def split: list.splits)
qed

lemma sorted_head_least:
  "sort_key f xs = y # ys \<Longrightarrow> x \<in> set xs \<Longrightarrow> f y \<le> f x"
proof -
  assume s: "sort_key f xs = y # ys" and x: "x \<in> set xs"
  have "sorted (map f (y # ys))" using sorted_sort_key [of f xs] s by simp
  moreover have "x \<in> set (y # ys)" using x s by (metis set_sort)
  ultimately show ?thesis by auto
qed

lemma first_target_Some:
  assumes "first_target m = Some t"
  shows "t \<in> set (tm_todos m)" "\<not> is_completed t"
    "td_status t = IN_PROGRESS \<or>
     (\<forall>u \<in> set (tm_todos m). td_status u \<noteq> IN_PROGRESS) \<and>
     (\<forall>u \<in> set (list_pending m). (priority_rank t, td_created t) \<le> (priority_rank u, td_created u))"
proof -
  have "t \<in> set (tm_todos m) \<and> \<not> is_completed t \<and> (td_status t = IN_PROGRESS \<or>
     (\<forall>u \<in> set (tm_todos m). td_status u \<noteq> IN_PROGRESS) \<and>
     (\<forall>u \<in> set (list_pending m). (priority_rank t, td_created t) \<le> (priority_rank u, td_created u)))"
  proof (cases "filter (\<lambda>t. td_status t = IN_PROGRESS) (tm_todos m)")
    case (Cons a as)
    then have "a = t" using assms by (simp add: first_target_def)
    moreover have "a \<in> set (filter (\<lambda>t. td_status t = IN_PROGRESS) (tm_todos m))" using Cons by simp
    ultimately show ?thesis by (simp add: is_completed_def)
  next
    case Nil
    then obtain ys where y: "list_pending m = t # ys"
      using assms by (auto simp: first_target_def split: list.splits)
    then have "t \<in> set (list_pending m)" by simp
    moreover have "\<forall>u \<in> set (tm_todos m). td_status u \<noteq> IN_PROGRESS"
      using Nil by (auto simp: filter_empty_conv)
    moreover have "(priority_rank t, td_created t) \<le> (priority_rank u, td_created u)"
      if "u \<in> set (list_pending m)" for u
      using sorted_head_least [OF y [unfolded list_pending_def]] that by (auto simp: list_pending_set)
    ultimately show ?thesis by (simp add: list_pending_set)
  qed
  then show "t \<in> set (tm_todos m)" "\<not> is_completed t"
    "td_status t = IN_PROGRESS \<or>
     (\<forall>u \<in> set (tm_todos m). td_status u \<noteq> IN_PROGRESS) \<and>
     (\<forall>u \<in> set (list_pending m). (priority_rank t, td_created t) \<le> (priority_rank u, td_created u))"
    by blast+
qed

lemma update_one_pending:
  "distinct (map td_id ts) \<Longrightarrow> t \<in> set ts \<Longrightarrow> \<not> is_completed t \<Longrightarrow>
   Suc (length (filter (\<lambda>t. \<not> is_completed t) (update_first (td_id t) (mark_completed ns) ts)))
   = length (filter (\<lambda>t. \<not> is_completed t) ts)"
proof (induction ts)
  case (Cons u us)
  then show ?case by (auto simp: is_completed_def mark_completed_def image_iff)
qed simp

lemma update_first_others:
  "td_id u \<noteq> i \<Longrightarrow> (\<And>t. td_id (f t) = td_id t) \<Longrightarrow>
   u \<in> set (update_first i f ts) \<longleftrightarrow> u \<in> set ts"
  by (induction ts) auto

lemma all_complete_pending: "all_complete m \<longleftrightarrow> tm_todos m \<noteq> [] \<and> list_pending m = []"
proof -
  have "list_pending m = [] \<longleftrightarrow> {t \<in> set (tm_todos m). \<not> is_completed t} = {}"
    using list_pending_set [of m] by (metis set_empty)
  then show ?thesis by (auto simp: all_complete_def)
qed

lemma complete_todo_found:
  assumes "distinct (map td_id (tm_todos m))" "t \<in> set (tm_todos m)"
    "complete_todo accepts stamp (td_id t) ns m w = (r, m', w')"
  shows "m' = m\<lparr>tm_todos := update_first (td_id t) (mark_completed ns) (tm_todos m)\<rparr>"
    "r = Some (mark_completed ns t)"
  using assms find_by_distinct [OF assms(1,2)] by (auto simp: complete_todo_def Let_def)

text \<open>
  One call of the completion tool makes exactly one step of progress. With nothing open it
  changes nothing. Otherwise it closes the first task in progress or, when none is, an open task
  that is least in (priority, creation time); every other task is untouched, the tasks keep
  their order, one task fewer is open, and the call reports the phase complete exactly when
  none is left.
\<close>

theorem completion_closes_exactly_one_task:
  assumes "reached lo hi m"
    and "complete_first_pending_sync accepts stamp ns m w = (res, m', w')"
  shows "case fr_completed res of
      None \<Rightarrow> m' = m \<and> w' = w \<and> list_pending m = [] \<and> (fr_last res \<longleftrightarrow> tm_todos m \<noteq> [])
    | Some i \<Rightarrow> (\<exists>t \<in> set (list_pending m). td_id t = i \<and>
        (td_status t = IN_PROGRESS \<or>
         (\<forall>u \<in> set (list_pending m). td_status u \<noteq> IN_PROGRESS \<and>
            (priority_rank t, td_created t) \<le> (priority_rank u, td_created u))) \<and>
        get_todo i m' = Some (mark_completed ns t)) \<and>
        map td_id (tm_todos m') = map td_id (tm_todos m) \<and>
        (\<forall>u. td_id u \<noteq> i \<longrightarrow> (u \<in> set (tm_todos m') \<longleftrightarrow> u \<in> set (tm_todos m))) \<and>
        Suc (length (list_pending m')) = length (list_pending m) \<and>
        (fr_last res \<longleftrightarrow> list_pending m' = [])"
proof (cases "first_target m")
  case None
  then show ?thesis
    using assms(2) first_target_None [of m]
    by (auto simp: complete_first_pending_sync_def all_complete_pending)
next
  case (Some t)
  note t = first_target_Some [OF Some]
  have d: "distinct (map td_id (tm_todos m))"
    using reached_ok [OF assms(1)] by (simp add: manager_ok_def)
  obtain r m1 w1 where c: "complete_todo accepts stamp (td_id t) ns m w = (r, m1, w1)"
    by (cases "complete_todo accepts stamp (td_id t) ns m w") auto
  have m': "m' = m1" "fr_completed res = Some (td_id t)" "fr_last res = all_complete m1"
    using assms(2) Some c by (auto simp: complete_first_pending_sync_def Let_def)
  note todos = complete_todo_found [OF d t(1) c]
  have u: "update_first (td_id t) (mark_completed ns) (tm_todos m)
      = map (\<lambda>u. if td_id u = td_id t then mark_completed ns u else u) (tm_todos m)"
    using update_first_distinct [OF d] .
  have id: "td_id (mark_completed ns u) = td_id u" for u by (simp add: mark_completed_def)
  have "distinct (map td_id (tm_todos m1))" using d todos id by simp
  moreover have "mark_completed ns t \<in> set (tm_todos m1)" using t(1) by (auto simp: todos(1) u)
  ultimately have "get_todo (td_id t) m1 = Some (mark_completed ns t)"
    using find_by_distinct [of td_id "tm_todos m1" "mark_completed ns t"] id by (simp add: get_todo_def)
  moreover have "\<exists>x \<in> set (list_pending m). x = t" using t(1,2) by (simp add: list_pending_set)
  moreover have "td_status t = IN_PROGRESS \<or> (\<forall>u \<in> set (list_pending m). td_status u \<noteq> IN_PROGRESS \<and>
            (priority_rank t, td_created t) \<le> (priority_rank u, td_created u))"
    using t(3) by (auto simp: list_pending_set)
  moreover have "Suc (length (list_pending m1)) = length (list_pending m)"
    using update_one_pending [OF d t(1,2)] by (simp add: list_pending_length todos(1))
  moreover have "tm_todos m1 \<noteq> []" using t(1) by (auto simp: todos(1) u)
  ultimately show ?thesis
    using m' update_first_others [where f = "mark_completed ns", OF _ id] id
    by (auto simp: todos(1) all_complete_pending)
qed

theorem completion_closes_exactly_one_task_witness:
  "length (list_pending (fst (snd (complete_first_pending_sync (\<lambda>_. True) [] None demo_tasks demo_space)))) = 1"
proof -
  obtain res m' w' where c: "complete_first_pending_sync (\<lambda>_. True) [] None demo_tasks demo_space = (res, m', w')"
    by (cases "complete_first_pending_sync (\<lambda>_. True) [] None demo_tasks demo_space") auto
  have two: "length (list_pending demo_tasks) = 2"
    by (simp add: list_pending_length demo_todos new_item_def is_completed_def)
  show ?thesis
    using completion_closes_exactly_one_task [OF demo_tasks_reached c] two c
    by (auto split: option.splits)
qed

text \<open>The graph's inner loop: call the tool until it reports the phase complete.\<close>

fun work :: "(pytext \<Rightarrow> bool) \<Rightarrow> (nat \<Rightarrow> pytext) \<Rightarrow> nat \<Rightarrow> manager \<Rightarrow> workspace \<Rightarrow> manager \<times> workspace" where
  "work accepts stamp 0 m w = (m, w)"
| "work accepts stamp (Suc n) m w =
     (case work accepts stamp n m w of
        (m1, w1) \<Rightarrow> snd (complete_first_pending_sync accepts (stamp n) None m1 w1))"

lemma complete_first_pending_count:
  assumes "reached lo hi m" "complete_first_pending_sync accepts stamp ns m w = (res, m', w')"
  shows "length (list_pending m') = length (list_pending m) - 1 \<and>
    (tm_todos m' = [] \<longleftrightarrow> tm_todos m = [])"
proof (cases "first_target m")
  case None
  then have "m' = m" using assms(2) by (simp add: complete_first_pending_sync_def)
  moreover have "list_pending m = []" using None first_target_None by simp
  ultimately show ?thesis by simp
next
  case (Some t)
  note t = first_target_Some [OF Some]
  have d: "distinct (map td_id (tm_todos m))"
    using reached_ok [OF assms(1)] by (simp add: manager_ok_def)
  obtain r m1 w1 where c: "complete_todo accepts stamp (td_id t) ns m w = (r, m1, w1)"
    by (cases "complete_todo accepts stamp (td_id t) ns m w") auto
  have m': "m' = m1" using assms(2) Some c by (simp add: complete_first_pending_sync_def Let_def)
  note todos = complete_todo_found(1) [OF d t(1) c]
  have "length (tm_todos m1) = length (tm_todos m)" by (simp add: todos)
  then have "tm_todos m1 = [] \<longleftrightarrow> tm_todos m = []" by (metis length_0_conv)
  moreover have "Suc (length (list_pending m1)) = length (list_pending m)"
    using update_one_pending [OF d t(1,2), of ns] by (simp add: list_pending_length todos)
  ultimately show ?thesis using m' by simp
qed

lemma work_count:
  assumes "reached lo hi m"
  shows "reached lo hi (fst (work accepts stamp n m w)) \<and>
    length (list_pending (fst (work accepts stamp n m w))) = length (list_pending m) - n \<and>
    (tm_todos (fst (work accepts stamp n m w)) = [] \<longleftrightarrow> tm_todos m = [])"
proof (induction n)
  case (Suc n)
  obtain m1 w1 where w: "work accepts stamp n m w = (m1, w1)"
    by (cases "work accepts stamp n m w") auto
  obtain res m2 w2 where c: "complete_first_pending_sync accepts (stamp n) None m1 w1 = (res, m2, w2)"
    by (cases "complete_first_pending_sync accepts (stamp n) None m1 w1") auto
  have "reached lo hi m1" using Suc w by simp
  then show ?case
    using complete_first_pending_count [OF _ c] reached.complete_first [OF _ c] Suc w c by simp
qed (simp add: assms)

lemma work_loop_distinct:
  assumes "reached lo hi m" "tm_todos m \<noteq> []"
  shows "all_complete (fst (work accepts stamp n m w)) \<longleftrightarrow> length (list_pending m) \<le> n"
proof -
  let ?m = "fst (work accepts stamp n m w)"
  have "length (list_pending ?m) = length (list_pending m) - n" "tm_todos ?m \<noteq> []"
    using work_count [OF assms(1), of accepts stamp n w] assms(2) by blast+
  then have "all_complete ?m \<longleftrightarrow> length (list_pending m) - n = 0"
    unfolding all_complete_pending by (metis length_0_conv)
  then show ?thesis by simp
qed

text \<open>
  C38. The work loop ends, whatever git answers. In any manager whose methods were combined
  freely, with loaded lists that have no name twice and \<^verbatim>\<open>add\<close> called only while the counter's
  name is unused, a non-empty phase is complete after as many completions as tasks were open, and
  not before. Every list a phase loads from its template or from its hardcoded fallback qualifies:
  its entries get distinct names, so the loaded phase is complete after as many completions as it
  has entries.
\<close>

theorem work_loop_ends:
  assumes "reached lo hi m"
  shows "(tm_todos m \<noteq> [] \<longrightarrow>
      (all_complete (fst (work accepts stamp n m w)) \<longleftrightarrow> length (list_pending m) \<le> n)) \<and>
    (\<forall>clock defaults tmpl e m1. load_phase_todos clock defaults tmpl m = Inr (e, m1) \<longrightarrow>
      e = None \<and> reached lo hi m1 \<and>
      (tm_todos m1 \<noteq> [] \<longrightarrow>
        (all_complete (fst (work accepts stamp n m1 w)) \<longleftrightarrow> length (tm_todos m1) \<le> n)))"
proof (intro conjI allI impI)
  show "all_complete (fst (work accepts stamp n m w)) \<longleftrightarrow> length (list_pending m) \<le> n"
    if "tm_todos m \<noteq> []"
    using work_loop_distinct [OF assms that] .
next
  fix clock defaults tmpl e m1 assume l: "load_phase_todos clock defaults tmpl m = Inr (e, m1)"
  show "e = None" using l by (rule load_phase_todos_result)
  show r: "reached lo hi m1" using load_phase_todos_reached [OF assms l] .
  have "\<forall>t \<in> set (tm_todos m1). td_status t = PENDING" using l by (rule load_phase_todos_result)
  then have "length (list_pending m1) = length (tm_todos m1)"
    by (simp add: list_pending_length is_completed_def filter_True)
  then show "all_complete (fst (work accepts stamp n m1 w)) \<longleftrightarrow> length (tm_todos m1) \<le> n"
    if "tm_todos m1 \<noteq> []"
    using work_loop_distinct [OF r that] by simp
qed

definition demo_template :: "template_item list" where
  "demo_template =
     [Mapping (Some (Yaml_Int 3)) (Some (Yaml_Text (lit ''read the sources''))),
      Mapping (Some (Yaml_Int 7)) (Some (Yaml_Text (lit ''write the plan'')))]"

definition demo_phase :: manager where
  "demo_phase = demo_tasks\<lparr>tm_todos :=
     [new_item (todo_name 3) (lit ''read the sources'') PENDING (lit ''medium'') 0,
      new_item (todo_name 7) (lit ''write the plan'') PENDING (lit ''medium'') 1], tm_next := 1\<rparr>"

lemma demo_phase_load:
  "load_phase_todos int [] (Some demo_template) demo_tasks = Inr (None, demo_phase)"
proof -
  have s: "strip (lit ''read the sources'') = lit ''read the sources''"
    "strip (lit ''write the plan'') = lit ''write the plan''"
    by (simp_all add: strip_def rstrip_def lit_def is_space_def)
  have "check_items 1 [] [] demo_template =
      ([], [(Yaml_Int 3, lit ''read the sources''), (Yaml_Int 7, lit ''write the plan'')])"
    using s by (simp add: demo_template_def Let_def)
  then have "phase_todos [] (Some demo_template) =
      Inr [\<lparr>pd_id = 3, pd_content = lit ''read the sources''\<rparr>, \<lparr>pd_id = 7, pd_content = lit ''write the plan''\<rparr>]"
    by (simp add: phase_todos_def template_rows_def parse_template_def)
  then show ?thesis
    by (simp only: load_phase_todos_def map_ok_simps set_predefined) (simp add: demo_phase_def)
qed

theorem work_loop_ends_witness:
  "all_complete (fst (work (\<lambda>_. False) (\<lambda>_. []) 2 demo_tasks demo_space)) \<and>
   \<not> all_complete (fst (work (\<lambda>_. False) (\<lambda>_. []) 1 demo_tasks demo_space)) \<and>
   all_complete (fst (work (\<lambda>_. False) (\<lambda>_. []) 2 demo_phase demo_space)) \<and>
   \<not> all_complete (fst (work (\<lambda>_. False) (\<lambda>_. []) 1 demo_phase demo_space))"
proof -
  have "length (list_pending demo_tasks) = 2"
    by (simp add: list_pending_length demo_todos new_item_def is_completed_def)
  moreover have "length (tm_todos demo_phase) = 2" by (simp add: demo_phase_def)
  moreover note work_loop_ends [OF demo_tasks_reached, of "\<lambda>_. False" "\<lambda>_. []" 2 demo_space]
    work_loop_ends [OF demo_tasks_reached, of "\<lambda>_. False" "\<lambda>_. []" 1 demo_space]
  ultimately show ?thesis using demo_phase_load by (fastforce simp: demo_todos)
qed

section \<open>Staging\<close>

lemma check_contents_Inr:
  "check_contents i as = Inr cs \<longleftrightarrow> as = map Str_Arg cs \<and> (\<forall>c \<in> set cs. 10 \<le> length (strip c))"
  by (induction i as arbitrary: cs rule: check_contents.induct)
    (auto simp: map_ok_Inr Cons_eq_map_conv not_less)

lemma staged_contents: "map td_content (staged_items clock cs) = map strip cs"
  by (rule nth_equalityI) (simp_all add: staged_items_def new_item_def nth_enumerate_eq)

lemma staged_names:
  "map td_id (staged_items clock cs) = map (\<lambda>i. todo_name (int i + 1)) [0..<length cs]"
  by (rule nth_equalityI) (simp_all add: staged_items_def new_item_def nth_enumerate_eq)

text \<open>
  Staging accepts exactly the lists with an allowed number of strings of at least ten visible
  characters; otherwise it raises and nothing changes. On success the active list is left alone
  and one pending task per entry is staged, in order, numbered from one, its text stripped;
  applying a non-empty staging makes those tasks the active list, empties the staging area and
  sets the counter just above them.
\<close>

theorem staging_is_exact:
  "case stage_tactical_todos clock as name m of
     Inl e \<Rightarrow> \<not> (tm_min m \<le> int (length as) \<and> int (length as) \<le> tm_max m \<and>
                (\<forall>a \<in> set as. \<exists>c. a = Str_Arg c \<and> 10 \<le> length (strip c)))
   | Inr (msg, m') \<Rightarrow>
       tm_min m \<le> int (length as) \<and> int (length as) \<le> tm_max m \<and>
       tm_todos m' = tm_todos m \<and> tm_next m' = tm_next m \<and>
       (\<exists>cs. as = map Str_Arg cs \<and> (\<forall>c \<in> set cs. 10 \<le> length (strip c)) \<and>
          map td_content (tm_staged m') = map strip cs \<and>
          map td_id (tm_staged m') = map (\<lambda>i. todo_name (int i + 1)) [0..<length cs] \<and>
          (\<forall>t \<in> set (tm_staged m'). td_status t = PENDING \<and> td_notes t = [])) \<and>
       (as = [] \<or>
          (tm_todos (apply_staged_todos m') = tm_staged m' \<and>
           tm_staged (apply_staged_todos m') = [] \<and>
           tm_next (apply_staged_todos m') = int (length as) + 1))"
proof (cases "stage_tactical_todos clock as name m")
  case (Inl e)
  have "\<exists>cs. check_contents 0 as = Inr cs" if good: "\<forall>a \<in> set as. \<exists>c. a = Str_Arg c \<and> 10 \<le> length (strip c)"
  proof -
    have "\<exists>cs. as = map Str_Arg cs \<and> (\<forall>c \<in> set cs. 10 \<le> length (strip c))"
      using good
    proof (induction as)
      case (Cons a as)
      then obtain c cs where "a = Str_Arg c" "10 \<le> length (strip c)"
        "as = map Str_Arg cs" "\<forall>c \<in> set cs. 10 \<le> length (strip c)" by auto
      then show ?case by (intro exI [of _ "c # cs"]) simp
    qed simp
    then show ?thesis by (simp add: check_contents_Inr)
  qed
  with Inl show ?thesis
    by (fastforce simp: stage_tactical_todos_def split: if_splits)
next
  case (Inr r)
  then obtain cs where cs: "check_contents 0 as = Inr cs"
    and lim: "tm_min m \<le> int (length as)" "int (length as) \<le> tm_max m"
    and r: "r = (staged_message (length cs) name, m\<lparr>tm_staged := staged_items clock cs, tm_staged_name := name\<rparr>)"
    by (auto simp: stage_tactical_todos_def map_ok_Inr split: if_splits)
  define m' where "m' = m\<lparr>tm_staged := staged_items clock cs, tm_staged_name := name\<rparr>"
  have len: "length cs = length as" using check_contents_length [OF cs] .
  have f: "tm_todos m' = tm_todos m" "tm_next m' = tm_next m"
    "map td_content (tm_staged m') = map strip cs"
    "map td_id (tm_staged m') = map (\<lambda>i. todo_name (int i + 1)) [0..<length cs]"
    "\<forall>t \<in> set (tm_staged m'). td_status t = PENDING \<and> td_notes t = []"
    "length (tm_staged m') = length as"
    by (simp_all add: m'_def staged_contents staged_names len) (auto simp: staged_items_def new_item_def)
  have g: "as = map Str_Arg cs" "\<forall>c \<in> set cs. 10 \<le> length (strip c)"
    using cs by (simp_all add: check_contents_Inr)
  have h: "as = [] \<or> (tm_todos (apply_staged_todos m') = tm_staged m' \<and>
      tm_staged (apply_staged_todos m') = [] \<and> tm_next (apply_staged_todos m') = int (length as) + 1)"
    using f(6) by (cases "tm_staged m'") (auto simp: apply_staged_todos_def)
  show ?thesis
    unfolding Inr r sum.case prod.case m'_def [symmetric] using lim f(1-5) g h by blast
qed

theorem staging_is_exact_witness:
  "\<exists>msg m'. stage_tactical_todos int [Str_Arg (lit ''summarise chapter 1''), Str_Arg (lit ''  check the citations'')]
      (lit ''report'') (new_manager 2 20) = Inr (msg, m') \<and>
     map td_content (tm_staged m') = [lit ''summarise chapter 1'', lit ''check the citations'']"
proof -
  let ?as = "[Str_Arg (lit ''summarise chapter 1''), Str_Arg (lit ''  check the citations'')]"
  have s: "strip (lit ''summarise chapter 1'') = lit ''summarise chapter 1''"
    "strip (lit ''  check the citations'') = lit ''check the citations''"
    by (simp_all add: strip_def rstrip_def lit_def is_space_def)
  have "length (strip (lit ''summarise chapter 1'')) = 19" "length (strip (lit ''  check the citations'')) = 19"
    by (simp_all add: s)
  then show ?thesis
    using staging_is_exact [where clock = int and as = ?as and name = "lit ''report''" and m = "new_manager 2 20"]
    by (auto simp: s new_manager_def Cons_eq_map_conv split: sum.splits)
qed

section \<open>Checkpoints\<close>

text \<open>
  Checkpoints are lossless: restoring the exported state of any manager the methods can
  produce, into any manager whatever it held, succeeds, brings back both lists item by item
  (status, notes and creation time included), the counter and the phase, and so renders the same
  list and picks the same next task.
\<close>

theorem checkpoint_roundtrip:
  assumes "reached lo hi m"
  shows "\<exists>m'. restore_state clock (export_state m) m0 = (None, m') \<and>
     tm_todos m' = tm_todos m \<and> tm_staged m' = tm_staged m \<and> tm_next m' = tm_next m \<and>
     tm_staged_name m' = tm_staged_name m \<and> get_phase_info m' = get_phase_info m \<and>
     export_state m' = export_state m \<and>
     format_for_injection footer m' = format_for_injection footer m \<and>
     first_target m' = first_target m"
proof -
  have "tm_next m \<noteq> 0" using reached_ok [OF assms] by (simp add: manager_ok_def)
  note r = restore_export [OF this, of clock m0]
  have first: "first_target x = first_target m" if "tm_todos x = tm_todos m" for x
  proof -
    have "list_pending x = list_pending m" using that by (simp add: list_pending_def)
    then show ?thesis by (simp only: first_target_def that)
  qed
  define m' where "m' = m0\<lparr>tm_todos := tm_todos m, tm_staged := tm_staged m, tm_next := tm_next m,
    tm_staged_name := tm_staged_name m, tm_phase := tm_phase m, tm_phase_name := tm_phase_name m,
    tm_strategic := tm_strategic m\<rparr>"
  have f: "tm_todos m' = tm_todos m" "tm_staged m' = tm_staged m" "tm_next m' = tm_next m"
    "tm_staged_name m' = tm_staged_name m" "tm_phase m' = tm_phase m"
    "tm_phase_name m' = tm_phase_name m" "tm_strategic m' = tm_strategic m"
    by (simp_all add: m'_def)
  have "get_phase_info m' = get_phase_info m" "export_state m' = export_state m"
    by (simp_all add: get_phase_info_def export_state_def f)
  moreover have "format_for_injection footer m' = format_for_injection footer m"
    unfolding format_for_injection_def with_status_def phase_title_def phase_word_def f by (rule refl)
  ultimately show ?thesis
    unfolding r m'_def [symmetric] using f first [OF f(1)] by blast
qed

theorem checkpoint_roundtrip_witness:
  "\<exists>m'. restore_state (\<lambda>_. 0) (export_state demo_tasks) (new_manager 5 9) = (None, m') \<and>
     tm_todos m' = tm_todos demo_tasks"
  using checkpoint_roundtrip [OF demo_tasks_reached] by blast

section \<open>Archives\<close>

lemma occurs_concat_line:
  "x \<in> set ls \<Longrightarrow> set ls \<subseteq> set all \<Longrightarrow> occurs x (join_text [10] all)"
  by (intro occurs_join) auto

text \<open>
  Archiving loses nothing: for a non-empty list the named file holds a line for every task,
  with the mark of its status, and every note of a completed one, and the totals; the counts kept
  for the transition agree with it, no other file changes, the list is empty and naming restarts at
  one. An empty list is left alone and nothing is written.
\<close>

theorem archive_keeps_every_task:
  "case archive_todos stamp ts name m w of (path, m', w') \<Rightarrow>
     tm_todos m' = [] \<and> tm_staged m' = tm_staged m \<and>
     (if tm_todos m = [] then path = [] \<and> m' = m \<and> w' = w
      else path = archive_path ts m \<and> tm_next m' = 1 \<and>
        tm_archived_total m' = length (tm_todos m) \<and>
        tm_archived_completed m' + length (list_pending m) = length (tm_todos m) \<and>
        (\<forall>p. p = path \<or> read_file p w' = read_file p w) \<and>
        (\<exists>content. read_file path w' = Some content \<and>
           (\<forall>t \<in> set (tm_todos m). occurs
              (if is_completed t then lit ''- [x] '' @ td_content t
               else if td_status t = IN_PROGRESS then lit ''- [~] '' @ td_content t
               else lit ''- [ ] '' @ td_content t) content) \<and>
           (\<forall>t \<in> set (filter is_completed (tm_todos m)). \<forall>n \<in> set (td_notes t).
              occurs (lit ''  - '' @ n) content) \<and>
           occurs (lit ''- Total: '' @ nat_text (length (tm_todos m))) content))"
proof (cases "tm_todos m = []")
  case True
  then show ?thesis by (simp add: archive_todos_def)
next
  case False
  let ?c = "archive_content stamp name m"
  define fin where "fin = filter is_completed (tm_todos m)"
  define rest where "rest = filter (\<lambda>t. \<not> is_completed t) (tm_todos m)"
  have line: "occurs x ?c" if "(fin \<noteq> [] \<and> x \<in> set (concat (map archived_completed fin))) \<or>
      (rest \<noteq> [] \<and> x \<in> archived_open ` set rest) \<or>
      x = lit ''- Total: '' @ nat_text (length (tm_todos m))" for x
    unfolding archive_content_def Let_def fin_def [symmetric] rest_def [symmetric]
    by (rule occurs_join) (use that in auto)
  have open_line: "archived_open t = (if td_status t = IN_PROGRESS then lit ''- [~] '' @ td_content t
      else lit ''- [ ] '' @ td_content t)" for t
    by (simp add: archived_open_def lit_def)
  have tasks: "occurs (if is_completed t then lit ''- [x] '' @ td_content t
               else if td_status t = IN_PROGRESS then lit ''- [~] '' @ td_content t
               else lit ''- [ ] '' @ td_content t) ?c" if t: "t \<in> set (tm_todos m)" for t
  proof (cases "is_completed t")
    case True
    then have "t \<in> set fin" using t by (simp add: fin_def)
    then show ?thesis using True by (intro line) (auto simp: archived_completed_def intro!: bexI [of _ t])
  next
    case False
    then have "t \<in> set rest" using t by (simp add: rest_def)
    moreover from False have "(if is_completed t then lit ''- [x] '' @ td_content t
               else if td_status t = IN_PROGRESS then lit ''- [~] '' @ td_content t
               else lit ''- [ ] '' @ td_content t) = archived_open t" by (simp add: open_line)
    ultimately show ?thesis by (auto intro!: line)
  qed
  have note_lines: "occurs (lit ''  - '' @ n) ?c" if "t \<in> set fin" "n \<in> set (td_notes t)" for t n
    using that by (intro line) (auto simp: archived_completed_def intro!: bexI [of _ t])
  have files: "read_file (archive_path ts m) (write_file (archive_path ts m) ?c w) = Some ?c"
    "p \<noteq> archive_path ts m \<Longrightarrow> read_file p (write_file (archive_path ts m) ?c w) = read_file p w" for p
  proof -
    have "map_of (filter (\<lambda>f. fst f \<noteq> q) fs) p = map_of fs p" if "p \<noteq> q" for q and fs :: "(pytext \<times> pytext) list"
      using that by (induction fs) auto
    then show "read_file (archive_path ts m) (write_file (archive_path ts m) ?c w) = Some ?c"
      "p \<noteq> archive_path ts m \<Longrightarrow> read_file p (write_file (archive_path ts m) ?c w) = read_file p w"
      by (simp_all add: read_file_def write_file_def)
  qed
  have count: "length fin + length (list_pending m) = length (tm_todos m)"
    using sum_length_filter_compl [of is_completed "tm_todos m"] by (simp add: fin_def list_pending_length)
  show ?thesis
    using False files tasks note_lines count line [of "lit ''- Total: '' @ nat_text (length (tm_todos m))"]
    by (simp add: archive_todos_def fin_def) blast
qed

theorem archive_keeps_every_task_witness:
  "\<exists>content. read_file (archive_path (lit ''20260201_140000'') demo_tasks)
       (snd (snd (archive_todos (lit ''now'') (lit ''20260201_140000'') [] demo_tasks demo_space))) = Some content \<and>
     occurs (lit ''- [ ] '' @ lit ''read the sources'') content"
  using archive_keeps_every_task [where stamp = "lit ''now''" and
      ts = "lit ''20260201_140000''" and name = "[]" and m = demo_tasks and w = demo_space]
  by (auto simp: demo_todos new_item_def is_completed_def split: prod.splits)

text \<open>
  The list is stated once: when the restatement is due it contains the current rendering,
  and once it has been appended to the conversation, whatever else is there, no further
  restatement is due until the list changes; an empty list is never restated.
\<close>

theorem restatement_is_appended_once:
  "case list_restatement footer msgs m of
     None \<Rightarrow> tm_todos m = [] \<or> (\<exists>x \<in> set msgs. occurs (format_for_injection footer m) (message_text x))
   | Some r \<Rightarrow> tm_todos m \<noteq> [] \<and> occurs (format_for_injection footer m) r \<and>
       list_restatement footer (pre @ [Text_Content r] @ post) m = None \<and>
       list_restatement footer (pre @ [Parts [Dict_Part r]] @ post) m = None"
proof (cases "list_restatement footer msgs m")
  case None
  then show ?thesis by (auto simp: list_restatement_def Let_def split: if_splits)
next
  case (Some r)
  then have r: "tm_todos m \<noteq> []" "r = TODO_LIST_RESTATEMENT_LEAD @ [10, 10] @ format_for_injection footer m"
    by (auto simp: list_restatement_def Let_def split: if_splits)
  then have "occurs (format_for_injection footer m) r"
    using occurs_suffix [of "format_for_injection footer m" "TODO_LIST_RESTATEMENT_LEAD @ [10, 10]"] by simp
  with Some r(1) show ?thesis by (simp add: list_restatement_def Let_def)
qed

text \<open>A headline fits its budget and stays on one line.\<close>

lemma headline_is_one_short_line:
  "length (todo_headline c) \<le> TODO_HEADLINE_MAX_CHARS \<and>
   (\<forall>x \<in> set (filter is_space (todo_headline c)). x = 32)"
proof -
  define first where "first = (case find (\<lambda>l. strip l \<noteq> []) (splitlines c) of None \<Rightarrow> [] | Some l \<Rightarrow> l)"
  define line where "line = join_text (lit '' '') (split_ws first)"
  have h: "todo_headline c = (if TODO_HEADLINE_MAX_CHARS < length line
         then rstrip (take (TODO_HEADLINE_MAX_CHARS - 1) line) @ [8230] else line)"
    by (simp add: todo_headline_def first_def line_def Let_def)
  have sp: "x = 32" if "x \<in> set line" "is_space x" for x
    using that set_join_text [of "lit '' ''" "split_ws first"] split_ws_no_space [of _ first x]
    by (auto simp: line_def lit_def)
  have cut: "set (rstrip (take n line)) \<subseteq> set line" for n
    using set_rstrip [of "take n line"] set_take_subset [of n line] by blast
  have "length (todo_headline c) \<le> TODO_HEADLINE_MAX_CHARS"
    using length_rstrip [of "take (TODO_HEADLINE_MAX_CHARS - 1) line"]
    by (auto simp: h TODO_HEADLINE_MAX_CHARS_def)
  moreover have "x = 32" if "x \<in> set (todo_headline c)" "is_space x" for x
    using that sp cut by (auto simp: h is_space_def split: if_splits)
  ultimately show ?thesis by auto
qed

section \<open>Lists with names of their own\<close>

definition plain_dict :: "pytext option \<Rightarrow> pytext \<Rightarrow> todo_status \<Rightarrow> todo_dict" where
  "plain_dict i c st = \<lparr>dd_id = i, dd_content = Some c, dd_status = Some (status_value st),
     dd_priority = None, dd_notes = None, dd_created = None\<rparr>"

definition stuck_tasks :: manager where
  "stuck_tasks = (new_manager 2 20)\<lparr>tm_todos :=
     [new_item (todo_name 1) (lit ''done'') COMPLETED (lit ''medium'') 0,
      new_item (todo_name 1) (lit ''open'') IN_PROGRESS (lit ''medium'') 0], tm_next := 2\<rparr>"

lemma stuck_target:
  "first_target stuck_tasks = Some (new_item (todo_name 1) (lit ''open'') IN_PROGRESS (lit ''medium'') 0)"
  by (simp add: first_target_def stuck_tasks_def new_item_def)

lemma stuck_report:
  "fr_completed (fst (complete_first_pending_sync accepts stamp None stuck_tasks w)) = Some (todo_name 1)"
  by (cases "complete_todo accepts stamp (todo_name 1) None stuck_tasks w")
    (simp add: complete_first_pending_sync_def stuck_target new_item_def Let_def)

lemma stuck_complete:
  "fst (snd (complete_first_pending_sync accepts stamp None stuck_tasks w)) = stuck_tasks"
proof -
  have "fst (snd (complete_todo accepts stamp (todo_name 1) None stuck_tasks w)) = stuck_tasks"
    by (simp add: complete_todo_def stuck_tasks_def new_item_def mark_completed_def Let_def)
  then show ?thesis
    by (cases "complete_todo accepts stamp (todo_name 1) None stuck_tasks w")
      (simp add: complete_first_pending_sync_def stuck_target new_item_def Let_def)
qed

lemma stuck_load:
  "set_todos_from_list (\<lambda>_. 0)
     [plain_dict (Some (todo_name 1)) (lit ''done'') COMPLETED,
      plain_dict None (lit ''open'') IN_PROGRESS] (new_manager 2 20) = (None, stuck_tasks)"
proof -
  have "status_of_value (status_value s) = Inr s" for s
    by (cases s) (simp_all add: status_of_value_def lit_def)
  moreover have "todo_name 1 = 116 # lit ''odo_1''"
    by (simp add: todo_name_def int_text_def nat_text_small lit_def)
  ultimately show ?thesis
    by (simp add: set_todos_from_list_def plain_dict_def new_manager_def stuck_tasks_def
        del: status_value.simps)
qed

text \<open>
  C40. The counter ignores names that a replacing list brings along. The list with a completed
  entry named \<^verbatim>\<open>todo_1\<close> and an unnamed entry in progress is loaded without an error, the unnamed
  entry gets the name \<^verbatim>\<open>todo_1\<close> as well, and from then on every call of the completion tool reports
  \<^verbatim>\<open>todo_1\<close> as completed while the open task stays open, so the work loop never ends.
\<close>

theorem mixed_names_stall_the_loop:
  "\<exists>m'. set_todos_from_list (\<lambda>_. 0)
       [plain_dict (Some (todo_name 1)) (lit ''done'') COMPLETED,
        plain_dict None (lit ''open'') IN_PROGRESS] (new_manager 2 20) = (None, m') \<and>
     map td_id (tm_todos m') = [todo_name 1, todo_name 1] \<and>
     map td_content (tm_todos m') = [lit ''done'', lit ''open''] \<and>
     (\<forall>accepts stamp n w. \<not> all_complete (fst (work accepts stamp n m' w)) \<and>
        fr_completed (fst (complete_first_pending_sync accepts (stamp n) None
          (fst (work accepts stamp n m' w)) w)) = Some (todo_name 1))"
proof (intro exI [of _ stuck_tasks] conjI allI)
  fix accepts w and stamp :: "nat \<Rightarrow> pytext" and n
  have loop: "fst (work accepts stamp n stuck_tasks w) = stuck_tasks"
  proof (induction n)
    case (Suc n)
    then show ?case by (cases "work accepts stamp n stuck_tasks w") (simp add: stuck_complete)
  qed simp
  show "\<not> all_complete (fst (work accepts stamp n stuck_tasks w))"
    unfolding loop by (simp add: all_complete_def stuck_tasks_def new_item_def is_completed_def)
  show "fr_completed (fst (complete_first_pending_sync accepts (stamp n) None
      (fst (work accepts stamp n stuck_tasks w)) w)) = Some (todo_name 1)"
    unfolding loop by (rule stuck_report)
qed (simp_all add: stuck_load, simp_all add: stuck_tasks_def new_item_def)

end
