(* ===== verification/Resource_Vector.thy ===== *)
theory Resource_Vector
  imports Prelude
begin

text \<open>
  Host resource vectors and host cost policies of \<^verbatim>\<open>src/shared/vm_resource_admission.py\<close>. The
  Python class checks every component in its constructor, so each arithmetic operation is a
  checked one: \<^verbatim>\<open>make_vec\<close> raises outside 0 .. 2^63 - 1. The plain vectors form an ordered
  commutative monoid, an instance of the library's classes, on which the laws are stated.

  The normalisation of Kubernetes quantities is a parameter: it calls the Kubernetes client's own
  parser, which is not part of the repository.
\<close>

section \<open>Vectors\<close>

datatype rvec = Vec (cpu: int) (memory: int) (kvm: int) (ephemeral: int) (tun: int) (vhost: int)

type_synonym reason = string

definition SIGNED_BIGINT_MAX :: int where "SIGNED_BIGINT_MAX = 2 ^ 63 - 1"

fun components :: "rvec \<Rightarrow> int list" where
  "components (Vec a b c d e f) = [a, b, c, d, e, f]"

fun from_components :: "int list \<Rightarrow> rvec" where
  "from_components [a, b, c, d, e, f] = Vec a b c d e f"
| "from_components _ = Vec 0 0 0 0 0 0"

definition map2_vec :: "(int \<Rightarrow> int \<Rightarrow> int) \<Rightarrow> rvec \<Rightarrow> rvec \<Rightarrow> rvec" where
  "map2_vec g v w = from_components (map (\<lambda>(a, b). g a b) (zip (components v) (components w)))"

lemma map2_vec_simps [simp]:
  "map2_vec g (Vec a b c d e f) (Vec a' b' c' d' e' f') =
   Vec (g a a') (g b b') (g c c') (g d d') (g e e') (g f f')"
  by (simp add: map2_vec_def)

instantiation rvec :: "{comm_monoid_add, order}"
begin

definition "0 = Vec 0 0 0 0 0 0"
definition "v + w = map2_vec (+) v w" for v w :: rvec
definition "v \<le> w \<longleftrightarrow> (\<forall>(a, b) \<in> set (zip (components v) (components w)). a \<le> b)" for v w :: rvec
definition "v < w \<longleftrightarrow> v \<le> w \<and> \<not> w \<le> v" for v w :: rvec

instance
proof
  fix u v w :: rvec
  show "u + v + w = u + (v + w)" "u + v = v + u"
    by (cases u; cases v; cases w; simp add: plus_rvec_def)+
  show "0 + v = v" by (cases v) (simp add: plus_rvec_def zero_rvec_def)
  show "v < w \<longleftrightarrow> v \<le> w \<and> \<not> w \<le> v" by (rule less_rvec_def)
  show "v \<le> v" by (cases v) (simp add: less_eq_rvec_def)
  show "u \<le> v \<Longrightarrow> v \<le> w \<Longrightarrow> u \<le> w"
    by (cases u; cases v; cases w) (simp add: less_eq_rvec_def)
  show "v \<le> w \<Longrightarrow> w \<le> v \<Longrightarrow> v = w"
    by (cases v; cases w) (simp add: less_eq_rvec_def)
qed

end

named_theorems vec_simps \<open>componentwise reading of vector operations\<close>

lemma plus_vec [vec_simps]:
  "Vec a b c d e f + Vec a' b' c' d' e' f' = Vec (a + a') (b + b') (c + c') (d + d') (e + e') (f + f')"
  by (simp add: plus_rvec_def)

lemma le_vec [vec_simps]:
  "Vec a b c d e f \<le> Vec a' b' c' d' e' f' \<longleftrightarrow>
   a \<le> a' \<and> b \<le> b' \<and> c \<le> c' \<and> d \<le> d' \<and> e \<le> e' \<and> f \<le> f'"
  by (simp add: less_eq_rvec_def)

lemma zero_vec [vec_simps]: "0 = Vec 0 0 0 0 0 0"
  by (simp add: zero_rvec_def)

lemma add_mono_vec: "a \<le> b \<Longrightarrow> c \<le> d \<Longrightarrow> a + c \<le> b + (d :: rvec)"
  by (cases a; cases b; cases c; cases d) (simp add: vec_simps)

lemma le_add_nonneg: "0 \<le> c \<Longrightarrow> a \<le> b \<Longrightarrow> a \<le> b + (c :: rvec)"
  using add_mono_vec [of a b 0 c] by simp

lemma le_add_nonneg2: "0 \<le> c \<Longrightarrow> a \<le> b \<Longrightarrow> a \<le> c + (b :: rvec)"
  using le_add_nonneg [of c a b] by (simp add: add.commute)

lemma nonneg_sum_vec: "(\<And>x. x \<in> set xs \<Longrightarrow> 0 \<le> f x) \<Longrightarrow> 0 \<le> (\<Sum>x \<leftarrow> xs. f x :: rvec)"
proof (induction xs)
  case (Cons x xs)
  then show ?case using add_mono_vec [of 0 "f x" 0 "sum_list (map f xs)"] by simp
qed simp

lemma member_le_sum_vec:
  "x \<in> set xs \<Longrightarrow> (\<And>y. y \<in> set xs \<Longrightarrow> 0 \<le> f y) \<Longrightarrow> f x \<le> (\<Sum>y \<leftarrow> xs. f y :: rvec)"
proof (induction xs)
  case (Cons y ys)
  then have "0 \<le> (\<Sum>y \<leftarrow> ys. f y)" by (intro nonneg_sum_vec) simp
  with Cons show ?case by (auto intro: le_add_nonneg le_add_nonneg2)
qed simp

section \<open>Checked operations\<close>

definition valid_int :: "int \<Rightarrow> bool" where
  "valid_int v \<longleftrightarrow> 0 \<le> v \<and> v \<le> SIGNED_BIGINT_MAX"

definition integer :: "bool \<Rightarrow> int \<Rightarrow> reason + int" where
  "integer positive v =
     (if of_bool positive \<le> v \<and> v \<le> SIGNED_BIGINT_MAX then Inr v
      else Inl ''invalid_resource_integer'')"

definition valid_vec :: "rvec \<Rightarrow> bool" where
  "valid_vec v \<longleftrightarrow> (\<forall>c \<in> set (components v). valid_int c)"

definition make_vec :: "rvec \<Rightarrow> reason + rvec" where
  "make_vec v = (if valid_vec v then Inr v else Inl ''invalid_resource_integer'')"

definition add_vec :: "rvec \<Rightarrow> rvec \<Rightarrow> reason + rvec" where
  "add_vec v w = make_vec (map2_vec (+) v w)"

definition sub_vec :: "rvec \<Rightarrow> rvec \<Rightarrow> reason + rvec" where
  "sub_vec v w = make_vec (map2_vec (-) v w)"

definition max_vec :: "rvec \<Rightarrow> rvec \<Rightarrow> reason + rvec" where
  "max_vec v w = make_vec (map2_vec max v w)"

definition fits :: "rvec \<Rightarrow> rvec \<Rightarrow> bool" where
  "fits v avail \<longleftrightarrow> (\<forall>(a, b) \<in> set (zip (components v) (components avail)). a \<le> b)"

definition sup_vec :: "rvec \<Rightarrow> rvec \<Rightarrow> rvec" where
  "sup_vec v w = map2_vec max v w"

lemma fits_le: "fits v w \<longleftrightarrow> v \<le> w"
  by (simp add: fits_def less_eq_rvec_def)

lemma valid_vec_nonneg: "valid_vec v \<Longrightarrow> 0 \<le> v"
  by (cases v) (simp add: valid_vec_def valid_int_def vec_simps)

lemma make_vec_Inr: "make_vec v = Inr w \<longleftrightarrow> w = v \<and> valid_vec v"
  by (auto simp: make_vec_def)

lemma add_vec_Inr: "add_vec v w = Inr u \<longleftrightarrow> u = v + w \<and> valid_vec (v + w)"
  by (auto simp: add_vec_def make_vec_Inr plus_rvec_def)

lemma sup_vec_upper: "v \<le> sup_vec v w" "w \<le> sup_vec v w"
  by (cases v; cases w; simp add: sup_vec_def vec_simps)+

lemma valid_sup: "valid_vec v \<Longrightarrow> valid_vec w \<Longrightarrow> valid_vec (sup_vec v w)"
  by (cases v; cases w) (auto simp: valid_vec_def valid_int_def sup_vec_def)

lemma max_vec_valid: "valid_vec v \<Longrightarrow> valid_vec w \<Longrightarrow> max_vec v w = Inr (sup_vec v w)"
  using valid_sup [of v w] by (simp add: max_vec_def make_vec_def sup_vec_def)

lemma valid_zero [simp]: "valid_vec 0"
  by (simp add: valid_vec_def valid_int_def zero_vec SIGNED_BIGINT_MAX_def)

section \<open>Host cost\<close>

definition ceil_div :: "int \<Rightarrow> int \<Rightarrow> int" where
  "ceil_div n d = (n + d - 1) div d"

record host_policy =
  hp_cpu_num :: int
  hp_cpu_den :: int
  hp_launcher_cpu :: int
  hp_fixed_memory :: int
  hp_vcpu_memory :: int
  hp_basis_points :: int

definition policy_valid :: "host_policy \<Rightarrow> bool" where
  "policy_valid p \<longleftrightarrow>
     1 \<le> hp_cpu_num p \<and> hp_cpu_num p \<le> SIGNED_BIGINT_MAX \<and>
     1 \<le> hp_cpu_den p \<and> hp_cpu_den p \<le> SIGNED_BIGINT_MAX \<and>
     valid_int (hp_launcher_cpu p) \<and> valid_int (hp_fixed_memory p) \<and>
     valid_int (hp_vcpu_memory p) \<and> valid_int (hp_basis_points p)"

definition host_cost ::
  "('q \<Rightarrow> int option) \<Rightarrow> host_policy \<Rightarrow> int \<Rightarrow> 'q \<Rightarrow> reason + rvec" where
  "host_cost to_bytes p vcpus guest =
     bind_ok (integer True vcpus) (\<lambda>_.
       case to_bytes guest of None \<Rightarrow> Inl ''invalid_guest_memory''
       | Some mem \<Rightarrow>
           bind_ok (integer True mem) (\<lambda>_.
             make_vec (Vec (ceil_div (vcpus * hp_cpu_num p) (hp_cpu_den p) + hp_launcher_cpu p)
                       (mem + hp_fixed_memory p + vcpus * hp_vcpu_memory p +
                        ceil_div (mem * hp_basis_points p) 10000)
                       1 0 0 0)))"

record whole_policy =
  wp_base :: host_policy
  wp_ephemeral :: int
  wp_kvm :: int
  wp_tun :: int
  wp_vhost :: int

definition whole_policy_valid :: "whole_policy \<Rightarrow> bool" where
  "whole_policy_valid p \<longleftrightarrow>
     policy_valid (wp_base p) \<and>
     (\<forall>v \<in> {wp_ephemeral p, wp_kvm p, wp_tun p, wp_vhost p}. 1 \<le> v \<and> v \<le> SIGNED_BIGINT_MAX)"

definition whole_cost ::
  "('q \<Rightarrow> int option) \<Rightarrow> whole_policy \<Rightarrow> int \<Rightarrow> 'q \<Rightarrow> reason + rvec" where
  "whole_cost to_bytes p vcpus guest =
     bind_ok (host_cost to_bytes (wp_base p) vcpus guest)
       (\<lambda>base. make_vec (Vec (cpu base) (memory base) (wp_kvm p) (wp_ephemeral p) (wp_tun p) (wp_vhost p)))"

definition managed_charge :: "rvec \<Rightarrow> rvec option \<Rightarrow> reason + rvec" where
  "managed_charge reserved observed =
     (case observed of None \<Rightarrow> Inr reserved | Some w \<Rightarrow> max_vec reserved w)"

lemma ceil_div_exact:
  assumes "0 < d"
  shows "n \<le> ceil_div n d * d" "ceil_div n d * d < n + d"
proof -
  have e: "(n + d - 1) div d * d = n + d - 1 - (n + d - 1) mod d"
    by (simp add: minus_mod_eq_div_mult)
  then show "n \<le> ceil_div n d * d" "ceil_div n d * d < n + d"
    using pos_mod_bound [OF assms, of "n + d - 1"] pos_mod_sign [OF assms, of "n + d - 1"]
    by (simp_all add: ceil_div_def)
qed

lemma ceil_div_mono: "0 < d \<Longrightarrow> m \<le> n \<Longrightarrow> ceil_div m d \<le> ceil_div n d"
  by (simp add: ceil_div_def zdiv_mono1)

text \<open>
  The charge of a VM is an exact upward rounding: the CPU part is the least number of
  millicores not below the policy's rate for the guest's virtual CPUs plus the launcher's share, the memory
  part covers the guest's memory, every fixed and per-CPU overhead and the rounded-up percentage,
  a valid policy's charge has positive devices and disk reserve, and a guest with more CPUs
  and memory is never charged less.
\<close>

theorem host_charge_rounds_up_exactly:
  assumes "whole_policy_valid p" and "whole_cost to_bytes p vcpus guest = Inr v"
    and "whole_cost to_bytes p vcpus' guest' = Inr v'" and "vcpus \<le> vcpus'"
    and "to_bytes guest = Some mem" "to_bytes guest' = Some mem'" "mem \<le> mem'"
  shows "vcpus * hp_cpu_num (wp_base p) \<le> (cpu v - hp_launcher_cpu (wp_base p)) * hp_cpu_den (wp_base p) \<and>
    (cpu v - hp_launcher_cpu (wp_base p)) * hp_cpu_den (wp_base p)
      < vcpus * hp_cpu_num (wp_base p) + hp_cpu_den (wp_base p) \<and>
    mem + hp_fixed_memory (wp_base p) + vcpus * hp_vcpu_memory (wp_base p) \<le> memory v \<and>
    mem * hp_basis_points (wp_base p)
      \<le> (memory v - mem - hp_fixed_memory (wp_base p) - vcpus * hp_vcpu_memory (wp_base p)) * 10000 \<and>
    valid_vec v \<and> 0 < kvm v \<and> 0 < ephemeral v \<and> 0 < tun v \<and> 0 < vhost v \<and> v \<le> v'"
proof -
  let ?b = "wp_base p"
  have cost: "\<exists>c m. x = Vec c m (wp_kvm p) (wp_ephemeral p) (wp_tun p) (wp_vhost p) \<and>
      c = ceil_div (k * hp_cpu_num ?b) (hp_cpu_den ?b) + hp_launcher_cpu ?b \<and>
      m = y + hp_fixed_memory ?b + k * hp_vcpu_memory ?b + ceil_div (y * hp_basis_points ?b) 10000 \<and>
      valid_vec x \<and> 1 \<le> y"
    if "whole_cost to_bytes p k g = Inr x" "to_bytes g = Some y" for k g x y
    using that
    by (auto simp: whole_cost_def host_cost_def bind_ok_Inr make_vec_Inr integer_def split: if_splits)
  obtain c m where v: "v = Vec c m (wp_kvm p) (wp_ephemeral p) (wp_tun p) (wp_vhost p)" "valid_vec v"
    "c = ceil_div (vcpus * hp_cpu_num ?b) (hp_cpu_den ?b) + hp_launcher_cpu ?b" "1 \<le> mem"
    "m = mem + hp_fixed_memory ?b + vcpus * hp_vcpu_memory ?b + ceil_div (mem * hp_basis_points ?b) 10000"
    using cost [OF assms(2,5)] by blast
  obtain c' m' where v': "v' = Vec c' m' (wp_kvm p) (wp_ephemeral p) (wp_tun p) (wp_vhost p)"
    "c' = ceil_div (vcpus' * hp_cpu_num ?b) (hp_cpu_den ?b) + hp_launcher_cpu ?b"
    "m' = mem' + hp_fixed_memory ?b + vcpus' * hp_vcpu_memory ?b + ceil_div (mem' * hp_basis_points ?b) 10000"
    using cost [OF assms(3,6)] by blast
  have pol: "1 \<le> hp_cpu_num ?b" "1 \<le> hp_cpu_den ?b" "0 \<le> hp_vcpu_memory ?b" "0 \<le> hp_basis_points ?b"
    "1 \<le> wp_kvm p" "1 \<le> wp_ephemeral p" "1 \<le> wp_tun p" "1 \<le> wp_vhost p"
    using assms(1) by (auto simp: whole_policy_valid_def policy_valid_def valid_int_def)
  have "c \<le> c'"
    using v(3) v'(2) pol assms(4) by (simp add: ceil_div_mono mult_right_mono)
  moreover have "m \<le> m'"
  proof -
    have "vcpus * hp_vcpu_memory ?b \<le> vcpus' * hp_vcpu_memory ?b"
      using pol assms(4) by (simp add: mult_right_mono)
    moreover have "ceil_div (mem * hp_basis_points ?b) 10000 \<le> ceil_div (mem' * hp_basis_points ?b) 10000"
      using pol assms(7) by (intro ceil_div_mono) (simp_all add: mult_right_mono)
    ultimately show ?thesis using v(5) v'(3) assms(7) by linarith
  qed
  ultimately have "v \<le> v'" using v(1) v'(1) by (simp add: vec_simps)
  have pct: "0 \<le> ceil_div (mem * hp_basis_points ?b) 10000"
    using ceil_div_exact(1) [of 10000 "mem * hp_basis_points ?b"] pol v(4)
    by (smt (verit) mult_nonneg_nonneg)
  show ?thesis
    using v pol pct \<open>v \<le> v'\<close> ceil_div_exact [of "hp_cpu_den ?b" "vcpus * hp_cpu_num ?b"]
      ceil_div_exact(1) [of 10000 "mem * hp_basis_points ?b"]
    by simp
qed

definition demo_policy :: whole_policy where
  "demo_policy = \<lparr>wp_base = \<lparr>hp_cpu_num = 500, hp_cpu_den = 3, hp_launcher_cpu = 100,
     hp_fixed_memory = 1000, hp_vcpu_memory = 10, hp_basis_points = 150\<rparr>,
     wp_ephemeral = 5000, wp_kvm = 1, wp_tun = 1, wp_vhost = 1\<rparr>"

theorem host_charge_rounds_up_exactly_witness:
  "\<exists>v v'. whole_cost Some demo_policy 2 4096 = Inr v \<and> whole_cost Some demo_policy 4 8192 = Inr v' \<and>
     v \<le> v' \<and> cpu v = 434"
proof -
  have p: "whole_policy_valid demo_policy"
    by (simp add: whole_policy_valid_def policy_valid_def valid_int_def demo_policy_def SIGNED_BIGINT_MAX_def)
  have c: "whole_cost Some demo_policy 2 4096 = Inr (Vec 434 5178 1 5000 1 1)"
    "whole_cost Some demo_policy 4 8192 = Inr (Vec 767 9355 1 5000 1 1)"
    by (simp_all add: whole_cost_def host_cost_def demo_policy_def integer_def make_vec_def valid_vec_def
        valid_int_def SIGNED_BIGINT_MAX_def ceil_div_def)
  show ?thesis
    using host_charge_rounds_up_exactly [OF p c] c by simp
qed

end
