(* ===== verification/Resource_Fairness.thy ===== *)
theory Resource_Fairness
  imports Prelude "HOL-Library.List_Lexorder" "HOL-Library.Char_ord" "HOL-Library.Multiset"
begin

text \<open>
  The nomination of the next VM capacity waiter, \<^verbatim>\<open>src/shared/vm_resource_fairness.py\<close>: aging,
  one head per owner, protection against endless bypassing. Instants are integers in
  microseconds; identifiers are strings, and \<^verbatim>\<open>canonical_uuid\<close> is the check
  \<^verbatim>\<open>str(UUID(value)) == value\<close>. Python's type tests on the arguments hold by typing.
\<close>

section \<open>Inputs\<close>

definition lower_hex :: "char \<Rightarrow> bool" where
  "lower_hex c \<longleftrightarrow> c \<in> set ''0123456789abcdef''"

definition canonical_uuid :: "string \<Rightarrow> bool" where
  "canonical_uuid s \<longleftrightarrow>
     length s = 36 \<and>
     (\<forall>i < 36. if i \<in> {8, 13, 18, 23} then s ! i = CHR ''-'' else lower_hex (s ! i))"

record waiter =
  wt_request :: string
  wt_owner :: string
  wt_enqueued :: int
  wt_priority :: int
  wt_bypasses :: int
  wt_protected :: "int option"

datatype fair_error = Invalid_Fairness | Fairness_Clock_Unproven

definition int_in :: "int \<Rightarrow> int \<Rightarrow> int \<Rightarrow> bool" where
  "int_in lo hi v \<longleftrightarrow> lo \<le> v \<and> v \<le> hi"

definition waiter_valid :: "waiter \<Rightarrow> bool" where
  "waiter_valid w \<longleftrightarrow>
     canonical_uuid (wt_request w) \<and>
     int_in (- (2 ^ 31)) (2 ^ 31 - 1) (wt_priority w) \<and>
     int_in 0 (2 ^ 63 - 1) (wt_bypasses w) \<and>
     (case wt_protected w of None \<Rightarrow> True | Some p \<Rightarrow> int_in 0 (2 ^ 63 - 1) p) \<and>
     1 \<le> length (wt_owner w) \<and> length (wt_owner w) \<le> 253"

datatype action = Nonfit | Admit | Wait | Protect

record nomination =
  nm_action :: action
  nm_request :: "string option"
  nm_node :: "string option"
  nm_bypassed :: "string list"

definition nominate :: "action \<Rightarrow> string option \<Rightarrow> nomination" where
  "nominate a r = \<lparr>nm_action = a, nm_request = r, nm_node = None, nm_bypassed = []\<rparr>"

section \<open>Validation and aging\<close>

definition age_seconds :: "int \<Rightarrow> waiter \<Rightarrow> int" where
  "age_seconds now w = (now - wt_enqueued w) div 1000000"

definition score :: "int \<Rightarrow> int \<Rightarrow> waiter \<Rightarrow> int" where
  "score now aging w = wt_priority w + age_seconds now w div aging"

fun check_waiters :: "int \<Rightarrow> string list \<Rightarrow> waiter list \<Rightarrow> fair_error option" where
  "check_waiters now ids [] = None"
| "check_waiters now ids (w # ws) =
     (if wt_request w \<in> set ids then Some Invalid_Fairness
      else if now < wt_enqueued w then Some Fairness_Clock_Unproven
      else check_waiters now (wt_request w # ids) ws)"

definition check_fits ::
  "string list \<Rightarrow> (string \<times> string list) list \<Rightarrow> string list \<Rightarrow> (string \<times> int) list \<Rightarrow> bool" where
  "check_fits ids fits nonfit served \<longleftrightarrow>
     fst ` set fits \<subseteq> set ids \<and> set nonfit \<subseteq> set ids \<and>
     (\<forall>f \<in> set fits. distinct (snd f) \<and> (\<forall>n \<in> set (snd f). canonical_uuid n) \<and>
        \<not> (snd f \<noteq> [] \<and> fst f \<in> set nonfit)) \<and>
     (\<forall>l \<in> set served. int_in 0 (2 ^ 63 - 1) (snd l))"

section \<open>Ordering\<close>

definition within_owner :: "int \<Rightarrow> int \<Rightarrow> waiter \<Rightarrow> int \<times> int \<times> int \<times> string" where
  "within_owner now aging w =
     (case wt_protected w of
        Some p \<Rightarrow> (0, p, wt_enqueued w, wt_request w)
      | None \<Rightarrow> (1, - score now aging w, wt_enqueued w, wt_request w))"

definition last_admitted :: "(string \<times> int) list \<Rightarrow> waiter \<Rightarrow> int" where
  "last_admitted served w = (case map_of served (wt_owner w) of None \<Rightarrow> 0 | Some n \<Rightarrow> n)"

definition across_owners ::
  "int \<Rightarrow> int \<Rightarrow> (string \<times> int) list \<Rightarrow> waiter \<Rightarrow> int \<times> int \<times> int \<times> int \<times> string" where
  "across_owners now aging served w =
     (case wt_protected w of
        Some p \<Rightarrow> (0, p, 0, wt_enqueued w, wt_request w)
      | None \<Rightarrow> (1, - score now aging w, last_admitted served w, wt_enqueued w, wt_request w))"

text \<open>\<^verbatim>\<open>groups.setdefault(waiter.owner_key, []).append(waiter)\<close>\<close>

fun add_to_group :: "waiter \<Rightarrow> (string \<times> waiter list) list \<Rightarrow> (string \<times> waiter list) list" where
  "add_to_group w [] = [(wt_owner w, [w])]"
| "add_to_group w ((k, g) # gs) =
     (if k = wt_owner w then (k, g @ [w]) # gs else (k, g) # add_to_group w gs)"

definition groups_of :: "waiter list \<Rightarrow> (string \<times> waiter list) list" where
  "groups_of ws = fold add_to_group ws []"

definition owner_heads :: "int \<Rightarrow> int \<Rightarrow> waiter list \<Rightarrow> waiter list" where
  "owner_heads now aging ws =
     List.map_filter (\<lambda>g. first_min (within_owner now aging) (snd g)) (groups_of ws)"

definition missing_protection :: "int \<Rightarrow> waiter list \<Rightarrow> waiter list" where
  "missing_protection max_bypasses ws =
     filter (\<lambda>w. 0 < max_bypasses \<and> max_bypasses \<le> wt_bypasses w \<and> wt_protected w = None)
       (concat (map snd (groups_of ws)))"

fun scan_heads ::
  "(string \<times> string list) list \<Rightarrow> string list \<Rightarrow> int \<Rightarrow> string list \<Rightarrow> waiter list \<Rightarrow> nomination" where
  "scan_heads fits nonfit max_bypasses blocked [] =
     nominate Wait (case blocked of [] \<Rightarrow> None | b # _ \<Rightarrow> Some b)"
| "scan_heads fits nonfit max_bypasses blocked (h # hs) =
     (if wt_request h \<in> set nonfit then nominate Nonfit (Some (wt_request h))
      else (case map_of fits (wt_request h) of
          Some (n # _) \<Rightarrow> \<lparr>nm_action = Admit, nm_request = Some (wt_request h), nm_node = Some n,
                          nm_bypassed = blocked\<rparr>
        | _ \<Rightarrow>
            if wt_protected h \<noteq> None then nominate Wait (Some (wt_request h))
            else if max_bypasses \<le> wt_bypasses h then nominate Protect (Some (wt_request h))
            else scan_heads fits nonfit max_bypasses (blocked @ [wt_request h]) hs))"

definition choose_waiter ::
  "waiter list \<Rightarrow> (string \<times> string list) list \<Rightarrow> string list \<Rightarrow> (string \<times> int) list \<Rightarrow> int \<Rightarrow> int \<Rightarrow> int
   \<Rightarrow> fair_error + nomination" where
  "choose_waiter ws fits nonfit served now aging max_bypasses =
     (if \<not> int_in 1 (2 ^ 63 - 1) aging then Inl Invalid_Fairness
      else if \<not> int_in 0 (2 ^ 63 - 1) max_bypasses then Inl Invalid_Fairness
      else (case check_waiters now [] ws of
          Some e \<Rightarrow> Inl e
        | None \<Rightarrow>
            if \<not> check_fits (map wt_request ws) fits nonfit served then Inl Invalid_Fairness
            else (case first_min (\<lambda>w. (wt_enqueued w, wt_request w)) (missing_protection max_bypasses ws) of
                Some w \<Rightarrow> Inr (nominate Protect (Some (wt_request w)))
              | None \<Rightarrow> Inr (scan_heads fits nonfit max_bypasses []
                         (sort_key (across_owners now aging served) (owner_heads now aging ws))))))"

section \<open>Selection with distinct keys\<close>

lemma first_min_iff:
  assumes "inj_on f (set xs)"
  shows "first_min f xs = Some x \<longleftrightarrow> x \<in> set xs \<and> (\<forall>y \<in> set xs. f x \<le> f y)"
proof
  show "first_min f xs = Some x \<Longrightarrow> x \<in> set xs \<and> (\<forall>y \<in> set xs. f x \<le> f y)"
    using first_min_in first_min_le by metis
  assume x: "x \<in> set xs \<and> (\<forall>y \<in> set xs. f x \<le> f y)"
  then obtain z where z: "first_min f xs = Some z" using first_min_ex [of xs f] by force
  then have "f x = f z" using x first_min_in [OF z] first_min_le [OF z] by (meson order_antisym)
  then show "first_min f xs = Some x" using z x first_min_in [OF z] assms by (auto dest: inj_onD)
qed

lemma first_min_set:
  assumes "inj_on f (set xs)" "set ys = set xs"
  shows "first_min f ys = first_min f xs"
proof (cases "first_min f xs")
  case None
  then show ?thesis using assms(2) by (metis first_min_None set_empty)
next
  case (Some x)
  then show ?thesis using first_min_iff assms by (metis (no_types, lifting))
qed

section \<open>Groups\<close>

definition grouped :: "waiter list \<Rightarrow> (string \<times> waiter list) list \<Rightarrow> bool" where
  "grouped ws gs \<longleftrightarrow>
     distinct (map fst gs) \<and> fst ` set gs = wt_owner ` set ws \<and>
     (\<forall>g \<in> set gs. snd g = filter (\<lambda>w. wt_owner w = fst g) ws)"

lemma add_to_group_keys: "fst ` set (add_to_group w gs) = insert (wt_owner w) (fst ` set gs)"
  by (induction w gs rule: add_to_group.induct) auto

lemma add_to_group_distinct:
  "distinct (map fst gs) \<Longrightarrow> distinct (map fst (add_to_group w gs))"
proof (induction w gs rule: add_to_group.induct)
  case (2 w k g gs)
  then show ?case using add_to_group_keys [of w gs] by auto
qed simp

lemma add_to_group_member:
  "distinct (map fst gs) \<Longrightarrow> (k, g) \<in> set (add_to_group w gs) \<Longrightarrow>
   (k \<noteq> wt_owner w \<and> (k, g) \<in> set gs) \<or>
   (k = wt_owner w \<and> (\<exists>h. (k, h) \<in> set gs \<and> g = h @ [w])) \<or>
   (k = wt_owner w \<and> k \<notin> fst ` set gs \<and> g = [w])"
proof (induction w gs rule: add_to_group.induct)
  case (2 w k' g' gs)
  then show ?case by (cases "k' = wt_owner w") (auto simp: image_iff)
qed auto

lemma grouped_add:
  assumes "grouped ws gs"
  shows "grouped (ws @ [w]) (add_to_group w gs)"
proof -
  have d: "distinct (map fst gs)" using assms by (simp add: grouped_def)
  have "snd g = filter (\<lambda>x. wt_owner x = fst g) (ws @ [w])" if mem: "g \<in> set (add_to_group w gs)" for g
  proof -
    obtain k l where g: "g = (k, l)" by (cases g)
    consider "k \<noteq> wt_owner w" "(k, l) \<in> set gs"
      | h where "k = wt_owner w" "(k, h) \<in> set gs" "l = h @ [w]"
      | "k = wt_owner w" "k \<notin> fst ` set gs" "l = [w]"
      using add_to_group_member [OF d mem [unfolded g]] by blast
    then show ?thesis
    proof cases
      case 3
      then have "filter (\<lambda>x. wt_owner x = k) ws = []"
        using assms by (auto simp: grouped_def filter_empty_conv) (metis imageI)
      with 3 g show ?thesis by simp
    qed (use assms g in \<open>auto simp: grouped_def\<close>)
  qed
  then show ?thesis
    using assms add_to_group_keys [of w gs] add_to_group_distinct [OF d] by (auto simp: grouped_def)
qed

lemma groups_of_grouped: "grouped ws (groups_of ws)"
proof (induction ws rule: rev_induct)
  case Nil
  then show ?case by (simp add: grouped_def groups_of_def)
next
  case (snoc w ws)
  then show ?case using grouped_add by (simp add: groups_of_def)
qed

lemma groups_members: "set (concat (map snd (groups_of ws))) = set ws"
proof -
  have g: "fst ` set (groups_of ws) = wt_owner ` set ws"
    "\<And>g. g \<in> set (groups_of ws) \<Longrightarrow> snd g = filter (\<lambda>w. wt_owner w = fst g) ws"
    using groups_of_grouped [of ws] by (auto simp: grouped_def)
  have "w \<in> set (concat (map snd (groups_of ws)))" if "w \<in> set ws" for w
  proof -
    have "wt_owner w \<in> fst ` set (groups_of ws)" using that g(1) by auto
    then obtain x where "x \<in> set (groups_of ws)" "fst x = wt_owner w" by auto
    then show ?thesis using g(2) [of x] that by (auto intro!: bexI [of _ x])
  qed
  moreover have "w \<in> set ws" if "w \<in> set (concat (map snd (groups_of ws)))" for w
    using that g(2) by fastforce
  ultimately show ?thesis by blast
qed

lemma within_owner_inj:
  "distinct (map wt_request ws) \<Longrightarrow> A \<subseteq> set ws \<Longrightarrow> inj_on (within_owner now aging) A"
proof (rule inj_onI)
  fix x y assume d: "distinct (map wt_request ws)" "A \<subseteq> set ws" and "x \<in> A" "y \<in> A"
    and "within_owner now aging x = within_owner now aging y"
  then have "wt_request x = wt_request y" "x \<in> set ws" "y \<in> set ws"
    by (auto simp: within_owner_def split: option.splits)
  then show "x = y" using d(1) inj_onD [of wt_request "set ws" x y] by (simp add: distinct_map)
qed

lemma across_owners_inj:
  "distinct (map wt_request ws) \<Longrightarrow> A \<subseteq> set ws \<Longrightarrow> inj_on (across_owners now aging served) A"
proof (rule inj_onI)
  fix x y assume d: "distinct (map wt_request ws)" "A \<subseteq> set ws" and "x \<in> A" "y \<in> A"
    and "across_owners now aging served x = across_owners now aging served y"
  then have "wt_request x = wt_request y" "x \<in> set ws" "y \<in> set ws"
    by (auto simp: across_owners_def split: option.splits)
  then show "x = y" using d(1) inj_onD [of wt_request "set ws" x y] by (simp add: distinct_map)
qed

text \<open>The heads are exactly the waiters that come first among their owner's.\<close>

definition owner_head :: "int \<Rightarrow> int \<Rightarrow> waiter list \<Rightarrow> waiter \<Rightarrow> bool" where
  "owner_head now aging ws w \<longleftrightarrow> w \<in> set ws \<and>
     (\<forall>v \<in> set ws. wt_owner v = wt_owner w \<longrightarrow> within_owner now aging w \<le> within_owner now aging v)"

lemma owner_heads_set:
  assumes "distinct (map wt_request ws)"
  shows "set (owner_heads now aging ws) = {w. owner_head now aging ws w}"
proof -
  have g: "distinct (map fst (groups_of ws))" "fst ` set (groups_of ws) = wt_owner ` set ws"
    "\<And>g. g \<in> set (groups_of ws) \<Longrightarrow> snd g = filter (\<lambda>w. wt_owner w = fst g) ws"
    using groups_of_grouped [of ws] by (auto simp: grouped_def)
  have inj: "inj_on (within_owner now aging) (set (filter P ws))" for P
    using within_owner_inj [OF assms] by auto
  have "w \<in> set (owner_heads now aging ws) \<longleftrightarrow> owner_head now aging ws w" for w
  proof
    assume "w \<in> set (owner_heads now aging ws)"
    then obtain x where x: "x \<in> set (groups_of ws)" "first_min (within_owner now aging) (snd x) = Some w"
      by (auto simp: owner_heads_def List.map_filter_def)
    then show "owner_head now aging ws w"
      using first_min_iff [OF inj] g(3) [OF x(1)] by (auto simp: owner_head_def)
  next
    assume h: "owner_head now aging ws w"
    then have "wt_owner w \<in> fst ` set (groups_of ws)" using g(2) by (auto simp: owner_head_def)
    then obtain x where x: "x \<in> set (groups_of ws)" "fst x = wt_owner w" by auto
    then have "first_min (within_owner now aging) (snd x) = Some w"
      using h first_min_iff [OF inj] g(3) [OF x(1)] by (auto simp: owner_head_def)
    then show "w \<in> set (owner_heads now aging ws)"
      using x(1) by (auto simp: owner_heads_def List.map_filter_def intro!: rev_image_eqI [of x])
  qed
  then show ?thesis by blast
qed

lemma owner_heads_distinct:
  assumes "distinct (map wt_request ws)"
  shows "distinct (owner_heads now aging ws)"
proof -
  have g: "distinct (map fst (groups_of ws))"
    "\<And>g. g \<in> set (groups_of ws) \<Longrightarrow> snd g = filter (\<lambda>w. wt_owner w = fst g) ws"
    using groups_of_grouped [of ws] by (auto simp: grouped_def)
  have "distinct (List.map_filter (\<lambda>g. first_min (within_owner now aging) (snd g)) gs)"
    if "set gs \<subseteq> set (groups_of ws)" "distinct (map fst gs)" for gs
    using that
  proof (induction gs)
    case (Cons x gs)
    have own: "wt_owner w = fst y" if "y \<in> set (x # gs)" "first_min (within_owner now aging) (snd y) = Some w" for y w
      using first_min_in [OF that(2)] g(2) [of y] that(1) Cons.prems(1) by auto
    have "w \<notin> set (List.map_filter (\<lambda>g. first_min (within_owner now aging) (snd g)) gs)"
      if "first_min (within_owner now aging) (snd x) = Some w" for w
    proof
      assume "w \<in> set (List.map_filter (\<lambda>g. first_min (within_owner now aging) (snd g)) gs)"
      then obtain y where y: "y \<in> set gs" "first_min (within_owner now aging) (snd y) = Some w"
        by (auto simp: List.map_filter_def)
      have "fst y = wt_owner w" "wt_owner w = fst x"
        using own [of y w] own [of x w] y that by simp_all
      then have "fst x \<in> fst ` set gs" using y(1) by (metis imageI)
      then show False using Cons.prems(2) by simp
    qed
    then show ?case using Cons by (auto simp: List.map_filter_simps split: option.split)
  qed (simp add: List.map_filter_simps)
  then show ?thesis using g(1) by (simp add: owner_heads_def)
qed

section \<open>The scan\<close>

lemma check_waiters_None:
  "check_waiters now ids ws = None \<longleftrightarrow>
     distinct (map wt_request ws) \<and> set ids \<inter> wt_request ` set ws = {} \<and>
     (\<forall>w \<in> set ws. wt_enqueued w \<le> now)"
  by (induction now ids ws rule: check_waiters.induct) (auto simp: not_less)

text \<open>A head the scan steps over: unprotected, below the bypass limit, and nothing fits.\<close>

definition skippable :: "(string \<times> string list) list \<Rightarrow> string list \<Rightarrow> int \<Rightarrow> waiter \<Rightarrow> bool" where
  "skippable fits nonfit max_bypasses h \<longleftrightarrow>
     wt_request h \<notin> set nonfit \<and> wt_protected h = None \<and> wt_bypasses h < max_bypasses \<and>
     (case map_of fits (wt_request h) of None \<Rightarrow> True | Some ns \<Rightarrow> ns = [])"

lemma scan_heads_split:
  "\<exists>pre. hs = pre @ dropWhile (skippable fits nonfit mx) hs \<and> (\<forall>h \<in> set pre. skippable fits nonfit mx h) \<and>
     scan_heads fits nonfit mx blocked hs =
     scan_heads fits nonfit mx (blocked @ map wt_request pre) (dropWhile (skippable fits nonfit mx) hs)"
proof (induction hs arbitrary: blocked)
  case Nil
  then show ?case by (intro exI [of _ "[]"]) simp
next
  case (Cons h hs)
  show ?case
  proof (cases "skippable fits nonfit mx h")
    case True
    then have step: "scan_heads fits nonfit mx blocked (h # hs)
        = scan_heads fits nonfit mx (blocked @ [wt_request h]) hs"
      by (auto simp: skippable_def split: option.splits)
    obtain pre where "hs = pre @ dropWhile (skippable fits nonfit mx) hs"
      "\<forall>h \<in> set pre. skippable fits nonfit mx h"
      "scan_heads fits nonfit mx (blocked @ [wt_request h]) hs =
       scan_heads fits nonfit mx ((blocked @ [wt_request h]) @ map wt_request pre)
         (dropWhile (skippable fits nonfit mx) hs)"
      using Cons.IH by blast
    then show ?thesis using True step by (intro exI [of _ "h # pre"]) simp
  next
    case False
    then show ?thesis by (intro exI [of _ "[]"]) simp
  qed
qed

definition decision_order :: "int \<Rightarrow> int \<Rightarrow> (string \<times> int) list \<Rightarrow> waiter list \<Rightarrow> waiter list" where
  "decision_order now aging served ws =
     sort_key (across_owners now aging served) (owner_heads now aging ws)"

lemma choose_Inr:
  assumes "choose_waiter ws fits nonfit served now aging mx = Inr nm"
  shows "distinct (map wt_request ws)" "check_fits (map wt_request ws) fits nonfit served" "0 \<le> mx"
    "(\<exists>w \<in> set ws. nm = nominate Protect (Some (wt_request w)) \<and> wt_protected w = None \<and>
        0 < mx \<and> mx \<le> wt_bypasses w) \<or>
     ((\<forall>w \<in> set ws. \<not> (0 < mx \<and> mx \<le> wt_bypasses w \<and> wt_protected w = None)) \<and>
      nm = scan_heads fits nonfit mx [] (decision_order now aging served ws))"
proof -
  have c: "check_waiters now [] ws = None" "check_fits (map wt_request ws) fits nonfit served" "0 \<le> mx"
    using assms by (auto simp: choose_waiter_def int_in_def split: if_splits option.splits)
  then show "distinct (map wt_request ws)" "check_fits (map wt_request ws) fits nonfit served" "0 \<le> mx"
    by (auto simp: check_waiters_None)
  have mem: "set (missing_protection mx ws) =
      {w \<in> set ws. 0 < mx \<and> mx \<le> wt_bypasses w \<and> wt_protected w = None}"
    using groups_members [of ws] by (auto simp: missing_protection_def)
  show "(\<exists>w \<in> set ws. nm = nominate Protect (Some (wt_request w)) \<and> wt_protected w = None \<and>
        0 < mx \<and> mx \<le> wt_bypasses w) \<or>
     ((\<forall>w \<in> set ws. \<not> (0 < mx \<and> mx \<le> wt_bypasses w \<and> wt_protected w = None)) \<and>
      nm = scan_heads fits nonfit mx [] (decision_order now aging served ws))"
  proof (cases "first_min (\<lambda>w. (wt_enqueued w, wt_request w)) (missing_protection mx ws)")
    case (Some w)
    then have "w \<in> set (missing_protection mx ws)" by (rule first_min_in)
    moreover have "nm = nominate Protect (Some (wt_request w))"
      using assms c Some by (simp add: choose_waiter_def split: if_splits)
    ultimately show ?thesis using mem by blast
  next
    case None
    then have "set (missing_protection mx ws) = {}" by simp
    moreover have "nm = scan_heads fits nonfit mx [] (decision_order now aging served ws)"
      using assms c None by (simp add: choose_waiter_def decision_order_def split: if_splits)
    ultimately show ?thesis using mem by (intro disjI2 conjI) auto
  qed
qed

lemma decision_order_set:
  "distinct (map wt_request ws) \<Longrightarrow> set (decision_order now aging served ws) = {w. owner_head now aging ws w}"
  by (simp add: decision_order_def owner_heads_set)

lemma decision_order_sorted:
  "sorted (map (across_owners now aging served) (decision_order now aging served ws))"
  by (simp add: decision_order_def)

section \<open>Guarantees\<close>

text \<open>
  C35. An admission is fair: the admitted waiter is first among its owner's, goes to the first
  node of its own placement list, and everyone it passes is the head of another owner that
  precedes it, fits nowhere, is unprotected and still below the bypass limit; no preceding head
  is passed unrecorded. So a bypass counter never exceeds the limit and a protected waiter is never passed.
\<close>

theorem admission_never_passes_a_protected_waiter:
  assumes "choose_waiter ws fits nonfit served now aging mx = Inr nm" and "nm_action nm = Admit"
  shows "\<exists>h pre ns. nm_request nm = Some (wt_request h) \<and> owner_head now aging ws h \<and>
     wt_request h \<notin> set nonfit \<and>
     map_of fits (wt_request h) = Some ns \<and> ns \<noteq> [] \<and> nm_node nm = Some (hd ns) \<and>
     nm_bypassed nm = map wt_request pre \<and>
     (\<forall>b \<in> set pre. skippable fits nonfit mx b \<and> wt_bypasses b + 1 \<le> mx) \<and>
     set pre = {b. owner_head now aging ws b \<and>
                   across_owners now aging served b < across_owners now aging served h}"
proof -
  let ?D = "decision_order now aging served ws" and ?P = "skippable fits nonfit mx"
  note c = choose_Inr [OF assms(1)]
  have nm: "nm = scan_heads fits nonfit mx [] ?D"
    using c(4) assms(2) by (auto simp: nominate_def)
  obtain pre where pre: "?D = pre @ dropWhile ?P ?D" "\<forall>h \<in> set pre. ?P h"
    "nm = scan_heads fits nonfit mx (map wt_request pre) (dropWhile ?P ?D)"
    using scan_heads_split [of ?D fits nonfit mx "[]"] nm by auto
  obtain h rest where h: "dropWhile ?P ?D = h # rest"
    using pre(3) assms(2) by (cases "dropWhile ?P ?D") (auto simp: nominate_def)
  then have np: "\<not> ?P h" using hd_dropWhile [of ?P ?D] by simp
  obtain n ns where f: "map_of fits (wt_request h) = Some (n # ns)" "wt_request h \<notin> set nonfit"
    "nm_request nm = Some (wt_request h)" "nm_node nm = Some n" "nm_bypassed nm = map wt_request pre"
    using pre(3) assms(2) np unfolding h
    by (auto simp: nominate_def skippable_def split: if_splits option.splits list.splits)
  have D: "set ?D = {w. owner_head now aging ws w}" using decision_order_set [OF c(1)] .
  have dist: "distinct ?D" using owner_heads_distinct [OF c(1)] by (simp add: decision_order_def)
  have inj: "inj_on (across_owners now aging served) (set ?D)"
    using across_owners_inj [OF c(1), of "set ?D"] D by (auto simp: owner_head_def)
  have split: "?D = pre @ h # rest" using pre(1) h by simp
  have le: "across_owners now aging served b \<le> across_owners now aging served h" if "b \<in> set pre" for b
    using decision_order_sorted [of now aging served ws] that unfolding split by (auto simp: sorted_append)
  have ge: "across_owners now aging served h \<le> across_owners now aging served b" if "b \<in> set rest" for b
    using decision_order_sorted [of now aging served ws] that unfolding split by (auto simp: sorted_append)
  have lt: "across_owners now aging served b < across_owners now aging served h" if "b \<in> set pre" for b
  proof -
    have "b \<noteq> h" using dist that unfolding split by auto
    then have "across_owners now aging served b \<noteq> across_owners now aging served h"
      using inj_onD [OF inj, of b h] that split by auto
    then show ?thesis using le [OF that] by simp
  qed
  have "set pre = {b. owner_head now aging ws b \<and> across_owners now aging served b < across_owners now aging served h}"
    using lt ge D split by force
  moreover have "\<forall>b \<in> set pre. ?P b \<and> wt_bypasses b + 1 \<le> mx"
    using pre(2) by (auto simp: skippable_def)
  moreover have "owner_head now aging ws h" using D split by auto
  ultimately show ?thesis using f by (intro exI [of _ h] exI [of _ pre] exI [of _ "n # ns"]) simp
qed

text \<open>
  Protection is a queue: while some waiter is protected and no counter is at the limit
  without protection, the decision is about the waiter that is least in (protection order, queue
  time, request), nobody is bypassed for it, and it is admitted, reported as never fitting, or
  waited for.
\<close>

theorem protected_waiters_are_served_in_order:
  assumes "choose_waiter ws fits nonfit served now aging mx = Inr nm"
    and "\<And>w. w \<in> set ws \<Longrightarrow> wt_protected w = None \<Longrightarrow> mx = 0 \<or> wt_bypasses w < mx"
    and "v \<in> set ws" "wt_protected v \<noteq> None"
  shows "\<exists>h p. nm_request nm = Some (wt_request h) \<and> nm_action nm \<in> {Admit, Nonfit, Wait} \<and>
     nm_bypassed nm = [] \<and> h \<in> set ws \<and> wt_protected h = Some p \<and>
     (\<forall>w \<in> set ws. \<forall>q. wt_protected w = Some q \<longrightarrow>
        (p, wt_enqueued h, wt_request h) \<le> (q, wt_enqueued w, wt_request w))"
proof -
  let ?D = "decision_order now aging served ws" and ?A = "across_owners now aging served"
  note c = choose_Inr [OF assms(1)]
  have nm: "nm = scan_heads fits nonfit mx [] ?D"
  proof (rule disjE [OF c(4)])
    assume "\<exists>w \<in> set ws. nm = nominate Protect (Some (wt_request w)) \<and> wt_protected w = None \<and>
        0 < mx \<and> mx \<le> wt_bypasses w"
    then show ?thesis using assms(2) by fastforce
  qed blast
  have D: "set ?D = {w. owner_head now aging ws w}" using decision_order_set [OF c(1)] .
  have head: "\<exists>x. owner_head now aging ws x \<and> wt_owner x = wt_owner w \<and>
      within_owner now aging x \<le> within_owner now aging w" if w: "w \<in> set ws" for w
  proof -
    let ?G = "filter (\<lambda>u. wt_owner u = wt_owner w) ws"
    have "?G \<noteq> []" using w by (auto simp: filter_empty_conv)
    then obtain x where x: "first_min (within_owner now aging) ?G = Some x"
      using first_min_ex by blast
    then have "x \<in> set ?G" "\<forall>u \<in> set ?G. within_owner now aging x \<le> within_owner now aging u"
      using first_min_in first_min_le by metis+
    then show ?thesis using w by (intro exI [of _ x]) (auto simp: owner_head_def)
  qed
  have pk: "\<exists>x q'. owner_head now aging ws x \<and> wt_protected x = Some q' \<and>
      (q', wt_enqueued x, wt_request x) \<le> (q, wt_enqueued w, wt_request w)"
    if w: "w \<in> set ws" "wt_protected w = Some q" for w q
  proof -
    obtain x where x: "owner_head now aging ws x" "within_owner now aging x \<le> within_owner now aging w"
      using head [OF w(1)] by blast
    then show ?thesis
      using w(2) by (cases "wt_protected x") (auto simp: within_owner_def intro!: exI [of _ x])
  qed
  obtain h rest where h: "?D = h # rest"
  proof (cases ?D)
    case Nil
    then show thesis using D pk [OF assms(3)] assms(4) by auto
  qed blast
  have first: "?A h \<le> ?A x" if "owner_head now aging ws x" for x
  proof -
    have "x \<in> set ?D" using that D by blast
    then show ?thesis using decision_order_sorted [of now aging served ws] unfolding h by auto
  qed
  have "h \<in> set ?D" using h by simp
  then have hws: "h \<in> set ws" using D by (simp add: owner_head_def)
  obtain q where q: "wt_protected v = Some q" using assms(4) by blast
  obtain x q' where x: "owner_head now aging ws x" "wt_protected x = Some q'"
    using pk [OF assms(3) q] by blast
  obtain p where p: "wt_protected h = Some p"
    using first [OF x(1)] x(2) by (cases "wt_protected h") (auto simp: across_owners_def)
  have least: "(p, wt_enqueued h, wt_request h) \<le> (r, wt_enqueued w, wt_request w)"
    if w: "w \<in> set ws" "wt_protected w = Some r" for w r
  proof -
    obtain y s where y: "owner_head now aging ws y" "wt_protected y = Some s"
      "(s, wt_enqueued y, wt_request y) \<le> (r, wt_enqueued w, wt_request w)"
      using pk [OF w] by blast
    have "(p, wt_enqueued h, wt_request h) \<le> (s, wt_enqueued y, wt_request y)"
      using first [OF y(1)] y(2) p by (auto simp: across_owners_def)
    then show ?thesis using y(3) by (rule order_trans)
  qed
  have "nm_request nm = Some (wt_request h) \<and> nm_action nm \<in> {Admit, Nonfit, Wait} \<and> nm_bypassed nm = []"
    using p unfolding nm h by (auto simp: nominate_def split: option.splits list.splits)
  then show ?thesis using hws p least by blast
qed

text \<open>
  The decision does not depend on the order in which the waiters are listed.
\<close>

theorem nomination_ignores_listing_order:
  assumes "choose_waiter ws fits nonfit served now aging mx = Inr nm" and "mset vs = mset ws"
  shows "choose_waiter vs fits nonfit served now aging mx = Inr nm"
proof -
  have set: "set vs = set ws" using assms(2) by (metis set_mset_mset)
  have reqs: "mset (map wt_request vs) = mset (map wt_request ws)" using assms(2) by simp
  note d = choose_Inr(1) [OF assms(1)]
  then have dv: "distinct (map wt_request vs)" using reqs by (metis mset_eq_imp_distinct_iff)
  have checks: "check_waiters now [] ws = None" "int_in 1 (2 ^ 63 - 1) aging" "int_in 0 (2 ^ 63 - 1) mx"
    "check_fits (map wt_request ws) fits nonfit served"
    using assms(1) by (auto simp: choose_waiter_def split: if_splits option.splits)
  have "check_waiters now [] vs = None" using checks(1) dv set by (auto simp: check_waiters_None)
  moreover have "check_fits (map wt_request vs) fits nonfit served"
    using checks(4) set by (simp add: check_fits_def)
  moreover have "first_min (\<lambda>w. (wt_enqueued w, wt_request w)) (missing_protection mx vs)
      = first_min (\<lambda>w. (wt_enqueued w, wt_request w)) (missing_protection mx ws)"
  proof (rule first_min_set)
    have m: "set (missing_protection mx us) =
        {w \<in> set us. 0 < mx \<and> mx \<le> wt_bypasses w \<and> wt_protected w = None}" for us
      using groups_members [of us] by (auto simp: missing_protection_def)
    show "set (missing_protection mx vs) = set (missing_protection mx ws)" by (simp only: m set)
    have "inj_on wt_request (set (missing_protection mx ws))"
      using d m [of ws] by (auto simp: distinct_map intro: inj_on_subset)
    then show "inj_on (\<lambda>w. (wt_enqueued w, wt_request w)) (set (missing_protection mx ws))"
      by (auto simp: inj_on_def)
  qed
  moreover have "decision_order now aging served vs = decision_order now aging served ws"
  proof -
    have "set (owner_heads now aging vs) = set (owner_heads now aging ws)"
      using owner_heads_set [OF d] owner_heads_set [OF dv] by (simp add: owner_head_def set)
    then have "mset (owner_heads now aging vs) = mset (owner_heads now aging ws)"
      using owner_heads_distinct [OF d] owner_heads_distinct [OF dv] set_eq_iff_mset_eq_distinct by blast
    moreover have "inj_on (across_owners now aging served) (set (owner_heads now aging vs))"
      using across_owners_inj [OF dv] owner_heads_set [OF dv] by (auto simp: owner_head_def)
    ultimately show ?thesis
      unfolding decision_order_def
      by (intro sort_key_inj_key_eq) simp_all
  qed
  ultimately show ?thesis
    using assms(1) checks
    by (cases "first_min (\<lambda>w. (wt_enqueued w, wt_request w)) (missing_protection mx ws)")
      (simp_all add: choose_waiter_def decision_order_def)
qed

text \<open>
  Aging beats priority: a waiter that queued early enough, by one aging period for each
  point of priority it lacks plus one, outranks the later one at every later moment, so no
  stream of high-priority arrivals can starve it.
\<close>

theorem aging_beats_priority:
  assumes "0 < aging" and "wt_enqueued b \<le> now" and "wt_priority a \<le> wt_priority b"
    and "wt_enqueued a + aging * (wt_priority b - wt_priority a + 1) * 1000000 \<le> wt_enqueued b"
  shows "score now aging b < score now aging a"
proof -
  let ?k = "wt_priority b - wt_priority a + 1"
  have "age_seconds now b + aging * ?k \<le> age_seconds now a"
  proof -
    have "(now - wt_enqueued b) + (aging * ?k) * 1000000 \<le> now - wt_enqueued a" using assms(4) by simp
    then have "((now - wt_enqueued b) + (aging * ?k) * 1000000) div 1000000 \<le> (now - wt_enqueued a) div 1000000"
      by (intro zdiv_mono1) simp_all
    moreover have "((now - wt_enqueued b) + (aging * ?k) * 1000000) div 1000000
        = (now - wt_enqueued b) div 1000000 + aging * ?k" by simp
    ultimately show ?thesis by (simp add: age_seconds_def)
  qed
  then have "(age_seconds now b + aging * ?k) div aging \<le> age_seconds now a div aging"
    using assms(1) by (intro zdiv_mono1) simp_all
  moreover have "(age_seconds now b + aging * ?k) div aging = age_seconds now b div aging + ?k"
    using assms(1) by simp
  ultimately show ?thesis by (simp add: score_def)
qed

theorem aging_beats_priority_witness:
  "score 5000000000 10 \<lparr>wt_request = ''b'', wt_owner = ''o'', wt_enqueued = 4000000000, wt_priority = 3,
      wt_bypasses = 0, wt_protected = None\<rparr>
   < score 5000000000 10 \<lparr>wt_request = ''a'', wt_owner = ''o'', wt_enqueued = 0, wt_priority = 0,
      wt_bypasses = 0, wt_protected = None\<rparr>"
  by (rule aging_beats_priority) simp_all

text \<open>Three waiters of three owners; nothing fits the first, the second fits on one node.\<close>

definition demo_uuid :: "char \<Rightarrow> string" where
  "demo_uuid c = ''00000000-0000-0000-0000-00000000000'' @ [c]"

definition demo_waiter :: "char \<Rightarrow> string \<Rightarrow> int option \<Rightarrow> waiter" where
  "demo_waiter c owner p = \<lparr>wt_request = demo_uuid c, wt_owner = owner, wt_enqueued = 0,
     wt_priority = 0, wt_bypasses = 0, wt_protected = p\<rparr>"

definition demo_waiters :: "waiter list" where
  "demo_waiters = [demo_waiter CHR ''1'' ''a'' None, demo_waiter CHR ''2'' ''b'' None,
     demo_waiter CHR ''3'' ''c'' None]"

definition demo_admission :: nomination where
  "demo_admission = \<lparr>nm_action = Admit, nm_request = Some (demo_uuid CHR ''2''),
     nm_node = Some (demo_uuid CHR ''9''), nm_bypassed = [demo_uuid CHR ''1'']\<rparr>"

lemma demo_choice:
  "choose_waiter demo_waiters [(demo_uuid CHR ''2'', [demo_uuid CHR ''9''])] [] [] 1000000 60 2
   = Inr demo_admission"
  by code_simp

theorem admission_never_passes_a_protected_waiter_witness:
  "\<exists>h. nm_request demo_admission = Some (wt_request h) \<and> owner_head 1000000 60 demo_waiters h"
  using admission_never_passes_a_protected_waiter [OF demo_choice] by (auto simp: demo_admission_def)

theorem nomination_ignores_listing_order_witness:
  "choose_waiter (rev demo_waiters) [(demo_uuid CHR ''2'', [demo_uuid CHR ''9''])] [] [] 1000000 60 2
   = Inr demo_admission"
  by (rule nomination_ignores_listing_order [OF demo_choice]) simp

definition demo_protected :: "waiter list" where
  "demo_protected = [demo_waiter CHR ''1'' ''a'' None, demo_waiter CHR ''2'' ''b'' (Some 4),
     demo_waiter CHR ''3'' ''c'' (Some 2)]"

lemma demo_protected_choice:
  "choose_waiter demo_protected [(demo_uuid CHR ''1'', [demo_uuid CHR ''9''])] [] [] 1000000 60 2
   = Inr (nominate Wait (Some (demo_uuid CHR ''3'')))"
  by code_simp

theorem protected_waiters_are_served_in_order_witness:
  "\<exists>h p. wt_request h = demo_uuid CHR ''3'' \<and> h \<in> set demo_protected \<and> wt_protected h = Some p \<and> p \<le> 4"
proof -
  have w: "w \<in> set demo_protected \<Longrightarrow> wt_protected w = None \<Longrightarrow> 2 = 0 \<or> wt_bypasses w < 2" for w
    by (auto simp: demo_protected_def demo_waiter_def)
  have v: "demo_waiter CHR ''2'' ''b'' (Some 4) \<in> set demo_protected"
    "wt_protected (demo_waiter CHR ''2'' ''b'' (Some 4)) = Some 4"
    by (simp_all add: demo_protected_def demo_waiter_def)
  obtain h p where h: "nm_request (nominate Wait (Some (demo_uuid CHR ''3''))) = Some (wt_request h)"
    "h \<in> set demo_protected" "wt_protected h = Some p"
    "\<forall>w \<in> set demo_protected. \<forall>q. wt_protected w = Some q \<longrightarrow>
        (p, wt_enqueued h, wt_request h) \<le> (q, wt_enqueued w, wt_request w)"
    using protected_waiters_are_served_in_order [OF demo_protected_choice w v(1)] v(2) by blast
  then have "(p, wt_enqueued h, wt_request h) \<le> (4, wt_enqueued (demo_waiter CHR ''2'' ''b'' (Some 4)),
      wt_request (demo_waiter CHR ''2'' ''b'' (Some 4)))"
    using v by blast
  then have "p \<le> 4" by auto
  then show ?thesis using h(1-3) by (auto simp: nominate_def)
qed

end
