(* ===== verification/Resource_Accounting.thy ===== *)
theory Resource_Accounting
  imports Resource_Vector Resource_Fairness "HOL-Library.Sublist"
begin

text \<open>
  The occupancy accounting of \<^verbatim>\<open>src/shared/vm_resource_accounting.py\<close>: a validated inventory
  snapshot and the trusted reservation rows give, per node, what is charged in each category and
  what is still available. The snapshot's dictionaries are records; the dictionaries the function
  builds by identifier are maps, where a later entry replaces an earlier one.
\<close>

section \<open>Inputs\<close>

datatype rstate = Reserved | Active | Warm | Teardown | Released

record reservation =
  rv_id :: string
  rv_node_uid :: string
  rv_node_name :: string
  rv_owner_kind :: string
  rv_owner_id :: string
  rv_generation :: string
  rv_vector :: rvec
  rv_state :: rstate
  rv_vm :: "string option"
  rv_vmi :: "string option"
  rv_launcher :: "string option"
  rv_version :: int
  rv_high_water :: "rvec option"

definition py_space :: "char \<Rightarrow> bool" where
  "py_space c \<longleftrightarrow> (of_char c :: nat) \<in> {9, 10, 11, 12, 13, 28, 29, 30, 31, 32, 133, 160}"

definition trimmed :: "string \<Rightarrow> bool" where
  "trimmed s \<longleftrightarrow> s = [] \<or> \<not> py_space (hd s) \<and> \<not> py_space (last s)"

definition reservation_valid :: "reservation \<Rightarrow> bool" where
  "reservation_valid r \<longleftrightarrow>
     canonical_uuid (rv_id r) \<and> canonical_uuid (rv_node_uid r) \<and> canonical_uuid (rv_owner_id r) \<and>
     canonical_uuid (rv_generation r) \<and>
     (\<forall>o' \<in> {rv_vm r, rv_vmi r, rv_launcher r}. case o' of None \<Rightarrow> True | Some u \<Rightarrow> canonical_uuid u) \<and>
     rv_owner_kind r \<in> {''job'', ''thread''} \<and> valid_vec (rv_vector r) \<and>
     rv_version r \<in> {1, 2} \<and>
     (case rv_high_water r of None \<Rightarrow> True | Some v \<Rightarrow> valid_vec v \<and> rv_version r \<noteq> 1) \<and>
     1 \<le> length (rv_node_name r) \<and> length (rv_node_name r) \<le> 253 \<and> trimmed (rv_node_name r)"

record node =
  nd_uid :: string
  nd_name :: string
  nd_allocatable :: rvec

record pod =
  pd_uid :: string
  pd_terminal :: bool
  pd_vmi :: "string option"
  pd_reservation :: "string option"
  pd_generation :: "string option"
  pd_node_uid :: "string option"
  pd_node_name :: "string option"
  pd_requests :: rvec

record vmi =
  vi_uid :: string
  vi_name :: string
  vi_vm :: "string option"
  vi_node_uid :: "string option"
  vi_node_name :: "string option"

record vm =
  vm_uid :: string
  vm_name :: string
  vm_owner_kind :: "string option"
  vm_owner_id :: "string option"
  vm_generation :: "string option"

record snapshot =
  sn_complete :: bool
  sn_protocol :: int
  sn_nodes :: "node list"
  sn_pods :: "pod list"
  sn_vmis :: "vmi list"
  sn_vms :: "vm list"

text \<open>\<^verbatim>\<open>{key(x): x for x in xs}\<close>\<close>

definition by_key :: "('a \<Rightarrow> string) \<Rightarrow> 'a list \<Rightarrow> string \<Rightarrow> 'a option" where
  "by_key key xs k = find_by key k (rev xs)"

section \<open>Categories and charges\<close>

datatype category = Unbound | Bound_Reserved | Active_C | Warm_C | Teardown_C

fun present :: "string option \<Rightarrow> bool" where
  "present None = False"
| "present (Some s) = (s \<noteq> [])"

fun reservation_category ::
  "rstate \<Rightarrow> string option \<Rightarrow> string option \<Rightarrow> string option \<Rightarrow> category option" where
  "reservation_category Reserved v i l =
     Some (if present v \<and> present i \<and> present l then Bound_Reserved else Unbound)"
| "reservation_category Active v i l = Some Active_C"
| "reservation_category Warm v i l = Some Warm_C"
| "reservation_category Teardown v i l = Some Teardown_C"
| "reservation_category Released v i l = None"

record charges =
  ch_external :: rvec
  ch_unbound :: rvec
  ch_bound :: rvec
  ch_active :: rvec
  ch_warm :: rvec
  ch_teardown :: rvec

definition no_charges :: charges where
  "no_charges = \<lparr>ch_external = 0, ch_unbound = 0, ch_bound = 0, ch_active = 0, ch_warm = 0, ch_teardown = 0\<rparr>"

fun charge_in :: "category \<Rightarrow> charges \<Rightarrow> rvec" where
  "charge_in Unbound c = ch_unbound c"
| "charge_in Bound_Reserved c = ch_bound c"
| "charge_in Active_C c = ch_active c"
| "charge_in Warm_C c = ch_warm c"
| "charge_in Teardown_C c = ch_teardown c"

fun set_charge :: "category \<Rightarrow> rvec \<Rightarrow> charges \<Rightarrow> charges" where
  "set_charge Unbound v c = c\<lparr>ch_unbound := v\<rparr>"
| "set_charge Bound_Reserved v c = c\<lparr>ch_bound := v\<rparr>"
| "set_charge Active_C v c = c\<lparr>ch_active := v\<rparr>"
| "set_charge Warm_C v c = c\<lparr>ch_warm := v\<rparr>"
| "set_charge Teardown_C v c = c\<lparr>ch_teardown := v\<rparr>"

section \<open>The reservation pass\<close>

definition exact_launcher :: "snapshot \<Rightarrow> reservation \<Rightarrow> pod option \<Rightarrow> bool" where
  "exact_launcher s r p =
     (case p of None \<Rightarrow> False
      | Some p \<Rightarrow>
          \<not> pd_terminal p \<and>
          (case Option.bind (rv_vmi r) (by_key vi_uid (sn_vmis s)) of None \<Rightarrow> False
           | Some i \<Rightarrow>
             (case Option.bind (rv_vm r) (by_key vm_uid (sn_vms s)) of None \<Rightarrow> False
              | Some m \<Rightarrow>
                Some (pd_uid p) = rv_launcher r \<and> pd_vmi p = rv_vmi r \<and>
                pd_reservation p = Some (rv_id r) \<and> pd_generation p = Some (rv_generation r) \<and>
                pd_node_uid p = Some (rv_node_uid r) \<and> pd_node_name p = Some (rv_node_name r) \<and>
                vi_vm i = rv_vm r \<and> vi_node_uid i = Some (rv_node_uid r) \<and>
                vi_node_name i = Some (rv_node_name r) \<and>
                vm_owner_kind m = Some (rv_owner_kind r) \<and> vm_owner_id m = Some (rv_owner_id r) \<and>
                vm_generation m = Some (rv_generation r))))"

record ledger =
  lg_charges :: "string \<Rightarrow> charges" \<comment> \<open>by node uid\<close>
  lg_seen :: "string list"
  lg_launchers :: "string list"
  lg_vms :: "string list"
  lg_vmis :: "string list"
  lg_generations :: "(string \<times> string \<times> string) list"
  lg_excluded :: "string list"
  lg_blocked :: "string list"
  lg_orphaned :: "(string \<times> rvec) list"
  lg_by_vm :: "(string \<times> reservation) list"

definition empty_ledger :: ledger where
  "empty_ledger = \<lparr>lg_charges = (\<lambda>_. no_charges), lg_seen = [], lg_launchers = [], lg_vms = [],
     lg_vmis = [], lg_generations = [], lg_excluded = [], lg_blocked = [], lg_orphaned = [],
     lg_by_vm = []\<rparr>"

definition among :: "string option \<Rightarrow> string list \<Rightarrow> bool" where
  "among o' xs = (case o' of None \<Rightarrow> False | Some x \<Rightarrow> x \<in> set xs)"

definition push :: "string option \<Rightarrow> string list \<Rightarrow> string list" where
  "push o' xs = (case o' of None \<Rightarrow> xs | Some x \<Rightarrow> x # xs)"

definition generation_key :: "reservation \<Rightarrow> string \<times> string \<times> string" where
  "generation_key r = (rv_owner_kind r, rv_owner_id r, rv_generation r)"

definition register :: "reservation \<Rightarrow> ledger \<Rightarrow> ledger" where
  "register r l =
     l\<lparr>lg_seen := rv_id r # lg_seen l,
       lg_generations := generation_key r # lg_generations l,
       lg_vms := push (rv_vm r) (lg_vms l),
       lg_by_vm := (case rv_vm r of None \<Rightarrow> lg_by_vm l | Some u \<Rightarrow> (u, r) # lg_by_vm l),
       lg_vmis := push (rv_vmi r) (lg_vmis l),
       lg_launchers := push (rv_launcher r) (lg_launchers l)\<rparr>"

definition conflicts :: "reservation \<Rightarrow> ledger \<Rightarrow> bool" where
  "conflicts r l \<longleftrightarrow>
     rv_id r \<in> set (lg_seen l) \<or> among (rv_launcher r) (lg_launchers l) \<or>
     among (rv_vm r) (lg_vms l) \<or> among (rv_vmi r) (lg_vmis l) \<or>
     generation_key r \<in> set (lg_generations l)"

definition reserved_charge :: "reservation \<Rightarrow> reason + rvec" where
  "reserved_charge r =
     (case rv_high_water r of None \<Rightarrow> Inr (rv_vector r) | Some w \<Rightarrow> max_vec (rv_vector r) w)"

definition charge_node ::
  "snapshot \<Rightarrow> reservation \<Rightarrow> rvec \<Rightarrow> ledger \<Rightarrow> reason + ledger" where
  "charge_node s r charge l =
     (let p = Option.bind (rv_launcher r) (by_key pd_uid (sn_pods s));
          exact = exact_launcher s r p
      in bind_ok (if exact then bind_ok (make_vec (pd_requests (the p))) (max_vec charge) else Inr charge)
        (\<lambda>c. case reservation_category (rv_state r) (rv_vm r) (rv_vmi r) (rv_launcher r) of
               None \<Rightarrow> Inl ''key_error''
             | Some cat \<Rightarrow>
                 map_ok (\<lambda>total. l\<lparr>lg_charges := (lg_charges l)(rv_node_uid r :=
                                    set_charge cat total (lg_charges l (rv_node_uid r))),
                                 lg_excluded := (if exact then pd_uid (the p) # lg_excluded l
                                                 else lg_excluded l)\<rparr>)
                   (add_vec (charge_in cat (lg_charges l (rv_node_uid r))) c)))"

definition account_reservation :: "snapshot \<Rightarrow> reservation \<Rightarrow> ledger \<Rightarrow> reason + ledger" where
  "account_reservation s r l =
     (if rv_state r = Released then Inr l
      else if (sn_protocol s = 2 \<and> rv_version r \<noteq> 2) \<or> (sn_protocol s = 1 \<and> rv_version r \<noteq> 1)
      then Inl ''legacy_occupancy_unclassified''
      else if conflicts r l then Inl ''reservation_identity_conflict''
      else bind_ok (reserved_charge r)
        (\<lambda>charge.
           case by_key nd_uid (sn_nodes s) (rv_node_uid r) of
             None \<Rightarrow>
               Inr ((register r l)\<lparr>lg_orphaned := (rv_id r, charge) # lg_orphaned l,
                                  lg_blocked := rv_node_name r # lg_blocked l\<rparr>)
           | Some n \<Rightarrow>
               if nd_name n \<noteq> rv_node_name r then Inl ''reservation_node_identity''
               else charge_node s r charge (register r l)))"

fun account_reservations :: "snapshot \<Rightarrow> reservation list \<Rightarrow> ledger \<Rightarrow> reason + ledger" where
  "account_reservations s [] l = Inr l"
| "account_reservations s (r # rs) l =
     bind_ok (account_reservation s r l) (account_reservations s rs)"

section \<open>Classification under protocol 2\<close>

fun classify_vms ::
  "(string \<times> reservation) list \<Rightarrow> vm list \<Rightarrow> (string \<times> reservation) list \<times> (string \<times> string) list
   \<Rightarrow> reason + (string \<times> reservation) list \<times> (string \<times> string) list" where
  "classify_vms held [] acc = Inr acc"
| "classify_vms held (m # ms) (attr, names) =
     (if vm_owner_kind m \<noteq> Some ''job'' \<and> vm_owner_kind m \<noteq> Some ''thread'' then
        (if prefix ''agent-vm-'' (vm_name m) \<and> \<not> prefix ''agent-vm-golden-'' (vm_name m)
         then Inl ''legacy_occupancy_unclassified''
         else classify_vms held ms (attr, names))
      else (case map_of held (vm_uid m) of
          None \<Rightarrow> Inl ''legacy_occupancy_unclassified''
        | Some r \<Rightarrow>
            if rv_version r \<noteq> 2 \<or> Some (rv_owner_kind r) \<noteq> vm_owner_kind m \<or>
               Some (rv_owner_id r) \<noteq> vm_owner_id m \<or> Some (rv_generation r) \<noteq> vm_generation m
            then Inl ''legacy_occupancy_unclassified''
            else classify_vms held ms ((vm_uid m, r) # attr, (vm_name m, vm_uid m) # names)))"

fun classify_vmis ::
  "(string \<times> reservation) list \<Rightarrow> (string \<times> string) list \<Rightarrow> vmi list \<Rightarrow> (string \<times> reservation) list
   \<Rightarrow> reason + (string \<times> reservation) list" where
  "classify_vmis attr names [] acc = Inr acc"
| "classify_vmis attr names (i # is) acc =
     (if (case map_of names (vi_name i) of None \<Rightarrow> False | Some u \<Rightarrow> vi_vm i \<noteq> Some u)
      then Inl ''legacy_occupancy_unclassified''
      else (case Option.bind (vi_vm i) (map_of attr) of
          None \<Rightarrow> classify_vmis attr names is acc
        | Some r \<Rightarrow>
            if rv_vmi r \<noteq> Some (vi_uid i) \<or>
               (vi_node_uid i \<noteq> None \<and>
                (Some (rv_node_uid r) \<noteq> vi_node_uid i \<or> Some (rv_node_name r) \<noteq> vi_node_name i))
            then Inl ''legacy_occupancy_unclassified''
            else classify_vmis attr names is ((vi_uid i, r) # acc)))"

fun classify_pods ::
  "snapshot \<Rightarrow> (string \<times> reservation) list \<Rightarrow> pod list \<Rightarrow> reason + unit" where
  "classify_pods s attr [] = Inr ()"
| "classify_pods s attr (p # ps) =
     (if pd_terminal p then classify_pods s attr ps
      else (case Option.bind (pd_vmi p) (map_of attr) of
          Some r \<Rightarrow>
            if exact_launcher s r (Some p) then classify_pods s attr ps
            else Inl ''legacy_occupancy_unclassified''
        | None \<Rightarrow>
            if pd_reservation p \<noteq> None \<or> pd_generation p \<noteq> None
            then Inl ''legacy_occupancy_unclassified''
            else classify_pods s attr ps))"

definition classify :: "snapshot \<Rightarrow> ledger \<Rightarrow> reason + unit" where
  "classify s l =
     (if sn_protocol s \<noteq> 2 then Inr ()
      else bind_ok (classify_vms (lg_by_vm l) (sn_vms s) ([], []))
        (\<lambda>(attr, names). bind_ok (classify_vmis attr names (sn_vmis s) [])
          (\<lambda>attr_vmis. classify_pods s attr_vmis (sn_pods s))))"

section \<open>The Pod pass and the nodes\<close>

fun charge_pods ::
  "snapshot \<Rightarrow> string list \<Rightarrow> pod list \<Rightarrow> (string \<Rightarrow> charges) \<times> rvec
   \<Rightarrow> reason + (string \<Rightarrow> charges) \<times> rvec" where
  "charge_pods s excluded [] acc = Inr acc"
| "charge_pods s excluded (p # ps) (ch, pending) =
     (if pd_terminal p \<or> pd_uid p \<in> set excluded then charge_pods s excluded ps (ch, pending)
      else bind_ok (make_vec (pd_requests p))
        (\<lambda>request.
          case pd_node_uid p of
            None \<Rightarrow> bind_ok (add_vec pending request) (\<lambda>q. charge_pods s excluded ps (ch, q))
          | Some u \<Rightarrow>
              (case by_key nd_uid (sn_nodes s) u of
                 None \<Rightarrow> Inl ''inventory_node_identity''
               | Some n \<Rightarrow>
                   if Some (nd_name n) \<noteq> pd_node_name p then Inl ''inventory_node_identity''
                   else bind_ok (add_vec (ch_external (ch u)) request)
                     (\<lambda>e. charge_pods s excluded ps (ch(u := (ch u)\<lparr>ch_external := e\<rparr>), pending)))))"

record node_accounting =
  na_allocatable :: rvec
  na_headroom :: rvec
  na_charges :: charges
  na_available :: rvec
  na_shortfall :: rvec
  na_blocked :: "string option"

record inventory_accounting =
  ia_nodes :: "(string \<times> node_accounting) list"
  ia_orphaned :: "(string \<times> rvec) list"
  ia_pending :: rvec

definition charge_values :: "charges \<Rightarrow> rvec list" where
  "charge_values c =
     [ch_external c, ch_unbound c, ch_bound c, ch_active c, ch_warm c, ch_teardown c]"

fun add_all :: "rvec \<Rightarrow> rvec list \<Rightarrow> reason + rvec" where
  "add_all acc [] = Inr acc"
| "add_all acc (v # vs) = bind_ok (add_vec acc v) (\<lambda>a. add_all a vs)"

definition account_node ::
  "rvec \<Rightarrow> string list \<Rightarrow> (string \<Rightarrow> charges) \<Rightarrow> node \<Rightarrow> reason + node_accounting" where
  "account_node headroom blocked ch n =
     bind_ok (make_vec (nd_allocatable n)) (\<lambda>allocatable.
       bind_ok (add_all headroom (charge_values (ch (nd_uid n)))) (\<lambda>occupied.
         bind_ok (make_vec (map2_vec (\<lambda>a b. max 0 (a - b)) allocatable occupied)) (\<lambda>available.
           map_ok (\<lambda>shortfall.
               \<lparr>na_allocatable = allocatable, na_headroom = headroom, na_charges = ch (nd_uid n),
                na_available = (if nd_name n \<in> set blocked then 0 else available),
                na_shortfall = shortfall,
                na_blocked = (if nd_name n \<in> set blocked then Some ''prior_node_identity_held''
                              else None)\<rparr>)
             (make_vec (map2_vec (\<lambda>a b. max 0 (b - a)) allocatable occupied)))))"

fun account_nodes ::
  "rvec \<Rightarrow> string list \<Rightarrow> (string \<Rightarrow> charges) \<Rightarrow> node list \<Rightarrow> reason + (string \<times> node_accounting) list" where
  "account_nodes headroom blocked ch [] = Inr []"
| "account_nodes headroom blocked ch (n # ns) =
     bind_ok (account_node headroom blocked ch n)
       (\<lambda>a. map_ok (\<lambda>as. (nd_uid n, a) # as) (account_nodes headroom blocked ch ns))"

text \<open>The values of \<^verbatim>\<open>{node["uid"]: node for node in ...}\<close>, in the dictionary's order.\<close>

definition dict_nodes :: "snapshot \<Rightarrow> node list" where
  "dict_nodes s =
     List.map_filter (by_key nd_uid (sn_nodes s)) (rev (remdups (rev (map nd_uid (sn_nodes s)))))"

definition account_inventory ::
  "snapshot \<Rightarrow> reservation list \<Rightarrow> rvec \<Rightarrow> reason + inventory_accounting" where
  "account_inventory s rs headroom =
     (if \<not> sn_complete s then Inl ''inventory_incomplete''
      else bind_ok (account_reservations s rs empty_ledger) (\<lambda>l.
        bind_ok (classify s l) (\<lambda>_.
          bind_ok (charge_pods s (lg_excluded l) (sn_pods s) (lg_charges l, 0)) (\<lambda>(ch, pending).
            map_ok (\<lambda>ns. \<lparr>ia_nodes = ns, ia_orphaned = lg_orphaned l, ia_pending = pending\<rparr>)
              (account_nodes headroom (lg_blocked l) ch (dict_nodes s))))))"

definition held_total :: "node_accounting \<Rightarrow> reason + rvec" where
  "held_total a =
     add_all (ch_unbound (na_charges a))
       [ch_bound (na_charges a), ch_active (na_charges a), ch_warm (na_charges a),
        ch_teardown (na_charges a)]"

end
