(* ===== verification/Resource_Conservation.thy ===== *)
theory Resource_Conservation
  imports Resource_Accounting
begin

text \<open>
  The occupancy accounting never loses demand: held reservations and running Pods are charged, an
  identity is held once, and what a node still offers never exceeds what is physically free.
\<close>

section \<open>What is owed\<close>

definition held :: "reservation \<Rightarrow> bool" where
  "held r \<longleftrightarrow> rv_state r \<noteq> Released"

definition category_of :: "reservation \<Rightarrow> category option" where
  "category_of r = reservation_category (rv_state r) (rv_vm r) (rv_vmi r) (rv_launcher r)"

definition launcher_pod :: "snapshot \<Rightarrow> reservation \<Rightarrow> pod option" where
  "launcher_pod s r = Option.bind (rv_launcher r) (by_key pd_uid (sn_pods s))"

definition base_due :: "reservation \<Rightarrow> rvec" where
  "base_due r = (case rv_high_water r of None \<Rightarrow> rv_vector r | Some w \<Rightarrow> sup_vec (rv_vector r) w)"

definition due :: "snapshot \<Rightarrow> reservation \<Rightarrow> rvec" where
  "due s r =
     (if exact_launcher s r (launcher_pod s r)
      then sup_vec (base_due r) (pd_requests (the (launcher_pod s r))) else base_due r)"

definition owed :: "snapshot \<Rightarrow> category \<Rightarrow> string \<Rightarrow> reservation list \<Rightarrow> rvec" where
  "owed s cat u rs =
     (\<Sum>r \<leftarrow> filter (\<lambda>r. held r \<and> rv_node_uid r = u \<and> category_of r = Some cat) rs. due s r)"

lemma owed_simps [simp]:
  "owed s cat u [] = 0"
  "owed s cat u (r # rs) =
     (if held r \<and> rv_node_uid r = u \<and> category_of r = Some cat then due s r else 0) + owed s cat u rs"
  by (simp_all add: owed_def)

lemma due_covers: "rv_vector r \<le> due s r"
  by (auto simp: due_def base_due_def intro: order_trans sup_vec_upper split: option.splits)

lemma charge_set_charge:
  "charge_in cat (set_charge cat' v c) = (if cat = cat' then v else charge_in cat c)"
  by (cases cat; cases cat') simp_all

lemma set_charge_external [simp]: "ch_external (set_charge cat v c) = ch_external c"
  by (cases cat) simp_all

lemma register_fields [simp]:
  "lg_charges (register r l) = lg_charges l" "lg_excluded (register r l) = lg_excluded l"
  "lg_blocked (register r l) = lg_blocked l" "lg_orphaned (register r l) = lg_orphaned l"
  by (simp_all add: register_def)

section \<open>One reservation\<close>

lemma max_vec_Inr: "max_vec v w = Inr u \<longleftrightarrow> u = sup_vec v w \<and> valid_vec (sup_vec v w)"
  by (auto simp: max_vec_def make_vec_Inr sup_vec_def)

lemma reserved_charge_Inr: "reserved_charge r = Inr c \<Longrightarrow> c = base_due r"
  by (auto simp: reserved_charge_def base_due_def max_vec_Inr split: option.splits)

lemma charge_node_effect:
  assumes "charge_node s r (base_due r) l = Inr l'"
  obtains cat where
    "category_of r = Some cat"
    "l' = l\<lparr>lg_charges := (lg_charges l)(rv_node_uid r :=
               set_charge cat (charge_in cat (lg_charges l (rv_node_uid r)) + due s r)
                 (lg_charges l (rv_node_uid r))),
           lg_excluded := (if exact_launcher s r (launcher_pod s r)
             then pd_uid (the (launcher_pod s r)) # lg_excluded l else lg_excluded l)\<rparr>"
proof -
  let ?p = "launcher_pod s r" and ?c = "lg_charges l (rv_node_uid r)"
  obtain c' cat where c': "(if exact_launcher s r ?p
        then bind_ok (make_vec (pd_requests (the ?p))) (max_vec (base_due r)) else Inr (base_due r)) = Inr c'"
    and cat: "category_of r = Some cat"
    and l': "l' = l\<lparr>lg_charges := (lg_charges l)(rv_node_uid r := set_charge cat (charge_in cat ?c + c') ?c),
        lg_excluded := (if exact_launcher s r ?p then pd_uid (the ?p) # lg_excluded l else lg_excluded l)\<rparr>"
    using assms unfolding charge_node_def Let_def launcher_pod_def [symmetric] category_of_def [symmetric]
    by (cases "category_of r") (auto simp: bind_ok_Inr map_ok_Inr add_vec_Inr)
  have "c' = due s r"
    using c' by (auto simp: bind_ok_Inr make_vec_Inr max_vec_Inr due_def split: if_splits)
  then show thesis using cat l' by (intro that [of cat]) simp_all
qed

lemma account_reservation_cases:
  assumes "account_reservation s r l = Inr l'"
  obtains (released) "\<not> held r" "l' = l"
  | (orphan) c where "held r" "\<not> conflicts r l" "by_key nd_uid (sn_nodes s) (rv_node_uid r) = None"
      "reserved_charge r = Inr c"
      "l' = (register r l)\<lparr>lg_orphaned := (rv_id r, c) # lg_orphaned l,
                           lg_blocked := rv_node_name r # lg_blocked l\<rparr>"
  | (charged) n c where "held r" "\<not> conflicts r l" "by_key nd_uid (sn_nodes s) (rv_node_uid r) = Some n"
      "nd_name n = rv_node_name r" "reserved_charge r = Inr c" "charge_node s r c (register r l) = Inr l'"
  using assms unfolding account_reservation_def held_def
  by (auto simp: bind_ok_Inr split: if_splits option.splits)

section \<open>The reservation pass\<close>

definition exact_uid :: "snapshot \<Rightarrow> reservation \<Rightarrow> string \<Rightarrow> bool" where
  "exact_uid s r u \<longleftrightarrow>
     held r \<and> rv_node_uid r \<in> nd_uid ` set (sn_nodes s) \<and>
     (\<exists>p. launcher_pod s r = Some p \<and> pd_uid p = u \<and> exact_launcher s r (Some p))"

definition pass_step :: "snapshot \<Rightarrow> reservation list \<Rightarrow> ledger \<Rightarrow> ledger \<Rightarrow> bool" where
  "pass_step s rs l l' \<longleftrightarrow>
     (\<forall>u cat. charge_in cat (lg_charges l' u) =
        charge_in cat (lg_charges l u) + (if u \<in> nd_uid ` set (sn_nodes s) then owed s cat u rs else 0)) \<and>
     (\<forall>u. ch_external (lg_charges l' u) = ch_external (lg_charges l u)) \<and>
     (\<forall>r \<in> set rs. held r \<longrightarrow> rv_node_uid r \<notin> nd_uid ` set (sn_nodes s) \<longrightarrow>
        (rv_id r, base_due r) \<in> set (lg_orphaned l') \<and> rv_node_name r \<in> set (lg_blocked l')) \<and>
     set (lg_orphaned l) \<subseteq> set (lg_orphaned l') \<and> set (lg_blocked l) \<subseteq> set (lg_blocked l') \<and>
     set (lg_excluded l') = set (lg_excluded l) \<union> {u. \<exists>r \<in> set rs. exact_uid s r u}"

lemma by_key_None: "by_key key xs k = None \<longleftrightarrow> k \<notin> key ` set xs"
  by (simp add: by_key_def find_by_None)

lemma by_key_Some: "by_key key xs k = Some x \<Longrightarrow> x \<in> set xs \<and> key x = k"
  unfolding by_key_def using find_by_Some_set find_by_Some_key by fastforce

lemma exact_launcher_pod: "exact_launcher s r p \<Longrightarrow> \<exists>q. p = Some q"
  by (simp add: exact_launcher_def split: option.splits)

lemma one_reservation:
  assumes "account_reservation s r l = Inr l'"
  shows "pass_step s [r] l l'"
  using assms
proof (cases rule: account_reservation_cases)
  case released
  then show ?thesis by (auto simp: pass_step_def exact_uid_def)
next
  case (orphan c)
  then show ?thesis
    by (auto simp: pass_step_def exact_uid_def by_key_None dest!: reserved_charge_Inr)
next
  case (charged n c)
  have known: "rv_node_uid r \<in> nd_uid ` set (sn_nodes s)"
    using by_key_Some [OF charged(3)] by (metis imageI)
  have "charge_node s r (base_due r) (register r l) = Inr l'"
    using charged by (auto dest!: reserved_charge_Inr)
  then show ?thesis
  proof (rule charge_node_effect)
    fix cat
    assume "category_of r = Some cat" and
      "l' = (register r l)\<lparr>lg_charges := (lg_charges (register r l))(rv_node_uid r :=
               set_charge cat (charge_in cat (lg_charges (register r l) (rv_node_uid r)) + due s r)
                 (lg_charges (register r l) (rv_node_uid r))),
           lg_excluded := (if exact_launcher s r (launcher_pod s r)
             then pd_uid (the (launcher_pod s r)) # lg_excluded (register r l) else lg_excluded (register r l))\<rparr>"
    then show "pass_step s [r] l l'"
      using known charged(1) exact_launcher_pod [of s r "launcher_pod s r"]
      by (auto simp: pass_step_def charge_set_charge exact_uid_def)
  qed
qed

lemma reservation_pass:
  assumes "account_reservations s rs l = Inr l'"
  shows "pass_step s rs l l'"
  using assms
proof (induction rs arbitrary: l)
  case Nil
  then show ?case by (simp add: pass_step_def)
next
  case (Cons r rs)
  then obtain k where k: "account_reservation s r l = Inr k" "account_reservations s rs k = Inr l'"
    by (auto simp: bind_ok_Inr)
  have "pass_step s [r] l k" "pass_step s rs k l'"
    using k Cons by (simp_all add: one_reservation)
  then show ?case unfolding pass_step_def by (auto simp: add.assoc)
qed

section \<open>The Pod pass and the nodes\<close>

definition pods_on :: "string list \<Rightarrow> string option \<Rightarrow> pod list \<Rightarrow> rvec" where
  "pods_on ex u ps =
     (\<Sum>p \<leftarrow> filter (\<lambda>p. \<not> pd_terminal p \<and> pd_uid p \<notin> set ex \<and> pd_node_uid p = u) ps. pd_requests p)"

lemma pods_on_simps [simp]:
  "pods_on ex u [] = 0"
  "pods_on ex u (p # ps) =
     (if \<not> pd_terminal p \<and> pd_uid p \<notin> set ex \<and> pd_node_uid p = u then pd_requests p else 0) + pods_on ex u ps"
  by (simp_all add: pods_on_def)

lemma pod_pass:
  assumes "charge_pods s ex ps (ch, q) = Inr (ch', q')"
  shows "charge_in cat (ch' u) = charge_in cat (ch u)"
    and "ch_external (ch' u) = ch_external (ch u) + pods_on ex (Some u) ps"
    and "q' = q + pods_on ex None ps"
proof -
  have "charge_in cat (ch' u) = charge_in cat (ch u) \<and>
      ch_external (ch' u) = ch_external (ch u) + pods_on ex (Some u) ps \<and> q' = q + pods_on ex None ps"
    using assms
  proof (induction ps arbitrary: ch q)
    case (Cons p ps)
    show ?case
    proof (cases "pd_terminal p \<or> pd_uid p \<in> set ex")
      case True
      then show ?thesis using Cons by auto
    next
      case False
      show ?thesis
      proof (cases "pd_node_uid p")
        case None
        then show ?thesis
          using False Cons.prems Cons.IH [of ch "q + pd_requests p"]
          by (auto simp: bind_ok_Inr make_vec_Inr add_vec_Inr add.assoc)
      next
        case (Some w)
        have set_ext: "charge_in cat (c\<lparr>ch_external := v\<rparr>) = charge_in cat c" for c v
          by (cases cat) simp_all
        have "charge_pods s ex ps
            (ch(w := (ch w)\<lparr>ch_external := ch_external (ch w) + pd_requests p\<rparr>), q) = Inr (ch', q')"
          using False Some Cons.prems
          by (auto simp: bind_ok_Inr make_vec_Inr add_vec_Inr split: option.splits if_splits)
        from Cons.IH [OF this] show ?thesis
          using False Some by (auto simp: add.assoc set_ext)
      qed
    qed
  qed simp
  then show "charge_in cat (ch' u) = charge_in cat (ch u)"
    "ch_external (ch' u) = ch_external (ch u) + pods_on ex (Some u) ps" "q' = q + pods_on ex None ps"
    by blast+
qed

lemma add_all_Inr: "add_all acc vs = Inr r \<Longrightarrow> r = acc + sum_list vs"
proof (induction vs arbitrary: acc)
  case (Cons v vs)
  then show ?case using Cons.IH [of "acc + v"] by (simp add: bind_ok_Inr add_vec_Inr add.assoc)
qed simp

definition occupied :: "node_accounting \<Rightarrow> rvec" where
  "occupied a = na_headroom a + sum_list (charge_values (na_charges a))"

lemma cut_sum: "map2_vec (\<lambda>a b. max 0 (a - b)) v w + w = v + map2_vec (\<lambda>a b. max 0 (b - a)) v w"
  by (cases v; cases w) (auto simp: vec_simps)

lemma account_node_Inr:
  assumes "account_node hr blocked ch n = Inr a"
  shows "na_charges a = ch (nd_uid n)" "na_allocatable a = nd_allocatable n" "na_headroom a = hr"
    "na_blocked a = None \<longleftrightarrow> nd_name n \<notin> set blocked"
    "na_blocked a \<noteq> None \<Longrightarrow> na_available a = 0"
    "na_blocked a = None \<Longrightarrow> na_available a + occupied a = na_allocatable a + na_shortfall a"
    "0 \<le> na_available a" "0 \<le> na_shortfall a"
  using assms cut_sum
  by (auto simp: account_node_def bind_ok_Inr map_ok_Inr make_vec_Inr occupied_def valid_vec_nonneg
      dest!: add_all_Inr)

lemma account_nodes_iff:
  "account_nodes hr b ch ns = Inr as \<Longrightarrow>
   (u, a) \<in> set as \<longleftrightarrow> (\<exists>n \<in> set ns. nd_uid n = u \<and> account_node hr b ch n = Inr a)"
  by (induction ns arbitrary: as) (auto simp: bind_ok_Inr map_ok_Inr)

lemma account_nodes_total:
  "account_nodes hr b ch ns = Inr as \<Longrightarrow> n \<in> set ns \<Longrightarrow> \<exists>a. account_node hr b ch n = Inr a"
  by (induction ns arbitrary: as) (auto simp: bind_ok_Inr map_ok_Inr)

lemma set_map_filter: "set (List.map_filter f xs) = {y. \<exists>x \<in> set xs. f x = Some y}"
  by (induction xs) (auto simp: List.map_filter_simps split: option.splits)

lemma dict_nodes_set:
  "n \<in> set (dict_nodes s) \<longleftrightarrow> by_key nd_uid (sn_nodes s) (nd_uid n) = Some n"
  unfolding dict_nodes_def set_map_filter
  using by_key_Some [of nd_uid "sn_nodes s"] by (fastforce simp: image_iff)

lemma dict_nodes_uids: "u \<in> nd_uid ` set (sn_nodes s) \<longleftrightarrow> (\<exists>n \<in> set (dict_nodes s). nd_uid n = u)"
proof
  assume "u \<in> nd_uid ` set (sn_nodes s)"
  then obtain n where n: "by_key nd_uid (sn_nodes s) u = Some n"
    using by_key_None [of nd_uid "sn_nodes s" u] by auto
  then show "\<exists>n \<in> set (dict_nodes s). nd_uid n = u"
    using by_key_Some [OF n] dict_nodes_set by metis
next
  assume "\<exists>n \<in> set (dict_nodes s). nd_uid n = u"
  then show "u \<in> nd_uid ` set (sn_nodes s)"
    using dict_nodes_set by_key_Some by (metis imageI)
qed

lemma account_inventory_parts:
  assumes "account_inventory s rs hr = Inr acc"
  obtains l ch where "account_reservations s rs empty_ledger = Inr l" "classify s l = Inr ()"
    "charge_pods s (lg_excluded l) (sn_pods s) (lg_charges l, 0) = Inr (ch, ia_pending acc)"
    "account_nodes hr (lg_blocked l) ch (dict_nodes s) = Inr (ia_nodes acc)"
    "ia_orphaned acc = lg_orphaned l"
  using assms unfolding account_inventory_def
  by (auto simp: bind_ok_Inr map_ok_Inr split: if_splits)

lemma account_inventory_charges:
  assumes "account_inventory s rs hr = Inr acc" "(u, a) \<in> set (ia_nodes acc)"
  obtains l ch n where "account_reservations s rs empty_ledger = Inr l"
    "pass_step s rs empty_ledger l" "u \<in> nd_uid ` set (sn_nodes s)"
    "charge_pods s (lg_excluded l) (sn_pods s) (lg_charges l, 0) = Inr (ch, ia_pending acc)"
    "na_charges a = ch u" "by_key nd_uid (sn_nodes s) u = Some n" "account_node hr (lg_blocked l) ch n = Inr a"
proof -
  from assms(1) show thesis
  proof (rule account_inventory_parts)
    fix l ch
    assume l: "account_reservations s rs empty_ledger = Inr l"
      and ch: "charge_pods s (lg_excluded l) (sn_pods s) (lg_charges l, 0) = Inr (ch, ia_pending acc)"
      and ns: "account_nodes hr (lg_blocked l) ch (dict_nodes s) = Inr (ia_nodes acc)"
    obtain n where n: "n \<in> set (dict_nodes s)" "nd_uid n = u" "account_node hr (lg_blocked l) ch n = Inr a"
      using account_nodes_iff [OF ns] assms(2) by blast
    show thesis
      using that [OF l reservation_pass [OF l] _ ch] n account_node_Inr(1) [OF n(3)]
        dict_nodes_uids [of u s] dict_nodes_set [of n s] by blast
  qed
qed

lemma empty_ledger_charges [simp]:
  "charge_in cat (lg_charges empty_ledger u) = 0" "ch_external (lg_charges empty_ledger u) = 0"
  "lg_excluded empty_ledger = []" "lg_orphaned empty_ledger = []" "lg_blocked empty_ledger = []"
  by (cases cat; simp add: empty_ledger_def no_charges_def)+

lemma node_listed:
  assumes "account_inventory s rs hr = Inr acc" "u \<in> nd_uid ` set (sn_nodes s)"
  shows "\<exists>a. (u, a) \<in> set (ia_nodes acc)"
  using assms(1)
proof (rule account_inventory_parts)
  fix l ch
  assume "account_nodes hr (lg_blocked l) ch (dict_nodes s) = Inr (ia_nodes acc)"
  then show ?thesis
    using assms(2) account_nodes_iff account_nodes_total dict_nodes_uids by metis
qed

section \<open>An example inventory\<close>

definition uid :: "char \<Rightarrow> string" where
  "uid c = replicate 8 c @ ''-'' @ replicate 4 c @ ''-'' @ replicate 4 c @ ''-'' @ replicate 4 c @ ''-'' @
     replicate 12 c"

definition demo_reservation ::
  "char \<Rightarrow> char \<Rightarrow> string \<Rightarrow> rstate \<Rightarrow> char \<times> char \<times> char \<Rightarrow> reservation" where
  "demo_reservation i n name st os = \<lparr>rv_id = uid i, rv_node_uid = uid n, rv_node_name = name,
     rv_owner_kind = ''job'', rv_owner_id = uid i, rv_generation = uid i,
     rv_vector = Vec 500 1000 1 100 1 1, rv_state = st, rv_vm = Some (uid (fst os)),
     rv_vmi = Some (uid (fst (snd os))), rv_launcher = Some (uid (snd (snd os))), rv_version = 2,
     rv_high_water = Some (Vec 100 1200 1 0 1 1)\<rparr>"

definition demo_pod :: "string \<Rightarrow> pod" where
  "demo_pod u = \<lparr>pd_uid = u, pd_terminal = False, pd_vmi = None, pd_reservation = None,
     pd_generation = None, pd_node_uid = Some (uid CHR ''c''), pd_node_name = Some ''node-1'',
     pd_requests = Vec 200 300 0 0 0 0\<rparr>"

definition demo_inventory :: snapshot where
  "demo_inventory = \<lparr>sn_complete = True, sn_protocol = 2,
     sn_nodes = [\<lparr>nd_uid = uid CHR ''c'', nd_name = ''node-1'', nd_allocatable = Vec 2000 4000 10 1000 10 10\<rparr>],
     sn_pods = [demo_pod (uid CHR ''0''), (demo_pod (uid CHR ''3''))\<lparr>pd_vmi := Some (uid CHR ''2''),
        pd_reservation := Some (uid CHR ''a''), pd_generation := Some (uid CHR ''a''),
        pd_requests := Vec 600 900 1 50 1 1\<rparr>],
     sn_vmis = [\<lparr>vi_uid = uid CHR ''2'', vi_name = ''agent-vm-a'', vi_vm = Some (uid CHR ''1''),
        vi_node_uid = Some (uid CHR ''c''), vi_node_name = Some ''node-1''\<rparr>],
     sn_vms = [\<lparr>vm_uid = uid CHR ''1'', vm_name = ''agent-vm-a'', vm_owner_kind = Some ''job'',
        vm_owner_id = Some (uid CHR ''a''), vm_generation = Some (uid CHR ''a'')\<rparr>]\<rparr>"

definition demo_rows :: "reservation list" where
  "demo_rows = [demo_reservation CHR ''a'' CHR ''c'' ''node-1'' Active
       (CHR ''1'', CHR ''2'', CHR ''3''),
     demo_reservation CHR ''b'' CHR ''d'' ''node-0'' Teardown
       (CHR ''4'', CHR ''5'', CHR ''6'')]"

definition demo_accounting :: inventory_accounting where
  "demo_accounting = \<lparr>ia_nodes = [(uid CHR ''c'', \<lparr>na_allocatable = Vec 2000 4000 10 1000 10 10,
        na_headroom = Vec 100 100 0 0 0 0,
        na_charges = no_charges\<lparr>ch_external := Vec 200 300 0 0 0 0, ch_active := Vec 600 1200 1 100 1 1\<rparr>,
        na_available = Vec 1100 2400 9 900 9 9, na_shortfall = 0, na_blocked = None\<rparr>)],
     ia_orphaned = [(uid CHR ''b'', Vec 500 1200 1 100 1 1)], ia_pending = 0\<rparr>"

lemma demo_accounting_ok:
  "account_inventory demo_inventory demo_rows (Vec 100 100 0 0 0 0) = Inr demo_accounting"
  by code_simp

section \<open>Conservation\<close>

lemma category_charges:
  assumes "account_inventory s rs headroom = Inr acc" "(u, a) \<in> set (ia_nodes acc)"
  shows "charge_in cat (na_charges a) = owed s cat u rs"
  using assms
proof (rule account_inventory_charges)
  fix l ch n
  assume "pass_step s rs empty_ledger l" "u \<in> nd_uid ` set (sn_nodes s)" "na_charges a = ch u"
    "charge_pods s (lg_excluded l) (sn_pods s) (lg_charges l, 0) = Inr (ch, ia_pending acc)"
  then show ?thesis using pod_pass(1) by (simp add: pass_step_def)
qed

lemma orphans_block:
  assumes "account_inventory s rs headroom = Inr acc" "r \<in> set rs" "held r"
    and gone: "rv_node_uid r \<notin> nd_uid ` set (sn_nodes s)"
  shows "(rv_id r, base_due r) \<in> set (ia_orphaned acc)"
    and "(u, a) \<in> set (ia_nodes acc) \<Longrightarrow> by_key nd_uid (sn_nodes s) u = Some n \<Longrightarrow>
      nd_name n = rv_node_name r \<Longrightarrow> na_available a = 0"
proof -
  from assms(1) obtain l where l: "account_reservations s rs empty_ledger = Inr l"
    "ia_orphaned acc = lg_orphaned l"
    by (rule account_inventory_parts)
  have o: "(rv_id r, base_due r) \<in> set (lg_orphaned l)" "rv_node_name r \<in> set (lg_blocked l)"
    using reservation_pass [OF l(1)] assms(2,3) gone unfolding pass_step_def by auto
  show "(rv_id r, base_due r) \<in> set (ia_orphaned acc)"
    using o l by simp
  assume listed: "(u, a) \<in> set (ia_nodes acc)"
    and node: "by_key nd_uid (sn_nodes s) u = Some n" "nd_name n = rv_node_name r"
  from assms(1) listed show "na_available a = 0"
  proof (rule account_inventory_charges)
    fix l' ch n'
    assume "account_reservations s rs empty_ledger = Inr l'" "by_key nd_uid (sn_nodes s) u = Some n'"
      "account_node headroom (lg_blocked l') ch n' = Inr a"
    then show ?thesis using l(1) o(2) node account_node_Inr(4,5) by fastforce
  qed
qed

text \<open>
  C29. The accounting conserves held demand exactly. In every node of a successful accounting, each
  category's charge is the sum of what the held reservations of that node and category are due: the
  reserved vector, raised to the observed high water and to the requests of the reservation's own
  running launcher Pod, never below the reserved vector. A held reservation whose node is gone
  is listed as orphaned with its demand, and every node of that name offers nothing.
\<close>

theorem held_demand_is_never_dropped:
  assumes "account_inventory s rs headroom = Inr acc"
  shows "(\<forall>(u, a) \<in> set (ia_nodes acc). \<forall>cat. charge_in cat (na_charges a) = owed s cat u rs) \<and>
    (\<forall>r \<in> set rs. rv_vector r \<le> due s r \<and>
       (held r \<longrightarrow> (\<exists>a. (rv_node_uid r, a) \<in> set (ia_nodes acc)) \<or>
          (rv_id r, base_due r) \<in> set (ia_orphaned acc) \<and>
          (\<forall>(u, a) \<in> set (ia_nodes acc). \<forall>n. by_key nd_uid (sn_nodes s) u = Some n \<longrightarrow>
             nd_name n = rv_node_name r \<longrightarrow> na_available a = 0)))"
  using category_charges [OF assms] orphans_block [OF assms] node_listed [OF assms] due_covers
  by (fast intro: old.prod.case)

theorem held_demand_is_never_dropped_witness:
  "charge_in Active_C (na_charges (snd (hd (ia_nodes demo_accounting)))) =
     owed demo_inventory Active_C (uid CHR ''c'') demo_rows"
  using held_demand_is_never_dropped [OF demo_accounting_ok] by (simp add: demo_accounting_def)

text \<open>
  C34. No node is overcommitted by what the accounting offers. An unblocked node's free capacity plus
  the headroom and every charge is its allocatable capacity plus the shortfall, and a request
  that fits the free capacity leaves every resource it asks for within the allocatable capacity after
  headroom, external Pods and all held reservations are counted; a blocked node offers nothing.
\<close>

theorem no_overcommit:
  assumes "account_inventory s rs headroom = Inr acc" "(u, a) \<in> set (ia_nodes acc)"
    and "fits v (na_available a)"
  shows "(na_blocked a = None \<longrightarrow> na_available a + occupied a = na_allocatable a + na_shortfall a) \<and>
    (na_blocked a \<noteq> None \<longrightarrow> na_available a = 0) \<and>
    (\<forall>part \<in> {cpu, memory, kvm, ephemeral, tun, vhost}.
       0 < part v \<longrightarrow> part (occupied a) + part v \<le> part (na_allocatable a))"
  using assms(1,2)
proof (rule account_inventory_charges)
  fix l ch n
  assume n: "account_node headroom (lg_blocked l) ch n = Inr a"
  have "na_available a = 0 \<or>
      na_available a = map2_vec (\<lambda>a b. max 0 (a - b)) (na_allocatable a) (occupied a)"
    using n by (auto simp: account_node_def bind_ok_Inr map_ok_Inr make_vec_Inr occupied_def dest!: add_all_Inr)
  then have "\<forall>part \<in> {cpu, memory, kvm, ephemeral, tun, vhost}.
      0 < part v \<longrightarrow> part (occupied a) + part v \<le> part (na_allocatable a)"
    using assms(3) unfolding fits_le
    by (cases v; cases "na_allocatable a"; cases "occupied a") (auto simp: vec_simps)
  then show ?thesis using account_node_Inr(5,6) [OF n] by blast
qed

theorem no_overcommit_witness:
  "cpu (occupied (snd (hd (ia_nodes demo_accounting)))) + 1100 \<le> 2000 \<and>
   memory (occupied (snd (hd (ia_nodes demo_accounting)))) + 2000 \<le> 4000"
  using no_overcommit [OF demo_accounting_ok, of "uid CHR ''c''" "snd (hd (ia_nodes demo_accounting))"
      "Vec 1100 2000 1 100 1 1"]
  by (simp add: demo_accounting_def fits_le vec_simps)

section \<open>Running Pods\<close>

definition backs :: "snapshot \<Rightarrow> reservation \<Rightarrow> pod \<Rightarrow> bool" where
  "backs s r p \<longleftrightarrow>
     held r \<and> rv_node_uid r \<in> nd_uid ` set (sn_nodes s) \<and> exact_launcher s r (Some p)"

definition external_on :: "snapshot \<Rightarrow> reservation list \<Rightarrow> string option \<Rightarrow> rvec" where
  "external_on s rs u =
     (\<Sum>p \<leftarrow> filter (\<lambda>p. \<not> pd_terminal p \<and> pd_node_uid p = u \<and> \<not> (\<exists>r \<in> set rs. backs s r p)) (sn_pods s).
        pd_requests p)"

lemma exact_launcher_uid: "exact_launcher s r (Some p) \<Longrightarrow> rv_launcher r = Some (pd_uid p)"
  by (auto simp: exact_launcher_def split: option.splits)

lemma by_key_distinct: "distinct (map key xs) \<Longrightarrow> x \<in> set xs \<Longrightarrow> by_key key xs (key x) = Some x"
  unfolding by_key_def by (intro find_by_distinct) (simp_all add: rev_map [symmetric])

lemma launcher_pod_backs:
  assumes "distinct (map pd_uid (sn_pods s))" "p \<in> set (sn_pods s)"
  shows "exact_uid s r (pd_uid p) \<longleftrightarrow> backs s r p"
    and "backs s r p \<Longrightarrow> launcher_pod s r = Some p"
proof -
  show pod: "launcher_pod s r = Some p" if "backs s r p"
    using that by_key_distinct [OF assms]
    by (auto simp: backs_def launcher_pod_def dest: exact_launcher_uid)
  have "launcher_pod s r = Some q \<Longrightarrow> pd_uid q = pd_uid p \<Longrightarrow> q = p" for q
    using by_key_distinct [OF assms] by_key_Some [of pd_uid "sn_pods s" _ q]
    by (fastforce simp: launcher_pod_def bind_eq_Some_conv)
  then show "exact_uid s r (pd_uid p) \<longleftrightarrow> backs s r p"
    using pod by (auto simp: exact_uid_def backs_def)
qed

lemma pods_on_external:
  assumes "distinct (map pd_uid (sn_pods s))" "pass_step s rs empty_ledger l"
  shows "pods_on (lg_excluded l) u (sn_pods s) = external_on s rs u"
proof -
  have "pd_uid p \<in> set (lg_excluded l) \<longleftrightarrow> (\<exists>r \<in> set rs. backs s r p)" if "p \<in> set (sn_pods s)" for p
    using assms(2) launcher_pod_backs(1) [OF assms(1) that] by (simp add: pass_step_def)
  then have "filter (\<lambda>p. \<not> pd_terminal p \<and> pd_uid p \<notin> set (lg_excluded l) \<and> pd_node_uid p = u) (sn_pods s) =
      filter (\<lambda>p. \<not> pd_terminal p \<and> pd_node_uid p = u \<and> \<not> (\<exists>r \<in> set rs. backs s r p)) (sn_pods s)"
    by (intro filter_cong) auto
  then show ?thesis by (simp add: pods_on_def external_on_def)
qed

lemma backed_pod_is_due:
  assumes "distinct (map pd_uid (sn_pods s))" "p \<in> set (sn_pods s)" "backs s r p"
  shows "pd_requests p \<le> due s r"
  using launcher_pod_backs(2) [OF assms] assms(3) by (simp add: due_def backs_def sup_vec_upper)

text \<open>
  Every running Pod is counted exactly once. With distinct Pod identifiers, a node's external
  charge is the sum of the requests of the running Pods on it that are not the exact launcher
  of a held reservation, the pending charge is the same sum over the unscheduled ones, and
  a Pod that is such a launcher is covered by what its reservation is due.
\<close>

theorem running_pods_are_counted_once:
  assumes "account_inventory s rs headroom = Inr acc" "distinct (map pd_uid (sn_pods s))"
  shows "(\<forall>(u, a) \<in> set (ia_nodes acc). ch_external (na_charges a) = external_on s rs (Some u)) \<and>
    ia_pending acc = external_on s rs None \<and>
    (\<forall>p \<in> set (sn_pods s). \<forall>r \<in> set rs. backs s r p \<longrightarrow> pd_requests p \<le> due s r)"
proof -
  have "ch_external (na_charges a) = external_on s rs (Some u)" if "(u, a) \<in> set (ia_nodes acc)" for u a
    using assms(1) that
  proof (rule account_inventory_charges)
    fix l ch n
    assume "pass_step s rs empty_ledger l" "na_charges a = ch u"
      "charge_pods s (lg_excluded l) (sn_pods s) (lg_charges l, 0) = Inr (ch, ia_pending acc)"
    then show ?thesis
      using pod_pass(2) pods_on_external [OF assms(2)] by (simp add: pass_step_def)
  qed
  moreover have "ia_pending acc = external_on s rs None"
    using assms(1)
  proof (rule account_inventory_parts)
    fix l ch
    assume l: "account_reservations s rs empty_ledger = Inr l"
      and ch: "charge_pods s (lg_excluded l) (sn_pods s) (lg_charges l, 0) = Inr (ch, ia_pending acc)"
    show ?thesis
      using pod_pass(3) [OF ch] pods_on_external [OF assms(2) reservation_pass [OF l]] by simp
  qed
  ultimately show ?thesis using backed_pod_is_due [OF assms(2)] by auto
qed

theorem running_pods_are_counted_once_witness:
  "ch_external (na_charges (snd (hd (ia_nodes demo_accounting)))) =
     external_on demo_inventory demo_rows (Some (uid CHR ''c'')) \<and>
   external_on demo_inventory demo_rows None = 0"
proof -
  have "distinct (map pd_uid (sn_pods demo_inventory))"
    by code_simp
  from running_pods_are_counted_once [OF demo_accounting_ok this] show ?thesis
    by (simp add: demo_accounting_def)
qed

section \<open>Identities and classification\<close>

definition holders :: "string \<Rightarrow> reservation list \<Rightarrow> reservation list" where
  "holders u rs = filter (\<lambda>r. held r \<and> rv_vm r = Some u) rs"

lemma account_reservation_identity:
  assumes "account_reservation s r l = Inr l'"
  shows "held r \<Longrightarrow> \<not> conflicts r l"
    and "lg_vms l' = (if held r then push (rv_vm r) (lg_vms l) else lg_vms l)"
    and "lg_by_vm l' = (if held r then (case rv_vm r of None \<Rightarrow> lg_by_vm l | Some u \<Rightarrow> (u, r) # lg_by_vm l)
                        else lg_by_vm l)"
proof -
  have "(held r \<longrightarrow> \<not> conflicts r l) \<and> (if held r then lg_vms l' = lg_vms (register r l) \<and>
      lg_by_vm l' = lg_by_vm (register r l) else l' = l)"
    using assms
  proof (cases rule: account_reservation_cases)
    case (charged n c)
    then have "charge_node s r (base_due r) (register r l) = Inr l'"
      by (auto dest!: reserved_charge_Inr)
    then obtain cat where "lg_vms l' = lg_vms (register r l) \<and> lg_by_vm l' = lg_by_vm (register r l)"
      by (rule charge_node_effect) simp
    then show ?thesis using charged(1,2) by simp
  qed auto
  then show "held r \<Longrightarrow> \<not> conflicts r l"
    "lg_vms l' = (if held r then push (rv_vm r) (lg_vms l) else lg_vms l)"
    "lg_by_vm l' = (if held r then (case rv_vm r of None \<Rightarrow> lg_by_vm l | Some u \<Rightarrow> (u, r) # lg_by_vm l)
                        else lg_by_vm l)"
    by (auto simp: register_def split: if_splits)
qed

lemma vm_held_once:
  assumes "account_reservations s rs l = Inr l'"
  shows "length (holders u rs) \<le> 1 \<and> (u \<in> set (lg_vms l) \<longrightarrow> holders u rs = [])"
  using assms
proof (induction rs arbitrary: l)
  case (Cons r rs)
  then obtain k where k: "account_reservation s r l = Inr k" "account_reservations s rs k = Inr l'"
    by (auto simp: bind_ok_Inr)
  have "length (holders u rs) \<le> 1 \<and> (u \<in> set (lg_vms k) \<longrightarrow> holders u rs = [])"
    using Cons.IH k(2) by blast
  then show ?case
    using account_reservation_identity [OF k(1)]
    by (cases "rv_vm r") (auto simp: holders_def push_def conflicts_def among_def)
qed (simp add: holders_def)

lemma by_vm_holders:
  assumes "account_reservations s rs l = Inr l'" "(u, r) \<in> set (lg_by_vm l')"
  shows "(u, r) \<in> set (lg_by_vm l) \<or> r \<in> set (holders u rs)"
  using assms
proof (induction rs arbitrary: l)
  case (Cons q rs)
  then obtain k where k: "account_reservation s q l = Inr k" "account_reservations s rs k = Inr l'"
    by (auto simp: bind_ok_Inr)
  with Cons have "(u, r) \<in> set (lg_by_vm k) \<or> r \<in> set (holders u rs)"
    by blast
  then show ?case
    using account_reservation_identity(3) [OF k(1)]
    by (auto simp: holders_def split: if_splits option.splits)
qed simp

definition owned_by :: "vm \<Rightarrow> reservation \<Rightarrow> bool" where
  "owned_by m r \<longleftrightarrow> rv_version r = 2 \<and> vm_owner_kind m = Some (rv_owner_kind r) \<and>
     vm_owner_id m = Some (rv_owner_id r) \<and> vm_generation m = Some (rv_generation r)"

lemma classify_vms_sound:
  assumes "classify_vms hd' ms acc = Inr res" "m \<in> set ms"
  shows "(vm_owner_kind m \<noteq> Some ''job'' \<and> vm_owner_kind m \<noteq> Some ''thread'' \<and>
      (prefix ''agent-vm-'' (vm_name m) \<longrightarrow> prefix ''agent-vm-golden-'' (vm_name m))) \<or>
    (\<exists>r. map_of hd' (vm_uid m) = Some r \<and> owned_by m r)"
  using assms
  by (induction hd' ms acc rule: classify_vms.induct)
     (auto simp: owned_by_def split: if_splits option.splits)

lemma classify_pods_sound:
  assumes "classify_pods s attr ps = Inr ()" "p \<in> set ps" "\<not> pd_terminal p"
  shows "(\<exists>r. Option.bind (pd_vmi p) (map_of attr) = Some r \<and> exact_launcher s r (Some p)) \<or>
    Option.bind (pd_vmi p) (map_of attr) = None \<and> pd_reservation p = None \<and> pd_generation p = None"
  using assms
  by (induction s attr ps rule: classify_pods.induct) (auto split: if_splits option.splits)

lemma classify_parts:
  assumes "classify s l = Inr ()" "sn_protocol s = 2"
  obtains attr names vmis where "classify_vms (lg_by_vm l) (sn_vms s) ([], []) = Inr (attr, names)"
    "classify_vmis attr names (sn_vmis s) [] = Inr vmis" "classify_pods s vmis (sn_pods s) = Inr ()"
  using assms by (auto simp: classify_def bind_ok_Inr)

lemma classify_vms_values:
  assumes "classify_vms hd' ms acc = Inr res" "(u, r) \<in> set (fst res)"
  shows "(u, r) \<in> set (fst acc) \<or> (u, r) \<in> set hd'"
  using assms
  by (induction hd' ms acc rule: classify_vms.induct)
     (auto dest: map_of_SomeD split: if_splits option.splits)

lemma classify_vmis_values:
  assumes "classify_vmis attr names is acc = Inr res" "(u, r) \<in> set res"
  shows "(u, r) \<in> set acc \<or> (\<exists>w. (w, r) \<in> set attr)"
  using assms
  by (induction attr names "is" acc rule: classify_vmis.induct)
     (auto simp: bind_eq_Some_conv dest: map_of_SomeD split: if_splits option.splits)

text \<open>
  Under protocol 2 a successful accounting leaves no guest unclassified. Every virtual machine of
  the snapshot is either not a worker guest (no job or thread owner, and not an unlabelled
  \<^verbatim>\<open>agent-vm-\<close> name) or is held by exactly one reservation, which has its owner and
  generation; and a running Pod that bears launcher markers is the exact launcher of a held
  reservation.
\<close>

theorem protocol_two_classifies_every_guest:
  assumes "account_inventory s rs headroom = Inr acc" "sn_protocol s = 2"
  shows "(\<forall>m \<in> set (sn_vms s).
      (vm_owner_kind m \<noteq> Some ''job'' \<and> vm_owner_kind m \<noteq> Some ''thread'' \<and>
         (prefix ''agent-vm-'' (vm_name m) \<longrightarrow> prefix ''agent-vm-golden-'' (vm_name m))) \<or>
      (\<exists>r. holders (vm_uid m) rs = [r] \<and> owned_by m r)) \<and>
    (\<forall>p \<in> set (sn_pods s). \<not> pd_terminal p \<and> (pd_reservation p \<noteq> None \<or> pd_generation p \<noteq> None) \<longrightarrow>
      (\<exists>r \<in> set rs. held r \<and> exact_launcher s r (Some p)))"
  using assms(1)
proof (rule account_inventory_parts)
  fix l ch
  assume l: "account_reservations s rs empty_ledger = Inr l" and "classify s l = Inr ()"
  then show ?thesis
    using assms(2)
  proof (rule_tac classify_parts)
    fix attr names vmis
    assume vms: "classify_vms (lg_by_vm l) (sn_vms s) ([], []) = Inr (attr, names)"
      and vmis: "classify_vmis attr names (sn_vmis s) [] = Inr vmis"
      and pods: "classify_pods s vmis (sn_pods s) = Inr ()"
    have one: "\<exists>r'. holders (vm_uid m) rs = [r'] \<and> owned_by m r'"
      if "map_of (lg_by_vm l) (vm_uid m) = Some r" "owned_by m r" for m r
    proof -
      have "r \<in> set (holders (vm_uid m) rs)"
        using by_vm_holders [OF l map_of_SomeD [OF that(1)]] by (simp add: empty_ledger_def)
      moreover have "length (holders (vm_uid m) rs) \<le> 1" using vm_held_once [OF l] by blast
      ultimately show ?thesis using that(2) by (cases "holders (vm_uid m) rs") auto
    qed
    have from_rows: "r \<in> set rs \<and> held r" if r: "map_of vmis u = Some r" for u r
    proof -
      obtain w where "(w, r) \<in> set (lg_by_vm l)"
        using classify_vms_values [OF vms] classify_vmis_values [OF vmis map_of_SomeD [OF r]] by auto
      from by_vm_holders [OF l this] show ?thesis by (simp add: empty_ledger_def holders_def)
    qed
    show ?thesis
    proof (intro conjI ballI impI)
      fix m assume "m \<in> set (sn_vms s)"
      from classify_vms_sound [OF vms this] one
      show "(vm_owner_kind m \<noteq> Some ''job'' \<and> vm_owner_kind m \<noteq> Some ''thread'' \<and>
           (prefix ''agent-vm-'' (vm_name m) \<longrightarrow> prefix ''agent-vm-golden-'' (vm_name m))) \<or>
        (\<exists>r. holders (vm_uid m) rs = [r] \<and> owned_by m r)" by fast
    next
      fix p assume p: "p \<in> set (sn_pods s)" "\<not> pd_terminal p \<and> (pd_reservation p \<noteq> None \<or> pd_generation p \<noteq> None)"
      then obtain r u where "map_of vmis u = Some r" "exact_launcher s r (Some p)"
        using classify_pods_sound [OF pods] by (fastforce simp: bind_eq_Some_conv)
      then show "\<exists>r \<in> set rs. held r \<and> exact_launcher s r (Some p)"
        using from_rows by blast
    qed
  qed
qed

theorem protocol_two_classifies_every_guest_witness:
  "holders (uid CHR ''1'') demo_rows = [hd demo_rows] \<and> owned_by (hd (sn_vms demo_inventory)) (hd demo_rows)"
proof -
  have two: "sn_protocol demo_inventory = 2" by (simp add: demo_inventory_def)
  have job: "vm_owner_kind (hd (sn_vms demo_inventory)) = Some ''job''"
    "hd (sn_vms demo_inventory) \<in> set (sn_vms demo_inventory)"
    "vm_uid (hd (sn_vms demo_inventory)) = uid CHR ''1''"
    by (simp_all add: demo_inventory_def)
  have "holders (uid CHR ''1'') demo_rows = [hd demo_rows]" by code_simp
  then show ?thesis
    using protocol_two_classifies_every_guest [OF demo_accounting_ok two] job by fastforce
qed

end
