(* ===== verification/Key_Ring.thy ===== *)
theory Key_Ring
  imports Prelude Py_Text
begin

text \<open>
  The API key ring of \<^verbatim>\<open>src/shared/runtime/llm/key_ring.py\<close> and its use by the HTTP clients of
  \<^verbatim>\<open>src/shared/runtime/llm/reasoning_chat.py\<close>. Instants of the monotonic clock are integers (in
  any unit); the lock makes each method atomic, so a method is a function of the ring and of
  the clock readings it takes. The dictionary of cooldowns is a map from slots.
\<close>

section \<open>Key strings\<close>

definition parse_key_string :: "pytext option \<Rightarrow> pytext list" where
  "parse_key_string raw =
     (case raw of None \<Rightarrow> []
      | Some s \<Rightarrow> if s = [] then [] else map strip (filter (\<lambda>k. strip k \<noteq> []) (split_on 44 s)))"

definition mask_key :: "pytext \<Rightarrow> pytext" where
  "mask_key key = (if length key \<le> 8 then lit ''...'' else take 8 key @ lit ''...'')"

section \<open>The ring\<close>

record ring =
  kr_keys :: "pytext list"
  kr_cooldown :: int
  kr_provider :: pytext
  kr_current :: nat
  kr_until :: "nat \<rightharpoonup> int"

definition new_ring :: "pytext list \<Rightarrow> int \<Rightarrow> pytext \<Rightarrow> ring option" where
  "new_ring keys cooldown provider =
     (if keys = [] then None
      else Some \<lparr>kr_keys = keys, kr_cooldown = cooldown, kr_provider = provider, kr_current = 0,
                 kr_until = Map.empty\<rparr>)"

definition slot_available :: "(nat \<rightharpoonup> int) \<Rightarrow> int \<Rightarrow> nat \<Rightarrow> bool" where
  "slot_available until' now i =
     (case until' i of None \<Rightarrow> True | Some e \<Rightarrow> e = 0 \<or> e \<le> now)"

definition clear_expired :: "nat \<Rightarrow> (nat \<rightharpoonup> int) \<Rightarrow> (nat \<rightharpoonup> int)" where
  "clear_expired i until' =
     (case until' i of None \<Rightarrow> until' | Some e \<Rightarrow> if e = 0 then until' else until'(i := None))"

text \<open>The key read is \<^const>\<open>None\<close> where the method raises \<^verbatim>\<open>RuntimeError\<close>.\<close>

definition get_available_key :: "int \<Rightarrow> ring \<Rightarrow> ring \<times> pytext option" where
  "get_available_key now r =
     (case find (slot_available (kr_until r) now) [0..<length (kr_keys r)] of
        None \<Rightarrow> (r, None)
      | Some i \<Rightarrow> (r\<lparr>kr_until := clear_expired i (kr_until r), kr_current := i\<rparr>, Some (kr_keys r ! i)))"

definition time_until_next_available :: "int \<Rightarrow> ring \<Rightarrow> int" where
  "time_until_next_available now r =
     (case List.map_filter (kr_until r) [0..<length (kr_keys r)] of
        [] \<Rightarrow> 0
      | e # es \<Rightarrow> max 0 (fold min es e - now))"

text \<open>\<^verbatim>\<open>rotate\<close> reads the clock twice: to stamp the cooldown and to look for the next key.\<close>

definition rotate_key :: "int \<Rightarrow> int \<Rightarrow> ring \<Rightarrow> ring \<times> pytext option" where
  "rotate_key stamp now r =
     get_available_key now
       (r\<lparr>kr_until := (kr_until r)(kr_current r \<mapsto> stamp + kr_cooldown r),
          kr_current := (kr_current r + 1) mod length (kr_keys r)\<rparr>)"

definition has_alternatives :: "ring \<Rightarrow> bool" where
  "has_alternatives r \<longleftrightarrow> 1 < length (kr_keys r)"

definition is_single_key :: "ring \<Rightarrow> bool" where
  "is_single_key r \<longleftrightarrow> length (kr_keys r) = 1"

record slot_status =
  ss_key :: pytext
  ss_available :: bool
  ss_active :: bool
  ss_remaining :: int

definition slot_state :: "int \<Rightarrow> ring \<Rightarrow> nat \<Rightarrow> slot_status" where
  "slot_state now r i =
     \<lparr>ss_key = mask_key (kr_keys r ! i), ss_available = slot_available (kr_until r) now i,
      ss_active = (i = kr_current r),
      ss_remaining = (if slot_available (kr_until r) now i then 0 else the (kr_until r i) - now)\<rparr>"

record ring_status =
  rs_provider :: pytext
  rs_count :: nat
  rs_active :: pytext
  rs_cooldown :: int
  rs_slots :: "slot_status list"

definition get_status :: "int \<Rightarrow> ring \<Rightarrow> ring_status" where
  "get_status now r =
     \<lparr>rs_provider = kr_provider r, rs_count = length (kr_keys r),
      rs_active = mask_key (kr_keys r ! kr_current r), rs_cooldown = kr_cooldown r,
      rs_slots = map (slot_state now r) [0..<length (kr_keys r)]\<rparr>"

section \<open>The registry\<close>

text \<open>A ring shared by several clients is the registry's entry for its provider and keys.\<close>

type_synonym registry = "pytext \<times> pytext list \<rightharpoonup> ring"

definition get_or_create_key_ring ::
  "pytext list \<Rightarrow> pytext \<Rightarrow> int \<Rightarrow> registry \<Rightarrow> registry \<times> ring option" where
  "get_or_create_key_ring keys provider cooldown reg =
     (case reg (provider, keys) of
        Some r \<Rightarrow> (reg, Some r)
      | None \<Rightarrow>
          (case new_ring keys cooldown provider of
             None \<Rightarrow> (reg, None)
           | Some r \<Rightarrow> (reg((provider, keys) \<mapsto> r), Some r)))"

definition clear_registry :: registry where
  "clear_registry = Map.empty"

section \<open>The client\<close>

text \<open>
  A response as the clients read it: the status code, the \<^verbatim>\<open>retry-after\<close> header parsed as a number
  (absent when missing or malformed), and the body. The keywords consist of the letters
  a to z and an underscore, none of which is the lower case of a character outside ASCII
  within a match, so lowering the ASCII letters decides the search.
\<close>

record response =
  rp_status :: int
  rp_retry_after :: "rat option"
  rp_body :: pytext

definition lower_ascii :: "pytext \<Rightarrow> pytext" where
  "lower_ascii s = map (\<lambda>c. if 65 \<le> c \<and> c \<le> 90 then c + 32 else c) s"

definition quota_keywords :: "pytext list" where
  "quota_keywords = map lit [''quota'', ''billing'', ''insufficient_quota'', ''exceeded'']"

definition is_quota_error :: "response \<Rightarrow> bool" where
  "is_quota_error rp =
     (if \<exists>kw \<in> set quota_keywords. occurs kw (lower_ascii (rp_body rp)) then True
      else (case rp_retry_after rp of Some t \<Rightarrow> if t < 3600 then False else True | None \<Rightarrow> True))"

definition rotates :: "response \<Rightarrow> bool" where
  "rotates rp =
     (if rp_status rp = 401 \<or> rp_status rp = 403 then True
      else if rp_status rp = 429 \<and> is_quota_error rp then True
      else False)"

text \<open>
  \<^verbatim>\<open>_handle_key_rotation\<close> under \<^verbatim>\<open>send\<close>'s guard: the key of the retried request, or
  \<^const>\<open>None\<close> when the original response is kept.
\<close>

definition after_response :: "int \<Rightarrow> int \<Rightarrow> response \<Rightarrow> ring \<Rightarrow> ring \<times> pytext option" where
  "after_response stamp now rp r =
     (if has_alternatives r \<and> rotates rp then rotate_key stamp now r else (r, None))"

end
