(* ===== verification/Key_Ring_Behaviour.thy ===== *)
theory Key_Ring_Behaviour
  imports Key_Ring
begin

text \<open>
  The ring against its contract: it serves the first key none of whose failures is recent, for every
  sequence of calls. The contract keeps the whole history of failures where the code keeps one
  expiry per slot and prunes it as it reads.
\<close>

section \<open>The contract\<close>

type_synonym key_log = "(nat \<times> int) list" \<comment> \<open>failed slot and the instant it failed\<close>

definition ready :: "int \<Rightarrow> key_log \<Rightarrow> int \<Rightarrow> nat \<Rightarrow> bool" where
  "ready cd hist now i \<longleftrightarrow> (\<forall>(j, t) \<in> set hist. j = i \<longrightarrow> t + cd \<le> now)"

definition first_ready :: "nat \<Rightarrow> int \<Rightarrow> int \<Rightarrow> nat \<times> key_log \<Rightarrow> (nat \<times> key_log) \<times> nat option" where
  "first_ready n cd now s =
     (case find (ready cd (snd s) now) [0..<n] of None \<Rightarrow> (s, None) | Some i \<Rightarrow> ((i, snd s), Some i))"

datatype key_op = Read int | Rotate int int

fun apply_op :: "key_op \<Rightarrow> ring \<Rightarrow> ring \<times> pytext option" where
  "apply_op (Read now) r = get_available_key now r"
| "apply_op (Rotate stamp now) r = rotate_key stamp now r"

fun spec_op :: "nat \<Rightarrow> int \<Rightarrow> key_op \<Rightarrow> nat \<times> key_log \<Rightarrow> (nat \<times> key_log) \<times> nat option" where
  "spec_op n cd (Read now) s = first_ready n cd now s"
| "spec_op n cd (Rotate stamp now) s =
     first_ready n cd now ((fst s + 1) mod n, (fst s, stamp) # snd s)"

fun run :: "key_op list \<Rightarrow> ring \<Rightarrow> pytext option list" where
  "run [] r = []"
| "run (x # xs) r = snd (apply_op x r) # run xs (fst (apply_op x r))"

fun run_spec :: "pytext list \<Rightarrow> int \<Rightarrow> key_op list \<Rightarrow> nat \<times> key_log \<Rightarrow> pytext option list" where
  "run_spec keys cd [] s = []"
| "run_spec keys cd (x # xs) s =
     map_option ((!) keys) (snd (spec_op (length keys) cd x s)) #
     run_spec keys cd xs (fst (spec_op (length keys) cd x s))"

fun op_start :: "key_op \<Rightarrow> int" where
  "op_start (Read now) = now"
| "op_start (Rotate stamp now) = stamp"

fun op_end :: "key_op \<Rightarrow> int" where
  "op_end (Read now) = now"
| "op_end (Rotate stamp now) = now"

text \<open>The clock never goes back.\<close>

fun clocked :: "int \<Rightarrow> key_op list \<Rightarrow> bool" where
  "clocked t [] \<longleftrightarrow> True"
| "clocked t (x # xs) \<longleftrightarrow> t \<le> op_start x \<and> op_start x \<le> op_end x \<and> clocked (op_end x) xs"

section \<open>The simulation\<close>

definition ring_sim :: "pytext list \<Rightarrow> int \<Rightarrow> int \<Rightarrow> ring \<Rightarrow> nat \<times> key_log \<Rightarrow> bool" where
  "ring_sim keys cd t r s \<longleftrightarrow>
     kr_keys r = keys \<and> kr_cooldown r = cd \<and> kr_current r = fst s \<and>
     (\<forall>(j, t') \<in> set (snd s). t' \<le> t) \<and>
     (\<forall>i now. t \<le> now \<longrightarrow> slot_available (kr_until r) now i = ready cd (snd s) now i)"

lemma ready_mono: "ready cd hist now i \<Longrightarrow> now \<le> now' \<Longrightarrow> ready cd hist now' i"
  by (fastforce simp: ready_def)

lemma clear_expired_available:
  assumes "slot_available u now i" "now \<le> now'"
  shows "slot_available (clear_expired i u) now' j = slot_available u now' j"
  using assms by (auto simp: slot_available_def clear_expired_def split: option.splits)

lemma sim_later: "ring_sim keys cd t r s \<Longrightarrow> t \<le> t' \<Longrightarrow> ring_sim keys cd t' r s"
  by (fastforce simp: ring_sim_def)

lemma sim_read:
  assumes "ring_sim keys cd t r s" "t \<le> now"
  shows "ring_sim keys cd now (fst (get_available_key now r)) (fst (first_ready (length keys) cd now s)) \<and>
    snd (get_available_key now r) = map_option ((!) keys) (snd (first_ready (length keys) cd now s))"
proof -
  have same: "slot_available (kr_until r) now = ready cd (snd s) now"
    using assms by (auto simp: ring_sim_def)
  show ?thesis
  proof (cases "find (ready cd (snd s) now) [0..<length keys]")
    case None
    then show ?thesis
      using same assms sim_later [OF assms] by (simp add: get_available_key_def first_ready_def ring_sim_def)
  next
    case (Some i)
    then have "slot_available (kr_until r) now i"
      using same by (auto simp: find_Some_iff)
    then have "slot_available (clear_expired i (kr_until r)) now' j = slot_available (kr_until r) now' j"
      if "now \<le> now'" for now' j
      using that by (rule clear_expired_available)
    then show ?thesis
      using same Some sim_later [OF assms] by (simp add: get_available_key_def first_ready_def ring_sim_def)
  qed
qed

lemma sim_fail:
  assumes "ring_sim keys cd t r s" "t \<le> stamp" "0 < stamp" "0 \<le> cd"
  shows "ring_sim keys cd stamp
    (r\<lparr>kr_until := (kr_until r)(kr_current r \<mapsto> stamp + kr_cooldown r),
       kr_current := (kr_current r + 1) mod length (kr_keys r)\<rparr>)
    ((fst s + 1) mod length keys, (fst s, stamp) # snd s)"
proof -
  have old: "\<forall>(j, t') \<in> set (snd s). t' \<le> stamp"
    using assms(1,2) by (fastforce simp: ring_sim_def)
  then have "ready cd ((fst s, stamp) # snd s) now (fst s) \<longleftrightarrow> stamp + cd \<le> now" for now
    by (fastforce simp: ready_def)
  moreover have "i \<noteq> fst s \<Longrightarrow> ready cd ((fst s, stamp) # snd s) now i = ready cd (snd s) now i" for i now
    by (simp add: ready_def)
  ultimately show ?thesis
    using assms old by (auto simp: ring_sim_def slot_available_def)
qed

lemma sim_op:
  assumes "ring_sim keys cd t r s" "t \<le> op_start x" "op_start x \<le> op_end x" "0 < t" "0 \<le> cd"
  shows "ring_sim keys cd (op_end x) (fst (apply_op x r)) (fst (spec_op (length keys) cd x s)) \<and>
    snd (apply_op x r) = map_option ((!) keys) (snd (spec_op (length keys) cd x s))"
proof (cases x)
  case (Read now)
  then show ?thesis using sim_read assms by simp
next
  case (Rotate stamp now)
  then show ?thesis
    using sim_read [OF sim_fail [OF assms(1), of stamp], of now] assms by (simp add: rotate_key_def)
qed

lemma sim_run:
  "ring_sim keys cd t r s \<Longrightarrow> clocked t xs \<Longrightarrow> 0 < t \<Longrightarrow> 0 \<le> cd \<Longrightarrow> run xs r = run_spec keys cd xs s"
proof (induction xs arbitrary: t r s)
  case (Cons x xs)
  have "ring_sim keys cd (op_end x) (fst (apply_op x r)) (fst (spec_op (length keys) cd x s)) \<and>
      snd (apply_op x r) = map_option ((!) keys) (snd (spec_op (length keys) cd x s))"
    using sim_op Cons.prems by simp
  then show ?case using Cons by fastforce
qed simp

lemma sim_new: "new_ring keys cd p = Some r \<Longrightarrow> ring_sim keys cd t r (0, [])"
  by (auto simp: new_ring_def ring_sim_def slot_available_def ready_def split: if_splits)

text \<open>
  C36. The ring refines its contract. For every sequence of reads and rotations on a clock that never
  goes back, each call returns the first key of the configured order all of whose failures
  are at least the cooldown old, and nothing when there is none: the pruned expiry table
  and the current slot give exactly the answers of the full history of failures.
\<close>

theorem ring_serves_the_first_rested_key:
  assumes "new_ring keys cd provider = Some r" "0 \<le> cd" "0 < t" "clocked t xs"
  shows "run xs r = run_spec keys cd xs (0, [])"
  using sim_run [OF sim_new] assms by blast

theorem ring_serves_the_first_rested_key_witness:
  "run [Read 5, Rotate 10 11, Rotate 20 21, Read 35, Read 45]
     (the (new_ring [[1], [2]] 30 [])) = [Some [1], Some [2], None, None, Some [1]]"
proof -
  have "new_ring [[1], [2]] 30 [] = Some (the (new_ring [[1], [2]] 30 []))" by (simp add: new_ring_def)
  from ring_serves_the_first_rested_key
    [OF this, of 1 "[Read 5, Rotate 10 11, Rotate 20 21, Read 35, Read 45]"]
  have "run [Read 5, Rotate 10 11, Rotate 20 21, Read 35, Read 45] (the (new_ring [[1], [2]] 30 [])) =
      run_spec [[1], [2]] 30 [Read 5, Rotate 10 11, Rotate 20 21, Read 35, Read 45] (0, [])"
    by simp
  also have "\<dots> = [Some [1], Some [2], None, None, Some [1]]" by code_simp
  finally show ?thesis .
qed

section \<open>Exhaustion\<close>

text \<open>The first \<^verbatim>\<open>k\<close> slots are resting until after \<^verbatim>\<open>limit\<close>, the others are free.\<close>

definition rested_from :: "nat \<Rightarrow> int \<Rightarrow> ring \<Rightarrow> bool" where
  "rested_from k limit r \<longleftrightarrow>
     (\<forall>i. if i < k then \<exists>e. kr_until r i = Some e \<and> e \<noteq> 0 \<and> limit < e else kr_until r i = None)"

lemma rested_current [simp]: "rested_from k limit (r\<lparr>kr_current := c\<rparr>) = rested_from k limit r"
  by (simp add: rested_from_def)

lemma find_upt_first:
  assumes "\<And>i. i < k \<Longrightarrow> \<not> P i" "P k" "k < n"
  shows "find P [0..<n] = Some k"
  using assms by (auto simp: find_Some_iff)

lemma get_after_failures:
  assumes "rested_from k limit r" "now \<le> limit"
  shows "get_available_key now r =
    (if k < length (kr_keys r) then (r\<lparr>kr_current := k\<rparr>, Some (kr_keys r ! k)) else (r, None))"
proof -
  have free: "slot_available (kr_until r) now i \<longleftrightarrow> k \<le> i" for i
    using assms(1) [unfolded rested_from_def, THEN spec, of i] assms(2)
    by (auto simp: slot_available_def split: if_splits)
  have "clear_expired k (kr_until r) = kr_until r"
    using assms(1) by (auto simp: rested_from_def clear_expired_def)
  moreover have "k < length (kr_keys r) \<Longrightarrow>
      find (slot_available (kr_until r) now) [0..<length (kr_keys r)] = Some k"
    by (intro find_upt_first) (simp_all add: free)
  moreover have "\<not> k < length (kr_keys r) \<Longrightarrow>
      find (slot_available (kr_until r) now) [0..<length (kr_keys r)] = None"
    by (simp add: find_None_iff free)
  ultimately show ?thesis by (simp add: get_available_key_def)
qed

definition rotate_at :: "int \<times> int \<Rightarrow> key_op" where
  "rotate_at t = Rotate (fst t) (snd t)"

lemma rotations_run:
  assumes "rested_from k limit r" "kr_current r = k" "k + length ts = length (kr_keys r)"
    and "ts \<noteq> []" "\<forall>t \<in> set ts. 0 < fst t \<and> snd t \<le> limit \<and> limit < fst t + kr_cooldown r" "0 \<le> kr_cooldown r"
    and "now \<le> limit"
  shows "run (map rotate_at ts @ [Read now]) r = map Some (drop (Suc k) (kr_keys r)) @ [None, None]"
  using assms
proof (induction ts arbitrary: k r)
  case (Cons t ts)
  let ?m = "r\<lparr>kr_until := (kr_until r)(k \<mapsto> fst t + kr_cooldown r),
              kr_current := (k + 1) mod length (kr_keys r)\<rparr>"
  have m: "rested_from (Suc k) limit ?m"
    using Cons.prems(1,5,6) by (auto simp: rested_from_def less_Suc_eq)
  have op: "apply_op (rotate_at t) r = get_available_key (snd t) ?m"
    using Cons.prems(2) by (simp add: rotate_at_def rotate_key_def)
  show ?case
  proof (cases "ts = []")
    case True
    then have "apply_op (rotate_at t) r = (?m, None)"
      using op get_after_failures [OF m] Cons.prems(3,5) by simp
    moreover have "get_available_key now ?m = (?m, None)"
      using get_after_failures [OF m Cons.prems(7)] True Cons.prems(3) by simp
    ultimately show ?thesis using True Cons.prems(3) by simp
  next
    case False
    then have k: "Suc k < length (kr_keys r)" using Cons.prems(3) by (cases ts) auto
    let ?r = "?m\<lparr>kr_current := Suc k\<rparr>"
    have "apply_op (rotate_at t) r = (?r, Some (kr_keys r ! Suc k))"
      using op get_after_failures [OF m] Cons.prems(5) k by simp
    moreover have "run (map rotate_at ts @ [Read now]) ?r = map Some (drop (Suc (Suc k)) (kr_keys ?r)) @ [None, None]"
      using Cons.prems False m by (intro Cons.IH) (auto simp: rested_from_def)
    ultimately show ?thesis
      using k by (simp add: Cons_nth_drop_Suc [symmetric])
  qed
qed simp

text \<open>
  Rotation visits every key once. From a new ring, as many rotations as there are keys, all
  within one cooldown, hand out the remaining keys in their configured order and then
  report exhaustion; a read before the first expiry finds no key either.
\<close>

theorem rotations_visit_every_key:
  assumes "new_ring keys cd provider = Some r" "0 \<le> cd" "length ts = length keys"
    and "\<forall>t \<in> set ts. 0 < fst t \<and> snd t \<le> limit \<and> limit < fst t + cd" "now \<le> limit"
  shows "run (map rotate_at ts @ [Read now]) r = map Some (tl keys) @ [None, None]"
proof -
  have r: "kr_keys r = keys" "kr_cooldown r = cd" "kr_current r = 0" "rested_from 0 limit r" "keys \<noteq> []"
    using assms(1) by (auto simp: new_ring_def rested_from_def split: if_splits)
  then have "ts \<noteq> []" using assms(3) by auto
  with rotations_run [of 0 limit r ts now] r assms show ?thesis
    by (simp add: drop_Suc)
qed

theorem rotations_visit_every_key_witness:
  "run [Rotate 1 2, Rotate 5 6, Rotate 7 8, Read 9] (the (new_ring [[1], [2], [3]] 30 [])) =
     [Some [2], Some [3], None, None]"
proof -
  have "new_ring [[1], [2], [3]] 30 [] = Some (the (new_ring [[1], [2], [3]] 30 []))"
    by (simp add: new_ring_def)
  from rotations_visit_every_key [OF this, of "[(1, 2), (5, 6), (7, 8)]" 9 9]
  show ?thesis by (simp add: rotate_at_def)
qed

section \<open>Two requests in flight\<close>

lemma slot_one_rests:
  assumes "rested_from 1 limit r" "kr_current r = 1" "1 < length (kr_keys r)"
    and "0 < stamp" "now \<le> limit" "limit < stamp + kr_cooldown r" "0 \<le> kr_cooldown r"
  shows "snd (rotate_key stamp now r) = (if 2 < length (kr_keys r) then Some (kr_keys r ! 2) else None)"
    and "rested_from 2 limit (fst (rotate_key stamp now r))"
proof -
  let ?m = "r\<lparr>kr_until := (kr_until r)(kr_current r \<mapsto> stamp + kr_cooldown r),
              kr_current := (kr_current r + 1) mod length (kr_keys r)\<rparr>"
  have m: "rested_from 2 limit ?m"
    using assms by (auto simp: rested_from_def)
  have "rotate_key stamp now r = get_available_key now ?m"
    by (simp add: rotate_key_def)
  then show "snd (rotate_key stamp now r) = (if 2 < length (kr_keys r) then Some (kr_keys r ! 2) else None)"
    "rested_from 2 limit (fst (rotate_key stamp now r))"
    using get_after_failures [OF m assms(5)] m by simp_all
qed

lemma rotate_key_keys: "kr_keys (fst (rotate_key stamp now r)) = kr_keys r"
  by (simp add: rotate_key_def get_available_key_def split: option.splits)

text \<open>
  A rotation is charged to the current slot and not to the key that failed. Two requests that
  both left with the first key, whose answers both report an exhausted quota, put two
  keys to rest: the second key, which never failed, stays unavailable for its whole cooldown,
  and with two keys the second request is not retried and no key is left.
\<close>

theorem late_failure_rests_a_good_key:
  assumes "new_ring keys cd provider = Some r" "2 \<le> length keys"
    and "rotates first_answer" "rotates second_answer"
    and "0 < s1" "0 < s2" "n1 \<le> limit" "n2 \<le> limit" "limit < s1 + cd" "limit < s2 + cd" "now \<le> limit" "0 \<le> cd"
  shows "get_available_key t r = (r, Some (keys ! 0)) \<and>
    (let (r1, retry1) = after_response s1 n1 first_answer r;
         (r2, retry2) = after_response s2 n2 second_answer r1
     in retry1 = Some (keys ! 1) \<and> \<not> slot_available (kr_until r2) now 1 \<and>
        (length keys = 2 \<longrightarrow> retry2 = None \<and> snd (get_available_key now r2) = None))"
proof -
  have r: "kr_keys r = keys" "kr_cooldown r = cd" "kr_current r = 0" "rested_from 0 lim r" for lim
    using assms(1) by (auto simp: new_ring_def rested_from_def split: if_splits)
  have start: "get_available_key t r = (r, Some (keys ! 0))"
    using get_after_failures [OF r(4) order_refl, of t] r(1,3) assms(2) by auto
  let ?m = "r\<lparr>kr_until := (kr_until r)(0 \<mapsto> s1 + cd), kr_current := 1\<rparr>"
  have m: "rested_from 1 limit ?m"
    using r assms by (auto simp: rested_from_def)
  have one: "after_response s1 n1 first_answer r = (?m, Some (keys ! 1))"
    using assms r get_after_failures [OF m assms(7)]
    by (simp add: after_response_def has_alternatives_def rotate_key_def)
  have two: "after_response s2 n2 second_answer ?m = rotate_key s2 n2 ?m"
    using assms r by (simp add: after_response_def has_alternatives_def)
  have rest: "snd (rotate_key s2 n2 ?m) = (if 2 < length keys then Some (keys ! 2) else None)"
    using slot_one_rests(1) [OF m, of s2 n2] assms r by simp
  have rest2: "rested_from 2 limit (fst (rotate_key s2 n2 ?m))"
    by (rule slot_one_rests(2) [OF m]) (use assms r in simp_all)
  have "\<not> slot_available (kr_until (fst (rotate_key s2 n2 ?m))) now 1"
    using rest2 [unfolded rested_from_def, THEN spec, of 1] assms(11)
    by (auto simp: slot_available_def)
  moreover have "snd (get_available_key now (fst (rotate_key s2 n2 ?m))) = None" if "length keys = 2"
    using get_after_failures [OF rest2 assms(11)] that r(1) rotate_key_keys [of s2 n2 ?m] by simp
  ultimately show ?thesis
    using start one two rest by (auto simp: case_prod_beta Let_def)
qed

definition demo_quota :: response where
  "demo_quota = \<lparr>rp_status = 429, rp_retry_after = Some 30, rp_body = lit ''Insufficient_Quota''\<rparr>"

theorem late_failure_rests_a_good_key_witness:
  "snd (get_available_key 20 (fst (after_response 11 11 demo_quota
     (fst (after_response 10 10 demo_quota (the (new_ring [[1], [2]] 1800 []))))))) = None"
proof -
  have r: "new_ring [[1], [2]] 1800 [] = Some (the (new_ring [[1], [2]] 1800 []))"
    by (simp add: new_ring_def)
  have q: "rotates demo_quota" by code_simp
  show ?thesis
    using late_failure_rests_a_good_key [OF r _ q q, of 10 11 10 1000 11 20]
    by (simp add: case_prod_beta Let_def)
qed

end
