(* ===== verification/Idle_Policy.thy ===== *)
theory Idle_Policy
  imports Py_Json
begin

text \<open>
  The clock of a human wait: \<^verbatim>\<open>src/shared/workspace_idle_policy.py\<close> decides whether an idle
  workspace may be considered for release and reduces the events of an episode;
  \<^verbatim>\<open>workspace_idle_store.py\<close> commits the result under the owner's revision;
  \<^verbatim>\<open>workspace_idle_completion.py\<close> says which finished job opens a wait. Errors are the reason
  codes of \<^verbatim>\<open>IdlePolicyError\<close>. An argument of a Python type other than the declared one is
  refused with the same codes and has no value here, except in documents, which are JSON.

  A time is a datetime: local microseconds since year 1 and the offset from UTC, if it has one.
\<close>

section \<open>Times and texts\<close>

record stamp =
  st_local :: int
  st_offset :: "int option"

definition utc :: "stamp \<Rightarrow> int" where
  "utc s = st_local s - case_option 0 id (st_offset s)"

definition MAX_LOCAL :: int where "MAX_LOCAL = 315537897599999999" \<comment> \<open>datetime.max\<close>

definition add_seconds :: "stamp \<Rightarrow> int \<Rightarrow> stamp option" where
  "add_seconds s n =
     (if MAX_LOCAL < st_local s + n * 1000000 then None else Some (s\<lparr>st_local := st_local s + n * 1000000\<rparr>))"

text \<open>\<^verbatim>\<open>max(a, b)\<close>, which keeps the first of two equal times.\<close>

definition later :: "stamp \<Rightarrow> stamp \<Rightarrow> stamp" where
  "later a b = (if utc a < utc b then b else a)"

record idle_lib =
  il_uuid :: "pytext \<Rightarrow> uuid option" \<comment> \<open>uuid.UUID of a text\<close>
  il_iso :: "stamp \<Rightarrow> pytext" \<comment> \<open>datetime.isoformat\<close>
  il_parse :: "pytext \<Rightarrow> stamp option" \<comment> \<open>datetime.fromisoformat\<close>
  il_bytes :: "json \<Rightarrow> nat" \<comment> \<open>length of json.dumps\<close>

section \<open>Values\<close>

record runtime_identity =
  ri_owner_kind :: pytext
  ri_owner_id :: pytext
  ri_backend :: pytext
  ri_generation :: pytext
  ri_uid :: pytext

record idle_episode =
  ie_id :: pytext
  ie_revision :: int
  ie_kind :: pytext
  ie_key :: pytext
  ie_entered :: stamp
  ie_override :: "stamp option"
  ie_extends :: int
  ie_runtime :: runtime_identity

record activity_lease =
  al_kind :: pytext
  al_runtime :: runtime_identity
  al_expires :: stamp
  al_live :: bool

record idle_decision =
  id_state :: string
  id_reason :: string
  id_due :: "stamp option"
  id_episode :: "pytext option"
  id_revision :: "int option"

definition DEFAULT_WARM_SECONDS :: int where "DEFAULT_WARM_SECONDS = 900"

definition WAIT_KINDS :: "pytext list" where
  "WAIT_KINDS = map lit [''human_message'', ''human_approval'', ''human_review'', ''human_pause'', ''natural_pause'']"

definition LEASE_KINDS :: "pytext list" where
  "LEASE_KINDS = map lit [''execution'', ''dependent'', ''access'', ''operation'']"

definition MAX_INTEGER :: int where "MAX_INTEGER = 2 ^ 63 - 1"

section \<open>Checks\<close>

definition check_integer :: "int \<Rightarrow> int \<Rightarrow> string + int" where
  "check_integer lo n = (if lo \<le> n \<and> n \<le> MAX_INTEGER then Inr n else Inl ''invalid_idle_state'')"

definition canonical_uuid :: "idle_lib \<Rightarrow> pytext \<Rightarrow> bool" where
  "canonical_uuid l s = (case il_uuid l s of None \<Rightarrow> False | Some u \<Rightarrow> uuid_text u = s)"

definition check_uuid :: "idle_lib \<Rightarrow> pytext \<Rightarrow> string + unit" where
  "check_uuid l s = (if canonical_uuid l s then Inr () else Inl ''invalid_idle_identity'')"

definition check_time :: "stamp \<Rightarrow> string + unit" where
  "check_time s = (if st_offset s = None then Inl ''invalid_idle_time'' else Inr ())"

definition check_runtime :: "idle_lib \<Rightarrow> runtime_identity \<Rightarrow> string + unit" where
  "check_runtime l r =
     (if ri_owner_kind r \<notin> {lit ''job'', lit ''thread''} \<or> ri_backend r \<notin> {lit ''vm'', lit ''kubernetes''}
      then Inl ''invalid_idle_identity''
      else bind_ok (check_uuid l (ri_owner_id r)) (\<lambda>_. bind_ok (check_uuid l (ri_generation r)) (\<lambda>_.
           check_uuid l (ri_uid r))))"

definition check_override :: "idle_episode \<Rightarrow> string + unit" where
  "check_override e =
     (case ie_override e of None \<Rightarrow> Inr ()
      | Some o' \<Rightarrow> bind_ok (check_time o') (\<lambda>_.
          if utc o' < utc (ie_entered e) then Inl ''invalid_idle_time'' else Inr ()))"

definition check_episode :: "idle_lib \<Rightarrow> idle_episode \<Rightarrow> string + unit" where
  "check_episode l e =
     (if ie_kind e \<notin> set WAIT_KINDS then Inl ''invalid_idle_state''
      else bind_ok (check_uuid l (ie_id e)) (\<lambda>_. bind_ok (check_uuid l (ie_key e)) (\<lambda>_.
           bind_ok (check_integer 1 (ie_revision e)) (\<lambda>_. bind_ok (check_integer 0 (ie_extends e)) (\<lambda>_.
           if (0 < ie_extends e) \<noteq> (ie_override e \<noteq> None) then Inl ''invalid_idle_state''
           else bind_ok (check_time (ie_entered e)) (\<lambda>_. bind_ok (check_runtime l (ie_runtime e)) (\<lambda>_.
             check_override e)))))))"

definition idle_due :: "idle_episode \<Rightarrow> int option \<Rightarrow> string + stamp option" where
  "idle_due e warm =
     (case warm of None \<Rightarrow> Inr None
      | Some n \<Rightarrow> bind_ok (check_integer 1 n) (\<lambda>_.
          case add_seconds (ie_entered e) n of None \<Rightarrow> Inl ''invalid_idle_time''
          | Some due \<Rightarrow> Inr (Some (later due (case_option due id (ie_override e))))))"

section \<open>The decision\<close>

record idle_holds =
  ih_control :: bool
  ih_recovery :: bool
  ih_cleanup :: bool
  ih_restore :: bool

definition hold_reason :: "idle_holds \<Rightarrow> string option" where
  "hold_reason h =
     (if ih_control h then Some ''control_hold'' else if ih_recovery h then Some ''recovery_hold''
      else if ih_cleanup h then Some ''cleanup_hold'' else if ih_restore h then Some ''restore_hold'' else None)"

text \<open>The leases in order: an error, a reason to block, or whether one of them is active.\<close>

datatype lease_scan = Lease_Error string | Lease_Blocks string | Lease_Active bool

fun scan_leases :: "idle_lib \<Rightarrow> stamp \<Rightarrow> runtime_identity \<Rightarrow> activity_lease list \<Rightarrow> bool \<Rightarrow> lease_scan" where
  "scan_leases l now rt [] act = Lease_Active act"
| "scan_leases l now rt (x # xs) act =
     (if al_kind x \<notin> set LEASE_KINDS then Lease_Error ''invalid_activity_lease''
      else case bind_ok (check_runtime l (al_runtime x)) (\<lambda>_. check_time (al_expires x)) of
        Inl c \<Rightarrow> Lease_Error c
      | Inr _ \<Rightarrow>
          if \<not> al_live x then Lease_Blocks ''activity_authority_unproven''
          else if al_runtime x \<noteq> rt then Lease_Blocks ''activity_runtime_changed''
          else scan_leases l now rt xs (act \<or> utc now < utc (al_expires x)))"

definition blocked :: "string \<Rightarrow> idle_decision" where
  "blocked reason = \<lparr>id_state = ''blocked'', id_reason = reason, id_due = None, id_episode = None, id_revision = None\<rparr>"

definition decided :: "idle_episode \<Rightarrow> stamp option \<Rightarrow> string \<Rightarrow> string \<Rightarrow> idle_decision" where
  "decided e due st reason =
     \<lparr>id_state = st, id_reason = reason, id_due = due, id_episode = Some (ie_id e), id_revision = Some (ie_revision e)\<rparr>"

definition decide_vetoes ::
  "idle_lib \<Rightarrow> stamp \<Rightarrow> runtime_identity \<Rightarrow> activity_lease list \<Rightarrow> idle_holds \<Rightarrow> stamp option \<Rightarrow> string + string \<times> string" where
  "decide_vetoes l now rt leases h due =
     (if 1024 < length leases then Inl ''invalid_activity_lease''
      else case scan_leases l now rt leases False of
        Lease_Error c \<Rightarrow> Inl c
      | Lease_Blocks r \<Rightarrow> Inr (''blocked'', r)
      | Lease_Active act \<Rightarrow>
          Inr (case hold_reason h of Some r \<Rightarrow> (''held'', r)
           | None \<Rightarrow>
               (case due of None \<Rightarrow> (''held'', ''never_suspend'')
                | Some d \<Rightarrow>
                    if act then (''held'', ''activity_lease'')
                    else if utc now < utc d then (''warm'', ''human_wait_warm'')
                    else (''eligible'', ''human_wait_elapsed''))))"

definition evaluate_checked ::
  "idle_lib \<Rightarrow> idle_episode option \<Rightarrow> stamp \<Rightarrow> runtime_identity \<Rightarrow> bool \<Rightarrow> bool \<Rightarrow> bool \<Rightarrow> int option
   \<Rightarrow> activity_lease list \<Rightarrow> idle_holds \<Rightarrow> string + idle_decision" where
  "evaluate_checked l ep now rt waiting supported enabled warm leases h =
     bind_ok (check_time now) (\<lambda>_. bind_ok (check_runtime l rt) (\<lambda>_.
       case ep of None \<Rightarrow> Inr (blocked ''not_human_wait'')
       | Some e \<Rightarrow>
           bind_ok (check_episode l e) (\<lambda>_.
           if utc now < utc (ie_entered e) then Inl ''invalid_idle_time''
           else bind_ok (idle_due e warm) (\<lambda>due.
             if ie_runtime e \<noteq> rt then Inr (decided e due ''blocked'' ''runtime_changed'')
             else if \<not> enabled then Inr (decided e due ''blocked'' ''policy_disabled'')
             else if \<not> supported then Inr (decided e due ''blocked'' ''unsupported_runtime'')
             else if \<not> waiting then Inr (decided e due ''blocked'' ''not_human_wait'')
             else map_ok (\<lambda>(st, r). decided e due st r) (decide_vetoes l now rt leases h due)))))"

definition evaluate_idle ::
  "idle_lib \<Rightarrow> idle_episode option \<Rightarrow> stamp \<Rightarrow> runtime_identity \<Rightarrow> bool \<Rightarrow> bool \<Rightarrow> bool \<Rightarrow> int option
   \<Rightarrow> activity_lease list \<Rightarrow> idle_holds \<Rightarrow> idle_decision" where
  "evaluate_idle l ep now rt waiting supported enabled warm leases h =
     (case evaluate_checked l ep now rt waiting supported enabled warm leases h of
        Inl c \<Rightarrow> blocked c | Inr d \<Rightarrow> d)"

section \<open>Transitions\<close>

text \<open>The fence, then the event; \<^verbatim>\<open>fresh\<close> is \<^verbatim>\<open>str(uuid4())\<close>.\<close>

definition check_prior ::
  "idle_lib \<Rightarrow> idle_episode option \<Rightarrow> int \<Rightarrow> pytext option \<Rightarrow> runtime_identity \<Rightarrow> stamp \<Rightarrow> string + unit" where
  "check_prior l prior cur expected rt now =
     (case prior of
        None \<Rightarrow> if expected \<noteq> None then Inl ''episode_changed'' else Inr ()
      | Some e \<Rightarrow>
          bind_ok (check_episode l e) (\<lambda>_.
          if ie_revision e \<noteq> cur \<or> Some (ie_id e) \<noteq> expected then Inl ''episode_changed''
          else if utc now < utc (ie_entered e) then Inl ''invalid_idle_time''
          else if ri_owner_kind (ie_runtime e) \<noteq> ri_owner_kind rt \<or> ri_owner_id (ie_runtime e) \<noteq> ri_owner_id rt
          then Inl ''runtime_owner_changed'' else Inr ()))"

definition renumber :: "idle_episode \<Rightarrow> int \<Rightarrow> string + idle_episode option \<times> int" where
  "renumber e cur = map_ok (\<lambda>n. (Some (e\<lparr>ie_revision := n\<rparr>), n)) (check_integer 0 (cur + 1))"

definition rebind_episode ::
  "idle_episode \<Rightarrow> int \<Rightarrow> runtime_identity \<Rightarrow> string + idle_episode option \<times> int" where
  "rebind_episode e cur rt =
     (if ie_runtime e = rt then Inr (Some e, cur) else renumber (e\<lparr>ie_runtime := rt\<rparr>) cur)"

definition extend_episode ::
  "idle_episode \<Rightarrow> int \<Rightarrow> stamp \<Rightarrow> int option \<Rightarrow> int \<Rightarrow> string + idle_episode option \<times> int" where
  "extend_episode e cur now warm cap =
     bind_ok (check_integer 0 cap) (\<lambda>_.
     bind_ok (idle_due e warm) (\<lambda>due.
       case (due, warm) of
         (Some d, Some n) \<Rightarrow>
           if cap \<le> ie_extends e then Inl ''extension_limit''
           else (case add_seconds now n of None \<Rightarrow> Inl ''invalid_idle_time''
             | Some until \<Rightarrow>
                 bind_ok (check_integer 0 (ie_extends e + 1)) (\<lambda>k.
                   renumber (e\<lparr>ie_override := Some (later d until), ie_extends := k\<rparr>) cur))
       | _ \<Rightarrow> Inr (Some e, cur)))"

definition enter_episode ::
  "idle_lib \<Rightarrow> pytext \<Rightarrow> idle_episode option \<Rightarrow> int \<Rightarrow> runtime_identity \<Rightarrow> stamp \<Rightarrow> pytext option \<Rightarrow> pytext option
   \<Rightarrow> string + idle_episode option \<times> int" where
  "enter_episode l fresh prior cur rt now kind key =
     (case kind of None \<Rightarrow> Inl ''invalid_idle_event''
      | Some k \<Rightarrow>
          if k \<notin> set WAIT_KINDS then Inl ''invalid_idle_event''
          else (case key of None \<Rightarrow> Inl ''invalid_idle_identity''
            | Some q \<Rightarrow> bind_ok (check_uuid l q) (\<lambda>_.
                case (if (case prior of None \<Rightarrow> False | Some e \<Rightarrow> ie_kind e = k \<and> ie_key e = q) then prior else None) of
                  Some e \<Rightarrow> rebind_episode e cur rt
                | None \<Rightarrow>
                    map_ok (\<lambda>n. (Some \<lparr>ie_id = fresh, ie_revision = n, ie_kind = k, ie_key = q, ie_entered = now,
                                  ie_override = None, ie_extends = 0, ie_runtime = rt\<rparr>, n))
                      (check_integer 0 (cur + 1)))))"

definition IDLE_EVENTS :: "string list" where
  "IDLE_EVENTS = [''enter'', ''exit'', ''rebind'', ''extend'', ''presence'']"

definition transition_idle_episode ::
  "idle_lib \<Rightarrow> pytext \<Rightarrow> idle_episode option \<Rightarrow> int \<Rightarrow> pytext option \<Rightarrow> string \<Rightarrow> runtime_identity \<Rightarrow> stamp
   \<Rightarrow> pytext option \<Rightarrow> pytext option \<Rightarrow> int option \<Rightarrow> int \<Rightarrow> string + idle_episode option \<times> int" where
  "transition_idle_episode l fresh prior cur expected event rt now kind key warm cap =
     bind_ok (check_integer 0 cur) (\<lambda>_. bind_ok (check_time now) (\<lambda>_. bind_ok (check_runtime l rt) (\<lambda>_.
     bind_ok (check_prior l prior cur expected rt now) (\<lambda>_.
       if event \<notin> set IDLE_EVENTS then Inl ''invalid_idle_event''
       else if event = ''presence'' \<or> (event = ''exit'' \<and> prior = None) then Inr (prior, cur)
       else if event = ''enter'' then enter_episode l fresh prior cur rt now kind key
       else if event \<noteq> ''rebind'' \<and> (case prior of None \<Rightarrow> False | Some e \<Rightarrow> ie_runtime e \<noteq> rt)
       then Inl ''runtime_changed''
       else if event = ''exit'' then map_ok (\<lambda>n. (None, n)) (check_integer 0 (cur + 1))
       else case prior of None \<Rightarrow> Inl ''episode_missing''
         | Some e \<Rightarrow> if event = ''rebind'' then rebind_episode e cur rt else extend_episode e cur now warm cap))))"

section \<open>Documents\<close>

definition runtime_document :: "runtime_identity \<Rightarrow> json" where
  "runtime_document r =
     JObj [(lit ''owner_kind'', JStr (ri_owner_kind r)), (lit ''owner_id'', JStr (ri_owner_id r)),
           (lit ''backend'', JStr (ri_backend r)), (lit ''runtime_generation'', JStr (ri_generation r)),
           (lit ''runtime_uid'', JStr (ri_uid r))]"

definition document_of :: "idle_lib \<Rightarrow> idle_episode \<Rightarrow> json" where
  "document_of l e =
     JObj [(lit ''episode_id'', JStr (ie_id e)), (lit ''wait_kind'', JStr (ie_kind e)), (lit ''wait_key'', JStr (ie_key e)),
           (lit ''entered_at'', JStr (il_iso l (ie_entered e))),
           (lit ''override_until'', case ie_override e of None \<Rightarrow> JNull | Some o' \<Rightarrow> JStr (il_iso l o')),
           (lit ''extend_count'', JInt (ie_extends e)), (lit ''runtime_identity'', runtime_document (ie_runtime e)),
           (lit ''version'', JInt 1)]"

definition episode_document :: "idle_lib \<Rightarrow> idle_episode option \<Rightarrow> string + json option" where
  "episode_document l ep =
     (case ep of None \<Rightarrow> Inr None | Some e \<Rightarrow> map_ok (\<lambda>_. Some (document_of l e)) (check_episode l e))"

definition document_keys :: "pytext set" where
  "document_keys = {lit ''version'', lit ''episode_id'', lit ''wait_kind'', lit ''wait_key'', lit ''entered_at'',
     lit ''override_until'', lit ''extend_count'', lit ''runtime_identity''}"

definition runtime_keys :: "pytext set" where
  "runtime_keys = {lit ''owner_kind'', lit ''owner_id'', lit ''backend'', lit ''runtime_generation'', lit ''runtime_uid''}"

definition read_runtime :: "json \<Rightarrow> runtime_identity option" where
  "read_runtime v =
     (case v of JObj d \<Rightarrow>
        if keys d \<noteq> runtime_keys then None
        else (case (jget d (lit ''owner_kind''), jget d (lit ''owner_id''), jget d (lit ''backend''),
                    jget d (lit ''runtime_generation''), jget d (lit ''runtime_uid'')) of
          (JStr a, JStr b, JStr c, JStr g, JStr u) \<Rightarrow>
            Some \<lparr>ri_owner_kind = a, ri_owner_id = b, ri_backend = c, ri_generation = g, ri_uid = u\<rparr>
        | _ \<Rightarrow> None)
      | _ \<Rightarrow> None)"

definition read_stamp :: "idle_lib \<Rightarrow> json \<Rightarrow> stamp option" where
  "read_stamp l v = (case v of JStr s \<Rightarrow> il_parse l s | _ \<Rightarrow> None)"

definition read_override :: "idle_lib \<Rightarrow> json \<Rightarrow> stamp option option" where
  "read_override l v = (case v of JNull \<Rightarrow> Some None | _ \<Rightarrow> map_option Some (read_stamp l v))"

text \<open>Every way a document can be wrong is the one error; the size is that of the whole document.\<close>

definition read_fields :: "idle_lib \<Rightarrow> fields \<Rightarrow> int \<Rightarrow> idle_episode option" where
  "read_fields l d cur =
     (if keys d \<noteq> document_keys \<or> jget d (lit ''version'') \<noteq> JInt 1 \<or> 4096 < il_bytes l (JObj d) then None
      else case (read_runtime (jget d (lit ''runtime_identity'')), read_stamp l (jget d (lit ''entered_at'')),
                 read_override l (jget d (lit ''override_until''))) of
        (Some rt, Some entered, Some ov) \<Rightarrow>
          (case (jget d (lit ''episode_id''), jget d (lit ''wait_kind''), jget d (lit ''wait_key''),
                 jget d (lit ''extend_count'')) of
             (JStr i, JStr k, JStr q, JInt n) \<Rightarrow>
               Some \<lparr>ie_id = i, ie_revision = cur, ie_kind = k, ie_key = q, ie_entered = entered, ie_override = ov,
                     ie_extends = n, ie_runtime = rt\<rparr>
           | _ \<Rightarrow> None)
      | _ \<Rightarrow> None)"

definition read_episode :: "idle_lib \<Rightarrow> json option \<Rightarrow> int \<Rightarrow> string + idle_episode option" where
  "read_episode l doc cur =
     bind_ok (check_integer 0 cur) (\<lambda>_.
       case doc of None \<Rightarrow> Inr None
       | Some v \<Rightarrow>
           (case (case v of JObj d \<Rightarrow> read_fields l d cur | _ \<Rightarrow> None) of
              None \<Rightarrow> Inl ''invalid_idle_state''
            | Some e \<Rightarrow> (case check_episode l e of Inl _ \<Rightarrow> Inl ''invalid_idle_state'' | Inr _ \<Rightarrow> Inr (Some e))))"

end
