(* ===== verification/Idle_Store.thy ===== *)
theory Idle_Store
  imports Idle_Policy
begin

text \<open>
  The owner rows of \<^verbatim>\<open>workspace_idle_store.py\<close>: a job or a thread keeps the revision and the
  document of its idle episode, and \<^verbatim>\<open>apply_idle_transition_on_conn\<close> advances both under the
  row lock. A JSON column holding text or an object reads the same, and a JSON null reads as no
  document. The step relation has one step per committed call.
\<close>

section \<open>Owner rows\<close>

record idle_owner =
  io_kind :: pytext
  io_id :: uuid
  io_revision :: int
  io_episode :: "json option"

definition owner_key :: "idle_owner \<Rightarrow> pytext \<times> uuid" where
  "owner_key r = (io_kind r, io_id r)"

record idle_request =
  rq_runtime :: runtime_identity
  rq_event :: string
  rq_revision :: int
  rq_episode :: "pytext option"
  rq_kind :: "pytext option"
  rq_key :: "pytext option"
  rq_warm :: "int option"
  rq_cap :: int

definition loaded_document :: "json option \<Rightarrow> json option" where
  "loaded_document d = (if d = Some JNull then None else d)"

definition owner_of :: "idle_lib \<Rightarrow> runtime_identity \<Rightarrow> string + pytext \<times> uuid" where
  "owner_of l rt =
     (if ri_owner_kind rt \<notin> {lit ''job'', lit ''thread''} then Inl ''invalid_idle_identity''
      else case il_uuid l (ri_owner_id rt) of
        None \<Rightarrow> Inl ''invalid_idle_identity''
      | Some u \<Rightarrow> if uuid_text u \<noteq> ri_owner_id rt then Inl ''invalid_idle_identity'' else Inr (ri_owner_kind rt, u))"

text \<open>The new row of the call, or no change; \<^verbatim>\<open>now\<close> is the database clock after the lock.\<close>

definition idle_update ::
  "idle_lib \<Rightarrow> stamp \<Rightarrow> pytext \<Rightarrow> idle_owner \<Rightarrow> idle_request \<Rightarrow> string + (idle_episode option \<times> int) \<times> idle_owner" where
  "idle_update l now fresh r q =
     (if rq_revision q \<noteq> io_revision r then Inl ''episode_changed''
      else bind_ok (read_episode l (loaded_document (io_episode r)) (io_revision r)) (\<lambda>prior.
        bind_ok (transition_idle_episode l fresh prior (rq_revision q) (rq_episode q) (rq_event q) (rq_runtime q)
                   now (rq_kind q) (rq_key q) (rq_warm q) (rq_cap q)) (\<lambda>(ep, n).
          if n = rq_revision q then Inr ((ep, n), r)
          else map_ok (\<lambda>doc. ((ep, n), r\<lparr>io_revision := n, io_episode := doc\<rparr>)) (episode_document l ep))))"

definition apply_idle_transition ::
  "idle_lib \<Rightarrow> bool \<Rightarrow> stamp \<Rightarrow> pytext \<Rightarrow> idle_owner list \<Rightarrow> idle_request
   \<Rightarrow> (string + idle_episode option \<times> int) \<times> idle_owner list" where
  "apply_idle_transition l in_txn now fresh rows q =
     (if \<not> in_txn then (Inl ''idle_transaction_required'', rows)
      else case owner_of l (rq_runtime q) of
        Inl c \<Rightarrow> (Inl c, rows)
      | Inr k \<Rightarrow>
          (case find_by owner_key k rows of
             None \<Rightarrow> (Inl ''idle_owner_missing'', rows)
           | Some r \<Rightarrow>
               (case idle_update l now fresh r q of
                  Inl c \<Rightarrow> (Inl c, rows)
                | Inr (v, r') \<Rightarrow> (Inr v, put_by owner_key r' rows))))"

section \<open>Runs\<close>

text \<open>
  A committed call: the clock and the new identifier are those of the call, and the identifier is
  the text of a UUID, as \<^verbatim>\<open>str(uuid4())\<close> is. \<^verbatim>\<open>cap\<close> bounds the extension caps of the callers.
\<close>

inductive idle_step :: "idle_lib \<Rightarrow> int \<Rightarrow> idle_owner list \<Rightarrow> idle_owner list \<Rightarrow> bool" for l cap where
  "apply_idle_transition l True now fresh rows q = (Inr v, rows') \<Longrightarrow> canonical_uuid l fresh \<Longrightarrow> rq_cap q \<le> cap
   \<Longrightarrow> idle_step l cap rows rows'"

definition untouched :: "idle_owner \<Rightarrow> bool" where
  "untouched r \<longleftrightarrow> io_revision r = 0 \<and> io_episode r = None"

inductive idle_reachable :: "idle_lib \<Rightarrow> int \<Rightarrow> idle_owner list \<Rightarrow> bool" for l cap where
  idle_start: "\<forall>r \<in> set rows. untouched r \<Longrightarrow> idle_reachable l cap rows"
| idle_next: "idle_reachable l cap rows \<Longrightarrow> idle_step l cap rows rows' \<Longrightarrow> idle_reachable l cap rows'"

inductive_cases idle_step_elim: "idle_step l cap rows rows'"

end
