(* ===== verification/Idle_Laws.thy ===== *)
theory Idle_Laws
  imports Idle_Store
begin

text \<open>
  Laws of the idle policy: what a valid episode is, what each event keeps of it, and the round
  trip of its document, stated as the interface \<^verbatim>\<open>episode_codec\<close> the store relies on.
\<close>

named_theorems idle_defs \<open>definitions of the checks of an episode\<close>

section \<open>Valid episodes\<close>

definition valid_runtime :: "idle_lib \<Rightarrow> runtime_identity \<Rightarrow> bool" where
  "valid_runtime l r \<longleftrightarrow> check_runtime l r = Inr ()"

definition valid_episode :: "idle_lib \<Rightarrow> idle_episode \<Rightarrow> bool" where
  "valid_episode l e \<longleftrightarrow> check_episode l e = Inr ()"

lemma check_integer_Inr [simp]: "check_integer a n = Inr k \<longleftrightarrow> k = n \<and> a \<le> n \<and> n \<le> MAX_INTEGER"
  by (auto simp: check_integer_def)

lemma check_uuid_Inr [simp]: "check_uuid l s = Inr u \<longleftrightarrow> canonical_uuid l s"
  by (simp add: check_uuid_def)

lemma check_time_Inr [simp]: "check_time s = Inr u \<longleftrightarrow> st_offset s \<noteq> None"
  by (simp add: check_time_def)

lemma check_runtime_Inr [simp]: "check_runtime l r = Inr u \<longleftrightarrow> valid_runtime l r"
  by (simp add: valid_runtime_def)

lemma check_episode_Inr [simp]: "check_episode l e = Inr u \<longleftrightarrow> valid_episode l e"
  by (simp add: valid_episode_def)

lemma check_override_Inr:
  "check_override e = Inr u \<longleftrightarrow>
     (case ie_override e of None \<Rightarrow> True | Some v \<Rightarrow> st_offset v \<noteq> None \<and> utc (ie_entered e) \<le> utc v)"
  by (auto simp: check_override_def bind_ok_Inr split: option.split)

lemma valid_episode_iff:
  "valid_episode l e \<longleftrightarrow>
     ie_kind e \<in> set WAIT_KINDS \<and> canonical_uuid l (ie_id e) \<and> canonical_uuid l (ie_key e)
     \<and> 1 \<le> ie_revision e \<and> ie_revision e \<le> MAX_INTEGER \<and> 0 \<le> ie_extends e \<and> ie_extends e \<le> MAX_INTEGER
     \<and> (0 < ie_extends e \<longleftrightarrow> ie_override e \<noteq> None) \<and> st_offset (ie_entered e) \<noteq> None \<and> valid_runtime l (ie_runtime e)
     \<and> (case ie_override e of None \<Rightarrow> True | Some v \<Rightarrow> st_offset v \<noteq> None \<and> utc (ie_entered e) \<le> utc v)"
  by (auto simp: valid_episode_def check_episode_def bind_ok_Inr check_override_Inr
      simp del: check_episode_Inr)

lemma utc_later [simp]: "utc (later a b) = max (utc a) (utc b)"
  by (simp add: later_def)

lemma offset_later: "st_offset a \<noteq> None \<Longrightarrow> st_offset b \<noteq> None \<Longrightarrow> st_offset (later a b) \<noteq> None"
  by (simp add: later_def)

lemma add_seconds_Some:
  "add_seconds s n = Some t \<Longrightarrow> utc t = utc s + n * 1000000 \<and> st_offset t = st_offset s"
  by (auto simp: add_seconds_def utc_def split: if_splits)

text \<open>The due time of a warm window: the window after entry, or the extension if that is later.\<close>

lemma idle_due_Inr:
  assumes "idle_due e (Some n) = Inr due"
  obtains t d where "1 \<le> n" "n \<le> MAX_INTEGER" "add_seconds (ie_entered e) n = Some t" "due = Some d"
    "d = later t (case_option t id (ie_override e))"
    "utc d = max (utc (ie_entered e) + n * 1000000) (case_option (utc (ie_entered e) + n * 1000000) utc (ie_override e))"
proof -
  obtain t where t: "add_seconds (ie_entered e) n = Some t" and n: "1 \<le> n" "n \<le> MAX_INTEGER"
    and due: "due = Some (later t (case_option t id (ie_override e)))"
    using assms by (auto simp: idle_due_def bind_ok_Inr split: option.splits)
  show thesis
    by (rule that [OF n t due refl]) (use add_seconds_Some [OF t] in \<open>auto split: option.splits\<close>)
qed

lemma idle_due_None [simp]: "idle_due e None = Inr None"
  by (simp add: idle_due_def)

section \<open>Events\<close>

definition same_owner :: "runtime_identity \<Rightarrow> runtime_identity \<Rightarrow> bool" where
  "same_owner a b \<longleftrightarrow> ri_owner_kind a = ri_owner_kind b \<and> ri_owner_id a = ri_owner_id b"

lemma renumber_Inr [simp]:
  "renumber e cur = Inr v \<longleftrightarrow> v = (Some (e\<lparr>ie_revision := cur + 1\<rparr>), cur + 1) \<and> 0 \<le> cur + 1 \<and> cur + 1 \<le> MAX_INTEGER"
  by (auto simp: renumber_def map_ok_Inr)

lemma rebind_episode_Inr:
  assumes "rebind_episode e cur rt = Inr (ep, n)"
  shows "(ep = Some e \<and> n = cur \<and> ie_runtime e = rt) \<or>
    (ep = Some (e\<lparr>ie_runtime := rt, ie_revision := cur + 1\<rparr>) \<and> n = cur + 1 \<and> ie_runtime e \<noteq> rt \<and> n \<le> MAX_INTEGER)"
  using assms by (auto simp: rebind_episode_def split: if_splits)

lemma extend_episode_Inr:
  assumes "extend_episode e cur now warm cap = Inr (ep, n)"
  shows "(ep = Some e \<and> n = cur \<and> warm = None) \<or>
    (\<exists>w t d u. warm = Some w \<and> idle_due e warm = Inr (Some d) \<and> add_seconds now w = Some u
       \<and> t = later d u \<and> ie_extends e < cap \<and> cap \<le> MAX_INTEGER \<and> 1 \<le> w
       \<and> ep = Some (e\<lparr>ie_override := Some t, ie_extends := ie_extends e + 1, ie_revision := cur + 1\<rparr>)
       \<and> n = cur + 1 \<and> n \<le> MAX_INTEGER)"
proof (cases warm)
  case None
  then show ?thesis using assms by (auto simp: extend_episode_def bind_ok_Inr)
next
  case (Some w)
  with assms obtain due where due: "idle_due e (Some w) = Inr due"
    by (auto simp: extend_episode_def bind_ok_Inr)
  obtain d where "due = Some d" "1 \<le> w" using idle_due_Inr [OF due] by blast
  with Some assms due show ?thesis
    by (auto simp: extend_episode_def bind_ok_Inr split: if_splits option.splits)
qed

text \<open>An accepted call passed the fence.\<close>

lemma transition_checked:
  assumes "transition_idle_episode l fresh prior cur expected event rt now kind key warm cap = Inr v"
  shows "0 \<le> cur" "cur \<le> MAX_INTEGER" "st_offset now \<noteq> None" "valid_runtime l rt" "event \<in> set IDLE_EVENTS"
    "prior = None \<Longrightarrow> expected = None"
    "prior = Some e \<Longrightarrow> valid_episode l e \<and> ie_revision e = cur \<and> expected = Some (ie_id e)
       \<and> utc (ie_entered e) \<le> utc now \<and> same_owner (ie_runtime e) rt"
  using assms
  by (auto simp: transition_idle_episode_def bind_ok_Inr check_prior_def same_owner_def
      split: if_splits option.splits)

definition opened :: "pytext \<Rightarrow> int \<Rightarrow> runtime_identity \<Rightarrow> stamp \<Rightarrow> pytext \<Rightarrow> pytext \<Rightarrow> idle_episode" where
  "opened fresh cur rt now k q =
     \<lparr>ie_id = fresh, ie_revision = cur + 1, ie_kind = k, ie_key = q, ie_entered = now,
      ie_override = None, ie_extends = 0, ie_runtime = rt\<rparr>"

lemma enter_episode_Inr:
  assumes "enter_episode l fresh prior cur rt now kind key = Inr (ep, n)"
  obtains k q where "kind = Some k" "key = Some q" "k \<in> set WAIT_KINDS" "canonical_uuid l q"
    "(\<exists>e. prior = Some e \<and> ie_kind e = k \<and> ie_key e = q \<and> rebind_episode e cur rt = Inr (ep, n)) \<or>
     (ep = Some (opened fresh cur rt now k q) \<and> n = cur + 1 \<and> n \<le> MAX_INTEGER
      \<and> (\<forall>e. prior = Some e \<longrightarrow> (ie_kind e, ie_key e) \<noteq> (k, q)))"
proof -
  obtain k q where kq: "kind = Some k" "key = Some q" "k \<in> set WAIT_KINDS" "canonical_uuid l q"
    using assms by (auto simp: enter_episode_def bind_ok_Inr split: option.splits if_splits)
  show thesis
    by (rule that [OF kq])
      (use assms kq in \<open>auto simp: enter_episode_def bind_ok_Inr map_ok_Inr opened_def
          split: option.splits if_splits\<close>)
qed

text \<open>What an accepted call can have done.\<close>

lemma transition_cases [consumes 1, case_names same rebound opened closed extended]:
  assumes "transition_idle_episode l fresh prior cur expected event rt now kind key warm cap = Inr (ep, n)"
  obtains "ep = prior" "n = cur"
  | e where "prior = Some e" "ep = Some (e\<lparr>ie_runtime := rt, ie_revision := cur + 1\<rparr>)" "n = cur + 1"
      "n \<le> MAX_INTEGER" "ie_runtime e \<noteq> rt"
      "event = ''rebind'' \<or> event = ''enter'' \<and> kind = Some (ie_kind e) \<and> key = Some (ie_key e)"
  | k q where "ep = Some (opened fresh cur rt now k q)" "n = cur + 1" "n \<le> MAX_INTEGER" "event = ''enter''"
      "kind = Some k" "key = Some q" "k \<in> set WAIT_KINDS" "canonical_uuid l q"
      "\<forall>e. prior = Some e \<longrightarrow> (ie_kind e, ie_key e) \<noteq> (k, q)"
  | e where "prior = Some e" "ep = None" "n = cur + 1" "n \<le> MAX_INTEGER" "event = ''exit''" "ie_runtime e = rt"
  | e w d u where "prior = Some e" "event = ''extend''" "ie_runtime e = rt" "n = cur + 1" "n \<le> MAX_INTEGER"
      "warm = Some w" "1 \<le> w"
      "idle_due e warm = Inr (Some d)" "add_seconds now w = Some u" "ie_extends e < cap" "cap \<le> MAX_INTEGER"
      "ep = Some (e\<lparr>ie_override := Some (later d u), ie_extends := ie_extends e + 1, ie_revision := cur + 1\<rparr>)"
proof -
  note checked = transition_checked [OF assms]
  note body = assms [unfolded transition_idle_episode_def bind_ok_Inr]
  consider "event = ''presence'' \<or> (event = ''exit'' \<and> prior = None)"
    | "event = ''enter''" | e where "event = ''exit''" "prior = Some e"
    | "event = ''rebind''" | "event = ''extend''"
    using checked(5) by (cases prior) (auto simp: IDLE_EVENTS_def)
  then show thesis
  proof cases
    case 1
    then show thesis using body that(1) by (auto split: if_splits)
  next
    case 2
    then have "enter_episode l fresh prior cur rt now kind key = Inr (ep, n)"
      using body by (auto simp: IDLE_EVENTS_def)
    then obtain k q where k: "kind = Some k" "key = Some q" "k \<in> set WAIT_KINDS" "canonical_uuid l q"
      and r: "(\<exists>e. prior = Some e \<and> ie_kind e = k \<and> ie_key e = q \<and> rebind_episode e cur rt = Inr (ep, n)) \<or>
          (ep = Some (opened fresh cur rt now k q) \<and> n = cur + 1 \<and> n \<le> MAX_INTEGER
           \<and> (\<forall>e. prior = Some e \<longrightarrow> (ie_kind e, ie_key e) \<noteq> (k, q)))"
      by (rule enter_episode_Inr)
    from r show thesis
    proof
      assume "\<exists>e. prior = Some e \<and> ie_kind e = k \<and> ie_key e = q \<and> rebind_episode e cur rt = Inr (ep, n)"
      then obtain e where e: "prior = Some e" "ie_kind e = k" "ie_key e = q" and r: "rebind_episode e cur rt = Inr (ep, n)"
        by blast
      from rebind_episode_Inr [OF r] show thesis
        by (elim disjE conjE) (use e k 2 in \<open>auto intro: that(1) that(2)\<close>)
    next
      assume "ep = Some (opened fresh cur rt now k q) \<and> n = cur + 1 \<and> n \<le> MAX_INTEGER
           \<and> (\<forall>e. prior = Some e \<longrightarrow> (ie_kind e, ie_key e) \<noteq> (k, q))"
      then show thesis using that(3) k 2 by blast
    qed
  next
    case 3
    then show thesis
      using body that(4) by (auto simp: IDLE_EVENTS_def map_ok_Inr split: if_splits)
  next
    case 4
    then obtain e where e: "prior = Some e" and r: "rebind_episode e cur rt = Inr (ep, n)"
      using body by (auto simp: IDLE_EVENTS_def split: option.splits)
    from rebind_episode_Inr [OF r] show thesis
      by (elim disjE conjE) (use e 4 in \<open>auto intro: that(1) that(2)\<close>)
  next
    case 5
    then obtain e where e: "prior = Some e" "ie_runtime e = rt"
      and r: "extend_episode e cur now warm cap = Inr (ep, n)"
      using body by (auto simp: IDLE_EVENTS_def split: option.splits if_splits)
    from extend_episode_Inr [OF r] show thesis
      by (elim disjE exE conjE) (use e 5 in \<open>auto intro: that(1) that(5)\<close>)
  qed
qed

lemma transition_revision:
  assumes "transition_idle_episode l fresh prior cur expected event rt now kind key warm cap = Inr (ep, n)"
  shows "0 \<le> n" "n \<le> MAX_INTEGER" "n = cur \<or> n = cur + 1" "n = cur \<Longrightarrow> ep = prior"
  using transition_checked(1,2) [OF assms] by (cases rule: transition_cases [OF assms]; simp)+

end
