(* ===== verification/Idle_Behaviour.thy ===== *)
theory Idle_Behaviour
  imports Idle_Laws
begin

text \<open>
  What the idle policy promises: the round trip of documents through the interface
  \<^verbatim>\<open>episode_codec\<close>, the invariant of the owner rows over every run, the meaning of an
  \<^verbatim>\<open>eligible\<close> decision, and the monotonicity of an episode's clock.
\<close>

section \<open>Documents\<close>

locale episode_codec =
  fixes enc :: "'e \<Rightarrow> 'err + 'd"
    and dec :: "'d \<Rightarrow> int \<Rightarrow> 'err + 'e"
    and sound :: "int \<Rightarrow> 'e \<Rightarrow> bool"
  assumes enc_total: "sound n e \<Longrightarrow> \<exists>d. enc e = Inr d"
    and dec_enc: "sound n e \<Longrightarrow> enc e = Inr d \<Longrightarrow> dec d n = Inr e"
begin

lemma reads_back: "sound n e \<Longrightarrow> \<exists>d. enc e = Inr d \<and> dec d n = Inr e"
  using enc_total dec_enc by blast

lemma enc_inj: "sound n a \<Longrightarrow> sound n b \<Longrightarrow> enc a = Inr d \<Longrightarrow> enc b = Inr d \<Longrightarrow> a = b"
  by (metis dec_enc sum.inject(2))

end

text \<open>
  What the policy needs of Python's libraries: \<^verbatim>\<open>fromisoformat\<close> reads what
  \<^verbatim>\<open>isoformat\<close> printed, and the text of a document of short fields is short.
\<close>

definition idle_lib_ok :: "idle_lib \<Rightarrow> bool" where
  "idle_lib_ok l \<longleftrightarrow>
     (\<forall>s. st_offset s \<noteq> None \<longrightarrow> il_parse l (il_iso l s) = Some s) \<and>
     (\<forall>e. valid_episode l e \<longrightarrow> il_bytes l (document_of l e) \<le> 4096)"

definition sound_episode :: "idle_lib \<Rightarrow> int \<Rightarrow> idle_episode option \<Rightarrow> bool" where
  "sound_episode l n ep \<longleftrightarrow> idle_lib_ok l \<and> 0 \<le> n \<and> n \<le> MAX_INTEGER \<and>
     (case ep of None \<Rightarrow> True | Some e \<Rightarrow> valid_episode l e \<and> ie_revision e = n)"

lemma episode_document_simps [simp]:
  "episode_document l None = Inr None"
  "episode_document l (Some e) = Inr d \<longleftrightarrow> valid_episode l e \<and> d = Some (document_of l e)"
  by (auto simp: episode_document_def map_ok_Inr)

lemma lit_eq_iff [simp]: "lit a = lit b \<longleftrightarrow> a = b"
  by (auto simp: lit_def inj_map_eq_map inj_on_def)

lemma read_runtime_document [simp]: "read_runtime (runtime_document r) = Some r"
  by (auto simp: read_runtime_def runtime_document_def runtime_keys_def)

lemma read_document:
  assumes "idle_lib_ok l" "valid_episode l e"
  shows "read_episode l (Some (document_of l e)) (ie_revision e) = Inr (Some e)"
proof -
  have rev: "check_integer 0 (ie_revision e) = Inr (ie_revision e)"
    using assms(2) by (simp add: valid_episode_iff)
  have c: "check_episode l e = Inr ()" using assms(2) unfolding valid_episode_def .
  have iso: "st_offset s \<noteq> None \<Longrightarrow> il_parse l (il_iso l s) = Some s" for s
    using assms(1) by (simp add: idle_lib_ok_def)
  have size: "il_bytes l (document_of l e) \<le> 4096" using assms by (simp add: idle_lib_ok_def)
  obtain d where d: "document_of l e = JObj d" by (simp add: document_of_def)
  have flds: "keys d = document_keys" "jget d (lit ''version'') = JInt 1"
    "jget d (lit ''runtime_identity'') = runtime_document (ie_runtime e)"
    "jget d (lit ''entered_at'') = JStr (il_iso l (ie_entered e))"
    "jget d (lit ''override_until'') = (case ie_override e of None \<Rightarrow> JNull | Some v \<Rightarrow> JStr (il_iso l v))"
    "jget d (lit ''episode_id'') = JStr (ie_id e)" "jget d (lit ''wait_kind'') = JStr (ie_kind e)"
    "jget d (lit ''wait_key'') = JStr (ie_key e)" "jget d (lit ''extend_count'') = JInt (ie_extends e)"
    using d by (auto simp: document_of_def document_keys_def)
  have entered: "read_stamp l (JStr (il_iso l (ie_entered e))) = Some (ie_entered e)"
    using assms(2) by (simp add: read_stamp_def iso valid_episode_iff)
  have ov: "read_override l (case ie_override e of None \<Rightarrow> JNull | Some v \<Rightarrow> JStr (il_iso l v)) = Some (ie_override e)"
    using assms(2) by (auto simp: read_override_def read_stamp_def iso valid_episode_iff split: option.splits)
  have "read_fields l d (ie_revision e) = Some e"
    using size d by (simp add: read_fields_def flds entered ov)
  then show ?thesis
    by (simp add: read_episode_def d rev c del: check_episode_Inr check_integer_Inr)
qed

interpretation idle_documents: episode_codec "episode_document l" "read_episode l" "sound_episode l" for l
proof
  show "\<exists>d. episode_document l e = Inr d" if "sound_episode l n e" for n e
    using that by (cases e) (auto simp: sound_episode_def)
  show "read_episode l d n = Inr e" if "sound_episode l n e" "episode_document l e = Inr d" for n e d
    using that read_document [of l]
    by (cases e) (auto simp: sound_episode_def read_episode_def bind_ok_Inr)
qed

text \<open>
  Every valid episode survives storage: it has a document, and reading that document under the
  episode's revision gives the episode back.
\<close>
theorem idle_documents_read_back:
  assumes "idle_lib_ok l" "valid_episode l e"
  shows "\<exists>d. episode_document l (Some e) = Inr d \<and> read_episode l d (ie_revision e) = Inr (Some e)"
  by (rule idle_documents.reads_back) (use assms in \<open>simp add: sound_episode_def valid_episode_iff\<close>)

section \<open>Owner rows\<close>

definition belongs_to :: "idle_lib \<Rightarrow> int \<Rightarrow> idle_owner \<Rightarrow> idle_episode \<Rightarrow> bool" where
  "belongs_to l cap r e \<longleftrightarrow>
     valid_episode l e \<and> ie_revision e = io_revision r \<and> ri_owner_kind (ie_runtime e) = io_kind r
     \<and> ri_owner_id (ie_runtime e) = uuid_text (io_id r) \<and> ie_extends e \<le> cap"

definition row_episode :: "idle_lib \<Rightarrow> idle_owner \<Rightarrow> string + idle_episode option" where
  "row_episode l r = read_episode l (loaded_document (io_episode r)) (io_revision r)"

definition idle_row_ok :: "idle_lib \<Rightarrow> int \<Rightarrow> idle_owner \<Rightarrow> bool" where
  "idle_row_ok l cap r \<longleftrightarrow> 0 \<le> io_revision r \<and> io_revision r \<le> MAX_INTEGER \<and>
     (\<exists>ep. row_episode l r = Inr ep \<and> (case ep of None \<Rightarrow> True | Some e \<Rightarrow> belongs_to l cap r e))"

lemma valid_opened:
  assumes "canonical_uuid l fresh" "st_offset now \<noteq> None" "valid_runtime l rt" "k \<in> set WAIT_KINDS"
    "canonical_uuid l q" "0 \<le> cur" "cur + 1 \<le> MAX_INTEGER"
  shows "valid_episode l (opened fresh cur rt now k q)"
  using assms by (simp add: valid_episode_iff opened_def MAX_INTEGER_def)

lemma valid_rebound:
  "valid_episode l e \<Longrightarrow> valid_runtime l rt \<Longrightarrow> 0 \<le> cur \<Longrightarrow> cur + 1 \<le> MAX_INTEGER
   \<Longrightarrow> valid_episode l (e\<lparr>ie_runtime := rt, ie_revision := cur + 1\<rparr>)"
  by (auto simp: valid_episode_iff split: option.splits)

lemma valid_extended:
  assumes e: "valid_episode l e" and due: "idle_due e (Some w) = Inr (Some d)" and u: "add_seconds now w = Some u"
    and now: "st_offset now \<noteq> None" and cap: "ie_extends e < cap" "cap \<le> MAX_INTEGER" "0 \<le> cur" "cur + 1 \<le> MAX_INTEGER"
  shows "valid_episode l (e\<lparr>ie_override := Some (later d u), ie_extends := ie_extends e + 1, ie_revision := cur + 1\<rparr>)"
proof -
  obtain t where w: "1 \<le> w" and t: "add_seconds (ie_entered e) w = Some t"
    and d: "d = later t (case_option t id (ie_override e))"
    and ut: "utc d = max (utc (ie_entered e) + w * 1000000) (case_option (utc (ie_entered e) + w * 1000000) utc (ie_override e))"
    by (rule idle_due_Inr [OF due]) simp
  have ot: "st_offset t \<noteq> None" using add_seconds_Some [OF t] e by (simp add: valid_episode_iff)
  then have "st_offset d \<noteq> None"
    using e unfolding d by (intro offset_later) (auto simp: valid_episode_iff split: option.splits)
  then have "st_offset (later d u) \<noteq> None"
    using add_seconds_Some [OF u] now by (intro offset_later) simp_all
  moreover have "utc (ie_entered e) \<le> utc (later d u)" using w ut by simp
  ultimately show ?thesis using e cap by (simp add: valid_episode_iff)
qed

lemma owner_of_Inr:
  "owner_of l rt = Inr (k, u) \<Longrightarrow> ri_owner_kind rt = k \<and> ri_owner_id rt = uuid_text u"
  by (auto simp: owner_of_def split: if_splits option.splits)

text \<open>The episode an accepted call returns belongs to the row it is written to.\<close>

lemma transition_belongs:
  assumes tr: "transition_idle_episode l fresh prior (io_revision r) expected event rt now kind key warm cap' = Inr (Some e', n)"
    and fresh: "canonical_uuid l fresh" and caps: "cap' \<le> cap" "0 \<le> cap"
    and own: "ri_owner_kind rt = io_kind r" "ri_owner_id rt = uuid_text (io_id r)"
    and prior: "\<And>e. prior = Some e \<Longrightarrow> belongs_to l cap r e"
  shows "belongs_to l cap (r\<lparr>io_revision := n, io_episode := doc\<rparr>) e'"
  using tr
proof (cases rule: transition_cases)
  note checked = transition_checked [OF tr]
  case same
  then show ?thesis using prior by (simp add: belongs_to_def)
next
  note checked = transition_checked [OF tr]
  case (rebound e)
  then show ?thesis
    using prior [of e] own checked(1,4) valid_rebound [of l e rt "io_revision r"]
    by (simp add: belongs_to_def)
next
  note checked = transition_checked [OF tr]
  case (opened k q)
  then show ?thesis
    using valid_opened [OF fresh checked(3,4) opened(7,8) checked(1)] opened(1-3) own caps
    by (simp add: belongs_to_def opened_def)
next
  case (closed e)
  then show ?thesis by simp
next
  note checked = transition_checked [OF tr]
  case (extended e w d u)
  then show ?thesis
    using prior [of e] own caps valid_extended [of l e w d now u cap' "io_revision r"] checked(1,3)
    by (simp add: belongs_to_def)
qed

lemma idle_update_ok:
  assumes lib: "idle_lib_ok l" "0 \<le> cap" and fresh: "canonical_uuid l fresh" and cap: "rq_cap q \<le> cap"
    and own: "owner_of l (rq_runtime q) = Inr (owner_key r)" and r: "idle_row_ok l cap r"
    and up: "idle_update l now fresh r q = Inr ((ep, n), r')"
  shows "idle_row_ok l cap r' \<and> owner_key r' = owner_key r \<and> row_episode l r' = Inr ep \<and> io_revision r' = n"
proof -
  obtain prior where prior: "row_episode l r = Inr prior" and rev: "rq_revision q = io_revision r"
    and tr: "transition_idle_episode l fresh prior (io_revision r) (rq_episode q) (rq_event q) (rq_runtime q)
               now (rq_kind q) (rq_key q) (rq_warm q) (rq_cap q) = Inr (ep, n)"
    and w: "if n = io_revision r then r' = r
        else \<exists>doc. episode_document l ep = Inr doc \<and> r' = r\<lparr>io_revision := n, io_episode := doc\<rparr>"
    using up by (auto simp: idle_update_def bind_ok_Inr map_ok_Inr row_episode_def split: if_splits)
  have own': "ri_owner_kind (rq_runtime q) = io_kind r" "ri_owner_id (rq_runtime q) = uuid_text (io_id r)"
    using owner_of_Inr [of l "rq_runtime q"] own by (auto simp: owner_key_def)
  have pe: "\<And>e. prior = Some e \<Longrightarrow> belongs_to l cap r e" using r prior by (auto simp: idle_row_ok_def)
  note n = transition_revision [OF tr]
  show ?thesis
  proof (cases "n = io_revision r")
    case True
    then show ?thesis using w r n(4) prior by simp
  next
    case False
    then obtain doc where doc: "episode_document l ep = Inr doc" and r': "r' = r\<lparr>io_revision := n, io_episode := doc\<rparr>"
      using w by auto
    have be: "belongs_to l cap r' e'" if "ep = Some e'" for e'
      using transition_belongs [of l fresh prior r _ _ _ _ _ _ _ _ e' n cap doc, OF _ fresh cap lib(2) own'] tr pe
        that r' by simp
    then have "sound_episode l n ep"
      using n lib r' by (cases ep) (auto simp: sound_episode_def belongs_to_def)
    then have "read_episode l doc n = Inr ep" using doc by (rule idle_documents.dec_enc)
    moreover have "loaded_document doc = doc"
      using doc by (cases ep) (auto simp: loaded_document_def document_of_def)
    ultimately have "row_episode l r' = Inr ep" by (simp add: row_episode_def r')
    then show ?thesis
      using be n r' by (cases ep) (auto simp: idle_row_ok_def owner_key_def)
  qed
qed

lemma idle_step_ok:
  assumes "idle_step l cap rows rows'" "idle_lib_ok l" "0 \<le> cap" "\<forall>r \<in> set rows. idle_row_ok l cap r"
  shows "\<forall>r \<in> set rows'. idle_row_ok l cap r"
  using assms(1)
proof (cases rule: idle_step.cases)
  case (1 now fresh q v)
  then obtain k r r' where k: "owner_of l (rq_runtime q) = Inr k" and r: "find_by owner_key k rows = Some r"
    and up: "idle_update l now fresh r q = Inr (v, r')" and rows: "rows' = put_by owner_key r' rows"
    by (auto simp: apply_idle_transition_def split: if_splits sum.splits option.splits)
  have key: "owner_key r = k" and mem: "r \<in> set rows" using r by (auto dest: find_by_Some_set)
  obtain ep n where v: "v = (ep, n)" by (cases v)
  have "idle_row_ok l cap r'"
    using idle_update_ok [OF assms(2,3) 1(2,3), of r now ep n r'] k up key mem assms(4) v by simp
  then show ?thesis using rows assms(4) set_put_subset [of owner_key r' rows] by auto
qed

lemma untouched_ok: "untouched r \<Longrightarrow> idle_row_ok l cap r"
  by (simp add: untouched_def idle_row_ok_def row_episode_def loaded_document_def read_episode_def
      check_integer_def MAX_INTEGER_def)

text \<open>
  C31. Over every run of committed calls, every owner row stays readable: its document, if it has
  one, reads back to a valid episode of that very owner that carries the revision of the row and
  was extended at most as often as the callers' cap allows.
\<close>
theorem idle_rows_stay_sound:
  assumes "idle_reachable l cap rows" "idle_lib_ok l" "0 \<le> cap" "r \<in> set rows"
  shows "\<exists>ep. row_episode l r = Inr ep \<and>
    (\<forall>e. ep = Some e \<longrightarrow> valid_episode l e \<and> ie_revision e = io_revision r \<and> ri_owner_kind (ie_runtime e) = io_kind r
       \<and> ri_owner_id (ie_runtime e) = uuid_text (io_id r) \<and> ie_extends e \<le> cap)"
proof -
  have "\<forall>r \<in> set rows. idle_row_ok l cap r"
    using assms(1) by induction (use untouched_ok idle_step_ok assms(2,3) in blast)+
  then show ?thesis using assms(4) by (fastforce simp: idle_row_ok_def belongs_to_def)
qed

section \<open>The fence\<close>

lemma apply_idle_stale:
  assumes "owner_of l (rq_runtime q) = Inr k" "find_by owner_key k rows = Some r" "rq_revision q \<noteq> io_revision r"
  shows "apply_idle_transition l True now fresh rows q = (Inl ''episode_changed'', rows)"
  using assms by (simp add: apply_idle_transition_def idle_update_def)

text \<open>
  Of two calls made from the same snapshot of an owner only one takes effect: once a call has
  changed the row, a call that expects the same or an older revision is refused with
  \<^verbatim>\<open>episode_changed\<close> and leaves every row as it is.
\<close>
theorem idle_fence_refuses_the_loser:
  assumes "apply_idle_transition l True now fresh rows q = (Inr (ep, n), rows')" "n \<noteq> rq_revision q"
    "owner_of l (rq_runtime q') = owner_of l (rq_runtime q)" "rq_revision q' \<le> rq_revision q"
  shows "apply_idle_transition l True now' fresh' rows' q' = (Inl ''episode_changed'', rows')"
proof -
  obtain k r r' where k: "owner_of l (rq_runtime q) = Inr k" and r: "find_by owner_key k rows = Some r"
    and up: "idle_update l now fresh r q = Inr ((ep, n), r')" and rows: "rows' = put_by owner_key r' rows"
    using assms(1) by (auto simp: apply_idle_transition_def split: if_splits sum.splits option.splits)
  have r': "owner_key r' = owner_key r" "io_revision r' = n" "n = rq_revision q \<or> n = rq_revision q + 1"
    using up assms(2)
    by (auto simp: idle_update_def bind_ok_Inr map_ok_Inr owner_key_def split: if_splits dest: transition_revision(3))
  have "find_by owner_key k rows' = Some r'"
    using r r'(1) find_by_put_same [of owner_key r' rows] find_by_Some_key [OF r] find_by_Some_set [OF r]
    by (auto simp: rows image_iff intro: bexI [of _ r])
  then show ?thesis using apply_idle_stale [of l q' k rows' r'] k assms(2-4) r'(2,3) by force
qed

section \<open>The clock of an episode\<close>

lemma idle_due_override:
  assumes "idle_due e (Some w) = Inr (Some d)" "ie_entered e' = ie_entered e"
    "\<And>v. ie_override e = Some v \<Longrightarrow> \<exists>v'. ie_override e' = Some v' \<and> utc v \<le> utc v'"
  shows "\<exists>d'. idle_due e' (Some w) = Inr (Some d') \<and> utc d \<le> utc d'"
proof -
  obtain t where t: "1 \<le> w" "w \<le> MAX_INTEGER" "add_seconds (ie_entered e) w = Some t"
    and d: "d = later t (case_option t id (ie_override e))"
    by (rule idle_due_Inr [OF assms(1)]) simp
  have "idle_due e' (Some w) = Inr (Some (later t (case_option t id (ie_override e'))))"
    using t assms(2) by (simp add: idle_due_def check_integer_def)
  moreover have "utc d \<le> utc (later t (case_option t id (ie_override e')))"
    using assms(3) d by (cases "ie_override e") (fastforce split: option.splits)+
  ultimately show ?thesis by blast
qed

lemma kept_fields:
  assumes tr: "transition_idle_episode l fresh (Some e) cur expected event rt now kind key warm cap = Inr (Some e', n)"
    and id: "ie_id e' = ie_id e" "fresh \<noteq> ie_id e"
  shows "ie_kind e' = ie_kind e \<and> ie_key e' = ie_key e \<and> ie_entered e' = ie_entered e \<and> ie_revision e' = n"
proof -
  have cur: "ie_revision e = cur" using transition_checked(7) [OF tr refl] by simp
  show ?thesis using tr id cur by (cases rule: transition_cases) (simp_all add: opened_def)
qed

lemma kept_due:
  assumes tr: "transition_idle_episode l fresh (Some e) cur expected event rt now kind key warm cap = Inr (Some e', n)"
    and id: "ie_id e' = ie_id e" "fresh \<noteq> ie_id e" and d: "idle_due e (Some w) = Inr (Some d)"
  shows "\<exists>d'. idle_due e' (Some w) = Inr (Some d') \<and> utc d \<le> utc d'"
  using tr
proof (cases rule: transition_cases)
  case (extended x s d0 u)
  then obtain t where "d0 = later t (case_option t id (ie_override e))"
    using idle_due_Inr [of e s "Some d0"] by auto
  then show ?thesis using idle_due_override [OF d, of e'] extended by auto
qed (use idle_due_override [OF d, of e'] id in \<open>auto simp: opened_def\<close>)

lemma counted_extension:
  assumes tr: "transition_idle_episode l fresh (Some e) cur expected event rt now kind key warm cap = Inr (Some e', n)"
    and id: "ie_id e' = ie_id e" "fresh \<noteq> ie_id e" "ie_extends e' \<noteq> ie_extends e"
  shows "event = ''extend'' \<and> ie_extends e' = ie_extends e + 1 \<and> ie_extends e' \<le> cap \<and>
       (\<exists>v s. warm = Some s \<and> ie_override e' = Some v \<and> utc now + s * 1000000 \<le> utc v)"
  using tr id by (cases rule: transition_cases) (auto simp: opened_def dest: add_seconds_Some)

text \<open>
  C33. No event resets or shortens the clock of a wait that goes on: as long as the episode keeps
  its identifier, its question and its time of entry are the same, its revision is the returned
  one, and for every warm window its due time never moves earlier; an extension is counted, stays
  within the cap, and puts the due time at least one full window after now.
\<close>
theorem an_episode_keeps_its_clock:
  assumes "transition_idle_episode l fresh (Some e) cur expected event rt now kind key warm cap = Inr (Some e', n)"
    "ie_id e' = ie_id e" "fresh \<noteq> ie_id e"
  shows "ie_kind e' = ie_kind e \<and> ie_key e' = ie_key e \<and> ie_entered e' = ie_entered e \<and> ie_revision e' = n \<and>
    (\<forall>w d. idle_due e (Some w) = Inr (Some d) \<longrightarrow> (\<exists>d'. idle_due e' (Some w) = Inr (Some d') \<and> utc d \<le> utc d')) \<and>
    (ie_extends e' \<noteq> ie_extends e \<longrightarrow> event = ''extend'' \<and> ie_extends e' = ie_extends e + 1 \<and> ie_extends e' \<le> cap \<and>
       (\<exists>v s. warm = Some s \<and> ie_override e' = Some v \<and> utc now + s * 1000000 \<le> utc v))"
  using kept_fields [OF assms] kept_due [OF assms] counted_extension [OF assms] by blast

section \<open>The decision\<close>

definition idle_lease :: "idle_lib \<Rightarrow> stamp \<Rightarrow> runtime_identity \<Rightarrow> activity_lease \<Rightarrow> bool" where
  "idle_lease l now rt x \<longleftrightarrow> al_kind x \<in> set LEASE_KINDS \<and> valid_runtime l (al_runtime x) \<and> st_offset (al_expires x) \<noteq> None
     \<and> al_live x \<and> al_runtime x = rt \<and> utc (al_expires x) \<le> utc now"

lemma lease_checked:
  "bind_ok (check_runtime l a) (\<lambda>_. check_time b) = Inr u \<longleftrightarrow> valid_runtime l a \<and> st_offset b \<noteq> None"
  by (simp add: bind_ok_Inr)

lemma scan_leases_idle:
  "scan_leases l now rt xs act = Lease_Active False \<longleftrightarrow> \<not> act \<and> (\<forall>x \<in> set xs. idle_lease l now rt x)"
proof (induction xs arbitrary: act)
  case (Cons x xs)
  show ?case
  proof (cases "bind_ok (check_runtime l (al_runtime x)) (\<lambda>_. check_time (al_expires x))")
    case (Inl c)
    then have "\<not> (valid_runtime l (al_runtime x) \<and> st_offset (al_expires x) \<noteq> None)"
      using lease_checked [of l "al_runtime x" "al_expires x" "()"] by simp
    with Inl show ?thesis by (auto simp: idle_lease_def)
  next
    case (Inr u)
    then have "valid_runtime l (al_runtime x) \<and> st_offset (al_expires x) \<noteq> None"
      using lease_checked by blast
    with Inr show ?thesis by (auto simp: Cons.IH idle_lease_def not_less)
  qed
qed simp

lemma decide_vetoes_eligible:
  "(\<exists>r. decide_vetoes l now rt leases h due = Inr (''eligible'', r)) \<longleftrightarrow>
     length leases \<le> 1024 \<and> (\<forall>x \<in> set leases. idle_lease l now rt x) \<and> hold_reason h = None
     \<and> (\<exists>d. due = Some d \<and> utc d \<le> utc now)"
proof (cases "scan_leases l now rt leases False")
  case (Lease_Active act)
  then show ?thesis
    using scan_leases_idle [of l now rt leases False]
    by (cases act; cases "hold_reason h"; cases due) (simp_all add: decide_vetoes_def)
qed (use scan_leases_idle [of l now rt leases False] in \<open>simp_all add: decide_vetoes_def\<close>)

lemma hold_reason_None: "hold_reason h = None \<longleftrightarrow> \<not> ih_control h \<and> \<not> ih_recovery h \<and> \<not> ih_cleanup h \<and> \<not> ih_restore h"
  by (simp add: hold_reason_def)

lemma decided_simps [simp]: "id_state (decided e due st r) = st" "id_state (blocked r) = ''blocked''"
  by (simp_all add: decided_def blocked_def)

lemma decided_inject [simp]: "decided e due s r = decided e due s' r' \<longleftrightarrow> s = s' \<and> r = r'"
  by (simp add: decided_def)

lemma evaluate_state:
  "id_state (evaluate_idle l ep now rt waiting supported enabled warm leases h) = ''eligible'' \<longleftrightarrow>
     (\<exists>d. evaluate_checked l ep now rt waiting supported enabled warm leases h = Inr d \<and> id_state d = ''eligible'')"
  by (simp add: evaluate_idle_def split: sum.split)

lemma evaluate_checked_Some:
  "(\<exists>d. evaluate_checked l (Some e) now rt waiting supported enabled warm leases h = Inr d \<and> id_state d = ''eligible'')
   \<longleftrightarrow> st_offset now \<noteq> None \<and> valid_runtime l rt \<and> valid_episode l e \<and> utc (ie_entered e) \<le> utc now
     \<and> ie_runtime e = rt \<and> enabled \<and> supported \<and> waiting
     \<and> (\<exists>due r. idle_due e warm = Inr due \<and> decide_vetoes l now rt leases h due = Inr (''eligible'', r))" (is "?L \<longleftrightarrow> ?R")
proof
  assume ?L
  then show ?R
    by (auto simp: evaluate_checked_def bind_ok_Inr map_ok_Inr split: if_splits)
next
  assume ?R
  then show ?L
    by (elim conjE exE) (simp add: evaluate_checked_def bind_ok_Inr map_ok_Inr; blast)
qed

lemma evaluate_checked_None:
  "evaluate_checked l None now rt waiting supported enabled warm leases h = Inr d \<Longrightarrow> id_state d \<noteq> ''eligible''"
  by (auto simp: evaluate_checked_def bind_ok_Inr)

lemma due_window: "idle_due e warm = Inr (Some d) \<Longrightarrow> \<exists>w. warm = Some w"
  by (cases warm) simp_all

text \<open>
  C32. An idle workspace is eligible exactly when nothing speaks against it: a valid episode of
  this very runtime, entered no later than now, with the policy enabled, the runtime supported and
  the wait still current; at most 1024 leases, each proven, of this runtime and expired; no
  control, recovery, cleanup or restore hold; and a warm window whose due time, the extension
  included, has passed. Any error in the evidence blocks.
\<close>
theorem eligible_means_no_veto:
  "id_state (evaluate_idle l ep now rt waiting supported enabled warm leases h) = ''eligible'' \<longleftrightarrow>
     (\<exists>e w d. ep = Some e \<and> warm = Some w \<and> idle_due e (Some w) = Inr (Some d) \<and> utc d \<le> utc now
        \<and> valid_episode l e \<and> utc (ie_entered e) \<le> utc now \<and> st_offset now \<noteq> None \<and> valid_runtime l rt
        \<and> ie_runtime e = rt \<and> enabled \<and> supported \<and> waiting \<and> length leases \<le> 1024
        \<and> (\<forall>x \<in> set leases. idle_lease l now rt x)
        \<and> \<not> ih_control h \<and> \<not> ih_recovery h \<and> \<not> ih_cleanup h \<and> \<not> ih_restore h)" (is "?L \<longleftrightarrow> ?R")
proof (cases ep)
  case None
  then show ?thesis using evaluate_checked_None by (fastforce simp: evaluate_state)
next
  case (Some e)
  have "?L \<longleftrightarrow> st_offset now \<noteq> None \<and> valid_runtime l rt \<and> valid_episode l e \<and> utc (ie_entered e) \<le> utc now
     \<and> ie_runtime e = rt \<and> enabled \<and> supported \<and> waiting
     \<and> (\<exists>due. idle_due e warm = Inr due \<and> (\<exists>r. decide_vetoes l now rt leases h due = Inr (''eligible'', r)))"
    unfolding evaluate_state Some evaluate_checked_Some by blast
  then show ?thesis
    unfolding decide_vetoes_eligible hold_reason_None Some using due_window by blast
qed

end
