(* ===== verification/Idle_Witnesses.thy ===== *)
theory Idle_Witnesses
  imports Idle_Behaviour
begin

text \<open>
  Concrete runs of the idle policy: a thread whose chat turn ended waits for a human message, is
  extended once and becomes eligible. The identifiers are two UUIDs, a time prints as the signs
  and sizes of its two numbers.
\<close>

definition sign_size :: "int \<Rightarrow> pytext" where
  "sign_size n = [if n < 0 then 1 else 0, nat \<bar>n\<bar>]"

definition sized :: "nat \<Rightarrow> nat \<Rightarrow> int" where
  "sized s n = (if s = 1 then - int n else int n)"

definition wit_lib :: idle_lib where
  "wit_lib = \<lparr>
     il_uuid = (\<lambda>s. if s = uuid_text 1 then Some 1 else if s = uuid_text 2 then Some 2 else None),
     il_iso = (\<lambda>s. case st_offset s of None \<Rightarrow> [] | Some z \<Rightarrow> sign_size (st_local s) @ sign_size z),
     il_parse = (\<lambda>s. case s of [a, b, c, d] \<Rightarrow> Some \<lparr>st_local = sized a b, st_offset = Some (sized c d)\<rparr> | _ \<Rightarrow> None),
     il_bytes = (\<lambda>_. 700)\<rparr>"

definition id1 :: pytext where "id1 = uuid_text 1"
definition id2 :: pytext where "id2 = uuid_text 2"

lemma wit_ids: "id1 = id2 \<longleftrightarrow> False" "id2 = id1 \<longleftrightarrow> False"
  using uuid_text_inj [of 1 2] by (auto simp: id1_def id2_def)

lemma wit_uuid: "il_uuid wit_lib id1 = Some 1" "il_uuid wit_lib id2 = Some 2"
  using wit_ids by (simp_all add: wit_lib_def id1_def id2_def)

lemma wit_canonical [simp]: "canonical_uuid wit_lib id1" "canonical_uuid wit_lib id2"
  using wit_uuid by (simp_all add: canonical_uuid_def id1_def id2_def)

lemma wit_lib_ok: "idle_lib_ok wit_lib"
  by (auto simp: idle_lib_ok_def wit_lib_def sign_size_def sized_def)

definition wit_runtime :: runtime_identity where
  "wit_runtime = \<lparr>ri_owner_kind = lit ''thread'', ri_owner_id = id1, ri_backend = lit ''vm'', ri_generation = id1, ri_uid = id2\<rparr>"

definition at_minute :: "int \<Rightarrow> stamp" where
  "at_minute n = \<lparr>st_local = 60000000 * n, st_offset = Some 0\<rparr>"

definition wit_request :: "string \<Rightarrow> int \<Rightarrow> pytext option \<Rightarrow> idle_request" where
  "wit_request event n ep = \<lparr>rq_runtime = wit_runtime, rq_event = event, rq_revision = n, rq_episode = ep,
     rq_kind = Some (lit ''human_message''), rq_key = Some id2, rq_warm = Some 900, rq_cap = 4\<rparr>"

definition wit_rows :: "idle_owner list" where
  "wit_rows = [\<lparr>io_kind = lit ''thread'', io_id = 1, io_revision = 0, io_episode = None\<rparr>]"

definition wit_episode :: idle_episode where
  "wit_episode = \<lparr>ie_id = id2, ie_revision = 1, ie_kind = lit ''human_message'', ie_key = id2, ie_entered = at_minute 10,
     ie_override = None, ie_extends = 0, ie_runtime = wit_runtime\<rparr>"

definition wit_extended :: idle_episode where
  "wit_extended = wit_episode\<lparr>ie_revision := 2, ie_override := Some (at_minute 35), ie_extends := 1\<rparr>"

definition wit_row :: idle_owner where
  "wit_row = \<lparr>io_kind = lit ''thread'', io_id = 1, io_revision = 1, io_episode = Some (document_of wit_lib wit_episode)\<rparr>"

lemma wit_valid_runtime [simp]: "valid_runtime wit_lib wit_runtime"
  by (simp add: valid_runtime_def check_runtime_def wit_runtime_def check_uuid_def del: check_runtime_Inr)

lemma wit_valid [simp]: "valid_episode wit_lib wit_episode" "valid_episode wit_lib wit_extended"
  by (simp_all add: valid_episode_iff wit_episode_def wit_extended_def WAIT_KINDS_def MAX_INTEGER_def at_minute_def utc_def)

lemma wit_owner: "owner_of wit_lib wit_runtime = Inr (lit ''thread'', 1)"
  using wit_uuid(1) by (simp add: owner_of_def wit_runtime_def id1_def)

lemma wit_checks:
  "check_runtime wit_lib wit_runtime = Inr ()" "check_time (at_minute n) = Inr ()" "check_uuid wit_lib id2 = Inr ()"
  by (simp_all add: at_minute_def)

lemma wit_enter_transition:
  "transition_idle_episode wit_lib id2 None 0 None ''enter'' wit_runtime (at_minute 10)
     (Some (lit ''human_message'')) (Some id2) (Some 900) 4 = Inr (Some wit_episode, 1)"
  by (simp add: transition_idle_episode_def check_prior_def wit_checks IDLE_EVENTS_def enter_episode_def
      WAIT_KINDS_def check_integer_def MAX_INTEGER_def wit_episode_def
      del: check_runtime_Inr check_time_Inr check_uuid_Inr check_integer_Inr)

lemma wit_no_document: "read_episode wit_lib (loaded_document None) 0 = Inr None"
  by (simp add: read_episode_def loaded_document_def check_integer_def MAX_INTEGER_def)

lemma wit_enter:
  "apply_idle_transition wit_lib True (at_minute 10) id2 wit_rows (wit_request ''enter'' 0 None)
     = (Inr (Some wit_episode, 1), [wit_row])"
proof -
  have "episode_document wit_lib (Some wit_episode) = Inr (Some (document_of wit_lib wit_episode))" by simp
  then show ?thesis
    by (simp add: apply_idle_transition_def wit_request_def wit_owner wit_rows_def owner_key_def
        idle_update_def wit_no_document wit_enter_transition put_by_def wit_row_def del: episode_document_simps(2))
qed

lemma wit_extend:
  "transition_idle_episode wit_lib id1 (Some wit_episode) 1 (Some id2) ''extend'' wit_runtime (at_minute 20) None None (Some 900) 4
     = Inr (Some wit_extended, 2)"
proof -
  have "check_episode wit_lib wit_episode = Inr ()" using wit_valid(1) unfolding valid_episode_def .
  then show ?thesis
    by (simp add: transition_idle_episode_def check_prior_def wit_checks IDLE_EVENTS_def extend_episode_def
        idle_due_def add_seconds_def later_def check_integer_def MAX_INTEGER_def MAX_LOCAL_def renumber_def
        wit_episode_def wit_extended_def at_minute_def utc_def check_time_def
        del: check_runtime_Inr check_time_Inr check_uuid_Inr check_integer_Inr check_episode_Inr)
qed

section \<open>Witnesses\<close>

lemma idle_documents_read_back_witness:
  "\<exists>d. episode_document wit_lib (Some wit_extended) = Inr d \<and> read_episode wit_lib d (ie_revision wit_extended) = Inr (Some wit_extended)"
  by (rule idle_documents_read_back) (simp_all add: wit_lib_ok)

lemma wit_reachable: "idle_reachable wit_lib 4 [wit_row]"
  by (rule idle_next [OF idle_start idle_step.intros [OF wit_enter]])
    (simp_all add: wit_rows_def untouched_def wit_request_def)

lemma wit_row_episode: "row_episode wit_lib wit_row = Inr (Some wit_episode)"
  using read_document [OF wit_lib_ok wit_valid(1)]
  by (simp add: row_episode_def wit_row_def loaded_document_def document_of_def wit_episode_def)

lemma idle_rows_stay_sound_witness:
  "valid_episode wit_lib wit_episode \<and> ie_revision wit_episode = io_revision wit_row
     \<and> ri_owner_kind (ie_runtime wit_episode) = io_kind wit_row
     \<and> ri_owner_id (ie_runtime wit_episode) = uuid_text (io_id wit_row) \<and> ie_extends wit_episode \<le> 4"
  using idle_rows_stay_sound [OF wit_reachable wit_lib_ok, of wit_row] by (simp add: wit_row_episode)

lemma idle_fence_refuses_the_loser_witness:
  "apply_idle_transition wit_lib True (at_minute 11) id1 [wit_row] (wit_request ''exit'' 0 None)
     = (Inl ''episode_changed'', [wit_row])"
  by (rule idle_fence_refuses_the_loser [OF wit_enter]) (simp_all add: wit_request_def)

lemma wit_first_due: "idle_due wit_episode (Some 900) = Inr (Some (at_minute 25))"
  by (simp add: idle_due_def wit_episode_def at_minute_def add_seconds_def check_integer_def
      MAX_INTEGER_def MAX_LOCAL_def later_def utc_def del: check_integer_Inr)

lemma an_episode_keeps_its_clock_witness:
  "ie_entered wit_extended = ie_entered wit_episode \<and> ie_revision wit_extended = 2 \<and>
    (\<exists>d'. idle_due wit_extended (Some 900) = Inr (Some d') \<and> utc (at_minute 25) \<le> utc d') \<and>
    ie_extends wit_extended = ie_extends wit_episode + 1"
proof -
  have "ie_id wit_extended = ie_id wit_episode" "id1 \<noteq> ie_id wit_episode" "ie_extends wit_extended \<noteq> ie_extends wit_episode"
    by (simp_all add: wit_extended_def wit_episode_def wit_ids)
  then show ?thesis using an_episode_keeps_its_clock [OF wit_extend] wit_first_due by blast
qed

definition wit_lease :: "int \<Rightarrow> activity_lease" where
  "wit_lease n = \<lparr>al_kind = lit ''access'', al_runtime = wit_runtime, al_expires = at_minute n, al_live = True\<rparr>"

definition no_holds :: idle_holds where
  "no_holds = \<lparr>ih_control = False, ih_recovery = False, ih_cleanup = False, ih_restore = False\<rparr>"

lemma wit_due: "idle_due wit_extended (Some 900) = Inr (Some (at_minute 35))"
  by (simp add: idle_due_def wit_extended_def wit_episode_def at_minute_def add_seconds_def check_integer_def
      MAX_INTEGER_def MAX_LOCAL_def later_def utc_def del: check_integer_Inr)

lemma wit_entered: "utc (ie_entered wit_extended) \<le> utc (at_minute 35)" "ie_runtime wit_extended = wit_runtime"
  by (simp_all add: wit_extended_def wit_episode_def at_minute_def utc_def)

lemma wit_idle_lease: "idle_lease wit_lib (at_minute 35) wit_runtime (wit_lease 21)"
  by (simp add: idle_lease_def wit_lease_def LEASE_KINDS_def) (simp add: at_minute_def utc_def)

lemma eligible_means_no_veto_witness:
  "id_state (evaluate_idle wit_lib (Some wit_extended) (at_minute 35) wit_runtime True True True (Some 900) [wit_lease 21] no_holds)
     = ''eligible''"
  by (subst eligible_means_no_veto)
    (simp add: no_holds_def wit_due wit_entered wit_idle_lease; simp add: at_minute_def)

end
