(* ===== verification/Input_Ledger.thy ===== *)
theory Input_Ledger
  imports Session_Retirement
begin

text \<open>
  The tables behind \<^verbatim>\<open>src/shared/persistent_input_delivery.py\<close>: the transcript, the ledger of
  input deliveries, the threads, agents and turn frames its statements read, and the run queue.
  A delivery says who may run one persisted input and proves when its one paid turn crossed provider
  admission. Roles, sources, reasons and states are server constants and plain strings; content and
  pod identities are text.
\<close>

section \<open>Rows\<close>

datatype dstate = DPersisted | DOwned | DQueued | DDeferred | DAdmitted | DSettled | DCancelled

record input_delivery =
  dl_id :: uuid
  dl_thread :: uuid
  dl_message :: uuid
  dl_source :: string
  dl_lane :: string
  dl_supersedes :: "int option" \<comment> \<open>supersedes_input_seq\<close>
  dl_revision :: "int option" \<comment> \<open>conversation_revision\<close>
  dl_state :: dstate
  dl_generation :: int \<comment> \<open>claim_generation\<close>
  dl_agent :: "uuid option"
  dl_pod :: "pytext option"
  dl_runtime :: "uuid option" \<comment> \<open>owner_runtime_generation\<close>
  dl_token :: "int option" \<comment> \<open>owner_run_queue_lease_token\<close>
  dl_executor :: "pytext option"
  dl_executor_uid :: "pytext option"
  dl_owned_at :: "secs option"
  dl_queued_at :: "secs option"
  dl_admitted_at :: "secs option"
  dl_admitted_turn :: "int option"
  dl_settled_at :: "secs option"
  dl_deferred_at :: "secs option"
  dl_deferred_reason :: "string option"
  dl_cancelled_at :: "secs option"
  dl_cancelled_turn :: "int option"
  dl_cancelled_reason :: "string option"
  dl_admissions :: int \<comment> \<open>admission_count\<close>

record transcript_row =
  tm_id :: uuid
  tm_thread :: uuid
  tm_seq :: int
  tm_role :: string
  tm_content :: pytext
  tm_turn :: "int option"
  tm_execution :: "uuid option" \<comment> \<open>turn_execution_id\<close>
  tm_rewound :: bool
  tm_calls :: "json option" \<comment> \<open>tool_calls\<close>

record session_thread =
  se_id :: uuid
  se_user :: "string option"
  se_agent :: "uuid option"
  se_status :: string
  se_lane :: "string option"
  se_generation :: "uuid option" \<comment> \<open>runtime_generation\<close>
  se_attach :: "uuid option"
  se_retirement :: "uuid option"
  se_turns :: int
  se_conversation :: "int option" \<comment> \<open>conversation_revision\<close>
  se_metadata :: json
  se_idle_revision :: int
  se_idle_episode :: "json option"

record session_agent =
  sa_id :: uuid
  sa_thread :: "uuid option"
  sa_pod :: "pytext option"
  sa_status :: string

record turn_frame =
  tf_thread :: uuid
  tf_kind :: string
  tf_turn :: "pytext option" \<comment> \<open>payload ->> 'turn_id'\<close>
  tf_at :: secs

record inbox =
  in_threads :: "session_thread list"
  in_agents :: "session_agent list"
  in_rows :: "transcript_row list"
  in_ledger :: "input_delivery list"
  in_frames :: "turn_frame list"
  in_rq :: db
  in_next_seq :: int \<comment> \<open>the sequence of thread_messages.seq\<close>

text \<open>UUIDs derived from names (\<^verbatim>\<open>uuid5\<close>) and JSON parsing are library functions.\<close>

record delivery_lib =
  dv_py :: py
  dv_row_id :: "uuid \<Rightarrow> uuid" \<comment> \<open>message_row_id\<close>
  dv_notice_id :: "uuid \<Rightarrow> int \<Rightarrow> uuid" \<comment> \<open>recovery_park_notice_id\<close>

datatype delivery_error = Authority_Lost | Input_Conflict | Input_Value | Check_Violation | Queue_Failure

definition PINNED_RECOVERY_ADMISSION_LIMIT :: int where "PINNED_RECOVERY_ADMISSION_LIMIT = 5"
definition PINNED_RECOVERY_PARK_REASON :: string where "PINNED_RECOVERY_PARK_REASON = ''max_attempts''"
definition PINNED_RECOVERY_RETRY_REASON :: string where "PINNED_RECOVERY_RETRY_REASON = ''owner_retry''"

definition session_of :: "inbox \<Rightarrow> uuid \<Rightarrow> session_thread option" where
  "session_of s t = find_by se_id t (in_threads s)"

definition agent_of :: "inbox \<Rightarrow> uuid \<Rightarrow> session_agent option" where
  "agent_of s a = find_by sa_id a (in_agents s)"

definition row_at :: "inbox \<Rightarrow> uuid \<Rightarrow> transcript_row option" where
  "row_at s i = find_by tm_id i (in_rows s)"

definition delivery_of :: "inbox \<Rightarrow> uuid \<Rightarrow> input_delivery option" where
  "delivery_of s i = find_by dl_id i (in_ledger s)"

definition put_session :: "session_thread \<Rightarrow> inbox \<Rightarrow> inbox" where
  "put_session t s = s\<lparr>in_threads := put_by se_id t (in_threads s)\<rparr>"

definition put_delivery :: "input_delivery \<Rightarrow> inbox \<Rightarrow> inbox" where
  "put_delivery d s = s\<lparr>in_ledger := put_by dl_id d (in_ledger s)\<rparr>"

section \<open>The checks of the ledger\<close>

text \<open>The CHECK constraints of \<^verbatim>\<open>thread_input_deliveries\<close>; \<^verbatim>\<open>btrim\<close> removes spaces only.\<close>

definition blank :: "pytext \<Rightarrow> bool" where
  "blank s \<longleftrightarrow> (\<forall>c \<in> set s. c = 32)"

definition admission_shape :: "input_delivery \<Rightarrow> bool" where
  "admission_shape d \<longleftrightarrow>
     (dl_state d \<notin> {DAdmitted, DSettled} \<and> dl_admitted_at d = None \<and> dl_admitted_turn d = None) \<or>
     (dl_state d \<in> {DAdmitted, DSettled} \<and> dl_admitted_at d \<noteq> None \<and> dl_admitted_turn d \<noteq> None)"

definition claim_shape :: "input_delivery \<Rightarrow> bool" where
  "claim_shape d \<longleftrightarrow>
     (dl_lane d = LANE_PINNED \<and>
        (dl_generation d = 0 \<and> dl_agent d = None \<or> 0 < dl_generation d \<and> dl_agent d \<noteq> None)) \<or>
     dl_lane d = LANE_STATELESS"

definition owner_shape :: "input_delivery \<Rightarrow> bool" where
  "owner_shape d \<longleftrightarrow>
     (dl_lane d = LANE_PINNED \<and> dl_token d = None \<and> dl_executor d = None \<and> dl_executor_uid d = None \<and>
        (dl_agent d = None \<and> dl_pod d = None \<and> dl_runtime d = None \<or>
         dl_agent d \<noteq> None \<and> dl_pod d \<noteq> None \<and> dl_runtime d \<noteq> None)) \<or>
     (dl_lane d = LANE_STATELESS \<and> dl_agent d = None \<and> dl_pod d = None \<and> dl_runtime d = None \<and>
        (dl_generation d = 0 \<and> dl_token d = None \<and> dl_executor d = None \<and> dl_executor_uid d = None \<or>
         0 < dl_generation d \<and>
           (case (dl_token d, dl_executor d, dl_executor_uid d) of
              (Some k, Some e, Some u) \<Rightarrow> 0 < k \<and> \<not> blank e \<and> \<not> blank u | _ \<Rightarrow> False)))"

definition settlement_shape :: "input_delivery \<Rightarrow> bool" where
  "settlement_shape d \<longleftrightarrow> (dl_state d = DSettled \<longleftrightarrow> dl_settled_at d \<noteq> None)"

definition cancellation_shape :: "input_delivery \<Rightarrow> bool" where
  "cancellation_shape d \<longleftrightarrow>
     (dl_state d \<noteq> DCancelled \<and> dl_cancelled_at d = None \<and> dl_cancelled_turn d = None \<and> dl_cancelled_reason d = None) \<or>
     (dl_state d = DCancelled \<and> dl_source d = ''direct_human'' \<and> dl_cancelled_at d \<noteq> None \<and>
        (case (dl_cancelled_turn d, dl_cancelled_reason d) of
           (Some n, Some r) \<Rightarrow> 0 < n \<and> \<not> blank (lit r) \<and> length r \<le> 120 | _ \<Rightarrow> False))"

definition delivery_shape :: "input_delivery \<Rightarrow> bool" where
  "delivery_shape d \<longleftrightarrow>
     0 \<le> dl_admissions d \<and> 0 \<le> dl_generation d \<and> dl_lane d \<in> {LANE_PINNED, LANE_STATELESS} \<and>
     (case dl_supersedes d of None \<Rightarrow> True | Some n \<Rightarrow> 0 < n) \<and>
     (case dl_revision d of None \<Rightarrow> True | Some n \<Rightarrow> 0 \<le> n) \<and>
     admission_shape d \<and> claim_shape d \<and> owner_shape d \<and> settlement_shape d \<and> cancellation_shape d"

text \<open>The two checks with their cases as existence, for the proofs.\<close>

lemma owner_shape_iff:
  "owner_shape d \<longleftrightarrow>
     (dl_lane d = LANE_PINNED \<and> dl_token d = None \<and> dl_executor d = None \<and> dl_executor_uid d = None \<and>
        (dl_agent d = None \<and> dl_pod d = None \<and> dl_runtime d = None \<or>
         dl_agent d \<noteq> None \<and> dl_pod d \<noteq> None \<and> dl_runtime d \<noteq> None)) \<or>
     (dl_lane d = LANE_STATELESS \<and> dl_agent d = None \<and> dl_pod d = None \<and> dl_runtime d = None \<and>
        (dl_generation d = 0 \<and> dl_token d = None \<and> dl_executor d = None \<and> dl_executor_uid d = None \<or>
         0 < dl_generation d \<and> (\<exists>k e u. dl_token d = Some k \<and> 0 < k \<and> dl_executor d = Some e \<and> \<not> blank e \<and>
            dl_executor_uid d = Some u \<and> \<not> blank u)))"
  by (cases "dl_token d"; cases "dl_executor d"; cases "dl_executor_uid d") (simp_all add: owner_shape_def)

lemma cancellation_shape_iff:
  "cancellation_shape d \<longleftrightarrow>
     (dl_state d \<noteq> DCancelled \<and> dl_cancelled_at d = None \<and> dl_cancelled_turn d = None \<and> dl_cancelled_reason d = None) \<or>
     (dl_state d = DCancelled \<and> dl_source d = ''direct_human'' \<and> dl_cancelled_at d \<noteq> None \<and>
        (\<exists>n r. dl_cancelled_turn d = Some n \<and> 0 < n \<and> dl_cancelled_reason d = Some r \<and>
           \<not> blank (lit r) \<and> length r \<le> 120))"
  by (cases "dl_cancelled_turn d"; cases "dl_cancelled_reason d") (simp_all add: cancellation_shape_def)

text \<open>
  \<^verbatim>\<open>UPDATE thread_input_deliveries SET eff WHERE delivery_id = i AND guard RETURNING *\<close>. A row
  that violates a constraint raises.
\<close>

definition update_delivery ::
  "uuid \<Rightarrow> (input_delivery \<Rightarrow> bool) \<Rightarrow> (input_delivery \<Rightarrow> input_delivery) \<Rightarrow> inbox
   \<Rightarrow> delivery_error + input_delivery option \<times> inbox" where
  "update_delivery i guard eff s =
     (case delivery_of s i of None \<Rightarrow> Inr (None, s)
      | Some d \<Rightarrow>
          if \<not> guard d then Inr (None, s)
          else if delivery_shape (eff d) then Inr (Some (eff d), put_delivery (eff d) s)
          else Inl Check_Violation)"

text \<open>\<^verbatim>\<open>INSERT INTO thread_messages ... ON CONFLICT (id) DO NOTHING RETURNING\<close>.\<close>

definition insert_transcript :: "uuid \<Rightarrow> uuid \<Rightarrow> string \<Rightarrow> pytext \<Rightarrow> int option \<Rightarrow> inbox \<Rightarrow> transcript_row option \<times> inbox" where
  "insert_transcript i t role content turn s =
     (case row_at s i of Some _ \<Rightarrow> (None, s)
      | None \<Rightarrow>
          let m = \<lparr>tm_id = i, tm_thread = t, tm_seq = in_next_seq s, tm_role = role, tm_content = content,
                   tm_turn = turn, tm_execution = None, tm_rewound = False, tm_calls = None\<rparr>
          in (Some m, s\<lparr>in_rows := in_rows s @ [m], in_next_seq := in_next_seq s + 1\<rparr>))"

section \<open>What a turn left behind\<close>

definition no_tool_calls :: "json option \<Rightarrow> bool" where
  "no_tool_calls c = (case c of Some (JList xs) \<Rightarrow> xs = [] | _ \<Rightarrow> True)"

text \<open>\<^verbatim>\<open>stale_admission_answered_sql\<close>: the admitted turn reached a durable end.\<close>

definition admission_answered :: "inbox \<Rightarrow> input_delivery \<Rightarrow> transcript_row \<Rightarrow> bool" where
  "admission_answered s d m \<longleftrightarrow>
     tm_execution m \<noteq> None \<or>
     (\<exists>a \<in> set (in_rows s).
        tm_thread a = tm_thread m \<and> tm_role a = ''ai'' \<and> \<not> tm_rewound a \<and>
        tm_turn a \<noteq> None \<and> tm_turn a = coalesce (dl_admitted_turn d) (tm_turn m) \<and> tm_seq m < tm_seq a \<and>
        tm_content a \<noteq> [] \<and> no_tool_calls (tm_calls a))"

text \<open>A live subagent continuation supersedes the input.\<close>

definition superseded :: "inbox \<Rightarrow> input_delivery \<Rightarrow> transcript_row \<Rightarrow> bool" where
  "superseded s d m \<longleftrightarrow>
     (\<exists>x \<in> set (in_ledger s).
        dl_thread x = dl_thread d \<and> dl_source x = ''subagent'' \<and> dl_supersedes x = Some (tm_seq m) \<and>
        (case row_at s (dl_message x) of None \<Rightarrow> False | Some y \<Rightarrow> \<not> tm_rewound y))"

definition stale_stateless_admission ::
  "inbox \<Rightarrow> int \<Rightarrow> int option \<Rightarrow> input_delivery \<Rightarrow> transcript_row \<Rightarrow> bool" where
  "stale_stateless_admission s tok watermark d m \<longleftrightarrow>
     dl_lane d = LANE_STATELESS \<and> dl_state d = DAdmitted \<and>
     (case dl_token d of None \<Rightarrow> False | Some k \<Rightarrow> k < tok) \<and>
     (case_option (-1) id watermark < tm_seq m \<or> admission_answered s d m) \<and>
     \<not> superseded s d m"

definition turn_completed_frame :: "inbox \<Rightarrow> uuid \<Rightarrow> int option \<Rightarrow> secs option \<Rightarrow> bool" where
  "turn_completed_frame s t turn after \<longleftrightarrow>
     (\<exists>f \<in> set (in_frames s).
        tf_thread f = t \<and> tf_kind f = ''turn.completed'' \<and>
        (case (turn, after) of (Some n, Some a) \<Rightarrow> tf_turn f = Some (int_text n) \<and> a \<le> tf_at f | _ \<Rightarrow> False))"

definition pinned_admission_answered :: "inbox \<Rightarrow> input_delivery \<Rightarrow> transcript_row \<Rightarrow> bool" where
  "pinned_admission_answered s d m \<longleftrightarrow>
     admission_answered s d m \<or> turn_completed_frame s (dl_thread d) (dl_admitted_turn d) (dl_admitted_at d)"

definition later_pinned_admission :: "inbox \<Rightarrow> input_delivery \<Rightarrow> bool" where
  "later_pinned_admission s d \<longleftrightarrow>
     (\<exists>x \<in> set (in_ledger s).
        dl_thread x = dl_thread d \<and> dl_id x \<noteq> dl_id d \<and>
        (case (dl_admitted_at x, dl_admitted_at d) of (Some a, Some b) \<Rightarrow> b < a | _ \<Rightarrow> False))"

definition stale_pinned_admission :: "inbox \<Rightarrow> uuid \<Rightarrow> input_delivery \<Rightarrow> transcript_row \<Rightarrow> bool" where
  "stale_pinned_admission s gen d m \<longleftrightarrow>
     dl_lane d = LANE_PINNED \<and> dl_state d = DAdmitted \<and> dl_source d \<noteq> ''direct_human'' \<and> tm_role m = ''event'' \<and>
     dl_runtime d \<noteq> Some gen \<and> \<not> superseded s d m"

section \<open>The recovery chain\<close>

text \<open>The input a continuation supersedes: \<^verbatim>\<open>(thread_id, seq)\<close> and \<^verbatim>\<open>message_id\<close> are unique.\<close>

definition chain_source :: "inbox \<Rightarrow> input_delivery \<Rightarrow> transcript_row \<Rightarrow> (input_delivery \<times> transcript_row) option" where
  "chain_source s d m =
     (case dl_supersedes d of None \<Rightarrow> None
      | Some q \<Rightarrow>
          if tm_seq m \<le> q then None
          else (case find (\<lambda>y. tm_thread y = dl_thread d \<and> tm_seq y = q) (in_rows s) of
              None \<Rightarrow> None
            | Some y \<Rightarrow> map_option (\<lambda>x. (x, y)) (find_by dl_message (tm_id y) (in_ledger s))))"

fun recovery_chain :: "nat \<Rightarrow> inbox \<Rightarrow> input_delivery \<Rightarrow> transcript_row \<Rightarrow> input_delivery list" where
  "recovery_chain 0 s d m = []"
| "recovery_chain (Suc n) s d m =
     d # (case chain_source s d m of None \<Rightarrow> [] | Some (x, y) \<Rightarrow> recovery_chain n s x y)"

definition recovery_chain_admissions :: "inbox \<Rightarrow> uuid \<Rightarrow> int \<times> uuid list" where
  "recovery_chain_admissions s i =
     (case delivery_of s i of None \<Rightarrow> (0, [])
      | Some d \<Rightarrow>
          (case row_at s (dl_message d) of None \<Rightarrow> (0, [])
           | Some m \<Rightarrow>
               (let ds = recovery_chain 64 s d m in (sum_list (map dl_admissions ds), map dl_id ds))))"

definition may_reach_recovery_bound :: "input_delivery \<Rightarrow> transcript_row \<Rightarrow> bool" where
  "may_reach_recovery_bound d m \<longleftrightarrow>
     tm_role m = ''event'' \<and> dl_source d \<noteq> ''direct_human'' \<and> (0 < dl_admissions d \<or> dl_supersedes d \<noteq> None)"

end
