(* ===== verification/Input_Delivery.thy ===== *)
theory Input_Delivery
  imports Input_Ledger
begin

text \<open>
  The operations of \<^verbatim>\<open>src/shared/persistent_input_delivery.py\<close> that claim, admit and settle a
  delivery. An operation returns its value and the next state; an error rolls the caller's
  transaction back. \<^verbatim>\<open>now\<close> is \<^verbatim>\<open>statement_timestamp()\<close>.
\<close>

section \<open>Runtime authority\<close>

record pinned_runtime =
  pt_agent :: uuid
  pt_pod :: pytext
  pt_runtime :: uuid \<comment> \<open>runtime_generation of the process\<close>
  pt_session :: uuid \<comment> \<open>session_runtime_generation\<close>
  pt_attach :: uuid

definition lock_runtime_authority :: "inbox \<Rightarrow> uuid \<Rightarrow> pinned_runtime \<Rightarrow> delivery_error + session_thread" where
  "lock_runtime_authority s t r =
     (if strip (pt_pod r) = [] then Inl Authority_Lost
      else case session_of s t of None \<Rightarrow> Inl Authority_Lost
      | Some th \<Rightarrow>
          if se_agent th \<noteq> Some (pt_agent r) \<or> se_lane th = Some LANE_STATELESS
             \<or> se_status th \<in> {''ended'', ''suspended''} \<or> se_generation th \<noteq> Some (pt_session r)
             \<or> se_attach th \<noteq> Some (pt_attach r) \<or> se_retirement th \<noteq> None
          then Inl Authority_Lost
          else (case agent_of s (pt_agent r) of None \<Rightarrow> Inl Authority_Lost
            | Some a \<Rightarrow>
                if sa_thread a \<noteq> Some t \<or> sa_pod a \<noteq> Some (strip (pt_pod r)) \<or> sa_status a \<in> {''offline'', ''deleted''}
                then Inl Authority_Lost else Inr th))"

record stateless_claimant =
  sc_token :: int
  sc_executor :: pytext
  sc_uid :: pytext

definition stateless_queue_held :: "stateless_claimant \<Rightarrow> row \<Rightarrow> bool" where
  "stateless_queue_held c q \<longleftrightarrow>
     unit_kind q = UNIT_KIND_SESSION_TURN \<and> state q = Leased \<and> lease_token q = sc_token c \<and>
     map_option lit (leased_by q) = Some (strip (sc_executor c)) \<and>
     input_delivery_capable_lease_token q = Some (sc_token c)"

definition lock_stateless_authority ::
  "delivery_lib \<Rightarrow> inbox \<Rightarrow> uuid \<Rightarrow> stateless_claimant \<Rightarrow> delivery_error + session_thread \<times> row" where
  "lock_stateless_authority l s t c =
     (if sc_token c \<le> 0 \<or> strip (sc_executor c) = [] \<or> strip (sc_uid c) = [] then Inl Authority_Lost
      else case session_of s t of None \<Rightarrow> Inl Authority_Lost
      | Some th \<Rightarrow>
          if se_lane th \<noteq> Some LANE_STATELESS \<or> se_agent th \<noteq> None \<or> se_status th \<in> {''ended'', ''suspended''}
          then Inl Authority_Lost
          else (case active_claim_authority (dv_py l) (se_metadata th) of
              Inr (Some (tok, cl)) \<Rightarrow>
                if tok \<noteq> sc_token c \<or> cl_pod cl \<noteq> strip (sc_executor c) \<or> cl_uid cl \<noteq> strip (sc_uid c)
                then Inl Authority_Lost
                else (case row_of (in_rq s) t of None \<Rightarrow> Inl Authority_Lost
                  | Some q \<Rightarrow> if stateless_queue_held c q then Inr (th, q) else Inl Authority_Lost)
            | _ \<Rightarrow> Inl Authority_Lost))"

section \<open>Statements\<close>

definition same_runtime :: "pinned_runtime \<Rightarrow> input_delivery \<Rightarrow> bool" where
  "same_runtime r d \<longleftrightarrow>
     dl_agent d = Some (pt_agent r) \<and> dl_pod d = Some (pt_pod r) \<and> dl_runtime d = Some (pt_runtime r)"

definition parked_at_bound :: "input_delivery \<Rightarrow> bool" where
  "parked_at_bound d \<longleftrightarrow> dl_state d = DDeferred \<and> dl_deferred_reason d = Some PINNED_RECOVERY_PARK_REASON"

definition owned_eff :: "secs \<Rightarrow> pinned_runtime \<Rightarrow> input_delivery \<Rightarrow> input_delivery" where
  "owned_eff now r d = d\<lparr>dl_state := DOwned, dl_generation := dl_generation d + 1, dl_agent := Some (pt_agent r),
     dl_pod := Some (pt_pod r), dl_runtime := Some (pt_runtime r), dl_owned_at := Some now, dl_queued_at := None,
     dl_deferred_reason := None, dl_deferred_at := None\<rparr>"

definition reserved_eff :: "secs \<Rightarrow> pinned_runtime \<Rightarrow> input_delivery \<Rightarrow> input_delivery" where
  "reserved_eff now r d = (owned_eff now r d)\<lparr>dl_admitted_at := None, dl_admitted_turn := None\<rparr>"

definition parked_eff :: "secs \<Rightarrow> pinned_runtime \<Rightarrow> input_delivery \<Rightarrow> input_delivery" where
  "parked_eff now r d = (reserved_eff now r d)\<lparr>dl_state := DDeferred,
     dl_deferred_reason := Some PINNED_RECOVERY_PARK_REASON, dl_deferred_at := Some now\<rparr>"

definition settled_eff :: "secs \<Rightarrow> input_delivery \<Rightarrow> input_delivery" where
  "settled_eff now d = d\<lparr>dl_state := DSettled, dl_settled_at := Some now\<rparr>"

definition pending_states :: "dstate set" where
  "pending_states = {DPersisted, DOwned, DQueued, DDeferred}"

section \<open>Parking at the recovery bound\<close>

definition park_notice :: "int \<Rightarrow> pytext" where
  "park_notice attempts =
     lit ''This input was stopped after '' @ int_text attempts @ lit '' attempts. Each attempt was cut short because the process running this session was replaced, so it is not run again automatically. Changes from those attempts may be incomplete. Retry it to run it once more.''"

definition park_at_recovery_bound ::
  "delivery_lib \<Rightarrow> secs \<Rightarrow> uuid \<Rightarrow> pinned_runtime \<Rightarrow> int \<Rightarrow> inbox
   \<Rightarrow> delivery_error + input_delivery option \<times> inbox" where
  "park_at_recovery_bound l now i r admissions s =
     bind_ok (update_delivery i (\<lambda>d. dl_lane d = LANE_PINNED \<and> dl_state d \<in> insert DAdmitted pending_states)
                (parked_eff now r) s) (\<lambda>(parked, s').
       case parked of None \<Rightarrow> Inr (None, s')
       | Some d \<Rightarrow>
           Inr (Some d, snd (insert_transcript (dv_notice_id l (dl_id d) (dl_generation d)) (dl_thread d) ''error''
             (park_notice admissions) (case row_at s' (dl_message d) of None \<Rightarrow> None | Some m \<Rightarrow> tm_turn m) s')))"

section \<open>The stateless lane\<close>

definition current_conversation :: "session_thread \<Rightarrow> input_delivery \<Rightarrow> bool" where
  "current_conversation th d \<longleftrightarrow>
     (case dl_revision d of
        Some n \<Rightarrow> n = case_option 0 id (se_conversation th)
      | None \<Rightarrow> case_option 0 id (se_conversation th) = 0)"

text \<open>The delivery and its transcript row, in the current conversation and not rewound.\<close>

definition current_input :: "inbox \<Rightarrow> session_thread \<Rightarrow> uuid \<Rightarrow> uuid \<Rightarrow> (input_delivery \<times> transcript_row) option" where
  "current_input s th t i =
     (case delivery_of s i of None \<Rightarrow> None
      | Some d \<Rightarrow>
          (case row_at s (dl_message d) of None \<Rightarrow> None
           | Some m \<Rightarrow> if dl_thread d = t \<and> \<not> tm_rewound m \<and> current_conversation th d then Some (d, m) else None))"

definition same_claim :: "stateless_claimant \<Rightarrow> input_delivery \<Rightarrow> bool" where
  "same_claim c d \<longleftrightarrow>
     dl_token d = Some (sc_token c) \<and> dl_executor d = Some (sc_executor c) \<and> dl_executor_uid d = Some (sc_uid c)"

definition claimed_eff :: "secs \<Rightarrow> stateless_claimant \<Rightarrow> bool \<Rightarrow> input_delivery \<Rightarrow> input_delivery" where
  "claimed_eff now c same d = d\<lparr>dl_state := DQueued, dl_generation := dl_generation d + (if same then 0 else 1),
     dl_token := Some (sc_token c), dl_executor := Some (sc_executor c), dl_executor_uid := Some (sc_uid c),
     dl_owned_at := Some now, dl_queued_at := coalesce (dl_queued_at d) (Some now), dl_admitted_at := None,
     dl_admitted_turn := None, dl_deferred_reason := None, dl_deferred_at := None\<rparr>"

definition claim_stateless_input_delivery ::
  "delivery_lib \<Rightarrow> secs \<Rightarrow> uuid \<Rightarrow> uuid \<Rightarrow> stateless_claimant \<Rightarrow> inbox
   \<Rightarrow> delivery_error + (input_delivery \<times> transcript_row) option \<times> inbox" where
  "claim_stateless_input_delivery l now t i c s =
     bind_ok (lock_stateless_authority l s t c) (\<lambda>(th, q).
       case current_input s th t i of None \<Rightarrow> Inr (None, s)
       | Some (d, m) \<Rightarrow>
           let owed = stale_stateless_admission s (sc_token c) (consumed_seq q) d m \<and> \<not> admission_answered s d m in
           if dl_lane d \<noteq> LANE_STATELESS \<or> tm_role m \<noteq> ''event''
              \<or> dl_state d \<notin> {DPersisted, DQueued, DDeferred} \<and> \<not> owed
           then Inr (None, s)
           else map_ok (\<lambda>(x, s'). (map_option (\<lambda>x. (x, m)) x, s'))
             (update_delivery i (\<lambda>x. dl_lane x = LANE_STATELESS \<and>
                (dl_state x \<in> {DPersisted, DQueued, DDeferred} \<or> dl_state x = DAdmitted \<and> owed))
                (claimed_eff now c (same_claim c d)) s))"

datatype answered_verdict = Verdict_Settled | Verdict_Owed | Verdict_None

definition settle_answered_stateless_admission ::
  "delivery_lib \<Rightarrow> secs \<Rightarrow> uuid \<Rightarrow> uuid \<Rightarrow> stateless_claimant \<Rightarrow> inbox \<Rightarrow> delivery_error + answered_verdict \<times> inbox" where
  "settle_answered_stateless_admission l now t i c s =
     bind_ok (lock_stateless_authority l s t c) (\<lambda>(th, q).
       case current_input s th t i of None \<Rightarrow> Inr (Verdict_None, s)
       | Some (d, m) \<Rightarrow>
           if tm_role m \<noteq> ''event'' \<or> \<not> stale_stateless_admission s (sc_token c) (consumed_seq q) d m
           then Inr (Verdict_None, s)
           else if \<not> admission_answered s d m then Inr (Verdict_Owed, s)
           else map_ok (\<lambda>(x, s'). (if x = None then Verdict_None else Verdict_Settled, s'))
             (update_delivery i (\<lambda>x. dl_lane x = LANE_STATELESS \<and> dl_state x = DAdmitted) (settled_eff now) s))"

text \<open>
  \<^verbatim>\<open>_with_idle_exit\<close>: a successful admission closes the thread's wait. \<^verbatim>\<open>LEFT(s, 120)\<close> is
  \<^verbatim>\<open>take 120\<close>.
\<close>

definition idle_exit :: "uuid \<Rightarrow> inbox \<Rightarrow> inbox" where
  "idle_exit t s =
     (case session_of s t of None \<Rightarrow> s
      | Some th \<Rightarrow>
          if se_idle_episode th = None then s
          else put_session (th\<lparr>se_idle_episode := None, se_idle_revision := se_idle_revision th + 1\<rparr>) s)"

definition admitted_eff :: "secs \<Rightarrow> int option \<Rightarrow> input_delivery \<Rightarrow> input_delivery" where
  "admitted_eff now turn d = d\<lparr>dl_state := DAdmitted, dl_admitted_at := Some now, dl_admitted_turn := turn,
     dl_deferred_reason := None, dl_deferred_at := None\<rparr>"

definition deferred_eff :: "secs \<Rightarrow> string option \<Rightarrow> string \<Rightarrow> input_delivery \<Rightarrow> input_delivery" where
  "deferred_eff now reason fallback d = d\<lparr>dl_state := DDeferred,
     dl_deferred_reason := Some (take 120 (case_option fallback id reason)), dl_deferred_at := Some now, dl_queued_at := None\<rparr>"

definition unadmitted_eff :: "secs \<Rightarrow> string option \<Rightarrow> input_delivery \<Rightarrow> input_delivery" where
  "unadmitted_eff now reason d =
     (deferred_eff now reason ''provider_not_started'' d)\<lparr>dl_admitted_at := None, dl_admitted_turn := None\<rparr>"

definition stateless_transition :: "secs \<Rightarrow> string \<Rightarrow> int option \<Rightarrow> string option
    \<Rightarrow> (dstate set \<times> (input_delivery \<Rightarrow> input_delivery)) option" where
  "stateless_transition now kind turn reason =
     (if kind = ''admitted'' then Some ({DQueued}, admitted_eff now turn)
      else if kind = ''settled'' then Some ({DAdmitted}, settled_eff now)
      else if kind = ''deferred'' then Some ({DQueued}, deferred_eff now reason ''retryable'')
      else if kind = ''unadmit'' then Some ({DAdmitted}, unadmitted_eff now reason)
      else None)"

definition owned_by_claimant :: "uuid \<Rightarrow> stateless_claimant \<Rightarrow> int \<Rightarrow> input_delivery \<Rightarrow> bool" where
  "owned_by_claimant t c g d \<longleftrightarrow>
     dl_thread d = t \<and> dl_lane d = LANE_STATELESS \<and> dl_generation d = g \<and> same_claim c d"

definition transition_stateless_input_delivery ::
  "delivery_lib \<Rightarrow> secs \<Rightarrow> uuid \<Rightarrow> uuid \<Rightarrow> stateless_claimant \<Rightarrow> int \<Rightarrow> string \<Rightarrow> int option \<Rightarrow> string option \<Rightarrow> inbox
   \<Rightarrow> delivery_error + bool \<times> inbox" where
  "transition_stateless_input_delivery l now t i c g kind turn reason s =
     bind_ok (lock_stateless_authority l s t c) (\<lambda>_.
       if kind = ''admitted'' \<and> (case turn of None \<Rightarrow> True | Some n \<Rightarrow> n \<le> 0) then Inl Input_Value
       else case stateless_transition now kind turn reason of None \<Rightarrow> Inl Input_Value
       | Some (sts, eff) \<Rightarrow>
           map_ok (\<lambda>(x, s'). (x \<noteq> None, if x \<noteq> None \<and> kind = ''admitted'' then idle_exit t s' else s'))
             (update_delivery i (\<lambda>d. dl_state d \<in> sts \<and> owned_by_claimant t c g d) eff s))"

end
