(* ===== verification/Input_Pinned.thy ===== *)
theory Input_Pinned
  imports Input_Delivery
begin

text \<open>
  The pinned lane: claims at attach, the resolution of admissions a dead process left, the owner's
  retry of parked inputs, and the transitions of an exact owner. The loops work on the rows their
  first query locked and read.
\<close>

section \<open>Reading the ledger\<close>

definition joined :: "inbox \<Rightarrow> (input_delivery \<times> transcript_row) list" where
  "joined s = concat (map (\<lambda>d. case row_at s (dl_message d) of None \<Rightarrow> [] | Some m \<Rightarrow> [(d, m)]) (in_ledger s))"

definition by_seq :: "input_delivery \<times> transcript_row \<Rightarrow> int \<times> uuid" where
  "by_seq x = (tm_seq (snd x), dl_id (fst x))"

definition pending_rows :: "inbox \<Rightarrow> session_thread \<Rightarrow> uuid \<Rightarrow> (input_delivery \<times> transcript_row) list" where
  "pending_rows s th t =
     sort_key (\<lambda>x. (if dl_source (fst x) = ''subagent'' \<and> dl_supersedes (fst x) \<noteq> None then 0 else 1 :: int, by_seq x))
       (filter (\<lambda>(d, m). dl_thread d = t \<and> dl_state d \<in> pending_states \<and> \<not> parked_at_bound d \<and> \<not> tm_rewound m
          \<and> current_conversation th d) (joined s))"

section \<open>Claims\<close>

text \<open>One row of the loop: nothing is served, or the row as claimed.\<close>

definition claim_pending_row ::
  "delivery_lib \<Rightarrow> secs \<Rightarrow> pinned_runtime \<Rightarrow> input_delivery \<times> transcript_row \<Rightarrow> inbox
   \<Rightarrow> delivery_error + (input_delivery \<times> transcript_row) option \<times> inbox" where
  "claim_pending_row l now r x s =
     (case x of (d, m) \<Rightarrow>
        let admissions = fst (recovery_chain_admissions s (dl_id d)) in
        if \<not> (same_runtime r d \<and> dl_state d = DQueued) \<and> may_reach_recovery_bound d m
           \<and> PINNED_RECOVERY_ADMISSION_LIMIT \<le> admissions
        then map_ok (\<lambda>(_, s'). (None, s')) (park_at_recovery_bound l now (dl_id d) r admissions s)
        else if \<not> same_runtime r d \<or> dl_state d = DDeferred
        then map_ok (\<lambda>(u, s'). (map_option (\<lambda>u. (u, m)) u, s'))
          (update_delivery (dl_id d) (\<lambda>y. dl_state y \<in> pending_states) (owned_eff now r) s)
        else Inr (Some (d, m), s))"

fun claim_loop ::
  "delivery_lib \<Rightarrow> secs \<Rightarrow> pinned_runtime \<Rightarrow> (input_delivery \<times> transcript_row) list \<Rightarrow> inbox
   \<Rightarrow> delivery_error + (input_delivery \<times> transcript_row) list \<times> inbox" where
  "claim_loop l now r [] s = Inr ([], s)"
| "claim_loop l now r (x # xs) s =
     bind_ok (claim_pending_row l now r x s) (\<lambda>(y, s').
       map_ok (\<lambda>(ys, s''). (case y of None \<Rightarrow> ys | Some y \<Rightarrow> y # ys, s'')) (claim_loop l now r xs s'))"

definition claim_pending_input_deliveries ::
  "delivery_lib \<Rightarrow> secs \<Rightarrow> uuid \<Rightarrow> pinned_runtime \<Rightarrow> inbox
   \<Rightarrow> delivery_error + (input_delivery \<times> transcript_row) list \<times> inbox" where
  "claim_pending_input_deliveries l now t r s =
     bind_ok (lock_runtime_authority s t r) (\<lambda>th. claim_loop l now r (pending_rows s th t) s)"

section \<open>Admissions of a dead process\<close>

datatype stale_outcome = Stale_Settled | Stale_History | Stale_Reserved | Stale_Parked

definition stale_rows :: "inbox \<Rightarrow> session_thread \<Rightarrow> uuid \<Rightarrow> uuid \<Rightarrow> (uuid \<times> bool \<times> bool) list" where
  "stale_rows s th t gen =
     map (\<lambda>(d, m). (dl_id d, pinned_admission_answered s d m, later_pinned_admission s d))
       (sort_key by_seq (filter (\<lambda>(d, m). dl_thread d = t \<and> \<not> tm_rewound m \<and> current_conversation th d
          \<and> stale_pinned_admission s gen d m) (joined s)))"

definition pinned_admitted :: "input_delivery \<Rightarrow> bool" where
  "pinned_admitted d \<longleftrightarrow> dl_lane d = LANE_PINNED \<and> dl_state d = DAdmitted"

definition reserve_row ::
  "delivery_lib \<Rightarrow> secs \<Rightarrow> pinned_runtime \<Rightarrow> uuid \<times> bool \<times> bool \<Rightarrow> inbox
   \<Rightarrow> delivery_error + (uuid \<times> stale_outcome) option \<times> inbox" where
  "reserve_row l now r x s =
     (case x of (i, answered, later) \<Rightarrow>
        if answered \<or> later
        then map_ok (\<lambda>(u, s'). (map_option (\<lambda>_. (i, if answered then Stale_Settled else Stale_History)) u, s'))
          (update_delivery i pinned_admitted (settled_eff now) s)
        else
          let admissions = fst (recovery_chain_admissions s i) in
          if PINNED_RECOVERY_ADMISSION_LIMIT \<le> admissions
          then map_ok (\<lambda>(u, s'). (map_option (\<lambda>_. (i, Stale_Parked)) u, s')) (park_at_recovery_bound l now i r admissions s)
          else map_ok (\<lambda>(u, s'). (map_option (\<lambda>_. (i, Stale_Reserved)) u, s'))
            (update_delivery i pinned_admitted (reserved_eff now r) s))"

fun reserve_loop ::
  "delivery_lib \<Rightarrow> secs \<Rightarrow> pinned_runtime \<Rightarrow> (uuid \<times> bool \<times> bool) list \<Rightarrow> inbox
   \<Rightarrow> delivery_error + (uuid \<times> stale_outcome) list \<times> inbox" where
  "reserve_loop l now r [] s = Inr ([], s)"
| "reserve_loop l now r (x # xs) s =
     bind_ok (reserve_row l now r x s) (\<lambda>(y, s').
       map_ok (\<lambda>(ys, s''). (case y of None \<Rightarrow> ys | Some y \<Rightarrow> y # ys, s'')) (reserve_loop l now r xs s'))"

definition reserve_stale_pinned_admissions ::
  "delivery_lib \<Rightarrow> secs \<Rightarrow> uuid \<Rightarrow> pinned_runtime \<Rightarrow> inbox \<Rightarrow> delivery_error + (uuid \<times> stale_outcome) list \<times> inbox" where
  "reserve_stale_pinned_admissions l now t r s =
     bind_ok (lock_runtime_authority s t r) (\<lambda>th. reserve_loop l now r (stale_rows s th t (pt_runtime r)) s)"

section \<open>The owner's retry\<close>

definition parked_rows :: "inbox \<Rightarrow> uuid \<Rightarrow> uuid list" where
  "parked_rows s t =
     map (\<lambda>(d, m). dl_id d)
       (sort_key by_seq (filter (\<lambda>(d, m). dl_thread d = t \<and> dl_lane d = LANE_PINNED \<and> parked_at_bound d \<and> \<not> tm_rewound m)
          (joined s)))"

text \<open>\<^verbatim>\<open>admission_count = 0\<close> cannot violate a constraint of a row that satisfied them.\<close>

definition reset_admissions :: "uuid list \<Rightarrow> inbox \<Rightarrow> inbox" where
  "reset_admissions members s =
     s\<lparr>in_ledger := map (\<lambda>d. if dl_id d \<in> set members \<and> dl_admissions d \<noteq> 0 then d\<lparr>dl_admissions := 0\<rparr> else d) (in_ledger s)\<rparr>"

definition retried_eff :: "secs \<Rightarrow> input_delivery \<Rightarrow> input_delivery" where
  "retried_eff now d = d\<lparr>dl_deferred_reason := Some PINNED_RECOVERY_RETRY_REASON, dl_deferred_at := Some now\<rparr>"

fun retry_loop :: "secs \<Rightarrow> uuid list \<Rightarrow> inbox \<Rightarrow> delivery_error + uuid list \<times> inbox" where
  "retry_loop now [] s = Inr ([], s)"
| "retry_loop now (i # is) s =
     bind_ok (update_delivery i (\<lambda>d. dl_lane d = LANE_PINNED \<and> parked_at_bound d) (retried_eff now)
                (reset_admissions (snd (recovery_chain_admissions s i)) s)) (\<lambda>(u, s').
       map_ok (\<lambda>(ids, s''). (if u = None then ids else i # ids, s'')) (retry_loop now is s'))"

definition retry_parked_pinned_inputs :: "secs \<Rightarrow> uuid \<Rightarrow> inbox \<Rightarrow> delivery_error + uuid list \<times> inbox" where
  "retry_parked_pinned_inputs now t s = retry_loop now (parked_rows s t) s"

section \<open>Transitions of the exact owner\<close>

text \<open>The joined rows of the thread and the agent that the statements require.\<close>

definition live_binding :: "inbox \<Rightarrow> pinned_runtime \<Rightarrow> input_delivery \<Rightarrow> bool" where
  "live_binding s r d \<longleftrightarrow>
     (case (session_of s (dl_thread d), agent_of s (pt_agent r)) of
        (Some th, Some a) \<Rightarrow>
          se_agent th = dl_agent d \<and> se_generation th = Some (pt_session r) \<and> se_attach th = Some (pt_attach r) \<and>
          se_retirement th = None \<and> sa_thread a = Some (se_id th) \<and> sa_pod a = dl_pod d \<and>
          sa_status a \<notin> {''offline'', ''deleted''}
      | _ \<Rightarrow> False)"

definition owned_by_runtime :: "inbox \<Rightarrow> pinned_runtime \<Rightarrow> int \<Rightarrow> input_delivery \<Rightarrow> bool" where
  "owned_by_runtime s r g d \<longleftrightarrow> dl_generation d = g \<and> same_runtime r d \<and> live_binding s r d"

definition queued_eff :: "secs \<Rightarrow> input_delivery \<Rightarrow> input_delivery" where
  "queued_eff now d = d\<lparr>dl_state := DQueued, dl_queued_at := coalesce (dl_queued_at d) (Some now)\<rparr>"

definition mark_input_delivery_queued ::
  "secs \<Rightarrow> uuid \<Rightarrow> pinned_runtime \<Rightarrow> int \<Rightarrow> inbox \<Rightarrow> delivery_error + bool \<times> inbox" where
  "mark_input_delivery_queued now i r g s =
     map_ok (\<lambda>(u, s'). (u \<noteq> None, s'))
       (update_delivery i (\<lambda>d. dl_state d \<in> {DOwned, DQueued} \<and> owned_by_runtime s r g d) (queued_eff now) s)"

definition counted_eff :: "secs \<Rightarrow> int option \<Rightarrow> input_delivery \<Rightarrow> input_delivery" where
  "counted_eff now turn d = (admitted_eff now turn d)\<lparr>dl_admissions := dl_admissions d + 1\<rparr>"

definition uncounted_eff :: "secs \<Rightarrow> string option \<Rightarrow> input_delivery \<Rightarrow> input_delivery" where
  "uncounted_eff now reason d = (unadmitted_eff now reason d)\<lparr>dl_admissions := max (dl_admissions d - 1) 0\<rparr>"

definition cancelled_eff :: "secs \<Rightarrow> int option \<Rightarrow> string option \<Rightarrow> input_delivery \<Rightarrow> input_delivery" where
  "cancelled_eff now turn reason d = d\<lparr>dl_state := DCancelled, dl_cancelled_at := Some now, dl_cancelled_turn := turn,
     dl_cancelled_reason := Some (take 120 (case_option ''human_stop_before_provider'' id reason)),
     dl_queued_at := None, dl_deferred_reason := None, dl_deferred_at := None\<rparr>"

definition pinned_transition :: "secs \<Rightarrow> string \<Rightarrow> int option \<Rightarrow> string option
    \<Rightarrow> (dstate set \<times> (input_delivery \<Rightarrow> input_delivery)) option" where
  "pinned_transition now kind turn reason =
     (if kind = ''admitted'' then Some ({DOwned, DQueued}, counted_eff now turn)
      else if kind = ''settled'' then Some ({DAdmitted}, settled_eff now)
      else if kind = ''deferred'' then Some ({DOwned, DQueued}, deferred_eff now reason ''retryable'')
      else if kind = ''unadmit'' then Some ({DAdmitted}, uncounted_eff now reason)
      else if kind = ''cancelled'' then Some ({DOwned, DQueued}, cancelled_eff now turn reason)
      else None)"

definition transition_input_delivery ::
  "secs \<Rightarrow> uuid \<Rightarrow> pinned_runtime \<Rightarrow> int \<Rightarrow> string \<Rightarrow> int option \<Rightarrow> string option \<Rightarrow> inbox
   \<Rightarrow> delivery_error + bool \<times> inbox" where
  "transition_input_delivery now i r g kind turn reason s =
     (case pinned_transition now kind turn reason of None \<Rightarrow> Inl Input_Value
      | Some (sts, eff) \<Rightarrow>
          map_ok (\<lambda>(u, s'). (u \<noteq> None,
              case u of Some d \<Rightarrow> if kind = ''admitted'' then idle_exit (dl_thread d) s' else s' | None \<Rightarrow> s'))
            (update_delivery i (\<lambda>d. dl_state d \<in> sts \<and> (kind = ''cancelled'' \<longrightarrow> dl_source d = ''direct_human'')
               \<and> owned_by_runtime s r g d) eff s))"

text \<open>The database half of the runtime's client: both calls lock the authority first.\<close>

definition mark_pinned_input_delivery_queued ::
  "secs \<Rightarrow> uuid \<Rightarrow> uuid \<Rightarrow> pinned_runtime \<Rightarrow> int \<Rightarrow> inbox \<Rightarrow> delivery_error + bool \<times> inbox" where
  "mark_pinned_input_delivery_queued now t i r g s =
     bind_ok (lock_runtime_authority s t r) (\<lambda>_. mark_input_delivery_queued now i r g s)"

definition transition_pinned_input_delivery ::
  "secs \<Rightarrow> uuid \<Rightarrow> uuid \<Rightarrow> pinned_runtime \<Rightarrow> int \<Rightarrow> string \<Rightarrow> int option \<Rightarrow> string option \<Rightarrow> inbox
   \<Rightarrow> delivery_error + bool \<times> inbox" where
  "transition_pinned_input_delivery now t i r g kind turn reason s =
     bind_ok (lock_runtime_authority s t r) (\<lambda>_. transition_input_delivery now i r g kind turn reason s)"

section \<open>Looking one up\<close>

definition execution_disposition :: "input_delivery \<Rightarrow> transcript_row \<Rightarrow> string" where
  "execution_disposition d m =
     (if tm_rewound m then if dl_state d \<in> {DAdmitted, DSettled} then ''historical'' else ''superseded'' else ''current'')"

definition get_input_delivery :: "inbox \<Rightarrow> uuid \<Rightarrow> (input_delivery \<times> bool \<times> int option \<times> string) option" where
  "get_input_delivery s i =
     (case delivery_of s i of None \<Rightarrow> None
      | Some d \<Rightarrow>
          (case (row_at s (dl_message d), session_of s (dl_thread d)) of
             (Some m, Some th) \<Rightarrow> Some (d, tm_rewound m, se_conversation th, execution_disposition d m)
           | _ \<Rightarrow> None))"

end
