(* ===== verification/Input_Persist.thy ===== *)
theory Input_Persist
  imports Input_Pinned
begin

text \<open>
  \<^verbatim>\<open>persist_input_delivery\<close>: one transcript row and one ledger row under a stable identity,
  with the replay of what an earlier call left, the claim of a pinned runtime and the wake of a
  stateless queue unit.
\<close>

section \<open>The call\<close>

record persist_call =
  pc_thread :: uuid
  pc_delivery :: uuid
  pc_role :: string
  pc_content :: pytext
  pc_source :: string
  pc_turn :: "int option" \<comment> \<open>turn_number, asserted\<close>
  pc_hint :: "int option" \<comment> \<open>turn_number_hint\<close>
  pc_agent :: "uuid option"
  pc_pod :: "pytext option"
  pc_runtime :: "uuid option"
  pc_session :: "uuid option"
  pc_attach :: "uuid option"
  pc_allow_subagent :: bool
  pc_supersedes :: "int option"

definition source_value :: "persist_call \<Rightarrow> string" where
  "source_value c = take 80 (if pc_source c = [] then ''unknown'' else pc_source c)"

text \<open>All five identity fields, or none; the session's generation defaults to the process's.\<close>

definition call_identity :: "persist_call \<Rightarrow> delivery_error + pinned_runtime option" where
  "call_identity c =
     (case (pc_agent c, pc_pod c, pc_runtime c, coalesce (pc_session c) (pc_runtime c), pc_attach c) of
        (Some a, Some p, Some g, Some sg, Some tok) \<Rightarrow>
          Inr (Some \<lparr>pt_agent = a, pt_pod = p, pt_runtime = g, pt_session = sg, pt_attach = tok\<rparr>)
      | (None, None, None, None, None) \<Rightarrow> Inr None
      | _ \<Rightarrow> Inl Authority_Lost)"

record persisted =
  pd_delivery :: input_delivery
  pd_row :: transcript_row
  pd_inserted :: bool \<comment> \<open>transcript_inserted\<close>
  pd_queue :: "qstate option" \<comment> \<open>queue_state\<close>
  pd_disposition :: string

section \<open>Replays\<close>

definition replay_conflict :: "delivery_lib \<Rightarrow> persist_call \<Rightarrow> input_delivery \<Rightarrow> transcript_row \<Rightarrow> bool" where
  "replay_conflict l c d m \<longleftrightarrow>
     dl_thread d \<noteq> pc_thread c \<or> tm_thread m \<noteq> pc_thread c \<or> dl_message d \<noteq> dv_row_id l (pc_delivery c)
     \<or> dl_source d \<noteq> source_value c \<or> tm_role m \<noteq> pc_role c \<or> dl_supersedes d \<noteq> pc_supersedes c"

definition content_conflict :: "persist_call \<Rightarrow> transcript_row \<Rightarrow> bool" where
  "content_conflict c m \<longleftrightarrow> tm_content m \<noteq> pc_content c \<and> source_value c \<noteq> ''officer_wake''"

definition replayed :: "input_delivery \<Rightarrow> transcript_row \<Rightarrow> string \<Rightarrow> persisted" where
  "replayed d m disposition = \<lparr>pd_delivery = d, pd_row = m, pd_inserted = False, pd_queue = None, pd_disposition = disposition\<rparr>"

definition terminal_replay ::
  "delivery_lib \<Rightarrow> persist_call \<Rightarrow> pinned_runtime option \<Rightarrow> input_delivery \<Rightarrow> transcript_row \<Rightarrow> delivery_error + persisted" where
  "terminal_replay l c r d m =
     (if replay_conflict l c d m \<or> dl_lane d \<notin> {LANE_PINNED, LANE_STATELESS}
         \<or> (pc_turn c \<noteq> None \<and> tm_turn m \<noteq> pc_turn c) \<or> content_conflict c m then Inl Input_Conflict
      else case r of
        Some r \<Rightarrow> if dl_lane d \<noteq> LANE_PINNED \<or> \<not> same_runtime r d then Inl Authority_Lost
                  else Inr (replayed d m (execution_disposition d m))
      | None \<Rightarrow> Inr (replayed d m (execution_disposition d m)))"

definition historical_replay ::
  "delivery_lib \<Rightarrow> persist_call \<Rightarrow> input_delivery \<Rightarrow> transcript_row \<Rightarrow> delivery_error + persisted" where
  "historical_replay l c d m =
     (if replay_conflict l c d m \<or> content_conflict c m then Inl Input_Conflict
      else Inr (replayed d m ''superseded''))"

section \<open>New work\<close>

text \<open>Who may persist: the current runtime of a pinned thread, or the server for events.\<close>

definition persist_authority ::
  "inbox \<Rightarrow> persist_call \<Rightarrow> pinned_runtime option \<Rightarrow> string \<Rightarrow> session_thread \<Rightarrow> delivery_error + unit" where
  "persist_authority s c r lane th =
     bind_ok (case r of None \<Rightarrow> Inr () | Some r \<Rightarrow> map_ok (\<lambda>_. ()) (lock_runtime_authority s (pc_thread c) r)) (\<lambda>_.
       if lane = LANE_PINNED \<and> (se_retirement th \<noteq> None \<or> se_status th \<in> {''ending'', ''ended'', ''suspended''})
       then Inl Authority_Lost
       else if r \<noteq> None \<and> lane \<noteq> LANE_PINNED then Inl Authority_Lost
       else if r = None \<and> lane = LANE_STATELESS
            \<and> (pc_role c \<noteq> ''event''
               \<or> \<not> (source_value c = ''officer_wake'' \<or> pc_allow_subagent c \<and> source_value c = ''subagent'')
               \<or> se_agent th \<noteq> None)
       then Inl Authority_Lost
       else Inr ())"

definition effective_turn :: "inbox \<Rightarrow> uuid \<Rightarrow> persist_call \<Rightarrow> string \<Rightarrow> session_thread \<Rightarrow> int option" where
  "effective_turn s row c lane th =
     (let existing = (case row_at s row of None \<Rightarrow> None | Some m \<Rightarrow> if tm_thread m = pc_thread c then tm_turn m else None);
          turn = coalesce existing (coalesce (pc_turn c) (pc_hint c))
      in if lane = LANE_STATELESS \<and> (case turn of None \<Rightarrow> True | Some n \<Rightarrow> n \<le> 0) then Some (se_turns th + 1) else turn)"

definition raise_turns :: "uuid \<Rightarrow> int option \<Rightarrow> inbox \<Rightarrow> inbox" where
  "raise_turns t turn s =
     (case session_of s t of None \<Rightarrow> s
      | Some th \<Rightarrow> put_session (th\<lparr>se_turns := max (se_turns th) (case_option 0 id turn)\<rparr>) s)"

text \<open>
  The queue half of a server event: wake a suspended session, then record the input unless an
  executor that cannot see deliveries holds the unit. The queue's own tables of messages and
  deliveries are the columns of this state that its statements read.
\<close>

definition queue_view :: "inbox \<Rightarrow> db" where
  "queue_view s = (in_rq s)\<lparr>
     messages := map (\<lambda>m. \<lparr>msg_id = tm_id m, msg_thread = tm_thread m, msg_seq = tm_seq m, msg_rewound = tm_rewound m,
        msg_turn = tm_turn m, msg_role = tm_role m\<rparr>) (in_rows s),
     deliveries := map (\<lambda>d. \<lparr>dlv_message = dl_message d, dlv_thread = dl_thread d, dlv_lane = dl_lane d,
        dlv_state = (case dl_state d of DPersisted \<Rightarrow> ''persisted'' | DOwned \<Rightarrow> ''owned'' | DQueued \<Rightarrow> ''queued''
          | DDeferred \<Rightarrow> ''deferred'' | DAdmitted \<Rightarrow> ''admitted'' | DSettled \<Rightarrow> ''settled'' | DCancelled \<Rightarrow> ''cancelled''),
        dlv_owner_token = dl_token d\<rparr>) (in_ledger s)\<rparr>"

definition wake_suspended :: "uuid \<Rightarrow> inbox \<Rightarrow> inbox" where
  "wake_suspended t s =
     (case session_of s t of None \<Rightarrow> s
      | Some th \<Rightarrow>
          if se_status th = ''suspended'' then put_session (th\<lparr>se_status := ''created'', se_agent := None\<rparr>) s else s)"

definition rolling_old_executor :: "row \<Rightarrow> bool" where
  "rolling_old_executor q \<longleftrightarrow>
     state q = Leased \<and> case_option 0 id (input_delivery_capable_lease_token q) \<noteq> lease_token q"

definition record_event ::
  "bool \<Rightarrow> secs \<Rightarrow> session_thread \<Rightarrow> int \<Rightarrow> inbox \<Rightarrow> delivery_error + (qstate option \<times> string option) \<times> inbox" where
  "record_event seen now th n s =
     (let q = row_of (in_rq s) (se_id th) in
      if (case q of None \<Rightarrow> False | Some q \<Rightarrow> unit_kind q \<noteq> UNIT_KIND_SESSION_TURN) then Inl Authority_Lost
      else if (case q of None \<Rightarrow> False | Some q \<Rightarrow> rolling_old_executor q)
      then Inr ((None, Some ''rolling_old_executor''), s)
      else case record_input_seq seen now (se_id th) UNIT_KIND_SESSION_TURN n (se_user th) (queue_view s) of
          Inl _ \<Rightarrow> Inl Queue_Failure
        | Inr (st, d) \<Rightarrow> Inr ((Some st, if st = Parked then Some ''run_queue_parked'' else None), s\<lparr>in_rq := d\<rparr>))"

definition wake_unit ::
  "bool \<Rightarrow> secs \<Rightarrow> session_thread \<Rightarrow> int \<Rightarrow> inbox \<Rightarrow> delivery_error + (qstate option \<times> string option) \<times> inbox" where
  "wake_unit seen now th n s =
     (let status = (if se_status th = ''suspended'' then ''created'' else se_status th);
          s' = wake_suspended (se_id th) s in
      if status \<in> {''created'', ''active'', ''awaiting_user''} then record_event seen now th n s'
      else if status \<noteq> ''ended'' then Inl Authority_Lost
      else Inr ((None, None), s'))"

text \<open>
  The insert of the ledger row, behind the trigger \<^verbatim>\<open>require_input_delivery_lane_authority\<close>,
  which runs before the conflict on the key is looked at, and the unique index of \<^verbatim>\<open>message_id\<close>.
\<close>

definition lane_authority :: "inbox \<Rightarrow> input_delivery \<Rightarrow> bool" where
  "lane_authority s d \<longleftrightarrow>
     (case session_of s (dl_thread d) of None \<Rightarrow> False
      | Some th \<Rightarrow>
          se_lane th = Some (dl_lane d) \<and>
          (dl_lane d = LANE_STATELESS \<longrightarrow>
             (case row_at s (dl_message d) of None \<Rightarrow> False | Some m \<Rightarrow> tm_thread m = dl_thread d \<and> tm_role m = ''event'') \<and>
             dl_source d \<in> {''officer_wake'', ''subagent''}))"

definition new_delivery :: "uuid \<Rightarrow> persist_call \<Rightarrow> string \<Rightarrow> session_thread \<Rightarrow> input_delivery" where
  "new_delivery row c lane th =
     \<lparr>dl_id = pc_delivery c, dl_thread = pc_thread c, dl_message = row, dl_source = source_value c, dl_lane = lane,
      dl_supersedes = pc_supersedes c, dl_revision = Some (case_option 0 id (se_conversation th)),
      dl_state = DPersisted, dl_generation = 0, dl_agent = None, dl_pod = None, dl_runtime = None, dl_token = None,
      dl_executor = None, dl_executor_uid = None, dl_owned_at = None, dl_queued_at = None, dl_admitted_at = None,
      dl_admitted_turn = None, dl_settled_at = None, dl_deferred_at = None, dl_deferred_reason = None,
      dl_cancelled_at = None, dl_cancelled_turn = None, dl_cancelled_reason = None, dl_admissions = 0\<rparr>"

definition insert_delivery :: "input_delivery \<Rightarrow> inbox \<Rightarrow> delivery_error + inbox" where
  "insert_delivery d s =
     (if \<not> lane_authority s d then Inl Check_Violation
      else if delivery_of s (dl_id d) \<noteq> None then Inr s
      else if dl_message d \<in> dl_message ` set (in_ledger s) \<or> \<not> delivery_shape d then Inl Check_Violation
      else Inr (s\<lparr>in_ledger := in_ledger s @ [d]\<rparr>))"

definition requeued_eff :: "secs \<Rightarrow> input_delivery \<Rightarrow> input_delivery" where
  "requeued_eff now d = d\<lparr>dl_state := DQueued, dl_queued_at := coalesce (dl_queued_at d) (Some now),
     dl_deferred_reason := None, dl_deferred_at := None\<rparr>"

definition held_back_eff :: "secs \<Rightarrow> string \<Rightarrow> input_delivery \<Rightarrow> input_delivery" where
  "held_back_eff now reason d = d\<lparr>dl_state := DDeferred, dl_deferred_reason := Some reason,
     dl_deferred_at := Some now, dl_queued_at := None\<rparr>"

text \<open>The state of an open delivery after the call.\<close>

definition stateless_pending :: "input_delivery \<Rightarrow> bool" where
  "stateless_pending d \<longleftrightarrow> dl_lane d = LANE_STATELESS \<and> dl_state d \<in> {DPersisted, DQueued, DDeferred}"

definition claimable :: "input_delivery \<Rightarrow> bool" where
  "claimable d \<longleftrightarrow> dl_state d \<in> pending_states \<and> \<not> parked_at_bound d"

definition admit_delivery ::
  "secs \<Rightarrow> pinned_runtime option \<Rightarrow> string \<Rightarrow> qstate option \<times> string option \<Rightarrow> input_delivery \<Rightarrow> inbox
   \<Rightarrow> delivery_error + input_delivery \<times> inbox" where
  "admit_delivery now r lane qs d s =
     (if dl_state d \<in> {DAdmitted, DSettled, DCancelled} then Inr (d, s)
      else case r of
        None \<Rightarrow>
          if lane \<noteq> LANE_STATELESS \<or> qs = (None, None) then Inr (d, s)
          else bind_ok (update_delivery (dl_id d) stateless_pending
              (case snd qs of Some reason \<Rightarrow> held_back_eff now reason | None \<Rightarrow> requeued_eff now) s)
            (\<lambda>(u, s'). case u of None \<Rightarrow> Inl Authority_Lost | Some d' \<Rightarrow> Inr (d', s'))
      | Some r \<Rightarrow>
          if parked_at_bound d \<or> same_runtime r d \<and> dl_state d \<noteq> DDeferred then Inr (d, s)
          else bind_ok (update_delivery (dl_id d) claimable (owned_eff now r) s)
            (\<lambda>(u, s'). case u of None \<Rightarrow> Inl Authority_Lost | Some d' \<Rightarrow> Inr (d', s')))"

text \<open>The queue half runs for server events whose delivery is still open.\<close>

definition queue_event ::
  "bool \<Rightarrow> secs \<Rightarrow> pinned_runtime option \<Rightarrow> string \<Rightarrow> session_thread \<Rightarrow> input_delivery option \<Rightarrow> int \<Rightarrow> inbox
   \<Rightarrow> delivery_error + (qstate option \<times> string option) \<times> inbox" where
  "queue_event seen now r lane th existing n s =
     (if r = None \<and> lane = LANE_STATELESS \<and> (case existing of None \<Rightarrow> True | Some d \<Rightarrow> dl_state d \<notin> {DAdmitted, DSettled})
      then wake_unit seen now th n s else Inr ((None, None), s))"

definition delivery_conflict :: "uuid \<Rightarrow> persist_call \<Rightarrow> string \<Rightarrow> transcript_row \<Rightarrow> input_delivery \<Rightarrow> bool" where
  "delivery_conflict row c lane m d \<longleftrightarrow>
     dl_thread d \<noteq> pc_thread c \<or> dl_message d \<noteq> row \<or> dl_source d \<noteq> source_value c \<or> dl_lane d \<noteq> lane
     \<or> dl_supersedes d \<noteq> pc_supersedes c \<or> content_conflict c m"

definition persist_ledger ::
  "delivery_lib \<Rightarrow> bool \<Rightarrow> secs \<Rightarrow> persist_call \<Rightarrow> pinned_runtime option \<Rightarrow> string \<Rightarrow> session_thread \<Rightarrow> transcript_row \<Rightarrow> bool
   \<Rightarrow> inbox \<Rightarrow> delivery_error + persisted \<times> inbox" where
  "persist_ledger l seen now c r lane th m inserted s =
     (let row = dv_row_id l (pc_delivery c) in
      bind_ok (queue_event seen now r lane th (delivery_of s (pc_delivery c)) (tm_seq m) s) (\<lambda>(qs, s1).
      bind_ok (insert_delivery (new_delivery row c lane th) s1) (\<lambda>s2.
        case delivery_of s2 (pc_delivery c) of None \<Rightarrow> Inl Input_Conflict
        | Some d \<Rightarrow>
            if delivery_conflict row c lane m d then Inl Input_Conflict
            else map_ok (\<lambda>(d', s3). (\<lparr>pd_delivery = d', pd_row = m, pd_inserted = inserted, pd_queue = fst qs,
                     pd_disposition = ''current''\<rparr>, s3))
              (admit_delivery now r lane qs d s2))))"

definition persist_new ::
  "delivery_lib \<Rightarrow> bool \<Rightarrow> secs \<Rightarrow> persist_call \<Rightarrow> pinned_runtime option \<Rightarrow> string \<Rightarrow> session_thread \<Rightarrow> inbox
   \<Rightarrow> delivery_error + persisted \<times> inbox" where
  "persist_new l seen now c r lane th s =
     (let row = dv_row_id l (pc_delivery c); turn = effective_turn s row c lane th;
          (new, s1) = insert_transcript row (pc_thread c) (pc_role c) (pc_content c) turn s
      in case row_at s1 row of None \<Rightarrow> Inl Input_Conflict
      | Some m \<Rightarrow>
          if tm_thread m \<noteq> pc_thread c \<or> tm_role m \<noteq> pc_role c \<or> tm_turn m \<noteq> turn then Inl Input_Conflict
          else persist_ledger l seen now c r lane th m (new \<noteq> None)
            (if new \<noteq> None then raise_turns (pc_thread c) turn s1 else s1))"

definition persist_input_delivery ::
  "delivery_lib \<Rightarrow> bool \<Rightarrow> secs \<Rightarrow> persist_call \<Rightarrow> inbox \<Rightarrow> delivery_error + persisted \<times> inbox" where
  "persist_input_delivery l seen now c s =
     (if (case pc_supersedes c of None \<Rightarrow> False | Some n \<Rightarrow> n \<le> 0) then Inl Input_Conflict
      else if pc_turn c \<noteq> None \<and> pc_hint c \<noteq> None then Inl Input_Value
      else bind_ok (call_identity c) (\<lambda>r.
        case session_of s (pc_thread c) of None \<Rightarrow> Inl Authority_Lost
        | Some th \<Rightarrow>
            let lane = case_option LANE_PINNED id (se_lane th) in
            if lane \<notin> {LANE_PINNED, LANE_STATELESS} then Inl Authority_Lost
            else case (case delivery_of s (pc_delivery c) of None \<Rightarrow> None
                       | Some d \<Rightarrow> map_option (\<lambda>m. (d, m)) (row_at s (dl_message d))) of
              Some (d, m) \<Rightarrow>
                if dl_state d \<in> {DAdmitted, DSettled} then map_ok (\<lambda>v. (v, s)) (terminal_replay l c r d m)
                else if tm_rewound m then map_ok (\<lambda>v. (v, s)) (historical_replay l c d m)
                else bind_ok (persist_authority s c r lane th) (\<lambda>_. persist_new l seen now c r lane th s)
            | None \<Rightarrow> bind_ok (persist_authority s c r lane th) (\<lambda>_. persist_new l seen now c r lane th s)))"

end
