(* ===== verification/Input_Laws.thy ===== *)
theory Input_Laws
  imports Input_Persist
begin

text \<open>
  What every statement on the ledger keeps, as the interface \<^verbatim>\<open>ledger_update\<close>: the identity of a
  delivery, the terminal states, the claim generation as a fence of its owner, and the admission
  bound. Each statement interprets it; the operations are sequences of such statements.
\<close>

named_theorems ledger_simps \<open>fields of a delivery after a statement\<close>

section \<open>What a delivery keeps\<close>

definition dl_identity :: "input_delivery \<Rightarrow> uuid \<times> uuid \<times> uuid \<times> string \<times> string \<times> int option \<times> int option" where
  "dl_identity d = (dl_id d, dl_thread d, dl_message d, dl_source d, dl_lane d, dl_supersedes d, dl_revision d)"

definition dl_owner ::
  "input_delivery \<Rightarrow> uuid option \<times> pytext option \<times> uuid option \<times> int option \<times> pytext option \<times> pytext option" where
  "dl_owner d = (dl_agent d, dl_pod d, dl_runtime d, dl_token d, dl_executor d, dl_executor_uid d)"

definition closed :: "input_delivery \<Rightarrow> bool" where
  "closed d \<longleftrightarrow> dl_state d \<in> {DSettled, DCancelled}"

text \<open>At most five admissions of a delivery, and room for one more while it may still be claimed.\<close>

definition bounded :: "input_delivery \<Rightarrow> bool" where
  "bounded d \<longleftrightarrow>
     dl_admissions d \<le> PINNED_RECOVERY_ADMISSION_LIMIT \<and>
     (claimable d \<longrightarrow> dl_admissions d < PINNED_RECOVERY_ADMISSION_LIMIT) \<and>
     (dl_lane d = LANE_STATELESS \<longrightarrow> dl_admissions d = 0)"

text \<open>
  How a delivery may change: a closed one keeps everything but its admission count, which an
  owner's retry of a continuation resets.
\<close>

definition evolves :: "input_delivery \<Rightarrow> input_delivery \<Rightarrow> bool" where
  "evolves d d' \<longleftrightarrow>
     dl_identity d' = dl_identity d \<and> dl_generation d \<le> dl_generation d' \<and>
     (dl_generation d' = dl_generation d \<longrightarrow> dl_owner d' = dl_owner d) \<and>
     (closed d \<longrightarrow> d' = d\<lparr>dl_admissions := dl_admissions d'\<rparr>)"

locale ledger_update =
  fixes guard :: "input_delivery \<Rightarrow> bool" and eff :: "input_delivery \<Rightarrow> input_delivery"
  assumes identity: "dl_identity (eff d) = dl_identity d"
    and open_only: "guard d \<Longrightarrow> \<not> closed d"
    and fenced: "guard d \<Longrightarrow> dl_generation d \<le> dl_generation (eff d)"
    and owner_kept: "guard d \<Longrightarrow> dl_generation (eff d) = dl_generation d \<Longrightarrow> dl_owner (eff d) = dl_owner d"
    and bound_kept: "guard d \<Longrightarrow> delivery_shape d \<Longrightarrow> bounded d \<Longrightarrow> bounded (eff d)"
begin

lemma eff_evolves: "guard d \<Longrightarrow> evolves d (eff d)"
  using identity fenced owner_kept open_only by (simp add: evolves_def)

lemma eff_id [simp]: "dl_id (eff d) = dl_id d"
  using identity [of d] by (simp add: dl_identity_def)

end

lemma evolves_refl [simp]: "evolves d d"
  by (simp add: evolves_def)

lemma evolves_closed: "evolves d d' \<Longrightarrow> closed d \<Longrightarrow> closed d'"
  unfolding evolves_def closed_def by (metis (no_types) input_delivery.select_convs(8) input_delivery.surjective input_delivery.update_convs(26))

lemma evolves_trans: "evolves a b \<Longrightarrow> evolves b c \<Longrightarrow> evolves a c"
proof -
  assume ab: "evolves a b" and bc: "evolves b c"
  have "dl_owner c = dl_owner a" if "dl_generation c = dl_generation a"
  proof -
    have "dl_generation b = dl_generation a" using ab bc that by (simp add: evolves_def)
    then show ?thesis using ab bc that by (simp add: evolves_def)
  qed
  moreover have "c = a\<lparr>dl_admissions := dl_admissions c\<rparr>" if "closed a"
  proof -
    have "b = a\<lparr>dl_admissions := dl_admissions b\<rparr>" using ab that by (simp add: evolves_def)
    moreover have "c = b\<lparr>dl_admissions := dl_admissions c\<rparr>"
      using bc evolves_closed [OF ab that] by (simp add: evolves_def)
    ultimately show ?thesis by (metis input_delivery.update_convs(26) input_delivery.surjective)
  qed
  ultimately show ?thesis using ab bc by (auto simp: evolves_def)
qed

section \<open>The statements\<close>

lemmas eff_defs = owned_eff_def reserved_eff_def parked_eff_def settled_eff_def claimed_eff_def admitted_eff_def
  deferred_eff_def unadmitted_eff_def retried_eff_def queued_eff_def counted_eff_def uncounted_eff_def cancelled_eff_def
  requeued_eff_def held_back_eff_def

lemmas law_defs = dl_identity_def dl_owner_def closed_def bounded_def claimable_def parked_at_bound_def pending_states_def
  PINNED_RECOVERY_ADMISSION_LIMIT_def

text \<open>What the shape says about the owner of a row of each lane.\<close>

lemma pinned_owner_lane: "delivery_shape d \<Longrightarrow> same_runtime r d \<Longrightarrow> dl_lane d = LANE_PINNED"
  by (auto simp: delivery_shape_def owner_shape_iff same_runtime_def)

interpretation park_update: ledger_update
  "\<lambda>d. dl_lane d = LANE_PINNED \<and> dl_state d \<in> insert DAdmitted pending_states" "parked_eff now r" for now r
  by unfold_locales (auto simp: eff_defs law_defs)

interpretation own_update: ledger_update claimable "owned_eff now r" for now r
  by unfold_locales (auto simp: eff_defs law_defs)

interpretation reserve_update: ledger_update
  "\<lambda>d. pinned_admitted d \<and> dl_admissions d < PINNED_RECOVERY_ADMISSION_LIMIT" "reserved_eff now r" for now r
  by unfold_locales (auto simp: eff_defs law_defs pinned_admitted_def)

interpretation settle_update: ledger_update "\<lambda>d. dl_state d = DAdmitted" "settled_eff now" for now
  by unfold_locales (auto simp: eff_defs law_defs)

interpretation retry_update: ledger_update
  "\<lambda>d. dl_lane d = LANE_PINNED \<and> parked_at_bound d \<and> dl_admissions d = 0" "retried_eff now" for now
  by unfold_locales (auto simp: eff_defs law_defs PINNED_RECOVERY_RETRY_REASON_def PINNED_RECOVERY_PARK_REASON_def)

interpretation claim_update: ledger_update
  "\<lambda>d. dl_lane d = LANE_STATELESS \<and> dl_state d \<in> {DPersisted, DQueued, DDeferred, DAdmitted} \<and> same_claim c d = same
     \<and> delivery_shape d" "claimed_eff now c same" for now c same
proof unfold_locales
  fix d
  assume "dl_lane d = LANE_STATELESS \<and> dl_state d \<in> {DPersisted, DQueued, DDeferred, DAdmitted} \<and> same_claim c d = same
     \<and> delivery_shape d" "dl_generation (claimed_eff now c same d) = dl_generation d"
  then show "dl_owner (claimed_eff now c same d) = dl_owner d"
    by (auto simp: eff_defs law_defs same_claim_def split: if_splits)
qed (auto simp: eff_defs law_defs)

interpretation stateless_requeue: ledger_update stateless_pending "requeued_eff now" for now
  by unfold_locales (auto simp: eff_defs law_defs stateless_pending_def)

interpretation stateless_hold: ledger_update stateless_pending "held_back_eff now reason" for now reason
  by unfold_locales (auto simp: eff_defs law_defs stateless_pending_def)

interpretation queue_update: ledger_update
  "\<lambda>d. dl_state d \<in> {DOwned, DQueued}" "queued_eff now" for now
  by unfold_locales (auto simp: eff_defs law_defs)

interpretation stateless_admit: ledger_update
  "\<lambda>d. dl_state d = DQueued" "admitted_eff now turn" for now turn
  by unfold_locales (auto simp: eff_defs law_defs)

interpretation defer_update: ledger_update
  "\<lambda>d. dl_state d \<in> {DOwned, DQueued}" "deferred_eff now reason fallback" for now reason fallback
  by unfold_locales (auto simp: eff_defs law_defs)

interpretation stateless_unadmit: ledger_update
  "\<lambda>d. dl_lane d = LANE_STATELESS \<and> dl_state d = DAdmitted" "unadmitted_eff now reason" for now reason
  by unfold_locales (auto simp: eff_defs law_defs)

interpretation count_update: ledger_update
  "\<lambda>d. dl_lane d = LANE_PINNED \<and> dl_state d \<in> {DOwned, DQueued}" "counted_eff now turn" for now turn
  by unfold_locales (auto simp: eff_defs law_defs)

interpretation uncount_update: ledger_update
  "\<lambda>d. dl_lane d = LANE_PINNED \<and> dl_state d = DAdmitted" "uncounted_eff now reason" for now reason
  by unfold_locales (auto simp: eff_defs law_defs)

interpretation cancel_update: ledger_update
  "\<lambda>d. dl_state d \<in> {DOwned, DQueued}" "cancelled_eff now turn reason" for now turn reason
  by unfold_locales (auto simp: eff_defs law_defs)

section \<open>The ledger\<close>

definition delivery_ok :: "input_delivery \<Rightarrow> bool" where
  "delivery_ok d \<longleftrightarrow> delivery_shape d \<and> bounded d"

definition ledger_ok :: "inbox \<Rightarrow> bool" where
  "ledger_ok s \<longleftrightarrow>
     distinct (map dl_id (in_ledger s)) \<and> distinct (map dl_message (in_ledger s)) \<and> (\<forall>d \<in> set (in_ledger s). delivery_ok d)"

text \<open>What any sequence of statements keeps: deliveries evolve, transcript rows stay.\<close>

definition grows :: "inbox \<Rightarrow> inbox \<Rightarrow> bool" where
  "grows s s' \<longleftrightarrow>
     (\<forall>i d. delivery_of s i = Some d \<longrightarrow> (\<exists>d'. delivery_of s' i = Some d' \<and> evolves d d')) \<and>
     (\<forall>i m. row_at s i = Some m \<longrightarrow> row_at s' i = Some m)"

definition sound_step :: "inbox \<Rightarrow> inbox \<Rightarrow> bool" where
  "sound_step s s' \<longleftrightarrow> ledger_ok s \<longrightarrow> ledger_ok s' \<and> grows s s'"

lemma growsE: "grows s s' \<Longrightarrow> delivery_of s i = Some d \<Longrightarrow> \<exists>d'. delivery_of s' i = Some d' \<and> evolves d d'"
  unfolding grows_def by blast

lemma grows_row: "grows s s' \<Longrightarrow> row_at s i = Some m \<Longrightarrow> row_at s' i = Some m"
  unfolding grows_def by blast

lemma grows_refl [simp]: "grows s s"
  by (simp add: grows_def)

lemma grows_trans: "grows a b \<Longrightarrow> grows b c \<Longrightarrow> grows a c"
  unfolding grows_def by (meson evolves_trans)

lemma sound_step_refl [simp]: "sound_step s s"
  by (simp add: sound_step_def)

lemma sound_step_trans: "sound_step a b \<Longrightarrow> sound_step b c \<Longrightarrow> sound_step a c"
  unfolding sound_step_def using grows_trans by blast

text \<open>A change beside the ledger that keeps the transcript.\<close>

lemma sound_step_beside:
  assumes "in_ledger s' = in_ledger s" "\<And>i m. row_at s i = Some m \<Longrightarrow> row_at s' i = Some m"
  shows "sound_step s s'"
  using assms by (auto simp: sound_step_def ledger_ok_def grows_def delivery_of_def)

lemma delivery_of_put:
  assumes "delivery_of s (dl_id d') = Some d"
  shows "delivery_of (put_delivery d' s) i = (if i = dl_id d' then Some d' else delivery_of s i)"
  using assms find_by_Some_set [of dl_id "dl_id d'" "in_ledger s" d] find_by_Some_key [of dl_id "dl_id d'" "in_ledger s" d]
  by (auto simp: delivery_of_def put_delivery_def find_by_put_same find_by_put_other image_iff)

lemma delivery_of_in: "delivery_of s i = Some d \<Longrightarrow> d \<in> set (in_ledger s) \<and> dl_id d = i"
  by (auto simp: delivery_of_def dest: find_by_Some_set)

lemma delivery_of_mem: "ledger_ok s \<Longrightarrow> d \<in> set (in_ledger s) \<Longrightarrow> delivery_of s (dl_id d) = Some d"
  by (simp add: delivery_of_def ledger_ok_def find_by_distinct)

lemma ok_delivery: "ledger_ok s \<Longrightarrow> delivery_of s i = Some d \<Longrightarrow> delivery_ok d"
  by (auto simp: ledger_ok_def dest: delivery_of_in)

lemma row_at_put_delivery [simp]: "row_at (put_delivery d s) i = row_at s i"
  by (simp add: row_at_def put_delivery_def)

lemma evolves_fields:
  "evolves d d' \<Longrightarrow> dl_id d' = dl_id d \<and> dl_message d' = dl_message d \<and> dl_thread d' = dl_thread d \<and> dl_lane d' = dl_lane d"
  by (auto simp: evolves_def dl_identity_def)

lemma map_put_key:
  assumes "find_by key (key d) xs = Some x" "distinct (map key xs)" "f d = f x"
  shows "map f (put_by key d xs) = map f xs"
  using assms
proof (induction xs)
  case (Cons y ys)
  show ?case
  proof (cases "key y = key d")
    case True
    then have "y = x" "key d \<notin> key ` set ys" using Cons.prems by (auto simp: image_iff)
    then show ?thesis using Cons.prems True put_absent [of key d ys] by (simp add: put_by_def)
  next
    case False
    then show ?thesis using Cons by (simp add: put_by_def)
  qed
qed simp

lemma put_delivery_sound:
  assumes d: "delivery_of s (dl_id d') = Some d" and ev: "evolves d d'" and ok: "ledger_ok s \<Longrightarrow> delivery_ok d'"
  shows "sound_step s (put_delivery d' s)"
proof -
  have "ledger_ok (put_delivery d' s)" if l: "ledger_ok s"
  proof -
    have "map dl_message (put_by dl_id d' (in_ledger s)) = map dl_message (in_ledger s)"
      using d l evolves_fields [OF ev] by (intro map_put_key) (auto simp: delivery_of_def ledger_ok_def)
    then show ?thesis
      using l ok [OF l] set_put_subset [of dl_id d' "in_ledger s"]
      by (auto simp: ledger_ok_def put_delivery_def map_key_put)
  qed
  moreover have "grows s (put_delivery d' s)"
    using d ev delivery_of_put [OF d] by (auto simp: grows_def)
  ultimately show ?thesis by (simp add: sound_step_def)
qed

text \<open>An update whose row satisfies a lawful guard is a sound step.\<close>

context ledger_update
begin

lemma update_sound:
  assumes up: "update_delivery i g eff s = Inr (u, s')"
    and g: "\<And>d. ledger_ok s \<Longrightarrow> delivery_of s i = Some d \<Longrightarrow> g d \<Longrightarrow> guard d"
  shows "sound_step s s'"
proof (cases "delivery_of s i")
  case None
  then show ?thesis using up by (simp add: update_delivery_def)
next
  case (Some d)
  show ?thesis
  proof (cases "g d")
    case True
    then have s': "s' = put_delivery (eff d) s" and sh: "delivery_shape (eff d)"
      using up Some by (auto simp: update_delivery_def split: if_splits)
    have id: "dl_id (eff d) = i" using Some delivery_of_in by fastforce
    show ?thesis
    proof (cases "ledger_ok s")
      case True
      have gd: "guard d" using g [OF True Some \<open>g d\<close>] .
      have "delivery_ok d" using ok_delivery [OF True Some] .
      then have "delivery_ok (eff d)" using bound_kept [OF gd] sh by (simp add: delivery_ok_def)
      then show ?thesis
        unfolding s' using Some id eff_evolves [OF gd] by (intro put_delivery_sound) simp_all
    next
      case False
      then show ?thesis by (simp add: sound_step_def)
    qed
  next
    case False
    then show ?thesis using up Some by (simp add: update_delivery_def)
  qed
qed

end

section \<open>Other statements\<close>

lemma insert_transcript_row: "row_at s i = Some m \<Longrightarrow> row_at (snd (insert_transcript j t r c n s)) i = Some m"
  by (auto simp: insert_transcript_def row_at_def find_by_append Let_def split: option.splits)

lemma insert_transcript_ledger [simp]: "in_ledger (snd (insert_transcript j t r c n s)) = in_ledger s"
  by (auto simp: insert_transcript_def Let_def split: option.splits)

lemma insert_transcript_sound: "sound_step s (snd (insert_transcript j t r c n s))"
  by (rule sound_step_beside) (simp_all add: insert_transcript_row)

lemma put_session_sound: "sound_step s (put_session t s)"
  by (rule sound_step_beside) (simp_all add: put_session_def row_at_def)

lemma idle_exit_sound: "sound_step s (idle_exit t s)"
  by (auto simp: idle_exit_def put_session_sound split: option.splits)

lemma update_delivery_row: "update_delivery i g f s = Inr (Some d, s') \<Longrightarrow> delivery_of s' i = Some d \<or> dl_id d \<noteq> i"
  by (auto simp: update_delivery_def delivery_of_put split: option.splits if_splits)

lemma park_sound:
  assumes "park_at_recovery_bound l now i r n s = Inr (u, s')"
  shows "sound_step s s'"
proof -
  obtain x s1 where up: "update_delivery i (\<lambda>d. dl_lane d = LANE_PINNED \<and> dl_state d \<in> insert DAdmitted pending_states)
      (parked_eff now r) s = Inr (x, s1)" and s': "s' = s1 \<or> (\<exists>j t ro c k. s' = snd (insert_transcript j t ro c k s1))"
    using assms by (fastforce simp: park_at_recovery_bound_def bind_ok_Inr split: option.splits)
  have "sound_step s s1" using park_update.update_sound [OF up] by blast
  then show ?thesis using s' insert_transcript_sound sound_step_trans by blast
qed

lemma insert_delivery_sound:
  assumes "insert_delivery (new_delivery row c lane th) s = Inr s'" 
  shows "sound_step s s'"
proof (cases "delivery_of s (pc_delivery c)")
  case None
  let ?d = "new_delivery row c lane th"
  have id: "dl_id ?d = pc_delivery c" and bd: "bounded ?d"
    by (simp_all add: new_delivery_def law_defs)
  have s': "s' = s\<lparr>in_ledger := in_ledger s @ [?d]\<rparr>" and sh: "delivery_shape ?d" "dl_message ?d \<notin> dl_message ` set (in_ledger s)"
    using assms None id by (auto simp: insert_delivery_def split: if_splits)
  have fresh: "dl_id ?d \<notin> dl_id ` set (in_ledger s)" using None id by (simp add: delivery_of_def find_by_None)
  have "grows s s'" by (auto simp: grows_def s' delivery_of_def find_by_append row_at_def)
  moreover have "ledger_ok s \<Longrightarrow> ledger_ok s'"
    using fresh sh bd by (auto simp: ledger_ok_def s' delivery_ok_def)
  ultimately show ?thesis by (simp add: sound_step_def)
next
  case (Some d)
  moreover have "dl_id (new_delivery row c lane th) = pc_delivery c" by (simp add: new_delivery_def)
  ultimately show ?thesis using assms by (auto simp: insert_delivery_def split: if_splits)
qed

end
