(* ===== verification/Input_Steps.thy ===== *)
theory Input_Steps
  imports Input_Laws
begin

text \<open>
  Every operation is a sound step: it keeps the ledger well formed and lets every delivery and
  transcript row only evolve. The step relation interleaves all operations with arbitrary changes
  to threads, agents, frames, the queue and the transcript's other columns.
\<close>

section \<open>The stateless lane\<close>

lemma claim_stateless_sound:
  assumes "claim_stateless_input_delivery l now t i c s = Inr (v, s')"
  shows "sound_step s s'"
proof -
  obtain th q where "lock_stateless_authority l s t c = Inr (th, q)"
    using assms by (auto simp: claim_stateless_input_delivery_def bind_ok_Inr)
  show ?thesis
  proof (cases "current_input s th t i")
    case None
    then show ?thesis using assms \<open>lock_stateless_authority l s t c = Inr (th, q)\<close>
      by (simp add: claim_stateless_input_delivery_def)
  next
    case (Some x)
    obtain d m where x: "x = (d, m)" by (cases x)
    have d: "delivery_of s i = Some d"
      using Some x by (auto simp: current_input_def split: option.splits if_splits)
    let ?owed = "stale_stateless_admission s (sc_token c) (consumed_seq q) d m \<and> \<not> admission_answered s d m"
    have "s' = s \<or> (\<exists>u. update_delivery i (\<lambda>x. dl_lane x = LANE_STATELESS \<and>
                (dl_state x \<in> {DPersisted, DQueued, DDeferred} \<or> dl_state x = DAdmitted \<and> ?owed))
                (claimed_eff now c (same_claim c d)) s = Inr (u, s'))"
      using assms \<open>lock_stateless_authority l s t c = Inr (th, q)\<close> Some x
      by (auto simp: claim_stateless_input_delivery_def Let_def map_ok_Inr split: if_splits)
    then show ?thesis
    proof
      assume "\<exists>u. update_delivery i (\<lambda>x. dl_lane x = LANE_STATELESS \<and>
                (dl_state x \<in> {DPersisted, DQueued, DDeferred} \<or> dl_state x = DAdmitted \<and> ?owed))
                (claimed_eff now c (same_claim c d)) s = Inr (u, s')"
      then obtain u where up: "update_delivery i (\<lambda>x. dl_lane x = LANE_STATELESS \<and>
                (dl_state x \<in> {DPersisted, DQueued, DDeferred} \<or> dl_state x = DAdmitted \<and> ?owed))
                (claimed_eff now c (same_claim c d)) s = Inr (u, s')" ..
      show ?thesis
        by (rule claim_update.update_sound [OF up]) (use d ok_delivery in \<open>auto simp: delivery_ok_def\<close>)
    qed simp
  qed
qed

lemma settle_answered_cases:
  assumes "settle_answered_stateless_admission l now t i c s = Inr (v, s')"
  shows "s' = s \<or> (\<exists>u. update_delivery i (\<lambda>x. dl_lane x = LANE_STATELESS \<and> dl_state x = DAdmitted) (settled_eff now) s = Inr (u, s'))"
proof -
  obtain th q where a: "lock_stateless_authority l s t c = Inr (th, q)"
    using assms by (auto simp: settle_answered_stateless_admission_def bind_ok_Inr)
  note body = assms [unfolded settle_answered_stateless_admission_def a bind_ok_simps prod.case]
  show ?thesis
  proof (cases "current_input s th t i")
    case None
    then show ?thesis using body by simp
  next
    case (Some x)
    obtain d m where "x = (d, m)" by (cases x)
    then show ?thesis using body Some by (auto simp: map_ok_Inr split: if_splits)
  qed
qed

lemma settle_answered_sound:
  assumes "settle_answered_stateless_admission l now t i c s = Inr (v, s')"
  shows "sound_step s s'"
  using settle_answered_cases [OF assms] settle_update.update_sound by fastforce

lemma stateless_transition_sound:
  assumes tr: "stateless_transition now kind turn reason = Some (sts, eff)"
    and up: "update_delivery i (\<lambda>d. dl_state d \<in> sts \<and> owned_by_claimant t c g d) eff s = Inr (u, s')"
  shows "sound_step s s'"
proof -
  have "(sts = {DQueued} \<and> eff = admitted_eff now turn) \<or> (sts = {DAdmitted} \<and> eff = settled_eff now) \<or>
     (sts = {DQueued} \<and> eff = deferred_eff now reason ''retryable'') \<or> (sts = {DAdmitted} \<and> eff = unadmitted_eff now reason)"
    using tr by (auto simp: stateless_transition_def split: if_splits)
  then show ?thesis
  proof (elim disjE conjE)
    assume a: "sts = {DQueued}" "eff = admitted_eff now turn"
    show ?thesis by (rule stateless_admit.update_sound [OF up [unfolded a(2)]]) (simp add: a(1))
  next
    assume a: "sts = {DAdmitted}" "eff = settled_eff now"
    show ?thesis by (rule settle_update.update_sound [OF up [unfolded a(2)]]) (simp add: a(1))
  next
    assume a: "sts = {DQueued}" "eff = deferred_eff now reason ''retryable''"
    show ?thesis by (rule defer_update.update_sound [OF up [unfolded a(2)]]) (simp add: a(1))
  next
    assume a: "sts = {DAdmitted}" "eff = unadmitted_eff now reason"
    show ?thesis by (rule stateless_unadmit.update_sound [OF up [unfolded a(2)]]) (simp add: a(1) owned_by_claimant_def)
  qed
qed

lemma transition_stateless_sound:
  assumes "transition_stateless_input_delivery l now t i c g kind turn reason s = Inr (v, s')"
  shows "sound_step s s'"
proof -
  obtain sts eff u s1 where "stateless_transition now kind turn reason = Some (sts, eff)"
    "update_delivery i (\<lambda>d. dl_state d \<in> sts \<and> owned_by_claimant t c g d) eff s = Inr (u, s1)"
    and s': "s' = s1 \<or> s' = idle_exit t s1"
    using assms
    by (auto simp: transition_stateless_input_delivery_def bind_ok_Inr map_ok_Inr split: if_splits option.splits)
  then have "sound_step s s1" using stateless_transition_sound by blast
  then show ?thesis using s' idle_exit_sound sound_step_trans by blast
qed

section \<open>The pinned lane\<close>

text \<open>Loops: a snapshot row stays as it was until its own turn.\<close>

definition touches :: "uuid set \<Rightarrow> inbox \<Rightarrow> inbox \<Rightarrow> bool" where
  "touches ids s s' \<longleftrightarrow>
     sound_step s s' \<and> (\<forall>i. i \<notin> ids \<longrightarrow> delivery_of s' i = delivery_of s i) \<and> (\<forall>i m. row_at s i = Some m \<longrightarrow> row_at s' i = Some m)"

lemma update_delivery_id:
  assumes "update_delivery i g eff s = Inr (u, s')" "\<And>d. dl_id (eff d) = dl_id d"
  shows "(\<forall>j. j \<noteq> i \<longrightarrow> delivery_of s' j = delivery_of s j) \<and> (\<forall>j. row_at s' j = row_at s j)"
proof (cases "delivery_of s i")
  case (Some d)
  have "dl_id d = i" using Some delivery_of_in by blast
  then show ?thesis
    using assms Some delivery_of_put [of s "eff d" d]
    by (auto simp: update_delivery_def split: if_splits)
qed (use assms(1) in \<open>simp add: update_delivery_def\<close>)

lemma touches_trans: "touches A s s1 \<Longrightarrow> touches B s1 s2 \<Longrightarrow> touches (A \<union> B) s s2"
  unfolding touches_def by (auto intro: sound_step_trans)

lemma touches_refl [simp]: "touches A s s"
  by (simp add: touches_def)

lemma touches_mono: "touches A s s' \<Longrightarrow> A \<subseteq> B \<Longrightarrow> touches B s s'"
  by (auto simp: touches_def)

lemma park_touches:
  assumes "park_at_recovery_bound l now i r n s = Inr (u, s')"
  shows "touches {i} s s'"
proof -
  obtain x s1 where up: "update_delivery i (\<lambda>d. dl_lane d = LANE_PINNED \<and> dl_state d \<in> insert DAdmitted pending_states)
      (parked_eff now r) s = Inr (x, s1)" and s': "s' = s1 \<or> (\<exists>j t ro c k. s' = snd (insert_transcript j t ro c k s1))"
    using assms by (fastforce simp: park_at_recovery_bound_def bind_ok_Inr split: option.splits)
  have "(\<forall>j. j \<noteq> i \<longrightarrow> delivery_of s1 j = delivery_of s j) \<and> (\<forall>j. row_at s1 j = row_at s j)"
    by (rule update_delivery_id [OF up]) (simp add: eff_defs)
  moreover have "(\<forall>j. delivery_of s' j = delivery_of s1 j) \<and> (\<forall>j m. row_at s1 j = Some m \<longrightarrow> row_at s' j = Some m)"
    using s' insert_transcript_row by (auto simp: delivery_of_def)
  ultimately show ?thesis using park_sound [OF assms] by (simp add: touches_def)
qed

lemma update_touches:
  "update_delivery i g eff s = Inr (u, s') \<Longrightarrow> (\<And>d. dl_id (eff d) = dl_id d) \<Longrightarrow> sound_step s s' \<Longrightarrow> touches {i} s s'"
  using update_delivery_id [of i g eff s u s'] by (auto simp: touches_def)

lemma bounded_claimable: "ledger_ok s \<Longrightarrow> delivery_of s i = Some d \<Longrightarrow> claimable d \<Longrightarrow> dl_admissions d < PINNED_RECOVERY_ADMISSION_LIMIT"
  using ok_delivery by (auto simp: delivery_ok_def bounded_def)

lemma claim_pending_row_touches:
  assumes "claim_pending_row l now r (d, m) s = Inr (v, s')" "delivery_of s (dl_id d) = Some d" "claimable d"
  shows "touches {dl_id d} s s'"
proof -
  have "s' = s \<or> (\<exists>n u. park_at_recovery_bound l now (dl_id d) r n s = Inr (u, s')) \<or>
     (\<exists>u. update_delivery (dl_id d) (\<lambda>y. dl_state y \<in> pending_states) (owned_eff now r) s = Inr (u, s'))"
    using assms(1) by (auto simp: claim_pending_row_def Let_def map_ok_Inr split: if_splits)
  then show ?thesis
  proof (elim disjE exE)
    fix u assume up: "update_delivery (dl_id d) (\<lambda>y. dl_state y \<in> pending_states) (owned_eff now r) s = Inr (u, s')"
    have "sound_step s s'" by (rule own_update.update_sound [OF up]) (use assms(2,3) in auto)
    then show ?thesis using update_touches [OF up] by (simp add: eff_defs)
  qed (auto intro: park_touches)
qed

lemma claim_loop_touches:
  assumes "claim_loop l now r xs s = Inr (v, s')" "distinct (map (\<lambda>x. dl_id (fst x)) xs)"
    "\<forall>(d, m) \<in> set xs. delivery_of s (dl_id d) = Some d \<and> claimable d"
  shows "touches (set (map (\<lambda>x. dl_id (fst x)) xs)) s s'"
  using assms
proof (induction xs arbitrary: s v)
  case (Cons x xs)
  obtain d m where x: "x = (d, m)" by (cases x)
  obtain y s1 ys where row: "claim_pending_row l now r (d, m) s = Inr (y, s1)" and rest: "claim_loop l now r xs s1 = Inr (ys, s')"
    using Cons.prems(1) x by (auto simp: bind_ok_Inr map_ok_Inr)
  have t: "touches {dl_id d} s s1" using claim_pending_row_touches [OF row] Cons.prems(3) x by simp
  have "touches (set (map (\<lambda>x. dl_id (fst x)) xs)) s1 s'"
  proof (rule Cons.IH [OF rest])
    show "distinct (map (\<lambda>x. dl_id (fst x)) xs)" using Cons.prems(2) by simp
    show "\<forall>(d, m) \<in> set xs. delivery_of s1 (dl_id d) = Some d \<and> claimable d"
    proof safe
      fix e n assume e: "(e, n) \<in> set xs"
      then have "dl_id e \<noteq> dl_id d" using Cons.prems(2) x by (force simp: image_iff)
      then show "delivery_of s1 (dl_id e) = Some e" "claimable e"
        using t Cons.prems(3) e by (auto simp: touches_def)
    qed
  qed
  then show ?case using touches_trans [OF t] x by simp
qed simp

lemma joined_in: "(d, m) \<in> set (joined s) \<Longrightarrow> d \<in> set (in_ledger s) \<and> row_at s (dl_message d) = Some m"
  by (auto simp: joined_def split: option.splits)

lemma distinct_concat_option:
  "distinct (map f xs) \<Longrightarrow> distinct (map (\<lambda>x. f (fst x)) (concat (map (\<lambda>d. case g d of None \<Rightarrow> [] | Some m \<Rightarrow> [(d, m)]) xs)))"
  by (induction xs) (auto simp: image_iff split: option.splits)

lemma distinct_joined: "ledger_ok s \<Longrightarrow> distinct (map (\<lambda>x. dl_id (fst x)) (joined s))"
  unfolding joined_def by (rule distinct_concat_option) (simp add: ledger_ok_def)

lemma distinct_sorted: "distinct (map f xs) \<Longrightarrow> distinct (map f (sort_key k xs))"
  by (simp add: distinct_map)

lemma claim_pending_sound:
  assumes "claim_pending_input_deliveries l now t r s = Inr (v, s')"
  shows "sound_step s s'"
proof (cases "ledger_ok s")
  case True
  obtain th where loop: "claim_loop l now r (pending_rows s th t) s = Inr (v, s')"
    using assms by (auto simp: claim_pending_input_deliveries_def bind_ok_Inr)
  have "touches (set (map (\<lambda>x. dl_id (fst x)) (pending_rows s th t))) s s'"
  proof (rule claim_loop_touches [OF loop])
    show "distinct (map (\<lambda>x. dl_id (fst x)) (pending_rows s th t))"
      unfolding pending_rows_def by (intro distinct_sorted distinct_map_filter distinct_joined True)
    show "\<forall>(d, m) \<in> set (pending_rows s th t). delivery_of s (dl_id d) = Some d \<and> claimable d"
      using joined_in delivery_of_mem [OF True] by (auto simp: pending_rows_def claimable_def)
  qed
  then show ?thesis by (simp add: touches_def)
qed (simp add: sound_step_def)

text \<open>Along a chain every admission counts, the delivery's own among them.\<close>

lemma chain_source_in: "chain_source s d m = Some (x, y) \<Longrightarrow> x \<in> set (in_ledger s)"
  by (auto simp: chain_source_def dest: find_by_Some_set split: option.splits if_splits)

lemma chain_nonneg:
  "ledger_ok s \<Longrightarrow> d \<in> set (in_ledger s) \<Longrightarrow> 0 \<le> sum_list (map dl_admissions (recovery_chain n s d m))"
proof (induction n arbitrary: d m)
  case (Suc n)
  have "0 \<le> dl_admissions d" using Suc.prems by (auto simp: ledger_ok_def delivery_ok_def delivery_shape_def)
  moreover have "0 \<le> sum_list (map dl_admissions (recovery_chain n s x y))" if "chain_source s d m = Some (x, y)" for x y
    using Suc.IH [OF Suc.prems(1)] chain_source_in [OF that] by blast
  ultimately show ?case by (auto split: option.splits)
qed simp

lemma chain_tail_nonneg:
  assumes "ledger_ok s"
  shows "0 \<le> sum_list (map dl_admissions (case chain_source s d m of None \<Rightarrow> [] | Some (x, y) \<Rightarrow> recovery_chain n s x y))"
proof (cases "chain_source s d m")
  case (Some p)
  obtain x y where p: "p = (x, y)" by (cases p)
  then show ?thesis using chain_nonneg [OF assms chain_source_in [of s d m x y]] Some by simp
qed simp

lemma recovery_chain_64:
  "recovery_chain 64 s d m = d # (case chain_source s d m of None \<Rightarrow> [] | Some (x, y) \<Rightarrow> recovery_chain 63 s x y)"
proof -
  have "(64 :: nat) = Suc 63" by simp
  then show ?thesis by (simp only: recovery_chain.simps(2))
qed

lemma chain_counts_self:
  assumes "ledger_ok s" "delivery_of s i = Some d" "row_at s (dl_message d) = Some m"
  shows "dl_admissions d \<le> fst (recovery_chain_admissions s i)" "i \<in> set (snd (recovery_chain_admissions s i))"
proof -
  have id: "dl_id d = i" using delivery_of_in [OF assms(2)] by simp
  have "recovery_chain_admissions s i =
    (sum_list (map dl_admissions (recovery_chain 64 s d m)), map dl_id (recovery_chain 64 s d m))"
    using assms(2,3) by (simp add: recovery_chain_admissions_def Let_def)
  then show "dl_admissions d \<le> fst (recovery_chain_admissions s i)" "i \<in> set (snd (recovery_chain_admissions s i))"
    using chain_tail_nonneg [OF assms(1), where n = 63 and d = d and m = m] id by (simp_all add: recovery_chain_64)
qed

text \<open>The rows of a loop stay in the ledger and in the transcript.\<close>

definition in_transcript :: "inbox \<Rightarrow> uuid \<Rightarrow> bool" where
  "in_transcript s i \<longleftrightarrow> (\<exists>d m. delivery_of s i = Some d \<and> row_at s (dl_message d) = Some m)"

lemma in_transcript_grows: "grows s s' \<Longrightarrow> in_transcript s i \<Longrightarrow> in_transcript s' i"
proof -
  assume g: "grows s s'" and "in_transcript s i"
  then obtain d m where d: "delivery_of s i = Some d" "row_at s (dl_message d) = Some m" by (auto simp: in_transcript_def)
  then obtain d' where "delivery_of s' i = Some d'" "evolves d d'" using growsE [OF g] by blast
  moreover have "row_at s' (dl_message d) = Some m" using grows_row [OF g d(2)] .
  ultimately show "in_transcript s' i" using evolves_fields by (auto simp: in_transcript_def)
qed

lemma reserve_row_sound:
  assumes "reserve_row l now r (i, ans, later) s = Inr (v, s')" "in_transcript s i"
  shows "sound_step s s'"
proof (cases "ledger_ok s")
  case True
  obtain d m where d: "delivery_of s i = Some d" "row_at s (dl_message d) = Some m" using assms(2) by (auto simp: in_transcript_def)
  note self = chain_counts_self [OF True d]
  let ?n = "fst (recovery_chain_admissions s i)"
  have "(\<exists>u. update_delivery i pinned_admitted (settled_eff now) s = Inr (u, s')) \<or>
     (\<exists>u. park_at_recovery_bound l now i r ?n s = Inr (u, s')) \<or>
     (\<exists>u. ?n < PINNED_RECOVERY_ADMISSION_LIMIT \<and> update_delivery i pinned_admitted (reserved_eff now r) s = Inr (u, s'))"
    using assms(1) by (auto simp: reserve_row_def Let_def map_ok_Inr split: if_splits)
  then show ?thesis
  proof (elim disjE exE conjE)
    fix u assume up: "update_delivery i pinned_admitted (settled_eff now) s = Inr (u, s')"
    show ?thesis by (rule settle_update.update_sound [OF up]) (simp add: pinned_admitted_def)
  next
    fix u assume "park_at_recovery_bound l now i r ?n s = Inr (u, s')"
    then show ?thesis by (rule park_sound)
  next
    fix u assume up: "update_delivery i pinned_admitted (reserved_eff now r) s = Inr (u, s')"
      and n: "?n < PINNED_RECOVERY_ADMISSION_LIMIT"
    show ?thesis by (rule reserve_update.update_sound [OF up]) (use self n d in simp)
  qed
qed (simp add: sound_step_def)

lemma reserve_loop_sound:
  assumes "reserve_loop l now r xs s = Inr (v, s')" "ledger_ok s" "\<forall>x \<in> set xs. in_transcript s (fst x)"
  shows "ledger_ok s' \<and> grows s s'"
  using assms
proof (induction xs arbitrary: s v)
  case (Cons x xs)
  obtain i a b where x: "x = (i, a, b)" by (cases x)
  obtain y s1 ys where row: "reserve_row l now r (i, a, b) s = Inr (y, s1)" and rest: "reserve_loop l now r xs s1 = Inr (ys, s')"
    using Cons.prems(1) x by (auto simp: bind_ok_Inr map_ok_Inr)
  have s1: "ledger_ok s1" "grows s s1"
    using reserve_row_sound [OF row] Cons.prems(2,3) x by (auto simp: sound_step_def)
  then have "\<forall>x \<in> set xs. in_transcript s1 (fst x)" using Cons.prems(3) in_transcript_grows by auto
  from Cons.IH [OF rest s1(1) this] show ?case using s1(2) grows_trans by blast
qed simp

lemma joined_present: "ledger_ok s \<Longrightarrow> (d, m) \<in> set (joined s) \<Longrightarrow> in_transcript s (dl_id d)"
  using joined_in delivery_of_mem unfolding in_transcript_def by blast

lemma reserve_stale_sound:
  assumes "reserve_stale_pinned_admissions l now t r s = Inr (v, s')"
  shows "sound_step s s'"
proof -
  obtain th where loop: "reserve_loop l now r (stale_rows s th t (pt_runtime r)) s = Inr (v, s')"
    using assms by (auto simp: reserve_stale_pinned_admissions_def bind_ok_Inr)
  show ?thesis
    unfolding sound_step_def
  proof
    assume ok: "ledger_ok s"
    have "\<forall>x \<in> set (stale_rows s th t (pt_runtime r)). in_transcript s (fst x)"
      using joined_present [OF ok] by (auto simp: stale_rows_def)
    then show "ledger_ok s' \<and> grows s s'" by (rule reserve_loop_sound [OF loop ok])
  qed
qed

lemma reset_delivery:
  "delivery_of (reset_admissions ids s) i =
     map_option (\<lambda>d. if dl_id d \<in> set ids \<and> dl_admissions d \<noteq> 0 then d\<lparr>dl_admissions := 0\<rparr> else d) (delivery_of s i)"
proof -
  have "find_by dl_id i (map (\<lambda>d. if dl_id d \<in> set ids \<and> dl_admissions d \<noteq> 0 then d\<lparr>dl_admissions := 0\<rparr> else d) xs)
    = map_option (\<lambda>d. if dl_id d \<in> set ids \<and> dl_admissions d \<noteq> 0 then d\<lparr>dl_admissions := 0\<rparr> else d) (find_by dl_id i xs)" for xs
    by (induction xs) auto
  then show ?thesis by (simp add: delivery_of_def reset_admissions_def)
qed

lemma reset_shapes:
  "admission_shape (d\<lparr>dl_admissions := n\<rparr>) = admission_shape d" "claim_shape (d\<lparr>dl_admissions := n\<rparr>) = claim_shape d"
  "owner_shape (d\<lparr>dl_admissions := n\<rparr>) = owner_shape d" "settlement_shape (d\<lparr>dl_admissions := n\<rparr>) = settlement_shape d"
  "cancellation_shape (d\<lparr>dl_admissions := n\<rparr>) = cancellation_shape d"
  by (simp_all add: admission_shape_def claim_shape_def owner_shape_iff settlement_shape_def cancellation_shape_iff)

lemma reset_ok: "delivery_ok d \<Longrightarrow> delivery_ok (d\<lparr>dl_admissions := 0\<rparr>)"
  by (simp add: delivery_ok_def delivery_shape_def reset_shapes bounded_def claimable_def parked_at_bound_def
      PINNED_RECOVERY_ADMISSION_LIMIT_def)

lemma reset_evolves [simp]: "evolves d (d\<lparr>dl_admissions := n\<rparr>)"
  by (simp add: evolves_def dl_identity_def dl_owner_def)

lemma reset_sound: "sound_step s (reset_admissions ids s)"
proof -
  have "ledger_ok s \<Longrightarrow> ledger_ok (reset_admissions ids s)"
    using reset_ok by (auto simp: ledger_ok_def reset_admissions_def comp_def if_distrib [of dl_id] if_distrib [of dl_message] cong: if_cong)
  moreover have "grows s (reset_admissions ids s)"
    by (auto simp: grows_def reset_delivery row_at_def) (simp add: reset_admissions_def)
  ultimately show ?thesis by (simp add: sound_step_def)
qed

lemma retry_loop_sound:
  assumes "retry_loop now xs s = Inr (v, s')" "ledger_ok s" "\<forall>i \<in> set xs. in_transcript s i"
  shows "ledger_ok s' \<and> grows s s'"
  using assms
proof (induction xs arbitrary: s v)
  case (Cons i xs)
  let ?s1 = "reset_admissions (snd (recovery_chain_admissions s i)) s"
  obtain u s2 ids where up: "update_delivery i (\<lambda>d. dl_lane d = LANE_PINNED \<and> parked_at_bound d) (retried_eff now) ?s1 = Inr (u, s2)"
    and rest: "retry_loop now xs s2 = Inr (ids, s')"
    using Cons.prems(1) by (auto simp: bind_ok_Inr map_ok_Inr)
  obtain d m where d: "delivery_of s i = Some d" "row_at s (dl_message d) = Some m"
    using Cons.prems(3) by (auto simp: in_transcript_def)
  have "i \<in> set (snd (recovery_chain_admissions s i))" by (rule chain_counts_self(2) [OF Cons.prems(2) d])
  then have zero: "dl_admissions e = 0" if "delivery_of ?s1 i = Some e" for e
    using that d delivery_of_in [OF d(1)] by (auto simp: reset_delivery)
  have "sound_step ?s1 s2" by (rule retry_update.update_sound [OF up]) (use zero in auto)
  then have s2: "ledger_ok s2" "grows s s2"
    using sound_step_trans [OF reset_sound] Cons.prems(2) unfolding sound_step_def by blast+
  then have "\<forall>i \<in> set xs. in_transcript s2 i" using Cons.prems(3) in_transcript_grows by auto
  from Cons.IH [OF rest s2(1) this] show ?case using s2(2) grows_trans by blast
qed simp

lemma retry_sound:
  assumes "retry_parked_pinned_inputs now t s = Inr (v, s')"
  shows "sound_step s s'"
  unfolding sound_step_def
proof
  assume ok: "ledger_ok s"
  have "\<forall>i \<in> set (parked_rows s t). in_transcript s i" using joined_present [OF ok] by (auto simp: parked_rows_def)
  then show "ledger_ok s' \<and> grows s s'"
    using assms ok by (intro retry_loop_sound) (auto simp: retry_parked_pinned_inputs_def)
qed

lemma mark_sound:
  assumes "mark_input_delivery_queued now i r g s = Inr (v, s')"
  shows "sound_step s s'"
proof -
  obtain u where up: "update_delivery i (\<lambda>d. dl_state d \<in> {DOwned, DQueued} \<and> owned_by_runtime s r g d) (queued_eff now) s = Inr (u, s')"
    using assms by (auto simp: mark_input_delivery_queued_def map_ok_Inr)
  show ?thesis by (rule queue_update.update_sound [OF up]) simp
qed

lemma pinned_transition_sound:
  assumes tr: "pinned_transition now kind turn reason = Some (sts, eff)"
    and up: "update_delivery i (\<lambda>d. dl_state d \<in> sts \<and> (kind = ''cancelled'' \<longrightarrow> dl_source d = ''direct_human'')
               \<and> owned_by_runtime s r g d) eff s = Inr (u, s')"
  shows "sound_step s s'"
proof -
  have lane: "dl_lane d = LANE_PINNED" if "ledger_ok s" "delivery_of s i = Some d" "owned_by_runtime s r g d" for d
    using pinned_owner_lane [of d r] ok_delivery [OF that(1,2)] that(3) by (simp add: delivery_ok_def owned_by_runtime_def)
  have "(sts = {DOwned, DQueued} \<and> eff = counted_eff now turn) \<or> (sts = {DAdmitted} \<and> eff = settled_eff now) \<or>
     (sts = {DOwned, DQueued} \<and> eff = deferred_eff now reason ''retryable'') \<or> (sts = {DAdmitted} \<and> eff = uncounted_eff now reason) \<or>
     (sts = {DOwned, DQueued} \<and> eff = cancelled_eff now turn reason)"
    using tr by (auto simp: pinned_transition_def split: if_splits)
  then show ?thesis
  proof (elim disjE conjE)
    assume a: "sts = {DOwned, DQueued}" "eff = counted_eff now turn"
    show ?thesis by (rule count_update.update_sound [OF up [unfolded a(2)]]) (use a(1) lane in simp)
  next
    assume a: "sts = {DAdmitted}" "eff = settled_eff now"
    show ?thesis by (rule settle_update.update_sound [OF up [unfolded a(2)]]) (simp add: a(1))
  next
    assume a: "sts = {DOwned, DQueued}" "eff = deferred_eff now reason ''retryable''"
    show ?thesis by (rule defer_update.update_sound [OF up [unfolded a(2)]]) (simp add: a(1))
  next
    assume a: "sts = {DAdmitted}" "eff = uncounted_eff now reason"
    show ?thesis by (rule uncount_update.update_sound [OF up [unfolded a(2)]]) (use a(1) lane in simp)
  next
    assume a: "sts = {DOwned, DQueued}" "eff = cancelled_eff now turn reason"
    show ?thesis by (rule cancel_update.update_sound [OF up [unfolded a(2)]]) (simp add: a(1))
  qed
qed

lemma transition_sound:
  assumes "transition_input_delivery now i r g kind turn reason s = Inr (v, s')"
  shows "sound_step s s'"
proof -
  obtain sts eff where tr: "pinned_transition now kind turn reason = Some (sts, eff)"
    using assms by (auto simp: transition_input_delivery_def split: option.splits)
  obtain u s1 where up: "update_delivery i (\<lambda>d. dl_state d \<in> sts \<and> (kind = ''cancelled'' \<longrightarrow> dl_source d = ''direct_human'')
               \<and> owned_by_runtime s r g d) eff s = Inr (u, s1)"
    and c: "s' = (case u of Some d \<Rightarrow> if kind = ''admitted'' then idle_exit (dl_thread d) s1 else s1 | None \<Rightarrow> s1)"
  proof -
    have "\<exists>x. update_delivery i (\<lambda>d. dl_state d \<in> sts \<and> (kind = ''cancelled'' \<longrightarrow> dl_source d = ''direct_human'')
               \<and> owned_by_runtime s r g d) eff s = Inr x \<and> s' = (case fst x of
             Some d \<Rightarrow> if kind = ''admitted'' then idle_exit (dl_thread d) (snd x) else snd x | None \<Rightarrow> snd x)"
      using assms unfolding transition_input_delivery_def tr option.case prod.case map_ok_Inr
      by (elim exE conjE) (simp add: case_prod_beta)
    then obtain x where x: "update_delivery i (\<lambda>d. dl_state d \<in> sts \<and> (kind = ''cancelled'' \<longrightarrow> dl_source d = ''direct_human'')
               \<and> owned_by_runtime s r g d) eff s = Inr x" "s' = (case fst x of
             Some d \<Rightarrow> if kind = ''admitted'' then idle_exit (dl_thread d) (snd x) else snd x | None \<Rightarrow> snd x)" by blast
    show thesis by (rule that [of "fst x" "snd x"]) (simp_all only: prod.collapse x)
  qed
  have "sound_step s s1" by (rule pinned_transition_sound [OF tr up])
  moreover have "s' = s1 \<or> (\<exists>t. s' = idle_exit t s1)" using c by (cases u) auto
  ultimately show ?thesis using idle_exit_sound sound_step_trans by blast
qed

section \<open>Persisting\<close>

lemma raise_turns_sound: "sound_step s (raise_turns t n s)"
  by (auto simp: raise_turns_def put_session_sound split: option.splits)

lemma wake_suspended_sound: "sound_step s (wake_suspended t s)"
  by (auto simp: wake_suspended_def put_session_sound split: option.splits)

lemma record_event_cases:
  assumes "record_event seen now th n s = Inr (qs, s')"
  shows "s' = s \<or> (\<exists>d. s' = s\<lparr>in_rq := d\<rparr>)"
  using assms by (auto simp: record_event_def Let_def split: if_splits sum.splits)

lemma wake_unit_sound:
  assumes "wake_unit seen now th n s = Inr (qs, s')"
  shows "sound_step s s'"
proof -
  have "s' = wake_suspended (se_id th) s \<or> (\<exists>d. s' = (wake_suspended (se_id th) s)\<lparr>in_rq := d\<rparr>)"
    using assms by (auto simp: wake_unit_def Let_def dest: record_event_cases split: if_splits)
  moreover have "sound_step x (x\<lparr>in_rq := d\<rparr>)" for x d
    by (rule sound_step_beside) (simp_all add: row_at_def)
  ultimately show ?thesis using wake_suspended_sound sound_step_trans by blast
qed

lemma admit_delivery_sound:
  assumes "admit_delivery now r lane qs d s = Inr (d', s')"
  shows "sound_step s s'"
proof -
  have "s' = s \<or> (\<exists>u. update_delivery (dl_id d) stateless_pending (requeued_eff now) s = Inr (u, s')) \<or>
     (\<exists>u reason. update_delivery (dl_id d) stateless_pending (held_back_eff now reason) s = Inr (u, s')) \<or>
     (\<exists>u r. update_delivery (dl_id d) claimable (owned_eff now r) s = Inr (u, s'))"
    using assms by (cases qs; cases "snd qs"; cases r) (auto simp: admit_delivery_def bind_ok_Inr split: if_splits option.splits)
  then show ?thesis
    using stateless_requeue.update_sound stateless_hold.update_sound own_update.update_sound by fastforce
qed

lemma queue_event_sound:
  "queue_event seen now r lane th e n s = Inr (qs, s') \<Longrightarrow> sound_step s s'"
  by (auto simp: queue_event_def wake_unit_sound split: if_splits)

lemma persist_ledger_cases:
  assumes "persist_ledger l seen now c r lane th m inserted s = Inr (v, s')"
  obtains qs s1 s2 d where
    "queue_event seen now r lane th (delivery_of s (pc_delivery c)) (tm_seq m) s = Inr (qs, s1)"
    "insert_delivery (new_delivery (dv_row_id l (pc_delivery c)) c lane th) s1 = Inr s2"
    "delivery_of s2 (pc_delivery c) = Some d" "\<not> delivery_conflict (dv_row_id l (pc_delivery c)) c lane m d"
    "admit_delivery now r lane qs d s2 = Inr (pd_delivery v, s')" "pd_row v = m" "pd_inserted v = inserted" "pd_queue v = fst qs"
proof -
  obtain qs s1 s2 where q: "queue_event seen now r lane th (delivery_of s (pc_delivery c)) (tm_seq m) s = Inr (qs, s1)"
    and i: "insert_delivery (new_delivery (dv_row_id l (pc_delivery c)) c lane th) s1 = Inr s2"
    using assms by (auto simp: persist_ledger_def Let_def bind_ok_Inr)
  note body = assms [unfolded persist_ledger_def Let_def q i bind_ok_simps prod.case]
  then obtain d where d: "delivery_of s2 (pc_delivery c) = Some d" by (cases "delivery_of s2 (pc_delivery c)") auto
  then show thesis
    using body by (intro that [OF q i d]) (auto simp: map_ok_Inr split: if_splits)
qed

lemma persist_ledger_sound:
  assumes "persist_ledger l seen now c r lane th m inserted s = Inr (v, s')"
  shows "sound_step s s'"
  using assms
proof (rule persist_ledger_cases)
  fix qs s1 s2 d
  assume "queue_event seen now r lane th (delivery_of s (pc_delivery c)) (tm_seq m) s = Inr (qs, s1)"
    "insert_delivery (new_delivery (dv_row_id l (pc_delivery c)) c lane th) s1 = Inr s2"
    "admit_delivery now r lane qs d s2 = Inr (pd_delivery v, s')"
  then show ?thesis
    using queue_event_sound insert_delivery_sound admit_delivery_sound sound_step_trans by meson
qed

text \<open>The first half of new work: the transcript row under its stable identity.\<close>

lemma persist_new_cases:
  assumes "persist_new l seen now c r lane th s = Inr (v, s')"
  obtains new s1 m where
    "insert_transcript (dv_row_id l (pc_delivery c)) (pc_thread c) (pc_role c) (pc_content c)
       (effective_turn s (dv_row_id l (pc_delivery c)) c lane th) s = (new, s1)"
    "row_at s1 (dv_row_id l (pc_delivery c)) = Some m" "tm_thread m = pc_thread c" "tm_role m = pc_role c"
    "persist_ledger l seen now c r lane th m (new \<noteq> None)
       (if new \<noteq> None then raise_turns (pc_thread c) (effective_turn s (dv_row_id l (pc_delivery c)) c lane th) s1 else s1)
      = Inr (v, s')"
proof -
  obtain new s1 where ins: "insert_transcript (dv_row_id l (pc_delivery c)) (pc_thread c) (pc_role c) (pc_content c)
       (effective_turn s (dv_row_id l (pc_delivery c)) c lane th) s = (new, s1)"
    by (cases "insert_transcript (dv_row_id l (pc_delivery c)) (pc_thread c) (pc_role c) (pc_content c)
       (effective_turn s (dv_row_id l (pc_delivery c)) c lane th) s")
  note body = assms [unfolded persist_new_def Let_def ins prod.case]
  then obtain m where m: "row_at s1 (dv_row_id l (pc_delivery c)) = Some m"
    by (cases "row_at s1 (dv_row_id l (pc_delivery c))") auto
  then show thesis using body by (intro that [OF ins m]) (simp_all split: if_splits)
qed

lemma persist_new_sound:
  assumes "persist_new l seen now c r lane th s = Inr (v, s')"
  shows "sound_step s s'"
  using assms
proof (rule persist_new_cases)
  fix new s1 m
  assume ins: "insert_transcript (dv_row_id l (pc_delivery c)) (pc_thread c) (pc_role c) (pc_content c)
       (effective_turn s (dv_row_id l (pc_delivery c)) c lane th) s = (new, s1)"
    and led: "persist_ledger l seen now c r lane th m (new \<noteq> None)
       (if new \<noteq> None then raise_turns (pc_thread c) (effective_turn s (dv_row_id l (pc_delivery c)) c lane th) s1 else s1)
      = Inr (v, s')"
  have "sound_step s s1" using insert_transcript_sound ins by (metis snd_conv)
  moreover have "sound_step s1 (if new \<noteq> None then raise_turns (pc_thread c) (effective_turn s (dv_row_id l (pc_delivery c)) c lane th) s1 else s1)"
    by (simp add: raise_turns_sound)
  ultimately show ?thesis using persist_ledger_sound [OF led] sound_step_trans by blast
qed

lemma persist_cases:
  assumes "persist_input_delivery l seen now c s = Inr (v, s')"
  obtains (replay) d m where "delivery_of s (pc_delivery c) = Some d" "row_at s (dl_message d) = Some m" "s' = s"
      "dl_state d \<in> {DAdmitted, DSettled} \<or> tm_rewound m" "pd_delivery v = d" "pd_row v = m" "\<not> pd_inserted v"
      "pd_disposition v = execution_disposition d m"
  | (work) r th lane where "call_identity c = Inr r" "session_of s (pc_thread c) = Some th" "lane = case_option LANE_PINNED id (se_lane th)"
      "persist_authority s c r lane th = Inr ()" "persist_new l seen now c r lane th s = Inr (v, s')"
      "\<And>d m. delivery_of s (pc_delivery c) = Some d \<Longrightarrow> row_at s (dl_message d) = Some m \<Longrightarrow> dl_state d \<notin> {DAdmitted, DSettled} \<and> \<not> tm_rewound m"
proof -
  obtain r where id: "call_identity c = Inr r"
    using assms by (auto simp: persist_input_delivery_def bind_ok_Inr split: if_splits)
  obtain th where th: "session_of s (pc_thread c) = Some th"
    using assms id by (cases "session_of s (pc_thread c)") (auto simp: persist_input_delivery_def split: if_splits)
  let ?lane = "case_option LANE_PINNED id (se_lane th)"
  let ?old = "case delivery_of s (pc_delivery c) of None \<Rightarrow> None | Some d \<Rightarrow> map_option (\<lambda>m. (d, m)) (row_at s (dl_message d))"
  have body: "(case ?old of
              Some (d, m) \<Rightarrow>
                if dl_state d \<in> {DAdmitted, DSettled} then map_ok (\<lambda>v. (v, s)) (terminal_replay l c r d m)
                else if tm_rewound m then map_ok (\<lambda>v. (v, s)) (historical_replay l c d m)
                else bind_ok (persist_authority s c r ?lane th) (\<lambda>_. persist_new l seen now c r ?lane th s)
            | None \<Rightarrow> bind_ok (persist_authority s c r ?lane th) (\<lambda>_. persist_new l seen now c r ?lane th s)) = Inr (v, s')"
    using assms by (simp add: persist_input_delivery_def id th Let_def split: if_splits)
  show thesis
  proof (cases ?old)
    case None
    show thesis
    proof (rule work [OF id th refl])
      show "persist_authority s c r ?lane th = Inr ()" "persist_new l seen now c r ?lane th s = Inr (v, s')"
        using body unfolding None by (simp_all add: bind_ok_Inr)
      show "dl_state d \<notin> {DAdmitted, DSettled} \<and> \<not> tm_rewound m"
        if "delivery_of s (pc_delivery c) = Some d" "row_at s (dl_message d) = Some m" for d m
        using None that by simp
    qed
  next
    case (Some p)
    obtain d m where p: "p = (d, m)" by (cases p)
    have dm: "delivery_of s (pc_delivery c) = Some d" "row_at s (dl_message d) = Some m"
      using Some p by (auto split: option.splits)
    have rep: "terminal_replay l c r d m = Inr x \<or>
        historical_replay l c d m = Inr x \<and> dl_state d \<notin> {DAdmitted, DSettled} \<and> tm_rewound m
        \<Longrightarrow> pd_delivery x = d \<and> pd_row x = m \<and> \<not> pd_inserted x \<and> pd_disposition x = execution_disposition d m" for x
      by (auto simp: terminal_replay_def historical_replay_def replayed_def execution_disposition_def split: if_splits option.splits)
    show thesis
    proof (cases "dl_state d \<in> {DAdmitted, DSettled} \<or> tm_rewound m")
      case True
      then have "s' = s \<and> (terminal_replay l c r d m = Inr v \<or>
          historical_replay l c d m = Inr v \<and> dl_state d \<notin> {DAdmitted, DSettled} \<and> tm_rewound m)"
        using body Some p by (auto simp: map_ok_Inr split: if_splits)
      then show thesis using replay [OF dm] True rep [of v] by blast
    next
      case False
      show thesis
      proof (rule work [OF id th refl])
        show "persist_authority s c r ?lane th = Inr ()" "persist_new l seen now c r ?lane th s = Inr (v, s')"
          using body False unfolding Some p by (simp_all add: bind_ok_Inr)
        show "dl_state e \<notin> {DAdmitted, DSettled} \<and> \<not> tm_rewound n"
          if "delivery_of s (pc_delivery c) = Some e" "row_at s (dl_message e) = Some n" for e n
          using False that dm by simp
      qed
    qed
  qed
qed

lemma persist_sound:
  "persist_input_delivery l seen now c s = Inr (v, s') \<Longrightarrow> sound_step s s'"
  by (erule persist_cases) (simp_all add: persist_new_sound)

end
