(* ===== verification/Input_Runs.thy ===== *)
theory Input_Runs
  imports Input_Steps
begin

text \<open>
  The interleaving of all operations on the input ledger, with any change to the tables beside it,
  and what holds over every run: durable deliveries, exclusive claims, the bound on admissions and
  retries that add nothing.
\<close>

section \<open>Runs\<close>

inductive inbox_move :: "delivery_lib \<Rightarrow> inbox \<Rightarrow> inbox \<Rightarrow> bool" for l where
  move_persist: "persist_input_delivery l seen now c s = Inr (v, s') \<Longrightarrow> inbox_move l s s'"
| move_claim_stateless: "claim_stateless_input_delivery l now t i c s = Inr (w, s') \<Longrightarrow> inbox_move l s s'"
| move_settle_answered: "settle_answered_stateless_admission l now t i c s = Inr (x, s') \<Longrightarrow> inbox_move l s s'"
| move_transition_stateless: "transition_stateless_input_delivery l now t i c g kind turn reason s = Inr (b, s') \<Longrightarrow> inbox_move l s s'"
| move_claim_pending: "claim_pending_input_deliveries l now t r s = Inr (y, s') \<Longrightarrow> inbox_move l s s'"
| move_reserve_stale: "reserve_stale_pinned_admissions l now t r s = Inr (z, s') \<Longrightarrow> inbox_move l s s'"
| move_retry: "retry_parked_pinned_inputs now t s = Inr (ids, s') \<Longrightarrow> inbox_move l s s'"
| move_mark: "mark_input_delivery_queued now i r g s = Inr (b, s') \<Longrightarrow> inbox_move l s s'"
| move_transition: "transition_input_delivery now i r g kind turn reason s = Inr (b, s') \<Longrightarrow> inbox_move l s s'"
| move_beside: "in_ledger s' = in_ledger s \<Longrightarrow> \<forall>i. row_at s i \<noteq> None \<longrightarrow> row_at s' i \<noteq> None \<Longrightarrow> inbox_move l s s'"

abbreviation inbox_run :: "delivery_lib \<Rightarrow> inbox \<Rightarrow> inbox \<Rightarrow> bool" where
  "inbox_run l \<equiv> (inbox_move l)\<^sup>*\<^sup>*"

definition inbox_reachable :: "delivery_lib \<Rightarrow> inbox \<Rightarrow> bool" where
  "inbox_reachable l s \<longleftrightarrow> (\<exists>s0. in_ledger s0 = [] \<and> inbox_run l s0 s)"

text \<open>What a run keeps of the ledger, and that the rows stay in the transcript.\<close>

definition outlives :: "inbox \<Rightarrow> inbox \<Rightarrow> bool" where
  "outlives s s' \<longleftrightarrow>
     (\<forall>i d. delivery_of s i = Some d \<longrightarrow> (\<exists>d'. delivery_of s' i = Some d' \<and> evolves d d')) \<and>
     (\<forall>i. row_at s i \<noteq> None \<longrightarrow> row_at s' i \<noteq> None)"

lemma outlivesE: "outlives s s' \<Longrightarrow> delivery_of s i = Some d \<Longrightarrow> \<exists>d'. delivery_of s' i = Some d' \<and> evolves d d'"
  unfolding outlives_def by blast

lemma outlives_row: "outlives s s' \<Longrightarrow> row_at s i \<noteq> None \<Longrightarrow> row_at s' i \<noteq> None"
  unfolding outlives_def by blast

lemma outlives_refl [simp]: "outlives s s"
  by (simp add: outlives_def)

lemma outlives_trans: "outlives a b \<Longrightarrow> outlives b c \<Longrightarrow> outlives a c"
  unfolding outlives_def by (meson evolves_trans)

lemma grows_outlives: "grows s s' \<Longrightarrow> outlives s s'"
  unfolding grows_def outlives_def by fastforce

lemma move_sound: "inbox_move l s s' \<Longrightarrow> ledger_ok s \<Longrightarrow> ledger_ok s' \<and> outlives s s'"
proof (induction rule: inbox_move.induct)
  case (move_beside s' s)
  then show ?case by (simp add: ledger_ok_def outlives_def delivery_of_def)
qed (use persist_sound claim_stateless_sound settle_answered_sound transition_stateless_sound claim_pending_sound
      reserve_stale_sound retry_sound mark_sound transition_sound grows_outlives in \<open>auto simp: sound_step_def\<close>)

lemma run_sound: "inbox_run l s s' \<Longrightarrow> ledger_ok s \<Longrightarrow> ledger_ok s' \<and> outlives s s'"
proof (induction rule: rtranclp_induct)
  case (step b c)
  then show ?case using move_sound outlives_trans by blast
qed simp

lemma reachable_ledger: "inbox_reachable l s \<Longrightarrow> ledger_ok s"
  unfolding inbox_reachable_def using run_sound by (fastforce simp: ledger_ok_def)

section \<open>Properties\<close>

text \<open>
  C3. A delivery is durable: over every run it keeps its identity, thread, transcript row, source,
  lane, superseded input and conversation revision, its claim generation never falls, and once
  settled or cancelled nothing of it changes but the admission count an owner's retry resets.
\<close>
theorem deliveries_are_durable:
  assumes "inbox_reachable l s" "inbox_run l s s'" "delivery_of s i = Some d"
  shows "\<exists>d'. delivery_of s' i = Some d' \<and> dl_identity d' = dl_identity d \<and> dl_generation d \<le> dl_generation d'
    \<and> (dl_state d \<in> {DSettled, DCancelled} \<longrightarrow> d' = d\<lparr>dl_admissions := dl_admissions d'\<rparr>)"
proof -
  have "outlives s s'" using run_sound [OF assms(2) reachable_ledger [OF assms(1)]] by simp
  then obtain d' where "delivery_of s' i = Some d'" "evolves d d'" using outlivesE assms(3) by blast
  then show ?thesis by (auto simp: evolves_def closed_def)
qed

lemma stale_generation_update:
  assumes "delivery_of s i = Some d" "dl_generation d \<noteq> g" "update_delivery i guard eff s = Inr (u, s')"
    "\<And>x. guard x \<Longrightarrow> dl_generation x = g"
  shows "u = None \<and> s' = s"
  using assms by (auto simp: update_delivery_def split: if_splits)

lemma stale_transition:
  assumes "delivery_of s i = Some d" "dl_generation d \<noteq> g" "transition_input_delivery now i r g kind turn reason s = Inr (b, s')"
  shows "\<not> b \<and> s' = s"
proof -
  obtain sts eff where tr: "pinned_transition now kind turn reason = Some (sts, eff)"
    using assms(3) by (auto simp: transition_input_delivery_def split: option.splits)
  obtain u s1 where up: "update_delivery i (\<lambda>d. dl_state d \<in> sts \<and> (kind = ''cancelled'' \<longrightarrow> dl_source d = ''direct_human'')
               \<and> owned_by_runtime s r g d) eff s = Inr (u, s1)"
    and b: "b = (u \<noteq> None)" "u = None \<longrightarrow> s' = s1"
    using assms(3) by (cases "update_delivery i (\<lambda>d. dl_state d \<in> sts \<and> (kind = ''cancelled'' \<longrightarrow> dl_source d = ''direct_human'')
               \<and> owned_by_runtime s r g d) eff s") (auto simp: transition_input_delivery_def tr)
  show ?thesis using stale_generation_update [OF assms(1,2) up] b by (simp add: owned_by_runtime_def)
qed

lemma stale_mark:
  assumes "delivery_of s i = Some d" "dl_generation d \<noteq> g" "mark_input_delivery_queued now i r g s = Inr (b, s')"
  shows "\<not> b \<and> s' = s"
proof -
  obtain u where up: "update_delivery i (\<lambda>d. dl_state d \<in> {DOwned, DQueued} \<and> owned_by_runtime s r g d) (queued_eff now) s = Inr (u, s')"
    "b = (u \<noteq> None)"
    using assms(3) by (auto simp: mark_input_delivery_queued_def map_ok_Inr)
  show ?thesis using stale_generation_update [OF assms(1,2) up(1)] up(2) by (simp add: owned_by_runtime_def)
qed

lemma stale_stateless:
  assumes "delivery_of s i = Some d" "dl_generation d \<noteq> g"
    "transition_stateless_input_delivery l now t i c g kind turn reason s = Inr (b, s')"
  shows "\<not> b \<and> s' = s"
proof -
  obtain a where lk: "lock_stateless_authority l s t c = Inr a"
    using assms(3) by (auto simp: transition_stateless_input_delivery_def bind_ok_Inr)
  note body = assms(3) [unfolded transition_stateless_input_delivery_def lk bind_ok_simps]
  obtain sts eff where tr: "stateless_transition now kind turn reason = Some (sts, eff)"
    using body by (cases "stateless_transition now kind turn reason") (auto split: if_splits)
  obtain u s1 where up: "update_delivery i (\<lambda>d. dl_state d \<in> sts \<and> owned_by_claimant t c g d) eff s = Inr (u, s1)"
    and b: "b = (u \<noteq> None)" "u = None \<longrightarrow> s' = s1"
    using body tr by (cases "update_delivery i (\<lambda>d. dl_state d \<in> sts \<and> owned_by_claimant t c g d) eff s") (auto split: if_splits)
  show ?thesis using stale_generation_update [OF assms(1,2) up] b by (simp add: owned_by_claimant_def)
qed

text \<open>No call that names claim generation \<^verbatim>\<open>g\<close> of a delivery changes anything.\<close>

definition powerless :: "delivery_lib \<Rightarrow> inbox \<Rightarrow> uuid \<Rightarrow> int \<Rightarrow> bool" where
  "powerless l s i g \<longleftrightarrow>
     (\<forall>now r kind turn reason b s'. transition_input_delivery now i r g kind turn reason s = Inr (b, s') \<longrightarrow> \<not> b \<and> s' = s) \<and>
     (\<forall>now r b s'. mark_input_delivery_queued now i r g s = Inr (b, s') \<longrightarrow> \<not> b \<and> s' = s) \<and>
     (\<forall>now t c kind turn reason b s'.
        transition_stateless_input_delivery l now t i c g kind turn reason s = Inr (b, s') \<longrightarrow> \<not> b \<and> s' = s)"

lemma stale_powerless:
  assumes "delivery_of s i = Some d" "dl_generation d \<noteq> g"
  shows "powerless l s i g"
  unfolding powerless_def
proof (rule conjI, goal_cases)
  case 1
  show ?case by (intro allI impI) (erule stale_transition [OF assms])
next
  case 2
  show ?case
  proof (rule conjI, goal_cases)
    case 1
    show ?case by (intro allI impI) (erule stale_mark [OF assms])
  next
    case 2
    show ?case by (intro allI impI) (erule stale_stateless [OF assms])
  qed
qed

text \<open>
  C4. The claim generation is a fence of its owner: over every run a delivery has one owner per
  generation, and once a later claim took it, a call that names the earlier generation, on either
  lane, neither queues, admits, settles, defers nor cancels it and changes nothing.
\<close>
theorem superseded_claims_are_powerless:
  assumes "inbox_reachable l s" "inbox_run l s s'" "delivery_of s i = Some d" "delivery_of s' i = Some d'"
  shows "if dl_generation d' = dl_generation d then dl_owner d' = dl_owner d
    else dl_generation d < dl_generation d' \<and> powerless l s' i (dl_generation d)"
proof -
  have "outlives s s'" using run_sound [OF assms(2) reachable_ledger [OF assms(1)]] by simp
  then have "evolves d d'" using outlivesE assms(3,4) by fastforce
  then show ?thesis using stale_powerless [OF assms(4)] by (auto simp: evolves_def)
qed

text \<open>
  C5. Repeated recovery is bounded: in every reachable state a delivery counts at most five
  provider admissions since its owner last retried it, fewer than five while a claim may still
  serve it, and none on the stateless lane.
\<close>
theorem admissions_are_bounded:
  assumes "inbox_reachable l s" "d \<in> set (in_ledger s)"
  shows "0 \<le> dl_admissions d \<and> dl_admissions d \<le> PINNED_RECOVERY_ADMISSION_LIMIT \<and>
    (claimable d \<longrightarrow> dl_admissions d < PINNED_RECOVERY_ADMISSION_LIMIT) \<and> (dl_lane d = LANE_STATELESS \<longrightarrow> dl_admissions d = 0)"
proof -
  have "delivery_ok d" using reachable_ledger [OF assms(1)] assms(2) by (auto simp: ledger_ok_def)
  then show ?thesis by (auto simp: delivery_ok_def delivery_shape_def bounded_def)
qed

section \<open>Retries\<close>

lemma admit_keeps_identity:
  assumes "admit_delivery now r lane qs d s = Inr (d', s')" "delivery_of s (dl_id d) = Some d"
  shows "dl_identity d' = dl_identity d" "delivery_of s' (dl_id d) = Some d'"
    "map dl_id (in_ledger s') = map dl_id (in_ledger s)"
proof -
  have up: "dl_identity d' = dl_identity d \<and> delivery_of s' (dl_id d) = Some d' \<and> map dl_id (in_ledger s') = map dl_id (in_ledger s)"
    if "update_delivery (dl_id d) g eff s = Inr (Some d', s')" "\<And>x. dl_identity (eff x) = dl_identity x" for g eff
    using that assms(2) delivery_of_put [of s "eff d" d]
    by (auto simp: update_delivery_def put_delivery_def map_key_put dl_identity_def split: if_splits)
  have "(d' = d \<and> s' = s) \<or> (\<exists>g eff. update_delivery (dl_id d) g eff s = Inr (Some d', s') \<and> (\<forall>x. dl_identity (eff x) = dl_identity x))"
    using assms(1) stateless_requeue.identity stateless_hold.identity own_update.identity
    by (cases qs; cases "snd qs"; cases r) (fastforce simp: admit_delivery_def bind_ok_Inr split: if_splits option.splits)+
  then show "dl_identity d' = dl_identity d" "delivery_of s' (dl_id d) = Some d'"
    "map dl_id (in_ledger s') = map dl_id (in_ledger s)"
    using up assms(2) by auto
qed

text \<open>
  What a successful call leaves: the delivery it returns is in the ledger under the call's
  identity and its transcript row under the derived identifier.
\<close>

lemma queue_event_ledger:
  "queue_event seen now r lane th e n s = Inr (qs, s1) \<Longrightarrow> in_ledger s1 = in_ledger s \<and> in_rows s1 = in_rows s"
  by (auto simp: queue_event_def wake_unit_def Let_def wake_suspended_def put_session_def dest!: record_event_cases
      split: if_splits option.splits)

lemma insert_delivery_ledger:
  "insert_delivery d s = Inr s' \<Longrightarrow> in_rows s' = in_rows s \<and>
     (if delivery_of s (dl_id d) = None then in_ledger s' = in_ledger s @ [d] else s' = s)"
  by (auto simp: insert_delivery_def split: if_splits)

lemma admit_rows: "admit_delivery now r lane qs d s = Inr (d', s') \<Longrightarrow> in_rows s' = in_rows s"
  by (cases qs; cases "snd qs"; cases r)
    (auto simp: admit_delivery_def bind_ok_Inr update_delivery_def put_delivery_def split: if_splits option.splits)

lemma persist_ledger_result:
  assumes led: "persist_ledger l seen now c r lane th m inserted s = Inr (v, s')"
  shows "delivery_of s' (pc_delivery c) = Some (pd_delivery v) \<and> in_rows s' = in_rows s \<and> pd_row v = m \<and> pd_inserted v = inserted
    \<and> dl_message (pd_delivery v) = dv_row_id l (pc_delivery c) \<and>
    (case delivery_of s (pc_delivery c) of None \<Rightarrow> True
     | Some d \<Rightarrow> dl_identity (pd_delivery v) = dl_identity d \<and> map dl_id (in_ledger s') = map dl_id (in_ledger s))"
  using led
proof (rule persist_ledger_cases)
  fix qs s1 s2 d
  assume q: "queue_event seen now r lane th (delivery_of s (pc_delivery c)) (tm_seq m) s = Inr (qs, s1)"
    and i: "insert_delivery (new_delivery (dv_row_id l (pc_delivery c)) c lane th) s1 = Inr s2"
    and d: "delivery_of s2 (pc_delivery c) = Some d" and nc: "\<not> delivery_conflict (dv_row_id l (pc_delivery c)) c lane m d"
    and a: "admit_delivery now r lane qs d s2 = Inr (pd_delivery v, s')" and v: "pd_row v = m" "pd_inserted v = inserted"
  have id: "dl_id d = pc_delivery c" using d delivery_of_in by blast
  have d2: "delivery_of s2 (dl_id d) = Some d" using d id by simp
  note keep = admit_keeps_identity [OF a d2]
  have "dl_message (pd_delivery v) = dl_message d" using keep(1) by (simp add: dl_identity_def)
  then have m: "dl_message (pd_delivery v) = dv_row_id l (pc_delivery c)" using nc by (simp add: delivery_conflict_def)
  have nid: "dl_id (new_delivery (dv_row_id l (pc_delivery c)) c lane th) = pc_delivery c" by (simp add: new_delivery_def)
  have "s2 = s1" "delivery_of s (pc_delivery c) = Some d" if "delivery_of s (pc_delivery c) \<noteq> None"
    using that insert_delivery_ledger [OF i] queue_event_ledger [OF q] nid d by (auto simp: delivery_of_def)
  then show ?thesis
    using keep id m v admit_rows [OF a] insert_delivery_ledger [OF i] queue_event_ledger [OF q]
    by (auto split: option.split)
qed

end
