(* ===== verification/Input_Behaviour.thy ===== *)
theory Input_Behaviour
  imports Input_Runs
begin

text \<open>
  What the operations do on their branches: retries of a stable identity, the resolution of an
  admission a dead executor left, and the wake of the queue unit an event is for.
\<close>

section \<open>Retries\<close>

lemma insert_transcript_cases:
  assumes "insert_transcript i t r c n s = (new, s')"
  shows "(new = None \<and> s' = s \<and> row_at s i \<noteq> None) \<or> (new \<noteq> None \<and> row_at s i = None \<and> in_ledger s' = in_ledger s \<and> row_at s' i \<noteq> None)"
  using assms by (auto simp: insert_transcript_def Let_def row_at_def find_by_append split: option.splits)

lemma raise_turns_rows [simp]: "in_rows (raise_turns t n s) = in_rows s" "in_ledger (raise_turns t n s) = in_ledger s"
  by (auto simp: raise_turns_def put_session_def split: option.splits)

lemma persist_new_result:
  assumes "persist_new l seen now c r lane th s = Inr (v, s')"
  shows "delivery_of s' (pc_delivery c) = Some (pd_delivery v) \<and> dl_message (pd_delivery v) = dv_row_id l (pc_delivery c)
    \<and> row_at s' (dl_message (pd_delivery v)) = Some (pd_row v)
    \<and> (pd_inserted v \<longleftrightarrow> row_at s (dv_row_id l (pc_delivery c)) = None) \<and> (\<not> pd_inserted v \<longrightarrow> in_rows s' = in_rows s)
    \<and> (case delivery_of s (pc_delivery c) of None \<Rightarrow> True
     | Some d \<Rightarrow> dl_identity (pd_delivery v) = dl_identity d \<and> map dl_id (in_ledger s') = map dl_id (in_ledger s))"
  using assms
proof (rule persist_new_cases)
  fix new :: "transcript_row option" and s1 m
  let ?row = "dv_row_id l (pc_delivery c)"
  let ?s2 = "if new \<noteq> None then raise_turns (pc_thread c) (effective_turn s ?row c lane th) s1 else s1"
  assume ins: "insert_transcript ?row (pc_thread c) (pc_role c) (pc_content c) (effective_turn s ?row c lane th) s = (new, s1)"
    and m: "row_at s1 ?row = Some m" and led: "persist_ledger l seen now c r lane th m (new \<noteq> None) ?s2 = Inr (v, s')"
  obtain s2 where s2: "s2 = ?s2" by blast
  then have keep: "in_rows s2 = in_rows s1" "in_ledger s2 = in_ledger s1" by simp_all
  have "in_ledger s1 = in_ledger s" "new = None \<Longrightarrow> s1 = s" "new = None \<longleftrightarrow> row_at s ?row \<noteq> None"
    using insert_transcript_cases [OF ins] by auto
  then show ?thesis
    using persist_ledger_result [OF led [folded s2]] keep m
    by (auto simp: delivery_of_def row_at_def split: option.splits)
qed

lemma persist_result:
  assumes "persist_input_delivery l seen now c s = Inr (v, s')"
  shows "delivery_of s' (pc_delivery c) = Some (pd_delivery v) \<and> row_at s' (dl_message (pd_delivery v)) \<noteq> None"
  using assms by (rule persist_cases) (use persist_new_result in fastforce)+

text \<open>
  C6. A retry adds nothing: whatever ran since the first call, a second call with the same delivery
  identity returns the same delivery, inserts no transcript row and no ledger row.
\<close>
theorem a_retry_adds_nothing:
  assumes "inbox_reachable l s" "persist_input_delivery l seen now c s = Inr (v, s1)" "inbox_run l s1 s2"
    "persist_input_delivery l seen' now' c' s2 = Inr (v', s3)" "pc_delivery c' = pc_delivery c"
  shows "\<not> pd_inserted v' \<and> in_rows s3 = in_rows s2 \<and> map dl_id (in_ledger s3) = map dl_id (in_ledger s2)
    \<and> dl_identity (pd_delivery v') = dl_identity (pd_delivery v)"
proof -
  have v: "delivery_of s1 (pc_delivery c) = Some (pd_delivery v)" "row_at s1 (dl_message (pd_delivery v)) \<noteq> None"
    using persist_result [OF assms(2)] by auto
  have "ledger_ok s1" using persist_sound [OF assms(2)] reachable_ledger [OF assms(1)] by (simp add: sound_step_def)
  then have o: "outlives s1 s2" using run_sound [OF assms(3)] by blast
  obtain d where d: "delivery_of s2 (pc_delivery c) = Some d" "dl_identity d = dl_identity (pd_delivery v)"
    using outlivesE [OF o v(1)] by (auto simp: evolves_def)
  then have row: "row_at s2 (dl_message d) \<noteq> None" using outlives_row [OF o v(2)] by (simp add: dl_identity_def)
  show ?thesis
    using assms(4)
  proof (rule persist_cases)
    fix e m
    assume "delivery_of s2 (pc_delivery c') = Some e" "s3 = s2" "pd_delivery v' = e" "\<not> pd_inserted v'"
    then show ?thesis using d assms(5) by simp
  next
    fix r th lane
    assume "persist_new l seen' now' c' r lane th s2 = Inr (v', s3)"
    from persist_new_result [OF this] show ?thesis
      using d row assms(5) by (auto simp: dl_identity_def)
  qed
qed

section \<open>The admission a dead executor left\<close>

lemma lock_claimant:
  assumes "lock_stateless_authority l s t c = Inr (th, q)"
  shows "0 < sc_token c" "strip (sc_executor c) \<noteq> []" "strip (sc_uid c) \<noteq> []" "row_of (in_rq s) t = Some q"
    "stateless_queue_held c q"
  using assms by (auto simp: lock_stateless_authority_def split: if_splits option.splits sum.splits)

lemma blank_strip: "blank s \<Longrightarrow> strip s = []"
proof -
  assume "blank s"
  then have "\<forall>c \<in> set s. is_space c" by (auto simp: blank_def is_space_def)
  then have w: "dropWhile is_space s = []" by simp
  show "strip s = []" unfolding strip_def rstrip_def w by simp
qed

lemma claimed_shape:
  assumes "delivery_shape d" "dl_lane d = LANE_STATELESS" "dl_state d \<notin> {DSettled, DCancelled}"
    "0 < sc_token c" "strip (sc_executor c) \<noteq> []" "strip (sc_uid c) \<noteq> []"
  shows "delivery_shape (claimed_eff now c (same_claim c d) d)"
proof -
  have "\<not> blank (sc_executor c)" "\<not> blank (sc_uid c)" using assms(5,6) blank_strip by blast+
  moreover have "0 < dl_generation d" if "same_claim c d"
    using assms(1,2) that by (auto simp: delivery_shape_def owner_shape_iff same_claim_def)
  ultimately show ?thesis
    using assms(1-4)
    by (auto simp: delivery_shape_def claimed_eff_def admission_shape_def claim_shape_def owner_shape_iff
        settlement_shape_def cancellation_shape_iff)
qed

lemma settled_shape: "delivery_shape d \<Longrightarrow> dl_state d = DAdmitted \<Longrightarrow> delivery_shape (settled_eff now d)"
  by (auto simp: delivery_shape_def settled_eff_def admission_shape_def claim_shape_def owner_shape_iff
      settlement_shape_def cancellation_shape_iff)

lemma update_delivery_now:
  "delivery_of s i = Some d \<Longrightarrow> guard d \<Longrightarrow> delivery_shape (eff d) \<Longrightarrow>
   update_delivery i guard eff s = Inr (Some (eff d), put_delivery (eff d) s)"
  by (simp add: update_delivery_def)

lemma current_input_delivery: "current_input s th t i = Some (d, m) \<Longrightarrow> delivery_of s i = Some d \<and> dl_thread d = t"
  by (auto simp: current_input_def split: option.splits if_splits)

text \<open>
  C7. An admission of an older lease is either settled or served again by the current claimant,
  never both and never neither: with a durable end the settling call settles it and the claim takes
  nothing; without one the settling call only reports it owed, and the claim hands it back as
  queued under this lease, with a new claim generation unless the claim is the same, and without
  its old receipt.
\<close>
theorem stale_admission_is_settled_or_served:
  assumes "inbox_reachable l s" "lock_stateless_authority l s t c = Inr (th, q)" "current_input s th t i = Some (d, m)"
    "tm_role m = ''event''" "stale_stateless_admission s (sc_token c) (consumed_seq q) d m"
  shows "if admission_answered s d m
    then settle_answered_stateless_admission l now t i c s = Inr (Verdict_Settled, put_delivery (settled_eff now d) s)
       \<and> claim_stateless_input_delivery l now t i c s = Inr (None, s)
    else settle_answered_stateless_admission l now t i c s = Inr (Verdict_Owed, s)
       \<and> (let d' = claimed_eff now c (same_claim c d) d in
            claim_stateless_input_delivery l now t i c s = Inr (Some (d', m), put_delivery d' s)
            \<and> dl_state d' = DQueued \<and> dl_admitted_turn d' = None \<and> same_claim c d')"
proof -
  have d: "delivery_of s i = Some d" using current_input_delivery [OF assms(3)] by simp
  have sh: "delivery_shape d" using ok_delivery [OF reachable_ledger [OF assms(1)] d] by (simp add: delivery_ok_def)
  have st: "dl_lane d = LANE_STATELESS" "dl_state d = DAdmitted" using assms(5) by (auto simp: stale_stateless_admission_def)
  note lk = lock_claimant [OF assms(2)]
  show ?thesis
  proof (cases "admission_answered s d m")
    case True
    then show ?thesis
      using assms(2-5) st update_delivery_now [OF d, of "\<lambda>x. dl_lane x = LANE_STATELESS \<and> dl_state x = DAdmitted" "settled_eff now"]
        settled_shape [OF sh]
      by (simp add: settle_answered_stateless_admission_def claim_stateless_input_delivery_def Let_def)
  next
    case False
    have up: "update_delivery i (\<lambda>x. dl_lane x = LANE_STATELESS \<and>
          (dl_state x \<in> {DPersisted, DQueued, DDeferred} \<or> dl_state x = DAdmitted \<and> True)) (claimed_eff now c (same_claim c d)) s
        = Inr (Some (claimed_eff now c (same_claim c d) d), put_delivery (claimed_eff now c (same_claim c d) d) s)"
      by (rule update_delivery_now [OF d]) (use st claimed_shape [OF sh st(1) _ lk(1-3)] in simp_all)
    have "claim_stateless_input_delivery l now t i c s
        = Inr (Some (claimed_eff now c (same_claim c d) d, m), put_delivery (claimed_eff now c (same_claim c d) d) s)"
      using False assms(2-5) st up by (simp add: claim_stateless_input_delivery_def Let_def)
    moreover have "settle_answered_stateless_admission l now t i c s = Inr (Verdict_Owed, s)"
      using False assms(2-5) by (simp add: settle_answered_stateless_admission_def)
    ultimately show ?thesis
      using False by (simp add: Let_def claimed_eff_def same_claim_def)
  qed
qed

section \<open>The wake of the queue unit\<close>

lemma record_input_row:
  assumes "record_input_seq True now u kind n fair d = Inr (st, d')"
  shows "\<exists>q. row_of d' u = Some q \<and> state q = st \<and> st \<noteq> Done \<and> Some n \<le> input_seq q"
proof (cases "row_of d u")
  case None
  then have "find_by unit_id u (queue d) = None" by (simp add: row_of_def)
  then show ?thesis
    using assms None
    by (auto simp: record_input_seq_def record_input_sql_def Let_def row_of_def insert_row_def fresh_row_def find_by_append)
next
  case (Some r)
  let ?r = "record_input_upd now n fair r"
  have u: "unit_id ?r = u" using Some by (auto simp: record_input_upd_def Let_def row_of_def)
  have "st = state ?r \<and> d' = store d ?r"
    using assms Some by (auto simp: record_input_seq_def record_input_sql_def map_ok_Inr cas_def split: if_splits)
  moreover have "row_of (store d ?r) u = Some ?r"
    using Some u row_of_store [of d ?r u] by simp
  moreover have "state ?r \<noteq> Done" "Some n \<le> input_seq ?r"
    using sql_greatest_ge2 by (auto simp: record_input_upd_def Let_def)
  ultimately show ?thesis by blast
qed

text \<open>The unit as the call leaves it: woken, parked, or held by an executor that sees no deliveries.\<close>

definition unit_notified :: "int \<Rightarrow> qstate option \<times> string option \<Rightarrow> row \<Rightarrow> bool" where
  "unit_notified n qs q \<longleftrightarrow>
     (case qs of
        (Some st, None) \<Rightarrow> state q = st \<and> st \<in> {Queued, Leased} \<and> Some n \<le> input_seq q
      | (Some st, Some reason) \<Rightarrow> reason = ''run_queue_parked'' \<and> st = Parked \<and> state q = Parked \<and> Some n \<le> input_seq q
      | (None, Some reason) \<Rightarrow> reason = ''rolling_old_executor'' \<and> rolling_old_executor q
      | (None, None) \<Rightarrow> False)"

lemma record_event_notifies:
  assumes "record_event True now th n s = Inr (qs, s')"
  shows "\<exists>q. row_of (in_rq s') (se_id th) = Some q \<and> unit_notified n qs q"
proof (cases "case row_of (in_rq s) (se_id th) of None \<Rightarrow> False | Some q \<Rightarrow> rolling_old_executor q")
  case True
  then have "qs = (None, Some ''rolling_old_executor'')" "s' = s"
    using assms by (auto simp: record_event_def Let_def split: if_splits option.splits)
  then show ?thesis using True by (auto simp: unit_notified_def split: option.splits)
next
  case False
  then obtain st d where rec: "record_input_seq True now (se_id th) UNIT_KIND_SESSION_TURN n (se_user th) (queue_view s) = Inr (st, d)"
    and out: "qs = (Some st, if st = Parked then Some ''run_queue_parked'' else None)" "s' = s\<lparr>in_rq := d\<rparr>"
    using assms by (auto simp: record_event_def Let_def split: if_splits sum.splits)
  obtain q where q: "row_of d (se_id th) = Some q" "state q = st" "st \<noteq> Done" "Some n \<le> input_seq q"
    using record_input_row [OF rec] by blast
  then have "unit_notified n qs q" using out(1) by (cases st) (simp_all add: unit_notified_def)
  then show ?thesis using q out(2) by simp
qed

lemma session_of_id: "session_of s t = Some th \<Longrightarrow> se_id th = t"
  by (auto simp: session_of_def)

text \<open>The queue row a successful event call leaves, and the state of its delivery.\<close>

lemma persist_ledger_event:
  assumes led: "persist_ledger l True now c None LANE_STATELESS th m inserted s = Inr (v, s')"
    and live: "se_status th \<noteq> ''ended''" and "dl_state (pd_delivery v) \<notin> {DAdmitted, DSettled, DCancelled}"
  shows "\<exists>q qs. row_of (in_rq s') (se_id th) = Some q \<and> unit_notified (tm_seq m) qs q \<and> pd_row v = m \<and>
    (case snd qs of None \<Rightarrow> dl_state (pd_delivery v) = DQueued
     | Some reason \<Rightarrow> dl_state (pd_delivery v) = DDeferred \<and> dl_deferred_reason (pd_delivery v) = Some reason)"
  using led
proof (rule persist_ledger_cases)
  fix qs s1 s2 d
  assume q: "queue_event True now None LANE_STATELESS th (delivery_of s (pc_delivery c)) (tm_seq m) s = Inr (qs, s1)"
    and i: "insert_delivery (new_delivery (dv_row_id l (pc_delivery c)) c LANE_STATELESS th) s1 = Inr s2"
    and d: "delivery_of s2 (pc_delivery c) = Some d"
    and a: "admit_delivery now None LANE_STATELESS qs d s2 = Inr (pd_delivery v, s')" and v: "pd_row v = m"
  have unsettled: "dl_state d \<notin> {DAdmitted, DSettled, DCancelled}"
    using a assms(3) by (auto simp: admit_delivery_def split: if_splits)
  have nid: "dl_id (new_delivery (dv_row_id l (pc_delivery c)) c LANE_STATELESS th) = pc_delivery c"
    by (simp add: new_delivery_def)
  have same: "delivery_of s1 (pc_delivery c) = delivery_of s (pc_delivery c)"
    using queue_event_ledger [OF q] by (simp add: delivery_of_def)
  have "case delivery_of s (pc_delivery c) of None \<Rightarrow> True | Some e \<Rightarrow> dl_state e \<notin> {DAdmitted, DSettled}"
    using insert_delivery_ledger [OF i] nid same d unsettled by (auto split: option.splits if_splits)
  then have "wake_unit True now th (tm_seq m) s = Inr (qs, s1)" using q by (simp add: queue_event_def)
  then have "record_event True now th (tm_seq m) (wake_suspended (se_id th) s) = Inr (qs, s1)"
    using live by (auto simp: wake_unit_def Let_def split: if_splits)
  then obtain r where r: "row_of (in_rq s1) (se_id th) = Some r" "unit_notified (tm_seq m) qs r"
    using record_event_notifies by blast
  have "qs \<noteq> (None, None)" using r(2) by (auto simp: unit_notified_def)
  then have up: "update_delivery (dl_id d) stateless_pending
      (case snd qs of Some reason \<Rightarrow> held_back_eff now reason | None \<Rightarrow> requeued_eff now) s2 = Inr (Some (pd_delivery v), s')"
    using a unsettled by (auto simp: admit_delivery_def bind_ok_Inr split: option.splits)
  then have "in_rq s' = in_rq s2" "in_rq s2 = in_rq s1"
    using i by (auto simp: update_delivery_def put_delivery_def insert_delivery_def split: option.splits if_splits)
  moreover have "case snd qs of None \<Rightarrow> dl_state (pd_delivery v) = DQueued
     | Some reason \<Rightarrow> dl_state (pd_delivery v) = DDeferred \<and> dl_deferred_reason (pd_delivery v) = Some reason"
  proof -
    have "\<exists>x. (case snd qs of Some reason \<Rightarrow> held_back_eff now reason | None \<Rightarrow> requeued_eff now) x = pd_delivery v"
      using up by (cases "delivery_of s2 (dl_id d)") (auto simp: update_delivery_def split: if_splits)
    then obtain x where "pd_delivery v = (case snd qs of Some reason \<Rightarrow> held_back_eff now reason | None \<Rightarrow> requeued_eff now) x"
      by metis
    then show ?thesis by (cases "snd qs") (simp_all add: requeued_eff_def held_back_eff_def)
  qed
  ultimately show ?thesis using r v by (intro exI [of _ r] exI [of _ qs]) simp
qed

text \<open>
  C8. No server event waits unseen: when a call for a stateless session that is not ended returns
  an open delivery, either the delivery is queued and its unit is queued or leased with an input
  mark at or above the event, or it is deferred, and then its unit is parked with that mark or
  leased by an executor too old to see it, with the reason recorded.
\<close>
theorem an_event_wakes_its_unit:
  assumes "persist_input_delivery l True now c s = Inr (v, s')" "call_identity c = Inr None"
    "session_of s (pc_thread c) = Some th" "se_lane th = Some LANE_STATELESS" "se_status th \<noteq> ''ended''"
    "pd_disposition v = ''current''" "dl_state (pd_delivery v) \<notin> {DAdmitted, DSettled, DCancelled}"
  shows "\<exists>q. row_of (in_rq s') (pc_thread c) = Some q \<and>
    (if dl_state (pd_delivery v) = DQueued then state q \<in> {Queued, Leased} \<and> Some (tm_seq (pd_row v)) \<le> input_seq q
     else dl_state (pd_delivery v) = DDeferred \<and>
       (if dl_deferred_reason (pd_delivery v) = Some ''rolling_old_executor'' then rolling_old_executor q
        else dl_deferred_reason (pd_delivery v) = Some ''run_queue_parked'' \<and> state q = Parked
          \<and> Some (tm_seq (pd_row v)) \<le> input_seq q))"
proof -
  have "persist_new l True now c None LANE_STATELESS th s = Inr (v, s')"
    using assms(1)
  proof (rule persist_cases)
    fix d m
    assume "dl_state d \<in> {DAdmitted, DSettled} \<or> tm_rewound m" "pd_delivery v = d" "pd_disposition v = execution_disposition d m"
    then show ?thesis using assms(6,7) by (auto simp: execution_disposition_def split: if_splits)
  next
    fix r th' lane
    assume "call_identity c = Inr r" "session_of s (pc_thread c) = Some th'" "lane = case_option LANE_PINNED id (se_lane th')"
      "persist_new l True now c r lane th' s = Inr (v, s')"
    then show ?thesis using assms(2-4) by simp
  qed
  then obtain m inserted s1 where "persist_ledger l True now c None LANE_STATELESS th m inserted s1 = Inr (v, s')"
    by (rule persist_new_cases)
  from persist_ledger_event [OF this assms(5,7)] show ?thesis
    using session_of_id [OF assms(3)]
    by (auto simp: unit_notified_def split: option.splits)
qed

end
