(* ===== verification/Input_Recovery.thy ===== *)
theory Input_Recovery
  imports Input_Behaviour
begin

text \<open>
  What a new process of a pinned session does at attach: resolving the admissions a dead process
  left, then claiming everything that is pending. Both always succeed for the exact runtime of a
  thread whose deliveries are pinned, and neither leaves a row behind.
\<close>

section \<open>Statements that never raise\<close>

lemmas delivery_shape_defs = delivery_shape_def admission_shape_def claim_shape_def owner_shape_iff settlement_shape_def cancellation_shape_iff

text \<open>What the checks say of a pinned row that is neither settled nor cancelled.\<close>

lemma open_pinned:
  assumes "delivery_shape d" "dl_lane d = LANE_PINNED" "dl_state d \<in> insert DAdmitted pending_states"
  shows "0 \<le> dl_admissions d" "0 \<le> dl_generation d"
    "case dl_supersedes d of None \<Rightarrow> True | Some n \<Rightarrow> 0 < n" "case dl_revision d of None \<Rightarrow> True | Some n \<Rightarrow> 0 \<le> n"
    "dl_token d = None" "dl_executor d = None" "dl_executor_uid d = None" "dl_settled_at d = None"
    "dl_cancelled_at d = None" "dl_cancelled_turn d = None" "dl_cancelled_reason d = None"
    "dl_state d \<noteq> DAdmitted \<Longrightarrow> dl_admitted_at d = None \<and> dl_admitted_turn d = None"
proof -
  have lane: "LANE_PINNED \<noteq> LANE_STATELESS" by simp
  have st: "dl_state d \<noteq> DSettled" "dl_state d \<noteq> DCancelled" using assms(3) by (auto simp: pending_states_def)
  have o: "owner_shape d" "settlement_shape d" "cancellation_shape d" "admission_shape d"
    using assms(1) by (simp_all add: delivery_shape_def)
  show "0 \<le> dl_admissions d" "0 \<le> dl_generation d"
    "case dl_supersedes d of None \<Rightarrow> True | Some n \<Rightarrow> 0 < n" "case dl_revision d of None \<Rightarrow> True | Some n \<Rightarrow> 0 \<le> n"
    using assms(1) by (simp_all add: delivery_shape_def)
  show "dl_token d = None" "dl_executor d = None" "dl_executor_uid d = None"
    using o(1) assms(2) lane by (simp_all add: owner_shape_iff)
  show "dl_settled_at d = None" using o(2) st by (simp add: settlement_shape_def)
  show "dl_cancelled_at d = None" "dl_cancelled_turn d = None" "dl_cancelled_reason d = None"
    using o(3) st by (simp_all add: cancellation_shape_iff)
  show "dl_admitted_at d = None \<and> dl_admitted_turn d = None" if "dl_state d \<noteq> DAdmitted"
    using o(4) st that by (simp add: admission_shape_def)
qed

lemma owned_shape:
  assumes "delivery_shape d" "dl_lane d = LANE_PINNED" "dl_state d \<in> pending_states"
  shows "delivery_shape (owned_eff now r d)"
proof -
  have "dl_state d \<in> insert DAdmitted pending_states" "dl_state d \<noteq> DAdmitted"
    using assms(3) by (auto simp: pending_states_def)
  then show ?thesis
    using open_pinned [OF assms(1,2)] assms(2) by (simp add: delivery_shape_defs owned_eff_def)
qed

lemma reserved_shape:
  assumes "delivery_shape d" "pinned_admitted d"
  shows "delivery_shape (reserved_eff now r d)"
  using open_pinned [OF assms(1)] assms(2)
  by (simp add: delivery_shape_defs reserved_eff_def owned_eff_def pinned_admitted_def)

lemma parked_shape:
  assumes "delivery_shape d" "dl_lane d = LANE_PINNED" "dl_state d \<in> insert DAdmitted pending_states"
  shows "delivery_shape (parked_eff now r d)"
  using open_pinned [OF assms] assms(2)
  by (simp add: delivery_shape_defs parked_eff_def reserved_eff_def owned_eff_def)

text \<open>The row after an update, which later inserts of notices leave alone.\<close>

lemma update_hits:
  assumes "delivery_of s i = Some d" "guard d" "delivery_shape (eff d)" "dl_id (eff d) = dl_id d"
  obtains s' where "update_delivery i guard eff s = Inr (Some (eff d), s')" "delivery_of s' i = Some (eff d)"
proof (rule that)
  show "update_delivery i guard eff s = Inr (Some (eff d), put_delivery (eff d) s)" by (rule update_delivery_now) (fact assms)+
  show "delivery_of (put_delivery (eff d) s) i = Some (eff d)"
    using assms(1,4) delivery_of_put [of s "eff d" d] delivery_of_in [OF assms(1)] by simp
qed

lemma park_hits:
  assumes "delivery_of s i = Some d" "delivery_shape d" "dl_lane d = LANE_PINNED" "dl_state d \<in> insert DAdmitted pending_states"
  obtains s' where "park_at_recovery_bound l now i r n s = Inr (Some (parked_eff now r d), s')" "delivery_of s' i = Some (parked_eff now r d)"
proof -
  obtain s1 where up: "update_delivery i (\<lambda>d. dl_lane d = LANE_PINNED \<and> dl_state d \<in> insert DAdmitted pending_states)
      (parked_eff now r) s = Inr (Some (parked_eff now r d), s1)" and d: "delivery_of s1 i = Some (parked_eff now r d)"
    by (rule update_hits [OF assms(1), of "\<lambda>d. dl_lane d = LANE_PINNED \<and> dl_state d \<in> insert DAdmitted pending_states" "parked_eff now r"])
      (use assms(3,4) parked_shape [OF assms(2-4)] in \<open>auto simp: eff_defs\<close>)
  show thesis
    by (rule that, unfold park_at_recovery_bound_def up, simp) (use d in \<open>simp add: delivery_of_def\<close>)
qed

section \<open>Claiming what is pending\<close>

text \<open>One row: it ends up in the hands of this runtime, served or parked.\<close>

definition taken :: "pinned_runtime \<Rightarrow> inbox \<Rightarrow> (input_delivery \<times> transcript_row) list \<Rightarrow> input_delivery \<times> transcript_row \<Rightarrow> bool" where
  "taken r s ys x \<longleftrightarrow>
     (\<exists>d'. delivery_of s (dl_id (fst x)) = Some d' \<and> same_runtime r d' \<and> dl_state d' \<in> pending_states \<and>
        (parked_at_bound d' \<or> (d', snd x) \<in> set ys))"

definition claim_servable :: "inbox \<Rightarrow> input_delivery \<times> transcript_row \<Rightarrow> bool" where
  "claim_servable s x \<longleftrightarrow> delivery_of s (dl_id (fst x)) = Some (fst x) \<and> claimable (fst x) \<and> dl_lane (fst x) = LANE_PINNED \<and> delivery_shape (fst x)"

lemma claim_row_takes:
  assumes "claim_servable s (d, m)"
  shows "\<exists>y s'. claim_pending_row l now r (d, m) s = Inr (y, s') \<and> taken r s' (case y of None \<Rightarrow> [] | Some y \<Rightarrow> [y]) (d, m)"
proof -
  have d: "delivery_of s (dl_id d) = Some d" "dl_state d \<in> pending_states" "dl_lane d = LANE_PINNED" "delivery_shape d" "\<not> parked_at_bound d"
    using assms by (auto simp: claim_servable_def claimable_def)
  let ?n = "fst (recovery_chain_admissions s (dl_id d))"
  consider (park) "\<not> (same_runtime r d \<and> dl_state d = DQueued)" "may_reach_recovery_bound d m" "PINNED_RECOVERY_ADMISSION_LIMIT \<le> ?n"
    | (own) "\<not> (\<not> (same_runtime r d \<and> dl_state d = DQueued) \<and> may_reach_recovery_bound d m \<and> PINNED_RECOVERY_ADMISSION_LIMIT \<le> ?n)"
        "\<not> same_runtime r d \<or> dl_state d = DDeferred"
    | (kept) "\<not> (\<not> (same_runtime r d \<and> dl_state d = DQueued) \<and> may_reach_recovery_bound d m \<and> PINNED_RECOVERY_ADMISSION_LIMIT \<le> ?n)"
        "same_runtime r d" "dl_state d \<noteq> DDeferred" by blast
  then show ?thesis
  proof cases
    case park
    obtain s' where "park_at_recovery_bound l now (dl_id d) r ?n s = Inr (Some (parked_eff now r d), s')"
      "delivery_of s' (dl_id d) = Some (parked_eff now r d)"
      by (rule park_hits [OF d(1,4,3)]) (use d(2) in auto)
    then show ?thesis
      using park by (auto simp: claim_pending_row_def Let_def taken_def parked_at_bound_def eff_defs same_runtime_def pending_states_def)
  next
    case own
    obtain s' where "update_delivery (dl_id d) (\<lambda>y. dl_state y \<in> pending_states) (owned_eff now r) s = Inr (Some (owned_eff now r d), s')"
      "delivery_of s' (dl_id d) = Some (owned_eff now r d)"
      by (rule update_hits [OF d(1), of "\<lambda>y. dl_state y \<in> pending_states" "owned_eff now r"])
        (use d owned_shape in \<open>auto simp: eff_defs\<close>)
    then show ?thesis
      using own by (auto simp: claim_pending_row_def Let_def taken_def eff_defs same_runtime_def pending_states_def)
  next
    case kept
    then show ?thesis
      using d by (auto simp: claim_pending_row_def Let_def taken_def)
  qed
qed

lemma taken_mono: "taken r s ys x \<Longrightarrow> set ys \<subseteq> set zs \<Longrightarrow> delivery_of s' (dl_id (fst x)) = delivery_of s (dl_id (fst x)) \<Longrightarrow> taken r s' zs x"
  by (auto simp: taken_def)

lemma claim_loop_takes:
  assumes "distinct (map (\<lambda>x. dl_id (fst x)) xs)" "\<forall>x \<in> set xs. claim_servable s x"
  shows "\<exists>ys s'. claim_loop l now r xs s = Inr (ys, s') \<and> (\<forall>x \<in> set xs. taken r s' ys x)"
  using assms
proof (induction xs arbitrary: s)
  case (Cons x xs)
  obtain d m where x: "x = (d, m)" by (cases x)
  obtain y s1 where row: "claim_pending_row l now r (d, m) s = Inr (y, s1)" and t: "taken r s1 (case y of None \<Rightarrow> [] | Some y \<Rightarrow> [y]) (d, m)"
    using claim_row_takes Cons.prems(2) x by force
  have sv: "claim_servable s (d, m)" using Cons.prems(2) x by simp
  have t1: "touches {dl_id d} s s1"
    by (rule claim_pending_row_touches [OF row]) (use sv in \<open>auto simp: claim_servable_def\<close>)
  have s1: "\<forall>x \<in> set xs. claim_servable s1 x"
  proof
    fix z assume z: "z \<in> set xs"
    then have "dl_id (fst z) \<noteq> dl_id d" using Cons.prems(1) x by (force simp: image_iff)
    then show "claim_servable s1 z" using Cons.prems(2) z t1 by (simp add: claim_servable_def touches_def)
  qed
  have "\<exists>ys s'. claim_loop l now r xs s1 = Inr (ys, s') \<and> (\<forall>x \<in> set xs. taken r s' ys x)"
    by (rule Cons.IH) (use Cons.prems(1) s1 in simp_all)
  then obtain ys s' where rest: "claim_loop l now r xs s1 = Inr (ys, s')" "\<forall>x \<in> set xs. taken r s' ys x" by blast
  let ?zs = "case y of None \<Rightarrow> ys | Some y \<Rightarrow> y # ys"
  have "touches (set (map (\<lambda>x. dl_id (fst x)) xs)) s1 s'"
    using s1 Cons.prems(1)
    by (intro claim_loop_touches [OF rest(1)]) (auto simp: claim_servable_def)
  then have "delivery_of s' (dl_id d) = delivery_of s1 (dl_id d)" using Cons.prems(1) x by (auto simp: touches_def)
  then have "taken r s' ?zs (d, m)" using taken_mono [OF t, of ?zs s'] by (auto split: option.splits)
  moreover have "taken r s' ?zs z" if "z \<in> set xs" for z
    by (rule taken_mono [of r s' ys]) (use rest(2) that in \<open>auto split: option.splits\<close>)
  ultimately show ?case using row rest(1) x by simp
qed simp

definition pinned_deliveries :: "inbox \<Rightarrow> uuid \<Rightarrow> bool" where
  "pinned_deliveries s t \<longleftrightarrow>
     (\<forall>d \<in> set (in_ledger s). dl_thread d = t \<and> dl_state d \<in> pending_states \<longrightarrow> dl_lane d = LANE_PINNED)"

text \<open>
  C10. Attach leaves nothing behind: for the exact runtime of a pinned thread the claim succeeds, and
  every delivery that was pending in the current conversation and not parked is afterwards owned by
  this process, and either handed to it or parked at the recovery bound.
\<close>
theorem attach_takes_every_pending_input:
  assumes "inbox_reachable l s" "lock_runtime_authority s t r = Inr th" "pinned_deliveries s t"
  shows "\<exists>ys s'. claim_pending_input_deliveries l now t r s = Inr (ys, s') \<and> (\<forall>x \<in> set (pending_rows s th t). taken r s' ys x)"
proof -
  have ok: "ledger_ok s" by (rule reachable_ledger [OF assms(1)])
  have "distinct (map (\<lambda>x. dl_id (fst x)) (pending_rows s th t))"
    unfolding pending_rows_def by (intro distinct_sorted distinct_map_filter distinct_joined ok)
  moreover have "\<forall>x \<in> set (pending_rows s th t). claim_servable s x"
    using joined_in delivery_of_mem [OF ok] ok assms(3)
    by (fastforce simp: pending_rows_def claim_servable_def claimable_def pinned_deliveries_def ledger_ok_def delivery_ok_def)
  ultimately show ?thesis
    using claim_loop_takes [of "pending_rows s th t" s l now r] assms(2) by (simp add: claim_pending_input_deliveries_def)
qed

section \<open>Resolving the admissions of a dead process\<close>

definition resolved :: "pinned_runtime \<Rightarrow> inbox \<Rightarrow> (uuid \<times> stale_outcome) list \<Rightarrow> uuid \<times> bool \<times> bool \<Rightarrow> bool" where
  "resolved r s out x \<longleftrightarrow> (case x of (i, answered, later) \<Rightarrow>
     \<exists>d. delivery_of s i = Some d \<and>
       (if answered \<or> later then dl_state d = DSettled \<and> (i, if answered then Stale_Settled else Stale_History) \<in> set out
        else same_runtime r d \<and> (parked_at_bound d \<and> (i, Stale_Parked) \<in> set out \<or> dl_state d = DOwned \<and> (i, Stale_Reserved) \<in> set out)))"

definition unresolved :: "inbox \<Rightarrow> uuid \<times> bool \<times> bool \<Rightarrow> bool" where
  "unresolved s x \<longleftrightarrow> (\<exists>d. delivery_of s (fst x) = Some d \<and> pinned_admitted d \<and> delivery_shape d)"

definition only_changes :: "uuid \<Rightarrow> inbox \<Rightarrow> inbox \<Rightarrow> bool" where
  "only_changes i s s' \<longleftrightarrow> (\<forall>j. j \<noteq> i \<longrightarrow> delivery_of s' j = delivery_of s j)"

lemma update_changes: "update_delivery i g eff s = Inr (u, s') \<Longrightarrow> (\<And>d. dl_id (eff d) = dl_id d) \<Longrightarrow> only_changes i s s'"
  using update_delivery_id [of i g eff s u s'] by (simp add: only_changes_def)

lemma park_changes: "park_at_recovery_bound l now i r n s = Inr (u, s') \<Longrightarrow> only_changes i s s'"
  using park_touches [of l now i r n s u s'] by (simp add: touches_def only_changes_def)

lemma reserve_row_resolves:
  assumes "unresolved s (i, ans, later)"
  shows "\<exists>y s'. reserve_row l now r (i, ans, later) s = Inr (y, s') \<and> only_changes i s s'
    \<and> resolved r s' (case y of None \<Rightarrow> [] | Some y \<Rightarrow> [y]) (i, ans, later)"
proof -
  obtain d where d: "delivery_of s i = Some d" "pinned_admitted d" "delivery_shape d" using assms by (auto simp: unresolved_def)
  let ?n = "fst (recovery_chain_admissions s i)"
  consider (settle) "ans \<or> later" | (park) "\<not> (ans \<or> later)" "PINNED_RECOVERY_ADMISSION_LIMIT \<le> ?n"
    | (again) "\<not> (ans \<or> later)" "\<not> PINNED_RECOVERY_ADMISSION_LIMIT \<le> ?n" by blast
  then show ?thesis
  proof cases
    case settle
    obtain s' where up: "update_delivery i pinned_admitted (settled_eff now) s = Inr (Some (settled_eff now d), s')"
      "delivery_of s' i = Some (settled_eff now d)"
      by (rule update_hits [OF d(1), of pinned_admitted "settled_eff now"])
        (use d settled_shape in \<open>auto simp: eff_defs pinned_admitted_def\<close>)
    have "only_changes i s s'" by (rule update_changes [OF up(1)]) (simp add: eff_defs)
    then show ?thesis using settle up by (auto simp: reserve_row_def resolved_def eff_defs)
  next
    case park
    obtain s' where up: "park_at_recovery_bound l now i r ?n s = Inr (Some (parked_eff now r d), s')"
      "delivery_of s' i = Some (parked_eff now r d)"
      by (rule park_hits [OF d(1,3)]) (use d(2) in \<open>auto simp: pinned_admitted_def\<close>)
    then show ?thesis
      using park park_changes [OF up(1)]
      by (auto simp: reserve_row_def Let_def resolved_def parked_at_bound_def eff_defs same_runtime_def)
  next
    case again
    obtain s' where up: "update_delivery i pinned_admitted (reserved_eff now r) s = Inr (Some (reserved_eff now r d), s')"
      "delivery_of s' i = Some (reserved_eff now r d)"
      by (rule update_hits [OF d(1), of pinned_admitted "reserved_eff now r"])
        (use d reserved_shape in \<open>auto simp: eff_defs\<close>)
    have "only_changes i s s'" by (rule update_changes [OF up(1)]) (simp add: eff_defs)
    then show ?thesis using again up by (auto simp: reserve_row_def Let_def resolved_def eff_defs same_runtime_def)
  qed
qed

lemma resolved_mono:
  "resolved r s out x \<Longrightarrow> set out \<subseteq> set out' \<Longrightarrow> delivery_of s' (fst x) = delivery_of s (fst x) \<Longrightarrow> resolved r s' out' x"
  by (cases x) (fastforce simp: resolved_def split: if_splits)

lemma reserve_loop_resolves:
  assumes "distinct (map fst xs)" "\<forall>x \<in> set xs. unresolved s x"
  shows "\<exists>out s'. reserve_loop l now r xs s = Inr (out, s') \<and> (\<forall>x \<in> set xs. resolved r s' out x)
    \<and> (\<forall>j. j \<notin> set (map fst xs) \<longrightarrow> delivery_of s' j = delivery_of s j)"
  using assms
proof (induction xs arbitrary: s)
  case (Cons x xs)
  obtain i a b where x: "x = (i, a, b)" by (cases x)
  obtain y s1 where row: "reserve_row l now r (i, a, b) s = Inr (y, s1)" and ch: "only_changes i s s1"
    and res: "resolved r s1 (case y of None \<Rightarrow> [] | Some y \<Rightarrow> [y]) (i, a, b)"
    using reserve_row_resolves Cons.prems(2) x by (metis list.set_intros(1))
  have i: "i \<notin> set (map fst xs)" using Cons.prems(1) x by simp
  have s1: "\<forall>z \<in> set xs. unresolved s1 z"
  proof
    fix z assume z: "z \<in> set xs"
    then have "fst z \<noteq> i" using i by auto
    then show "unresolved s1 z" using Cons.prems(2) z ch by (simp add: unresolved_def only_changes_def)
  qed
  have "\<exists>out s'. reserve_loop l now r xs s1 = Inr (out, s') \<and> (\<forall>x \<in> set xs. resolved r s' out x)
    \<and> (\<forall>j. j \<notin> set (map fst xs) \<longrightarrow> delivery_of s' j = delivery_of s1 j)"
    by (rule Cons.IH) (use Cons.prems(1) s1 in simp_all)
  then obtain out s' where rest: "reserve_loop l now r xs s1 = Inr (out, s')" "\<forall>x \<in> set xs. resolved r s' out x"
    "\<forall>j. j \<notin> set (map fst xs) \<longrightarrow> delivery_of s' j = delivery_of s1 j" by blast
  let ?out = "case y of None \<Rightarrow> out | Some y \<Rightarrow> y # out"
  have "resolved r s' ?out (i, a, b)"
    by (rule resolved_mono [OF res]) (use rest(3) i in \<open>auto split: option.splits\<close>)
  moreover have "resolved r s' ?out z" if "z \<in> set xs" for z
    by (rule resolved_mono [of r s' out]) (use rest(2) that in \<open>auto split: option.splits\<close>)
  ultimately show ?case using row rest ch x by (auto simp: only_changes_def)
qed simp

text \<open>
  C9. No admission of a dead process stays: for the exact runtime the resolution succeeds, and
  every event an earlier process admitted is settled when its turn ended or a later input was
  admitted, and otherwise is owned by this process to be served again, or parked at the bound, each
  as the returned outcome says.
\<close>
theorem no_dead_admission_stays:
  assumes "inbox_reachable l s" "lock_runtime_authority s t r = Inr th"
  shows "\<exists>out s'. reserve_stale_pinned_admissions l now t r s = Inr (out, s') \<and>
    (\<forall>x \<in> set (stale_rows s th t (pt_runtime r)). resolved r s' out x)"
proof -
  let ?xs = "stale_rows s th t (pt_runtime r)"
  have ok: "ledger_ok s" by (rule reachable_ledger [OF assms(1)])
  have "map fst ?xs = map (\<lambda>x. dl_id (fst x)) (sort_key by_seq (filter (\<lambda>(d, m). dl_thread d = t \<and> \<not> tm_rewound m
      \<and> current_conversation th d \<and> stale_pinned_admission s (pt_runtime r) d m) (joined s)))"
    by (simp add: stale_rows_def case_prod_beta)
  then have "distinct (map fst ?xs)"
    using distinct_sorted [OF distinct_map_filter [OF distinct_joined [OF ok]]] by simp
  moreover have "\<forall>x \<in> set ?xs. unresolved s x"
    using joined_in delivery_of_mem [OF ok] ok
    by (fastforce simp: stale_rows_def unresolved_def stale_pinned_admission_def pinned_admitted_def ledger_ok_def delivery_ok_def)
  ultimately show ?thesis
    using reserve_loop_resolves [of ?xs s l now r] assms(2) by (auto simp: reserve_stale_pinned_admissions_def)
qed

end
