(* ===== verification/Input_Witnesses.thy ===== *)
theory Input_Witnesses
  imports Input_Recovery Claim_Loss_Witnesses
begin

text \<open>
  Two concrete sessions. A stateless one is woken by an officer while a pod holds its turn; a
  pinned one has an event served by a process that dies before the turn ends.
\<close>

section \<open>The officer's wake of a stateless session\<close>

definition demo_lib :: delivery_lib where
  "demo_lib = \<lparr>dv_py = int_py, dv_row_id = \<lambda>i. i + 100, dv_notice_id = \<lambda>i g. i + 1000 + nat g\<rparr>"

definition wake_call :: persist_call where
  "wake_call = \<lparr>pc_thread = 7, pc_delivery = 3, pc_role = ''event'', pc_content = lit ''wake'', pc_source = ''officer_wake'',
     pc_turn = None, pc_hint = None, pc_agent = None, pc_pod = None, pc_runtime = None, pc_session = None, pc_attach = None,
     pc_allow_subagent = False, pc_supersedes = None\<rparr>"

definition officer_thread :: session_thread where
  "officer_thread = \<lparr>se_id = 7, se_user = Some ''u'', se_agent = None, se_status = ''active'', se_lane = Some LANE_STATELESS,
     se_generation = None, se_attach = None, se_retirement = None, se_turns = 0, se_conversation = None,
     se_metadata = JObj claimed_fields, se_idle_revision = 0, se_idle_episode = None\<rparr>"

definition quiet_inbox :: inbox where
  "quiet_inbox = \<lparr>in_threads = [officer_thread], in_agents = [], in_rows = [], in_ledger = [], in_frames = [],
     in_rq = empty_db, in_next_seq = 1\<rparr>"

definition wake_row :: transcript_row where
  "wake_row = \<lparr>tm_id = 103, tm_thread = 7, tm_seq = 1, tm_role = ''event'', tm_content = lit ''wake'', tm_turn = Some 1,
     tm_execution = None, tm_rewound = False, tm_calls = None\<rparr>"

definition wake_delivery :: input_delivery where
  "wake_delivery = requeued_eff 10 (new_delivery 103 wake_call LANE_STATELESS officer_thread)"

definition wake_unit_row :: row where
  "wake_unit_row = (fresh_row 10 7 UNIT_KIND_SESSION_TURN 1)\<lparr>fair_key := Some ''u'', input_seq := Some 1, consumed_seq := Some 0\<rparr>"

definition written_inbox :: inbox where
  "written_inbox = quiet_inbox\<lparr>in_threads := [officer_thread\<lparr>se_turns := 1\<rparr>], in_rows := [wake_row], in_next_seq := 2\<rparr>"

definition woken_inbox :: inbox where
  "woken_inbox = written_inbox\<lparr>in_ledger := [wake_delivery], in_rq := insert_row (queue_view written_inbox) wake_unit_row\<rparr>"

definition wake_value :: persisted where
  "wake_value = \<lparr>pd_delivery = wake_delivery, pd_row = wake_row, pd_inserted = True, pd_queue = Some Queued, pd_disposition = ''current''\<rparr>"

lemma empty_rq [simp]: "queue empty_db = []" "next_ord empty_db = 1"
  by (simp_all add: empty_db_def)

lemma wake_source: "source_value wake_call = ''officer_wake''"
  by (simp add: source_value_def wake_call_def)

lemma wake_recorded:
  "wake_unit True 10 officer_thread 1 written_inbox
   = Inr ((Some Queued, None), written_inbox\<lparr>in_rq := insert_row (queue_view written_inbox) wake_unit_row\<rparr>)"
  by (simp add: wake_unit_def officer_thread_def wake_suspended_def session_of_def written_inbox_def quiet_inbox_def record_event_def
      row_of_def Let_def record_input_seq_def record_input_sql_def queue_view_def wake_unit_row_def fresh_row_def)

lemma wake_fields [simp]:
  "pc_thread wake_call = 7" "pc_delivery wake_call = 3" "pc_role wake_call = ''event''" "pc_content wake_call = lit ''wake''"
  "pc_turn wake_call = None" "pc_hint wake_call = None" "pc_supersedes wake_call = None" "call_identity wake_call = Inr None"
  "dv_row_id demo_lib i = i + 100" "dv_py demo_lib = int_py"
  by (simp_all add: wake_call_def demo_lib_def call_identity_def)

lemma new_wake_shape: "delivery_shape (new_delivery 103 wake_call LANE_STATELESS officer_thread)" "delivery_shape wake_delivery"
  by (simp_all add: delivery_shape_defs new_delivery_def wake_call_def officer_thread_def wake_delivery_def requeued_eff_def LANE_PINNED_def LANE_STATELESS_def)

lemma wake_ledgered:
  "persist_ledger demo_lib True 10 wake_call None LANE_STATELESS officer_thread wake_row True written_inbox = Inr (wake_value, woken_inbox)"
proof -
  let ?rq = "insert_row (queue_view written_inbox) wake_unit_row"
  let ?d = "new_delivery 103 wake_call LANE_STATELESS officer_thread"
  have q: "queue_event True 10 None LANE_STATELESS officer_thread None 1 written_inbox = Inr ((Some Queued, None), written_inbox\<lparr>in_rq := ?rq\<rparr>)"
    using wake_recorded by (simp add: queue_event_def)
  have i: "insert_delivery ?d (written_inbox\<lparr>in_rq := ?rq\<rparr>) = Inr (written_inbox\<lparr>in_rq := ?rq, in_ledger := [?d]\<rparr>)"
    using new_wake_shape(1)
    by (simp add: insert_delivery_def lane_authority_def session_of_def row_at_def delivery_of_def written_inbox_def quiet_inbox_def
        officer_thread_def wake_row_def new_delivery_def wake_source)
  have a: "admit_delivery 10 None LANE_STATELESS (Some Queued, None) ?d (written_inbox\<lparr>in_rq := ?rq, in_ledger := [?d]\<rparr>) = Inr (wake_delivery, woken_inbox)"
    using new_wake_shape(2)
    by (simp add: admit_delivery_def update_delivery_def delivery_of_def stateless_pending_def wake_delivery_def new_delivery_def
        put_delivery_def put_by_def requeued_eff_def woken_inbox_def)
  have n: "delivery_of written_inbox 3 = None" "tm_seq wake_row = 1" by (simp_all add: delivery_of_def written_inbox_def quiet_inbox_def wake_row_def)
  have f: "delivery_of (written_inbox\<lparr>in_rq := ?rq, in_ledger := [?d]\<rparr>) 3 = Some ?d" by (simp add: delivery_of_def new_delivery_def)
  have c: "\<not> delivery_conflict 103 wake_call LANE_STATELESS wake_row ?d"
    by (simp add: delivery_conflict_def new_delivery_def content_conflict_def wake_row_def wake_source)
  show ?thesis using q i a f c by (simp add: persist_ledger_def n wake_value_def)
qed

lemma wake_persisted: "persist_input_delivery demo_lib True 10 wake_call quiet_inbox = Inr (wake_value, woken_inbox)"
proof -
  have th: "session_of quiet_inbox 7 = Some officer_thread" "se_lane officer_thread = Some LANE_STATELESS"
    "delivery_of quiet_inbox 3 = None" "se_agent officer_thread = None" "se_status officer_thread = ''active''"
    by (simp_all add: session_of_def quiet_inbox_def officer_thread_def delivery_of_def)
  have ins: "insert_transcript 103 7 ''event'' (lit ''wake'') (Some 1) quiet_inbox = (Some wake_row, quiet_inbox\<lparr>in_rows := [wake_row], in_next_seq := 2\<rparr>)"
    by (simp add: insert_transcript_def row_at_def quiet_inbox_def wake_row_def Let_def)
  have turn: "effective_turn quiet_inbox 103 wake_call LANE_STATELESS officer_thread = Some 1"
    by (simp add: effective_turn_def row_at_def quiet_inbox_def officer_thread_def)
  have raised: "raise_turns 7 (Some 1) (quiet_inbox\<lparr>in_rows := [wake_row], in_next_seq := 2\<rparr>) = written_inbox"
    by (simp add: raise_turns_def session_of_def quiet_inbox_def officer_thread_def put_session_def put_by_def written_inbox_def)
  have row: "row_at (quiet_inbox\<lparr>in_rows := [wake_row], in_next_seq := 2\<rparr>) 103 = Some wake_row"
    "tm_thread wake_row = 7" "tm_role wake_row = ''event''" "tm_turn wake_row = Some 1"
    by (simp_all add: row_at_def wake_row_def)
  have "persist_new demo_lib True 10 wake_call None LANE_STATELESS officer_thread quiet_inbox = Inr (wake_value, woken_inbox)"
    using wake_ledgered by (simp add: persist_new_def turn ins row raised)
  then show ?thesis by (simp add: persist_input_delivery_def th persist_authority_def wake_source)
qed

theorem an_event_wakes_its_unit_witness:
  "row_of (in_rq woken_inbox) 7 = Some wake_unit_row \<and> state wake_unit_row \<in> {Queued, Leased} \<and> Some 1 \<le> input_seq wake_unit_row"
proof -
  have "\<exists>q. row_of (in_rq woken_inbox) 7 = Some q \<and> state q \<in> {Queued, Leased} \<and> Some 1 \<le> input_seq q"
    using an_event_wakes_its_unit [OF wake_persisted, of officer_thread]
    by (simp add: wake_value_def wake_delivery_def requeued_eff_def session_of_def quiet_inbox_def officer_thread_def new_delivery_def wake_row_def)
  moreover have "row_of (in_rq woken_inbox) 7 = Some wake_unit_row"
    by (simp add: woken_inbox_def row_of_def insert_row_def queue_view_def written_inbox_def quiet_inbox_def find_by_append wake_unit_row_def fresh_row_def)
  ultimately show ?thesis by simp
qed


lemma wake_run:
  "inbox_reachable demo_lib quiet_inbox" "inbox_run demo_lib quiet_inbox woken_inbox" "inbox_reachable demo_lib woken_inbox"
proof -
  have "in_ledger quiet_inbox = []" by (simp add: quiet_inbox_def)
  then show "inbox_reachable demo_lib quiet_inbox" unfolding inbox_reachable_def by blast
  show "inbox_run demo_lib quiet_inbox woken_inbox" by (rule r_into_rtranclp [of "inbox_move demo_lib", OF move_persist [OF wake_persisted]])
  then show "inbox_reachable demo_lib woken_inbox" using \<open>in_ledger quiet_inbox = []\<close> unfolding inbox_reachable_def by blast
qed

section \<open>Two pods serve it\<close>

definition first_pod :: stateless_claimant where
  "first_pod = \<lparr>sc_token = 1, sc_executor = lit ''pod-a'', sc_uid = lit ''u1''\<rparr>"

definition second_pod :: stateless_claimant where
  "second_pod = \<lparr>sc_token = 2, sc_executor = lit ''pod-b'', sc_uid = lit ''u2''\<rparr>"

definition pod_metadata :: "stateless_claimant \<Rightarrow> json" where
  "pod_metadata c = JObj [(ACTIVE_CLAIM_KEY, JObj [(lit ''pod'', JStr (sc_executor c)), (lit ''pod_uid'', JStr (sc_uid c)),
     (lit ''lease_token'', JInt (sc_token c))])]"

definition pod_row :: "stateless_claimant \<Rightarrow> string \<Rightarrow> row" where
  "pod_row c pod = wake_unit_row\<lparr>state := Leased, lease_token := sc_token c, leased_by := Some pod,
     input_delivery_capable_lease_token := Some (sc_token c)\<rparr>"

definition claimed_inbox :: "stateless_claimant \<Rightarrow> string \<Rightarrow> input_delivery \<Rightarrow> inbox" where
  "claimed_inbox c pod d = \<lparr>in_threads = [officer_thread\<lparr>se_turns := 1, se_metadata := pod_metadata c\<rparr>], in_agents = [],
     in_rows = [wake_row], in_ledger = [d], in_frames = [], in_rq = empty_db\<lparr>queue := [pod_row c pod]\<rparr>, in_next_seq = 2\<rparr>"

definition first_claim :: input_delivery where "first_claim = claimed_eff 20 first_pod False wake_delivery"
definition first_turn :: input_delivery where "first_turn = admitted_eff 30 (Some 1) first_claim"
definition second_claim :: input_delivery where "second_claim = claimed_eff 40 second_pod False first_turn"

lemma pod_names: "strip (lit ''pod-b'') = lit ''pod-b''" "strip (lit ''u2'') = lit ''u2''" "lit ''pod-b'' \<noteq> []" "lit ''u2'' \<noteq> []"
  "\<not> blank (lit ''pod-a'')" "\<not> blank (lit ''u1'')" "\<not> blank (lit ''pod-b'')" "\<not> blank (lit ''u2'')"
  by (simp_all add: lit_def strip_def rstrip_def is_space_def blank_def)

lemma pod_claim:
  assumes "c \<in> {first_pod, second_pod}"
  shows "active_claim_authority int_py (pod_metadata c)
    = Inr (Some (sc_token c, \<lparr>cl_pod = sc_executor c, cl_uid = sc_uid c, cl_eviction_requested = False\<rparr>))"
  using assms
  by (elim insertE) (simp_all add: active_claim_authority_def claimant_authority_def metadata_root_def pod_metadata_def
      stripped_text_def lost_names pod_names Let_def first_pod_def second_pod_def)

lemma pod_lock:
  assumes "(c, pod) \<in> {(first_pod, ''pod-a''), (second_pod, ''pod-b'')}"
  shows "lock_stateless_authority demo_lib (claimed_inbox c pod d) 7 c
    = Inr (officer_thread\<lparr>se_turns := 1, se_metadata := pod_metadata c\<rparr>, pod_row c pod)"
proof -
  have c: "c \<in> {first_pod, second_pod}" "lit pod = sc_executor c" "strip (sc_executor c) = sc_executor c" "strip (sc_uid c) = sc_uid c"
    "0 < sc_token c" "sc_executor c \<noteq> []" "sc_uid c \<noteq> []"
    using assms by (auto simp: first_pod_def second_pod_def lost_names pod_names)
  have "session_of (claimed_inbox c pod d) 7 = Some (officer_thread\<lparr>se_turns := 1, se_metadata := pod_metadata c\<rparr>)"
    "row_of (in_rq (claimed_inbox c pod d)) 7 = Some (pod_row c pod)"
    by (simp_all add: session_of_def claimed_inbox_def officer_thread_def row_of_def pod_row_def wake_unit_row_def fresh_row_def)
  then show ?thesis
    using c pod_claim [OF c(1)]
    by (simp add: lock_stateless_authority_def stateless_queue_held_def pod_row_def wake_unit_row_def fresh_row_def officer_thread_def)
qed

lemma wake_delivery_fields:
  "dl_id wake_delivery = 3" "dl_thread wake_delivery = 7" "dl_message wake_delivery = 103" "dl_lane wake_delivery = LANE_STATELESS"
  "dl_source wake_delivery = ''officer_wake''" "dl_supersedes wake_delivery = None" "dl_revision wake_delivery = Some 0"
  "dl_state wake_delivery = DQueued" "dl_generation wake_delivery = 0" "dl_token wake_delivery = None" "dl_admissions wake_delivery = 0"
  by (simp_all add: wake_delivery_def requeued_eff_def new_delivery_def wake_source officer_thread_def)

lemmas claim_chain = second_claim_def first_turn_def first_claim_def claimed_eff_def admitted_eff_def wake_delivery_fields

lemma claimed_lookup:
  "dl_id d = 3 \<Longrightarrow> delivery_of (claimed_inbox c pod d) 3 = Some d"
  "dl_id d = 3 \<Longrightarrow> put_delivery e (claimed_inbox c pod d) = claimed_inbox c pod (if dl_id e = 3 then e else d)"
  "row_at (claimed_inbox c pod d) 103 = Some wake_row"
  by (auto simp: claimed_inbox_def delivery_of_def put_delivery_def put_by_def row_at_def wake_row_def)

lemma claimed_shapes: "delivery_shape first_claim" "delivery_shape first_turn"
  using new_wake_shape(2) pod_names(5,6)
  by (auto simp: delivery_shape_defs first_turn_def admitted_eff_def first_claim_def claimed_eff_def first_pod_def wake_delivery_fields
      LANE_PINNED_def LANE_STATELESS_def)

lemma first_claimed:
  "claim_stateless_input_delivery demo_lib 20 7 3 first_pod (claimed_inbox first_pod ''pod-a'' wake_delivery)
   = Inr (Some (first_claim, wake_row), claimed_inbox first_pod ''pod-a'' first_claim)"
proof -
  have "current_input (claimed_inbox first_pod ''pod-a'' wake_delivery) (officer_thread\<lparr>se_turns := 1, se_metadata := md\<rparr>) 7 3
      = Some (wake_delivery, wake_row)" for md
    by (simp add: current_input_def claimed_lookup wake_delivery_fields current_conversation_def officer_thread_def) (simp add: wake_row_def)
  moreover have "\<not> stale_stateless_admission s n w wake_delivery wake_row" for s n w
    by (simp add: stale_stateless_admission_def wake_delivery_fields)
  moreover have "\<not> same_claim first_pod wake_delivery" "tm_role wake_row = ''event''"
    by (simp_all add: same_claim_def wake_delivery_fields wake_row_def)
  ultimately show ?thesis
    using claimed_shapes(1) pod_lock [of first_pod "''pod-a''" wake_delivery]
    by (simp add: claim_stateless_input_delivery_def update_delivery_def claimed_lookup wake_delivery_fields first_claim_def [symmetric])
       (simp add: first_claim_def claimed_eff_def wake_delivery_fields)
qed

lemma first_admitted:
  "transition_stateless_input_delivery demo_lib 30 7 3 first_pod 1 ''admitted'' (Some 1) None (claimed_inbox first_pod ''pod-a'' first_claim)
   = Inr (True, claimed_inbox first_pod ''pod-a'' first_turn)"
proof -
  have id: "dl_id first_claim = 3" "dl_id first_turn = 3" by (simp_all add: claim_chain)
  have "dl_state first_claim = DQueued" "owned_by_claimant 7 first_pod 1 first_claim"
    by (simp_all add: claim_chain owned_by_claimant_def same_claim_def first_pod_def)
  moreover have "idle_exit 7 (claimed_inbox c pod d) = claimed_inbox c pod d" for c pod d
    by (simp add: idle_exit_def session_of_def claimed_inbox_def officer_thread_def)
  ultimately show ?thesis
    using claimed_shapes(2) pod_lock [of first_pod "''pod-a''" first_claim]
    by (simp add: transition_stateless_input_delivery_def stateless_transition_def update_delivery_def claimed_lookup id first_turn_def [symmetric])
qed

lemma beside_moves:
  "inbox_move demo_lib woken_inbox (claimed_inbox first_pod ''pod-a'' wake_delivery)"
  "inbox_move demo_lib (claimed_inbox first_pod ''pod-a'' d) (claimed_inbox second_pod ''pod-b'' d)"
  by (rule move_beside, simp_all add: woken_inbox_def claimed_inbox_def row_at_def written_inbox_def)+

lemma run_one: "inbox_move l a b \<Longrightarrow> inbox_run l a b" by (rule r_into_rtranclp)
lemma run_snoc: "inbox_run l a b \<Longrightarrow> inbox_move l b c \<Longrightarrow> inbox_run l a c" by (rule rtranclp.rtrancl_into_rtrancl)

lemma admitted_run:
  "inbox_run demo_lib woken_inbox (claimed_inbox first_pod ''pod-a'' first_turn)"
  "inbox_run demo_lib woken_inbox (claimed_inbox second_pod ''pod-b'' first_turn)"
proof -
  show 1: "inbox_run demo_lib woken_inbox (claimed_inbox first_pod ''pod-a'' first_turn)"
    by (rule run_snoc [OF run_snoc [OF run_one [OF beside_moves(1)] move_claim_stateless [OF first_claimed]]
        move_transition_stateless [OF first_admitted]])
  show "inbox_run demo_lib woken_inbox (claimed_inbox second_pod ''pod-b'' first_turn)"
    by (rule run_snoc [OF 1 beside_moves(2)])
qed

lemma run_reachable: "inbox_reachable l a \<Longrightarrow> inbox_run l a b \<Longrightarrow> inbox_reachable l b"
  unfolding inbox_reachable_def by (meson rtranclp_trans)

lemma owed_turn:
  "stale_stateless_admission (claimed_inbox second_pod ''pod-b'' first_turn) 2 (consumed_seq (pod_row second_pod ''pod-b'')) first_turn wake_row"
  "\<not> admission_answered (claimed_inbox second_pod ''pod-b'' first_turn) first_turn wake_row"
  by (simp_all add: stale_stateless_admission_def admission_answered_def superseded_def claimed_inbox_def claim_chain first_pod_def
      pod_row_def wake_unit_row_def wake_row_def)

lemma owed_input:
  "current_input (claimed_inbox second_pod ''pod-b'' first_turn) (officer_thread\<lparr>se_turns := 1, se_metadata := md\<rparr>) 7 3
   = Some (first_turn, wake_row)"
proof -
  have "dl_id first_turn = 3" "dl_thread first_turn = 7" "dl_message first_turn = 103" "dl_revision first_turn = Some 0" "\<not> tm_rewound wake_row"
    by (simp_all add: claim_chain wake_row_def)
  then show ?thesis by (simp add: current_input_def claimed_lookup current_conversation_def officer_thread_def)
qed

lemma not_same_pod: "\<not> same_claim second_pod first_turn"
  by (simp add: same_claim_def claim_chain first_pod_def second_pod_def)

theorem stale_admission_is_settled_or_served_witness:
  "settle_answered_stateless_admission demo_lib 40 7 3 second_pod (claimed_inbox second_pod ''pod-b'' first_turn)
      = Inr (Verdict_Owed, claimed_inbox second_pod ''pod-b'' first_turn) \<and>
   claim_stateless_input_delivery demo_lib 40 7 3 second_pod (claimed_inbox second_pod ''pod-b'' first_turn)
      = Inr (Some (second_claim, wake_row), claimed_inbox second_pod ''pod-b'' second_claim) \<and> dl_state second_claim = DQueued"
proof -
  have id: "dl_id first_turn = 3" "dl_id second_claim = 3" by (simp_all add: claim_chain)
  have "tm_role wake_row = ''event''" by (simp add: wake_row_def)
  then show ?thesis
    using stale_admission_is_settled_or_served [OF run_reachable [OF wake_run(3) admitted_run(2)] pod_lock owed_input, of 40] owed_turn
      not_same_pod id
    by (simp add: Let_def claimed_lookup second_claim_def [symmetric] second_pod_def [THEN arg_cong [of _ _ sc_token]])
qed

lemma second_claimed:
  "claim_stateless_input_delivery demo_lib 40 7 3 second_pod (claimed_inbox second_pod ''pod-b'' first_turn)
   = Inr (Some (second_claim, wake_row), claimed_inbox second_pod ''pod-b'' second_claim)"
proof -
  have "delivery_shape second_claim"
    unfolding second_claim_def
    using claimed_shape [OF claimed_shapes(2), of second_pod 40] not_same_pod by (simp add: claim_chain second_pod_def pod_names)
  moreover have "dl_id first_turn = 3" "dl_id second_claim = 3" "dl_lane first_turn = LANE_STATELESS" "dl_state first_turn = DAdmitted"
    "tm_role wake_row = ''event''" "sc_token second_pod = 2"
    by (simp_all add: claim_chain wake_row_def second_pod_def)
  ultimately show ?thesis
    using owed_turn not_same_pod pod_lock [of second_pod "''pod-b''" first_turn] owed_input
    by (simp add: claim_stateless_input_delivery_def update_delivery_def claimed_lookup second_claim_def [symmetric])
qed

lemma second_run: "inbox_run demo_lib woken_inbox (claimed_inbox second_pod ''pod-b'' second_claim)"
  by (rule run_snoc [OF admitted_run(2) move_claim_stateless [OF second_claimed]])

lemma claim_lookups:
  "delivery_of woken_inbox 3 = Some wake_delivery" "delivery_of (claimed_inbox first_pod ''pod-a'' first_turn) 3 = Some first_turn"
  "delivery_of (claimed_inbox second_pod ''pod-b'' second_claim) 3 = Some second_claim"
  by (simp_all add: delivery_of_def woken_inbox_def claimed_inbox_def claim_chain)

theorem deliveries_are_durable_witness:
  "\<exists>d'. delivery_of (claimed_inbox second_pod ''pod-b'' second_claim) 3 = Some d' \<and> dl_identity d' = dl_identity wake_delivery
    \<and> 0 \<le> dl_generation d'"
  using deliveries_are_durable [OF wake_run(3) second_run claim_lookups(1)] by (simp add: wake_delivery_fields)

theorem superseded_claims_are_powerless_witness:
  "powerless demo_lib (claimed_inbox second_pod ''pod-b'' second_claim) 3 1"
proof -
  have mid: "inbox_run demo_lib (claimed_inbox first_pod ''pod-a'' first_turn) (claimed_inbox second_pod ''pod-b'' second_claim)"
    by (rule run_snoc [OF run_one [OF beside_moves(2)] move_claim_stateless [OF second_claimed]])
  show ?thesis
    using superseded_claims_are_powerless [OF run_reachable [OF wake_run(3) admitted_run(1)] mid claim_lookups(2,3)]
    by (simp add: claim_chain)
qed

definition replay_value :: persisted where
  "replay_value = replayed first_turn wake_row ''current''"

lemma wake_replayed:
  "persist_input_delivery demo_lib True 50 wake_call (claimed_inbox first_pod ''pod-a'' first_turn)
   = Inr (replay_value, claimed_inbox first_pod ''pod-a'' first_turn)"
proof -
  have d: "dl_message first_turn = 103" "dl_state first_turn = DAdmitted" "dl_thread first_turn = 7" "dl_source first_turn = ''officer_wake''"
    "dl_supersedes first_turn = None" "dl_lane first_turn = LANE_STATELESS" by (simp_all add: claim_chain)
  have th: "session_of (claimed_inbox first_pod ''pod-a'' first_turn) 7
      = Some (officer_thread\<lparr>se_turns := 1, se_metadata := pod_metadata first_pod\<rparr>)" "se_lane officer_thread = Some LANE_STATELESS"
    by (simp_all add: session_of_def claimed_inbox_def officer_thread_def)
  have "terminal_replay demo_lib wake_call None first_turn wake_row = Inr replay_value"
    by (simp add: terminal_replay_def replay_conflict_def content_conflict_def d wake_source wake_row_def replay_value_def
        execution_disposition_def)
  then show ?thesis using th d claim_lookups(2) by (simp add: persist_input_delivery_def claimed_lookup)
qed

theorem a_retry_adds_nothing_witness:
  "\<not> pd_inserted replay_value \<and> dl_identity (pd_delivery replay_value) = dl_identity wake_delivery"
  using a_retry_adds_nothing [OF wake_run(1) wake_persisted admitted_run(1) wake_replayed] by (simp add: wake_value_def)

section \<open>An event of a pinned session\<close>

definition event_call :: persist_call where
  "event_call = \<lparr>pc_thread = 8, pc_delivery = 4, pc_role = ''event'', pc_content = lit ''note'', pc_source = ''officer_wake'',
     pc_turn = Some 2, pc_hint = None, pc_agent = None, pc_pod = None, pc_runtime = None, pc_session = None, pc_attach = None,
     pc_allow_subagent = False, pc_supersedes = None\<rparr>"

definition pinned_thread :: "uuid \<Rightarrow> uuid \<Rightarrow> int \<Rightarrow> session_thread" where
  "pinned_thread g a n = \<lparr>se_id = 8, se_user = None, se_agent = Some 5, se_status = ''active'', se_lane = Some LANE_PINNED,
     se_generation = Some g, se_attach = Some a, se_retirement = None, se_turns = n, se_conversation = None,
     se_metadata = JNull, se_idle_revision = 0, se_idle_episode = None\<rparr>"

definition pinned_inbox :: "uuid \<Rightarrow> uuid \<Rightarrow> int \<Rightarrow> transcript_row list \<Rightarrow> input_delivery list \<Rightarrow> inbox" where
  "pinned_inbox g a n rows ds = \<lparr>in_threads = [pinned_thread g a n],
     in_agents = [\<lparr>sa_id = 5, sa_thread = Some 8, sa_pod = Some (lit ''pod-a''), sa_status = ''ready''\<rparr>],
     in_rows = rows, in_ledger = ds, in_frames = [], in_rq = empty_db, in_next_seq = 1 + int (length rows)\<rparr>"

definition first_process :: pinned_runtime where
  "first_process = \<lparr>pt_agent = 5, pt_pod = lit ''pod-a'', pt_runtime = 21, pt_session = 21, pt_attach = 31\<rparr>"

definition second_process :: pinned_runtime where
  "second_process = \<lparr>pt_agent = 5, pt_pod = lit ''pod-a'', pt_runtime = 22, pt_session = 22, pt_attach = 32\<rparr>"

definition event_row :: transcript_row where
  "event_row = \<lparr>tm_id = 104, tm_thread = 8, tm_seq = 1, tm_role = ''event'', tm_content = lit ''note'', tm_turn = Some 2,
     tm_execution = None, tm_rewound = False, tm_calls = None\<rparr>"

definition event_delivery :: input_delivery where
  "event_delivery = new_delivery 104 event_call LANE_PINNED (pinned_thread 21 31 0)"

definition event_owned :: input_delivery where "event_owned = owned_eff 20 first_process event_delivery"
definition event_turn :: input_delivery where "event_turn = counted_eff 30 (Some 2) event_owned"

abbreviation event_inbox :: "uuid \<Rightarrow> uuid \<Rightarrow> input_delivery \<Rightarrow> inbox" where
  "event_inbox g a d \<equiv> pinned_inbox g a 2 [event_row] [d]"

lemma event_fields [simp]:
  "pc_thread event_call = 8" "pc_delivery event_call = 4" "pc_role event_call = ''event''" "pc_content event_call = lit ''note''"
  "pc_turn event_call = Some 2" "pc_hint event_call = None" "pc_supersedes event_call = None" "call_identity event_call = Inr None"
  "source_value event_call = ''officer_wake''"
  by (simp_all add: event_call_def call_identity_def source_value_def)

lemma event_delivery_fields [simp]:
  "dl_id event_delivery = 4" "dl_thread event_delivery = 8" "dl_message event_delivery = 104" "dl_lane event_delivery = LANE_PINNED"
  "dl_source event_delivery = ''officer_wake''" "dl_supersedes event_delivery = None" "dl_revision event_delivery = Some 0"
  "dl_state event_delivery = DPersisted" "dl_generation event_delivery = 0" "dl_agent event_delivery = None"
  "dl_admissions event_delivery = 0" "dl_deferred_reason event_delivery = None"
  by (simp_all add: event_delivery_def new_delivery_def pinned_thread_def)

lemma event_shapes: "delivery_shape event_delivery" "delivery_shape event_owned" "delivery_shape event_turn"
proof -
  show 1: "delivery_shape event_delivery" by (simp add: delivery_shape_defs event_delivery_def new_delivery_def pinned_thread_def)
  then show 2: "delivery_shape event_owned" unfolding event_owned_def by (rule owned_shape) (simp_all add: pending_states_def)
  show "delivery_shape event_turn"
    using 2 by (auto simp: delivery_shape_defs event_turn_def event_owned_def eff_defs)
qed

lemma event_lookup:
  "session_of (pinned_inbox g a n rows ds) 8 = Some (pinned_thread g a n)"
  "dl_id d = 4 \<Longrightarrow> delivery_of (pinned_inbox g a n rows [d]) 4 = Some d"
  "dl_id d = 4 \<Longrightarrow> put_delivery e (pinned_inbox g a n rows [d]) = pinned_inbox g a n rows [if dl_id e = 4 then e else d]"
  "row_at (pinned_inbox g a n [event_row] ds) 104 = Some event_row"
  "agent_of (pinned_inbox g a n rows ds) 5 = Some \<lparr>sa_id = 5, sa_thread = Some 8, sa_pod = Some (lit ''pod-a''), sa_status = ''ready''\<rparr>"
  by (auto simp: pinned_inbox_def session_of_def pinned_thread_def delivery_of_def put_delivery_def put_by_def row_at_def event_row_def agent_of_def)

lemma event_persisted:
  "persist_input_delivery demo_lib True 10 event_call (pinned_inbox 21 31 0 [] [])
   = Inr (\<lparr>pd_delivery = event_delivery, pd_row = event_row, pd_inserted = True, pd_queue = None, pd_disposition = ''current''\<rparr>,
       event_inbox 21 31 event_delivery)"
proof -
  let ?th = "pinned_thread 21 31 0"
  have th: "se_lane ?th = Some LANE_PINNED" "se_retirement ?th = None" "se_status ?th = ''active''" by (simp_all add: pinned_thread_def)
  have none: "delivery_of (pinned_inbox g a n rows []) i = None" for g a n rows i by (simp add: delivery_of_def pinned_inbox_def)
  have ins: "insert_transcript 104 8 ''event'' (lit ''note'') (Some 2) (pinned_inbox 21 31 0 [] []) = (Some event_row, pinned_inbox 21 31 0 [event_row] [])"
    by (simp add: insert_transcript_def row_at_def pinned_inbox_def event_row_def Let_def)
  have turn: "effective_turn (pinned_inbox 21 31 0 [] []) 104 event_call LANE_PINNED ?th = Some 2"
    by (simp add: effective_turn_def row_at_def pinned_inbox_def)
  have raised: "raise_turns 8 (Some 2) (pinned_inbox 21 31 0 [event_row] []) = pinned_inbox 21 31 2 [event_row] []"
    by (simp add: raise_turns_def event_lookup) (simp add: put_session_def put_by_def pinned_inbox_def pinned_thread_def)
  have row: "tm_thread event_row = 8" "tm_role event_row = ''event''" "tm_turn event_row = Some 2" by (simp_all add: event_row_def)
  have i: "insert_delivery event_delivery (pinned_inbox 21 31 2 [event_row] []) = Inr (event_inbox 21 31 event_delivery)"
    using event_shapes(1) none
    by (simp add: insert_delivery_def lane_authority_def event_lookup) (simp add: pinned_thread_def pinned_inbox_def)
  have c: "\<not> delivery_conflict 104 event_call LANE_PINNED event_row event_delivery"
    by (simp add: delivery_conflict_def content_conflict_def)
  have led: "persist_ledger demo_lib True 10 event_call None LANE_PINNED ?th event_row True (pinned_inbox 21 31 2 [event_row] [])
    = Inr (\<lparr>pd_delivery = event_delivery, pd_row = event_row, pd_inserted = True, pd_queue = None, pd_disposition = ''current''\<rparr>,
        event_inbox 21 31 event_delivery)"
    using i c by (simp add: persist_ledger_def none queue_event_def event_delivery_def [symmetric] event_lookup admit_delivery_def)
  show ?thesis
    using led by (simp add: persist_input_delivery_def th none event_lookup persist_authority_def persist_new_def turn ins row raised)
qed

lemma event_run:
  "inbox_reachable demo_lib (event_inbox 21 31 event_delivery)"
  unfolding inbox_reachable_def
  by (intro exI [of _ "pinned_inbox 21 31 0 [] []"] conjI run_one move_persist [OF event_persisted]) (simp add: pinned_inbox_def)

lemma event_locks:
  "lock_runtime_authority (event_inbox 21 31 d) 8 first_process = Inr (pinned_thread 21 31 2)"
  "lock_runtime_authority (event_inbox 22 32 d) 8 second_process = Inr (pinned_thread 22 32 2)"
  using lost_names
  by (simp_all add: lock_runtime_authority_def first_process_def second_process_def event_lookup)
    (simp_all add: pinned_thread_def LANE_PINNED_def LANE_STATELESS_def)

lemma event_current: "current_conversation (pinned_thread g a n) d \<longleftrightarrow> dl_revision d \<in> {None, Some 0}"
  by (auto simp: current_conversation_def pinned_thread_def split: option.splits)

lemma event_joined: "dl_message d = 104 \<Longrightarrow> joined (event_inbox g a d) = [(d, event_row)]"
proof -
  assume m: "dl_message d = 104"
  have "in_ledger (event_inbox g a d) = [d]" by (simp add: pinned_inbox_def)
  then show ?thesis by (simp add: joined_def m event_lookup)
qed

lemma event_pending:
  "pending_rows (event_inbox 21 31 event_delivery) (pinned_thread 21 31 2) 8 = [(event_delivery, event_row)]"
  by (simp add: pending_rows_def event_joined event_current pending_states_def parked_at_bound_def) (simp add: event_row_def)

theorem attach_takes_every_pending_input_witness:
  "\<exists>ys s'. claim_pending_input_deliveries demo_lib 20 8 first_process (event_inbox 21 31 event_delivery) = Inr (ys, s')
     \<and> taken first_process s' ys (event_delivery, event_row)"
proof -
  have "pinned_deliveries (event_inbox 21 31 event_delivery) 8" by (simp add: pinned_deliveries_def) (simp add: pinned_inbox_def)
  from attach_takes_every_pending_input [OF event_run event_locks(1) this, of 20] show ?thesis by (simp add: event_pending)
qed

lemma event_claimed:
  "claim_pending_input_deliveries demo_lib 20 8 first_process (event_inbox 21 31 event_delivery)
   = Inr ([(event_owned, event_row)], event_inbox 21 31 event_owned)"
proof -
  have "\<not> may_reach_recovery_bound event_delivery event_row" "\<not> same_runtime first_process event_delivery" "dl_id event_owned = 4"
    by (simp_all add: may_reach_recovery_bound_def same_runtime_def event_owned_def eff_defs)
  then show ?thesis
    using event_shapes(2)
    by (simp add: claim_pending_input_deliveries_def event_locks event_pending claim_pending_row_def update_delivery_def event_lookup
        pending_states_def event_owned_def [symmetric])
qed

lemma event_admitted:
  "transition_input_delivery 30 4 first_process 1 ''admitted'' (Some 2) None (event_inbox 21 31 event_owned)
   = Inr (True, event_inbox 21 31 event_turn)"
proof -
  have id: "dl_id event_owned = 4" "dl_id event_turn = 4" "dl_thread event_turn = 8" "dl_state event_owned = DOwned"
    by (simp_all add: event_turn_def event_owned_def eff_defs)
  have "owned_by_runtime (event_inbox 21 31 event_owned) first_process 1 event_owned"
    by (simp add: owned_by_runtime_def same_runtime_def live_binding_def event_owned_def eff_defs event_lookup first_process_def)
      (simp add: pinned_thread_def)
  moreover have "idle_exit 8 (event_inbox 21 31 d) = event_inbox 21 31 d" for d
    by (simp add: idle_exit_def event_lookup) (simp add: pinned_thread_def)
  ultimately show ?thesis
    using event_shapes(3) id
    by (simp add: transition_input_delivery_def pinned_transition_def update_delivery_def event_lookup event_turn_def [symmetric])
qed

lemma event_beside: "inbox_move demo_lib (event_inbox 21 31 d) (event_inbox 22 32 d)"
  by (rule move_beside) (simp_all add: pinned_inbox_def row_at_def)

lemma event_died: "inbox_reachable demo_lib (event_inbox 22 32 event_turn)"
  by (rule run_reachable [OF event_run run_snoc [OF run_snoc [OF run_one [OF move_claim_pending [OF event_claimed]]
      move_transition [OF event_admitted]] event_beside]])

theorem admissions_are_bounded_witness:
  "dl_admissions event_turn = 1 \<and> 0 \<le> dl_admissions event_turn \<and> dl_admissions event_turn \<le> PINNED_RECOVERY_ADMISSION_LIMIT"
proof -
  have "event_turn \<in> set (in_ledger (event_inbox 22 32 event_turn))" by (simp add: pinned_inbox_def)
  from admissions_are_bounded [OF event_died this] show ?thesis by (simp add: event_turn_def event_owned_def eff_defs)
qed

lemma event_stale:
  "stale_rows (event_inbox 22 32 event_turn) (pinned_thread 22 32 2) 8 22 = [(4, False, False)]"
proof -
  let ?s = "event_inbox 22 32 event_turn"
  have d: "dl_id event_turn = 4" "dl_message event_turn = 104" "dl_thread event_turn = 8" "dl_revision event_turn = Some 0"
    "dl_lane event_turn = LANE_PINNED" "dl_state event_turn = DAdmitted" "dl_source event_turn = ''officer_wake''"
    "dl_runtime event_turn = Some 21" "dl_supersedes event_turn = None"
    by (simp_all add: event_turn_def event_owned_def eff_defs first_process_def)
  have "\<not> superseded ?s event_turn event_row" "\<not> pinned_admission_answered ?s event_turn event_row" "\<not> later_pinned_admission ?s event_turn"
    by (simp_all add: superseded_def pinned_admission_answered_def admission_answered_def turn_completed_frame_def later_pinned_admission_def
        d pinned_inbox_def event_row_def)
  then show ?thesis
    using d by (simp add: stale_rows_def event_joined stale_pinned_admission_def event_current) (simp add: event_row_def)
qed

theorem no_dead_admission_stays_witness:
  "\<exists>out s'. reserve_stale_pinned_admissions demo_lib 40 8 second_process (event_inbox 22 32 event_turn) = Inr (out, s')
     \<and> resolved second_process s' out (4, False, False)"
  using no_dead_admission_stays [OF event_died event_locks(2), of 40] event_stale by (simp add: second_process_def)

end
