(* ===== verification/Spec2Isabelle.thy ===== *)
theory Spec2Isabelle
  imports Run_Queue_Reaper Run_Queue_Admission Control_Witnesses Interrupt_Witnesses
    Reap_Witnesses Repair_Witnesses Todo_Behaviour Resource_Conservation Key_Ring_Behaviour
    Idle_Witnesses Input_Witnesses
begin

text \<open>
  A verification library for the SRW repository, a platform that runs remote agent workers. Paths
  are under \<^verbatim>\<open>src/\<close>.

  \<^bold>\<open>The program.\<close> An orchestrator (\<^verbatim>\<open>src/orchestrator\<close>) admits work into one PostgreSQL
  database; stateless executor pods (\<^verbatim>\<open>src/agent\<close>) claim units of it from a run queue under
  leases, run a chat turn or a worker batch and complete it. A reaper takes over expired leases.
  While a turn runs, users send controls and interrupts to the session through two durable
  inboxes; the lease owner drains them and acknowledges each in the thread's event journal. Inside
  a job the agent keeps its plan in a todo manager. VM backed workspaces wait for capacity, which
  the orchestrator accounts and grants fairly; a workspace whose owner waits for a human is released
  after a warm window. Requests to language models rotate through a ring
  of API keys.

  \<^bold>\<open>The run queue.\<close> \<^verbatim>\<open>Run_Queue\<close> translates the statements of
  \<^verbatim>\<open>src/shared/run_queue/queries.py\<close>: a \<^verbatim>\<open>row\<close> is a row of \<^verbatim>\<open>run_queue\<close>, a
  \<^verbatim>\<open>db\<close> the tables the statements read, each statement a guarded update \<^verbatim>\<open>cas u guard eff\<close>
  that returns the row before and after, or raises on the partial unique index of
  \<^verbatim>\<open>dedup_key\<close>. \<^verbatim>\<open>Run_Queue_Laws\<close> states what a guarded update promises (locales
  \<^verbatim>\<open>row_update\<close>, \<^verbatim>\<open>settling_update\<close>, \<^verbatim>\<open>fenced_update\<close>, \<^verbatim>\<open>releasing_update\<close>) and interprets
  them on every statement; \<^verbatim>\<open>Run_Queue_Steps\<close> is the interleaving of all operations as a step
  relation with its invariants; \<^verbatim>\<open>Run_Queue_Safety\<close>, \<^verbatim>\<open>Run_Queue_Behaviour\<close>,
  \<^verbatim>\<open>Run_Queue_Reaper\<close> and \<^verbatim>\<open>Run_Queue_Admission\<close> hold the guarantees: exclusive leases,
  fencing by token, monotone watermarks, no stranded input, the refinement of an abstract lease,
  and what each operation does on every branch.

  \<^bold>\<open>The session world.\<close> \<^verbatim>\<open>Session_World\<close> puts the tables of a chat session beside the queue:
  threads, agents, control and interrupt requests, permission prompts and the event journal
  (\<^verbatim>\<open>src/shared/event_journal\<close>). Every function of a session component maps a world to a
  result and a world, or to an exception, which rolls its transaction back.

  \<^bold>\<open>Controls.\<close> \<^verbatim>\<open>Thread_Controls\<close> is \<^verbatim>\<open>src/shared/thread_controls/queries.py\<close>,
  \<^verbatim>\<open>Control_Drain\<close> the owner's half in \<^verbatim>\<open>src/agent/api/persistent_app.py\<close>,
  \<^verbatim>\<open>Control_Admission\<close> \<^verbatim>\<open>src/orchestrator/services/thread_control_inbox.py\<close>.
  \<^verbatim>\<open>Control_Lanes\<close> is the switch of a session to the pinned lane,
  \<^verbatim>\<open>src/orchestrator/services/stateless_vm_upgrade_handoff.py\<close>.
  \<^verbatim>\<open>Control_Inbox\<close> and \<^verbatim>\<open>Control_Steps\<close> hold the invariant that ties the inbox to the control
  watermark of the queue row, over runs in which sessions change lanes: away from the stateless
  lane at any time, back to it with no request waiting, no agent bound and level control marks. \<^verbatim>\<open>Control_Receipts\<close> the round trip between what the runtime
  journals and what the validator reads, \<^verbatim>\<open>Control_Behaviour\<close> and \<^verbatim>\<open>Control_Witnesses\<close> the
  properties and a concrete session.

  \<^bold>\<open>Interrupts.\<close> \<^verbatim>\<open>Thread_Interrupts\<close> is \<^verbatim>\<open>src/shared/thread_interrupts/queries.py\<close>,
  \<^verbatim>\<open>Interrupt_Owner\<close> admission, the journal write, the signal to the turn and the drain loop,
  \<^verbatim>\<open>Interrupt_Recovery\<close> the settlement by the reaper after a steal
  (\<^verbatim>\<open>src/orchestrator/services/run_queue_reaper.py\<close>). \<^verbatim>\<open>Interrupt_Inbox\<close> and
  \<^verbatim>\<open>Interrupt_Runs\<close> hold the marker invariant over runs, \<^verbatim>\<open>Interrupt_Behaviour\<close>,
  \<^verbatim>\<open>Interrupt_Drain\<close> and \<^verbatim>\<open>Interrupt_Witnesses\<close> the properties: an interrupted input is
  consumed exactly once, the drain loop ends, nothing of a stolen lease stays open.

  \<^bold>\<open>Lost claimants.\<close> When a lease is stolen the pod that held it may still write, so the session
  is parked until that pod is known to be gone. \<^verbatim>\<open>Session_Retirement\<close> is the ledger of
  \<^verbatim>\<open>src/shared/session_retirement.py\<close>: the active claim, the losses, the hold with the
  disposition to give back, acknowledgement and restoration. \<^verbatim>\<open>Steal_Journal\<close> and
  \<^verbatim>\<open>Session_Steal\<close> are the steal of \<^verbatim>\<open>run_queue_reaper.py\<close> with its journal frames and the
  expiry of permission prompts (\<^verbatim>\<open>session_permission_retirement.py\<close>); \<^verbatim>\<open>Claim_Reconcile\<close> the
  repairs, the rotation over held threads, the settlement against Kubernetes' answers and the whole
  \<^verbatim>\<open>reap_cycle\<close>. \<^verbatim>\<open>Tool_Debt\<close> is \<^verbatim>\<open>src/shared/session_tool_debt.py\<close>; \<^verbatim>\<open>Queue_Verbs\<close> what
  owners and operators may do to a parked unit (\<^verbatim>\<open>stateless_queue_state.py\<close>,
  \<^verbatim>\<open>run_queue_admin.py\<close>, \<^verbatim>\<open>session_unknown_tool_results.py\<close>). \<^verbatim>\<open>Claim_Loss_Laws\<close> states the
  frame laws of the queue, \<^verbatim>\<open>Claim_Loss_Runs\<close> the interleaving of all of them as a step relation,
  \<^verbatim>\<open>Claim_Loss_Behaviour\<close>, \<^verbatim>\<open>Claim_Loss_Types\<close> and \<^verbatim>\<open>Repair_Behaviour\<close> the properties: a
  session with an unresolved loss is held in every reachable world, the hold is restored by exactly
  the acknowledgement of its pod, reachable ledgers parse, prompts expire once, the owner's decision
  leaves no unanswered call, every held thread gets its turn. \<^verbatim>\<open>Claim_Loss_Witnesses\<close> and
  \<^verbatim>\<open>Repair_Witnesses\<close> are concrete sessions. \<^verbatim>\<open>Reap_Cycle_Runs\<close> shows that a whole
  \<^verbatim>\<open>reap_cycle\<close> is a run of the step relation, so the invariants of the interleaving hold after
  every cycle. \<^verbatim>\<open>Worker_Hold\<close> is the hook that the cycle calls for worker batches: the execution
  hold of \<^verbatim>\<open>worker_execution_hold.py\<close>, the admission of a workspace recovery
  (\<^verbatim>\<open>vm_workspace_recovery_store.py\<close>) and the guarded steal; what the tables of jobs and attempts
  say is an argument that may be anything. In a reconciliation pass Kubernetes' answer is one
  function of pod and uid. \<^verbatim>\<open>Claim_Proof\<close> shows that only a pod seen
  terminated under its exact uid leaves the ledger; \<^verbatim>\<open>Reap_Witnesses\<close> applies both. The search
  of executor pods nobody names is a definition without properties.

  \<^bold>\<open>Todo manager.\<close> \<^verbatim>\<open>Todo_Manager\<close>, \<^verbatim>\<open>Todo_Laws\<close> and \<^verbatim>\<open>Todo_Behaviour\<close> are
  \<^verbatim>\<open>src/agent/managers/todo.py\<close>: unique names, one task closed per completion, an ending work
  loop, exact staging, lossless checkpoints. The managers considered are those the methods build,
  loaded lists included, as long as no loaded list has a name twice and \<^verbatim>\<open>add\<close>, which no other module
  calls, does not run into a loaded name. \<^verbatim>\<open>Todo_Templates\<close> shows that the lists the
  phases load (the templates of \<^verbatim>\<open>loader.py\<close> and the fallback of \<^verbatim>\<open>agent/core/phase.py\<close>)
  satisfy this; a list that does not can stall the work loop, which is a property of its own.

  \<^bold>\<open>Capacity.\<close> \<^verbatim>\<open>Resource_Vector\<close>, \<^verbatim>\<open>Resource_Fairness\<close>, \<^verbatim>\<open>Resource_Accounting\<close> and
  \<^verbatim>\<open>Resource_Conservation\<close> are \<^verbatim>\<open>src/shared/vm_resource_admission.py\<close>,
  \<^verbatim>\<open>vm_resource_fairness.py\<close> and \<^verbatim>\<open>vm_resource_accounting.py\<close>: charges, nomination order,
  occupancy, no overcommitment.

  \<^bold>\<open>Key ring.\<close> \<^verbatim>\<open>Key_Ring\<close> and \<^verbatim>\<open>Key_Ring_Behaviour\<close> are
  \<^verbatim>\<open>src/shared/runtime/llm/key_ring.py\<close> and the rotation in \<^verbatim>\<open>reasoning_chat.py\<close>, refined
  from a contract over the history of failures.

  \<^bold>\<open>Idle workspaces.\<close> \<^verbatim>\<open>Idle_Policy\<close> is \<^verbatim>\<open>src/shared/workspace_idle_policy.py\<close>: the
  episode of a human wait, the decision whether its workspace may be released and the reduction of
  its events; \<^verbatim>\<open>Idle_Store\<close> is \<^verbatim>\<open>workspace_idle_store.py\<close>, the owner rows behind a revision
  fence, with the runs of committed calls. \<^verbatim>\<open>Idle_Laws\<close> says what each event keeps,
  \<^verbatim>\<open>Idle_Behaviour\<close> has the round trip of documents (locale \<^verbatim>\<open>episode_codec\<close>), the invariant
  of the rows, the fence, the clock that never runs backwards and the exact meaning of
  \<^verbatim>\<open>eligible\<close>; \<^verbatim>\<open>Idle_Witnesses\<close> a concrete wait.

  \<^bold>\<open>Input delivery.\<close> Every input a session is sent is a transcript row with a row in a
  ledger that says who may run it and proves when its one paid turn began; the code is
  \<^verbatim>\<open>src/shared/persistent_input_delivery.py\<close>. \<^verbatim>\<open>Input_Ledger\<close> has the tables, the checks and
  the trigger's reading of them, the SQL conditions on what a turn left behind and the chain of
  superseded inputs, walked 64 deep as in the query. \<^verbatim>\<open>Input_Delivery\<close> has the two authorities
  (the runtime of a pinned thread, the lease of a stateless one), the park at the recovery bound
  and the stateless claim, settlement and transitions; \<^verbatim>\<open>Input_Pinned\<close> the claim at attach, the
  resolution of admissions a dead process left, the owner's retry and the transitions of the exact
  owner; \<^verbatim>\<open>Input_Persist\<close> the idempotent \<^verbatim>\<open>persist_input_delivery\<close>, whose queue half calls
  \<^verbatim>\<open>record_input_seq\<close> of \<^verbatim>\<open>Run_Queue\<close> on the view \<^verbatim>\<open>queue_view\<close> of these tables.
  \<^verbatim>\<open>Input_Laws\<close> states what an update of the ledger promises (locale \<^verbatim>\<open>ledger_update\<close>) and
  interprets it on every statement, \<^verbatim>\<open>Input_Steps\<close> shows each operation is built from them,
  \<^verbatim>\<open>Input_Runs\<close> interleaves the operations with any change to the tables beside the ledger that
  keeps the transcript: deliveries are durable, a superseded claim is powerless, admissions are
  bounded. \<^verbatim>\<open>Input_Behaviour\<close> and \<^verbatim>\<open>Input_Recovery\<close> have what each call leaves: a retry adds
  nothing, an event wakes its unit, the admission of a dead executor is settled or served again,
  attach takes everything. \<^verbatim>\<open>Input_Witnesses\<close> follows two concrete sessions. UUIDs derived from
  names and JSON parsing are parameters (\<^verbatim>\<open>delivery_lib\<close>); the times of persisting and updating and
  the columns of \<^verbatim>\<open>threads\<close> nothing here reads are not kept.

  \<^bold>\<open>Shared.\<close> \<^verbatim>\<open>Prelude\<close> has keyed tables, SQL functions on nullable values and results as
  sums; \<^verbatim>\<open>Py_Text\<close> and \<^verbatim>\<open>Py_Json\<close> Python text and the JSON values of untyped code.

  \<^bold>\<open>Conventions.\<close> Integers of the Python code are unbounded and \<^verbatim>\<open>int\<close> here; bounds are
  stated where the code or the schema checks them. Timestamps are rationals in seconds, UUIDs
  natural numbers. Time, random values, UUIDs and the Python and PostgreSQL library functions
  (JSON parsing, \<^verbatim>\<open>int\<close> on text, \<^verbatim>\<open>repr\<close>, timestamps as text) are arguments. One statement
  or one transaction is one atomic step, as row locks make it; interleaving between steps is
  arbitrary. The drain loops take fuel: one more than the number of pending requests is enough,
  which is what their liveness and termination properties say.

  \<^bold>\<open>Not modelled.\<close> The data access layer \<^verbatim>\<open>src/orchestrator/database/postgres.py\<close> and the
  schema's triggers (SQL over tables the model does not have, but for the one that guards inserts of the input
  ledger); the in-memory queues of \<^verbatim>\<open>src/agent/api/session_input.py\<close>; Kubernetes provisioning and the VM
  controller (effects on a cluster); the agent graph, the turn executor and language model calls;
  web, voice and MCP adapters; the front end. Of session retirement the End transaction and of the
  retry route its pinned branch, which work on tables and services outside the model. The workspace classification and the effects of
  undo, compaction and upgrade enter the control inbox as arguments.
\<close>

end
